(* ===== verification/Prelude.thy ===== *)
theory Prelude
  imports Main "HOL-Library.AList" "HOL-Library.Char_ord" "HOL-Library.List_Lexorder"
begin

text \<open>
  What every component theory shares: Go's 64-bit integers as \<open>int\<close> with the wrap-around
  written out, Go maps as association lists with distinct keys, Go instants and durations
  as nanosecond counts, results of fallible functions, and the collections of rewrite rules
  the component proofs use.
\<close>

named_theorems i64 "bounds and wrap-around of 64-bit integers"
named_theorems gomap "lookup, update and removal on Go maps"
named_theorems res "results of fallible functions"

section \<open>64-bit integers\<close>

text \<open>
  A Go \<open>int64\<close> is modelled as an \<open>int\<close>. Checked code compares against
  \<open>math.MaxInt64\<close> before it adds; unchecked arithmetic whose result may leave the range is
  written with \<open>wrap64\<close>.
\<close>

type_synonym i64 = int

definition max_i64 :: i64 where
  "max_i64 = 9223372036854775807"

definition min_i64 :: i64 where
  "min_i64 = - 9223372036854775808"

definition in_i64 :: "int \<Rightarrow> bool" where
  "in_i64 x \<longleftrightarrow> min_i64 \<le> x \<and> x \<le> max_i64"

definition wrap64 :: "int \<Rightarrow> i64" where
  "wrap64 x = (x + 9223372036854775808) mod 18446744073709551616 - 9223372036854775808"

text \<open>The saturating addition that every counter of the program uses when it debits.\<close>

definition sat_add64 :: "i64 \<Rightarrow> i64 \<Rightarrow> i64" where
  "sat_add64 used n = (if n > max_i64 - used then max_i64 else used + n)"

lemmas i64_consts = max_i64_def min_i64_def

lemma max_i64_pos [simp]: "0 < max_i64" "0 \<le> max_i64" "1 \<le> max_i64"
  by (simp_all add: max_i64_def)

lemma in_i64_nonneg [i64]: "0 \<le> x \<Longrightarrow> in_i64 x \<longleftrightarrow> x \<le> max_i64"
  by (auto simp: in_i64_def i64_consts)

lemma wrap64_in_range [i64]: "in_i64 x \<Longrightarrow> wrap64 x = x"
  by (auto simp: in_i64_def wrap64_def i64_consts)

lemma wrap64_in_i64: "in_i64 (wrap64 x)"
proof -
  have "0 \<le> (x + 9223372036854775808) mod 18446744073709551616"
    by (rule pos_mod_sign) simp
  moreover have "(x + 9223372036854775808) mod 18446744073709551616 < 18446744073709551616"
    by (rule pos_mod_bound) simp
  ultimately show ?thesis by (simp add: in_i64_def wrap64_def i64_consts)
qed

text \<open>The difference of two non-negative 64-bit values always fits.\<close>

lemma wrap64_diff_nonneg [i64]:
  "0 \<le> a \<Longrightarrow> a \<le> max_i64 \<Longrightarrow> 0 \<le> b \<Longrightarrow> b \<le> max_i64 \<Longrightarrow> wrap64 (a - b) = a - b"
  by (auto simp: in_i64_def i64_consts intro!: wrap64_in_range)

lemma sat_add64_eq: "sat_add64 a b = min max_i64 (a + b)"
  by (auto simp: sat_add64_def)

lemma sat_add64_bounds [i64]:
  assumes "0 \<le> a" "a \<le> max_i64" "0 \<le> b"
  shows "a \<le> sat_add64 a b" "0 \<le> sat_add64 a b" "sat_add64 a b \<le> max_i64"
  using assms by (auto simp: sat_add64_def)

lemma sat_add64_zero [simp]: "a \<le> max_i64 \<Longrightarrow> sat_add64 a 0 = a"
  by (simp add: sat_add64_def)

lemma sat_add64_assoc:
  "0 \<le> b \<Longrightarrow> 0 \<le> c \<Longrightarrow> sat_add64 (sat_add64 a b) c = sat_add64 a (b + c)"
  by (auto simp: sat_add64_def)

section \<open>Instants and durations\<close>

text \<open>
  A \<open>time.Time\<close> is the number of nanoseconds since Go's zero instant, so that
  \<open>t.IsZero()\<close> is \<open>t = 0\<close>, \<open>Before\<close> is \<open><\<close>, and a map miss on a
  \<open>map[string]time.Time\<close> reads \<open>0\<close>. A \<open>time.Duration\<close> is a number of
  nanoseconds. Monotonic clock readings are not distinguished from wall-clock readings.
\<close>

type_synonym gotime = int
type_synonym duration = int

definition second :: duration where "second = 1000000000"
definition hour :: duration where "hour = 3600 * second"

text \<open>\<open>t.Sub(u)\<close> saturates at the bounds of \<open>time.Duration\<close>.\<close>

definition time_sub :: "gotime \<Rightarrow> gotime \<Rightarrow> duration" where
  "time_sub t u = max min_i64 (min max_i64 (t - u))"

lemma time_sub_mono: "t \<le> t' \<Longrightarrow> time_sub t u \<le> time_sub t' u"
  by (auto simp: time_sub_def)

lemma time_sub_pos_iff [simp]: "0 < time_sub t u \<longleftrightarrow> u < t"
  by (auto simp: time_sub_def i64_consts)

lemma time_sub_le: "u \<le> t \<Longrightarrow> time_sub t u \<le> t - u"
  by (auto simp: time_sub_def i64_consts)

section \<open>Go maps\<close>

text \<open>
  A Go map is an association list whose keys are distinct; iteration order is not
  specified by the language, so every loop over a map is modelled by an operation whose
  outcome does not depend on the order, or over the sorted keys where the source sorts.
\<close>

type_synonym ('k, 'v) gomap = "('k \<times> 'v) list"

definition gwf :: "('k, 'v) gomap \<Rightarrow> bool" where
  "gwf m \<longleftrightarrow> distinct (map fst m)"

definition gget :: "('k, 'v) gomap \<Rightarrow> 'k \<Rightarrow> 'v option" where
  "gget m k = map_of m k"

definition gput :: "'k \<Rightarrow> 'v \<Rightarrow> ('k, 'v) gomap \<Rightarrow> ('k, 'v) gomap" where
  "gput k v m = AList.update k v m"

definition gdel :: "'k \<Rightarrow> ('k, 'v) gomap \<Rightarrow> ('k, 'v) gomap" where
  "gdel k m = filter (\<lambda>(k', _). k' \<noteq> k) m"

definition gfilter :: "('k \<Rightarrow> 'v \<Rightarrow> bool) \<Rightarrow> ('k, 'v) gomap \<Rightarrow> ('k, 'v) gomap" where
  "gfilter P m = filter (\<lambda>(k, v). P k v) m"

definition gkeys :: "('k, 'v) gomap \<Rightarrow> 'k list" where
  "gkeys m = map fst m"

text \<open>\<open>sortedKeys\<close>: the keys in the byte order of \<open>sort.Strings\<close>.\<close>

definition sortedKeys :: "('k::linorder, 'v) gomap \<Rightarrow> 'k list" where
  "sortedKeys m = sort (map fst m)"

lemma gwf_Nil [simp]: "gwf []"
  by (simp add: gwf_def)

lemma gget_Nil [simp]: "gget [] k = None"
  by (simp add: gget_def)

lemma gget_Cons [gomap]: "gget ((k, v) # m) k' = (if k' = k then Some v else gget m k')"
  by (simp add: gget_def)

lemma gget_gput [gomap]: "gget (gput k v m) k' = (if k' = k then Some v else gget m k')"
  by (simp add: gget_def gput_def update_conv')

lemma gget_gput_same [simp]: "gget (gput k v m) k = Some v"
  by (simp add: gget_gput)

lemma gget_gput_other [simp]: "k' \<noteq> k \<Longrightarrow> gget (gput k v m) k' = gget m k'"
  by (simp add: gget_gput)

lemma gget_gdel [gomap]: "gget (gdel k m) k' = (if k' = k then None else gget m k')"
  by (induction m) (auto simp: gdel_def gget_def)

lemma gget_gfilter [gomap]:
  "gwf m \<Longrightarrow> gget (gfilter P m) k =
     (case gget m k of None \<Rightarrow> None | Some v \<Rightarrow> if P k v then Some v else None)"
proof (induction m)
  case Nil
  then show ?case by (simp add: gfilter_def)
next
  case (Cons a m)
  obtain k' v where a: "a = (k', v)" by (cases a)
  from Cons.prems a have wf: "gwf m" and new: "gget m k' = None"
    by (auto simp: gwf_def gget_def map_of_eq_None_iff)
  have drop: "gfilter P ((k', v) # m) = (if P k' v then (k', v) # gfilter P m else gfilter P m)"
    by (simp add: gfilter_def)
  show ?case using Cons.IH [OF wf] new
    by (auto simp: a gget_Cons drop split: option.splits)
qed

lemma gwf_gput [simp]: "gwf m \<Longrightarrow> gwf (gput k v m)"
  by (simp add: gwf_def gput_def distinct_update)

lemma gwf_filter_keys: "gwf m \<Longrightarrow> gwf (filter P m)"
  by (auto simp: gwf_def distinct_map inj_on_def)

lemma gwf_gdel [simp]: "gwf m \<Longrightarrow> gwf (gdel k m)"
  by (simp add: gdel_def gwf_filter_keys)

lemma gwf_gfilter [simp]: "gwf m \<Longrightarrow> gwf (gfilter P m)"
  by (simp add: gfilter_def gwf_filter_keys)

lemma length_gput [gomap]:
  "length (gput k v m) = (if gget m k = None then Suc (length m) else length m)"
  by (induction m) (auto simp: gput_def gget_def)

lemma length_gdel_le: "length (gdel k m) \<le> length m"
  by (simp add: gdel_def)

lemma length_gfilter_le: "length (gfilter P m) \<le> length m"
  by (simp add: gfilter_def)

lemma gget_in_set: "gget m k = Some v \<Longrightarrow> (k, v) \<in> set m"
  by (simp add: gget_def map_of_SomeD)

lemma in_set_gget: "gwf m \<Longrightarrow> (k, v) \<in> set m \<Longrightarrow> gget m k = Some v"
  by (simp add: gget_def gwf_def)

lemma gget_set_iff: "gwf m \<Longrightarrow> gget m k = Some v \<longleftrightarrow> (k, v) \<in> set m"
  using gget_in_set in_set_gget by metis

lemma gget_None_iff: "gget m k = None \<longleftrightarrow> k \<notin> fst ` set m"
  by (simp add: gget_def map_of_eq_None_iff)

lemma length_gfilter_less:
  assumes "gget m k = Some v" "\<not> P k v"
  shows "length (gfilter P m) < length m"
proof -
  have "(k, v) \<in> set m" using assms(1) by (rule gget_in_set)
  then show ?thesis
    unfolding gfilter_def by (rule length_filter_less) (simp add: assms(2))
qed

lemma set_sortedKeys [simp]: "set (sortedKeys m) = fst ` set m"
  by (simp add: sortedKeys_def)

lemma distinct_sortedKeys: "gwf m \<Longrightarrow> distinct (sortedKeys m)"
  by (simp add: sortedKeys_def gwf_def)

text \<open>Changing every value of a map in place.\<close>

definition gmapv :: "('k \<Rightarrow> 'v \<Rightarrow> 'w) \<Rightarrow> ('k, 'v) gomap \<Rightarrow> ('k, 'w) gomap" where
  "gmapv f m = map (\<lambda>(k, v). (k, f k v)) m"

lemma keys_gmapv [simp]: "map fst (gmapv f m) = map fst m"
  by (induction m) (auto simp: gmapv_def)

lemma gwf_gmapv [simp]: "gwf (gmapv f m) = gwf m"
  unfolding gwf_def keys_gmapv ..

lemma gget_gmapv [gomap]: "gget (gmapv f m) k = map_option (f k) (gget m k)"
  by (induction m) (auto simp: gmapv_def gget_def)

text \<open>A quantity summed over the entries of a map.\<close>

definition gsum :: "('k \<Rightarrow> 'v \<Rightarrow> int) \<Rightarrow> ('k, 'v) gomap \<Rightarrow> int" where
  "gsum f m = sum_list (map (\<lambda>(k, v). f k v) m)"

lemma gsum_Nil [simp]: "gsum f [] = 0"
  by (simp add: gsum_def)

lemma gsum_Cons [simp]: "gsum f ((k, v) # m) = f k v + gsum f m"
  by (simp add: gsum_def)

lemma gsum_gput:
  "gwf m \<Longrightarrow> gsum f (gput k v m) = gsum f m + f k v - (case gget m k of None \<Rightarrow> 0 | Some v0 \<Rightarrow> f k v0)"
proof (induction m)
  case Nil
  then show ?case by (simp add: gput_def gsum_def)
next
  case (Cons a m)
  obtain k' v' where a: "a = (k', v')" by (cases a)
  show ?case
  proof (cases "k = k'")
    case True
    have "gput k v (a # m) = (k, v) # m" by (simp add: gput_def a True)
    then show ?thesis by (simp add: a True gget_Cons)
  next
    case False
    then have "gput k v (a # m) = (k', v') # gput k v m" by (simp add: gput_def a)
    moreover have "gwf m" using Cons.prems by (simp add: gwf_def a)
    ultimately show ?thesis using Cons.IH False by (simp add: a gget_Cons)
  qed
qed

lemma gsum_gdel:
  "gwf m \<Longrightarrow> gsum f (gdel k m) = gsum f m - (case gget m k of None \<Rightarrow> 0 | Some v0 \<Rightarrow> f k v0)"
proof (induction m)
  case Nil
  then show ?case by (simp add: gdel_def)
next
  case (Cons a m)
  obtain k' v' where a: "a = (k', v')" by (cases a)
  have wf: "gwf m" and new: "gget m k' = None"
    using Cons.prems by (auto simp: gwf_def a gget_def map_of_eq_None_iff)
  have "gdel k (a # m) = (if k = k' then gdel k m else (k', v') # gdel k m)"
    by (simp add: gdel_def a)
  then show ?case using Cons.IH [OF wf] new by (auto simp: a gget_Cons split: option.splits)
qed

lemma gsum_gmapv: "gsum f (gmapv g m) = gsum (\<lambda>k v. f k (g k v)) m"
  by (induction m) (auto simp: gmapv_def gsum_def)

lemma gsum_cong:
  "gwf m \<Longrightarrow> (\<And>k v. gget m k = Some v \<Longrightarrow> f k v = g k v) \<Longrightarrow> gsum f m = gsum g m"
  unfolding gsum_def by (intro arg_cong [where f = sum_list] map_cong) (auto simp: gget_set_iff)

lemma gsum_zero: "(\<And>k v. (k, v) \<in> set m \<Longrightarrow> f k v = 0) \<Longrightarrow> gsum f m = 0"
  by (induction m) (auto simp: gsum_def)

lemma gsum_ge_entry:
  assumes "gwf m" "gget m k = Some v" "\<And>k v. gget m k = Some v \<Longrightarrow> 0 \<le> f k v"
  shows "f k v \<le> gsum f m"
proof -
  have "gsum f m = gsum f (gdel k m) + f k v" using gsum_gdel [OF assms(1), of f k] assms(2) by simp
  moreover have "0 \<le> gsum f (gdel k m)"
    unfolding gsum_def using assms(1,3)
    by (intro sum_list_nonneg) (auto simp: gdel_def gget_set_iff)
  ultimately show ?thesis by simp
qed

text \<open>Reading a \<open>map[string]time.Time\<close>: a missing entry is the zero instant.\<close>

definition time_at :: "('k, gotime) gomap \<Rightarrow> 'k \<Rightarrow> gotime" where
  "time_at m k = (case gget m k of None \<Rightarrow> 0 | Some t \<Rightarrow> t)"

section \<open>Fallible functions\<close>

text \<open>
  A Go function that returns \<open>(T, error)\<close> is a function into a sum: \<open>Inl\<close> carries the
  error, \<open>Inr\<close> the value. \<open>rbind\<close> is the \<open>if err != nil { return err }\<close> idiom.
\<close>

definition rbind :: "'e + 'a \<Rightarrow> ('a \<Rightarrow> 'e + 'b) \<Rightarrow> 'e + 'b" where
  "rbind r f = (case r of Inl e \<Rightarrow> Inl e | Inr x \<Rightarrow> f x)"

lemma rbind_simps [simp, res]: "rbind (Inl e) f = Inl e" "rbind (Inr x) f = f x"
  by (simp_all add: rbind_def)

lemma rbind_Inr_iff [res]: "rbind r f = Inr y \<longleftrightarrow> (\<exists>x. r = Inr x \<and> f x = Inr y)"
  by (cases r) simp_all

lemma rbind_InrE: "rbind r f = Inr y \<Longrightarrow> (\<And>x. r = Inr x \<Longrightarrow> f x = Inr y \<Longrightarrow> thesis) \<Longrightarrow> thesis"
  by (cases r) simp_all

text \<open>A loop that may return early with an error.\<close>

fun rfold :: "('a \<Rightarrow> 's \<Rightarrow> 'e + 's) \<Rightarrow> 'a list \<Rightarrow> 's \<Rightarrow> 'e + 's" where
  "rfold f [] s = Inr s"
| "rfold f (x # xs) s = rbind (f x s) (rfold f xs)"

lemma rfold_append: "rfold f (xs @ ys) s = rbind (rfold f xs s) (rfold f ys)"
  by (induction xs arbitrary: s) (auto simp: rbind_def split: sum.splits)

lemma rfold_cong [fundef_cong]:
  assumes "xs = ys" "s = t" "\<And>x s. x \<in> set ys \<Longrightarrow> f x s = g x s"
  shows "rfold f xs s = rfold g ys t"
  using assms
proof (induction ys arbitrary: xs s t)
  case Nil
  then show ?case by simp
next
  case (Cons y ys)
  then show ?case by (auto simp: rbind_def split: sum.splits)
qed

text \<open>Invariants of such loops.\<close>

lemma rfold_invariant:
  assumes "rfold f xs s = Inr t" "P s"
    and "\<And>x s s'. x \<in> set xs \<Longrightarrow> P s \<Longrightarrow> f x s = Inr s' \<Longrightarrow> P s'"
  shows "P t"
  using assms
proof (induction xs arbitrary: s)
  case Nil
  then show ?case by simp
next
  case (Cons x xs)
  from Cons.prems(1) obtain s' where s': "f x s = Inr s'" "rfold f xs s' = Inr t"
    by (auto elim: rbind_InrE)
  have "P s'" by (rule Cons.prems(3) [OF _ Cons.prems(2) s'(1)]) simp
  then show ?case by (rule Cons.IH [OF s'(2)]) (auto intro: Cons.prems(3))
qed

text \<open>The same with the part of the list that the loop has gone through.\<close>

lemma rfold_prefix:
  assumes "rfold f xs s = Inr t" "P [] s"
    and "\<And>ys x zs s s'. xs = ys @ x # zs \<Longrightarrow> P ys s \<Longrightarrow> f x s = Inr s' \<Longrightarrow> P (ys @ [x]) s'"
  shows "P xs t"
proof -
  have "P (us @ vs) t" if "rfold f vs s = Inr t" "P us s" "xs = us @ vs" for us vs s
    using that
  proof (induction vs arbitrary: us s)
    case Nil
    then show ?case by simp
  next
    case (Cons v vs)
    from Cons.prems(1) obtain s' where s': "f v s = Inr s'" "rfold f vs s' = Inr t"
      by (auto elim: rbind_InrE)
    have "P (us @ [v]) s'" by (rule assms(3) [OF Cons.prems(3,2) s'(1)])
    from Cons.IH [OF s'(2) this] Cons.prems(3) show ?case by simp
  qed
  from this [OF assms(1,2)] show ?thesis by simp
qed

text \<open>A fallible change of every value of a map.\<close>

fun gmapM :: "('k \<Rightarrow> 'v \<Rightarrow> 'e + 'v) \<Rightarrow> ('k, 'v) gomap \<Rightarrow> 'e + ('k, 'v) gomap" where
  "gmapM f [] = Inr []"
| "gmapM f ((k, v) # m) = rbind (f k v) (\<lambda>v'. rbind (gmapM f m) (\<lambda>m'. Inr ((k, v') # m')))"

lemma gmapM_gmapv:
  "gmapM f m = Inr m' \<Longrightarrow> m' = gmapv (\<lambda>k v. case f k v of Inl _ \<Rightarrow> v | Inr v' \<Rightarrow> v') m"
  by (induction f m arbitrary: m' rule: gmapM.induct) (auto simp: gmapv_def elim!: rbind_InrE)

lemma gmapM_each: "gmapM f m = Inr m' \<Longrightarrow> (k, v) \<in> set m \<Longrightarrow> \<exists>v'. f k v = Inr v'"
  by (induction f m arbitrary: m' rule: gmapM.induct) (auto elim!: rbind_InrE)

lemma gmapM_gget:
  assumes "gmapM f m = Inr m'" "gget m k = Some v"
  shows "\<exists>v'. f k v = Inr v' \<and> gget m' k = Some v'"
proof -
  obtain v' where "f k v = Inr v'" using gmapM_each [OF assms(1)] gget_in_set [OF assms(2)] by blast
  then show ?thesis using gmapM_gmapv [OF assms(1)] assms(2) by (simp add: gget_gmapv)
qed

lemma gmapM_gget_rev:
  assumes "gmapM f m = Inr m'" "gget m' k = Some v'"
  shows "\<exists>v. f k v = Inr v' \<and> gget m k = Some v"
proof -
  from assms obtain v where v: "gget m k = Some v"
    using gmapM_gmapv [OF assms(1)] by (auto simp: gget_gmapv)
  with gmapM_gget [OF assms(1) v] assms(2) show ?thesis by auto
qed

section \<open>Loops over a map\<close>

text \<open>
  The body of a \<open>range\<close> loop that only touches the entry of the key it is at: whatever the
  order of the iteration, each key is updated once.
\<close>

lemma gget_fold_own:
  assumes "\<And>k v m k'. gget (step (k, v) m) k' = (if k' = k then F k v (gget m k) else gget m k')"
    and "gwf r"
  shows "gget (fold step r m) k = (case gget r k of None \<Rightarrow> gget m k | Some v \<Rightarrow> F k v (gget m k))"
  using assms(2)
proof (induction r arbitrary: m)
  case Nil
  then show ?case by simp
next
  case (Cons a r)
  obtain k' v where a: "a = (k', v)" by (cases a)
  have wf: "gwf r" and new: "gget r k' = None"
    using Cons.prems by (auto simp: gwf_def a gget_def map_of_eq_None_iff)
  show ?case
    using Cons.IH [OF wf, of "step (k', v) m"] new
    by (auto simp: a assms(1) gget_Cons split: option.splits)
qed

lemma gwf_fold:
  "(\<And>x m. gwf m \<Longrightarrow> gwf (step x m)) \<Longrightarrow> gwf m \<Longrightarrow> gwf (fold step r m)"
  by (induction r arbitrary: m) auto

end
