(* ===== verification/Usage_Schema.thy ===== *)
theory Usage_Schema
  imports Prelude
begin

text \<open>
  The wire form of token usage (\<open>src/pkg/schema/response.go\<close>, \<open>src/pkg/schema/usage.go\<close>):
  the streaming fold \<open>MergeUsage\<close> and the split of cache-creation tokens into the two
  priced tiers, \<open>CacheWriteAccounting\<close>. A pointer \<open>*int64\<close> is an option; the
  passthrough map \<open>Extra\<close> is an optional Go map of raw JSON.
\<close>

section \<open>Data\<close>

type_synonym extra_map = "(string, string) gomap"

record CacheCreation =
  Ephemeral5mInputTokens :: "i64 option"
  Ephemeral1hInputTokens :: "i64 option"
  CCExtra :: "extra_map option"

record Usage_wire =
  InputTokens :: "i64 option"
  OutputTokens :: "i64 option"
  CacheReadInputTokens :: "i64 option"
  CacheCreationInputTokens :: "i64 option"
  CacheCreation :: "CacheCreation option"
  UExtra :: "extra_map option"
  AccountingUncertain :: bool

record CacheWriteCounts =
  FiveMinutes :: i64
  OneHour :: i64
  Total :: i64
  QuantityKnown :: bool
  TTLKnown :: bool
  CWInvalid :: bool

section \<open>Operations\<close>

definition deref64 :: "i64 option \<Rightarrow> i64" where
  "deref64 p = (case p of None \<Rightarrow> 0 | Some n \<Rightarrow> n)"

text \<open>\<open>if next.F != nil { out.F = next.F }\<close>\<close>

definition latest :: "'a option \<Rightarrow> 'a option \<Rightarrow> 'a option" where
  "latest old new = (case new of None \<Rightarrow> old | Some x \<Rightarrow> Some x)"

text \<open>\<open>if out.Extra == nil { out.Extra = next.Extra }\<close>\<close>

definition keep_extra :: "'a option \<Rightarrow> 'a option \<Rightarrow> 'a option" where
  "keep_extra old new = (case old of None \<Rightarrow> new | Some x \<Rightarrow> Some x)"

definition mergeCacheCreation ::
  "CacheCreation option \<Rightarrow> CacheCreation option \<Rightarrow> CacheCreation option" where
  "mergeCacheCreation acc next =
     (case next of None \<Rightarrow> acc
      | Some n \<Rightarrow>
        (case acc of None \<Rightarrow> Some n
         | Some a \<Rightarrow> Some \<lparr>
             Ephemeral5mInputTokens = latest (Ephemeral5mInputTokens a) (Ephemeral5mInputTokens n),
             Ephemeral1hInputTokens = latest (Ephemeral1hInputTokens a) (Ephemeral1hInputTokens n),
             CCExtra = keep_extra (CCExtra a) (CCExtra n) \<rparr>))"

definition MergeUsage :: "Usage_wire option \<Rightarrow> Usage_wire option \<Rightarrow> Usage_wire option" where
  "MergeUsage acc next =
     (case next of None \<Rightarrow> acc
      | Some n \<Rightarrow>
        (case acc of None \<Rightarrow> Some (n\<lparr>CacheCreation := mergeCacheCreation None (CacheCreation n)\<rparr>)
         | Some a \<Rightarrow> Some \<lparr>
             InputTokens = latest (InputTokens a) (InputTokens n),
             OutputTokens = latest (OutputTokens a) (OutputTokens n),
             CacheReadInputTokens = latest (CacheReadInputTokens a) (CacheReadInputTokens n),
             CacheCreationInputTokens =
               latest (CacheCreationInputTokens a) (CacheCreationInputTokens n),
             CacheCreation = mergeCacheCreation (CacheCreation a) (CacheCreation n),
             UExtra = keep_extra (UExtra a) (UExtra n),
             AccountingUncertain = (AccountingUncertain a \<or> AccountingUncertain n) \<rparr>))"

definition no_extra :: "extra_map option \<Rightarrow> bool" where
  "no_extra e = (case e of None \<Rightarrow> True | Some m \<Rightarrow> length m = 0)"

definition CacheWriteAccounting :: "Usage_wire option \<Rightarrow> CacheWriteCounts" where
  "CacheWriteAccounting u =
     (case u of
        None \<Rightarrow> \<lparr>FiveMinutes = 0, OneHour = 0, Total = 0, QuantityKnown = True,
                 TTLKnown = True, CWInvalid = False\<rparr>
      | Some u \<Rightarrow>
        let flat = deref64 (CacheCreationInputTokens u) in
        (case CacheCreation u of
           None \<Rightarrow> \<lparr>FiveMinutes = flat, OneHour = 0, Total = flat, QuantityKnown = \<not> flat < 0,
                    TTLKnown = (flat = 0), CWInvalid = (flat < 0)\<rparr>
         | Some cc \<Rightarrow>
           let five = deref64 (Ephemeral5mInputTokens cc);
               one = deref64 (Ephemeral1hInputTokens cc);
               bad = (flat < 0 \<or> five < 0 \<or> one < 0 \<or> five > wrap64 (max_i64 - one))
           in if bad then \<lparr>FiveMinutes = five, OneHour = one, Total = 0, QuantityKnown = False,
                           TTLKnown = False, CWInvalid = True\<rparr>
           else
             let split = five + one;
                 complete = (Ephemeral5mInputTokens cc \<noteq> None \<and> Ephemeral1hInputTokens cc \<noteq> None);
                 plain = no_extra (CCExtra cc)
             in (case CacheCreationInputTokens u of
                  Some _ \<Rightarrow>
                    if flat < split \<or> (complete \<and> split \<noteq> 0 \<and> flat \<noteq> split)
                    then \<lparr>FiveMinutes = five, OneHour = one, Total = split, QuantityKnown = False,
                          TTLKnown = False, CWInvalid = True\<rparr>
                    else \<lparr>FiveMinutes = five + (flat - split), OneHour = one, Total = flat,
                          QuantityKnown = plain, TTLKnown = (complete \<and> plain \<and> flat = split),
                          CWInvalid = False\<rparr>
                | None \<Rightarrow>
                    \<lparr>FiveMinutes = five, OneHour = one, Total = split,
                     QuantityKnown = (complete \<and> plain), TTLKnown = (complete \<and> plain),
                     CWInvalid = False\<rparr>)))"

definition CacheWriteTiers :: "Usage_wire option \<Rightarrow> i64 \<times> i64" where
  "CacheWriteTiers u = (let c = CacheWriteAccounting u in (FiveMinutes c, OneHour c))"

section \<open>Folding the frames of a stream\<close>

text \<open>The reference for one field: of the frames that carry it, the value of the last one.\<close>

definition last_seen :: "('f \<Rightarrow> 'a option) \<Rightarrow> 'f list \<Rightarrow> 'a option" where
  "last_seen sel fs =
     (let carried = filter (\<lambda>v. v \<noteq> None) (map sel fs) in if carried = [] then None else last carried)"

definition merge_frames :: "Usage_wire list \<Rightarrow> Usage_wire option" where
  "merge_frames fs = fold (\<lambda>f acc. MergeUsage acc (Some f)) fs None"

lemma latest_simps [simp]: "latest old None = old" "latest old (Some x) = Some x"
  by (simp_all add: latest_def)

lemma last_seen_snoc [simp]: "last_seen sel (fs @ [f]) = latest (last_seen sel fs) (sel f)"
  by (cases "sel f") (simp_all add: last_seen_def Let_def)

lemma merge_frames_snoc [simp]: "merge_frames (fs @ [f]) = MergeUsage (merge_frames fs) (Some f)"
  by (simp add: merge_frames_def)

lemma last_seen_Nil [simp]: "last_seen sel [] = None"
  by (simp add: last_seen_def)

lemma merge_frames_Nil [simp]: "merge_frames [] = None"
  by (simp add: merge_frames_def)

lemma last_seen_single [simp]: "last_seen sel [f] = sel f"
  by (cases "sel f") (simp_all add: last_seen_def)

lemma latest_None_left [simp]: "latest None x = x"
  by (cases x) simp_all

lemma mergeCacheCreation_None_left [simp]: "mergeCacheCreation None x = x"
  by (cases x) (simp_all add: mergeCacheCreation_def)

lemma MergeUsage_None_left [simp]: "MergeUsage None (Some n) = Some n"
  by (simp add: MergeUsage_def)

lemma merge_frames_single [simp]: "merge_frames [f] = Some f"
  by (simp add: merge_frames_def)

lemma merge_frames_Some: "fs \<noteq> [] \<Longrightarrow> \<exists>u. merge_frames fs = Some u"
  by (induction fs rule: rev_induct) (auto simp: MergeUsage_def split: option.splits)

text \<open>
  Both nested tier fields follow the same rule: a frame without a \<open>cache_creation\<close> object
  carries neither.
\<close>

definition sel5m :: "Usage_wire \<Rightarrow> i64 option" where
  "sel5m u = Option.bind (CacheCreation u) Ephemeral5mInputTokens"

definition sel1h :: "Usage_wire \<Rightarrow> i64 option" where
  "sel1h u = Option.bind (CacheCreation u) Ephemeral1hInputTokens"

lemma merge_sel:
  assumes "MergeUsage (Some a) (Some n) = Some u"
  shows "InputTokens u = latest (InputTokens a) (InputTokens n)"
    and "OutputTokens u = latest (OutputTokens a) (OutputTokens n)"
    and "CacheReadInputTokens u = latest (CacheReadInputTokens a) (CacheReadInputTokens n)"
    and "CacheCreationInputTokens u =
           latest (CacheCreationInputTokens a) (CacheCreationInputTokens n)"
    and "sel5m u = latest (sel5m a) (sel5m n)"
    and "sel1h u = latest (sel1h a) (sel1h n)"
    and "AccountingUncertain u = (AccountingUncertain a \<or> AccountingUncertain n)"
  using assms
  by (auto simp: MergeUsage_def mergeCacheCreation_def sel5m_def sel1h_def split: option.splits)

lemma merge_frames_field:
  assumes snoc: "\<And>a n u. MergeUsage (Some a) (Some n) = Some u \<Longrightarrow> sel u = latest (sel a) (sel n)"
  shows "merge_frames fs = Some u \<Longrightarrow> sel u = last_seen sel fs"
proof (induction fs arbitrary: u rule: rev_induct)
  case Nil
  then show ?case by simp
next
  case (snoc f fs)
  show ?case
  proof (cases "merge_frames fs")
    case None
    then have "fs = []" using merge_frames_Some by fastforce
    with snoc.prems show ?thesis by simp
  next
    case (Some a)
    with snoc.prems have step: "MergeUsage (Some a) (Some f) = Some u" by simp
    show ?thesis using assms [OF step] snoc.IH [OF Some] by simp
  qed
qed

lemma merge_frames_uncertain:
  "merge_frames fs = Some u \<Longrightarrow> AccountingUncertain u \<longleftrightarrow> (\<exists>f\<in>set fs. AccountingUncertain f)"
proof (induction fs arbitrary: u rule: rev_induct)
  case Nil
  then show ?case by simp
next
  case (snoc f fs)
  show ?case
  proof (cases "merge_frames fs")
    case None
    then have "fs = []" using merge_frames_Some by fastforce
    with snoc.prems show ?thesis by simp
  next
    case (Some a)
    with snoc.prems have step: "MergeUsage (Some a) (Some f) = Some u" by simp
    show ?thesis using merge_sel(7) [OF step] snoc.IH [OF Some] by auto
  qed
qed

section \<open>The tier split\<close>

definition wire_in_i64 :: "Usage_wire \<Rightarrow> bool" where
  "wire_in_i64 u \<longleftrightarrow>
     in_i64 (deref64 (InputTokens u)) \<and> in_i64 (deref64 (OutputTokens u)) \<and>
     in_i64 (deref64 (CacheReadInputTokens u)) \<and> in_i64 (deref64 (CacheCreationInputTokens u)) \<and>
     in_i64 (deref64 (sel5m u)) \<and> in_i64 (deref64 (sel1h u))"

lemma deref64_simps [simp]: "deref64 None = 0" "deref64 (Some n) = n"
  by (simp_all add: deref64_def)

text \<open>What a valid split says: the tiers are non-negative and add up to the total.\<close>

lemma overflow_guard:
  "in_i64 b \<Longrightarrow> \<not> b < 0 \<Longrightarrow> a > wrap64 (max_i64 - b) \<longleftrightarrow> a > max_i64 - b"
  by (simp add: wrap64_diff_nonneg in_i64_nonneg)

lemma CacheWriteAccounting_flat:
  assumes "CacheCreation u = None"
  shows "CacheWriteAccounting (Some u) =
    (let flat = deref64 (CacheCreationInputTokens u) in
     \<lparr>FiveMinutes = flat, OneHour = 0, Total = flat, QuantityKnown = (0 \<le> flat),
      TTLKnown = (flat = 0), CWInvalid = (flat < 0)\<rparr>)"
  using assms by (simp add: CacheWriteAccounting_def Let_def not_less)

lemma CacheWriteAccounting_valid:
  assumes c: "c = CacheWriteAccounting (Some u)" and valid: "\<not> CWInvalid c" and ok: "wire_in_i64 u"
  shows "0 \<le> FiveMinutes c \<and> 0 \<le> OneHour c \<and> FiveMinutes c + OneHour c = Total c \<and>
    Total c \<le> max_i64 \<and> OneHour c = deref64 (sel1h u) \<and>
    Total c = (case CacheCreationInputTokens u of
                 Some flat \<Rightarrow> flat
               | None \<Rightarrow> deref64 (sel5m u) + deref64 (sel1h u))"
proof (cases "CacheCreation u")
  case None
  with c valid ok show ?thesis
    by (auto simp: CacheWriteAccounting_flat wire_in_i64_def sel5m_def sel1h_def in_i64_def
        split: option.splits)
next
  case (Some cc)
  have r: "in_i64 (deref64 (Ephemeral1hInputTokens cc))"
    "in_i64 (deref64 (CacheCreationInputTokens u))"
    "in_i64 (deref64 (Ephemeral5mInputTokens cc))"
    using ok Some by (simp_all add: wire_in_i64_def sel1h_def sel5m_def)
  show ?thesis
    using c valid Some r overflow_guard [OF r(1)]
    by (simp add: CacheWriteAccounting_def Let_def sel5m_def sel1h_def in_i64_def
        split: option.split_asm if_split_asm)
qed

section \<open>Properties\<close>

text \<open>
  C23: folding the usage of the frames of a stream with \<open>MergeUsage\<close> yields, for every billed
  count, the value of the last frame that carried it: counts repeated across frames are
  never summed, and counts that only an early frame carries (input and cache tokens on
  \<open>message_start\<close>) survive later frames without them. Uncertainty of any frame is kept.
\<close>

theorem merge_keeps_latest_counts:
  assumes "fs \<noteq> []"
  shows "\<exists>u. merge_frames fs = Some u \<and>
    InputTokens u = last_seen InputTokens fs \<and>
    OutputTokens u = last_seen OutputTokens fs \<and>
    CacheReadInputTokens u = last_seen CacheReadInputTokens fs \<and>
    CacheCreationInputTokens u = last_seen CacheCreationInputTokens fs \<and>
    sel5m u = last_seen sel5m fs \<and> sel1h u = last_seen sel1h fs \<and>
    (AccountingUncertain u \<longleftrightarrow> list_ex AccountingUncertain fs)"
proof -
  obtain u where u: "merge_frames fs = Some u" using merge_frames_Some [OF assms] by blast
  show ?thesis
    using u merge_frames_uncertain [OF u]
      merge_frames_field [of InputTokens, OF merge_sel(1) u] merge_frames_field [of OutputTokens, OF merge_sel(2) u]
      merge_frames_field [of CacheReadInputTokens, OF merge_sel(3) u] merge_frames_field [of CacheCreationInputTokens, OF merge_sel(4) u]
      merge_frames_field [of sel5m, OF merge_sel(5) u] merge_frames_field [of sel1h, OF merge_sel(6) u]
    by (simp add: list_ex_iff)
qed

definition frame_start :: Usage_wire where
  "frame_start = \<lparr>InputTokens = Some 25, OutputTokens = Some 1, CacheReadInputTokens = Some 4,
     CacheCreationInputTokens = None, CacheCreation = None, UExtra = None,
     AccountingUncertain = False\<rparr>"

definition frame_delta :: Usage_wire where
  "frame_delta = \<lparr>InputTokens = None, OutputTokens = Some 15, CacheReadInputTokens = None,
     CacheCreationInputTokens = None, CacheCreation = None, UExtra = None,
     AccountingUncertain = False\<rparr>"

theorem merge_keeps_latest_counts_witness:
  "\<exists>u. merge_frames [frame_start, frame_delta, frame_delta\<lparr>OutputTokens := Some 12\<rparr>] = Some u \<and> InputTokens u = Some 25
     \<and> OutputTokens u = Some 12 \<and> CacheReadInputTokens u = Some 4 \<and> CacheCreationInputTokens u = None"
  using merge_keeps_latest_counts [of "[frame_start, frame_delta, frame_delta\<lparr>OutputTokens := Some 12\<rparr>]"]
  by (auto simp: last_seen_def frame_start_def frame_delta_def)

text \<open>
  When the cache-creation observation is not flagged invalid, the two priced tiers are
  non-negative, fit in 64 bits and add up to exactly one total: the flat count when the
  provider sent one, otherwise the sum of the split. The flat count is never added to the
  split, and the 1-hour tier keeps its reported value.
\<close>

theorem cache_write_counted_once:
  assumes "wire_in_i64 u" "\<not> CWInvalid (CacheWriteAccounting (Some u))"
  shows "let c = CacheWriteAccounting (Some u) in
    0 \<le> FiveMinutes c \<and> 0 \<le> OneHour c \<and> FiveMinutes c + OneHour c = Total c \<and>
    Total c \<le> max_i64 \<and> OneHour c = deref64 (sel1h u) \<and>
    Total c = (case CacheCreationInputTokens u of
                 Some flat \<Rightarrow> flat
               | None \<Rightarrow> deref64 (sel5m u) + deref64 (sel1h u))"
  using CacheWriteAccounting_valid [OF refl assms(2,1)] by (simp add: Let_def)

definition partial_split :: Usage_wire where
  "partial_split = frame_start\<lparr>CacheCreationInputTokens := Some 100,
     CacheCreation := Some \<lparr>Ephemeral5mInputTokens = None, Ephemeral1hInputTokens = Some 30,
       CCExtra = None\<rparr>\<rparr>"

theorem cache_write_counted_once_witness:
  "FiveMinutes (CacheWriteAccounting (Some partial_split)) = 70 \<and>
   OneHour (CacheWriteAccounting (Some partial_split)) = 30 \<and>
   Total (CacheWriteAccounting (Some partial_split)) = 100"
proof -
  have ok: "wire_in_i64 partial_split"
    by (simp add: wire_in_i64_def partial_split_def frame_start_def sel5m_def sel1h_def in_i64_def
        i64_consts)
  have "\<not> CWInvalid (CacheWriteAccounting (Some partial_split))"
    by (simp add: CacheWriteAccounting_def partial_split_def frame_start_def Let_def wrap64_def
        i64_consts)
  from cache_write_counted_once [OF ok this] show ?thesis
    by (simp add: Let_def partial_split_def sel1h_def)
qed

end
