(* ===== verification/Pricing.thy ===== *)
theory Pricing
  imports Usage_Schema
begin

text \<open>
  The rate table and the money arithmetic of \<open>src/internal/pricing\<close>: rate lookup with the
  Bedrock prefix fallback, the settled cost in micro-USD (\<open>CostUSDMicrosChecked\<close>) and the
  conservative reservation bound (\<open>AuthorityBound\<close>). \<open>math/big\<close> values are \<open>int\<close>.
\<close>

section \<open>Data\<close>

record Key =
  Provider :: string
  Model :: string

text \<open>\<open>Rate\<close> points to another \<open>Rate\<close>, so it is a recursive datatype.\<close>

datatype Rate = Rate
  (InputPerMTok: i64) (OutputPerMTok: i64) (CacheReadPerMTok: i64)
  (CacheWrite5mPerMTok: i64) (CacheWrite1hPerMTok: i64)
  (ShortContextLimit: i64) (LongContext: "Rate option") (CacheWriteUnsupported: bool)

record Usage =
  Input :: i64
  Output :: i64
  CacheRead :: i64
  CacheWrite5m :: i64
  CacheWrite1h :: i64
  Invalid :: bool
  Uncertain :: bool

datatype OnMissing = OnMissingAllow | OnMissingBlock

record Table =
  onMissing :: OnMissing
  rates :: "(Key, Rate) gomap"
  Version :: string

datatype pricing_error = ErrInvalidCost | ErrAuthorityBound

section \<open>Construction and lookup\<close>

definition NewVersioned :: "OnMissing \<Rightarrow> (Key, Rate) gomap \<Rightarrow> string \<Rightarrow> Table" where
  "NewVersioned om rs version =
     \<lparr>onMissing = om, rates = rs, Version = (if version = '''' then ''unversioned'' else version)\<rparr>"

definition New :: "OnMissing \<Rightarrow> (Key, Rate) gomap \<Rightarrow> Table" where
  "New om rs = NewVersioned om rs ''bundled''"

definition bedrockRegionPrefixes :: "string list" where
  "bedrockRegionPrefixes = [''global.'', ''us.'', ''eu.'', ''apac.'', ''us-gov.'']"

definition HasPrefix :: "string \<Rightarrow> string \<Rightarrow> bool" where
  "HasPrefix s p \<longleftrightarrow> take (length p) s = p"

fun strip_first :: "string list \<Rightarrow> string \<Rightarrow> string" where
  "strip_first [] model = ''''"
| "strip_first (p # ps) model =
     (if HasPrefix model p then drop (length p) model else strip_first ps model)"

definition normalizeModel :: "string \<Rightarrow> string" where
  "normalizeModel model = strip_first bedrockRegionPrefixes model"

definition BaseModelID :: "string \<Rightarrow> string" where
  "BaseModelID model =
     (let base = normalizeModel model in if base \<noteq> '''' then base else model)"

fun rate_valid :: "Rate \<Rightarrow> bool" where
  "rate_valid (Rate i out cr w5 w1 lim long unsupported) =
     (if unsupported \<and> (w5 \<noteq> 0 \<or> w1 \<noteq> 0) then False
      else if list_ex (\<lambda>n. n < 0) [i, out, cr, w5, w1] then False
      else (case long of
              None \<Rightarrow> lim = 0
            | Some l \<Rightarrow> lim > 0 \<and> LongContext l = None \<and> ShortContextLimit l = 0 \<and> rate_valid l))"

definition lookup :: "Table option \<Rightarrow> string \<Rightarrow> string \<Rightarrow> Rate option" where
  "lookup t provider model =
     (case t of None \<Rightarrow> None
      | Some t \<Rightarrow>
        let direct = gget (rates t) \<lparr>Provider = provider, Model = model\<rparr>;
            found = (case direct of
                Some r \<Rightarrow> Some r
              | None \<Rightarrow> let base = normalizeModel model in
                  if base \<noteq> '''' then gget (rates t) \<lparr>Provider = provider, Model = base\<rparr> else None)
        in (case found of None \<Rightarrow> None | Some r \<Rightarrow> if rate_valid r then Some r else None))"

definition HasRate :: "Table option \<Rightarrow> string \<Rightarrow> string \<Rightarrow> bool" where
  "HasRate t provider model = (lookup t provider model \<noteq> None)"

section \<open>Long-context selection\<close>

fun exceeds :: "i64 \<Rightarrow> i64 list \<Rightarrow> bool" where
  "exceeds remaining [] = False"
| "exceeds remaining (n # ns) = (if n > remaining then True else exceeds (wrap64 (remaining - n)) ns)"

definition isLong :: "Rate \<Rightarrow> Usage \<Rightarrow> bool" where
  "isLong r u =
     (case LongContext r of None \<Rightarrow> False
      | Some _ \<Rightarrow> exceeds (ShortContextLimit r) [Input u, CacheRead u, CacheWrite5m u, CacheWrite1h u])"

definition ContextTier :: "Table option \<Rightarrow> string \<Rightarrow> string \<Rightarrow> Usage \<Rightarrow> string" where
  "ContextTier t provider model u =
     (if Invalid u \<or> Uncertain u then ''''
      else if list_ex (\<lambda>n. n < 0) [Input u, Output u, CacheRead u, CacheWrite5m u, CacheWrite1h u] then ''''
      else (case lookup t provider model of
              None \<Rightarrow> ''''
            | Some r \<Rightarrow> if LongContext r = None then '''' else if isLong r u then ''long'' else ''short''))"

section \<open>Usage totals and settled cost\<close>

definition FromUsage :: "Usage_wire option \<Rightarrow> Usage" where
  "FromUsage u =
     (case u of
        None \<Rightarrow> \<lparr>Input = 0, Output = 0, CacheRead = 0, CacheWrite5m = 0, CacheWrite1h = 0,
                 Invalid = False, Uncertain = True\<rparr>
      | Some w \<Rightarrow>
        let c = CacheWriteAccounting (Some w) in
        \<lparr>Input = deref64 (InputTokens w), Output = deref64 (OutputTokens w),
         CacheRead = deref64 (CacheReadInputTokens w),
         CacheWrite5m = FiveMinutes c, CacheWrite1h = OneHour c, Invalid = CWInvalid c,
         Uncertain = (AccountingUncertain w \<or> InputTokens w = None \<or> OutputTokens w = None \<or>
                      \<not> QuantityKnown c)\<rparr>)"

fun sum_checked :: "i64 list \<Rightarrow> i64 \<Rightarrow> pricing_error + i64" where
  "sum_checked [] tot = Inr tot"
| "sum_checked (n # ns) tot =
     (if n < 0 \<or> n > max_i64 - tot then Inl ErrInvalidCost else sum_checked ns (tot + n))"

definition TotalTokens :: "Usage \<Rightarrow> pricing_error + i64" where
  "TotalTokens u =
     (if Invalid u then Inl ErrInvalidCost
      else sum_checked [Input u, Output u, CacheRead u, CacheWrite5m u, CacheWrite1h u] 0)"

definition million :: int where
  "million = 1000000"

text \<open>\<open>QuoRem\<close> by a positive divisor, then the round-half-even correction.\<close>

definition round_half_even :: "int \<Rightarrow> int" where
  "round_half_even n =
     (let q = n div million; r = n mod million in
      if 2 * r > million \<or> (2 * r = million \<and> odd q) then q + 1 else q)"

definition round_up :: "int \<Rightarrow> int" where
  "round_up n = (let q = n div million; r = n mod million in if r > 0 then q + 1 else q)"

fun sum_cost :: "(i64 \<times> i64) list \<Rightarrow> int \<Rightarrow> pricing_error + int" where
  "sum_cost [] tot = Inr tot"
| "sum_cost ((count, rate) # items) tot =
     (if count < 0 \<or> rate < 0 then Inl ErrInvalidCost
      else sum_cost items (tot + round_half_even (count * rate)))"

definition cost_items :: "Rate \<Rightarrow> Usage \<Rightarrow> (i64 \<times> i64) list" where
  "cost_items r u =
     [(Input u, InputPerMTok r), (Output u, OutputPerMTok r), (CacheRead u, CacheReadPerMTok r),
      (CacheWrite5m u, CacheWrite5mPerMTok r), (CacheWrite1h u, CacheWrite1hPerMTok r)]"

definition CostUSDMicrosChecked ::
  "Table option \<Rightarrow> string \<Rightarrow> string \<Rightarrow> Usage \<Rightarrow> pricing_error + i64" where
  "CostUSDMicrosChecked t provider model u =
     (case TotalTokens u of
        Inl e \<Rightarrow> Inl e
      | Inr _ \<Rightarrow>
        (case lookup t provider model of
           None \<Rightarrow> Inl ErrAuthorityBound
         | Some r0 \<Rightarrow>
           let r = (if isLong r0 u then the (LongContext r0) else r0) in
           if CacheWriteUnsupported r \<and> (CacheWrite5m u \<noteq> 0 \<or> CacheWrite1h u \<noteq> 0)
           then Inl ErrInvalidCost
           else rbind (sum_cost (cost_items r u) 0)
                  (\<lambda>tot. if in_i64 tot then Inr tot else Inl ErrInvalidCost)))"

definition CostUSDMicros ::
  "Table option \<Rightarrow> string \<Rightarrow> string \<Rightarrow> Usage \<Rightarrow> i64 \<times> bool" where
  "CostUSDMicros t provider model u =
     (case CostUSDMicrosChecked t provider model u of Inl _ \<Rightarrow> (0, True) | Inr c \<Rightarrow> (c, False))"

section \<open>The reservation bound\<close>

definition max_rates :: "Rate \<Rightarrow> Rate" where
  "max_rates r =
     (case LongContext r of None \<Rightarrow> r
      | Some l \<Rightarrow> Rate (max (InputPerMTok r) (InputPerMTok l)) (max (OutputPerMTok r) (OutputPerMTok l))
          (max (CacheReadPerMTok r) (CacheReadPerMTok l))
          (max (CacheWrite5mPerMTok r) (CacheWrite5mPerMTok l))
          (max (CacheWrite1hPerMTok r) (CacheWrite1hPerMTok l))
          (ShortContextLimit r) (LongContext r) (CacheWriteUnsupported r))"

fun sum_bound :: "(i64 \<times> i64) list \<Rightarrow> int \<Rightarrow> pricing_error + int" where
  "sum_bound [] tot = Inr tot"
| "sum_bound ((count, rate) # items) tot =
     (if rate < 0 then Inl ErrAuthorityBound
      else sum_bound items (tot + round_up (count * rate)))"

definition AuthorityBound ::
  "Table option \<Rightarrow> string \<Rightarrow> string \<Rightarrow> i64 \<Rightarrow> i64 \<Rightarrow> pricing_error + i64" where
  "AuthorityBound t provider model inputLimit outputLimit =
     (if t = None \<or> inputLimit \<le> 0 \<or> outputLimit \<le> 0 then Inl ErrAuthorityBound
      else (case lookup t provider model of
        None \<Rightarrow> Inl ErrAuthorityBound
      | Some r0 \<Rightarrow>
        let r = max_rates r0 in
        rbind (sum_bound [(inputLimit, InputPerMTok r), (inputLimit, CacheReadPerMTok r),
                 (inputLimit, CacheWrite5mPerMTok r), (inputLimit, CacheWrite1hPerMTok r),
                 (outputLimit, OutputPerMTok r)] 0)
          (\<lambda>tot. if in_i64 tot then Inr tot else Inl ErrAuthorityBound)))"

section \<open>Lemmas\<close>

lemma million_pos [simp]: "0 < million" "million \<noteq> 0"
  by (simp_all add: million_def)

text \<open>Rounding up is bracketed by the quotient and dominates the exact value.\<close>

lemma million_mod: "0 \<le> n mod million" "n mod million < million"
  by (simp_all add: million_def)

lemma round_up_bracket: "n div million \<le> round_up n" "round_up n \<le> n div million + 1"
  by (simp_all add: round_up_def Let_def)

lemma round_up_ge: "n \<le> round_up n * million"
proof -
  have n: "n = million * (n div million) + n mod million" by simp
  show ?thesis
  proof (cases "n mod million > 0")
    case True
    then have "round_up n * million = million * (n div million) + million"
      by (simp add: round_up_def Let_def algebra_simps)
    with n million_mod(2) [of n] show ?thesis by linarith
  next
    case False
    then have "round_up n * million = million * (n div million)"
      by (simp add: round_up_def Let_def)
    with n False show ?thesis by linarith
  qed
qed

lemma round_up_mono:
  assumes "m \<le> n"
  shows "round_up m \<le> round_up n"
proof (cases "m div million = n div million")
  case True
  have "million * (n div million) + m mod million = m"
    using mult_div_mod_eq [of million m] by (simp only: True)
  moreover have "million * (n div million) + n mod million = n" by simp
  ultimately have "m mod million \<le> n mod million" using assms by linarith
  with True show ?thesis by (simp add: round_up_def Let_def)
next
  case False
  have "m div million \<le> n div million" using assms by (rule zdiv_mono1) simp
  with False have "m div million + 1 \<le> n div million" by linarith
  then show ?thesis using round_up_bracket(2) [of m] round_up_bracket(1) [of n] by linarith
qed

lemma round_half_even_le_up: "round_half_even n \<le> round_up n"
  by (auto simp: round_half_even_def round_up_def Let_def million_def)

lemma round_half_even_nonneg: "0 \<le> n \<Longrightarrow> 0 \<le> round_half_even n"
  by (auto simp: round_half_even_def Let_def pos_imp_zdiv_nonneg_iff)

lemma sum_checked_eq:
  "0 \<le> tot \<Longrightarrow> tot \<le> max_i64 \<Longrightarrow>
   sum_checked ns tot =
     (if (\<forall>n\<in>set ns. 0 \<le> n) \<and> tot + sum_list ns \<le> max_i64
      then Inr (tot + sum_list ns) else Inl ErrInvalidCost)"
proof (induction ns arbitrary: tot)
  case Nil
  then show ?case by simp
next
  case (Cons n ns)
  show ?case
  proof (cases "n < 0 \<or> n > max_i64 - tot")
    case True
    have "0 \<le> sum_list ns" if "\<forall>m\<in>set ns. 0 \<le> m" using that by (simp add: sum_list_nonneg)
    with True show ?thesis by auto
  next
    case False
    then have "sum_checked (n # ns) tot = sum_checked ns (tot + n)" by simp
    also have "\<dots> = (if (\<forall>m\<in>set ns. 0 \<le> m) \<and> tot + n + sum_list ns \<le> max_i64
        then Inr (tot + n + sum_list ns) else Inl ErrInvalidCost)"
      using False Cons.prems by (intro Cons.IH) auto
    finally show ?thesis using False by (auto simp: algebra_simps)
  qed
qed

text \<open>The quantities a valid usage carries.\<close>

definition usage_counts :: "Usage \<Rightarrow> i64 list" where
  "usage_counts u = [Input u, Output u, CacheRead u, CacheWrite5m u, CacheWrite1h u]"

lemma TotalTokens_eq:
  "TotalTokens u =
     (if \<not> Invalid u \<and> (\<forall>n\<in>set (usage_counts u). 0 \<le> n) \<and> sum_list (usage_counts u) \<le> max_i64
      then Inr (sum_list (usage_counts u)) else Inl ErrInvalidCost)"
  using sum_checked_eq [of 0 "usage_counts u"]
  by (simp add: TotalTokens_def usage_counts_def)

lemma TotalTokens_nonneg:
  "TotalTokens u = Inr n \<Longrightarrow> 0 \<le> Input u \<and> 0 \<le> Output u \<and> 0 \<le> CacheRead u \<and>
     0 \<le> CacheWrite5m u \<and> 0 \<le> CacheWrite1h u"
  by (auto simp: TotalTokens_eq usage_counts_def split: if_splits)

lemma exceeds_eq:
  "0 \<le> lim \<Longrightarrow> lim \<le> max_i64 \<Longrightarrow> \<forall>n\<in>set ns. 0 \<le> n \<Longrightarrow> exceeds lim ns \<longleftrightarrow> sum_list ns > lim"
proof (induction ns arbitrary: lim)
  case Nil
  then show ?case by simp
next
  case (Cons n ns)
  have nn: "0 \<le> sum_list ns" using Cons.prems by (simp add: sum_list_nonneg)
  show ?case
  proof (cases "n > lim")
    case True
    with nn show ?thesis by simp
  next
    case False
    then have "wrap64 (lim - n) = lim - n"
      using Cons.prems by (intro wrap64_diff_nonneg) auto
    moreover have "exceeds (lim - n) ns \<longleftrightarrow> sum_list ns > lim - n"
      using Cons.prems False by (intro Cons.IH) auto
    ultimately show ?thesis using False by auto
  qed
qed

lemma rate_valid_nonneg:
  "rate_valid r \<Longrightarrow> 0 \<le> InputPerMTok r \<and> 0 \<le> OutputPerMTok r \<and> 0 \<le> CacheReadPerMTok r \<and>
     0 \<le> CacheWrite5mPerMTok r \<and> 0 \<le> CacheWrite1hPerMTok r"
  by (cases r) (auto split: if_splits)

lemma rate_valid_long:
  "rate_valid r \<Longrightarrow> LongContext r = Some l \<Longrightarrow> rate_valid l \<and> 0 < ShortContextLimit r"
  by (cases r) (auto split: if_splits)

lemma lookup_valid: "lookup t p m = Some r \<Longrightarrow> rate_valid r"
  by (auto simp: lookup_def Let_def split: option.splits if_splits)

lemma isLong_Some: "isLong r u \<Longrightarrow> \<exists>l. LongContext r = Some l"
  by (auto simp: isLong_def split: option.splits)

lemma sum_cost_eq:
  "\<forall>(c, r)\<in>set items. 0 \<le> c \<and> 0 \<le> r \<Longrightarrow>
   sum_cost items tot = Inr (tot + sum_list (map (\<lambda>(c, r). round_half_even (c * r)) items))"
  by (induction items tot rule: sum_cost.induct) auto

lemma sum_bound_eq:
  "\<forall>(c, r)\<in>set items. 0 \<le> r \<Longrightarrow>
   sum_bound items tot = Inr (tot + sum_list (map (\<lambda>(c, r). round_up (c * r)) items))"
  by (induction items tot rule: sum_bound.induct) auto

text \<open>The rate that prices a usage, and the exact cost in its terms.\<close>

definition billed_rate :: "Rate \<Rightarrow> Usage \<Rightarrow> Rate" where
  "billed_rate r u = (if isLong r u then the (LongContext r) else r)"

definition class_costs :: "Rate \<Rightarrow> Usage \<Rightarrow> int list" where
  "class_costs r u = map (\<lambda>(c, q). round_half_even (c * q)) (cost_items r u)"

lemma billed_rate_valid: "rate_valid r \<Longrightarrow> rate_valid (billed_rate r u)"
  using isLong_Some rate_valid_long by (fastforce simp: billed_rate_def)

lemma cost_items_nonneg:
  assumes "TotalTokens u = Inr n" "rate_valid r"
  shows "\<forall>(c, q)\<in>set (cost_items r u). 0 \<le> c \<and> 0 \<le> q"
  using TotalTokens_nonneg [OF assms(1)] rate_valid_nonneg [OF assms(2)]
  by (simp add: cost_items_def)

lemma class_costs_nonneg:
  assumes "TotalTokens u = Inr n" "lookup t p m = Some r"
  shows "0 \<le> sum_list (class_costs (billed_rate r u) u)"
  using cost_items_nonneg [OF assms(1) billed_rate_valid [OF lookup_valid [OF assms(2)], of u]]
  by (fastforce simp: class_costs_def intro!: sum_list_nonneg round_half_even_nonneg)

lemma CostUSDMicrosChecked_eq:
  assumes "TotalTokens u = Inr n" "lookup t p m = Some r0"
  shows "CostUSDMicrosChecked t p m u =
    (let r = billed_rate r0 u; tot = sum_list (class_costs r u) in
     if (CacheWriteUnsupported r \<and> (CacheWrite5m u \<noteq> 0 \<or> CacheWrite1h u \<noteq> 0)) \<or> max_i64 < tot
     then Inl ErrInvalidCost else Inr tot)"
proof -
  have v: "rate_valid (billed_rate r0 u)"
    using lookup_valid [OF assms(2)] by (rule billed_rate_valid)
  note nn = cost_items_nonneg [OF assms(1) v]
  show ?thesis
    using assms class_costs_nonneg [OF assms] sum_cost_eq [OF nn, of 0]
    by (auto simp: CostUSDMicrosChecked_def Let_def billed_rate_def class_costs_def in_i64_nonneg)
qed

lemma CostUSDMicros_nonneg: "0 \<le> fst (CostUSDMicros t p m u)"
proof (cases "CostUSDMicrosChecked t p m u")
  case (Inr c)
  then obtain n r where "TotalTokens u = Inr n" "lookup t p m = Some r"
    by (auto simp: CostUSDMicrosChecked_def split: sum.splits option.splits)
  then show ?thesis using Inr CostUSDMicrosChecked_eq [of u n t p m r] class_costs_nonneg [of u n t p m r]
    by (auto simp: CostUSDMicros_def Let_def split: if_splits)
qed (simp add: CostUSDMicros_def)

lemma max_rates_dominates:
  assumes "rate_valid r"
  shows "InputPerMTok (billed_rate r u) \<le> InputPerMTok (max_rates r) \<and>
    OutputPerMTok (billed_rate r u) \<le> OutputPerMTok (max_rates r) \<and>
    CacheReadPerMTok (billed_rate r u) \<le> CacheReadPerMTok (max_rates r) \<and>
    CacheWrite5mPerMTok (billed_rate r u) \<le> CacheWrite5mPerMTok (max_rates r) \<and>
    CacheWrite1hPerMTok (billed_rate r u) \<le> CacheWrite1hPerMTok (max_rates r)"
  by (auto simp: billed_rate_def max_rates_def dest: isLong_Some split: option.splits)

lemma half_even_dominated:
  assumes "0 \<le> c" "c \<le> lim" "0 \<le> q" "q \<le> q'"
  shows "round_half_even (c * q) \<le> round_up (lim * q')"
proof -
  have "c * q \<le> lim * q'" using assms by (intro mult_mono) auto
  then show ?thesis using round_half_even_le_up round_up_mono order_trans by blast
qed

text \<open>Usage inside the limits the reservation was computed for.\<close>

definition within_limits :: "Usage \<Rightarrow> i64 \<Rightarrow> i64 \<Rightarrow> bool" where
  "within_limits u inputLimit outputLimit \<longleftrightarrow>
     Input u \<le> inputLimit \<and> CacheRead u \<le> inputLimit \<and> CacheWrite5m u \<le> inputLimit \<and>
     CacheWrite1h u \<le> inputLimit \<and> Output u \<le> outputLimit"

lemma AuthorityBound_Inr:
  assumes "AuthorityBound t p m il ol = Inr b" "lookup t p m = Some r"
  shows "b = round_up (il * InputPerMTok (max_rates r)) + round_up (il * CacheReadPerMTok (max_rates r))
    + round_up (il * CacheWrite5mPerMTok (max_rates r))
    + round_up (il * CacheWrite1hPerMTok (max_rates r))
    + round_up (ol * OutputPerMTok (max_rates r)) \<and> b \<le> max_i64"
  using assms by (auto simp: AuthorityBound_def Let_def in_i64_def split: if_splits option.splits)

lemma class_costs_le_bound:
  assumes tot: "TotalTokens u = Inr n" and look: "lookup t p m = Some r"
    and bound: "AuthorityBound t p m il ol = Inr b" and lim: "within_limits u il ol"
  shows "sum_list (class_costs (billed_rate r u) u) \<le> b"
proof -
  let ?r = "billed_rate r u"
  have v: "rate_valid r" using look by (rule lookup_valid)
  note nn = TotalTokens_nonneg [OF tot]
  note rn = rate_valid_nonneg [OF billed_rate_valid [OF v, of u]]
  note dom = max_rates_dominates [OF v, of u]
  have "round_half_even (Input u * InputPerMTok ?r) \<le> round_up (il * InputPerMTok (max_rates r))"
    "round_half_even (CacheRead u * CacheReadPerMTok ?r) \<le> round_up (il * CacheReadPerMTok (max_rates r))"
    "round_half_even (CacheWrite5m u * CacheWrite5mPerMTok ?r)
       \<le> round_up (il * CacheWrite5mPerMTok (max_rates r))"
    "round_half_even (CacheWrite1h u * CacheWrite1hPerMTok ?r)
       \<le> round_up (il * CacheWrite1hPerMTok (max_rates r))"
    "round_half_even (Output u * OutputPerMTok ?r) \<le> round_up (ol * OutputPerMTok (max_rates r))"
    using nn rn dom lim by (auto simp: within_limits_def intro!: half_even_dominated)
  then show ?thesis
    using AuthorityBound_Inr [OF bound look] by (simp add: class_costs_def cost_items_def)
qed

lemma round_half_even_nearest:
  "2 * \<bar>n - round_half_even n * million\<bar> \<le> million \<and>
   (2 * \<bar>n - round_half_even n * million\<bar> = million \<longrightarrow> even (round_half_even n))"
proof -
  define q r where "q = n div million" and "r = n mod million"
  have n: "n = q * million + r" by (simp add: q_def r_def)
  have r: "0 \<le> r" "r < million" by (simp_all add: r_def million_def)
  show ?thesis
  proof (cases "2 * r > million \<or> (2 * r = million \<and> odd q)")
    case True
    then have e: "round_half_even n = q + 1" by (simp add: round_half_even_def Let_def q_def r_def)
    have "n - (q + 1) * million = r - million" by (simp add: n algebra_simps)
    with e r True show ?thesis by auto
  next
    case False
    then have e: "round_half_even n = q" by (auto simp: round_half_even_def Let_def q_def r_def)
    have "n - q * million = r" by (simp add: n)
    with e r False show ?thesis by auto
  qed
qed

section \<open>Properties\<close>

text \<open>
  C9: the reservation dominates the settlement. When \<open>AuthorityBound\<close> yields a bound for
  (provider, model) and the usage stays inside the limits it was computed for, the settled
  cost exists and lies between zero and the bound; the only other outcome is the refusal of
  cache writes on a rate that does not support them. No overflow can occur.
\<close>

theorem authority_bound_dominates_cost:
  assumes bound: "AuthorityBound t p m il ol = Inr b"
    and total: "TotalTokens u = Inr n" and lim: "within_limits u il ol"
  shows "(\<exists>c. CostUSDMicrosChecked t p m u = Inr c \<and> 0 \<le> c \<and> c \<le> b) \<or>
    (\<exists>r. lookup t p m = Some r \<and> CacheWriteUnsupported (billed_rate r u) \<and>
       (CacheWrite5m u \<noteq> 0 \<or> CacheWrite1h u \<noteq> 0) \<and>
       CostUSDMicrosChecked t p m u = Inl ErrInvalidCost)"
proof -
  obtain r where look: "lookup t p m = Some r"
    using bound by (auto simp: AuthorityBound_def split: if_splits option.splits)
  have le: "sum_list (class_costs (billed_rate r u) u) \<le> b"
    using total look bound lim by (rule class_costs_le_bound)
  have b: "b \<le> max_i64" using AuthorityBound_Inr [OF bound look] by simp
  have "0 \<le> sum_list (class_costs (billed_rate r u) u)" using total look by (rule class_costs_nonneg)
  then show ?thesis
    using CostUSDMicrosChecked_eq [OF total look] le b look by (auto simp: Let_def)
qed

definition sample_rate :: Rate where
  "sample_rate = Rate 3000000 15000000 300000 3750000 6000000 200000
     (Some (Rate 6000000 22500000 600000 7500000 12000000 0 None False)) False"

definition sample_table :: Table where
  "sample_table = New OnMissingBlock
     [(\<lparr>Provider = ''bedrock'', Model = ''anthropic.claude''\<rparr>, sample_rate)]"

definition sample_usage :: Usage where
  "sample_usage = \<lparr>Input = 1000, Output = 333, CacheRead = 5, CacheWrite5m = 2, CacheWrite1h = 0,
     Invalid = False, Uncertain = False\<rparr>"

lemma sample_lookup:
  "lookup (Some sample_table) ''bedrock'' ''us.anthropic.claude'' = Some sample_rate"
  by (simp add: lookup_def sample_table_def New_def NewVersioned_def gget_def normalizeModel_def
      bedrockRegionPrefixes_def HasPrefix_def sample_rate_def Let_def)

lemma sample_short: "\<not> isLong sample_rate sample_usage"
  by (simp add: isLong_def sample_rate_def sample_usage_def wrap64_def)

lemma sample_supported: "\<not> CacheWriteUnsupported sample_rate"
  by (simp add: sample_rate_def)

lemma sample_total: "TotalTokens sample_usage = Inr 1340"
  by (simp add: TotalTokens_def sample_usage_def max_i64_def)

theorem authority_bound_dominates_cost_witness:
  "\<exists>b c. AuthorityBound (Some sample_table) ''bedrock'' ''us.anthropic.claude'' 200000 8192 = Inr b \<and>
     CostUSDMicrosChecked (Some sample_table) ''bedrock'' ''us.anthropic.claude'' sample_usage = Inr c \<and>
     0 \<le> c \<and> c \<le> b"
proof -
  have b: "AuthorityBound (Some sample_table) ''bedrock'' ''us.anthropic.claude'' 200000 8192
      = Inr 5404320"
    by (simp add: AuthorityBound_def sample_lookup max_rates_def sample_rate_def round_up_def
        million_def in_i64_def i64_consts Let_def)
  have "within_limits sample_usage 200000 8192"
    by (simp add: within_limits_def sample_usage_def)
  from authority_bound_dominates_cost [OF b sample_total this] show ?thesis
    by (auto simp: b sample_lookup billed_rate_def sample_short sample_supported)
qed

text \<open>
  C22: the settled cost is the sum, over the five token classes (input, output, cache reads and the
  two tiers of cache writes) of the tier that prices the whole response, of the class's product of
  tokens and its own rate divided by a million, each rounded to the nearest integer with ties to
  the even one. It is a 64-bit value.
\<close>

theorem cost_rounds_half_even_per_class:
  assumes total: "TotalTokens u = Inr n" and look: "lookup t p m = Some r"
    and cost: "CostUSDMicrosChecked t p m u = Inr c"
  shows "\<exists>ks. c = sum_list ks \<and> 0 \<le> c \<and> c \<le> max_i64 \<and>
    list_all2 (\<lambda>(count, rate) k. 2 * \<bar>count * rate - k * million\<bar> \<le> million \<and>
        (2 * \<bar>count * rate - k * million\<bar> = million \<longrightarrow> even k))
      [(Input u, InputPerMTok (billed_rate r u)), (Output u, OutputPerMTok (billed_rate r u)),
       (CacheRead u, CacheReadPerMTok (billed_rate r u)), (CacheWrite5m u, CacheWrite5mPerMTok (billed_rate r u)),
       (CacheWrite1h u, CacheWrite1hPerMTok (billed_rate r u))] ks"
proof -
  let ?ks = "class_costs (billed_rate r u) u"
  have c: "c = sum_list ?ks" "c \<le> max_i64"
    using CostUSDMicrosChecked_eq [OF total look] cost by (auto simp: Let_def split: if_splits)
  note nn = cost_items_nonneg [OF total billed_rate_valid [OF lookup_valid [OF look], of u]]
  have "0 \<le> sum_list ?ks"
    using nn by (fastforce simp: class_costs_def intro!: sum_list_nonneg round_half_even_nonneg)
  moreover have "list_all2 (\<lambda>(count, rate) k. 2 * \<bar>count * rate - k * million\<bar> \<le> million \<and>
        (2 * \<bar>count * rate - k * million\<bar> = million \<longrightarrow> even k)) (cost_items (billed_rate r u) u) ?ks"
    using round_half_even_nearest by (simp add: class_costs_def cost_items_def)
  ultimately show ?thesis using c
    by (intro exI [of _ ?ks]) (simp add: class_costs_def cost_items_def)
qed

lemma sample_cost:
  "CostUSDMicrosChecked (Some sample_table) ''bedrock'' ''us.anthropic.claude'' sample_usage
     = Inr 8005"
  unfolding CostUSDMicrosChecked_eq [OF sample_total sample_lookup]
  by (simp add: billed_rate_def class_costs_def isLong_def sample_rate_def
      sample_usage_def cost_items_def round_half_even_def million_def i64_consts
      wrap64_def Let_def)

theorem cost_rounds_half_even_per_class_witness:
  "\<exists>ks. (8005::int) = sum_list ks \<and>
    list_all2 (\<lambda>(count, rate) k. 2 * \<bar>count * rate - k * million\<bar> \<le> million \<and>
        (2 * \<bar>count * rate - k * million\<bar> = million \<longrightarrow> even k))
      (cost_items (billed_rate sample_rate sample_usage) sample_usage) ks"
  unfolding cost_items_def
  using cost_rounds_half_even_per_class [OF sample_total sample_lookup sample_cost] by blast

text \<open>
  \<open>isLong\<close> decides exactly whether the disjoint input and cache tokens together exceed
  the short-context limit, although it never forms their sum: a huge cache-heavy request
  cannot wrap back into the cheaper tier.
\<close>

theorem isLong_iff_sum_exceeds:
  assumes "rate_valid r" "ShortContextLimit r \<le> max_i64" "TotalTokens u = Inr n"
  shows "isLong r u \<longleftrightarrow> LongContext r \<noteq> None \<and>
    Input u + CacheRead u + CacheWrite5m u + CacheWrite1h u > ShortContextLimit r"
proof (cases "LongContext r")
  case None
  then show ?thesis by (simp add: isLong_def)
next
  case (Some l)
  with assms(1) have "0 \<le> ShortContextLimit r" using rate_valid_long by fastforce
  then show ?thesis
    using exceeds_eq [of "ShortContextLimit r" "[Input u, CacheRead u, CacheWrite5m u, CacheWrite1h u]"]
      assms(2) TotalTokens_nonneg [OF assms(3)] Some by (simp add: isLong_def add.assoc)
qed

theorem isLong_iff_sum_exceeds_witness:
  "\<not> isLong sample_rate sample_usage \<and> rate_valid sample_rate"
  using isLong_iff_sum_exceeds [of sample_rate sample_usage, OF _ _ sample_total]
  by (simp add: sample_rate_def sample_usage_def max_i64_def)

text \<open>
  For usage whose totals are valid, the cost is refused as unpriced exactly when
  \<open>HasRate\<close> is false, so the predicate used at boot and by the pricing guard cannot
  disagree with billing; and an unpriced request is reported as missing with cost zero.
\<close>

theorem hasRate_agrees_with_billing:
  assumes "TotalTokens u = Inr n"
  shows "(CostUSDMicrosChecked t p m u = Inl ErrAuthorityBound \<longleftrightarrow> \<not> HasRate t p m) \<and>
    (\<not> HasRate t p m \<longrightarrow> CostUSDMicros t p m u = (0, True))"
proof (cases "lookup t p m")
  case None
  with assms show ?thesis
    by (simp add: HasRate_def CostUSDMicrosChecked_def CostUSDMicros_def)
next
  case (Some r)
  with CostUSDMicrosChecked_eq [OF assms Some] show ?thesis
    by (simp add: HasRate_def Let_def)
qed

theorem hasRate_agrees_with_billing_witness:
  "HasRate (Some sample_table) ''bedrock'' ''us.anthropic.claude'' \<and>
   CostUSDMicros (Some sample_table) ''vllm'' ''qwen'' sample_usage = (0, True)"
proof -
  have no: "\<not> HasRate (Some sample_table) ''vllm'' ''qwen''"
    by (simp add: HasRate_def lookup_def sample_table_def New_def NewVersioned_def gget_def
        normalizeModel_def bedrockRegionPrefixes_def HasPrefix_def Let_def)
  show ?thesis
    using hasRate_agrees_with_billing [OF sample_total, of "Some sample_table" "''vllm''" "''qwen''"]
      no sample_lookup by (simp add: HasRate_def)
qed

end
