(* ===== verification/Go_Time.thy ===== *)
theory Go_Time
  imports Prelude
begin

text \<open>
  The parts of Go's \<open>time\<close> package the sources use: the civil calendar behind
  \<open>Time.Date\<close> and \<open>time.Date\<close>, time zones, and the textual form of a duration.
  A \<open>*time.Location\<close> is the zone database's answer to "which offset is in effect at this
  instant", a parameter of every operation that depends on a zone.
\<close>

section \<open>The proleptic Gregorian calendar\<close>

text \<open>
  Days are counted from 0001-01-01, the day of Go's zero instant. Years are taken to start
  in March so that the leap day comes last; \<open>march_epoch\<close> is 0000-03-01.
\<close>

definition day_ns :: duration where
  "day_ns = 86400000000000"

definition march_epoch :: int where
  "march_epoch = - 306"

definition days_before_year :: "int \<Rightarrow> int" where
  "days_before_year y = 365 * y + y div 4 - y div 100 + y div 400"

definition days_before_month :: "int \<Rightarrow> int" where
  "days_before_month mp = (153 * mp + 2) div 5"

text \<open>\<open>time.Date\<close> normalises a month outside 1..12; any day number is accepted.\<close>

definition days_from_civil :: "int \<Rightarrow> int \<Rightarrow> int \<Rightarrow> int" where
  "days_from_civil y m d =
     (let m0 = m - 3; y' = y + m0 div 12; mp = m0 mod 12
      in march_epoch + days_before_year y' + days_before_month mp + (d - 1))"

definition civil_from_days :: "int \<Rightarrow> int \<times> int \<times> int" where
  "civil_from_days z =
     (let n = z - march_epoch;
          era = n div 146097; doe = n mod 146097;
          c = min 3 (doe div 36524); rc = doe - 36524 * c;
          q = rc div 1461; rq = rc - 1461 * q;
          y1 = min 3 (rq div 365); doy = rq - 365 * y1;
          yp = 400 * era + 100 * c + 4 * q + y1;
          mp = (5 * doy + 2) div 153;
          d = doy - days_before_month mp + 1;
          m = (if mp < 10 then mp + 3 else mp - 9);
          y = (if mp < 10 then yp else yp + 1)
      in (y, m, d))"

section \<open>Zones\<close>

record Location =
  offset_at :: "gotime \<Rightarrow> duration"

definition UTC :: Location where
  "UTC = \<lparr>offset_at = (\<lambda>_. 0)\<rparr>"

definition FixedZone :: "duration \<Rightarrow> Location" where
  "FixedZone off = \<lparr>offset_at = (\<lambda>_. off)\<rparr>"

text \<open>\<open>u := t.In(l)\<close> followed by \<open>u.Year(), u.Month(), u.Day()\<close>.\<close>

definition civil_in :: "Location \<Rightarrow> gotime \<Rightarrow> int \<times> int \<times> int" where
  "civil_in l t = civil_from_days ((t + offset_at l t) div day_ns)"

text \<open>
  \<open>time.Date(y, m, d, 0, 0, 0, 0, l)\<close>: the local midnight read as if it were UTC gives a
  first offset; the offset in effect at the instant it leads to is the one applied.
\<close>

definition time_Date :: "int \<Rightarrow> int \<Rightarrow> int \<Rightarrow> Location \<Rightarrow> gotime" where
  "time_Date y m d l =
     (let unix = days_from_civil y m d * day_ns
      in unix - offset_at l (unix - offset_at l unix))"

section \<open>The textual form of a duration\<close>

fun digits :: "nat \<Rightarrow> string" where
  "digits n = (if n < 10 then [char_of (48 + n)] else digits (n div 10) @ [char_of (48 + n mod 10)])"

declare digits.simps [simp del]

text \<open>A number in at least \<open>w\<close> digits, as \<open>time.Format\<close> prints the fields of a date.\<close>

definition pad :: "nat \<Rightarrow> int \<Rightarrow> string" where
  "pad w n = (let s = digits (nat n) in replicate (w - length s) CHR ''0'' @ s)"

text \<open>\<open>fmtFrac\<close>: the last \<open>prec\<close> digits as a fraction without trailing zeros.\<close>

fun frac_digits :: "nat \<Rightarrow> nat \<Rightarrow> bool \<Rightarrow> string" where
  "frac_digits 0 v seen = (if seen then ''.'' else '''')"
| "frac_digits (Suc p) v seen =
     (let dg = v mod 10; seen' = (seen \<or> dg \<noteq> 0)
      in frac_digits p (v div 10) seen' @ (if seen' then [char_of (48 + dg)] else ''''))"

definition fmtFrac :: "nat \<Rightarrow> nat \<Rightarrow> string" where
  "fmtFrac v prec = frac_digits prec v False"

definition micro_sign :: string where
  "micro_sign = [char_of (194::nat), char_of (181::nat)]"

definition Duration_String :: "duration \<Rightarrow> string" where
  "Duration_String d =
     (let u = nat \<bar>d\<bar>;
          body =
            (if u < 1000000000 then
               (if u = 0 then ''0s''
                else if u < 1000 then digits u @ ''ns''
                else if u < 1000000 then digits (u div 1000) @ fmtFrac u 3 @ micro_sign @ ''s''
                else digits (u div 1000000) @ fmtFrac u 6 @ ''ms'')
             else
               (let s = u div 1000000000; m = s div 60; h = m div 60;
                    secs = digits (s mod 60) @ fmtFrac u 9 @ ''s'' in
                if m = 0 then secs
                else if h = 0 then digits (m mod 60) @ ''m'' @ secs
                else digits h @ ''h'' @ digits (m mod 60) @ ''m'' @ secs))
      in (if d < 0 then ''-'' @ body else body))"

section \<open>Lemmas\<close>

lemma day_ns_pos [simp]: "0 < day_ns" "0 \<le> day_ns"
  by (simp_all add: day_ns_def)

lemma div_bounds: "0 < k \<Longrightarrow> k * (n div k) \<le> n \<and> n < k * (n div k) + (k::int)"
  using pos_mod_sign [of k n] pos_mod_bound [of k n] mult_div_mod_eq [of k n] by linarith

text \<open>The year decomposition, in the terms of \<open>civil_from_days\<close>.\<close>

lemma era_year:
  assumes "0 \<le> c" "c \<le> 3" "0 \<le> q" "q \<le> 24" "0 \<le> y1" "y1 \<le> (3::int)"
  shows "days_before_year (400 * era + 100 * c + 4 * q + y1)
    = 146097 * era + 36524 * c + 1461 * q + 365 * y1"
proof -
  let ?y = "400 * era + 100 * c + 4 * q + y1"
  have "?y div 4 = 100 * era + 25 * c + q"
    using assms by (intro int_div_pos_eq [where r = y1]) auto
  moreover have "?y div 100 = 4 * era + c"
    using assms by (intro int_div_pos_eq [where r = "4 * q + y1"]) auto
  moreover have "?y div 400 = era"
    using assms by (intro int_div_pos_eq [where r = "100 * c + 4 * q + y1"]) auto
  ultimately show ?thesis by (simp add: days_before_year_def)
qed

lemma days_before_month_bounds:
  "5 * days_before_month mp \<le> 153 * mp + 2" "153 * mp + 2 < 5 * days_before_month mp + 5"
  using div_bounds [of 5 "153 * mp + 2"] by (simp_all add: days_before_month_def)

lemma month_day:
  assumes "0 \<le> doy" "doy \<le> 365" "mp = (5 * doy + 2) div (153::int)"
  shows "0 \<le> mp" "mp \<le> 11" "days_before_month mp \<le> doy" "doy < days_before_month (mp + 1)"
proof -
  have mp: "153 * mp \<le> 5 * doy + 2" "5 * doy + 2 < 153 * mp + 153"
    using div_bounds [of 153 "5 * doy + 2"] assms(3) by simp_all
  show "0 \<le> mp" "mp \<le> 11" using mp assms(1,2) by linarith+
  show "days_before_month mp \<le> doy"
    using mp days_before_month_bounds [of mp] by linarith
  have "153 * mp + 150 < 5 * days_before_month (mp + 1)"
    using days_before_month_bounds [of "mp + 1"] by (simp add: algebra_simps)
  with mp(2) show "doy < days_before_month (mp + 1)" by linarith
qed

text \<open>\<open>civil_from_days\<close> decomposes a day number into a year, a month and a day of it.\<close>

lemma civil_decompose:
  obtains yp mp doy where "z = march_epoch + days_before_year yp + doy" "0 \<le> doy" "doy \<le> 365"
    "mp = (5 * doy + 2) div 153"
    "civil_from_days z = (if mp < 10 then yp else yp + 1, if mp < 10 then mp + 3 else mp - 9,
       doy - days_before_month mp + 1)"
    "doy < days_before_year (yp + 1) - days_before_year yp"
proof -
  define n where "n = z - march_epoch"
  define era where "era = n div 146097"
  define doe where "doe = n mod 146097"
  define c where "c = min 3 (doe div 36524)"
  define rc where "rc = doe - 36524 * c"
  define q where "q = rc div 1461"
  define rq where "rq = rc - 1461 * q"
  define y1 where "y1 = min 3 (rq div 365)"
  define doy where "doy = rq - 365 * y1"
  define yp where "yp = 400 * era + 100 * c + 4 * q + y1"
  have n: "n = 146097 * era + doe" by (simp add: era_def doe_def)
  have doe: "0 \<le> doe" "doe < 146097" by (simp_all add: doe_def)
  have c: "0 \<le> c" "c \<le> 3" "0 \<le> rc" "rc \<le> 36524" "c < 3 \<longrightarrow> rc < 36524"
    using doe div_bounds [of 36524 doe] by (auto simp: c_def rc_def min_def)
  have q: "0 \<le> q" "q \<le> 24" "0 \<le> rq" "rq \<le> 1460"
    using c div_bounds [of 1461 rc] by (auto simp: q_def rq_def)
  have q24: "q = 24 \<longrightarrow> c < 3 \<longrightarrow> rq < 1460"
    using c by (auto simp: rq_def)
  have y1: "0 \<le> y1" "y1 \<le> 3" "0 \<le> doy" "doy \<le> 365" "y1 < 3 \<longrightarrow> doy < 365"
    using q div_bounds [of 365 rq] by (auto simp: y1_def doy_def min_def)
  have z: "z = march_epoch + days_before_year yp + doy"
    using era_year [OF c(1,2) q(1,2) y1(1,2), of era] n
    by (simp add: yp_def n_def doy_def rq_def rc_def)
  have "doy < days_before_year (yp + 1) - days_before_year yp"
  proof (cases "y1 < 3")
    case True
    then have "days_before_year (yp + 1) = 146097 * era + 36524 * c + 1461 * q + 365 * (y1 + 1)"
      using era_year [OF c(1,2) q(1,2), of "y1 + 1" era] y1 by (simp add: yp_def algebra_simps)
    then show ?thesis using era_year [OF c(1,2) q(1,2) y1(1,2), of era] y1 True
      by (simp add: yp_def)
  next
    case False
    with y1 have y3: "y1 = 3" by simp
    show ?thesis
    proof (cases "q < 24")
      case True
      then have "days_before_year (yp + 1) = 146097 * era + 36524 * c + 1461 * (q + 1)"
        using era_year [OF c(1,2), of "q + 1" 0 era] q y3 by (simp add: yp_def algebra_simps)
      then show ?thesis using era_year [OF c(1,2) q(1,2) y1(1,2), of era] y1 y3
        by (simp add: yp_def)
    next
      case False
      with q have q': "q = 24" by simp
      show ?thesis
      proof (cases "c < 3")
        case True
        then have "days_before_year (yp + 1) = 146097 * era + 36524 * (c + 1)"
          using era_year [of "c + 1" 0 0 era] c q' y3 by (simp add: yp_def algebra_simps)
        then show ?thesis using era_year [OF c(1,2) q(1,2) y1(1,2), of era] y3 q' True q24
          by (simp add: yp_def doy_def)
      next
        case False
        with c have c': "c = 3" by simp
        have "days_before_year (yp + 1) = 146097 * (era + 1)"
          using era_year [of 0 0 0 "era + 1"] c' q' y3 by (simp add: yp_def algebra_simps)
        then show ?thesis using era_year [OF c(1,2) q(1,2) y1(1,2), of era] y3 q' c' y1
          by (simp add: yp_def)
      qed
    qed
  qed
  moreover have "civil_from_days z = (let mp = (5 * doy + 2) div 153 in
      (if mp < 10 then yp else yp + 1, if mp < 10 then mp + 3 else mp - 9,
       doy - days_before_month mp + 1))"
    unfolding civil_from_days_def Let_def n_def [symmetric] era_def [symmetric] doe_def [symmetric]
      c_def [symmetric] rc_def [symmetric] q_def [symmetric] rq_def [symmetric] y1_def [symmetric]
      doy_def [symmetric] yp_def [symmetric] by simp
  ultimately show ?thesis
    using that [OF z y1(3,4) refl] by (simp add: Let_def)
qed

lemma days_from_civil_split:
  assumes "m - 3 = 12 * k + r" "0 \<le> r" "r \<le> 11"
  shows "days_from_civil y m d
    = march_epoch + days_before_year (y + k) + days_before_month r + (d - 1)"
proof -
  have "(m - 3) div 12 = k" using assms by (intro int_div_pos_eq [where r = r]) auto
  moreover have "(m - 3) mod 12 = r" using assms by (intro int_mod_pos_eq [where q = k]) auto
  ultimately show ?thesis by (simp add: days_from_civil_def Let_def)
qed

text \<open>
  Reading the civil date of a day and writing it back is the identity; the next day and the
  first day of the next month lie after it, the first day of its month does not.
\<close>

lemma civil_boundaries:
  assumes "civil_from_days z = (y, m, d)"
  shows "days_from_civil y m d = z" "days_from_civil y m (d + 1) = z + 1"
    "z < days_from_civil y (m + 1) 1" "days_from_civil y m 1 \<le> z"
proof -
  obtain yp mp doy where z: "z = march_epoch + days_before_year yp + doy"
    and doy: "0 \<le> doy" "doy \<le> 365" and mp: "mp = (5 * doy + 2) div 153"
    and civ: "civil_from_days z = (if mp < 10 then yp else yp + 1,
      if mp < 10 then mp + 3 else mp - 9, doy - days_before_month mp + 1)"
    and year: "doy < days_before_year (yp + 1) - days_before_year yp"
    using civil_decompose [of z] by blast
  note md = month_day [OF doy mp]
  have d: "d = doy - days_before_month mp + 1" using assms civ by simp
  obtain k where k: "m - 3 = 12 * k + mp" "y + k = yp"
  proof (cases "mp < 10")
    case True
    then show ?thesis using assms civ by (intro that [of 0]) auto
  next
    case False
    then show ?thesis using assms civ by (intro that [of "- 1"]) auto
  qed
  have at: "days_from_civil y m i = march_epoch + days_before_year yp + days_before_month mp + (i - 1)"
    for i using days_from_civil_split [OF k(1) md(1,2)] k(2) by simp
  show "days_from_civil y m d = z" "days_from_civil y m (d + 1) = z + 1"
    "days_from_civil y m 1 \<le> z"
    using z d md(3) by (simp_all add: at)
  show "z < days_from_civil y (m + 1) 1"
  proof (cases "mp < 11")
    case True
    then have "days_from_civil y (m + 1) 1
        = march_epoch + days_before_year yp + days_before_month (mp + 1)"
      using days_from_civil_split [of "m + 1" k "mp + 1" y 1] k md(1) by simp
    then show ?thesis using z md(4) by simp
  next
    case False
    with md have mp11: "mp = 11" by simp
    then have "m = 2 \<and> y = yp + 1" using assms civ by auto
    then show ?thesis using z year
      by (simp add: days_from_civil_def Let_def days_before_month_def)
  qed
qed

text \<open>The characters a duration is written with never include a colon.\<close>

lemma digit_not_colon: "(n::nat) < 10 \<Longrightarrow> char_of (48 + n) \<noteq> CHR '':''"
proof
  assume "n < 10" "char_of (48 + n) = CHR '':''"
  then have "(of_char (char_of (48 + n)) :: nat) = of_char (CHR '':'')" by simp
  with \<open>n < 10\<close> show False by (simp add: of_char_of)
qed

lemma colon_notin_digits: "CHR '':'' \<notin> set (digits n)"
proof (induction n rule: digits.induct)
  case (1 n)
  then show ?case
    using digit_not_colon [of n] digit_not_colon [of "n mod 10"]
    by (subst digits.simps) auto
qed

lemma colon_notin_frac: "CHR '':'' \<notin> set (frac_digits p v seen)"
proof (induction p v seen rule: frac_digits.induct)
  case (1 v seen)
  then show ?case by simp
next
  case (2 p v seen)
  then show ?case using digit_not_colon [of "v mod 10"] by (auto simp: Let_def)
qed

lemma colon_notin_micro: "CHR '':'' \<notin> set micro_sign"
  by (simp add: micro_sign_def char_of_def)

lemma colon_notin_duration: "CHR '':'' \<notin> set (Duration_String d)"
  using colon_notin_digits colon_notin_frac colon_notin_micro
  by (simp add: Duration_String_def fmtFrac_def Let_def)

section \<open>Evaluation\<close>

text \<open>
  The calendar computations with every intermediate value passed as an argument, for the
  evaluation of concrete instants.
\<close>

definition civil_year :: "int \<Rightarrow> int \<Rightarrow> int \<Rightarrow> int \<times> int \<times> int" where
  "civil_year yp doy mp =
     (if mp < 10 then (yp, mp + 3, doy - days_before_month mp + 1)
      else (yp + 1, mp - 9, doy - days_before_month mp + 1))"

definition civil_quad :: "int \<Rightarrow> int \<Rightarrow> int \<Rightarrow> int \<times> int \<times> int" where
  "civil_quad base rq y1 = civil_year (base + y1) (rq - 365 * y1) ((5 * (rq - 365 * y1) + 2) div 153)"

definition civil_century :: "int \<Rightarrow> int \<Rightarrow> int \<Rightarrow> int \<times> int \<times> int" where
  "civil_century base rc q = civil_quad (base + 4 * q) (rc - 1461 * q) (min 3 ((rc - 1461 * q) div 365))"

definition civil_era :: "int \<Rightarrow> int \<Rightarrow> int \<Rightarrow> int \<times> int \<times> int" where
  "civil_era era doe c = civil_century (400 * era + 100 * c) (doe - 36524 * c) ((doe - 36524 * c) div 1461)"

definition civil_days :: "int \<Rightarrow> int \<Rightarrow> int \<times> int \<times> int" where
  "civil_days era doe = civil_era era doe (min 3 (doe div 36524))"

lemma civil_from_days_code [code]:
  "civil_from_days z = civil_days ((z - march_epoch) div 146097) ((z - march_epoch) mod 146097)"
  unfolding civil_from_days_def civil_days_def civil_era_def civil_century_def civil_quad_def
    civil_year_def Let_def
  by (simp only: prod.inject split: if_split) blast

definition days_in :: "int \<Rightarrow> int \<Rightarrow> int \<Rightarrow> int" where
  "days_in y' mp d = march_epoch + days_before_year y' + days_before_month mp + (d - 1)"

lemma days_from_civil_code [code]:
  "days_from_civil y m d = days_in (y + (m - 3) div 12) ((m - 3) mod 12) d"
  by (simp add: days_from_civil_def days_in_def Let_def)

end
