(* ===== verification/Spend_Counter.thy ===== *)
theory Spend_Counter
  imports Prelude
begin

text \<open>
  The contract between a store of spend counters (the Go interfaces \<open>budget.BudgetStore\<close> and
  the quota half of \<open>limiter.LimiterStore\<close>) and the code that debits several counters for one
  request. \<open>tracked s k t\<close> says that the store holds a live window for \<open>k\<close> at \<open>t\<close>,
  \<open>observe\<close> what it reports for it. The lemmas about a sequence of debits are proved here
  once; both in-memory stores interpret the contract.
\<close>

locale spend_counter =
  fixes ok :: "'s \<Rightarrow> bool"
    and observe :: "'s \<Rightarrow> 'k \<Rightarrow> gotime \<Rightarrow> i64"
    and tracked :: "'s \<Rightarrow> 'k \<Rightarrow> gotime \<Rightarrow> bool"
    and debit :: "gotime \<Rightarrow> 'k \<Rightarrow> i64 \<Rightarrow> 'w \<Rightarrow> 's \<Rightarrow> 's"
  assumes observe_bounds: "ok s \<Longrightarrow> 0 \<le> observe s k t \<and> observe s k t \<le> max_i64"
    and debit_ok: "ok s \<Longrightarrow> ok (debit t k n w s)"
    and debit_counts: "ok s \<Longrightarrow> tracked s k t \<Longrightarrow> 0 \<le> n \<Longrightarrow>
      observe (debit t k n w s) k t = sat_add64 (observe s k t) n"
    and debit_frame: "ok s \<Longrightarrow> k' \<noteq> k \<Longrightarrow> observe (debit t k n w s) k' t = observe s k' t"
    and debit_tracked: "ok s \<Longrightarrow> tracked s k' t \<Longrightarrow> tracked (debit t k n w s) k' t"
begin

text \<open>One debit of \<open>n\<close> per scope, in the order of the list.\<close>

primrec debit_all :: "gotime \<Rightarrow> i64 \<Rightarrow> ('k \<times> 'w) list \<Rightarrow> 's \<Rightarrow> 's" where
  "debit_all t n [] s = s"
| "debit_all t n (kw # kws) s = debit_all t n kws (debit t (fst kw) n (snd kw) s)"

lemma debit_all_ok: "ok s \<Longrightarrow> ok (debit_all t n kws s)"
  by (induction kws arbitrary: s) (auto simp: debit_ok)

lemma debit_all_tracked: "ok s \<Longrightarrow> tracked s k t \<Longrightarrow> tracked (debit_all t n kws s) k t"
  by (induction kws arbitrary: s) (auto simp: debit_ok debit_tracked)

lemma debit_all_frame:
  "ok s \<Longrightarrow> k \<notin> fst ` set kws \<Longrightarrow> observe (debit_all t n kws s) k t = observe s k t"
  by (induction kws arbitrary: s) (auto simp: debit_ok debit_frame)

lemma debit_all_counts:
  assumes "ok s" "0 \<le> n" "distinct (map fst kws)" "k \<in> fst ` set kws" "tracked s k t"
  shows "observe (debit_all t n kws s) k t = sat_add64 (observe s k t) n"
  using assms
proof (induction kws arbitrary: s)
  case Nil
  then show ?case by simp
next
  case (Cons kw kws)
  let ?s = "debit t (fst kw) n (snd kw) s"
  have ok: "ok ?s" using Cons.prems(1) by (rule debit_ok)
  show ?case
  proof (cases "k = fst kw")
    case True
    with Cons.prems(3) have "k \<notin> fst ` set kws" by auto
    then have "observe (debit_all t n kws ?s) k t = observe ?s k t" by (rule debit_all_frame [OF ok])
    with True show ?thesis using debit_counts [OF Cons.prems(1,5,2)] by simp
  next
    case False
    with Cons.prems(4) have "k \<in> fst ` set kws" by auto
    moreover have "tracked ?s k t" using Cons.prems(1,5) by (rule debit_tracked)
    ultimately have "observe (debit_all t n kws ?s) k t = sat_add64 (observe ?s k t) n"
      using Cons.IH ok Cons.prems(2,3) by simp
    then show ?thesis using debit_frame [OF Cons.prems(1) False] by simp
  qed
qed

text \<open>A run of debits of one counter adds up, saturating at the top of the range.\<close>

lemma debits_add_up:
  assumes "ok s" "tracked s k t" "\<forall>n\<in>set ns. 0 \<le> n"
  shows "observe (fold (\<lambda>n. debit t k n w) ns s) k t = sat_add64 (observe s k t) (sum_list ns)"
  using assms
proof (induction ns arbitrary: s)
  case Nil
  then show ?case using observe_bounds [of s k t] by simp
next
  case (Cons n ns)
  have "observe (fold (\<lambda>n. debit t k n w) ns (debit t k n w s)) k t
      = sat_add64 (observe (debit t k n w s) k t) (sum_list ns)"
    using Cons.prems by (intro Cons.IH debit_ok debit_tracked) auto
  also have "\<dots> = sat_add64 (sat_add64 (observe s k t) n) (sum_list ns)"
    using Cons.prems by (simp add: debit_counts)
  also have "\<dots> = sat_add64 (observe s k t) (n + sum_list ns)"
    using Cons.prems by (intro sat_add64_assoc) (auto intro: sum_list_nonneg)
  finally show ?case by simp
qed

end

end
