(* ===== verification/Budget.thy ===== *)
theory Budget
  imports Go_Time Spend_Counter
begin

text \<open>
  The in-memory budget store of \<open>src/internal/budget\<close>: window rules, store keys, and the
  counters with their amortised sweep and capacity fail-safe. The clock \<open>b.now()\<close> is the
  argument \<open>t\<close> of each operation; the mutex makes every operation atomic.
\<close>

section \<open>Data\<close>

datatype Decision = Allow | Block | BlockCapacity

datatype WindowKind = Rolling | CalDay | CalMonth

record Window =
  Kind :: WindowKind
  Dur :: duration
  Loc :: "Location option"

record win =
  spent :: i64
  windowEnd_of :: gotime

record Memory =
  bm :: "(string, win) gomap"
  maxEntries :: nat
  sweepTick :: nat
  rejected :: nat

definition sweepEvery :: nat where
  "sweepEvery = 256"

definition defaultMaxEntries :: nat where
  "defaultMaxEntries = 100000"

definition NewMemory :: Memory where
  "NewMemory = \<lparr>bm = [], maxEntries = defaultMaxEntries, sweepTick = 0, rejected = 0\<rparr>"

definition ScopeTeam :: string where "ScopeTeam = ''team''"
definition ScopeKey :: string where "ScopeKey = ''key''"
definition ScopeUser :: string where "ScopeUser = ''user''"

section \<open>Windows and keys\<close>

definition Decision_String :: "Decision \<Rightarrow> string" where
  "Decision_String d =
     (case d of Allow \<Rightarrow> ''Allow'' | Block \<Rightarrow> ''Block'' | BlockCapacity \<Rightarrow> ''BlockCapacity'')"

definition CalendarDayIn :: "Location option \<Rightarrow> Window" where
  "CalendarDayIn loc = \<lparr>Kind = CalDay, Dur = 0, Loc = loc\<rparr>"

definition CalendarMonthIn :: "Location option \<Rightarrow> Window" where
  "CalendarMonthIn loc = \<lparr>Kind = CalMonth, Dur = 0, Loc = loc\<rparr>"

definition Tag :: "Window \<Rightarrow> string" where
  "Tag w = (case Kind w of CalDay \<Rightarrow> ''day'' | CalMonth \<Rightarrow> ''month''
            | Rolling \<Rightarrow> ''r'' @ Duration_String (Dur w))"

definition window_loc :: "Window \<Rightarrow> Location" where
  "window_loc w = (case Loc w of None \<Rightarrow> UTC | Some l \<Rightarrow> l)"

definition windowEnd :: "gotime \<Rightarrow> Window \<Rightarrow> gotime" where
  "windowEnd t w =
     (case Kind w of
        CalDay \<Rightarrow> (let l = window_loc w; (y, m, d) = civil_in l t in time_Date y m (d + 1) l)
      | CalMonth \<Rightarrow> (let l = window_loc w; (y, m, d) = civil_in l t in time_Date y (m + 1) 1 l)
      | Rolling \<Rightarrow> t + Dur w)"

text \<open>The same for evaluation, on the civil date.\<close>

fun day_end :: "Location \<Rightarrow> int \<times> int \<times> int \<Rightarrow> gotime" where
  "day_end l (y, m, d) = time_Date y m (d + 1) l"

fun month_end :: "Location \<Rightarrow> int \<times> int \<times> int \<Rightarrow> gotime" where
  "month_end l (y, m, d) = time_Date y (m + 1) 1 l"

lemma windowEnd_code [code]:
  "windowEnd t w =
     (case Kind w of CalDay \<Rightarrow> day_end (window_loc w) (civil_in (window_loc w) t)
      | CalMonth \<Rightarrow> month_end (window_loc w) (civil_in (window_loc w) t)
      | Rolling \<Rightarrow> t + Dur w)"
  by (simp add: windowEnd_def Let_def split: WindowKind.split prod.split)

definition budget_Key :: "string \<Rightarrow> string \<Rightarrow> Window \<Rightarrow> string" where
  "budget_Key scope ident w = ''budget:'' @ Tag w @ '':'' @ scope @ '':'' @ ident"

section \<open>The store\<close>

definition sweepExpired :: "gotime \<Rightarrow> Memory \<Rightarrow> Memory" where
  "sweepExpired t b = b\<lparr>bm := gfilter (\<lambda>_ v. t < windowEnd_of v) (bm b)\<rparr>"

definition tick :: "gotime \<Rightarrow> Memory \<Rightarrow> Memory" where
  "tick t b =
     (let b1 = b\<lparr>sweepTick := Suc (sweepTick b)\<rparr> in
      if sweepTick b1 \<ge> sweepEvery then sweepExpired t (b1\<lparr>sweepTick := 0\<rparr>) else b1)"

definition fresh_window :: "gotime \<Rightarrow> string \<Rightarrow> Window \<Rightarrow> Memory \<Rightarrow> win option \<times> Memory" where
  "fresh_window t key w b =
     (let bkt = \<lparr>spent = 0, windowEnd_of = windowEnd t w\<rparr>
      in (Some bkt, b\<lparr>bm := gput key bkt (bm b)\<rparr>))"

definition cur :: "gotime \<Rightarrow> string \<Rightarrow> Window \<Rightarrow> Memory \<Rightarrow> win option \<times> Memory" where
  "cur t key w b0 =
     (let b = tick t b0 in
      case gget (bm b) key of
        Some bkt \<Rightarrow> if t < windowEnd_of bkt then (Some bkt, b) else fresh_window t key w b
      | None \<Rightarrow>
        if length (bm b) \<ge> maxEntries b then
          (let b' = sweepExpired t b in
           if length (bm b') \<ge> maxEntries b' then (None, b'\<lparr>rejected := Suc (rejected b')\<rparr>)
           else fresh_window t key w b')
        else fresh_window t key w b)"

definition Rejections :: "Memory \<Rightarrow> nat" where
  "Rejections b = rejected b"

definition Check :: "gotime \<Rightarrow> string \<Rightarrow> i64 \<Rightarrow> i64 \<Rightarrow> Window \<Rightarrow> Memory \<Rightarrow> Decision \<times> Memory" where
  "Check t key estimateMicros limitMicros w b =
     (if estimateMicros < 0 then (Block, b)
      else if limitMicros \<le> 0 then (Allow, b)
      else (case cur t key w b of
              (None, b') \<Rightarrow> (BlockCapacity, b')
            | (Some bkt, b') \<Rightarrow>
                if spent bkt > limitMicros \<or> estimateMicros > wrap64 (limitMicros - spent bkt)
                then (Block, b') else (Allow, b')))"

definition Debit :: "gotime \<Rightarrow> string \<Rightarrow> i64 \<Rightarrow> Window \<Rightarrow> Memory \<Rightarrow> Memory" where
  "Debit t key actualMicros w b =
     (if actualMicros < 0 then b
      else (case cur t key w b of
              (None, b') \<Rightarrow> b'
            | (Some bkt, b') \<Rightarrow>
                b'\<lparr>bm := gput key (bkt\<lparr>spent := (if actualMicros > wrap64 (max_i64 - spent bkt)
                     then max_i64 else spent bkt + actualMicros)\<rparr>) (bm b')\<rparr>))"

definition Spent :: "gotime \<Rightarrow> string \<Rightarrow> Window \<Rightarrow> Memory \<Rightarrow> i64 \<times> Memory" where
  "Spent t key w b =
     (case cur t key w b of (None, b') \<Rightarrow> (0, b') | (Some bkt, b') \<Rightarrow> (spent bkt, b'))"

text \<open>At capacity \<open>ResetsAt\<close> reads the clock a second time, at \<open>t2\<close>.\<close>

definition ResetsAt :: "gotime \<Rightarrow> gotime \<Rightarrow> string \<Rightarrow> Window \<Rightarrow> Memory \<Rightarrow> gotime \<times> Memory" where
  "ResetsAt t t2 key w b =
     (case cur t key w b of
        (None, b') \<Rightarrow> (windowEnd t2 w, b')
      | (Some bkt, b') \<Rightarrow> (windowEnd_of bkt, b'))"

section \<open>Invariant and observation\<close>

definition win_ok :: "win \<Rightarrow> bool" where
  "win_ok v \<longleftrightarrow> 0 \<le> spent v \<and> spent v \<le> max_i64"

definition mem_ok :: "Memory \<Rightarrow> bool" where
  "mem_ok b \<longleftrightarrow> gwf (bm b) \<and> length (bm b) \<le> maxEntries b \<and> sweepTick b < sweepEvery \<and>
     (\<forall>k v. gget (bm b) k = Some v \<longrightarrow> win_ok v)"

text \<open>What is observable of a key at an instant: the spend of its live window, else zero.\<close>

definition live_spend :: "Memory \<Rightarrow> string \<Rightarrow> gotime \<Rightarrow> i64" where
  "live_spend b key t =
     (case gget (bm b) key of
        Some v \<Rightarrow> if t < windowEnd_of v then spent v else 0
      | None \<Rightarrow> 0)"

text \<open>The store holds an entry for the key, live or expired.\<close>

definition known :: "Memory \<Rightarrow> string \<Rightarrow> bool" where
  "known b key \<longleftrightarrow> gget (bm b) key \<noteq> None"

section \<open>Lemmas\<close>

lemma sweepExpired_fields [simp]:
  "maxEntries (sweepExpired t b) = maxEntries b" "sweepTick (sweepExpired t b) = sweepTick b"
  "rejected (sweepExpired t b) = rejected b"
  by (simp_all add: sweepExpired_def)

lemma gget_sweepExpired:
  "mem_ok b \<Longrightarrow> gget (bm (sweepExpired t b)) k =
     (case gget (bm b) k of None \<Rightarrow> None | Some v \<Rightarrow> if t < windowEnd_of v then Some v else None)"
  by (simp add: sweepExpired_def mem_ok_def gget_gfilter)

lemma sweepExpired_ok: "mem_ok b \<Longrightarrow> mem_ok (sweepExpired t b)"
  using length_gfilter_le [of "\<lambda>_ v. t < windowEnd_of v" "bm b"]
  by (auto simp: mem_ok_def sweepExpired_def gget_gfilter split: option.splits)

text \<open>Sweeping at \<open>t\<close> is unobservable from \<open>t\<close> on.\<close>

lemma live_spend_sweepExpired:
  "mem_ok b \<Longrightarrow> t \<le> t' \<Longrightarrow> live_spend (sweepExpired t b) k t' = live_spend b k t'"
  by (auto simp: live_spend_def gget_sweepExpired split: option.splits)

lemma tick_cases:
  obtains "tick t b = b\<lparr>sweepTick := Suc (sweepTick b)\<rparr>" "Suc (sweepTick b) < sweepEvery"
  | "tick t b = sweepExpired t (b\<lparr>sweepTick := 0\<rparr>)"
  by (cases "Suc (sweepTick b) < sweepEvery") (auto simp: tick_def Let_def)

lemma mem_ok_sweepTick: "mem_ok b \<Longrightarrow> n < sweepEvery \<Longrightarrow> mem_ok (b\<lparr>sweepTick := n\<rparr>)"
  by (simp add: mem_ok_def)

lemma sweepEvery_pos [simp]: "0 < sweepEvery"
  by (simp add: sweepEvery_def)

lemma tick_ok: "mem_ok b \<Longrightarrow> mem_ok (tick t b)"
  by (cases rule: tick_cases [of t b]) (simp_all add: mem_ok_sweepTick sweepExpired_ok)

lemma live_spend_tick: "mem_ok b \<Longrightarrow> t \<le> t' \<Longrightarrow> live_spend (tick t b) k t' = live_spend b k t'"
proof (cases rule: tick_cases [of t b])
  assume ok: "mem_ok b" "t \<le> t'"
  case 2
  with ok show ?thesis
    using live_spend_sweepExpired [OF mem_ok_sweepTick [OF ok(1), of 0] ok(2)]
    by (simp add: live_spend_def)
qed (simp add: live_spend_def)

lemma tick_maxEntries [simp]: "maxEntries (tick t b) = maxEntries b"
  by (cases rule: tick_cases [of t b]) simp_all

text \<open>A live entry survives the sweep; an entry the sweep removes frees its slot.\<close>

lemma tick_known:
  assumes "mem_ok b" "known b key"
  shows "known (tick t b) key \<or> length (bm (tick t b)) < maxEntries (tick t b)"
proof (cases rule: tick_cases [of t b])
  case 1
  with assms(2) show ?thesis by (simp add: known_def)
next
  case 2
  from assms(2) obtain v where v: "gget (bm b) key = Some v" by (auto simp: known_def)
  show ?thesis
  proof (cases "t < windowEnd_of v")
    case True
    with v 2 show ?thesis
      using gget_sweepExpired [OF mem_ok_sweepTick [OF assms(1), of 0]] by (simp add: known_def)
  next
    case False
    with v have "length (gfilter (\<lambda>_ v. t < windowEnd_of v) (bm b)) < length (bm b)"
      by (rule length_gfilter_less)
    with 2 assms(1) show ?thesis by (auto simp: sweepExpired_def mem_ok_def)
  qed
qed

lemma fresh_window_ok:
  assumes "mem_ok b" "known b key \<or> length (bm b) < maxEntries b"
  shows "mem_ok (snd (fresh_window t key w b))"
  using assms by (auto simp: mem_ok_def fresh_window_def Let_def known_def win_ok_def length_gput
      gget_gput split: if_splits)

lemma cur_ok: "mem_ok b \<Longrightarrow> mem_ok (snd (cur t key w b))"
proof -
  assume ok: "mem_ok b"
  have t: "mem_ok (tick t b)" using ok by (rule tick_ok)
  have s: "mem_ok (sweepExpired t (tick t b))" using t by (rule sweepExpired_ok)
  have r: "mem_ok (c\<lparr>rejected := n\<rparr>)" if "mem_ok c" for c n using that by (simp add: mem_ok_def)
  show ?thesis
    using t s r fresh_window_ok [OF t] fresh_window_ok [OF s]
    by (auto simp: cur_def Let_def known_def not_le split: option.splits)
qed

text \<open>
  \<open>cur\<close> as a specification: at capacity it refuses only a key the store does not hold;
  otherwise it returns a bucket that carries exactly the key's live spend, stored under the
  key, and leaves the live spend of every other key alone.
\<close>

lemma cur_Some_cases:
  assumes ok: "mem_ok b" and cur: "cur t key w b = (Some bkt, b')"
  obtains (live) "gget (bm (tick t b)) key = Some bkt" "t < windowEnd_of bkt" "b' = tick t b"
    | (fresh) c where "bkt = \<lparr>spent = 0, windowEnd_of = windowEnd t w\<rparr>"
        "b' = c\<lparr>bm := gput key bkt (bm c)\<rparr>" "live_spend b key t = 0" "mem_ok c"
        "\<And>k t'. t \<le> t' \<Longrightarrow> live_spend c k t' = live_spend b k t'"
proof -
  have t: "mem_ok (tick t b)" using ok by (rule tick_ok)
  have z: "live_spend b key t = live_spend (tick t b) key t" by (simp add: live_spend_tick ok)
  show ?thesis
  proof (cases "\<exists>v. gget (bm (tick t b)) key = Some v \<and> t < windowEnd_of v")
    case True
    with cur show ?thesis by (auto simp: cur_def Let_def intro: that(1))
  next
    case False
    have zero: "live_spend b key t = 0"
      unfolding z using False by (auto simp: live_spend_def split: option.splits)
    have "\<exists>c. (c = tick t b \<or> c = sweepExpired t (tick t b)) \<and>
        fresh_window t key w c = (Some bkt, b')"
      using cur False by (auto simp: cur_def Let_def split: option.splits if_splits)
    then obtain c where c: "c = tick t b \<or> c = sweepExpired t (tick t b)"
      and f: "fresh_window t key w c = (Some bkt, b')" by blast
    have ok_c: "mem_ok c" using c t sweepExpired_ok [OF t] by blast
    have keep: "live_spend c k t' = live_spend b k t'" if "t \<le> t'" for k t'
      using c live_spend_sweepExpired [OF t that] live_spend_tick [OF ok that] by auto
    from f have bkt: "bkt = \<lparr>spent = 0, windowEnd_of = windowEnd t w\<rparr>"
      and b': "b' = c\<lparr>bm := gput key bkt (bm c)\<rparr>" by (auto simp: fresh_window_def Let_def)
    show ?thesis using that(2) [OF bkt b' zero ok_c keep] .
  qed
qed

lemma cur_Some:
  assumes ok: "mem_ok b" and cur: "cur t key w b = (Some bkt, b')"
  shows "gget (bm b') key = Some bkt" "spent bkt = live_spend b key t" "win_ok bkt"
    "t < windowEnd_of bkt \<or> windowEnd_of bkt = windowEnd t w"
proof -
  have t: "mem_ok (tick t b)" using ok by (rule tick_ok)
  have z: "live_spend b key t = live_spend (tick t b) key t" by (simp add: live_spend_tick ok)
  have "gget (bm b') key = Some bkt \<and> spent bkt = live_spend b key t \<and> win_ok bkt \<and>
    (t < windowEnd_of bkt \<or> windowEnd_of bkt = windowEnd t w)"
    using ok cur
  proof (cases rule: cur_Some_cases)
    case live
    with t z show ?thesis by (auto simp: mem_ok_def live_spend_def)
  next
    case (fresh c)
    then show ?thesis by (simp add: win_ok_def)
  qed
  then show "gget (bm b') key = Some bkt" "spent bkt = live_spend b key t" "win_ok bkt"
    "t < windowEnd_of bkt \<or> windowEnd_of bkt = windowEnd t w" by simp_all
qed

lemma cur_Some_other:
  assumes ok: "mem_ok b" and cur: "cur t key w b = (Some bkt, b')" and "k' \<noteq> key" "t \<le> t'"
  shows "live_spend b' k' t' = live_spend b k' t'"
  using ok cur
proof (cases rule: cur_Some_cases)
  case live
  then show ?thesis using live_spend_tick [OF ok assms(4)] by simp
next
  case (fresh c)
  show ?thesis using fresh(5) [OF assms(4), of k'] assms(3) by (simp add: fresh(2) live_spend_def)
qed

lemma cur_None:
  assumes ok: "mem_ok b" and cur: "cur t key w b = (None, b')"
  shows "\<not> known b key" "t \<le> t' \<Longrightarrow> live_spend b' k' t' = live_spend b k' t'"
    "rejected b' = Suc (rejected b)"
    "maxEntries b \<le> length (filter (\<lambda>(k, v). t < windowEnd_of v) (bm b))"
proof -
  have t: "mem_ok (tick t b)" using ok by (rule tick_ok)
  from cur have miss: "gget (bm (tick t b)) key = None"
    and full: "length (bm (sweepExpired t (tick t b))) \<ge> maxEntries (tick t b)"
    and b': "b' = (sweepExpired t (tick t b))\<lparr>rejected := Suc (rejected (tick t b))\<rparr>"
    by (auto simp: cur_def fresh_window_def Let_def split: option.splits if_splits)
  have "length (bm (sweepExpired t (tick t b))) \<le> length (bm (tick t b))"
    by (simp add: sweepExpired_def length_gfilter_le)
  with full have "\<not> length (bm (tick t b)) < maxEntries (tick t b)" by simp
  with tick_known [OF ok, of key t] miss show "\<not> known b key" by (metis known_def)
  show "live_spend b' k' t' = live_spend b k' t'" if "t \<le> t'"
    using live_spend_sweepExpired [OF t that] live_spend_tick [OF ok that] b'
    by (simp add: live_spend_def)
  have r: "rejected (tick t b) = rejected b" by (cases rule: tick_cases [of t b]) simp_all
  then show "rejected b' = Suc (rejected b)" by (simp add: b')
  have "bm (sweepExpired t (tick t b)) = filter (\<lambda>(k, v). t < windowEnd_of v) (bm b)"
    by (cases rule: tick_cases [of t b]) (simp_all add: sweepExpired_def gfilter_def)
  with full show "maxEntries b \<le> length (filter (\<lambda>(k, v). t < windowEnd_of v) (bm b))" by simp
qed

text \<open>The store holds a live window for the key.\<close>

definition tracked :: "Memory \<Rightarrow> string \<Rightarrow> gotime \<Rightarrow> bool" where
  "tracked b key t \<longleftrightarrow> (\<exists>v. gget (bm b) key = Some v \<and> t < windowEnd_of v)"

lemma tracked_known: "tracked b key t \<Longrightarrow> known b key"
  by (auto simp: tracked_def known_def)

lemma tracked_sweepExpired: "mem_ok b \<Longrightarrow> tracked (sweepExpired t b) k t = tracked b k t"
  by (auto simp: tracked_def gget_sweepExpired split: option.splits)

lemma tracked_tick: "mem_ok b \<Longrightarrow> tracked (tick t b) k t = tracked b k t"
proof (cases rule: tick_cases [of t b])
  assume ok: "mem_ok b"
  case 2
  then show ?thesis using tracked_sweepExpired [OF mem_ok_sweepTick [OF ok, of 0]]
    by (simp add: tracked_def)
qed (simp add: tracked_def)

lemma live_spend_bounds: "mem_ok b \<Longrightarrow> 0 \<le> live_spend b k t \<and> live_spend b k t \<le> max_i64"
  by (auto simp: live_spend_def mem_ok_def win_ok_def split: option.splits)

text \<open>The unchecked subtraction in front of the saturating addition cannot wrap.\<close>

lemma debit_sat:
  "win_ok v \<Longrightarrow> 0 \<le> n \<Longrightarrow>
   (if n > wrap64 (max_i64 - spent v) then max_i64 else spent v + n) = sat_add64 (spent v) n"
  by (simp add: win_ok_def wrap64_diff_nonneg sat_add64_def)

lemma Debit_Some:
  assumes ok: "mem_ok b" and cur: "cur t key w b = (Some bkt, b')" and n: "0 \<le> n"
  shows "Debit t key n w b
    = b'\<lparr>bm := gput key (bkt\<lparr>spent := sat_add64 (live_spend b key t) n\<rparr>) (bm b')\<rparr>"
  using cur_Some [OF ok cur] n debit_sat [of bkt n] by (simp add: Debit_def cur)

lemma Debit_ok: "mem_ok b \<Longrightarrow> mem_ok (Debit t key n w b)"
proof -
  assume ok: "mem_ok b"
  have c: "mem_ok (snd (cur t key w b))" using ok by (rule cur_ok)
  show ?thesis
  proof (cases "n < 0")
    case True
    with ok show ?thesis by (simp add: Debit_def)
  next
    case False
    show ?thesis
    proof (cases "fst (cur t key w b)")
      case None
      with c False show ?thesis by (auto simp: Debit_def split: prod.splits)
    next
      case (Some bkt)
      then have cur: "cur t key w b = (Some bkt, snd (cur t key w b))" by (simp add: prod_eq_iff)
      from cur_Some [OF ok cur] c show ?thesis
        unfolding Debit_Some [OF ok cur, OF False [unfolded not_less]]
        using live_spend_bounds [OF ok, of key t] False sat_add64_bounds [of "live_spend b key t" n]
        by (auto simp: mem_ok_def gget_gput length_gput win_ok_def split: if_splits)
    qed
  qed
qed

lemma Debit_frame:
  assumes ok: "mem_ok b" and "k' \<noteq> key"
  shows "live_spend (Debit t key n w b) k' t = live_spend b k' t"
proof (cases "n < 0")
  case True
  then show ?thesis by (simp add: Debit_def)
next
  case False
  show ?thesis
  proof (cases "fst (cur t key w b)")
    case None
    then obtain b' where cur: "cur t key w b = (None, b')" by (cases "cur t key w b") simp
    show ?thesis using cur_None(2) [OF ok cur, of t k'] False by (simp add: Debit_def cur)
  next
    case (Some bkt)
    then obtain b' where cur: "cur t key w b = (Some bkt, b')" by (cases "cur t key w b") simp
    show ?thesis using cur_Some_other [OF ok cur assms(2), of t] False assms(2)
      by (simp add: Debit_Some [OF ok cur] live_spend_def)
  qed
qed

lemma cur_tracked:
  assumes ok: "mem_ok b" and tr: "tracked b key t"
  shows "\<exists>bkt. cur t key w b = (Some bkt, tick t b) \<and> gget (bm (tick t b)) key = Some bkt \<and>
    t < windowEnd_of bkt"
  using tr tracked_tick [OF ok, of t key] by (auto simp: tracked_def cur_def Let_def)

lemma cur_keeps_tracked:
  assumes ok: "mem_ok b" and tr: "tracked b k' t"
  shows "tracked (snd (cur t key w b)) k' t"
proof -
  have t: "tracked (tick t b) k' t" using tr by (simp add: tracked_tick [OF ok])
  moreover have "tracked (sweepExpired t (tick t b)) k' t"
    using t by (simp add: tracked_sweepExpired [OF tick_ok [OF ok]])
  moreover obtain bkt where "k' = key \<longrightarrow> cur t key w b = (Some bkt, tick t b)"
    using cur_tracked [OF ok] tr by blast
  ultimately show ?thesis
    by (cases "k' = key") (auto simp: cur_def Let_def fresh_window_def tracked_def split: option.splits)
qed

lemma Debit_counts:
  assumes ok: "mem_ok b" and tr: "tracked b key t" and n: "0 \<le> n"
  shows "live_spend (Debit t key n w b) key t = sat_add64 (live_spend b key t) n"
proof -
  obtain bkt where c: "cur t key w b = (Some bkt, tick t b)" "t < windowEnd_of bkt"
    using cur_tracked [OF ok tr] by blast
  show ?thesis using Debit_Some [OF ok c(1) n] c(2) by (simp add: live_spend_def)
qed

lemma Debit_tracked:
  assumes ok: "mem_ok b" and tr: "tracked b k' t"
  shows "tracked (Debit t key n w b) k' t"
proof (cases "n < 0")
  case True
  with tr show ?thesis by (simp add: Debit_def)
next
  case False
  show ?thesis
  proof (cases "k' = key")
    case True
    obtain bkt where c: "cur t key w b = (Some bkt, tick t b)" "t < windowEnd_of bkt"
      using cur_tracked [OF ok] tr True by blast
    show ?thesis using Debit_Some [OF ok c(1)] c(2) False True by (simp add: tracked_def)
  next
    case False
    with cur_keeps_tracked [OF ok tr, of key w] \<open>\<not> n < 0\<close> show ?thesis
      by (auto simp: Debit_def tracked_def split: prod.splits option.splits)
  qed
qed

interpretation bc: spend_counter mem_ok live_spend tracked Debit
  by unfold_locales (auto simp: live_spend_bounds Debit_ok Debit_counts Debit_frame Debit_tracked)

section \<open>Runs of the store\<close>

datatype budget_op =
    OpCheck gotime string i64 i64 Window
  | OpDebit gotime string i64 Window
  | OpSpent gotime string Window
  | OpResetsAt gotime gotime string Window

fun budget_step :: "budget_op \<Rightarrow> Memory \<Rightarrow> Memory" where
  "budget_step (OpCheck t k e l w) b = snd (Check t k e l w b)"
| "budget_step (OpDebit t k n w) b = Debit t k n w b"
| "budget_step (OpSpent t k w) b = snd (Spent t k w b)"
| "budget_step (OpResetsAt t t2 k w) b = snd (ResetsAt t t2 k w b)"

lemma Check_snd: "snd (Check t k e l w b) = (if e < 0 \<or> l \<le> 0 then b else snd (cur t k w b))"
  by (auto simp: Check_def split: prod.splits option.splits)

lemma Spent_snd: "snd (Spent t k w b) = snd (cur t k w b)"
  by (auto simp: Spent_def split: prod.splits option.splits)

lemma ResetsAt_snd: "snd (ResetsAt t t2 k w b) = snd (cur t k w b)"
  by (auto simp: ResetsAt_def split: prod.splits option.splits)

lemma Spent_fst: "mem_ok b \<Longrightarrow> fst (Spent t k w b) = live_spend b k t"
proof -
  assume ok: "mem_ok b"
  show ?thesis
  proof (cases "fst (cur t k w b)")
    case None
    then obtain b' where c: "cur t k w b = (None, b')" by (cases "cur t k w b") simp
    have "\<not> known b k" using ok c by (rule cur_None(1))
    then show ?thesis by (simp add: Spent_def c live_spend_def known_def)
  next
    case (Some bkt)
    then obtain b' where c: "cur t k w b = (Some bkt, b')" by (cases "cur t k w b") simp
    show ?thesis using cur_Some(2) [OF ok c] by (simp add: Spent_def c)
  qed
qed

lemma cur_live_spend:
  assumes "mem_ok b"
  shows "live_spend (snd (cur t k w b)) k' t = live_spend b k' t"
proof (cases "fst (cur t k w b)")
  case None
  then obtain b' where c: "cur t k w b = (None, b')" by (cases "cur t k w b") simp
  show ?thesis using cur_None(2) [OF assms c, of t k'] by (simp add: c)
next
  case (Some bkt)
  then obtain b' where c: "cur t k w b = (Some bkt, b')" by (cases "cur t k w b") simp
  show ?thesis
  proof (cases "k' = k")
    case True
    have "gget (bm b') k = Some bkt" using assms c by (rule cur_Some)
    moreover have "t < windowEnd_of bkt \<or> spent bkt = 0"
      using assms c by (cases rule: cur_Some_cases) auto
    ultimately show ?thesis using cur_Some(2) [OF assms c] True by (auto simp: c live_spend_def)
  next
    case False
    then show ?thesis using cur_Some_other [OF assms c, of k' t] by (simp add: c)
  qed
qed

lemma budget_step_ok: "mem_ok b \<Longrightarrow> mem_ok (budget_step op b)"
  by (cases op) (auto simp: Check_snd Spent_snd ResetsAt_snd cur_ok Debit_ok)

lemma cur_maxEntries [simp]: "maxEntries (snd (cur t k w b)) = maxEntries b"
  by (auto simp: cur_def Let_def fresh_window_def split: option.splits)

lemma budget_step_maxEntries: "maxEntries (budget_step op b) = maxEntries b"
proof (cases op)
  case (OpDebit t k n w)
  show ?thesis using cur_maxEntries [of t k w b] unfolding OpDebit
    by (auto simp: Debit_def split: prod.splits option.splits simp del: cur_maxEntries)
qed (auto simp: Check_snd Spent_snd ResetsAt_snd)

lemma NewMemory_ok: "mem_ok NewMemory"
  by (simp add: mem_ok_def NewMemory_def sweepEvery_def)

lemma budget_run_ok: "mem_ok b \<Longrightarrow> mem_ok (fold budget_step ops b)"
  by (induction ops arbitrary: b) (auto simp: budget_step_ok)

lemma budget_run_maxEntries: "maxEntries (fold budget_step ops b) = maxEntries b"
  by (induction ops arbitrary: b) (auto simp: budget_step_maxEntries)

section \<open>Key structure\<close>

lemma Tag_no_colon: "CHR '':'' \<notin> set (Tag w)"
  using colon_notin_duration [of "Dur w"] by (simp add: Tag_def split: WindowKind.splits)

lemma colon_split:
  "CHR '':'' \<notin> set a \<Longrightarrow> CHR '':'' \<notin> set b \<Longrightarrow> a @ '':'' @ x = b @ '':'' @ y \<Longrightarrow> a = b \<and> x = y"
proof (induction a arbitrary: b)
  case Nil
  then show ?case by (cases b) auto
next
  case (Cons c a)
  then show ?case by (cases b) auto
qed

definition scopes :: "string list" where
  "scopes = [ScopeTeam, ScopeKey, ScopeUser]"

lemma scope_no_colon: "s \<in> set scopes \<Longrightarrow> CHR '':'' \<notin> set s"
  by (auto simp: scopes_def ScopeTeam_def ScopeKey_def ScopeUser_def)

section \<open>Properties\<close>

text \<open>
  C13: \<open>Check\<close> with a real limit refuses for capacity only a key the store does not hold, and
  only when the live windows of other keys already fill it; in every other case it allows
  exactly when the spend of the key's current window plus the estimate stays within the
  limit. It never changes what any counter reports.
\<close>

theorem check_enforces_limit:
  assumes ok: "mem_ok b" and e: "0 \<le> e" "e \<le> max_i64" and l: "0 < l" "l \<le> max_i64"
  shows "fst (Check t key e l w b) =
     (if fst (cur t key w b) = None then BlockCapacity
      else if live_spend b key t + e \<le> l then Allow else Block) \<and>
    (fst (Check t key e l w b) = BlockCapacity \<longrightarrow>
      \<not> known b key \<and> maxEntries b \<le> length (filter (\<lambda>(k, v). t < windowEnd_of v) (bm b))) \<and>
    live_spend (snd (Check t key e l w b)) k t = live_spend b k t"
proof (intro conjI)
  show "live_spend (snd (Check t key e l w b)) k t = live_spend b k t"
    using cur_live_spend [OF ok] by (simp add: Check_snd)
  have none: "\<not> known b key \<and> maxEntries b \<le> length (filter (\<lambda>(k, v). t < windowEnd_of v) (bm b))"
    if n: "fst (cur t key w b) = None"
  proof -
    from n obtain b' where c: "cur t key w b = (None, b')" by (cases "cur t key w b") simp
    show ?thesis using cur_None(1,4) [OF ok c] by simp
  qed
  have some: "fst (Check t key e l w b) = (if live_spend b key t + e \<le> l then Allow else Block)"
    if s: "fst (cur t key w b) = Some bkt" for bkt
  proof -
    from s obtain b' where c: "cur t key w b = (Some bkt, b')" by (cases "cur t key w b") simp
    have v: "win_ok bkt" "spent bkt = live_spend b key t" using cur_Some [OF ok c] by simp_all
    have "wrap64 (l - spent bkt) = l - spent bkt"
      using v l by (intro wrap64_diff_nonneg) (auto simp: win_ok_def)
    then show ?thesis using e l v(2) by (auto simp: Check_def c)
  qed
  have cap: "fst (Check t key e l w b) = BlockCapacity" if n: "fst (cur t key w b) = None"
    using n e l by (auto simp: Check_def split: prod.splits)
  show eq: "fst (Check t key e l w b) =
     (if fst (cur t key w b) = None then BlockCapacity
      else if live_spend b key t + e \<le> l then Allow else Block)"
    using cap some by (cases "fst (cur t key w b)") auto
  show "fst (Check t key e l w b) = BlockCapacity \<longrightarrow>
      \<not> known b key \<and> maxEntries b \<le> length (filter (\<lambda>(k, v). t < windowEnd_of v) (bm b))"
    using none unfolding eq by (auto split: if_splits)
qed

definition month_utc :: Window where
  "month_utc = CalendarMonthIn None"

definition team_key :: string where
  "team_key = budget_Key ScopeTeam ''acme'' month_utc"

definition one_team :: Memory where
  "one_team = NewMemory\<lparr>bm := [(team_key, \<lparr>spent = 700, windowEnd_of = 5000\<rparr>)]\<rparr>"

lemma one_team_ok: "mem_ok one_team"
  by (simp add: mem_ok_def one_team_def NewMemory_def sweepEvery_def defaultMaxEntries_def gwf_def
      gget_Cons win_ok_def max_i64_def)

lemma one_team_live: "live_spend one_team team_key 10 = 700" "tracked one_team team_key 10"
  by (simp_all add: live_spend_def tracked_def one_team_def gget_Cons)

theorem check_enforces_limit_witness:
  "fst (Check 10 team_key 0 1000 month_utc one_team) = Allow \<and>
   fst (Check 10 team_key 301 1000 month_utc one_team) = Block"
proof -
  have "fst (cur 10 team_key month_utc one_team) \<noteq> None"
    using cur_tracked [OF one_team_ok one_team_live(2), of month_utc] by auto
  then show ?thesis
    using check_enforces_limit [OF one_team_ok, of 0 1000 10 team_key month_utc]
      check_enforces_limit [OF one_team_ok, of 301 1000 10 team_key month_utc] one_team_live(1)
    by (simp add: max_i64_def)
qed

text \<open>
  Debits are counted exactly. A sequence of debits of a counter whose window is live
  raises the reported spend by their sum, saturating at the 64-bit maximum instead of
  wrapping; the counters of all other keys report what they reported before.
\<close>

theorem debits_counted_exactly:
  assumes ok: "mem_ok b" and tr: "tracked b key t" and nn: "\<forall>n\<in>set ns. 0 \<le> n"
  shows "fst (Spent t key w (fold (\<lambda>n. Debit t key n w) ns b))
      = sat_add64 (live_spend b key t) (sum_list ns) \<and>
    (\<forall>k. k \<noteq> key \<longrightarrow>
      fst (Spent t k w (fold (\<lambda>n. Debit t key n w) ns b)) = live_spend b k t)"
proof -
  have ok': "mem_ok (fold (\<lambda>n. Debit t key n w) ns b)"
    using ok by (induction ns arbitrary: b) (auto simp: Debit_ok)
  have other: "live_spend (fold (\<lambda>n. Debit t key n w) ns b) k t = live_spend b k t"
    if "k \<noteq> key" for k
    using ok by (induction ns arbitrary: b) (auto simp: Debit_ok Debit_frame that)
  show ?thesis
    using Spent_fst [OF ok'] bc.debits_add_up [OF ok tr nn] other by simp
qed

theorem debits_counted_exactly_witness:
  "fst (Spent 10 team_key month_utc (fold (\<lambda>n. Debit 10 team_key n month_utc) [20, 5] one_team)) = 725"
  using debits_counted_exactly [OF one_team_ok one_team_live(2), of "[20, 5]" month_utc]
    one_team_live(1) by (simp add: sat_add64_def max_i64_def)

text \<open>
  C24: in every run of store operations from a new store, at any clock readings, the number
  of entries never exceeds the capacity and every counter stays a non-negative 64-bit value.
\<close>

theorem store_stays_bounded:
  "length (bm (fold budget_step ops NewMemory)) \<le> defaultMaxEntries \<and>
   (\<forall>k v. gget (bm (fold budget_step ops NewMemory)) k = Some v \<longrightarrow>
      0 \<le> spent v \<and> spent v \<le> max_i64)"
  using budget_run_ok [OF NewMemory_ok, of ops] budget_run_maxEntries [of ops NewMemory]
  by (auto simp: mem_ok_def win_ok_def NewMemory_def)

theorem store_stays_bounded_witness:
  "length (bm (fold budget_step [OpDebit 10 team_key 5 month_utc] NewMemory)) \<le> 100000"
  using store_stays_bounded [of "[OpDebit 10 team_key 5 month_utc]"]
  by (simp add: defaultMaxEntries_def)

text \<open>
  Store keys never collide. Two counters share a key only if they have the same window
  tag, the same scope and the same identifier, whatever characters the identifier contains;
  in particular a daily and a monthly counter, or a team and a user of the same name, are
  always distinct.
\<close>

theorem budget_Key_injective:
  assumes "budget_Key s1 i1 w1 = budget_Key s2 i2 w2" "s1 \<in> set scopes" "s2 \<in> set scopes"
  shows "Tag w1 = Tag w2 \<and> s1 = s2 \<and> i1 = i2"
proof -
  from assms(1) have "Tag w1 @ '':'' @ (s1 @ '':'' @ i1) = Tag w2 @ '':'' @ (s2 @ '':'' @ i2)"
    by (simp add: budget_Key_def)
  then have "Tag w1 = Tag w2" and r: "s1 @ '':'' @ i1 = s2 @ '':'' @ i2"
    using colon_split [OF Tag_no_colon Tag_no_colon] by blast+
  with colon_split [OF scope_no_colon [OF assms(2)] scope_no_colon [OF assms(3)] r] show ?thesis
    by simp
qed

theorem budget_Key_injective_witness:
  "budget_Key ScopeTeam ''a'' month_utc \<noteq> budget_Key ScopeUser ''a'' month_utc \<and>
   ScopeTeam \<in> set scopes \<and> ScopeUser \<in> set scopes"
  using budget_Key_injective [of ScopeTeam "''a''" month_utc ScopeUser "''a''" month_utc]
  by (auto simp: scopes_def ScopeTeam_def ScopeUser_def)

text \<open>
  Calendar windows end where they should. In a zone with a fixed offset the end of a
  daily window is the next local midnight and the end of a monthly window the first local
  midnight of the next month: both lie strictly after the instant, the day's end at most a
  day after it, and the instant lies in the day or month that the end closes.
\<close>

theorem calendar_window_end:
  assumes civ: "civil_in (FixedZone off) t = (y, m, d)"
  shows "windowEnd t (CalendarDayIn (Some (FixedZone off)))
      = ((t + off) div day_ns + 1) * day_ns - off \<and>
    t < windowEnd t (CalendarDayIn (Some (FixedZone off))) \<and>
    windowEnd t (CalendarDayIn (Some (FixedZone off))) \<le> t + day_ns \<and>
    windowEnd t (CalendarMonthIn (Some (FixedZone off)))
      = days_from_civil y (m + 1) 1 * day_ns - off \<and>
    t < windowEnd t (CalendarMonthIn (Some (FixedZone off))) \<and>
    days_from_civil y m 1 * day_ns - off \<le> t"
proof (intro conjI)
  define z where "z = (t + off) div day_ns"
  have c: "civil_from_days z = (y, m, d)" using civ by (simp add: civil_in_def z_def FixedZone_def)
  note cb = civil_boundaries [OF c]
  have z: "z * day_ns \<le> t + off" "t + off < z * day_ns + day_ns"
    using div_bounds [of day_ns "t + off"] by (simp_all add: z_def mult.commute)
  have day: "windowEnd t (CalendarDayIn (Some (FixedZone off))) = (z + 1) * day_ns - off"
    using civ cb by (simp add: windowEnd_def CalendarDayIn_def window_loc_def time_Date_def
        FixedZone_def)
  have month: "windowEnd t (CalendarMonthIn (Some (FixedZone off)))
      = days_from_civil y (m + 1) 1 * day_ns - off"
    using civ by (simp add: windowEnd_def CalendarMonthIn_def window_loc_def time_Date_def
        FixedZone_def)
  show "windowEnd t (CalendarDayIn (Some (FixedZone off)))
      = ((t + off) div day_ns + 1) * day_ns - off"
    using day by (simp add: z_def)
  show "t < windowEnd t (CalendarDayIn (Some (FixedZone off)))"
    "windowEnd t (CalendarDayIn (Some (FixedZone off))) \<le> t + day_ns"
    using day z by (simp_all add: algebra_simps)
  show "windowEnd t (CalendarMonthIn (Some (FixedZone off)))
      = days_from_civil y (m + 1) 1 * day_ns - off" by (rule month)
  have "(z + 1) * day_ns \<le> days_from_civil y (m + 1) 1 * day_ns"
    using cb(3) by (intro mult_right_mono) simp_all
  then show "t < windowEnd t (CalendarMonthIn (Some (FixedZone off)))"
    using month z by (simp add: algebra_simps)
  have "days_from_civil y m 1 * day_ns \<le> z * day_ns"
    using cb(4) by (intro mult_right_mono) simp_all
  then show "days_from_civil y m 1 * day_ns - off \<le> t" using z(1) by linarith
qed

theorem calendar_window_end_witness:
  "civil_in (FixedZone 0) (739999 * day_ns + 5) = (2027, 1, 19) \<and>
   739999 * day_ns + 5 < windowEnd (739999 * day_ns + 5) (CalendarMonthIn (Some (FixedZone 0)))"
proof -
  have c: "civil_in (FixedZone 0) (739999 * day_ns + 5) = (2027, 1, 19)"
    by code_simp
  show ?thesis using c calendar_window_end [OF c] by simp
qed

end
