(* ===== verification/Audit_Ref.thy ===== *)
theory Audit_Ref
  imports Prelude
begin

text \<open>
  The evidence of a governance denial (\<open>src/internal/audit/governance.go\<close>,
  \<open>deny_reason.go\<close>): which limit refused a request, and the closed set of deny codes.
\<close>

record PolicyRuleRef =
  ref_Name :: string
  ref_Generation :: i64
  ref_Rule :: string

record GovernanceRef =
  ref_Scope :: string
  ref_Limit :: string
  ref_Source :: string
  ref_Policy :: "PolicyRuleRef option"

definition GovScopeTeam :: string where "GovScopeTeam = ''team''"
definition GovScopeKey :: string where "GovScopeKey = ''key''"
definition GovScopeUser :: string where "GovScopeUser = ''user''"
definition GovScopeGateway :: string where "GovScopeGateway = ''gateway''"

definition GovLimitRPM :: string where "GovLimitRPM = ''rpm''"
definition GovLimitTPM :: string where "GovLimitTPM = ''tpm''"
definition GovLimitTokensPerDay :: string where "GovLimitTokensPerDay = ''tokens_per_day''"
definition GovLimitBudgetMonth :: string where "GovLimitBudgetMonth = ''budget_month''"
definition GovLimitBudgetDay :: string where "GovLimitBudgetDay = ''budget_day''"
definition GovLimitBudget :: string where "GovLimitBudget = ''budget''"
definition GovLimitPricing :: string where "GovLimitPricing = ''pricing''"

definition GovSourceConfig :: string where "GovSourceConfig = ''config''"
definition GovSourcePolicy :: string where "GovSourcePolicy = ''policy''"
definition GovSourceLease :: string where "GovSourceLease = ''lease''"
definition GovSourceKey :: string where "GovSourceKey = ''key''"
definition GovSourceBudgetStore :: string where "GovSourceBudgetStore = ''budget_store''"

datatype DenyReason =
    DenyModelNotAllowed | DenyTeamRateLimited | DenyTeamTokenRateLimited | DenyTeamQuotaExceeded
  | DenyKeyRateLimited | DenyKeyTokenRateLimited | DenyTeamBudgetExceeded | DenyKeyBudgetExceeded
  | DenyUserBudgetExceeded | DenyRegionBlocked | DenyPricingMissing | DenyInvalidTokenEstimate
  | DenyBudgetAuthorityUnavailable

end
