(* ===== verification/Authority_Types.thy ===== *)
theory Authority_Types
  imports Audit_Ref
begin

text \<open>
  The escrow protocol's messages (\<open>src/internal/policy/authority.go\<close>) and the node journal's
  records (\<open>src/internal/authority/local/store.go\<close>, \<open>gc.go\<close>). A wire time carries its
  zone offset because the protocol insists on UTC.
\<close>

section \<open>Protocol messages\<close>

record ztime =
  inst :: gotime
  zone :: duration

record AuthorityBudget =
  ab_Key :: string
  ab_Policy :: string
  ab_Rule :: string
  ab_Team :: string
  ab_User :: string
  ab_Revision :: string
  ab_WindowID :: string
  WindowStart :: ztime
  WindowEnd :: ztime
  LimitMicroUSD :: i64
  GrantMicroUSD :: i64
  LeaseSeconds :: i64
  HardCap :: bool

record AuthorityGrantRequest =
  gr_RequestID :: string
  gr_Key :: string
  gr_Revision :: string
  gr_WindowID :: string
  WantMicroUSD :: i64

record AuthorityGrant =
  ag_ID :: string
  ag_RequestID :: string
  ag_Key :: string
  ag_Revision :: string
  ag_WindowID :: string
  Amount :: i64
  ExpiresAt :: ztime

record AuthorityReport =
  ar_Instance :: string
  ar_GrantID :: string
  ar_RequestID :: string
  ar_Sequence :: i64
  ar_Consumed :: i64
  ar_Observed :: i64
  ar_Closed :: bool
  ar_Overrun :: bool

record AuthorityMeter =
  am_Instance :: string
  am_Key :: string
  am_WindowID :: string
  am_Sequence :: i64
  am_Consumed :: i64
  am_Observed :: i64

record AuthorityRequest =
  areq_Protocol :: string
  areq_Instance :: string
  areq_Requests :: "AuthorityGrantRequest list"
  areq_Reports :: "AuthorityReport list"
  areq_Meters :: "AuthorityMeter list"

record AuthorityAck =
  ack_Instance :: string
  ack_ID :: string
  ack_Sequence :: i64

record AuthorityDenial =
  den_RequestID :: string
  den_Key :: string
  den_Reason :: string

text \<open>The node journal reads these fields of the response; policies are published elsewhere.\<close>

record AuthorityResponse =
  rs_Protocol :: string
  rs_ServerTime :: ztime
  rs_Budgets :: "AuthorityBudget list"
  rs_Grants :: "AuthorityGrant list"
  rs_ReportAcks :: "AuthorityAck list"
  rs_MeterAcks :: "AuthorityAck list"
  rs_Denied :: "AuthorityDenial list"

definition AuthorityProtocol :: string where
  "AuthorityProtocol = ''escrow-v1''"

section \<open>The journal\<close>

record grant =
  Wire :: AuthorityGrant
  g_Instance :: string
  Consumed :: i64
  Observed :: i64
  Reserved :: i64
  Pending :: i64
  Closed :: bool
  Overrun :: bool
  Sequence :: i64
  Ack :: i64
  Sent :: i64

record grantRequest =
  rq_Wire :: AuthorityGrantRequest
  rq_Budget :: AuthorityBudget
  rq_Instance :: string
  rq_Sent :: bool
  GrantID :: string
  Denied :: string
  Obsolete :: bool
  PendingReply :: bool

record permit =
  pm_Instance :: string
  Bound :: i64
  Grants :: "string list"
  Meters :: "string list"
  Done :: bool
  Complete :: bool
  Actual :: "i64 option"
  Retired :: bool
  InvalidUsage :: bool

record meter =
  mt_Wire :: AuthorityMeter
  mt_Ack :: i64
  mt_Sent :: i64
  mt_WindowEnd :: ztime

record replayReceipt =
  rc_Instance :: string
  rc_Sequence :: i64
  rc_GrantHash :: string

record journal =
  jVersion :: nat
  Ready :: bool
  Poisoned :: bool
  ServerTime :: ztime
  Budgets :: "(string, AuthorityBudget) gomap"
  jGrants :: "(string, grant) gomap"
  Requests :: "(string, grantRequest) gomap"
  Permits :: "(string, permit) gomap"
  jMeters :: "(string, meter) gomap"
  RequestCursor :: string
  ReportCursor :: string
  MeterCursor :: string
  ObsoleteRequests :: "string list"
  Completed :: "string list"
  Receipts :: "(string, replayReceipt) gomap"
  ReceiptOrder :: "string list"

text \<open>
  The handle of one boot: what it keeps in memory besides the database. \<open>wake\<close> says
  whether the one-slot notification channel is full.
\<close>

datatype auth_error =
    AuthorityUnavailable string
  | AuthorityInvalid string
  | AuthorityExhausted GovernanceRef

record Store =
  s_instance :: string
  wake :: bool
  closed :: bool
  broken :: "auth_error option"
  deadlines :: "(string, gotime) gomap"
  windows :: "(string, gotime) gomap"

text \<open>The one row of the SQLite table \<open>local_escrow\<close>, shared by every handle on the file.\<close>

record disk =
  owner :: string
  state :: journal

text \<open>
  Library encodings the journal only compares: the JSON text of a two- or three-element
  string array and the SHA-256 fingerprint of a grant.
\<close>

record codec =
  marshal2 :: "string \<Rightarrow> string \<Rightarrow> string"
  marshal3 :: "string \<Rightarrow> string \<Rightarrow> string \<Rightarrow> string"
  grantFingerprint :: "AuthorityGrant \<Rightarrow> string"

definition zero_ztime :: ztime where
  "zero_ztime = \<lparr>inst = 0, zone = 0\<rparr>"

definition IsZero :: "ztime \<Rightarrow> bool" where
  "IsZero t \<longleftrightarrow> inst t = 0"

definition emptyJournal :: journal where
  "emptyJournal = \<lparr>jVersion = 1, Ready = False, Poisoned = False, ServerTime = zero_ztime,
     Budgets = [], jGrants = [], Requests = [], Permits = [], jMeters = [],
     RequestCursor = '''', ReportCursor = '''', MeterCursor = '''', ObsoleteRequests = [],
     Completed = [], Receipts = [], ReceiptOrder = []\<rparr>"

definition signal :: "Store \<Rightarrow> Store" where
  "signal s = s\<lparr>wake := True\<rparr>"

end
