(* ===== verification/Authority_Journal.thy ===== *)
theory Authority_Journal
  imports Authority_Types
begin

text \<open>
  The journal operations below admission and synchronisation
  (\<open>src/internal/authority/local/store.go\<close> and \<open>gc.go\<close>): checked sums, validation,
  closing grants, retirement at restart, collection of finalised history, and the
  transaction that reads, changes, collects and writes the row.
\<close>

section \<open>Checked arithmetic\<close>

definition invalid :: "string \<Rightarrow> auth_error" where
  "invalid reason = AuthorityInvalid reason"

definition add64 :: "i64 \<Rightarrow> i64 \<Rightarrow> auth_error + i64" where
  "add64 a b = (if a < 0 \<or> b < 0 \<or> a > wrap64 (max_i64 - b)
     then Inl (invalid ''accounting overflow'') else Inr (a + b))"

definition bump :: "i64 \<Rightarrow> auth_error + i64" where
  "bump sequence = add64 sequence 1"

definition sameDefinition :: "AuthorityBudget \<Rightarrow> AuthorityBudget \<Rightarrow> bool" where
  "sameDefinition a b \<longleftrightarrow> ab_Key a = ab_Key b \<and> ab_Revision a = ab_Revision b \<and>
     ab_WindowID a = ab_WindowID b"

text \<open>A nil dereference panics; no caller of this package recovers with a changed journal.\<close>

definition nil_deref :: auth_error where
  "nil_deref = AuthorityInvalid ''panic: nil pointer''"

section \<open>Validation of a decoded journal\<close>

definition grant_sane :: "string \<Rightarrow> grant \<Rightarrow> bool" where
  "grant_sane ident g \<longleftrightarrow> \<not> (ag_ID (Wire g) \<noteq> ident \<or> Amount (Wire g) \<le> 0 \<or> Consumed g < 0 \<or>
     Observed g < 0 \<or> Reserved g < 0 \<or> Pending g < 0 \<or> Sequence g \<le> 0 \<or> Ack g < 0 \<or>
     Ack g > Sent g \<or> Sent g > Sequence g)"

definition meter_sane :: "meter \<Rightarrow> bool" where
  "meter_sane m \<longleftrightarrow> \<not> (am_Consumed (mt_Wire m) < 0 \<or> am_Observed (mt_Wire m) < 0 \<or>
     am_Sequence (mt_Wire m) \<le> 0 \<or> mt_Ack m < 0 \<or> mt_Ack m > mt_Sent m \<or>
     mt_Sent m > am_Sequence (mt_Wire m))"

definition permit_sane :: "journal \<Rightarrow> permit \<Rightarrow> bool" where
  "permit_sane j p \<longleftrightarrow> \<not> Bound p < 0 \<and>
     list_all (\<lambda>i. gget (jGrants j) i \<noteq> None) (Grants p) \<and>
     list_all (\<lambda>i. gget (jMeters j) i \<noteq> None) (Meters p)"

definition decode :: "journal \<Rightarrow> auth_error + journal" where
  "decode j =
     (if jVersion j \<noteq> 1 then Inl (invalid ''unsupported or incomplete journal'')
      else if \<not> list_all (\<lambda>(i, g). grant_sane i g) (jGrants j) then Inl (invalid ''corrupt grant journal'')
      else if \<not> list_all (\<lambda>(i, m). meter_sane m) (jMeters j) then Inl (invalid ''corrupt meter'')
      else if \<not> list_all (\<lambda>(i, p). permit_sane j p) (Permits j) then Inl (invalid ''corrupt permit'')
      else Inr j)"

section \<open>Closing and retiring\<close>

definition closeGrant :: "grant \<Rightarrow> auth_error + grant" where
  "closeGrant g =
     (if Closed g then Inr g
      else if Pending g \<noteq> 0 \<or> Reserved g \<noteq> 0 then Inl (invalid ''cannot close pending authority'')
      else rbind (bump (Sequence g)) (\<lambda>n. Inr (g\<lparr>Closed := True, Sequence := n\<rparr>)))"

definition usable :: "Store \<Rightarrow> grant \<Rightarrow> AuthorityBudget \<Rightarrow> gotime \<Rightarrow> bool" where
  "usable s g b now \<longleftrightarrow> g_Instance g = s_instance s \<and> \<not> Closed g \<and> \<not> Overrun g \<and>
     ag_Key (Wire g) = ab_Key b \<and> ag_Revision (Wire g) = ab_Revision b \<and>
     ag_WindowID (Wire g) = ab_WindowID b \<and> Consumed g \<le> Amount (Wire g) \<and>
     Reserved g \<le> wrap64 (Amount (Wire g) - Consumed g) \<and>
     now < time_at (deadlines s) (ag_ID (Wire g))"

definition inactive :: "Store \<Rightarrow> journal \<Rightarrow> gotime \<Rightarrow> grant \<Rightarrow> bool" where
  "inactive s j now g =
     (case gget (Budgets j) (ag_Key (Wire g)) of
        None \<Rightarrow> True
      | Some b \<Rightarrow> \<not> HardCap b \<or> \<not> usable s g b now)"

definition closeInactive :: "Store \<Rightarrow> journal \<Rightarrow> gotime \<Rightarrow> auth_error + journal" where
  "closeInactive s j now =
     rbind (gmapM (\<lambda>_ g. if Closed g \<or> Pending g \<noteq> 0 then Inr g
                         else if inactive s j now g then closeGrant g else Inr g) (jGrants j))
       (\<lambda>gs. Inr (j\<lparr>jGrants := gs\<rparr>))"

definition retire_meter :: "i64 \<Rightarrow> string \<Rightarrow> (string, meter) gomap \<Rightarrow> auth_error + (string, meter) gomap" where
  "retire_meter bound ident ms =
     (case gget ms ident of
        None \<Rightarrow> Inl nil_deref
      | Some m \<Rightarrow>
        rbind (add64 (am_Consumed (mt_Wire m)) bound) (\<lambda>c.
        rbind (bump (am_Sequence (mt_Wire m))) (\<lambda>q.
          Inr (gput ident (m\<lparr>mt_Wire := (mt_Wire m)\<lparr>am_Consumed := c, am_Sequence := q\<rparr>\<rparr>) ms))))"

definition retire_permit :: "string \<times> permit \<Rightarrow> journal \<Rightarrow> auth_error + journal" where
  "retire_permit = (\<lambda>(i, p) j.
     if Done p then Inr j
     else rbind (rfold (retire_meter (Bound p)) (Meters p) (jMeters j)) (\<lambda>ms.
       Inr (j\<lparr>jMeters := ms, Permits := gput i (p\<lparr>Done := True, Retired := True\<rparr>) (Permits j)\<rparr>)))"

definition retire_grant :: "grant \<Rightarrow> auth_error + grant" where
  "retire_grant g =
     rbind (bump (Sequence g)) (\<lambda>n.
       Inr (g\<lparr>Consumed := (if Consumed g < Amount (Wire g) then Amount (Wire g) else Consumed g),
              Closed := True, Reserved := 0, Pending := 0, Sequence := n\<rparr>))"

definition retire :: "journal \<Rightarrow> auth_error + journal" where
  "retire j =
     rbind (rfold retire_permit (Permits j) j) (\<lambda>j1.
     rbind (gmapM (\<lambda>_ g. retire_grant g) (jGrants j1)) (\<lambda>gs.
       Inr (j1\<lparr>jGrants := gs, Requests := gmapv (\<lambda>_ r. r\<lparr>Obsolete := True\<rparr>) (Requests j1)\<rparr>)))"

section \<open>Collection\<close>

definition completedReceiptLimit :: nat where "completedReceiptLimit = 256"
definition replayReceiptLimit :: nat where "replayReceiptLimit = 1024"
definition obsoleteRequestLimit :: nat where "obsoleteRequestLimit = 1024"

definition reportReceiptID :: "string \<Rightarrow> string" where
  "reportReceiptID ident = ''grant:'' @ ident"

definition meterReceiptID :: "codec \<Rightarrow> string \<Rightarrow> string \<Rightarrow> string" where
  "meterReceiptID cd inst' window = ''meter:'' @ marshal2 cd inst' window"

fun drop_receipts :: "string list \<Rightarrow> (string, replayReceipt) gomap \<Rightarrow>
    string list \<times> (string, replayReceipt) gomap" where
  "drop_receipts [] rs = ([], rs)"
| "drop_receipts (o1 # os) rs =
     (if length (o1 # os) > replayReceiptLimit then drop_receipts os (gdel o1 rs)
      else (o1 # os, rs))"

definition remember :: "string \<Rightarrow> replayReceipt \<Rightarrow> journal \<Rightarrow> journal" where
  "remember ident receipt j =
     (let order = (if gget (Receipts j) ident = None then ReceiptOrder j @ [ident] else ReceiptOrder j);
          (order', rs) = drop_receipts order (gput ident receipt (Receipts j))
      in j\<lparr>Receipts := rs, ReceiptOrder := order'\<rparr>)"

text \<open>The completed permits in the order they were recorded, then the new ones by key.\<close>

fun known_order :: "(string, permit) gomap \<Rightarrow> string list \<Rightarrow> string list \<Rightarrow> string list" where
  "known_order ps [] seen = []"
| "known_order ps (i # is) seen =
     (case gget ps i of
        Some p \<Rightarrow> if Done p \<and> i \<notin> set seen then i # known_order ps is (i # seen)
                  else known_order ps is seen
      | None \<Rightarrow> known_order ps is seen)"

definition completed_order :: "journal \<Rightarrow> string list" where
  "completed_order j =
     (let seen = known_order (Permits j) (Completed j) []
      in seen @ filter (\<lambda>i. (case gget (Permits j) i of Some p \<Rightarrow> Done p | None \<Rightarrow> False) \<and>
                            i \<notin> set seen) (sortedKeys (Permits j)))"

definition collect_permits :: "journal \<Rightarrow> journal" where
  "collect_permits j =
     (let order = completed_order j;
          ps = gmapv (\<lambda>_ p. if Done p then p\<lparr>Grants := [], Meters := []\<rparr> else p) (Permits j);
          excess = length order - completedReceiptLimit
      in j\<lparr>Permits := fold gdel (take excess order) ps, Completed := drop excess order\<rparr>)"

text \<open>The grants and meters that an unfinished permit still refers to.\<close>

definition pendingGrants :: "journal \<Rightarrow> string list" where
  "pendingGrants j = concat (map (\<lambda>(_, p). if Done p then [] else Grants p) (Permits j))"

definition pendingMeters :: "journal \<Rightarrow> string list" where
  "pendingMeters j = concat (map (\<lambda>(_, p). if Done p then [] else Meters p) (Permits j))"

definition collect_grant :: "codec \<Rightarrow> string list \<Rightarrow> string \<Rightarrow> journal \<Rightarrow> journal" where
  "collect_grant cd pend ident j =
     (case gget (jGrants j) ident of
        None \<Rightarrow> j
      | Some g \<Rightarrow>
        if \<not> Closed g \<or> Pending g \<noteq> 0 \<or> Reserved g \<noteq> 0 \<or> Ack g \<noteq> Sequence g \<or> ident \<in> set pend
        then j
        else let j1 = remember (reportReceiptID ident)
                   \<lparr>rc_Instance = g_Instance g, rc_Sequence = Sequence g,
                    rc_GrantHash = grantFingerprint cd (Wire g)\<rparr> j
             in j1\<lparr>Requests := gdel (ag_RequestID (Wire g)) (Requests j1),
                   jGrants := gdel ident (jGrants j1)\<rparr>)"

definition meter_old :: "string \<Rightarrow> journal \<Rightarrow> meter \<Rightarrow> bool" where
  "meter_old inst' j m \<longleftrightarrow> am_Instance (mt_Wire m) \<noteq> inst' \<or>
     (\<not> IsZero (mt_WindowEnd m) \<and> \<not> IsZero (ServerTime j) \<and>
      \<not> inst (ServerTime j) < inst (mt_WindowEnd m))"

definition collect_meter :: "codec \<Rightarrow> string \<Rightarrow> string list \<Rightarrow> string \<Rightarrow> journal \<Rightarrow> journal" where
  "collect_meter cd inst' pend ident j =
     (case gget (jMeters j) ident of
        None \<Rightarrow> j
      | Some m \<Rightarrow>
        if meter_old inst' j m \<and> ident \<notin> set pend \<and> mt_Ack m = am_Sequence (mt_Wire m)
        then let j1 = remember (meterReceiptID cd (am_Instance (mt_Wire m)) (am_WindowID (mt_Wire m)))
                   \<lparr>rc_Instance = am_Instance (mt_Wire m), rc_Sequence = am_Sequence (mt_Wire m),
                    rc_GrantHash = ''''\<rparr> j
             in j1\<lparr>jMeters := gdel ident (jMeters j1)\<rparr>
        else j)"

definition request_expired :: "journal \<Rightarrow> grantRequest \<Rightarrow> bool" where
  "request_expired j r \<longleftrightarrow> \<not> IsZero (ServerTime j) \<and> \<not> IsZero (WindowEnd (rq_Budget r)) \<and>
     \<not> inst (ServerTime j) < inst (WindowEnd (rq_Budget r))"

definition obsolete_open :: "grantRequest \<Rightarrow> bool" where
  "obsolete_open r \<longleftrightarrow> Obsolete r \<and> GrantID r = ''''"

definition droppable :: "journal \<Rightarrow> grantRequest \<Rightarrow> bool" where
  "droppable j r \<longleftrightarrow> obsolete_open r \<and>
     (\<not> rq_Sent r \<or> (Denied r \<noteq> '''' \<and> \<not> PendingReply r) \<or> request_expired j r)"

text \<open>The recorded order of what remains, first occurrences only, and what it does not name.\<close>

fun take_remaining :: "string list \<Rightarrow> (string, 'v) gomap \<Rightarrow> string list \<times> (string, 'v) gomap" where
  "take_remaining [] rem = ([], rem)"
| "take_remaining (i # is) rem =
     (if gget rem i \<noteq> None
      then (let (os, rest) = take_remaining is (gdel i rem) in (i # os, rest))
      else take_remaining is rem)"

definition collectObsoleteRequests :: "journal \<Rightarrow> journal" where
  "collectObsoleteRequests j =
     (let kept = gfilter (\<lambda>_ r. \<not> droppable j r) (Requests j);
          (old, rest) = take_remaining (ObsoleteRequests j) (gfilter (\<lambda>_ r. obsolete_open r) kept);
          order = old @ sortedKeys rest;
          excess = length order - obsoleteRequestLimit
      in j\<lparr>Requests := fold gdel (take excess order) kept, ObsoleteRequests := drop excess order\<rparr>)"

definition collect :: "codec \<Rightarrow> string \<Rightarrow> journal \<Rightarrow> journal" where
  "collect cd inst' j =
     (let pg = pendingGrants j; pmt = pendingMeters j;
          j1 = collect_permits j;
          j2 = fold (collect_grant cd pg) (sortedKeys (jGrants j1)) j1;
          j3 = fold (collect_meter cd inst' pmt) (sortedKeys (jMeters j2)) j2
      in collectObsoleteRequests j3)"

definition pruneDeadlines :: "journal \<Rightarrow> (string, gotime) gomap \<Rightarrow> (string, gotime) gomap" where
  "pruneDeadlines j ds =
     gfilter (\<lambda>i _. case gget (jGrants j) i of None \<Rightarrow> False | Some g \<Rightarrow> \<not> Closed g) ds"

section \<open>Opening and transactions\<close>

text \<open>
  \<open>initialize\<close> inside its own transaction: a present row is validated and retired, then the
  new boot becomes the owner of a journal without budgets.
\<close>

definition initialize :: "codec \<Rightarrow> string \<Rightarrow> journal option \<Rightarrow> auth_error + disk" where
  "initialize cd inst' row =
     rbind (case row of None \<Rightarrow> Inr emptyJournal | Some j \<Rightarrow> rbind (decode j) retire) (\<lambda>j.
       Inr \<lparr>owner = inst',
            state = collect cd inst' (j\<lparr>Ready := False, ServerTime := zero_ztime, Budgets := []\<rparr>)\<rparr>)"

text \<open>
  \<open>Open\<close>: the path check, the file checks and the database's verdict (\<open>io\<close>), the boot
  nonce, then \<open>initialize\<close>. On any error the row is as it was.
\<close>

definition Open ::
  "codec \<Rightarrow> string \<Rightarrow> auth_error option \<Rightarrow> string option \<Rightarrow> disk option \<Rightarrow> auth_error + (disk \<times> Store)" where
  "Open cd path io nonce row =
     (if path = '''' \<or> path = '':memory:'' then Inl (invalid ''a persistent journal path is required'')
      else case io of
        Some e \<Rightarrow> Inl e
      | None \<Rightarrow>
        (case nonce of
           None \<Rightarrow> Inl (invalid ''local authority nonce'')
         | Some inst' \<Rightarrow>
           rbind (initialize cd inst' (map_option state row)) (\<lambda>d.
             Inr (d, \<lparr>s_instance = inst', wake = True, closed = False, broken = None,
                      deadlines = [], windows = []\<rparr>))))"

definition Close :: "Store \<Rightarrow> Store" where
  "Close s = (if closed s then s else s\<lparr>closed := True\<rparr>)"

text \<open>
  What the database and the JSON codec do to one transaction. The flag says whether the
  error is a cancelled or expired context; a failed commit may or may not have reached the
  disk.
\<close>

datatype tx_fault =
    NoFault | BeginFails bool | ReadFails bool | DecodeFails | MarshalFails
  | WriteFails bool | CommitFails bool bool

definition storageError :: "bool \<Rightarrow> Store \<Rightarrow> auth_error \<times> Store" where
  "storageError ctx s =
     (let e = invalid ''local journal'' in (e, if ctx then s else s\<lparr>broken := Some e\<rparr>))"

definition tx_abort :: "bool \<Rightarrow> disk \<Rightarrow> Store \<Rightarrow> (auth_error + 'r) \<times> disk \<times> Store" where
  "tx_abort ctx d s = (let (e, s') = storageError ctx s in (Inl e, d, s'))"

text \<open>
  A transaction body returns whether it signalled the background loop and either an error
  (everything is rolled back) or the changed journal with a result.
\<close>

type_synonym 'r tx_body = "journal \<Rightarrow> bool \<times> (auth_error + journal \<times> 'r)"

definition transaction ::
  "codec \<Rightarrow> tx_fault \<Rightarrow> 'r tx_body \<Rightarrow> disk \<Rightarrow> Store \<Rightarrow> (auth_error + ('r \<times> journal)) \<times> disk \<times> Store" where
  "transaction cd fault fn d s =
     (if closed s then (Inl (AuthorityUnavailable ''journal closed''), d, s)
      else case broken s of Some e \<Rightarrow> (Inl e, d, s)
      | None \<Rightarrow>
        (case fault of BeginFails ctx \<Rightarrow> tx_abort ctx d s | ReadFails ctx \<Rightarrow> tx_abort ctx d s
         | _ \<Rightarrow>
           if owner d \<noteq> s_instance s then (Inl (AuthorityUnavailable ''journal owner fenced''), d, s)
           else
             (case (if fault = DecodeFails then Inl (invalid ''decode journal'') else decode (state d)) of
                Inl e \<Rightarrow> (Inl e, d, s\<lparr>broken := Some e\<rparr>)
              | Inr j \<Rightarrow>
                let (woke, res) = fn j; s1 = (if woke then signal s else s) in
                (case res of
                   Inl e \<Rightarrow> (Inl e, d, s1)
                 | Inr (j1, r) \<Rightarrow>
                   let j2 = collect cd (s_instance s) j1; d' = d\<lparr>state := j2\<rparr> in
                   (case fault of
                      MarshalFails \<Rightarrow> tx_abort False d s1
                    | WriteFails ctx \<Rightarrow> tx_abort ctx d s1
                    | CommitFails ctx persisted \<Rightarrow> tx_abort ctx (if persisted then d' else d) s1
                    | _ \<Rightarrow> (Inr (r, j2), d',
                             s1\<lparr>deadlines := pruneDeadlines j2 (deadlines s1)\<rparr>))))))"

end
