(* ===== verification/Authority_Admission.thy ===== *)
theory Authority_Admission
  imports Authority_Journal
begin

text \<open>
  Admission against the node journal (\<open>src/internal/authority/local/admission.go\<close>):
  \<open>Reserve\<close> commits a bound against one grant of every matching hard budget before a
  provider is called, \<open>Finish\<close> settles it. Clock readings and random nonces are
  arguments; an exhausted nonce list is a failing random source.
\<close>

record Subject =
  Team :: string
  KeyID :: string
  User :: string

record BudgetPermit =
  ID :: string
  BoundMicroUSD :: i64
  bp_InvalidUsage :: bool

section \<open>Choosing a grant\<close>

text \<open>The empty id means that no grant was found, as in the source.\<close>

definition matches :: "AuthorityBudget \<Rightarrow> Subject \<Rightarrow> bool" where
  "matches b subject \<longleftrightarrow> (ab_Team b = '''' \<or> ab_Team b = Team subject) \<and>
     (ab_User b = '''' \<or> ab_User b = User subject)"

definition earlier :: "gotime \<Rightarrow> gotime \<Rightarrow> gotime" where
  "earlier a b = (if a = 0 \<or> b < a then b else a)"

definition available :: "grant \<Rightarrow> i64" where
  "available g = wrap64 (wrap64 (Amount (Wire g) - Consumed g) - Reserved g)"

fun pick_grant :: "Store \<Rightarrow> AuthorityBudget \<Rightarrow> i64 \<Rightarrow> gotime \<Rightarrow> string list \<Rightarrow>
    (string, grant) gomap \<Rightarrow> auth_error + ((string, grant) gomap \<times> string)" where
  "pick_grant s b bound now [] gs = Inr (gs, '''')"
| "pick_grant s b bound now (i # is) gs =
     (case gget gs i of
        None \<Rightarrow> pick_grant s b bound now is gs
      | Some g \<Rightarrow>
        if \<not> usable s g b now then pick_grant s b bound now is gs
        else if available g > 0 \<and> available g \<ge> bound then Inr (gs, i)
        else if Pending g = 0 then rbind (closeGrant g) (\<lambda>g'. pick_grant s b bound now is (gput i g' gs))
        else pick_grant s b bound now is gs)"

section \<open>Queueing a request for credit\<close>

datatype queue_scan = Waiting bool | Raise string | Fresh

fun scan_requests :: "string \<Rightarrow> AuthorityBudget \<Rightarrow> i64 \<Rightarrow> (string, grantRequest) gomap \<Rightarrow>
    string list \<Rightarrow> queue_scan" where
  "scan_requests inst' b want rs [] = Fresh"
| "scan_requests inst' b want rs (i # is) =
     (case gget rs i of
        None \<Rightarrow> scan_requests inst' b want rs is
      | Some r \<Rightarrow>
        if rq_Instance r \<noteq> inst' \<or> Obsolete r \<or> GrantID r \<noteq> '''' \<or> \<not> sameDefinition (rq_Budget r) b
        then scan_requests inst' b want rs is
        else if WantMicroUSD (rq_Wire r) \<ge> want
        then Waiting (Denied r = ''exhausted'' \<or> Denied r = ''frozen_window'')
        else if \<not> rq_Sent r then Raise i
        else scan_requests inst' b want rs is)"

definition queue :: "Store \<Rightarrow> journal \<Rightarrow> AuthorityBudget \<Rightarrow> i64 \<Rightarrow> string list \<Rightarrow>
    auth_error + (bool \<times> journal \<times> string list)" where
  "queue s j b bound nonces =
     (let want = max bound 1 in
      case scan_requests (s_instance s) b want (Requests j) (sortedKeys (Requests j)) of
        Waiting ex \<Rightarrow> Inr (ex, j, nonces)
      | Raise i \<Rightarrow>
        Inr (False, j\<lparr>Requests := (case gget (Requests j) i of None \<Rightarrow> Requests j
               | Some r \<Rightarrow> gput i (r\<lparr>rq_Wire := (rq_Wire r)\<lparr>WantMicroUSD := want\<rparr>\<rparr>) (Requests j))\<rparr>,
             nonces)
      | Fresh \<Rightarrow>
        (case nonces of
           [] \<Rightarrow> Inl (invalid ''local authority nonce'')
         | n # ns \<Rightarrow>
           Inr (False, j\<lparr>Requests := gput n
                 \<lparr>rq_Wire = \<lparr>gr_RequestID = n, gr_Key = ab_Key b, gr_Revision = ab_Revision b,
                    gr_WindowID = ab_WindowID b, WantMicroUSD = want\<rparr>,
                  rq_Budget = b, rq_Instance = s_instance s, rq_Sent = False, GrantID = '''',
                  Denied = '''', Obsolete = False, PendingReply = False\<rparr> (Requests j)\<rparr>, ns)))"

section \<open>Reserve\<close>

text \<open>The loop over the budgets carries the journal and the local variables of the body.\<close>

record rloop =
  lj :: journal
  chosen :: "string list"
  soft :: "AuthorityBudget list"
  denied :: "auth_error option"
  expires :: gotime
  woke :: bool
  nonces :: "string list"

definition is_exhausted :: "auth_error option \<Rightarrow> bool" where
  "is_exhausted e = (case e of Some (AuthorityExhausted _) \<Rightarrow> True | _ \<Rightarrow> False)"

text \<open>ADR-045 grants carry the policy and rule name but no document generation.\<close>

definition authority_budgetDenial :: "AuthorityBudget \<Rightarrow> GovernanceRef" where
  "authority_budgetDenial b =
     \<lparr>ref_Scope = (if ab_User b \<noteq> '''' then GovScopeUser else GovScopeTeam),
      ref_Limit = (if time_sub (inst (WindowEnd b)) (inst (WindowStart b)) = 24 * hour
                   then GovLimitBudgetDay else GovLimitBudgetMonth),
      ref_Source = GovSourcePolicy,
      ref_Policy = Some \<lparr>ref_Name = ab_Policy b, ref_Generation = 0, ref_Rule = ab_Rule b\<rparr>\<rparr>"

definition deny :: "bool \<Rightarrow> AuthorityBudget \<Rightarrow> auth_error option \<Rightarrow> auth_error option" where
  "deny exhausted b e =
     (if exhausted then (if is_exhausted e then e else Some (AuthorityExhausted (authority_budgetDenial b)))
      else if e = None then Some (AuthorityUnavailable ''budget authority unavailable'') else e)"

text \<open>An error leaves the loop together with the notifications already sent.\<close>

definition with_woke :: "bool \<Rightarrow> auth_error + 'a \<Rightarrow> (bool \<times> auth_error) + 'a" where
  "with_woke w r = (case r of Inl e \<Rightarrow> Inl (w, e) | Inr x \<Rightarrow> Inr x)"

definition reserve_budget ::
  "Store \<Rightarrow> Subject \<Rightarrow> i64 \<Rightarrow> gotime \<Rightarrow> string \<Rightarrow> rloop \<Rightarrow> (bool \<times> auth_error) + rloop" where
  "reserve_budget s subject bound now key l =
     (case gget (Budgets (lj l)) key of
        None \<Rightarrow> Inr l
      | Some b \<Rightarrow>
        if \<not> matches b subject then Inr l
        else
          let l1 = l\<lparr>expires := earlier (expires l) (time_at (windows s) key)\<rparr> in
          if \<not> now < time_at (windows s) key
          then Inr (l1\<lparr>denied := Some (AuthorityUnavailable ''budget authority unavailable''), woke := True\<rparr>)
          else if \<not> HardCap b then Inr (l1\<lparr>soft := soft l1 @ [b]\<rparr>)
          else
            rbind (with_woke (woke l1)
                (pick_grant s b bound now (sortedKeys (jGrants (lj l1))) (jGrants (lj l1))))
              (\<lambda>(gs, found).
                let l2 = l1\<lparr>lj := (lj l1)\<lparr>jGrants := gs\<rparr>\<rparr> in
                if found \<noteq> ''''
                then Inr (l2\<lparr>chosen := chosen l2 @ [found],
                              expires := earlier (expires l2) (time_at (deadlines s) found)\<rparr>)
                else
                  rbind (with_woke (woke l2) (queue s (lj l2) b bound (nonces l2))) (\<lambda>(ex, j', ns).
                    Inr (l2\<lparr>lj := j', nonces := ns, denied := deny ex b (denied l2), woke := True\<rparr>))))"

definition take_reservation :: "i64 \<Rightarrow> string \<Rightarrow> (string, grant) gomap \<Rightarrow> auth_error + (string, grant) gomap" where
  "take_reservation bound i gs =
     (case gget gs i of
        None \<Rightarrow> Inl nil_deref
      | Some g \<Rightarrow>
        rbind (add64 (Reserved g) bound) (\<lambda>r.
        rbind (bump (Pending g)) (\<lambda>n. Inr (gput i (g\<lparr>Reserved := r, Pending := n\<rparr>) gs))))"

definition meterID :: "codec \<Rightarrow> Store \<Rightarrow> AuthorityBudget \<Rightarrow> string" where
  "meterID cd s b = marshal3 cd (s_instance s) (ab_Key b) (ab_WindowID b)"

definition open_meter :: "codec \<Rightarrow> Store \<Rightarrow> AuthorityBudget \<Rightarrow> (string, meter) gomap \<Rightarrow> (string, meter) gomap" where
  "open_meter cd s b ms =
     (let m = meterID cd s b in
      if gget ms m = None
      then gput m \<lparr>mt_Wire = \<lparr>am_Instance = s_instance s, am_Key = ab_Key b, am_WindowID = ab_WindowID b,
                     am_Sequence = 1, am_Consumed = 0, am_Observed = 0\<rparr>,
                   mt_Ack = 0, mt_Sent = 0, mt_WindowEnd = WindowEnd b\<rparr> ms
      else ms)"

type_synonym reserve_result = "auth_error option \<times> BudgetPermit option \<times> gotime"

definition grant_permit :: "codec \<Rightarrow> Store \<Rightarrow> i64 \<Rightarrow> rloop \<Rightarrow> auth_error + (journal \<times> reserve_result)" where
  "grant_permit cd s bound l =
     (case nonces l of
        [] \<Rightarrow> Inl (invalid ''local authority nonce'')
      | n # _ \<Rightarrow>
        rbind (rfold (take_reservation bound) (chosen l) (jGrants (lj l))) (\<lambda>gs.
          let ms = fold (open_meter cd s) (soft l) (jMeters (lj l));
              p = \<lparr>pm_Instance = s_instance s, Bound = bound, Grants = chosen l,
                   Meters = map (meterID cd s) (soft l), Done = False, Complete = False,
                   Actual = None, Retired = False, InvalidUsage = False\<rparr>;
              j' = (lj l)\<lparr>jGrants := gs, jMeters := ms, Permits := gput n p (Permits (lj l))\<rparr>
          in Inr (j', None, Some \<lparr>ID = n, BoundMicroUSD = bound, bp_InvalidUsage = False\<rparr>, expires l)))"

definition reserve_loop ::
  "Store \<Rightarrow> Subject \<Rightarrow> i64 \<Rightarrow> gotime \<Rightarrow> string list \<Rightarrow> journal \<Rightarrow> (bool \<times> auth_error) + rloop" where
  "reserve_loop s subject bound now ns j =
     rfold (reserve_budget s subject bound now) (sortedKeys (Budgets j))
       \<lparr>lj = j, chosen = [], soft = [], denied = None, expires = 0, woke = False, nonces = ns\<rparr>"

text \<open>
  The body of the reserving transaction. When some budget denies, the queued wants and the
  proven idle closes are committed and nothing is reserved.
\<close>

definition reserve_body :: "codec \<Rightarrow> Store \<Rightarrow> Subject \<Rightarrow> i64 \<Rightarrow> gotime \<Rightarrow> string list \<Rightarrow> reserve_result tx_body" where
  "reserve_body cd s subject bound now ns j =
     (if Poisoned j then (False, Inl (invalid ''admission poisoned by an observed bound overrun''))
      else if \<not> Ready j then (False, Inl (AuthorityUnavailable ''initial sync required''))
      else case closeInactive s j now of
        Inl e \<Rightarrow> (False, Inl e)
      | Inr j1 \<Rightarrow>
        (case reserve_loop s subject bound now ns j1 of
           Inl (w, e) \<Rightarrow> (w, Inl e)
         | Inr l \<Rightarrow>
           (woke l, case denied l of
              Some e \<Rightarrow> Inr (lj l, Some e, None, expires l)
            | None \<Rightarrow> grant_permit cd s bound l)))"

text \<open>Undoing a reservation that no caller has seen.\<close>

definition release_reservation :: "i64 \<Rightarrow> string \<Rightarrow> (string, grant) gomap \<Rightarrow> auth_error + (string, grant) gomap" where
  "release_reservation bound i gs =
     (case gget gs i of
        None \<Rightarrow> Inl nil_deref
      | Some g \<Rightarrow>
        if Pending g \<le> 0 \<or> Reserved g < bound \<or> Closed g
        then Inl (invalid ''inconsistent undispatched reservation'')
        else Inr (gput i (g\<lparr>Pending := Pending g - 1, Reserved := Reserved g - bound\<rparr>) gs))"

definition undispatch_body :: "Store \<Rightarrow> string \<Rightarrow> gotime \<Rightarrow> unit tx_body" where
  "undispatch_body s pid now j =
     (False,
      case gget (Permits j) pid of
        None \<Rightarrow> Inl (invalid ''missing undispatched permit'')
      | Some p \<Rightarrow>
        if Done p then Inl (invalid ''missing undispatched permit'')
        else rbind (rfold (release_reservation (Bound p)) (Grants p) (jGrants j)) (\<lambda>gs.
          rbind (closeInactive s (j\<lparr>jGrants := gs,
                   Permits := gput pid (p\<lparr>Done := True, Complete := True, Actual := Some 0\<rparr>) (Permits j)\<rparr>) now)
            (\<lambda>j'. Inr (j', ()))))"

text \<open>The clock is read inside the transaction (\<open>t1\<close>), after it (\<open>t2\<close>) and in the clean-up (\<open>t3\<close>).\<close>

definition Reserve ::
  "codec \<Rightarrow> tx_fault \<Rightarrow> tx_fault \<Rightarrow> gotime \<Rightarrow> gotime \<Rightarrow> gotime \<Rightarrow> string list \<Rightarrow> Subject \<Rightarrow> i64 \<Rightarrow>
   disk \<Rightarrow> Store \<Rightarrow> (auth_error + BudgetPermit) \<times> disk \<times> Store" where
  "Reserve cd f1 f2 t1 t2 t3 ns subject bound d s =
     (if bound < 0 \<or> Team subject = '''' then (Inl (invalid ''invalid admission subject or bound''), d, s)
      else case transaction cd f1 (reserve_body cd s subject bound t1 ns) d s of
        (Inl e, d1, s1) \<Rightarrow> (Inl e, d1, s1)
      | (Inr ((Some e, _, _), _), d1, s1) \<Rightarrow> (Inl e, d1, s1)
      | (Inr ((None, None, _), _), d1, s1) \<Rightarrow> (Inl (invalid ''missing undispatched permit''), d1, s1)
      | (Inr ((None, Some p, ex), _), d1, s1) \<Rightarrow>
          if ex \<noteq> 0 \<and> \<not> t2 < ex
          then (case transaction cd f2 (undispatch_body s1 (ID p) t3) d1 s1 of
                  (Inl e, d2, s2) \<Rightarrow> (Inl e, d2, signal s2)
                | (Inr _, d2, s2) \<Rightarrow>
                    (Inl (AuthorityUnavailable ''authority expired while recording reservation''),
                     d2, signal s2))
          else (Inr p, d1, s1))"

section \<open>Finish\<close>

definition equalActual :: "i64 option \<Rightarrow> i64 option \<Rightarrow> bool" where
  "equalActual a b \<longleftrightarrow> a = b"

text \<open>The charge against a grant and the observed cost of one settlement.\<close>

definition charge :: "i64 \<Rightarrow> i64 option \<Rightarrow> bool \<Rightarrow> i64 \<times> i64" where
  "charge bound actual complete =
     (case actual of
        None \<Rightarrow> (bound, 0)
      | Some a \<Rightarrow> (if complete \<or> a > bound then a else bound, a))"

definition check_room :: "i64 \<Rightarrow> i64 \<Rightarrow> i64 \<Rightarrow> i64 \<Rightarrow> i64 \<Rightarrow> auth_error option" where
  "check_room consumed observed consumedBefore observedBefore sequence =
     (case add64 consumedBefore consumed of Inl e \<Rightarrow> Some e
      | Inr _ \<Rightarrow> (case add64 observedBefore observed of Inl e \<Rightarrow> Some e
      | Inr _ \<Rightarrow> (case add64 sequence 1 of Inl e \<Rightarrow> Some e | Inr _ \<Rightarrow> None)))"

text \<open>
  The checks before anything changes: an inconsistency aborts, a sum that does not fit
  poisons.
\<close>

datatype settle_check = Consistent | Inconsistent auth_error | Overflow auth_error

fun check_grants :: "i64 \<Rightarrow> i64 \<Rightarrow> i64 \<Rightarrow> (string, grant) gomap \<Rightarrow> string list \<Rightarrow> settle_check" where
  "check_grants bound consumed observed gs [] = Consistent"
| "check_grants bound consumed observed gs (i # is) =
     (case gget gs i of
        None \<Rightarrow> Inconsistent nil_deref
      | Some g \<Rightarrow>
        if Closed g \<or> Pending g \<le> 0 \<or> Reserved g < bound
        then Inconsistent (invalid ''inconsistent reservation'')
        else (case check_room consumed observed (Consumed g) (Observed g) (Sequence g) of
                Some e \<Rightarrow> Overflow e
              | None \<Rightarrow> check_grants bound consumed observed gs is))"

fun check_meters :: "i64 \<Rightarrow> i64 \<Rightarrow> (string, meter) gomap \<Rightarrow> string list \<Rightarrow> settle_check" where
  "check_meters consumed observed ms [] = Consistent"
| "check_meters consumed observed ms (i # is) =
     (case gget ms i of
        None \<Rightarrow> Inconsistent nil_deref
      | Some m \<Rightarrow>
        (case check_room consumed observed (am_Consumed (mt_Wire m)) (am_Observed (mt_Wire m))
                (am_Sequence (mt_Wire m)) of
           Some e \<Rightarrow> Overflow e
         | None \<Rightarrow> check_meters consumed observed ms is))"

definition settle_grant :: "i64 \<Rightarrow> i64 \<Rightarrow> i64 \<Rightarrow> bool \<Rightarrow> grant \<Rightarrow> grant" where
  "settle_grant bound consumed observed overrun g =
     (let over = (Overrun g \<or> overrun); pend = Pending g - 1 in
      g\<lparr>Consumed := Consumed g + consumed, Observed := Observed g + observed,
        Reserved := Reserved g - bound, Pending := pend, Overrun := over,
        Closed := (if over \<and> pend = 0 then True else Closed g), Sequence := Sequence g + 1\<rparr>)"

definition settle_meter :: "i64 \<Rightarrow> i64 \<Rightarrow> meter \<Rightarrow> meter" where
  "settle_meter consumed observed m =
     m\<lparr>mt_Wire := (mt_Wire m)\<lparr>am_Consumed := am_Consumed (mt_Wire m) + consumed,
         am_Observed := am_Observed (mt_Wire m) + observed,
         am_Sequence := am_Sequence (mt_Wire m) + 1\<rparr>\<rparr>"

definition update_at :: "('v \<Rightarrow> 'v) \<Rightarrow> string \<Rightarrow> (string, 'v) gomap \<Rightarrow> (string, 'v) gomap" where
  "update_at f i m = (case gget m i of None \<Rightarrow> m | Some v \<Rightarrow> gput i (f v) m)"

definition poison :: "string \<Rightarrow> permit \<Rightarrow> BudgetPermit \<Rightarrow> i64 option \<Rightarrow> journal \<Rightarrow> journal" where
  "poison pid p authorization actual j =
     j\<lparr>Poisoned := True,
       Permits := gput pid (p\<lparr>Retired := True, InvalidUsage := bp_InvalidUsage authorization,
         Actual := (case actual of None \<Rightarrow> Actual p | Some a \<Rightarrow> Some a)\<rparr>) (Permits j),
       jGrants := (if bp_InvalidUsage authorization
         then fold (update_at (\<lambda>g. g\<lparr>Overrun := True\<rparr>)) (Grants p) (jGrants j) else jGrants j)\<rparr>"

definition finish_body :: "Store \<Rightarrow> BudgetPermit \<Rightarrow> i64 option \<Rightarrow> bool \<Rightarrow> gotime \<Rightarrow> (auth_error option) tx_body" where
  "finish_body s authorization actual complete now j =
     (False,
      case gget (Permits j) (ID authorization) of
        None \<Rightarrow> Inl (invalid ''unknown or retired permit'')
      | Some p \<Rightarrow>
        if Bound p \<noteq> BoundMicroUSD authorization \<or> Retired p
        then Inl (invalid ''unknown or retired permit'')
        else if Done p then
          (if Complete p \<noteq> complete \<or> InvalidUsage p \<noteq> bp_InvalidUsage authorization \<or>
              \<not> equalActual (Actual p) actual
           then Inl (invalid ''conflicting settlement'') else Inr (j, None))
        else if pm_Instance p \<noteq> s_instance s then Inl (invalid ''permit belongs to another boot'')
        else
          let (consumed, observed) = charge (Bound p) actual complete;
              overrun = (bp_InvalidUsage authorization \<or> observed > Bound p) in
          (case check_grants (Bound p) consumed observed (jGrants j) (Grants p) of
            Inconsistent e \<Rightarrow> Inl e
          | Overflow e \<Rightarrow> Inr (poison (ID authorization) p authorization actual j, Some e)
          | Consistent \<Rightarrow>
            (case check_meters consumed observed (jMeters j) (Meters p) of
               Inconsistent e \<Rightarrow> Inl e
             | Overflow e \<Rightarrow> Inr (poison (ID authorization) p authorization actual j, Some e)
             | Consistent \<Rightarrow>
               rbind (closeInactive s (j\<lparr>
                 jGrants := fold (update_at (settle_grant (Bound p) consumed observed overrun)) (Grants p) (jGrants j),
                 jMeters := fold (update_at (settle_meter consumed observed)) (Meters p) (jMeters j),
                 Permits := gput (ID authorization) (p\<lparr>Done := True, Complete := complete,
                    InvalidUsage := bp_InvalidUsage authorization,
                    Actual := (case actual of None \<Rightarrow> Actual p | Some a \<Rightarrow> Some a)\<rparr>) (Permits j),
                 Poisoned := (Poisoned j \<or> overrun)\<rparr>) now) (\<lambda>j'. Inr (j', None)))))"

definition Finish ::
  "codec \<Rightarrow> tx_fault \<Rightarrow> gotime \<Rightarrow> BudgetPermit option \<Rightarrow> i64 option \<Rightarrow> bool \<Rightarrow> disk \<Rightarrow> Store \<Rightarrow>
   auth_error option \<times> disk \<times> Store" where
  "Finish cd fault now authorization actual complete d s =
     (case authorization of
        None \<Rightarrow> (Some (invalid ''invalid settlement''), d, s)
      | Some a \<Rightarrow>
        if ID a = '''' \<or> BoundMicroUSD a < 0 \<or> (case actual of Some n \<Rightarrow> n < 0 | None \<Rightarrow> False)
        then (Some (invalid ''invalid settlement''), d, s)
        else
          let complete' = (if bp_InvalidUsage a then False else complete) in
          (case transaction cd fault (finish_body s a actual complete' now) d s of
             (Inl e, d1, s1) \<Rightarrow> (Some e, d1, s1)
           | (Inr (settlementErr, _), d1, s1) \<Rightarrow> (settlementErr, d1, signal s1)))"

end
