(* ===== verification/Authority_Sync.thy ===== *)
theory Authority_Sync
  imports Authority_Journal
begin

text \<open>
  The synchronisation half of the node journal (\<open>src/internal/authority/local/sync.go\<close>):
  \<open>Request\<close> snapshots reports and wants, \<open>Apply\<close> validates and commits a complete response
  of the control plane.
\<close>

section \<open>Validation of strings and times\<close>

definition validString :: "string \<Rightarrow> bool" where
  "validString s \<longleftrightarrow> s \<noteq> '''' \<and> length s \<le> 4096 \<and>
     list_all (\<lambda>c. c \<noteq> char_of (0::nat) \<and> c \<noteq> char_of (13::nat) \<and> c \<noteq> char_of (10::nat)) s"

definition optionalString :: "string \<Rightarrow> bool" where
  "optionalString s \<longleftrightarrow> s = '''' \<or> validString s"

definition utcTime :: "ztime \<Rightarrow> bool" where
  "utcTime t \<longleftrightarrow> \<not> IsZero t \<and> zone t = 0"

definition deadline :: "gotime \<Rightarrow> ztime \<Rightarrow> ztime \<Rightarrow> duration \<Rightarrow> gotime" where
  "deadline now serverTime expiry rtt =
     (let remaining = time_sub (inst expiry) (inst serverTime) in
      if remaining \<le> 0 \<or> rtt \<ge> remaining then now else now + (remaining - rtt))"

section \<open>Request\<close>

definition perStream :: nat where
  "perStream = 1024 div 3"

text \<open>\<open>sort.Search\<close> on sorted keys: the keys after the cursor first, then the others.\<close>

definition rotatingKeys :: "(string, 'v) gomap \<Rightarrow> string \<Rightarrow> string list" where
  "rotatingKeys m cursor =
     (let keys = sortedKeys m in
      dropWhile (\<lambda>k. \<not> k > cursor) keys @ takeWhile (\<lambda>k. \<not> k > cursor) keys)"

text \<open>Each stream: the eligible keys in rotating order, at most \<open>perStream\<close> of them.\<close>

definition stream_batch :: "(string, 'v) gomap \<Rightarrow> string \<Rightarrow> ('v \<Rightarrow> bool) \<Rightarrow> string list" where
  "stream_batch m cursor eligible =
     take perStream (filter (\<lambda>i. case gget m i of None \<Rightarrow> False | Some v \<Rightarrow> eligible v)
       (rotatingKeys m cursor))"

definition request_eligible :: "Store \<Rightarrow> journal \<Rightarrow> grantRequest \<Rightarrow> bool" where
  "request_eligible s j r =
     (case gget (Budgets j) (gr_Key (rq_Wire r)) of
        None \<Rightarrow> False
      | Some b \<Rightarrow> \<not> (rq_Instance r \<noteq> s_instance s \<or> Obsolete r \<or> GrantID r \<noteq> '''' \<or>
                     \<not> sameDefinition (rq_Budget r) b))"

definition report_eligible :: "grant \<Rightarrow> bool" where
  "report_eligible g \<longleftrightarrow> \<not> (Ack g = Sequence g \<or> (Overrun g \<and> \<not> Closed g))"

definition meter_eligible :: "meter \<Rightarrow> bool" where
  "meter_eligible m \<longleftrightarrow> mt_Ack m \<noteq> am_Sequence (mt_Wire m)"

definition report_of :: "grant \<Rightarrow> AuthorityReport" where
  "report_of g = \<lparr>ar_Instance = g_Instance g, ar_GrantID = ag_ID (Wire g),
     ar_RequestID = ag_RequestID (Wire g), ar_Sequence = Sequence g, ar_Consumed = Consumed g,
     ar_Observed = Observed g, ar_Closed = Closed g, ar_Overrun = Overrun g\<rparr>"

definition last_or :: "string \<Rightarrow> string list \<Rightarrow> string" where
  "last_or d xs = (if xs = [] then d else last xs)"

definition mark :: "('v \<Rightarrow> 'v) \<Rightarrow> string list \<Rightarrow> (string, 'v) gomap \<Rightarrow> (string, 'v) gomap" where
  "mark f is m = gmapv (\<lambda>i v. if i \<in> set is then f v else v) m"

definition select :: "('v \<Rightarrow> 'w) \<Rightarrow> (string, 'v) gomap \<Rightarrow> string list \<Rightarrow> 'w list" where
  "select f m is = concat (map (\<lambda>i. case gget m i of None \<Rightarrow> [] | Some v \<Rightarrow> [f v]) is)"

definition request_body :: "Store \<Rightarrow> gotime \<Rightarrow> AuthorityRequest tx_body" where
  "request_body s now j0 =
     (False, rbind (closeInactive s j0 now) (\<lambda>j.
       let rs = stream_batch (Requests j) (RequestCursor j) (request_eligible s j);
           gs = stream_batch (jGrants j) (ReportCursor j) report_eligible;
           ms = stream_batch (jMeters j) (MeterCursor j) meter_eligible;
           j' = j\<lparr>Requests := mark (\<lambda>r. r\<lparr>rq_Sent := True, PendingReply := True\<rparr>) rs (Requests j),
                  RequestCursor := last_or (RequestCursor j) rs,
                  jGrants := mark (\<lambda>g. g\<lparr>Sent := Sequence g\<rparr>) gs (jGrants j),
                  ReportCursor := last_or (ReportCursor j) gs,
                  jMeters := mark (\<lambda>m. m\<lparr>mt_Sent := am_Sequence (mt_Wire m)\<rparr>) ms (jMeters j),
                  MeterCursor := last_or (MeterCursor j) ms\<rparr>
       in Inr (j', \<lparr>areq_Protocol = AuthorityProtocol, areq_Instance = s_instance s,
                    areq_Requests = select rq_Wire (Requests j) rs,
                    areq_Reports = select report_of (jGrants j) gs,
                    areq_Meters = select mt_Wire (jMeters j) ms\<rparr>)))"

definition Request :: "codec \<Rightarrow> tx_fault \<Rightarrow> gotime \<Rightarrow> disk \<Rightarrow> Store \<Rightarrow>
    (auth_error + AuthorityRequest) \<times> disk \<times> Store" where
  "Request cd fault now d s =
     (case transaction cd fault (request_body s now) d s of
        (Inl e, d', s') \<Rightarrow> (Inl e, d', s')
      | (Inr (out, _), d', s') \<Rightarrow> (Inr out, d', s'))"

section \<open>Apply\<close>

definition budget_valid :: "ztime \<Rightarrow> AuthorityBudget \<Rightarrow> bool" where
  "budget_valid server b \<longleftrightarrow> validString (ab_Key b) \<and> validString (ab_Policy b) \<and>
     validString (ab_Rule b) \<and> validString (ab_Revision b) \<and> validString (ab_WindowID b) \<and>
     \<not> (ab_Team b = '''' \<and> ab_User b = '''') \<and> optionalString (ab_Team b) \<and> optionalString (ab_User b) \<and>
     0 \<le> LimitMicroUSD b \<and> 0 \<le> GrantMicroUSD b \<and> 0 < LeaseSeconds b \<and>
     LeaseSeconds b \<le> max_i64 div second \<and> \<not> (HardCap b \<and> GrantMicroUSD b = 0) \<and>
     utcTime (WindowStart b) \<and> utcTime (WindowEnd b) \<and>
     inst (WindowStart b) < inst (WindowEnd b) \<and>
     \<not> inst server < inst (WindowStart b) \<and> inst server < inst (WindowEnd b)"

fun validate_budgets :: "ztime \<Rightarrow> AuthorityBudget list \<Rightarrow> (string, AuthorityBudget) gomap \<Rightarrow> string list \<Rightarrow>
    auth_error + (string, AuthorityBudget) gomap" where
  "validate_budgets server [] acc wins = Inr acc"
| "validate_budgets server (b # bs) acc wins =
     (if gget acc (ab_Key b) \<noteq> None \<or> ab_WindowID b \<in> set wins \<or> \<not> budget_valid server b
      then Inl (invalid ''invalid budget definition'')
      else validate_budgets server bs (gput (ab_Key b) b acc) (ab_WindowID b # wins))"

definition validateBudgets :: "AuthorityResponse \<Rightarrow> auth_error + (string, AuthorityBudget) gomap" where
  "validateBudgets r = validate_budgets (rs_ServerTime r) (rs_Budgets r) [] []"

definition validateGrant :: "AuthorityGrant \<Rightarrow> grantRequest option \<Rightarrow> ztime \<Rightarrow> bool" where
  "validateGrant g req server =
     (case req of
        None \<Rightarrow> False
      | Some r \<Rightarrow> rq_Sent r \<and> HardCap (rq_Budget r) \<and> validString (ag_ID g) \<and>
          ag_RequestID g = gr_RequestID (rq_Wire r) \<and> ag_Key g = gr_Key (rq_Wire r) \<and>
          ag_Revision g = gr_Revision (rq_Wire r) \<and> ag_WindowID g = gr_WindowID (rq_Wire r) \<and>
          WantMicroUSD (rq_Wire r) \<le> Amount g \<and> 0 < Amount g \<and>
          Amount g \<le> max (GrantMicroUSD (rq_Budget r)) (WantMicroUSD (rq_Wire r)) \<and>
          Amount g \<le> LimitMicroUSD (rq_Budget r) \<and> utcTime (ExpiresAt g) \<and>
          inst (WindowStart (rq_Budget r)) < inst (ExpiresAt g) \<and>
          \<not> inst server + wrap64 (LeaseSeconds (rq_Budget r) * second) < inst (ExpiresAt g))"

definition equalGrant :: "AuthorityGrant \<Rightarrow> AuthorityGrant \<Rightarrow> bool" where
  "equalGrant a b \<longleftrightarrow> ag_ID a = ag_ID b \<and> ag_RequestID a = ag_RequestID b \<and> ag_Key a = ag_Key b \<and>
     ag_Revision a = ag_Revision b \<and> ag_WindowID a = ag_WindowID b \<and> Amount a = Amount b \<and>
     inst (ExpiresAt a) = inst (ExpiresAt b)"

definition equal_budget :: "AuthorityBudget \<Rightarrow> AuthorityBudget \<Rightarrow> bool" where
  "equal_budget x y \<longleftrightarrow> ab_Key x = ab_Key y \<and> ab_Policy x = ab_Policy y \<and> ab_Rule x = ab_Rule y \<and>
     ab_Team x = ab_Team y \<and> ab_User x = ab_User y \<and> ab_Revision x = ab_Revision y \<and>
     ab_WindowID x = ab_WindowID y \<and> inst (WindowStart x) = inst (WindowStart y) \<and>
     inst (WindowEnd x) = inst (WindowEnd y) \<and> LimitMicroUSD x = LimitMicroUSD y \<and>
     GrantMicroUSD x = GrantMicroUSD y \<and> LeaseSeconds x = LeaseSeconds y \<and> HardCap x = HardCap y"

definition equalBudgets :: "(string, AuthorityBudget) gomap \<Rightarrow> (string, AuthorityBudget) gomap \<Rightarrow> bool" where
  "equalBudgets a b \<longleftrightarrow> length a = length b \<and>
     list_all (\<lambda>(k, x). case gget b k of None \<Rightarrow> False | Some y \<Rightarrow> equal_budget x y) a"

text \<open>The state of \<open>Apply\<close>'s loops: the journal, the cloned deadlines, and the ids seen.\<close>

record aloop =
  aj :: journal
  adl :: "(string, gotime) gomap"
  seen :: "string list"
  grantIDs :: "string list"

definition new_grant :: "Store \<Rightarrow> gotime \<Rightarrow> ztime \<Rightarrow> duration \<Rightarrow> bool \<Rightarrow> AuthorityGrant \<Rightarrow> grantRequest \<Rightarrow>
    journal \<Rightarrow> grant \<times> gotime option" where
  "new_grant s received server rtt stale w r j =
     (let g = \<lparr>Wire = w, g_Instance = rq_Instance r, Consumed = 0, Observed = 0, Reserved = 0,
               Pending = 0, Closed = False, Overrun = False, Sequence = 1, Ack = 0, Sent = 0\<rparr>;
          expiry = (if inst (WindowEnd (rq_Budget r)) < inst (ExpiresAt w)
                    then WindowEnd (rq_Budget r) else ExpiresAt w);
          until = deadline received server expiry rtt
      in if rq_Instance r \<noteq> s_instance s then (g\<lparr>Consumed := Amount w, Closed := True\<rparr>, None)
         else if stale \<or> Obsolete r \<or>
           (case gget (Budgets j) (ag_Key w) of
              None \<Rightarrow> True | Some b \<Rightarrow> \<not> HardCap b \<or> \<not> sameDefinition (rq_Budget r) b) \<or>
           \<not> received < until
         then (g\<lparr>Closed := True\<rparr>, None)
         else (g, Some until))"

definition apply_grant :: "codec \<Rightarrow> Store \<Rightarrow> gotime \<Rightarrow> ztime \<Rightarrow> duration \<Rightarrow> bool \<Rightarrow> AuthorityGrant \<Rightarrow>
    aloop \<Rightarrow> auth_error + aloop" where
  "apply_grant cd s received server rtt stale w l =
     (let j = aj l in
      if ag_RequestID w \<in> set (seen l) \<or> ag_ID w \<in> set (grantIDs l)
      then Inl (invalid ''duplicate grant or grant request in response'')
      else
        let l1 = l\<lparr>seen := ag_RequestID w # seen l, grantIDs := ag_ID w # grantIDs l\<rparr> in
        (case gget (Receipts j) (reportReceiptID (ag_ID w)) of
           Some receipt \<Rightarrow>
             if rc_GrantHash receipt \<noteq> grantFingerprint cd w
             then Inl (invalid ''conflicting finalized grant replay'') else Inr l1
         | None \<Rightarrow>
           (case gget (Requests j) (ag_RequestID w) of
              None \<Rightarrow> Inl (invalid ''invalid or unrequested grant'')
            | Some r \<Rightarrow>
              if \<not> validateGrant w (Some r) server then Inl (invalid ''invalid or unrequested grant'')
              else (case gget (jGrants j) (ag_ID w) of
                 Some old \<Rightarrow>
                   if \<not> equalGrant (Wire old) w then Inl (invalid ''conflicting grant replay'') else Inr l1
               | None \<Rightarrow>
                 if GrantID r \<noteq> ''''
                 then Inl (invalid ''request capability already issued a different grant'')
                 else
                   let (g, until) = new_grant s received server rtt stale w r j in
                   Inr (l1\<lparr>aj := j\<lparr>jGrants := gput (ag_ID w) g (jGrants j),
                          Requests := gput (ag_RequestID w)
                            (r\<lparr>GrantID := ag_ID w, Denied := '''', PendingReply := False\<rparr>) (Requests j)\<rparr>,
                        adl := (case until of None \<Rightarrow> adl l1 | Some t \<Rightarrow> gput (ag_ID w) t (adl l1))\<rparr>)))))"

definition apply_denial :: "bool \<Rightarrow> AuthorityDenial \<Rightarrow> aloop \<Rightarrow> auth_error + aloop" where
  "apply_denial stale dn l =
     (case gget (Requests (aj l)) (den_RequestID dn) of
        None \<Rightarrow> Inl (invalid ''invalid grant denial'')
      | Some r \<Rightarrow>
        if den_RequestID dn \<in> set (seen l) \<or> \<not> rq_Sent r \<or> gr_Key (rq_Wire r) \<noteq> den_Key dn \<or>
           \<not> validString (den_Reason dn)
        then Inl (invalid ''invalid grant denial'')
        else Inr (l\<lparr>seen := den_RequestID dn # seen l,
               aj := (if GrantID r = '''' \<and> \<not> stale
                 then (aj l)\<lparr>Requests := gput (den_RequestID dn)
                        (r\<lparr>Denied := den_Reason dn, PendingReply := False\<rparr>) (Requests (aj l))\<rparr>
                 else aj l)\<rparr>))"

text \<open>Acknowledgements of reports and meters; the second component is the list of ids seen.\<close>

definition ack_report :: "AuthorityAck \<Rightarrow> journal \<times> string list \<Rightarrow> auth_error + (journal \<times> string list)" where
  "ack_report ack = (\<lambda>(j, sn).
     case gget (jGrants j) (ack_ID ack) of
       None \<Rightarrow>
         (case gget (Receipts j) (reportReceiptID (ack_ID ack)) of
            None \<Rightarrow> Inl (invalid ''invalid finalized report acknowledgement'')
          | Some rc \<Rightarrow>
            if ack_ID ack \<in> set sn \<or> ack_Sequence ack \<le> 0 \<or> ack_Sequence ack > rc_Sequence rc \<or>
               (ack_Instance ack \<noteq> '''' \<and> ack_Instance ack \<noteq> rc_Instance rc)
            then Inl (invalid ''invalid finalized report acknowledgement'')
            else Inr (j, ack_ID ack # sn))
     | Some g \<Rightarrow>
       if ack_ID ack \<in> set sn \<or> (ack_Instance ack \<noteq> '''' \<and> ack_Instance ack \<noteq> g_Instance g) \<or>
          ack_Sequence ack \<le> 0 \<or> ack_Sequence ack > Sent g
       then Inl (invalid ''invalid report acknowledgement'')
       else Inr (j\<lparr>jGrants := gput (ack_ID ack) (g\<lparr>Ack := max (Ack g) (ack_Sequence ack)\<rparr>) (jGrants j)\<rparr>,
                 ack_ID ack # sn))"

definition meters_for :: "AuthorityAck \<Rightarrow> journal \<Rightarrow> (string, meter) gomap" where
  "meters_for ack j =
     gfilter (\<lambda>_ m. am_Instance (mt_Wire m) = ack_Instance ack \<and> am_WindowID (mt_Wire m) = ack_ID ack)
       (jMeters j)"

definition ack_meter :: "codec \<Rightarrow> AuthorityAck \<Rightarrow> journal \<times> string list \<Rightarrow> auth_error + (journal \<times> string list)" where
  "ack_meter cd ack = (\<lambda>(j, sn).
     if ack_Instance ack = '''' \<or> ack_ID ack = '''' \<or> ack_Sequence ack \<le> 0
     then Inl (invalid ''meter acknowledgement requires original instance and window'')
     else
       let rid = meterReceiptID cd (ack_Instance ack) (ack_ID ack) in
       (case gget (Receipts j) rid of
          Some rc \<Rightarrow>
            if rid \<in> set sn \<or> ack_Sequence ack > rc_Sequence rc
            then Inl (invalid ''invalid finalized meter acknowledgement'')
            else Inr (j, rid # sn)
        | None \<Rightarrow>
          (case meters_for ack j of
             [] \<Rightarrow> Inl (invalid ''invalid meter acknowledgement'')
           | [(i, m)] \<Rightarrow>
             if i \<in> set sn \<or> ack_Sequence ack > mt_Sent m
             then Inl (invalid ''invalid meter acknowledgement'')
             else Inr (j\<lparr>jMeters := gput i (m\<lparr>mt_Ack := max (mt_Ack m) (ack_Sequence ack)\<rparr>) (jMeters j)\<rparr>,
                       i # sn)
           | _ \<Rightarrow> Inl (invalid ''ambiguous meter acknowledgement''))))"

definition applyAcks :: "codec \<Rightarrow> AuthorityResponse \<Rightarrow> journal \<Rightarrow> auth_error + journal" where
  "applyAcks cd r j =
     rbind (rfold ack_report (rs_ReportAcks r) (j, [])) (\<lambda>(j1, _).
     rbind (rfold (ack_meter cd) (rs_MeterAcks r) (j1, [])) (\<lambda>(j2, _). Inr j2))"

definition obsolete_request :: "journal \<Rightarrow> grantRequest \<Rightarrow> grantRequest" where
  "obsolete_request j r =
     (case gget (Budgets j) (gr_Key (rq_Wire r)) of
        None \<Rightarrow> r\<lparr>Obsolete := True\<rparr>
      | Some b \<Rightarrow> if sameDefinition (rq_Budget r) b then r else r\<lparr>Obsolete := True\<rparr>)"

definition outdated :: "journal \<Rightarrow> gotime \<Rightarrow> (string, gotime) gomap \<Rightarrow> string \<Rightarrow> grant \<Rightarrow> bool" where
  "outdated j received dls i g =
     (case gget (Budgets j) (ag_Key (Wire g)) of
        None \<Rightarrow> True
      | Some b \<Rightarrow> \<not> HardCap b \<or> ag_Revision (Wire g) \<noteq> ab_Revision b \<or>
                  ag_WindowID (Wire g) \<noteq> ab_WindowID b \<or> \<not> received < time_at dls i)"

definition install_snapshot :: "gotime \<Rightarrow> ztime \<Rightarrow> duration \<Rightarrow> (string, AuthorityBudget) gomap \<Rightarrow>
    journal \<Rightarrow> (string, gotime) gomap \<Rightarrow> auth_error + (journal \<times> (string, gotime) gomap)" where
  "install_snapshot received server rtt bs j wins =
     (let stale = (\<not> IsZero (ServerTime j) \<and> inst server < inst (ServerTime j));
          advance = (\<not> Ready j \<or> inst (ServerTime j) < inst server) in
      if stale then Inr (j, wins)
      else if \<not> advance \<and> \<not> equalBudgets (Budgets j) bs
      then Inl (invalid ''conflicting snapshot at the same server time'')
      else if advance
      then Inr (j\<lparr>Budgets := bs, ServerTime := server, Ready := True\<rparr>,
                gmapv (\<lambda>_ b. deadline received server (WindowEnd b) rtt) bs)
      else Inr (j, wins))"

definition apply_body :: "codec \<Rightarrow> Store \<Rightarrow> gotime \<Rightarrow> AuthorityResponse \<Rightarrow> duration \<Rightarrow>
    (string, AuthorityBudget) gomap \<Rightarrow>
    (bool \<times> (string, gotime) gomap \<times> (string, gotime) gomap) tx_body" where
  "apply_body cd s received response rtt bs j =
     (let server = rs_ServerTime response;
          stale = (\<not> IsZero (ServerTime j) \<and> inst server < inst (ServerTime j)) in
      (False,
       rbind (install_snapshot received server rtt bs j (windows s)) (\<lambda>(j1, wins).
       rbind (rfold (apply_grant cd s received server rtt stale) (rs_Grants response)
                \<lparr>aj = j1, adl = deadlines s, seen = [], grantIDs = []\<rparr>) (\<lambda>l1.
       rbind (rfold (apply_denial stale) (rs_Denied response) l1) (\<lambda>l2.
       rbind (applyAcks cd response (aj l2)) (\<lambda>j2.
         let j3 = j2\<lparr>Requests := gmapv (\<lambda>_ r. obsolete_request j2 r) (Requests j2)\<rparr> in
         rbind (gmapM (\<lambda>i g. if \<not> Closed g \<and> Pending g = 0 \<and> outdated j3 received (adl l2) i g
                             then closeGrant g else Inr g) (jGrants j3)) (\<lambda>gs.
           Inr (j3\<lparr>jGrants := gs\<rparr>, (stale, adl l2, wins)))))))))"

definition Apply :: "codec \<Rightarrow> tx_fault \<Rightarrow> gotime \<Rightarrow> AuthorityResponse \<Rightarrow> duration \<Rightarrow> disk \<Rightarrow> Store \<Rightarrow>
    auth_error option \<times> disk \<times> Store" where
  "Apply cd fault received response roundTrip d s =
     (if rs_Protocol response \<noteq> AuthorityProtocol \<or> \<not> utcTime (rs_ServerTime response) \<or> roundTrip < 0
      then (Some (invalid ''invalid protocol, server clock, or round trip''), d, s)
      else (case validateBudgets response of
        Inl e \<Rightarrow> (Some e, d, s)
      | Inr bs \<Rightarrow>
        (case transaction cd fault (apply_body cd s received response roundTrip bs) d s of
           (Inl e, d', s') \<Rightarrow> (Some e, d', s')
         | (Inr ((stale, dls, wins), j'), d', s') \<Rightarrow>
           (if stale then Some (invalid ''authority snapshot predates the installed snapshot'') else None,
            d', s'\<lparr>deadlines := pruneDeadlines j' dls, windows := wins\<rparr>))))"

end
