(* ===== verification/Authority_Invariant.thy ===== *)
theory Authority_Invariant
  imports Authority_Admission Authority_Sync
begin

text \<open>
  The invariant of the node journal and its preservation by every transaction body, by
  collection and by retirement at restart. The credit a grant has reserved is the sum of the
  bounds of the unfinished permits that name it, its pending count is their number, and as
  long as the journal is not poisoned what is consumed and reserved stays within the amount
  the control plane issued.
\<close>

section \<open>The invariant\<close>

definition open_on :: "string \<Rightarrow> permit \<Rightarrow> bool" where
  "open_on i p \<longleftrightarrow> \<not> Done p \<and> i \<in> set (Grants p)"

definition reserved_by :: "(string, permit) gomap \<Rightarrow> string \<Rightarrow> int" where
  "reserved_by ps i = gsum (\<lambda>_ p. if open_on i p then Bound p else 0) ps"

definition pending_by :: "(string, permit) gomap \<Rightarrow> string \<Rightarrow> int" where
  "pending_by ps i = gsum (\<lambda>_ p. if open_on i p then 1 else 0) ps"

text \<open>The accounting of one grant, given what its permits hold.\<close>

definition credit_ok :: "bool \<Rightarrow> grant \<Rightarrow> bool" where
  "credit_ok poisoned g \<longleftrightarrow> Amount (Wire g) \<le> max_i64 \<and> Consumed g \<le> max_i64 \<and> Observed g \<le> Consumed g \<and>
     (Closed g \<longrightarrow> Pending g = 0) \<and> (Overrun g \<longrightarrow> poisoned) \<and>
     (\<not> Overrun g \<longrightarrow> Consumed g + Reserved g \<le> Amount (Wire g))"

definition grant_ok :: "string \<Rightarrow> bool \<Rightarrow> (string, permit) gomap \<Rightarrow> string \<Rightarrow> grant \<Rightarrow> bool" where
  "grant_ok own poisoned ps i g \<longleftrightarrow> grant_sane i g \<and> credit_ok poisoned g \<and>
     Reserved g = reserved_by ps i \<and> Pending g = pending_by ps i \<and>
     (g_Instance g \<noteq> own \<longrightarrow> Closed g \<and> Amount (Wire g) \<le> Consumed g)"

definition permit_ok :: "(string, grant) gomap \<Rightarrow> (string, meter) gomap \<Rightarrow> permit \<Rightarrow> bool" where
  "permit_ok gs ms p \<longleftrightarrow> 0 \<le> Bound p \<and> Bound p \<le> max_i64 \<and> distinct (Grants p) \<and>
     (\<forall>i\<in>set (Grants p). gget gs i \<noteq> None) \<and> (\<forall>i\<in>set (Meters p). gget ms i \<noteq> None)"

definition meter_ok :: "meter \<Rightarrow> bool" where
  "meter_ok m \<longleftrightarrow> meter_sane m \<and> am_Observed (mt_Wire m) \<le> am_Consumed (mt_Wire m)"

definition meters_ok :: "(string, meter) gomap \<Rightarrow> bool" where
  "meters_ok ms \<longleftrightarrow> gwf ms \<and> (\<forall>i m. gget ms i = Some m \<longrightarrow> meter_ok m)"

definition maps_wf :: "journal \<Rightarrow> bool" where
  "maps_wf j \<longleftrightarrow> gwf (Budgets j) \<and> gwf (jGrants j) \<and> gwf (Requests j) \<and> gwf (Permits j) \<and>
     gwf (jMeters j) \<and> gwf (Receipts j) \<and>
     (\<forall>k b. gget (Budgets j) k = Some b \<longrightarrow> ab_Key b = k)"

definition jinv :: "string \<Rightarrow> journal \<Rightarrow> bool" where
  "jinv own j \<longleftrightarrow> jVersion j = 1 \<and> maps_wf j \<and>
     (\<forall>i g. gget (jGrants j) i = Some g \<longrightarrow> grant_ok own (Poisoned j) (Permits j) i g) \<and>
     (\<forall>i m. gget (jMeters j) i = Some m \<longrightarrow> meter_ok m) \<and>
     (\<forall>i p. gget (Permits j) i = Some p \<longrightarrow> permit_ok (jGrants j) (jMeters j) p)"

lemma jinvD:
  assumes "jinv own j"
  shows "jVersion j = 1" "maps_wf j"
    "gget (jGrants j) i = Some g \<Longrightarrow> grant_ok own (Poisoned j) (Permits j) i g"
    "gget (jMeters j) k = Some m \<Longrightarrow> meter_ok m"
    "gget (Permits j) n = Some p \<Longrightarrow> permit_ok (jGrants j) (jMeters j) p"
  using assms by (auto simp: jinv_def)

lemma maps_wfD:
  assumes "maps_wf j"
  shows "gwf (Budgets j)" "gwf (jGrants j)" "gwf (Requests j)" "gwf (Permits j)" "gwf (jMeters j)"
    "gwf (Receipts j)" "gget (Budgets j) k = Some b \<Longrightarrow> ab_Key b = k"
  using assms by (auto simp: maps_wf_def)

lemmas jinv_wf = jinvD(2) [THEN maps_wfD(1)] jinvD(2) [THEN maps_wfD(2)] jinvD(2) [THEN maps_wfD(3)]
  jinvD(2) [THEN maps_wfD(4)] jinvD(2) [THEN maps_wfD(5)] jinvD(2) [THEN maps_wfD(6)]

lemma jinv_meters_ok: "jinv own j \<Longrightarrow> meters_ok (jMeters j)"
  by (simp add: meters_ok_def jinv_wf jinvD)

section \<open>Sums over permits\<close>

lemma open_on_done [simp]: "Done p \<Longrightarrow> \<not> open_on i p"
  by (simp add: open_on_def)

lemma gsum_nonneg:
  assumes "gwf m" "\<And>k v. gget m k = Some v \<Longrightarrow> 0 \<le> f k v"
  shows "0 \<le> gsum f m"
  unfolding gsum_def by (intro sum_list_nonneg) (use assms in \<open>auto simp: gget_set_iff\<close>)

lemma gsum_eq_0_entries:
  assumes "gwf m" "gsum f m = 0" "\<And>k v. gget m k = Some v \<Longrightarrow> 0 \<le> f k v" "gget m k = Some v"
  shows "f k v = 0"
  using gsum_ge_entry [OF assms(1,4), of f] assms(2,3,4) by force

text \<open>Deleting entries that contribute nothing.\<close>

lemma gsum_gdel_zero:
  "gwf m \<Longrightarrow> (\<And>v. gget m k = Some v \<Longrightarrow> f k v = 0) \<Longrightarrow> gsum f (gdel k m) = gsum f m"
  by (auto simp: gsum_gdel split: option.splits)

lemma gwf_fold_gdel: "gwf m \<Longrightarrow> gwf (fold gdel ks m)"
  by (induction ks arbitrary: m) auto

lemma gget_fold_gdel: "gget (fold gdel ks m) k = (if k \<in> set ks then None else gget m k)"
  by (induction ks arbitrary: m) (auto simp: gget_gdel)

lemma gsum_fold_gdel_zero:
  assumes "gwf m" "\<And>k v. k \<in> set ks \<Longrightarrow> gget m k = Some v \<Longrightarrow> f k v = 0"
  shows "gsum f (fold gdel ks m) = gsum f m"
  using assms
proof (induction ks arbitrary: m)
  case Nil
  then show ?case by simp
next
  case (Cons a ks)
  have "gsum f (fold gdel ks (gdel a m)) = gsum f (gdel a m)"
    by (rule Cons.IH) (use Cons.prems in \<open>auto simp: gget_gdel split: if_splits\<close>)
  also have "\<dots> = gsum f m" by (rule gsum_gdel_zero) (use Cons.prems in auto)
  finally show ?case by simp
qed

lemma pending_zero_reserved_zero:
  assumes "gwf ps" "pending_by ps i = 0"
  shows "reserved_by ps i = 0"
  unfolding reserved_by_def
proof (rule gsum_zero)
  fix k p assume "(k, p) \<in> set ps"
  then have "gget ps k = Some p" using assms(1) by (simp add: gget_set_iff)
  then have "(if open_on i p then 1 else (0::int)) = 0"
    using gsum_eq_0_entries [OF assms(1) assms(2) [unfolded pending_by_def]] by force
  then show "(if open_on i p then Bound p else 0) = 0" by (auto split: if_splits)
qed

text \<open>An unfinished permit is covered by the reservation of each of its grants.\<close>

lemma open_permit_covered:
  assumes "jinv own j" "gget (Permits j) n = Some p" "open_on i p"
  shows "Bound p \<le> reserved_by (Permits j) i" "1 \<le> pending_by (Permits j) i"
proof -
  have wf: "gwf (Permits j)" using assms(1) by (rule jinv_wf)
  have nn: "0 \<le> Bound q" if "gget (Permits j) k = Some q" for k q
    using jinvD(5) [OF assms(1) that] by (simp add: permit_ok_def)
  show "Bound p \<le> reserved_by (Permits j) i" unfolding reserved_by_def
    using gsum_ge_entry [OF wf assms(2), of "\<lambda>_ p. if open_on i p then Bound p else 0"] nn assms(3) by auto
  show "1 \<le> pending_by (Permits j) i" unfolding pending_by_def
    using gsum_ge_entry [OF wf assms(2), of "\<lambda>_ p. if open_on i p then 1 else 0"] assms(3) by auto
qed

text \<open>A grant that no permit names has nothing reserved.\<close>

lemma unnamed_grant_sums:
  assumes "jinv own j" "gget (jGrants j) i = None"
  shows "reserved_by (Permits j) i = 0" "pending_by (Permits j) i = 0"
proof -
  have "\<not> open_on i p" if "(k, p) \<in> set (Permits j)" for k p
  proof -
    have "gget (Permits j) k = Some p" using that jinv_wf(4) [OF assms(1)] by (simp add: gget_set_iff)
    from jinvD(5) [OF assms(1) this] assms(2) show ?thesis by (auto simp: permit_ok_def open_on_def)
  qed
  then show "reserved_by (Permits j) i = 0" "pending_by (Permits j) i = 0"
    unfolding reserved_by_def pending_by_def by (auto intro!: gsum_zero)
qed

section \<open>A valid journal is accepted when it is read back\<close>

lemma jinv_decode: "jinv own j \<Longrightarrow> decode j = Inr j"
proof -
  assume inv: "jinv own j"
  have "list_all (\<lambda>(i, g). grant_sane i g) (jGrants j)"
    using jinvD(3) [OF inv] jinv_wf(2) [OF inv] by (auto simp: list_all_iff gget_set_iff grant_ok_def)
  moreover have "list_all (\<lambda>(i, m). meter_sane m) (jMeters j)"
    using jinvD(4) [OF inv] jinv_wf(5) [OF inv] by (auto simp: list_all_iff gget_set_iff meter_ok_def)
  moreover have "list_all (\<lambda>(i, p). permit_sane j p) (Permits j)"
    using jinvD(5) [OF inv] jinv_wf(4) [OF inv]
    by (fastforce simp: list_all_iff gget_set_iff permit_ok_def permit_sane_def)
  ultimately show ?thesis using jinvD(1) [OF inv] by (simp add: decode_def)
qed

section \<open>Closing grants\<close>

lemma add64_Inr_iff: "add64 a b = Inr c \<longleftrightarrow> 0 \<le> a \<and> 0 \<le> b \<and> a \<le> wrap64 (max_i64 - b) \<and> c = a + b"
  by (auto simp: add64_def)

lemma add64_InrD:
  assumes "add64 a b = Inr c" "b \<le> max_i64"
  shows "c = a + b" "0 \<le> a" "0 \<le> b" "c \<le> max_i64"
proof -
  have "wrap64 (max_i64 - b) = max_i64 - b" if "0 \<le> b"
    using that assms(2) by (simp add: wrap64_diff_nonneg)
  then show "c = a + b" "0 \<le> a" "0 \<le> b" "c \<le> max_i64" using assms(1) by (auto simp: add64_Inr_iff)
qed

lemma bump_Inr_iff: "bump a = Inr c \<longleftrightarrow> 0 \<le> a \<and> a < max_i64 \<and> c = a + 1"
  by (auto simp: bump_def add64_Inr_iff wrap64_diff_nonneg)

lemma closeGrant_cases:
  assumes "closeGrant g = Inr g'"
  shows "g' = g \<or> (\<not> Closed g \<and> Pending g = 0 \<and> Reserved g = 0 \<and> Sequence g < max_i64 \<and>
           g' = g\<lparr>Closed := True, Sequence := Sequence g + 1\<rparr>)"
  using assms by (auto simp: closeGrant_def bump_Inr_iff split: if_splits elim!: rbind_InrE)

lemma closeGrant_closed: "closeGrant g = Inr g' \<Longrightarrow> Closed g'"
  by (auto simp: closeGrant_def split: if_splits elim!: rbind_InrE)

lemma grant_ok_close:
  assumes "grant_ok own po ps i g" "closeGrant g = Inr g'"
  shows "grant_ok own po ps i g'"
  using closeGrant_cases [OF assms(2)] assms(1) by (auto simp: grant_ok_def grant_sane_def credit_ok_def)

text \<open>What closing leaves alone: the wire grant and everything that is accounted.\<close>

definition same_account :: "grant \<Rightarrow> grant \<Rightarrow> bool" where
  "same_account g g' \<longleftrightarrow> Wire g' = Wire g \<and> g_Instance g' = g_Instance g \<and> Consumed g' = Consumed g \<and>
     Observed g' = Observed g \<and> Reserved g' = Reserved g \<and> Pending g' = Pending g \<and> Overrun g' = Overrun g \<and>
     (Closed g \<longrightarrow> Closed g') \<and> (Closed g' \<longrightarrow> Closed g \<or> Pending g = 0)"

lemma same_account_refl [simp]: "same_account g g"
  by (simp add: same_account_def)

lemma same_account_trans: "same_account a b \<Longrightarrow> same_account b c \<Longrightarrow> same_account a c"
  unfolding same_account_def by (elim conjE) (intro conjI; simp; argo)

lemma same_account_close: "closeGrant g = Inr g' \<Longrightarrow> same_account g g'"
  using closeGrant_cases by (force simp: same_account_def)

definition same_accounts :: "(string, grant) gomap \<Rightarrow> (string, grant) gomap \<Rightarrow> bool" where
  "same_accounts gs gs' \<longleftrightarrow> (\<forall>i. rel_option same_account (gget gs i) (gget gs' i))"

lemma same_accountsD:
  assumes "same_accounts gs gs'"
  shows "gget gs i = Some g \<Longrightarrow> \<exists>g'. gget gs' i = Some g' \<and> same_account g g'"
    "gget gs' i = Some g' \<Longrightarrow> \<exists>g. gget gs i = Some g \<and> same_account g g'"
    "gget gs' i = None \<longleftrightarrow> gget gs i = None"
  using assms[unfolded same_accounts_def, rule_format, of i]
  by (cases "gget gs i"; cases "gget gs' i"; auto)+

lemma same_accounts_refl [simp]: "same_accounts gs gs"
  by (simp add: same_accounts_def option.rel_refl)

lemma same_accounts_trans:
  assumes "same_accounts a b" "same_accounts b c"
  shows "same_accounts a c"
  unfolding same_accounts_def
proof
  fix i
  show "rel_option same_account (gget a i) (gget c i)"
    using assms [unfolded same_accounts_def, rule_format, of i]
    by (cases "gget a i"; cases "gget b i"; cases "gget c i") (auto intro: same_account_trans)
qed

lemma same_accounts_gput:
  "gget gs i = Some g \<Longrightarrow> same_account g g' \<Longrightarrow> same_accounts gs (gput i g' gs)"
  by (simp add: same_accounts_def gget_gput option.rel_refl)

text \<open>Replacing the grants of a journal.\<close>

lemma jinv_grants:
  assumes "jinv own j" "gwf gs" "\<And>i. gget gs i = None \<longleftrightarrow> gget (jGrants j) i = None"
    and "\<And>i g. gget gs i = Some g \<Longrightarrow> grant_ok own (Poisoned j) (Permits j) i g"
  shows "jinv own (j\<lparr>jGrants := gs\<rparr>)"
  using assms by (auto simp: jinv_def maps_wf_def permit_ok_def)

lemma jinv_gput_grant:
  assumes "jinv own j" "gget (jGrants j) i = Some g" "grant_ok own (Poisoned j) (Permits j) i g'"
  shows "jinv own (j\<lparr>jGrants := gput i g' (jGrants j)\<rparr>)"
proof (rule jinv_grants [OF assms(1)])
  show "gwf (gput i g' (jGrants j))" using jinv_wf(2) [OF assms(1)] by simp
qed (use assms jinvD(3) [OF assms(1)] in \<open>auto simp: gget_gput split: if_splits\<close>)

lemma gmapM_same_accounts:
  assumes m: "gmapM f gs = Inr gs'" and wf: "gwf gs"
    and f: "\<And>i g g'. gget gs i = Some g \<Longrightarrow> f i g = Inr g' \<Longrightarrow> g' = g \<or> closeGrant g = Inr g'"
  shows "gwf gs'" "same_accounts gs gs'"
    "(\<And>i g. gget gs i = Some g \<Longrightarrow> grant_ok own po ps i g) \<Longrightarrow> gget gs' i = Some g' \<Longrightarrow> grant_ok own po ps i g'"
proof -
  show "gwf gs'" using gmapM_gmapv [OF m] wf by simp
  show "same_accounts gs gs'" unfolding same_accounts_def
  proof
    fix i
    show "rel_option same_account (gget gs i) (gget gs' i)"
    proof (cases "gget gs i")
      case None
      then show ?thesis using gmapM_gget_rev [OF m, of i] by (cases "gget gs' i") auto
    next
      case (Some g)
      then obtain g' where "f i g = Inr g'" "gget gs' i = Some g'" using gmapM_gget [OF m] by blast
      then show ?thesis using f [OF Some] Some by (auto dest: same_account_close)
    qed
  qed
  assume ok: "\<And>i g. gget gs i = Some g \<Longrightarrow> grant_ok own po ps i g" and g': "gget gs' i = Some g'"
  from gmapM_gget_rev [OF m g'] obtain g where "f i g = Inr g'" "gget gs i = Some g" by blast
  then show "grant_ok own po ps i g'" using f ok by (metis grant_ok_close)
qed

lemma closeInactive_frame:
  assumes "closeInactive s j now = Inr j'"
  shows "Permits j' = Permits j" "Budgets j' = Budgets j" "jMeters j' = jMeters j" "Poisoned j' = Poisoned j"
    "Requests j' = Requests j" "Ready j' = Ready j" "ServerTime j' = ServerTime j" "Receipts j' = Receipts j"
    "Completed j' = Completed j" "ReceiptOrder j' = ReceiptOrder j"
  using assms by (auto simp: closeInactive_def elim!: rbind_InrE)

lemma closeInactive_jinv:
  assumes "jinv own j" "closeInactive s j now = Inr j'"
  shows "jinv own j'" "same_accounts (jGrants j) (jGrants j')" "j' = j\<lparr>jGrants := jGrants j'\<rparr>"
proof -
  let ?f = "\<lambda>_ g. if Closed g \<or> Pending g \<noteq> 0 then Inr g
                  else if inactive s j now g then closeGrant g else Inr g"
  from assms(2) obtain gs where gs: "gmapM ?f (jGrants j) = Inr gs" and j': "j' = j\<lparr>jGrants := gs\<rparr>"
    unfolding closeInactive_def by (auto elim!: rbind_InrE)
  have step: "g' = g \<or> closeGrant g = Inr g'" if "?f i g = Inr g'" for i :: string and g g'
    using that by (auto split: if_splits)
  note keep = gmapM_same_accounts [OF gs jinv_wf(2) [OF assms(1)] step]
  show same: "same_accounts (jGrants j) (jGrants j')" using keep(2) j' by simp
  show "j' = j\<lparr>jGrants := jGrants j'\<rparr>" using j' by simp
  show "jinv own j'" unfolding j'
    by (rule jinv_grants [OF assms(1) keep(1)])
      (use same_accountsD(3) [OF same] j' keep(3) jinvD(3) [OF assms(1)] in auto)
qed

end
