(* ===== verification/Authority_Collect.thy ===== *)
theory Authority_Collect
  imports Authority_Invariant
begin

text \<open>
  Collection (\<open>src/internal/authority/local/gc.go\<close>) keeps the journal invariant: it forgets
  finished permits, finalised grants and old meters, but no unfinished permit, no grant or
  meter that an unfinished permit names, and no grant whose final report the control plane
  has not acknowledged.
\<close>

section \<open>Receipts\<close>

lemma gwf_drop_receipts: "gwf rs \<Longrightarrow> gwf (snd (drop_receipts os rs))"
  by (induction os rs rule: drop_receipts.induct) simp_all

lemma length_drop_receipts: "length (fst (drop_receipts os rs)) \<le> replayReceiptLimit"
  by (induction os rs rule: drop_receipts.induct) (simp_all add: replayReceiptLimit_def)

lemma remember_simps [simp]:
  "jGrants (remember i r j) = jGrants j" "Permits (remember i r j) = Permits j"
  "jMeters (remember i r j) = jMeters j" "Requests (remember i r j) = Requests j"
  "Budgets (remember i r j) = Budgets j" "Poisoned (remember i r j) = Poisoned j"
  "jVersion (remember i r j) = jVersion j" "Ready (remember i r j) = Ready j"
  "ServerTime (remember i r j) = ServerTime j" "Completed (remember i r j) = Completed j"
  "ObsoleteRequests (remember i r j) = ObsoleteRequests j"
  by (simp_all add: remember_def Let_def split: prod.split)

lemma gwf_remember: "gwf (Receipts j) \<Longrightarrow> gwf (Receipts (remember i r j))"
  using gwf_drop_receipts [of "gput i r (Receipts j)"]
  by (auto simp: remember_def Let_def split: prod.splits) (metis snd_conv)+

lemma jinv_remember: "jinv own j \<Longrightarrow> jinv own (remember i r j)"
  by (simp add: jinv_def maps_wf_def gwf_remember)

section \<open>Finished permits\<close>

lemma known_order_done:
  "i \<in> set (known_order ps ks sn) \<Longrightarrow> \<exists>p. gget ps i = Some p \<and> Done p"
  by (induction ks arbitrary: sn) (auto split: option.splits if_splits)

lemma completed_order_done:
  "i \<in> set (completed_order j) \<Longrightarrow> \<exists>p. gget (Permits j) i = Some p \<and> Done p"
  by (auto simp: completed_order_def Let_def dest: known_order_done split: option.splits)

text \<open>The permits after their collection.\<close>

definition forgotten :: "journal \<Rightarrow> string list" where
  "forgotten j = take (length (completed_order j) - completedReceiptLimit) (completed_order j)"

definition emptied :: "permit \<Rightarrow> permit" where
  "emptied p = (if Done p then p\<lparr>Grants := [], Meters := []\<rparr> else p)"

lemma Permits_collect_permits:
  "Permits (collect_permits j) = fold gdel (forgotten j) (gmapv (\<lambda>_ p. emptied p) (Permits j))"
  by (simp add: collect_permits_def forgotten_def emptied_def Let_def)

lemma forgotten_done: "i \<in> set (forgotten j) \<Longrightarrow> \<exists>p. gget (Permits j) i = Some p \<and> Done p"
  unfolding forgotten_def using completed_order_done in_set_takeD by metis

lemma gget_collect_permits:
  "gget (Permits (collect_permits j)) i =
     (if i \<in> set (forgotten j) then None else map_option emptied (gget (Permits j) i))"
  by (simp add: Permits_collect_permits gget_fold_gdel gget_gmapv)

lemma open_on_emptied [simp]: "open_on i (emptied p) = open_on i p"
  by (simp add: open_on_def emptied_def)

lemma Done_emptied [simp]: "Done (emptied p) = Done p" "Bound (emptied p) = Bound p"
  by (simp_all add: emptied_def)

lemma sums_collect_permits:
  assumes "gwf (Permits j)"
  shows "reserved_by (Permits (collect_permits j)) i = reserved_by (Permits j) i"
    "pending_by (Permits (collect_permits j)) i = pending_by (Permits j) i"
proof -
  have "gsum (\<lambda>_ p. if open_on i p then f p else (0::int)) (Permits (collect_permits j)) =
        gsum (\<lambda>_ p. if open_on i p then f (emptied p) else 0) (Permits j)" for f :: "permit \<Rightarrow> int"
    unfolding Permits_collect_permits
    by (subst gsum_fold_gdel_zero)
      (use assms forgotten_done in \<open>force simp: gsum_gmapv gget_gmapv\<close>)+
  note this [of Bound] this [of "\<lambda>_. 1"]
  then show "reserved_by (Permits (collect_permits j)) i = reserved_by (Permits j) i"
    "pending_by (Permits (collect_permits j)) i = pending_by (Permits j) i"
    by (simp_all add: reserved_by_def pending_by_def cong: if_cong)
qed

lemma collect_permits_simps [simp]:
  "jGrants (collect_permits j) = jGrants j" "jMeters (collect_permits j) = jMeters j"
  "Requests (collect_permits j) = Requests j" "Budgets (collect_permits j) = Budgets j"
  "Receipts (collect_permits j) = Receipts j" "Poisoned (collect_permits j) = Poisoned j"
  "jVersion (collect_permits j) = jVersion j" "Ready (collect_permits j) = Ready j"
  "ServerTime (collect_permits j) = ServerTime j"
  "ObsoleteRequests (collect_permits j) = ObsoleteRequests j"
  by (simp_all add: collect_permits_def Let_def)

lemma jinv_collect_permits:
  assumes "jinv own j"
  shows "jinv own (collect_permits j)"
proof -
  have wf: "gwf (Permits j)" using assms by (rule jinv_wf)
  have "gwf (Permits (collect_permits j))"
    using wf by (simp add: Permits_collect_permits gwf_fold_gdel)
  moreover have "permit_ok gs ms (emptied p)" if "permit_ok gs ms p" for gs ms p
    using that by (auto simp: permit_ok_def emptied_def)
  ultimately show ?thesis
    using assms sums_collect_permits [OF wf]
    by (auto simp: jinv_def maps_wf_def grant_ok_def gget_collect_permits split: if_splits)
qed

section \<open>Finalised grants and old meters\<close>

definition collecting :: "string \<Rightarrow> string list \<Rightarrow> string list \<Rightarrow> journal \<Rightarrow> bool" where
  "collecting own pg pms j \<longleftrightarrow> jinv own j \<and>
     (\<forall>n p. gget (Permits j) n = Some p \<longrightarrow> set (Grants p) \<subseteq> set pg \<and> set (Meters p) \<subseteq> set pms)"

lemma in_pendingGrants:
  assumes "gget (Permits j) n = Some p" "\<not> Done p"
  shows "set (Grants p) \<subseteq> set (pendingGrants j)" "set (Meters p) \<subseteq> set (pendingMeters j)"
  using gget_in_set [OF assms(1)] assms(2) by (force simp: pendingGrants_def pendingMeters_def)+

lemma collecting_start:
  assumes "jinv own j"
  shows "collecting own (pendingGrants j) (pendingMeters j) (collect_permits j)"
proof -
  have "set (Grants p) \<subseteq> set (pendingGrants j) \<and> set (Meters p) \<subseteq> set (pendingMeters j)"
    if "gget (Permits (collect_permits j)) n = Some p" for n p
  proof -
    from that obtain q where q: "gget (Permits j) n = Some q" "p = emptied q"
      by (auto simp: gget_collect_permits split: if_splits)
    show ?thesis
      using in_pendingGrants [OF q(1)] q(2) by (cases "Done q") (auto simp: emptied_def)
  qed
  then show ?thesis using jinv_collect_permits [OF assms] by (auto simp: collecting_def)
qed

lemma collecting_remember: "collecting own pg pms j \<Longrightarrow> collecting own pg pms (remember i r j)"
  by (simp add: collecting_def jinv_remember)

lemma collecting_drop_grant:
  assumes "collecting own pg pms j" "i \<notin> set pg"
  shows "collecting own pg pms (j\<lparr>Requests := gdel r (Requests j), jGrants := gdel i (jGrants j)\<rparr>)"
  using assms unfolding collecting_def jinv_def maps_wf_def permit_ok_def
  by (auto simp: gget_gdel split: if_splits) blast+

lemma collecting_drop_meter:
  assumes "collecting own pg pms j" "i \<notin> set pms"
  shows "collecting own pg pms (j\<lparr>jMeters := gdel i (jMeters j)\<rparr>)"
  using assms unfolding collecting_def jinv_def maps_wf_def permit_ok_def
  by (auto simp: gget_gdel split: if_splits) blast+

lemma collecting_grant:
  assumes "collecting own pg pms j"
  shows "collecting own pg pms (collect_grant cd pg i j)"
  using assms collecting_drop_grant [OF collecting_remember [OF assms], of i]
  by (auto simp: collect_grant_def Let_def split: option.splits)

lemma collecting_meter:
  assumes "collecting own pg pms j"
  shows "collecting own pg pms (collect_meter cd inst' pms i j)"
  using assms collecting_drop_meter [OF collecting_remember [OF assms], of i]
  by (auto simp: collect_meter_def Let_def split: option.splits)

lemma collecting_folds:
  assumes "collecting own pg pms j"
  shows "collecting own pg pms (fold (collect_grant cd pg) xs j)"
    "collecting own pg pms (fold (collect_meter cd inst' pms) ys j)"
  by (rule fold_invariant [where Q = "\<lambda>_. True"]; use assms collecting_grant collecting_meter in auto)+

section \<open>Obsolete requests\<close>

lemma jinv_requests: "jinv own j \<Longrightarrow> gwf rs \<Longrightarrow> jinv own (j\<lparr>Requests := rs, ObsoleteRequests := os\<rparr>)"
  by (simp add: jinv_def maps_wf_def)

lemma jinv_collectObsoleteRequests: "jinv own j \<Longrightarrow> jinv own (collectObsoleteRequests j)"
  unfolding collectObsoleteRequests_def Let_def
  by (auto intro!: jinv_requests gwf_fold_gdel dest: jinv_wf(3) split: prod.split)

text \<open>The whole collection.\<close>

lemma jinv_collect:
  assumes "jinv own j"
  shows "jinv own (collect cd inst' j)"
  unfolding collect_def Let_def
  by (intro jinv_collectObsoleteRequests)
    (use collecting_folds [OF collecting_folds(1) [OF collecting_start [OF assms]]] in
      \<open>simp add: collecting_def\<close>)

section \<open>What collection keeps\<close>

lemma collectObsolete_simps [simp]:
  "jGrants (collectObsoleteRequests j) = jGrants j" "Permits (collectObsoleteRequests j) = Permits j"
  "jMeters (collectObsoleteRequests j) = jMeters j" "Budgets (collectObsoleteRequests j) = Budgets j"
  "Poisoned (collectObsoleteRequests j) = Poisoned j" "Ready (collectObsoleteRequests j) = Ready j"
  "ServerTime (collectObsoleteRequests j) = ServerTime j"
  by (simp_all add: collectObsoleteRequests_def Let_def split: prod.split)

lemma collect_grant_simps [simp]:
  "Permits (collect_grant cd pg i j) = Permits j" "jMeters (collect_grant cd pg i j) = jMeters j"
  "Budgets (collect_grant cd pg i j) = Budgets j" "Poisoned (collect_grant cd pg i j) = Poisoned j"
  "Ready (collect_grant cd pg i j) = Ready j" "ServerTime (collect_grant cd pg i j) = ServerTime j"
  by (simp_all add: collect_grant_def Let_def split: option.split)

lemma collect_meter_simps [simp]:
  "Permits (collect_meter cd inst' pms i j) = Permits j" "jGrants (collect_meter cd inst' pms i j) = jGrants j"
  "Budgets (collect_meter cd inst' pms i j) = Budgets j" "Poisoned (collect_meter cd inst' pms i j) = Poisoned j"
  "Ready (collect_meter cd inst' pms i j) = Ready j" "ServerTime (collect_meter cd inst' pms i j) = ServerTime j"
  by (simp_all add: collect_meter_def Let_def split: option.split)

lemma fold_keeps: "(\<And>x s. F (f x s) = F s) \<Longrightarrow> F (fold f xs s) = F s"
  by (induction xs arbitrary: s) simp_all

lemma collect_simps [simp]:
  "Permits (collect cd inst' j) = Permits (collect_permits j)" "Budgets (collect cd inst' j) = Budgets j"
  "Poisoned (collect cd inst' j) = Poisoned j" "Ready (collect cd inst' j) = Ready j"
  "ServerTime (collect cd inst' j) = ServerTime j"
  by (simp_all add: collect_def Let_def fold_keeps)

text \<open>A grant leaves the journal only when it is closed, settled and acknowledged.\<close>

definition finalised :: "grant \<Rightarrow> bool" where
  "finalised g \<longleftrightarrow> Closed g \<and> Pending g = 0 \<and> Reserved g = 0 \<and> Ack g = Sequence g"

lemma collect_grant_gget:
  "gget (jGrants (collect_grant cd pg i j)) k =
     (if k = i \<and> (\<exists>g. gget (jGrants j) i = Some g \<and> finalised g \<and> i \<notin> set pg) then None
      else gget (jGrants j) k)"
  by (auto simp: collect_grant_def Let_def finalised_def gget_gdel split: option.splits)

lemma fold_collect_grant_gget:
  "gget (jGrants (fold (collect_grant cd pg) xs j)) k =
     (if k \<in> set xs \<and> (\<exists>g. gget (jGrants j) k = Some g \<and> finalised g \<and> k \<notin> set pg) then None
      else gget (jGrants j) k)"
  by (induction xs arbitrary: j) (auto simp: collect_grant_gget)

lemma gget_collect_grants:
  "gget (jGrants (collect cd inst' j)) k =
     (case gget (jGrants j) k of None \<Rightarrow> None
      | Some g \<Rightarrow> if finalised g \<and> k \<notin> set (pendingGrants j) then None else Some g)"
  by (auto simp: collect_def Let_def fold_keeps [where F = jGrants, OF collect_meter_simps(2)]
        fold_collect_grant_gget gget_None_iff split: option.split dest: gget_in_set)
     (force dest: gget_in_set)+

lemma gget_collect_open_permit:
  assumes "gget (Permits j) n = Some p" "\<not> Done p"
  shows "gget (Permits (collect cd inst' j)) n = Some p"
  using assms forgotten_done [of n j] by (auto simp: gget_collect_permits emptied_def)

section \<open>Bounds on history\<close>

lemma completed_order_complete:
  "gget (Permits j) i = Some p \<Longrightarrow> Done p \<Longrightarrow> i \<in> set (completed_order j)"
  by (auto simp: completed_order_def Let_def gget_None_iff dest: gget_in_set) (force dest: gget_in_set)+

lemma in_set_take_drop: "x \<in> set xs \<Longrightarrow> x \<notin> set (take n xs) \<Longrightarrow> x \<in> set (drop n xs)"
  by (metis Un_iff append_take_drop_id set_append)

lemma card_subset_list: "A \<subseteq> set xs \<Longrightarrow> length xs \<le> n \<Longrightarrow> card A \<le> n"
  by (meson List.finite_set card_length card_mono order_trans)

lemma finished_permits_bounded:
  "card {n. \<exists>p. gget (Permits (collect cd own j)) n = Some p \<and> Done p} \<le> completedReceiptLimit"
proof (rule card_subset_list)
  let ?n = "length (completed_order j) - completedReceiptLimit"
  show "{n. \<exists>p. gget (Permits (collect cd own j)) n = Some p \<and> Done p} \<subseteq> set (drop ?n (completed_order j))"
  proof
    fix n assume "n \<in> {n. \<exists>p. gget (Permits (collect cd own j)) n = Some p \<and> Done p}"
    then obtain q where "gget (Permits j) n = Some q" "Done q" "n \<notin> set (forgotten j)"
      by (auto simp: gget_collect_permits split: if_splits)
    then show "n \<in> set (drop ?n (completed_order j))"
      using completed_order_complete by (intro in_set_take_drop) (auto simp: forgotten_def)
  qed
qed simp

lemma take_remaining_complete:
  "take_remaining ks rem = (os, rest) \<Longrightarrow> gget rem k \<noteq> None \<Longrightarrow> k \<in> set os \<or> gget rest k \<noteq> None"
proof (induction ks rem arbitrary: os rest rule: take_remaining.induct)
  case (1 rem)
  then show ?case by simp
next
  case (2 i ks rem)
  show ?case
  proof (cases "gget rem i")
    case None
    then show ?thesis using 2 by simp
  next
    case (Some v)
    then obtain os' where os': "take_remaining ks (gdel i rem) = (os', rest)" "os = i # os'"
      using 2(3) by (auto split: prod.splits)
    then show ?thesis using 2(1) [OF _ os'(1)] 2(4) Some by (cases "k = i") (simp_all add: gget_gdel)
  qed
qed

lemma obsolete_requests_bounded:
  assumes "gwf (Requests j)"
  shows "card {n. \<exists>r. gget (Requests (collectObsoleteRequests j)) n = Some r \<and> obsolete_open r} \<le> obsoleteRequestLimit"
proof -
  let ?kept = "gfilter (\<lambda>_ r. \<not> droppable j r) (Requests j)"
  obtain old rest where tr: "take_remaining (ObsoleteRequests j) (gfilter (\<lambda>_ r. obsolete_open r) ?kept) = (old, rest)"
    by force
  let ?order = "old @ sortedKeys rest"
  let ?n = "length ?order - obsoleteRequestLimit"
  have rs: "Requests (collectObsoleteRequests j) = fold gdel (take ?n ?order) ?kept"
    by (simp add: collectObsoleteRequests_def Let_def tr)
  have "n \<in> set (drop ?n ?order)"
    if n: "gget (Requests (collectObsoleteRequests j)) n = Some r" "obsolete_open r" for n r
  proof (rule in_set_take_drop)
    have k: "gget ?kept n = Some r" "n \<notin> set (take ?n ?order)" using n(1) by (auto simp: rs gget_fold_gdel split: if_splits)
    then show "n \<notin> set (take ?n ?order)" by simp
    have "gget (gfilter (\<lambda>_ r. obsolete_open r) ?kept) n \<noteq> None"
      using k(1) n(2) assms by (simp add: gget_gfilter)
    from take_remaining_complete [OF tr this] show "n \<in> set ?order" by (auto simp: gget_None_iff)
  qed
  then show ?thesis by (intro card_subset_list [of _ "drop ?n ?order"]) auto
qed

end
