(* ===== verification/Authority_Reserve.thy ===== *)
theory Authority_Reserve
  imports Authority_Collect
begin

text \<open>
  What the reserving transaction does to a journal that satisfies the invariant: the loop
  over the budgets chooses at most one grant per matching hard budget, distinct ones with
  enough room, and a success reserves the bound on exactly these.
\<close>

section \<open>Choosing a grant\<close>

lemma usable_available:
  assumes "usable s g b now" "grant_ok own po ps i g"
  shows "available g = Amount (Wire g) - Consumed g - Reserved g"
proof -
  have b: "0 \<le> Consumed g" "Consumed g \<le> Amount (Wire g)" "Amount (Wire g) \<le> max_i64" "0 \<le> Reserved g"
    using assms by (auto simp: usable_def grant_ok_def grant_sane_def credit_ok_def)
  then have w: "wrap64 (Amount (Wire g) - Consumed g) = Amount (Wire g) - Consumed g"
    by (intro wrap64_diff_nonneg) auto
  moreover have "Reserved g \<le> Amount (Wire g) - Consumed g" using assms(1) w by (simp add: usable_def)
  ultimately show ?thesis using b by (simp add: available_def wrap64_diff_nonneg)
qed

definition grants_ok :: "string \<Rightarrow> bool \<Rightarrow> (string, permit) gomap \<Rightarrow> (string, grant) gomap \<Rightarrow> bool" where
  "grants_ok own po ps gs \<longleftrightarrow> gwf gs \<and> (\<forall>i g. gget gs i = Some g \<longrightarrow> grant_ok own po ps i g)"

lemma jinv_grants_ok: "jinv own j \<Longrightarrow> grants_ok own (Poisoned j) (Permits j) (jGrants j)"
  by (simp add: grants_ok_def jinv_wf jinvD)

lemma grants_ok_close:
  assumes "grants_ok own po ps gs" "gget gs i = Some g" "closeGrant g = Inr g'"
  shows "grants_ok own po ps (gput i g' gs)" "same_accounts gs (gput i g' gs)"
  using assms grant_ok_close [OF _ assms(3)] same_accounts_gput [OF assms(2)] same_account_close
  by (auto simp: grants_ok_def gget_gput)

text \<open>A grant that fits the bound for a budget.\<close>

definition fits :: "Store \<Rightarrow> AuthorityBudget \<Rightarrow> i64 \<Rightarrow> gotime \<Rightarrow> grant \<Rightarrow> bool" where
  "fits s b bound now g \<longleftrightarrow> usable s g b now \<and> 0 < available g \<and> bound \<le> available g"

definition only_key :: "string \<Rightarrow> (string, grant) gomap \<Rightarrow> (string, grant) gomap \<Rightarrow> bool" where
  "only_key k gs gs' \<longleftrightarrow> (\<forall>i g. gget gs i = Some g \<longrightarrow> ag_Key (Wire g) \<noteq> k \<longrightarrow> gget gs' i = Some g)"

lemma only_key_step:
  assumes "gget gs i = Some g" "ag_Key (Wire g) = k" "only_key k (gput i g' gs) gs'"
  shows "only_key k gs gs'"
  using assms unfolding only_key_def by (metis gget_gput option.inject)

lemma pick_grant_ok:
  assumes "pick_grant s b bound now is gs = Inr (gs', found)" "grants_ok own po ps gs"
  shows "grants_ok own po ps gs' \<and> same_accounts gs gs' \<and> only_key (ab_Key b) gs gs' \<and>
    (found \<noteq> '''' \<longrightarrow> (\<exists>g. gget gs' found = Some g \<and> fits s b bound now g))"
  using assms
proof (induction s b bound now "is" gs rule: pick_grant.induct)
  case (1 s b bound now gs)
  then show ?case by (simp add: only_key_def)
next
  case (2 s b bound now i "is" gs)
  show ?case
  proof (cases "gget gs i")
    case None
    then show ?thesis using 2 by simp
  next
    case (Some g)
    note g = this
    consider "\<not> usable s g b now" | "fits s b bound now g"
      | "usable s g b now" "\<not> fits s b bound now g" "Pending g = 0"
      | "usable s g b now" "\<not> fits s b bound now g" "Pending g \<noteq> 0" by (auto simp: fits_def)
    then show ?thesis
    proof cases
      case 3
      with 2(5) g obtain g' where g': "closeGrant g = Inr g'"
        and rest: "pick_grant s b bound now is (gput i g' gs) = Inr (gs', found)"
        by (auto simp: fits_def elim!: rbind_InrE)
      note c = grants_ok_close [OF 2(6) g g']
      have "ag_Key (Wire g) = ab_Key b" using 3(1) by (simp add: usable_def)
      then show ?thesis
        using 2(3) [OF g _ _ _ rest c(1)] 3 same_accounts_trans [OF c(2)] only_key_step [OF g]
        by (auto simp: fits_def)
    qed (use 2 g in \<open>auto simp: fits_def only_key_def\<close>)
  qed
qed

section \<open>Queueing\<close>

lemma queue_ok:
  assumes "queue s j b bound ns = Inr (ex, j', ns')" "gwf (Requests j)"
  shows "j' = j\<lparr>Requests := Requests j'\<rparr>" "gwf (Requests j')" "set ns' \<subseteq> set ns"
  using assms by (auto simp: queue_def Let_def split: queue_scan.splits list.splits option.splits)

section \<open>The loop over the budgets\<close>

text \<open>
  What holds after the budgets in \<open>ks\<close>. The journal differs from the one the loop started
  with only in closed grants and queued requests. Every chosen grant belongs to one matching
  hard budget of \<open>ks\<close> and fits; without a denial every matching budget of \<open>ks\<close> is served.
\<close>

definition for_budget :: "Store \<Rightarrow> Subject \<Rightarrow> i64 \<Rightarrow> gotime \<Rightarrow> string list \<Rightarrow> journal \<Rightarrow> grant \<Rightarrow> bool" where
  "for_budget s subject bound now ks j g \<longleftrightarrow> ag_Key (Wire g) \<in> set ks \<and>
     (\<exists>b. gget (Budgets j) (ag_Key (Wire g)) = Some b \<and> matches b subject \<and> HardCap b \<and> fits s b bound now g)"

definition served :: "Store \<Rightarrow> Subject \<Rightarrow> gotime \<Rightarrow> string \<Rightarrow> rloop \<Rightarrow> bool" where
  "served s subject now k l \<longleftrightarrow>
     (case gget (Budgets (lj l)) k of
        None \<Rightarrow> True
      | Some b \<Rightarrow> matches b subject \<longrightarrow> now < time_at (windows s) k \<and> expires l \<noteq> 0 \<and>
          expires l \<le> time_at (windows s) k \<and>
          (if HardCap b
           then (\<exists>i\<in>set (chosen l). \<exists>g. gget (jGrants (lj l)) i = Some g \<and> ag_Key (Wire g) = k \<and>
                   expires l \<le> time_at (deadlines s) i)
           else b \<in> set (soft l)))"

definition loop_ok :: "string \<Rightarrow> Store \<Rightarrow> Subject \<Rightarrow> i64 \<Rightarrow> gotime \<Rightarrow> string list \<Rightarrow> journal \<Rightarrow> string list \<Rightarrow> rloop \<Rightarrow> bool" where
  "loop_ok own s subject bound now ns j ks l \<longleftrightarrow> jinv own (lj l) \<and>
     lj l = j\<lparr>jGrants := jGrants (lj l), Requests := Requests (lj l)\<rparr> \<and>
     same_accounts (jGrants j) (jGrants (lj l)) \<and> set (nonces l) \<subseteq> set ns \<and> distinct (chosen l) \<and>
     (\<forall>i\<in>set (chosen l). \<exists>g. gget (jGrants (lj l)) i = Some g \<and> for_budget s subject bound now ks (lj l) g) \<and>
     (\<forall>b\<in>set (soft l). gget (Budgets j) (ab_Key b) = Some b \<and> \<not> HardCap b) \<and>
     (denied l = None \<longrightarrow> (\<forall>k\<in>set ks. served s subject now k l))"

lemma loop_okD:
  assumes "loop_ok own s subject bound now ns j ks l"
  shows "jinv own (lj l)" "lj l = j\<lparr>jGrants := jGrants (lj l), Requests := Requests (lj l)\<rparr>"
    "same_accounts (jGrants j) (jGrants (lj l))" "set (nonces l) \<subseteq> set ns" "distinct (chosen l)"
    "i \<in> set (chosen l) \<Longrightarrow> \<exists>g. gget (jGrants (lj l)) i = Some g \<and> for_budget s subject bound now ks (lj l) g"
    "denied l = None \<Longrightarrow> k \<in> set ks \<Longrightarrow> served s subject now k l"
    "b \<in> set (soft l) \<Longrightarrow> gget (Budgets j) (ab_Key b) = Some b \<and> \<not> HardCap b"
  using assms by (auto simp: loop_ok_def)

lemma loop_frame:
  assumes "loop_ok own s subject bound now ns j ks l"
  shows "Permits (lj l) = Permits j" "Budgets (lj l) = Budgets j" "jMeters (lj l) = jMeters j"
    "Poisoned (lj l) = Poisoned j"
  using arg_cong [OF loop_okD(2) [OF assms], of Permits] arg_cong [OF loop_okD(2) [OF assms], of Budgets]
    arg_cong [OF loop_okD(2) [OF assms], of jMeters] arg_cong [OF loop_okD(2) [OF assms], of Poisoned]
  by simp_all

lemma earlier_props:
  "0 \<le> now \<Longrightarrow> now < b \<Longrightarrow> earlier a b \<noteq> 0 \<and> earlier a b \<le> b \<and> (a \<noteq> 0 \<longrightarrow> earlier a b \<le> a)"
  by (auto simp: earlier_def)

lemma for_budget_mono: "for_budget s subject bound now ks j g \<Longrightarrow> for_budget s subject bound now (ks @ [k]) j g"
  by (auto simp: for_budget_def)

text \<open>A smaller expiry and more choices keep a budget served.\<close>

lemma served_mono:
  assumes "served s subject now k l" "Budgets (lj l') = Budgets (lj l)"
    "expires l \<noteq> 0 \<longrightarrow> expires l' \<noteq> 0 \<and> expires l' \<le> expires l"
    "set (chosen l) \<subseteq> set (chosen l')" "set (soft l) \<subseteq> set (soft l')"
    "same_accounts (jGrants (lj l)) (jGrants (lj l'))"
  shows "served s subject now k l'"
proof (cases "gget (Budgets (lj l)) k")
  case None
  then show ?thesis using assms(2) by (simp add: served_def)
next
  case (Some b)
  have grant: "\<exists>g'. gget (jGrants (lj l')) i = Some g' \<and> ag_Key (Wire g') = ag_Key (Wire g)"
    if "gget (jGrants (lj l)) i = Some g" for i g
    using same_accountsD(1) [OF assms(6) that] by (auto simp: same_account_def)
  show ?thesis
  proof (cases "matches b subject")
    case True
    with assms(1) Some have old: "now < time_at (windows s) k" "expires l \<noteq> 0" "expires l \<le> time_at (windows s) k"
      by (auto simp: served_def)
    have new: "expires l' \<noteq> 0" "expires l' \<le> expires l" using assms(3) old(2) by auto
    show ?thesis
    proof (cases "HardCap b")
      case hard: True
      with assms(1) Some True obtain i g where i: "i \<in> set (chosen l)" "gget (jGrants (lj l)) i = Some g"
        "ag_Key (Wire g) = k" "expires l \<le> time_at (deadlines s) i" by (auto simp: served_def)
      obtain g' where "gget (jGrants (lj l')) i = Some g'" "ag_Key (Wire g') = k" using grant [OF i(2)] i(3) by auto
      moreover have "i \<in> set (chosen l')" "expires l' \<le> time_at (deadlines s) i" using i assms(4) new by auto
      ultimately show ?thesis using old new Some assms(2) hard by (auto simp: served_def)
    next
      case False
      then show ?thesis using assms(1,2,5) Some True old new by (auto simp: served_def)
    qed
  next
    case False
    then show ?thesis using Some assms(2) by (simp add: served_def)
  qed
qed

text \<open>The ways through one turn of the loop.\<close>

lemma with_woke_Inr [simp]: "with_woke w r = Inr x \<longleftrightarrow> r = Inr x"
  by (cases r) (auto simp: with_woke_def)

lemma with_woke_simps [simp]: "with_woke w (Inr x) = Inr x" "with_woke w (Inl e) = Inl (w, e)"
  by (simp_all add: with_woke_def)

lemma reserve_budget_cases:
  assumes "reserve_budget s subject bound now key l = Inr l'"
  obtains (skip) "l' = l" "\<And>b. gget (Budgets (lj l)) key = Some b \<Longrightarrow> \<not> matches b subject"
  | (late) e x w where "l' = l\<lparr>expires := x, denied := Some e, woke := w\<rparr>"
  | (soft) b where "gget (Budgets (lj l)) key = Some b" "matches b subject" "\<not> HardCap b"
      "now < time_at (windows s) key"
      "l' = l\<lparr>expires := earlier (expires l) (time_at (windows s) key), soft := soft l @ [b]\<rparr>"
  | (hard) b gs i where "gget (Budgets (lj l)) key = Some b" "matches b subject" "HardCap b"
      "now < time_at (windows s) key" "i \<noteq> ''''"
      "pick_grant s b bound now (sortedKeys (jGrants (lj l))) (jGrants (lj l)) = Inr (gs, i)"
      "l' = l\<lparr>expires := earlier (earlier (expires l) (time_at (windows s) key)) (time_at (deadlines s) i),
             lj := (lj l)\<lparr>jGrants := gs\<rparr>, chosen := chosen l @ [i]\<rparr>"
  | (queued) b gs ex j' ns x e where "gget (Budgets (lj l)) key = Some b" "matches b subject" "HardCap b"
      "pick_grant s b bound now (sortedKeys (jGrants (lj l))) (jGrants (lj l)) = Inr (gs, '''')"
      "queue s ((lj l)\<lparr>jGrants := gs\<rparr>) b bound (nonces l) = Inr (ex, j', ns)"
      "l' = l\<lparr>expires := x, lj := j', nonces := ns, denied := Some e, woke := True\<rparr>"
proof (cases "gget (Budgets (lj l)) key")
  case None
  with assms skip show ?thesis by (simp add: reserve_budget_def)
next
  case (Some b)
  note b = this
  have dn: "\<exists>e. deny ex b d = Some e" for ex d by (auto simp: deny_def is_exhausted_def split: option.splits)
  consider (a) "\<not> matches b subject" | (b) "matches b subject" "\<not> now < time_at (windows s) key"
    | (c) "matches b subject" "now < time_at (windows s) key" "\<not> HardCap b"
    | (d) "matches b subject" "now < time_at (windows s) key" "HardCap b" by blast
  then show ?thesis
  proof cases
    case a
    with assms b skip show ?thesis by (simp add: reserve_budget_def)
  next
    case b
    with assms Some show ?thesis by (intro late [OF sym]) (simp add: reserve_budget_def Let_def)
  next
    case c
    with assms b show ?thesis by (intro soft [OF b]) (auto simp: reserve_budget_def Let_def)
  next
    case d
    with assms b obtain gs i where p:
      "pick_grant s b bound now (sortedKeys (jGrants (lj l))) (jGrants (lj l)) = Inr (gs, i)"
      by (auto simp: reserve_budget_def Let_def elim!: rbind_InrE)
    show ?thesis
    proof (cases "i = ''''")
      case False
      with assms b d p show ?thesis by (intro hard [OF b d(1,3,2) _ p]) (auto simp: reserve_budget_def Let_def)
    next
      case True
      note i = this
      have eq: "reserve_budget s subject bound now key l =
        rbind (with_woke (woke l) (queue s ((lj l)\<lparr>jGrants := gs\<rparr>) b bound (nonces l))) (\<lambda>(ex, j', ns).
           Inr (l\<lparr>expires := earlier (expires l) (time_at (windows s) key), lj := j', nonces := ns,
                 denied := deny ex b (denied l), woke := True\<rparr>))"
        using b d p i by (simp add: reserve_budget_def Let_def)
      from assms [unfolded eq] obtain ex j' ns where
        q: "queue s ((lj l)\<lparr>jGrants := gs\<rparr>) b bound (nonces l) = Inr (ex, j', ns)"
        "l' = l\<lparr>expires := earlier (expires l) (time_at (windows s) key), lj := j', nonces := ns,
                 denied := deny ex b (denied l), woke := True\<rparr>"
        by (auto elim!: rbind_InrE)
      obtain e where "deny ex b (denied l) = Some e" using dn by blast
      then show ?thesis using queued [OF b d(1,3) p [unfolded i] q(1)] q(2) by metis
    qed
  qed
qed

lemma pick_grant_jinv:
  assumes "jinv own j" "pick_grant s b bound now is (jGrants j) = Inr (gs, found)"
  shows "jinv own (j\<lparr>jGrants := gs\<rparr>)" "same_accounts (jGrants j) gs" "only_key (ab_Key b) (jGrants j) gs"
    "found \<noteq> '''' \<Longrightarrow> \<exists>g. gget gs found = Some g \<and> fits s b bound now g"
proof -
  note p = pick_grant_ok [OF assms(2) jinv_grants_ok [OF assms(1)]]
  then show "same_accounts (jGrants j) gs" "only_key (ab_Key b) (jGrants j) gs"
    "found \<noteq> '''' \<Longrightarrow> \<exists>g. gget gs found = Some g \<and> fits s b bound now g" by blast+
  show "jinv own (j\<lparr>jGrants := gs\<rparr>)"
    by (rule jinv_grants [OF assms(1)])
      (use p same_accountsD(3) [of "jGrants j" gs] in \<open>auto simp: grants_ok_def\<close>)
qed

text \<open>The grants chosen for other keys are not touched.\<close>

lemma chosen_kept:
  assumes "loop_ok own s subject bound now ns j ks l" "key \<notin> set ks" "only_key key (jGrants (lj l)) gs"
    "i \<in> set (chosen l)"
  shows "\<exists>g. gget gs i = Some g \<and> for_budget s subject bound now ks (lj l) g"
proof -
  obtain g where g: "gget (jGrants (lj l)) i = Some g" "for_budget s subject bound now ks (lj l) g"
    using loop_okD(6) [OF assms(1,4)] by blast
  then have "ag_Key (Wire g) \<noteq> key" using assms(2) by (auto simp: for_budget_def)
  then show ?thesis using assms(3) g by (auto simp: only_key_def)
qed

lemma loop_hard:
  assumes L: "loop_ok own s subject bound now ns j ks l" and key: "key \<notin> set ks" and now: "0 \<le> now"
    and b: "gget (Budgets (lj l)) key = Some b" "matches b subject" "HardCap b"
    and w: "now < time_at (windows s) key" and i: "i \<noteq> ''''"
    and p: "pick_grant s b bound now (sortedKeys (jGrants (lj l))) (jGrants (lj l)) = Inr (gs, i)"
    and l': "l' = l\<lparr>expires := earlier (earlier (expires l) (time_at (windows s) key)) (time_at (deadlines s) i),
             lj := (lj l)\<lparr>jGrants := gs\<rparr>, chosen := chosen l @ [i]\<rparr>"
  shows "loop_ok own s subject bound now ns j (ks @ [key]) l'"
proof -
  note P = pick_grant_jinv [OF loop_okD(1) [OF L] p]
  have kb: "ab_Key b = key" using maps_wfD(7) [OF jinvD(2) [OF loop_okD(1) [OF L]] b(1)] .
  obtain g where g: "gget gs i = Some g" "fits s b bound now g" using P(4) i by blast
  have gk: "ag_Key (Wire g) = key" "now < time_at (deadlines s) i"
  proof -
    have "gget (jGrants ((lj l)\<lparr>jGrants := gs\<rparr>)) i = Some g" using g by simp
    then have "ag_ID (Wire g) = i" using jinvD(3) [OF P(1)] by (auto simp: grant_ok_def grant_sane_def)
    then show "ag_Key (Wire g) = key" "now < time_at (deadlines s) i"
      using g(2) kb by (auto simp: fits_def usable_def)
  qed
  have kept: "\<exists>g. gget gs k = Some g \<and> for_budget s subject bound now ks (lj l) g" if "k \<in> set (chosen l)" for k
    by (rule chosen_kept [OF L key P(3) [unfolded kb] that])
  have new: "i \<notin> set (chosen l)" using kept [of i] g(1) gk(1) key by (auto simp: for_budget_def)
  have fb: "for_budget s subject bound now (ks @ [key]) (lj l') h"
    if "for_budget s subject bound now ks (lj l) h" for h
    using that by (auto simp: for_budget_def l')
  have keptb: "\<exists>g. gget gs k = Some g \<and> for_budget s subject bound now (ks @ [key]) (lj l') g"
    if "k \<in> set (chosen l)" for k using kept [OF that] fb by blast
  have fbi: "for_budget s subject bound now (ks @ [key]) (lj l') g"
    using b g(2) gk(1) by (auto simp: for_budget_def l')
  note e1 = earlier_props [OF now w, of "expires l"]
  note e2 = earlier_props [OF now gk(2), of "earlier (expires l) (time_at (windows s) key)"]
  have served_key: "served s subject now key l'"
    using b w e1 e2 g gk by (auto simp: served_def l')
  have served_old: "served s subject now k l'" if "served s subject now k l" for k
    by (rule served_mono [OF that]) (use e1 e2 P(2) in \<open>auto simp: l'\<close>)
  have "lj l' = j\<lparr>jGrants := jGrants (lj l'), Requests := Requests (lj l')\<rparr>"
    by (subst (1) l', subst loop_okD(2) [OF L]) (simp add: l')
  moreover have "same_accounts (jGrants j) gs" using same_accounts_trans [OF loop_okD(3) [OF L] P(2)] .
  moreover have "lj l' = (lj l)\<lparr>jGrants := gs\<rparr>" "chosen l' = chosen l @ [i]" "nonces l' = nonces l"
    "denied l' = denied l" "soft l' = soft l" by (simp_all add: l')
  ultimately show ?thesis
    unfolding loop_ok_def using P(1) loop_okD(4,5,8) [OF L] new g fbi keptb served_key served_old loop_okD(7) [OF L]
    by auto
qed

lemma loop_queued:
  assumes L: "loop_ok own s subject bound now ns j ks l" and key: "key \<notin> set ks"
    and b: "gget (Budgets (lj l)) key = Some b"
    and p: "pick_grant s b bound now (sortedKeys (jGrants (lj l))) (jGrants (lj l)) = Inr (gs, '''')"
    and q: "queue s ((lj l)\<lparr>jGrants := gs\<rparr>) b bound (nonces l) = Inr (ex, j', ns')"
    and l': "l' = l\<lparr>expires := x, lj := j', nonces := ns', denied := Some e, woke := True\<rparr>"
  shows "loop_ok own s subject bound now ns j (ks @ [key]) l'"
proof -
  note P = pick_grant_jinv [OF loop_okD(1) [OF L] p]
  note Q = queue_ok [OF q, simplified]
  have kb: "ab_Key b = key" using maps_wfD(7) [OF jinvD(2) [OF loop_okD(1) [OF L]] b] .
  have wf: "gwf (Requests (lj l))" using jinv_wf(3) [OF loop_okD(1) [OF L]] .
  have j': "j' = (lj l)\<lparr>jGrants := gs, Requests := Requests j'\<rparr>" using Q(1) wf by simp
  have inv: "jinv own j'" using P(1) Q(2) wf by (subst j') (simp add: jinv_def maps_wf_def)
  have gs: "jGrants j' = gs" "Budgets j' = Budgets (lj l)" by (subst j', simp)+
  have kept: "\<exists>g. gget gs k = Some g \<and> for_budget s subject bound now (ks @ [key]) j' g" if "k \<in> set (chosen l)" for k
    using chosen_kept [OF L key P(3) [unfolded kb] that] by (auto simp: for_budget_def gs)
  have "j' = j\<lparr>jGrants := jGrants j', Requests := Requests j'\<rparr>"
    by (subst (1) j', subst loop_okD(2) [OF L]) (simp add: gs)
  moreover have "same_accounts (jGrants j) gs" using same_accounts_trans [OF loop_okD(3) [OF L] P(2)] .
  ultimately show ?thesis
    unfolding loop_ok_def using inv loop_okD(4,5,8) [OF L] Q(3) wf kept by (auto simp: l' gs)
qed

lemma loop_step:
  assumes L: "loop_ok own s subject bound now ns j ks l" and key: "key \<notin> set ks" and now: "0 \<le> now"
    and step: "reserve_budget s subject bound now key l = Inr l'"
  shows "loop_ok own s subject bound now ns j (ks @ [key]) l'"
  using step
proof (cases rule: reserve_budget_cases)
  case skip
  have "served s subject now key l" using skip(2) by (auto simp: served_def split: option.splits)
  then show ?thesis using L unfolding loop_ok_def skip(1)
    by (auto simp: for_budget_mono)
next
  case late
  then show ?thesis using L unfolding loop_ok_def by (auto simp: for_budget_mono)
next
  case (soft b)
  note e = earlier_props [OF now soft(4), of "expires l"]
  have kb: "gget (Budgets j) (ab_Key b) = Some b"
    using maps_wfD(7) [OF jinvD(2) [OF loop_okD(1) [OF L]] soft(1)] soft(1) loop_frame(2) [OF L] by simp
  have "served s subject now key l'" using soft e by (auto simp: served_def)
  moreover have "served s subject now k l'" if "served s subject now k l" for k
    by (rule served_mono [OF that]) (use e in \<open>auto simp: soft(5)\<close>)
  moreover have "\<exists>g. gget (jGrants (lj l)) i = Some g \<and> for_budget s subject bound now (ks @ [key]) (lj l) g"
    if "i \<in> set (chosen l)" for i
    using loop_okD(6) [OF L that] for_budget_mono by metis
  moreover have "lj l' = lj l" "chosen l' = chosen l" "nonces l' = nonces l" "denied l' = denied l"
    "soft l' = soft l @ [b]" by (simp_all add: soft(5))
  ultimately show ?thesis
    unfolding loop_ok_def using loop_okD(1-5,8) [OF L] loop_okD(7) [OF L] soft(3) kb by auto
next
  case (hard b gs i)
  show ?thesis by (rule loop_hard [OF L key now hard(1-7)])
next
  case (queued b gs ex j' ns' x e)
  show ?thesis by (rule loop_queued [OF L key queued(1,4,5,6)])
qed

lemma reserve_loop_ok:
  assumes inv: "jinv own j" and now: "0 \<le> now" and run: "reserve_loop s subject bound now ns j = Inr l"
  shows "loop_ok own s subject bound now ns j (sortedKeys (Budgets j)) l"
proof (rule rfold_prefix [OF run [unfolded reserve_loop_def], of "loop_ok own s subject bound now ns j"])
  show "loop_ok own s subject bound now ns j []
    \<lparr>lj = j, chosen = [], soft = [], denied = None, expires = 0, woke = False, nonces = ns\<rparr>"
    using inv by (simp add: loop_ok_def)
next
  fix ys x zs l l'
  assume eq: "sortedKeys (Budgets j) = ys @ x # zs" and L: "loop_ok own s subject bound now ns j ys l"
    and st: "reserve_budget s subject bound now x l = Inr l'"
  have "x \<notin> set ys" using distinct_sortedKeys [OF jinv_wf(1) [OF inv]] unfolding eq by auto
  then show "loop_ok own s subject bound now ns j (ys @ [x]) l'" by (rule loop_step [OF L _ now st])
qed

section \<open>Reserving the bound\<close>

definition reserve_on :: "i64 \<Rightarrow> grant \<Rightarrow> grant" where
  "reserve_on bound g = g\<lparr>Reserved := Reserved g + bound, Pending := Pending g + 1\<rparr>"

lemma take_reservations:
  assumes "rfold (take_reservation bound) is gs = Inr gs'" "distinct is" "gwf gs"
  shows "gwf gs' \<and> (\<forall>k. gget gs' k = (if k \<in> set is then map_option (reserve_on bound) (gget gs k) else gget gs k))"
  using assms
proof (induction "is" arbitrary: gs)
  case Nil
  then show ?case by simp
next
  case (Cons i "is")
  from Cons.prems(1) obtain gs1 where s: "take_reservation bound i gs = Inr gs1"
    and r: "rfold (take_reservation bound) is gs1 = Inr gs'" by (auto elim: rbind_InrE)
  from s obtain g where g: "gget gs i = Some g" and gs1: "gs1 = gput i (reserve_on bound g) gs"
    by (auto simp: take_reservation_def add64_Inr_iff bump_Inr_iff reserve_on_def split: option.splits elim!: rbind_InrE)
  have "gwf gs1" using Cons.prems(3) by (simp add: gs1)
  then show ?case using Cons.IH [OF r] Cons.prems(2) g by (auto simp: gs1 gget_gput)
qed

lemma open_meter_ok:
  assumes "meters_ok ms"
  shows "meters_ok (open_meter cd s b ms)" "gget (open_meter cd s b ms) (meterID cd s b) \<noteq> None"
    "gget ms i \<noteq> None \<Longrightarrow> gget (open_meter cd s b ms) i = gget ms i"
  using assms
  by (auto simp: meters_ok_def open_meter_def Let_def gget_gput meter_ok_def meter_sane_def split: if_splits)

lemma open_meters_ok:
  assumes "meters_ok ms"
  shows "meters_ok (fold (open_meter cd s) bs ms) \<and>
    (\<forall>i. gget ms i \<noteq> None \<longrightarrow> gget (fold (open_meter cd s) bs ms) i = gget ms i) \<and>
    (\<forall>b\<in>set bs. gget (fold (open_meter cd s) bs ms) (meterID cd s b) \<noteq> None)"
  using assms
proof (induction bs arbitrary: ms)
  case Nil
  then show ?case by simp
next
  case (Cons a bs)
  note step = open_meter_ok [OF Cons.prems, where cd = cd and s = s and b = a]
  note IH = Cons.IH [OF step(1)]
  have keep: "gget (fold (open_meter cd s) (a # bs) ms) i = gget ms i" if "gget ms i \<noteq> None" for i
    using IH step(3) [OF that] that by simp
  moreover have "gget (fold (open_meter cd s) (a # bs) ms) (meterID cd s a) \<noteq> None"
    using IH step(2) by simp
  ultimately show ?case using IH by auto
qed

lemma sums_new_permit:
  assumes "gwf ps" "gget ps n = None" "\<not> Done p"
  shows "reserved_by (gput n p ps) i = reserved_by ps i + (if i \<in> set (Grants p) then Bound p else 0)"
    "pending_by (gput n p ps) i = pending_by ps i + (if i \<in> set (Grants p) then 1 else 0)"
  using assms by (simp_all add: reserved_by_def pending_by_def gsum_gput open_on_def)

lemma grant_ok_reserve:
  assumes "grant_ok own po ps i g" "fits s b bound now g" "0 \<le> bound"
    "reserved_by ps' i = reserved_by ps i + bound" "pending_by ps' i = pending_by ps i + 1"
  shows "grant_ok own po ps' i (reserve_on bound g)"
  using assms usable_available [of s g b now own po ps i]
  by (auto simp: grant_ok_def grant_sane_def credit_ok_def reserve_on_def fits_def usable_def)

text \<open>The permit that a successful reservation records.\<close>

definition new_permit :: "codec \<Rightarrow> Store \<Rightarrow> i64 \<Rightarrow> rloop \<Rightarrow> permit" where
  "new_permit cd s bound l = \<lparr>pm_Instance = s_instance s, Bound = bound, Grants = chosen l,
     Meters = map (meterID cd s) (soft l), Done = False, Complete = False,
     Actual = None, Retired = False, InvalidUsage = False\<rparr>"

lemma grant_permit_cases:
  assumes "grant_permit cd s bound l = Inr (j', e, bp, ex)"
  obtains n gs where "n \<in> set (nonces l)" "rfold (take_reservation bound) (chosen l) (jGrants (lj l)) = Inr gs"
    "j' = (lj l)\<lparr>jGrants := gs, jMeters := fold (open_meter cd s) (soft l) (jMeters (lj l)),
            Permits := gput n (new_permit cd s bound l) (Permits (lj l))\<rparr>"
    "e = None" "bp = Some \<lparr>ID = n, BoundMicroUSD = bound, bp_InvalidUsage = False\<rparr>" "ex = expires l"
  using assms by (auto simp: grant_permit_def new_permit_def Let_def split: list.splits elim!: rbind_InrE)

lemma grant_permit_ok:
  assumes L: "loop_ok own s subject bound now ns j ks l" and bound: "0 \<le> bound" "bound \<le> max_i64"
    and fresh: "\<And>n. n \<in> set ns \<Longrightarrow> gget (Permits j) n = None"
    and n: "n \<in> set (nonces l)" and gs: "rfold (take_reservation bound) (chosen l) (jGrants (lj l)) = Inr gs"
    and j': "j' = (lj l)\<lparr>jGrants := gs, jMeters := fold (open_meter cd s) (soft l) (jMeters (lj l)),
            Permits := gput n (new_permit cd s bound l) (Permits (lj l))\<rparr>"
  shows "jinv own j'"
proof -
  note inv = loop_okD(1) [OF L]
  have new: "gget (Permits (lj l)) n = None" using fresh n loop_okD(4) [OF L] loop_frame(1) [OF L] by auto
  note T = take_reservations [OF gs loop_okD(5) [OF L] jinv_wf(2) [OF inv]]
  note M = open_meters_ok [OF jinv_meters_ok [OF inv], of cd s "soft l"]
  note S = sums_new_permit [OF jinv_wf(4) [OF inv] new, of "new_permit cd s bound l"]
  have grant: "grant_ok own (Poisoned (lj l)) (Permits j') i g'" if g': "gget gs i = Some g'" for i g'
  proof (cases "i \<in> set (chosen l)")
    case True
    then obtain g b where g: "gget (jGrants (lj l)) i = Some g" "fits s b bound now g"
      using loop_okD(6) [OF L True] by (auto simp: for_budget_def)
    have "g' = reserve_on bound g" using T g' g True by auto
    then show ?thesis using grant_ok_reserve [OF jinvD(3) [OF inv g(1)] g(2) bound(1)] S True
      by (simp add: j' new_permit_def)
  next
    case False
    then have "gget (jGrants (lj l)) i = Some g'" using T g' by simp
    from jinvD(3) [OF inv this] show ?thesis using S False by (simp add: j' new_permit_def grant_ok_def)
  qed
  have dom: "gget gs i = None \<longleftrightarrow> gget (jGrants (lj l)) i = None" for i using T by simp
  have old: "permit_ok gs (jMeters j') p" if "gget (Permits (lj l)) k = Some p" for k p
    using jinvD(5) [OF inv that] M by (auto simp: permit_ok_def dom j')
  have "permit_ok gs (jMeters j') (new_permit cd s bound l)"
    using bound loop_okD(5) [OF L] loop_okD(6) [OF L] M by (force simp: permit_ok_def new_permit_def dom j')
  then have permit: "permit_ok gs (jMeters j') p" if "gget (Permits j') k = Some p" for k p
    using that old by (auto simp: j' gget_gput split: if_splits)
  have wf: "maps_wf j'" using jinvD(2) [OF inv] T M by (simp add: maps_wf_def j' meters_ok_def)
  have "meter_ok m" if "gget (jMeters j') i = Some m" for i m using that M by (simp add: j' meters_ok_def)
  then show ?thesis using jinvD(1) [OF inv] wf grant permit by (simp add: jinv_def j')
qed

section \<open>The reserving transaction\<close>

lemma reserve_body_cases:
  assumes "reserve_body cd s subject bound now ns j = (w, Inr (j', e, bp, ex))"
  obtains (denied) j1 l e' where "closeInactive s j now = Inr j1" "reserve_loop s subject bound now ns j1 = Inr l"
      "denied l = Some e'" "e = Some e'" "bp = None" "j' = lj l" "\<not> Poisoned j" "Ready j"
  | (granted) j1 l where "closeInactive s j now = Inr j1" "reserve_loop s subject bound now ns j1 = Inr l"
      "denied l = None" "grant_permit cd s bound l = Inr (j', e, bp, ex)" "\<not> Poisoned j" "Ready j"
proof -
  from assms have np: "\<not> Poisoned j" "Ready j" by (auto simp: reserve_body_def split: if_splits)
  with assms obtain j1 where j1: "closeInactive s j now = Inr j1"
    by (auto simp: reserve_body_def split: sum.splits)
  with assms np obtain l where l: "reserve_loop s subject bound now ns j1 = Inr l"
    by (auto simp: reserve_body_def split: sum.splits)
  have r: "(case denied l of Some e \<Rightarrow> Inr (lj l, Some e, None, expires l) | None \<Rightarrow> grant_permit cd s bound l) =
     Inr (j', e, bp, ex)"
    using assms np j1 l by (simp add: reserve_body_def)
  show thesis
  proof (cases "denied l")
    case None
    then show ?thesis using granted [OF j1 l None _ np] r by simp
  next
    case (Some e')
    then show ?thesis using denied [OF j1 l Some _ _ _ np] r by simp
  qed
qed

lemma reserve_body_loop:
  assumes "jinv own j" "0 \<le> now" "closeInactive s j now = Inr j1" "reserve_loop s subject bound now ns j1 = Inr l"
  shows "loop_ok own s subject bound now ns j1 (sortedKeys (Budgets j1)) l"
    "same_accounts (jGrants j) (jGrants (lj l))" "Permits (lj l) = Permits j" "Budgets (lj l) = Budgets j"
    "Budgets j1 = Budgets j" "Poisoned (lj l) = Poisoned j"
proof -
  note C = closeInactive_jinv [OF assms(1,3)]
  show L: "loop_ok own s subject bound now ns j1 (sortedKeys (Budgets j1)) l"
    by (rule reserve_loop_ok [OF C(1) assms(2,4)])
  show "same_accounts (jGrants j) (jGrants (lj l))" by (rule same_accounts_trans [OF C(2) loop_okD(3) [OF L]])
  show "Permits (lj l) = Permits j" "Budgets (lj l) = Budgets j" "Budgets j1 = Budgets j"
    "Poisoned (lj l) = Poisoned j"
    using loop_frame [OF L] closeInactive_frame [OF assms(3)] by simp_all
qed

lemma reserve_body_jinv:
  assumes inv: "jinv own j" and now: "0 \<le> now" "0 \<le> bound" "bound \<le> max_i64"
    and fresh: "\<And>n. n \<in> set ns \<Longrightarrow> gget (Permits j) n = None"
    and run: "reserve_body cd s subject bound now ns j = (w, Inr (j', e, bp, ex))"
  shows "jinv own j'"
  using run
proof (cases rule: reserve_body_cases)
  case (denied j1 l e')
  then show ?thesis using loop_okD(1) [OF reserve_body_loop(1) [OF inv now(1) denied(1,2)]] by simp
next
  case (granted j1 l)
  note R = reserve_body_loop [OF inv now(1) granted(1,2)]
  have fr: "gget (Permits j1) n = None" if "n \<in> set ns" for n
    using fresh [OF that] R(3) loop_frame(1) [OF R(1)] by simp
  from granted(4) show ?thesis
    by (cases rule: grant_permit_cases) (rule grant_permit_ok [OF R(1) now(2,3) fr])
qed

section \<open>Outcomes of the reserving transaction\<close>

text \<open>A refusal touches no account and no permit.\<close>

lemma reserve_body_denied:
  assumes "jinv own j" "0 \<le> now" "reserve_body cd s subject bound now ns j = (w, Inr (j', Some e, bp, ex))"
  shows "same_accounts (jGrants j) (jGrants j') \<and> Permits j' = Permits j \<and> bp = None"
  using assms(3)
proof (cases rule: reserve_body_cases)
  case (denied j1 l e')
  then show ?thesis using reserve_body_loop [OF assms(1,2) denied(1,2)] by simp
next
  case (granted j1 l)
  from granted(4) show ?thesis by (cases rule: grant_permit_cases) simp
qed

text \<open>A success reserves the bound on one fitting grant of every matching hard budget.\<close>

lemma reserve_body_granted:
  assumes inv: "jinv own j" and now: "0 \<le> now"
    and run: "reserve_body cd s subject bound now ns j = (w, Inr (j', None, bp, ex))"
  obtains n p where "bp = Some \<lparr>ID = n, BoundMicroUSD = bound, bp_InvalidUsage = False\<rparr>" "n \<in> set ns"
    "Permits j' = gput n p (Permits j)" "\<not> Done p" "Bound p = bound" "distinct (Grants p)" "pm_Instance p = s_instance s"
    "\<And>k b. gget (Budgets j) k = Some b \<Longrightarrow> matches b subject \<Longrightarrow> ex \<noteq> 0 \<and> ex \<le> time_at (windows s) k \<and>
       (HardCap b \<longrightarrow> (\<exists>i\<in>set (Grants p). \<exists>g. gget (jGrants j') i = Some g \<and> ag_Key (Wire g) = k \<and>
          ex \<le> time_at (deadlines s) i))"
    "\<And>i. i \<in> set (Grants p) \<Longrightarrow> \<exists>g g'. gget (jGrants j) i = Some g \<and> gget (jGrants j') i = Some g' \<and>
       Wire g' = Wire g \<and> Consumed g' = Consumed g \<and> Reserved g' = Reserved g + bound \<and> 0 < Pending g' \<and>
       Consumed g' + Reserved g' \<le> Amount (Wire g') \<and>
       same_account g (g'\<lparr>Pending := Pending g' - 1, Reserved := Reserved g' - bound\<rparr>)"
    "\<And>i g. i \<notin> set (Grants p) \<Longrightarrow> gget (jGrants j) i = Some g \<Longrightarrow>
       \<exists>g'. gget (jGrants j') i = Some g' \<and> same_account g g'"
  using run
proof (cases rule: reserve_body_cases)
  case denied
  then show ?thesis by simp
next
  case (granted j1 l)
  note R = reserve_body_loop [OF inv now granted(1,2)]
  note L = R(1)
  from granted(4) show ?thesis
  proof (cases rule: grant_permit_cases)
    case (1 n gs)
    note T = take_reservations [OF 1(2) loop_okD(5) [OF L] jinv_wf(2) [OF loop_okD(1) [OF L]]]
    let ?p = "new_permit cd s bound l"
    show ?thesis
    proof (rule that [of n ?p])
      show "bp = Some \<lparr>ID = n, BoundMicroUSD = bound, bp_InvalidUsage = False\<rparr>" by (rule 1(5))
      show "n \<in> set ns" using 1(1) loop_okD(4) [OF L] by blast
      show "Permits j' = gput n ?p (Permits j)" using 1(3) R(3) by simp
      show "\<not> Done ?p" "Bound ?p = bound" "distinct (Grants ?p)" "pm_Instance ?p = s_instance s"
        using loop_okD(5) [OF L] by (simp_all add: new_permit_def)
    next
      fix k b assume b: "gget (Budgets j) k = Some b" "matches b subject"
      have "k \<in> set (sortedKeys (Budgets j1))" using gget_in_set [OF b(1)] R(5) by force
      then have sv: "served s subject now k l" by (rule loop_okD(7) [OF L granted(3)])
      have "\<exists>i\<in>set (chosen l). \<exists>g. gget (jGrants j') i = Some g \<and> ag_Key (Wire g) = k \<and> ex \<le> time_at (deadlines s) i"
        if h: "HardCap b"
      proof -
        obtain i g where i: "i \<in> set (chosen l)" "gget (jGrants (lj l)) i = Some g" "ag_Key (Wire g) = k"
          "expires l \<le> time_at (deadlines s) i" using sv b R(4) h by (auto simp: served_def)
        then have "gget (jGrants j') i = Some (reserve_on bound g)" using T 1(3) by simp
        then show ?thesis using i 1(6) by (intro bexI [of _ i]) (auto simp: reserve_on_def)
      qed
      then show "ex \<noteq> 0 \<and> ex \<le> time_at (windows s) k \<and> (HardCap b \<longrightarrow> (\<exists>i\<in>set (Grants ?p). \<exists>g.
          gget (jGrants j') i = Some g \<and> ag_Key (Wire g) = k \<and> ex \<le> time_at (deadlines s) i))"
        using sv b R(4) 1(6) by (simp add: served_def new_permit_def)
    next
      fix i assume "i \<in> set (Grants ?p)"
      then have i: "i \<in> set (chosen l)" by (simp add: new_permit_def)
      obtain g b where g: "gget (jGrants (lj l)) i = Some g" "fits s b bound now g"
        using loop_okD(6) [OF L i] by (auto simp: for_budget_def)
      obtain g0 where g0: "gget (jGrants j) i = Some g0" "same_account g0 g"
        using same_accountsD(2) [OF R(2) g(1)] by blast
      note ok = jinvD(3) [OF loop_okD(1) [OF L] g(1)]
      have "Consumed g + (Reserved g + bound) \<le> Amount (Wire g)"
        using g(2) usable_available [OF _ ok, of s b now] by (simp add: fits_def)
      moreover have "gget (jGrants j') i = Some (reserve_on bound g)" using T i g(1) 1(3) by simp
      moreover have "0 \<le> Pending g" using ok by (simp add: grant_ok_def grant_sane_def)
      ultimately show "\<exists>g g'. gget (jGrants j) i = Some g \<and> gget (jGrants j') i = Some g' \<and>
         Wire g' = Wire g \<and> Consumed g' = Consumed g \<and> Reserved g' = Reserved g + bound \<and> 0 < Pending g' \<and>
         Consumed g' + Reserved g' \<le> Amount (Wire g') \<and>
         same_account g (g'\<lparr>Pending := Pending g' - 1, Reserved := Reserved g' - bound\<rparr>)"
        using g0 by (intro exI [of _ g0] exI [of _ "reserve_on bound g"]) (simp add: same_account_def reserve_on_def)
    next
      fix i g assume i: "i \<notin> set (Grants ?p)" "gget (jGrants j) i = Some g"
      then have "gget (jGrants j') i = gget (jGrants (lj l)) i" using T 1(3) by (simp add: new_permit_def)
      then show "\<exists>g'. gget (jGrants j') i = Some g' \<and> same_account g g'"
        using same_accountsD(1) [OF R(2) i(2)] by simp
    qed
  qed
qed

end
