(* ===== verification/Authority_Settle.thy ===== *)
theory Authority_Settle
  imports Authority_Reserve
begin

text \<open>
  Settling and undoing a reservation keeps the journal invariant, and the inconsistencies
  the settlement code guards against cannot arise in a journal that satisfies it.
\<close>

section \<open>Updating several entries of a map\<close>

lemma gget_update_at:
  "gget (update_at f i m) k = (if k = i then map_option f (gget m k) else gget m k)"
  by (auto simp: update_at_def gget_gput split: option.split)

lemma gwf_update_at [simp]: "gwf m \<Longrightarrow> gwf (update_at f i m)"
  by (auto simp: update_at_def split: option.split)

lemma gwf_updates: "gwf m \<Longrightarrow> gwf (fold (update_at f) is m)"
  by (induction "is" arbitrary: m) auto

lemma gget_updates:
  "distinct is \<Longrightarrow> gget (fold (update_at f) is m) k = (if k \<in> set is then map_option f (gget m k) else gget m k)"
  by (induction "is" arbitrary: m) (auto simp: gget_update_at)

lemma updates_dom: "gget (fold (update_at f) is m) k = None \<longleftrightarrow> gget m k = None"
  by (induction "is" arbitrary: m) (auto simp: gget_update_at)

lemma meters_ok_updates:
  assumes "meters_ok ms" "\<And>m. meter_ok m \<Longrightarrow> meter_ok (f m)"
  shows "meters_ok (fold (update_at f) is ms)"
  using assms(1)
proof (induction "is" arbitrary: ms)
  case Nil
  then show ?case by simp
next
  case (Cons i "is")
  have "meters_ok (update_at f i ms)"
    using Cons.prems assms(2) by (auto simp: meters_ok_def gget_update_at split: if_splits)
  then show ?case using Cons.IH by simp
qed

section \<open>Closing a permit\<close>

lemma sums_end_permit:
  assumes "gwf ps" "gget ps n = Some p" "\<not> Done p" "Done p'"
  shows "reserved_by (gput n p' ps) i = reserved_by ps i - (if i \<in> set (Grants p) then Bound p else 0)"
    "pending_by (gput n p' ps) i = pending_by ps i - (if i \<in> set (Grants p) then 1 else 0)"
  using assms by (simp_all add: reserved_by_def pending_by_def gsum_gput open_on_def)

text \<open>The grants of an unfinished permit are open and cover its bound.\<close>

lemma open_permit_grant:
  assumes "jinv own j" "gget (Permits j) n = Some p" "\<not> Done p" "i \<in> set (Grants p)"
  obtains g where "gget (jGrants j) i = Some g" "\<not> Closed g" "0 < Pending g" "Bound p \<le> Reserved g"
    "g_Instance g = own"
proof -
  have "gget (jGrants j) i \<noteq> None" using jinvD(5) [OF assms(1,2)] assms(4) by (simp add: permit_ok_def)
  then obtain g where g: "gget (jGrants j) i = Some g" by auto
  have "open_on i p" using assms(3,4) by (simp add: open_on_def)
  note cov = open_permit_covered [OF assms(1,2) this]
  note ok = jinvD(3) [OF assms(1) g]
  have "0 < Pending g" "Bound p \<le> Reserved g" using cov ok by (simp_all add: grant_ok_def)
  moreover have "\<not> Closed g" using ok calculation(1) by (auto simp: grant_ok_def credit_ok_def)
  moreover have "g_Instance g = own" using ok calculation(3) by (auto simp: grant_ok_def)
  ultimately show thesis using that g by blast
qed

lemma charge_bounds:
  assumes "charge bound actual complete = (consumed, observed)" "0 \<le> bound" "\<forall>a\<in>set_option actual. 0 \<le> a"
  shows "0 \<le> observed" "observed \<le> consumed" "\<not> observed > bound \<Longrightarrow> consumed \<le> bound"
  using assms by (auto simp: charge_def split: option.splits if_splits)

lemma check_room_None:
  assumes "check_room consumed observed c ob q = None" "consumed \<le> max_i64" "observed \<le> max_i64"
  shows "c + consumed \<le> max_i64" "ob + observed \<le> max_i64" "q < max_i64"
proof -
  from assms(1) obtain x y z where "add64 c consumed = Inr x" "add64 ob observed = Inr y" "add64 q 1 = Inr z"
    by (auto simp: check_room_def split: sum.splits)
  note a = add64_InrD [OF this(1) assms(2)] add64_InrD [OF this(2) assms(3)] add64_InrD [OF this(3)]
  then show "c + consumed \<le> max_i64" "ob + observed \<le> max_i64" "q < max_i64" by simp_all
qed

lemma check_grants_Consistent:
  "check_grants bound consumed observed gs is = Consistent \<Longrightarrow> i \<in> set is \<Longrightarrow> gget gs i = Some g \<Longrightarrow>
     check_room consumed observed (Consumed g) (Observed g) (Sequence g) = None"
  by (induction "is") (auto split: option.splits if_splits)

lemma check_grants_no_inconsistency:
  assumes "\<And>i. i \<in> set is \<Longrightarrow> \<exists>g. gget gs i = Some g \<and> \<not> Closed g \<and> 0 < Pending g \<and> bound \<le> Reserved g"
  shows "check_grants bound consumed observed gs is \<noteq> Inconsistent e"
  using assms by (induction "is") (force split: option.splits)+

lemma check_meters_no_inconsistency:
  assumes "\<And>i. i \<in> set is \<Longrightarrow> gget ms i \<noteq> None"
  shows "check_meters consumed observed ms is \<noteq> Inconsistent e"
  using assms by (induction "is") (force split: option.splits)+

section \<open>Settlement\<close>

lemma grant_ok_settle:
  assumes ok: "grant_ok own po ps i g" and g: "\<not> Closed g" "0 < Pending g" "bound \<le> Reserved g" "g_Instance g = own"
    and room: "Consumed g + consumed \<le> max_i64" and ch: "0 \<le> observed" "observed \<le> consumed"
    and over: "\<not> overrun \<Longrightarrow> consumed \<le> bound"
    and sums: "reserved_by ps' i = reserved_by ps i - bound" "pending_by ps' i = pending_by ps i - 1"
  shows "grant_ok own (po \<or> overrun) ps' i (settle_grant bound consumed observed overrun g)"
proof -
  have "grant_sane i g" "credit_ok po g" using ok by (simp_all add: grant_ok_def)
  then have "grant_sane i (settle_grant bound consumed observed overrun g)"
    "credit_ok (po \<or> overrun) (settle_grant bound consumed observed overrun g)"
    using g room ch over by (auto simp: grant_sane_def credit_ok_def settle_grant_def Let_def)
  then show ?thesis using ok g sums by (simp add: grant_ok_def settle_grant_def Let_def)
qed

lemma grant_ok_mono: "grant_ok own po ps i g \<Longrightarrow> po \<le> po' \<Longrightarrow> grant_ok own po' ps i g"
  by (auto simp: grant_ok_def credit_ok_def)

lemma meter_ok_settle:
  "0 \<le> observed \<Longrightarrow> observed \<le> consumed \<Longrightarrow> meter_ok m \<Longrightarrow> meter_ok (settle_meter consumed observed m)"
  by (simp add: meter_ok_def meter_sane_def settle_meter_def)

text \<open>Replacing permit \<open>n\<close> by a finished one together with its grants and meters.\<close>

lemma jinv_end_permit:
  assumes inv: "jinv own j" and p: "gget (Permits j) n = Some p" "\<not> Done p"
    and p': "Done p'" "Bound p' = Bound p" "Grants p' = Grants p" "Meters p' = Meters p"
    and ms: "meters_ok ms" "\<And>i. gget ms i = None \<longleftrightarrow> gget (jMeters j) i = None"
    and po: "Poisoned j \<le> po"
    and f: "\<And>i g. i \<in> set (Grants p) \<Longrightarrow> gget (jGrants j) i = Some g \<Longrightarrow>
              grant_ok own po (gput n p' (Permits j)) i (f g)"
    and j': "j' = j\<lparr>jGrants := fold (update_at f) (Grants p) (jGrants j), jMeters := ms,
                    Permits := gput n p' (Permits j), Poisoned := po\<rparr>"
  shows "jinv own j'"
proof -
  have pok: "permit_ok (jGrants j) (jMeters j) p" by (rule jinvD(5) [OF inv p(1)])
  then have dist: "distinct (Grants p)" by (simp add: permit_ok_def)
  note sums = sums_end_permit [OF jinv_wf(4) [OF inv] p p'(1)]
  have grant: "grant_ok own po (Permits j') i g'" if g': "gget (jGrants j') i = Some g'" for i g'
  proof (cases "i \<in> set (Grants p)")
    case True
    then obtain g where "gget (jGrants j) i = Some g" "g' = f g"
      using g' by (auto simp: j' gget_updates [OF dist])
    then show ?thesis using f [OF True] by (simp add: j')
  next
    case False
    then have "gget (jGrants j) i = Some g'" using g' by (simp add: j' gget_updates [OF dist])
    from grant_ok_mono [OF jinvD(3) [OF inv this] po] sums False show ?thesis
      by (simp add: grant_ok_def j')
  qed
  have "permit_ok (jGrants j') (jMeters j') q" if "gget (Permits j') k = Some q" for k q
    using that jinvD(5) [OF inv] pok p' ms(2)
    by (fastforce simp: j' gget_gput permit_ok_def updates_dom split: if_splits)
  moreover have "maps_wf j'" using jinvD(2) [OF inv] ms(1) by (simp add: maps_wf_def j' gwf_updates meters_ok_def)
  ultimately show ?thesis using grant jinvD(1) [OF inv] ms(1) by (auto simp: jinv_def j' meters_ok_def)
qed

definition settled_permit :: "permit \<Rightarrow> BudgetPermit \<Rightarrow> i64 option \<Rightarrow> bool \<Rightarrow> permit" where
  "settled_permit p a actual complete = p\<lparr>Done := True, Complete := complete, InvalidUsage := bp_InvalidUsage a,
     Actual := (case actual of None \<Rightarrow> Actual p | Some n \<Rightarrow> Some n)\<rparr>"

text \<open>The journal right after the settlement, before idle grants are closed.\<close>

definition settled_journal :: "BudgetPermit \<Rightarrow> i64 option \<Rightarrow> bool \<Rightarrow> permit \<Rightarrow> journal \<Rightarrow> journal" where
  "settled_journal a actual complete p j =
     (let (consumed, observed) = charge (Bound p) actual complete;
          overrun = (bp_InvalidUsage a \<or> observed > Bound p) in
      j\<lparr>jGrants := fold (update_at (settle_grant (Bound p) consumed observed overrun)) (Grants p) (jGrants j),
        jMeters := fold (update_at (settle_meter consumed observed)) (Meters p) (jMeters j),
        Permits := gput (ID a) (settled_permit p a actual complete) (Permits j),
        Poisoned := (Poisoned j \<or> overrun)\<rparr>)"

lemma jinv_settled:
  assumes inv: "jinv own j" and p: "gget (Permits j) (ID a) = Some p" "\<not> Done p"
    and actual: "\<forall>n\<in>set_option actual. 0 \<le> n \<and> n \<le> max_i64"
    and ch: "charge (Bound p) actual complete = (consumed, observed)"
    and cons: "check_grants (Bound p) consumed observed (jGrants j) (Grants p) = Consistent"
  shows "jinv own (settled_journal a actual complete p j)"
proof (rule jinv_end_permit [OF inv p])
  let ?over = "bp_InvalidUsage a \<or> observed > Bound p"
  have pok: "permit_ok (jGrants j) (jMeters j) p" by (rule jinvD(5) [OF inv p(1)])
  then have b: "0 \<le> Bound p" "Bound p \<le> max_i64" by (simp_all add: permit_ok_def)
  note C = charge_bounds [OF ch b(1)]
  have c: "0 \<le> observed" "observed \<le> consumed" "consumed \<le> max_i64"
    using C actual ch b by (auto simp: charge_def split: option.splits if_splits)
  show "Done (settled_permit p a actual complete)" "Bound (settled_permit p a actual complete) = Bound p"
    "Grants (settled_permit p a actual complete) = Grants p" "Meters (settled_permit p a actual complete) = Meters p"
    by (simp_all add: settled_permit_def)
  show "meters_ok (fold (update_at (settle_meter consumed observed)) (Meters p) (jMeters j))"
    by (rule meters_ok_updates [OF jinv_meters_ok [OF inv]]) (rule meter_ok_settle [OF c(1,2)])
  show "gget (fold (update_at (settle_meter consumed observed)) (Meters p) (jMeters j)) i = None \<longleftrightarrow>
      gget (jMeters j) i = None" for i by (rule updates_dom)
  show "Poisoned j \<le> (Poisoned j \<or> ?over)" by simp
  show "settled_journal a actual complete p j = j\<lparr>
     jGrants := fold (update_at (settle_grant (Bound p) consumed observed ?over)) (Grants p) (jGrants j),
     jMeters := fold (update_at (settle_meter consumed observed)) (Meters p) (jMeters j),
     Permits := gput (ID a) (settled_permit p a actual complete) (Permits j), Poisoned := (Poisoned j \<or> ?over)\<rparr>"
    by (simp add: settled_journal_def ch Let_def)
  fix i g assume i: "i \<in> set (Grants p)" and g: "gget (jGrants j) i = Some g"
  obtain g0 where "gget (jGrants j) i = Some g0" "\<not> Closed g0" "0 < Pending g0" "Bound p \<le> Reserved g0"
    "g_Instance g0 = own" by (rule open_permit_grant [OF inv p i])
  then have o: "\<not> Closed g" "0 < Pending g" "Bound p \<le> Reserved g" "g_Instance g = own" using g by simp_all
  have room: "Consumed g + consumed \<le> max_i64"
    using check_room_None(1) [OF check_grants_Consistent [OF cons i g]] c by simp
  have "\<not> ?over \<Longrightarrow> consumed \<le> Bound p" using C(3) actual by auto
  then show "grant_ok own (Poisoned j \<or> ?over) (gput (ID a) (settled_permit p a actual complete) (Permits j)) i
      (settle_grant (Bound p) consumed observed ?over g)"
    by (rule grant_ok_settle [OF jinvD(3) [OF inv g] o room c(1,2)])
      (use sums_end_permit [OF jinv_wf(4) [OF inv] p, of "settled_permit p a actual complete" i] i in
        \<open>auto simp: settled_permit_def\<close>)
qed

text \<open>Poisoning keeps the permit and its reservation.\<close>

lemma jinv_poison:
  assumes inv: "jinv own j" and p: "gget (Permits j) n = Some p" "\<not> Done p"
  shows "jinv own (poison n p a actual j)"
proof -
  define p' where "p' = p\<lparr>Retired := True, InvalidUsage := bp_InvalidUsage a,
         Actual := (case actual of None \<Rightarrow> Actual p | Some a \<Rightarrow> Some a)\<rparr>"
  have pok: "permit_ok (jGrants j) (jMeters j) p" by (rule jinvD(5) [OF inv p(1)])
  have dist: "distinct (Grants p)" using pok by (simp add: permit_ok_def)
  have eq: "open_on i p' = open_on i p" "Bound p' = Bound p" for i by (simp_all add: p'_def open_on_def)
  have sums: "reserved_by (gput n p' (Permits j)) i = reserved_by (Permits j) i"
    "pending_by (gput n p' (Permits j)) i = pending_by (Permits j) i" for i
    using p jinv_wf(4) [OF inv] by (simp_all add: reserved_by_def pending_by_def gsum_gput eq)
  have gs: "gget (jGrants (poison n p a actual j)) i = (if bp_InvalidUsage a \<and> i \<in> set (Grants p)
      then map_option (\<lambda>g. g\<lparr>Overrun := True\<rparr>) (gget (jGrants j) i) else gget (jGrants j) i)" for i
    by (simp add: poison_def gget_updates [OF dist])
  have grant: "grant_ok own True (gput n p' (Permits j)) i g'"
    if g': "gget (jGrants (poison n p a actual j)) i = Some g'" for i g'
  proof -
    from g' obtain g where g: "gget (jGrants j) i = Some g" "g' = g \<or> g' = g\<lparr>Overrun := True\<rparr>"
      by (auto simp: gs split: if_splits)
    note ok = jinvD(3) [OF inv g(1)]
    show ?thesis using g(2) ok sums by (auto simp: grant_ok_def credit_ok_def grant_sane_def)
  qed
  have ps: "Permits (poison n p a actual j) = gput n p' (Permits j)" by (simp add: poison_def p'_def)
  have "permit_ok (jGrants (poison n p a actual j)) (jMeters j) q"
    if "gget (Permits (poison n p a actual j)) k = Some q" for k q
    using that jinvD(5) [OF inv] pok
    by (fastforce simp: ps gget_gput permit_ok_def gs p'_def split: if_splits)
  moreover have "maps_wf (poison n p a actual j)"
    using jinvD(2) [OF inv] by (auto simp: maps_wf_def poison_def gwf_updates)
  moreover have "jMeters (poison n p a actual j) = jMeters j" "Poisoned (poison n p a actual j)"
    "jVersion (poison n p a actual j) = jVersion j" by (simp_all add: poison_def)
  ultimately show ?thesis using grant jinvD(1,4) [OF inv] by (simp add: jinv_def ps)
qed

section \<open>The settling transaction\<close>

lemma finish_body_cases:
  assumes "finish_body s a actual complete now j = (w, Inr (j', r))"
  obtains (replay) p where "gget (Permits j) (ID a) = Some p" "Done p" "Complete p = complete"
      "InvalidUsage p = bp_InvalidUsage a" "Actual p = actual" "j' = j" "r = None" "Bound p = BoundMicroUSD a"
  | (poisoned) p e where "gget (Permits j) (ID a) = Some p" "\<not> Done p" "j' = poison (ID a) p a actual j"
      "r = Some e" "Bound p = BoundMicroUSD a" "pm_Instance p = s_instance s" "\<not> Retired p"
  | (settled) p consumed observed where "gget (Permits j) (ID a) = Some p" "\<not> Done p"
      "charge (Bound p) actual complete = (consumed, observed)"
      "check_grants (Bound p) consumed observed (jGrants j) (Grants p) = Consistent"
      "closeInactive s (settled_journal a actual complete p j) now = Inr j'" "r = None"
      "Bound p = BoundMicroUSD a" "pm_Instance p = s_instance s" "\<not> Retired p"
proof -
  from assms obtain p where p: "gget (Permits j) (ID a) = Some p" "Bound p = BoundMicroUSD a" "\<not> Retired p"
    by (auto simp: finish_body_def split: option.splits if_splits)
  show thesis
  proof (cases "Done p")
    case True
    then show thesis using assms p replay
      by (auto simp: finish_body_def equalActual_def split: if_splits)
  next
    case False
    obtain consumed observed where ch: "charge (Bound p) actual complete = (consumed, observed)" by force
    have inst: "pm_Instance p = s_instance s"
      using assms p False by (auto simp: finish_body_def split: if_splits)
    note eq = assms [unfolded finish_body_def p(1) option.case Let_def ch prod.case]
    show thesis
    proof (cases "check_grants (Bound p) consumed observed (jGrants j) (Grants p)")
      case Consistent
      show thesis
      proof (cases "check_meters consumed observed (jMeters j) (Meters p)")
        case (Overflow e)
        with eq p False inst Consistent show thesis by (intro poisoned) auto
      next
        case C: Consistent
        have "closeInactive s (settled_journal a actual complete p j) now = Inr j'" "r = None"
          using eq p False inst Consistent C
          by (auto simp: settled_journal_def ch ch [unfolded p(2)] Let_def settled_permit_def elim!: rbind_InrE)
        then show thesis using settled p False ch Consistent inst by blast
      qed (use eq p False inst Consistent in auto)
    next
      case (Overflow e)
      with eq p False inst show thesis by (intro poisoned) auto
    qed (use eq p False inst in auto)
  qed
qed

lemma finish_body_jinv:
  assumes inv: "jinv own j" and actual: "\<forall>n\<in>set_option actual. 0 \<le> n \<and> n \<le> max_i64"
    and run: "finish_body s a actual complete now j = (w, Inr (j', r))"
  shows "jinv own j'"
  using run
proof (cases rule: finish_body_cases)
  case replay
  then show ?thesis using inv by simp
next
  case poisoned
  then show ?thesis using jinv_poison [OF inv] by simp
next
  case (settled p consumed observed)
  show ?thesis by (rule closeInactive_jinv(1) [OF jinv_settled [OF inv settled(1,2) actual settled(3,4)] settled(5)])
qed

section \<open>Undoing a reservation\<close>

definition release_on :: "i64 \<Rightarrow> grant \<Rightarrow> grant" where
  "release_on bound g = g\<lparr>Pending := Pending g - 1, Reserved := Reserved g - bound\<rparr>"

lemma release_reservations:
  assumes "rfold (release_reservation bound) is gs = Inr gs'"
  shows "gs' = fold (update_at (release_on bound)) is gs"
  using assms
proof (induction "is" arbitrary: gs)
  case Nil
  then show ?case by simp
next
  case (Cons i "is")
  from Cons.prems obtain gs1 where one: "release_reservation bound i gs = Inr gs1"
    and rest: "rfold (release_reservation bound) is gs1 = Inr gs'" by (auto elim: rbind_InrE)
  have "gs1 = update_at (release_on bound) i gs"
    using one by (auto simp: release_reservation_def release_on_def update_at_def split: option.splits if_splits)
  then show ?case using Cons.IH [OF rest] by simp
qed

definition undone_permit :: "permit \<Rightarrow> permit" where
  "undone_permit p = p\<lparr>Done := True, Complete := True, Actual := Some 0\<rparr>"

lemma undispatch_body_cases:
  assumes "undispatch_body s n now j = (w, Inr (j', u))"
  obtains p where "gget (Permits j) n = Some p" "\<not> Done p"
    "closeInactive s (j\<lparr>jGrants := fold (update_at (release_on (Bound p))) (Grants p) (jGrants j),
        Permits := gput n (undone_permit p) (Permits j)\<rparr>) now = Inr j'"
  using assms
  by (auto simp: undispatch_body_def undone_permit_def split: option.splits if_splits elim!: rbind_InrE
        dest!: release_reservations)

lemma undone_jinv:
  assumes inv: "jinv own j" and p: "gget (Permits j) n = Some p" "\<not> Done p"
  shows "jinv own (j\<lparr>jGrants := fold (update_at (release_on (Bound p))) (Grants p) (jGrants j),
        Permits := gput n (undone_permit p) (Permits j)\<rparr>)"
proof (rule jinv_end_permit [OF inv p, where po = "Poisoned j" and ms = "jMeters j"
          and p' = "undone_permit p" and f = "release_on (Bound p)"])
  fix i g assume i: "i \<in> set (Grants p)" and g: "gget (jGrants j) i = Some g"
  obtain g0 where "gget (jGrants j) i = Some g0" "\<not> Closed g0" "0 < Pending g0" "Bound p \<le> Reserved g0"
    by (rule open_permit_grant [OF inv p i])
  then have o: "\<not> Closed g" "0 < Pending g" "Bound p \<le> Reserved g" using g by simp_all
  have "0 \<le> Bound p" using jinvD(5) [OF inv p(1)] by (simp add: permit_ok_def)
  then show "grant_ok own (Poisoned j) (gput n (undone_permit p) (Permits j)) i (release_on (Bound p) g)"
    using sums_end_permit [OF jinv_wf(4) [OF inv] p, of "undone_permit p" i] i o jinvD(3) [OF inv g]
    by (auto simp: undone_permit_def grant_ok_def grant_sane_def credit_ok_def release_on_def)
qed (simp_all add: undone_permit_def jinv_meters_ok [OF inv])

lemma undispatch_body_jinv:
  assumes "jinv own j" "undispatch_body s n now j = (w, Inr (j', u))"
  shows "jinv own j'"
  using assms(2)
proof (cases rule: undispatch_body_cases)
  case (1 p)
  show ?thesis by (rule closeInactive_jinv(1) [OF undone_jinv [OF assms(1) 1(1,2)] 1(3)])
qed

section \<open>What can still go wrong\<close>

definition accounting_overflow :: auth_error where
  "accounting_overflow = AuthorityInvalid ''accounting overflow''"

lemma add64_Inl: "add64 a b = Inl e \<Longrightarrow> e = accounting_overflow"
  by (auto simp: add64_def invalid_def accounting_overflow_def split: if_splits)

lemma gmapM_Inl: "gmapM f m = Inl e \<Longrightarrow> \<exists>k v. (k, v) \<in> set m \<and> f k v = Inl e"
  by (induction f m rule: gmapM.induct) (auto simp: rbind_def split: sum.splits)

text \<open>Closing an idle grant can only fail on a sequence number that is exhausted.\<close>

lemma closeGrant_Inl:
  assumes "grant_ok own po ps i g" "gwf ps" "Pending g = 0" "closeGrant g = Inl e"
  shows "e = accounting_overflow"
proof -
  have "Reserved g = 0" using assms(1-3) pending_zero_reserved_zero by (simp add: grant_ok_def)
  then show ?thesis using assms(3,4)
    by (auto simp: closeGrant_def bump_def rbind_def split: if_splits sum.splits dest: add64_Inl)
qed

lemma closeInactive_Inl:
  assumes inv: "jinv own j" and run: "closeInactive s j now = Inl e"
  shows "e = accounting_overflow"
proof -
  let ?f = "\<lambda>_ g. if Closed g \<or> Pending g \<noteq> 0 then Inr g
                  else if inactive s j now g then closeGrant g else Inr g"
  from run have "gmapM ?f (jGrants j) = Inl e"
    by (cases "gmapM ?f (jGrants j)") (simp_all add: closeInactive_def)
  from gmapM_Inl [OF this] obtain k g where kg: "(k, g) \<in> set (jGrants j)" "?f k g = Inl e" by blast
  from kg(2) have "closeGrant g = Inl e" "Pending g = 0" by (auto split: if_splits)
  moreover have "gget (jGrants j) k = Some g" using kg(1) jinv_wf(2) [OF inv] by (simp add: gget_set_iff)
  ultimately show ?thesis using closeGrant_Inl [OF jinvD(3) [OF inv] jinv_wf(4) [OF inv]] by blast
qed

lemma check_room_Some: "check_room consumed observed c ob q = Some e \<Longrightarrow> e = accounting_overflow"
  by (auto simp: check_room_def split: sum.splits dest: add64_Inl)

lemma check_grants_Overflow: "check_grants b c ob gs is = Overflow e \<Longrightarrow> e = accounting_overflow"
  by (induction "is") (auto split: option.splits if_splits dest: check_room_Some)

lemma check_meters_Overflow: "check_meters c ob ms is = Overflow e \<Longrightarrow> e = accounting_overflow"
  by (induction "is") (auto split: option.splits dest: check_room_Some)

lemma release_reservations_succeed:
  assumes "distinct is"
    "\<And>i. i \<in> set is \<Longrightarrow> \<exists>g. gget gs i = Some g \<and> \<not> Closed g \<and> 0 < Pending g \<and> bound \<le> Reserved g"
  shows "rfold (release_reservation bound) is gs = Inr (fold (update_at (release_on bound)) is gs)"
  using assms
proof (induction "is" arbitrary: gs)
  case Nil
  then show ?case by simp
next
  case (Cons i "is")
  obtain g where g: "gget gs i = Some g" "\<not> Closed g" "0 < Pending g" "bound \<le> Reserved g"
    using Cons.prems(2) [of i] by auto
  have "release_reservation bound i gs = Inr (update_at (release_on bound) i gs)"
    using g by (simp add: release_reservation_def update_at_def release_on_def)
  moreover have "rfold (release_reservation bound) is (update_at (release_on bound) i gs) =
      Inr (fold (update_at (release_on bound)) is (update_at (release_on bound) i gs))"
    by (rule Cons.IH) (use Cons.prems in \<open>auto simp: gget_update_at\<close>)
  ultimately show ?case by simp
qed

lemma undispatch_body_Inl:
  assumes inv: "jinv own j" and p: "gget (Permits j) n = Some p" "\<not> Done p"
    and run: "undispatch_body s n now j = (w, Inl e)"
  shows "e = accounting_overflow"
proof -
  have dist: "distinct (Grants p)" using jinvD(5) [OF inv p(1)] by (simp add: permit_ok_def)
  have "\<exists>g. gget (jGrants j) i = Some g \<and> \<not> Closed g \<and> 0 < Pending g \<and> Bound p \<le> Reserved g"
    if "i \<in> set (Grants p)" for i
    using open_permit_grant [OF inv p that] by metis
  note rel = release_reservations_succeed [OF dist this]
  have "closeInactive s (j\<lparr>jGrants := fold (update_at (release_on (Bound p))) (Grants p) (jGrants j),
        Permits := gput n (undone_permit p) (Permits j)\<rparr>) now = Inl e"
    using run p rel by (auto simp: undispatch_body_def undone_permit_def rbind_def split: sum.splits)
  then show ?thesis by (rule closeInactive_Inl [OF undone_jinv [OF inv p]])
qed

text \<open>Settling an unfinished permit of this boot succeeds, or it runs into the 64-bit limit.\<close>

lemma finish_body_never_inconsistent:
  assumes inv: "jinv own j" and p: "gget (Permits j) (ID a) = Some p" "\<not> Done p" "\<not> Retired p"
    "Bound p = BoundMicroUSD a" "pm_Instance p = s_instance s"
    and actual: "\<forall>n\<in>set_option actual. 0 \<le> n \<and> n \<le> max_i64"
  shows "(\<exists>j'. finish_body s a actual complete now j = (False, Inr (j', None))) \<or>
    (\<exists>j'. finish_body s a actual complete now j = (False, Inr (j', Some accounting_overflow)) \<and> Poisoned j') \<or>
    finish_body s a actual complete now j = (False, Inl accounting_overflow)"
proof -
  obtain consumed observed where ch: "charge (Bound p) actual complete = (consumed, observed)" by force
  have gr: "\<exists>g. gget (jGrants j) i = Some g \<and> \<not> Closed g \<and> 0 < Pending g \<and> Bound p \<le> Reserved g"
    if "i \<in> set (Grants p)" for i
    using open_permit_grant [OF inv p(1,2) that] by metis
  have me: "gget (jMeters j) i \<noteq> None" if "i \<in> set (Meters p)" for i
    using jinvD(5) [OF inv p(1)] that by (simp add: permit_ok_def)
  note cg = check_grants_no_inconsistency [OF gr, where consumed = consumed and observed = observed]
  note cm = check_meters_no_inconsistency [OF me, where consumed = consumed and observed = observed]
  have eq: "finish_body s a actual complete now j =
     (False, case check_grants (Bound p) consumed observed (jGrants j) (Grants p) of
            Inconsistent e \<Rightarrow> Inl e
          | Overflow e \<Rightarrow> Inr (poison (ID a) p a actual j, Some e)
          | Consistent \<Rightarrow>
            (case check_meters consumed observed (jMeters j) (Meters p) of
               Inconsistent e \<Rightarrow> Inl e
             | Overflow e \<Rightarrow> Inr (poison (ID a) p a actual j, Some e)
             | Consistent \<Rightarrow> rbind (closeInactive s (settled_journal a actual complete p j) now) (\<lambda>j'. Inr (j', None))))"
    unfolding settled_journal_def settled_permit_def ch prod.case Let_def unfolding p(4) using p
    by (simp add: finish_body_def Let_def ch [unfolded p(4)] split: settle_check.split)
  have po: "Poisoned (poison (ID a) p a actual j)" by (simp add: poison_def)
  show ?thesis
  proof (cases "check_grants (Bound p) consumed observed (jGrants j) (Grants p)")
    case Consistent
    note C = this
    show ?thesis
    proof (cases "check_meters consumed observed (jMeters j) (Meters p)")
      case Consistent
      have eq': "finish_body s a actual complete now j =
          (False, rbind (closeInactive s (settled_journal a actual complete p j) now) (\<lambda>j'. Inr (j', None)))"
        using eq C Consistent by simp
      show ?thesis
        using closeInactive_Inl [OF jinv_settled [OF inv p(1,2) actual ch C]]
        by (cases "closeInactive s (settled_journal a actual complete p j) now") (auto simp: eq')
    qed (use eq C cm po check_meters_Overflow in auto)
  qed (use eq cg po check_grants_Overflow in auto)
qed

end
