(* ===== verification/Authority_Exchange.thy ===== *)
theory Authority_Exchange
  imports Authority_Collect
begin

text \<open>
  Synchronisation keeps the journal invariant: sending a snapshot only moves the sent marks,
  and installing a response adds fresh grants, moves acknowledgements and closes idle grants.
\<close>

section \<open>Sending\<close>

lemma gget_mark: "gget (mark f is m) i = map_option (\<lambda>v. if i \<in> set is then f v else v) (gget m i)"
  by (simp add: mark_def gget_gmapv)

lemma request_body_cases:
  assumes "request_body s now j = (w, Inr (j', out))"
  obtains j1 rs gs ms where "closeInactive s j now = Inr j1"
    "rs = stream_batch (Requests j1) (RequestCursor j1) (request_eligible s j1)"
    "gs = stream_batch (jGrants j1) (ReportCursor j1) report_eligible"
    "ms = stream_batch (jMeters j1) (MeterCursor j1) meter_eligible"
    "j' = j1\<lparr>Requests := mark (\<lambda>r. r\<lparr>rq_Sent := True, PendingReply := True\<rparr>) rs (Requests j1),
                  RequestCursor := last_or (RequestCursor j1) rs,
                  jGrants := mark (\<lambda>g. g\<lparr>Sent := Sequence g\<rparr>) gs (jGrants j1),
                  ReportCursor := last_or (ReportCursor j1) gs,
                  jMeters := mark (\<lambda>m. m\<lparr>mt_Sent := am_Sequence (mt_Wire m)\<rparr>) ms (jMeters j1),
                  MeterCursor := last_or (MeterCursor j1) ms\<rparr>"
    "out = \<lparr>areq_Protocol = AuthorityProtocol, areq_Instance = s_instance s,
            areq_Requests = select rq_Wire (Requests j1) rs,
            areq_Reports = select report_of (jGrants j1) gs,
            areq_Meters = select mt_Wire (jMeters j1) ms\<rparr>"
  using assms by (auto simp: request_body_def Let_def elim!: rbind_InrE)

lemma grant_ok_sent: "grant_ok own po ps i g \<Longrightarrow> grant_ok own po ps i (g\<lparr>Sent := Sequence g\<rparr>)"
  by (auto simp: grant_ok_def grant_sane_def credit_ok_def)

lemma request_body_jinv:
  assumes "jinv own j" "request_body s now j = (w, Inr (j', out))"
  shows "jinv own j'"
  using assms(2)
proof (cases rule: request_body_cases)
  case (1 j1 rs gs ms)
  note inv = closeInactive_jinv(1) [OF assms(1) 1(1)]
  have "grant_ok own (Poisoned j') (Permits j') i g" if "gget (jGrants j') i = Some g" for i g
    using that jinvD(3) [OF inv] grant_ok_sent by (auto simp: 1(5) gget_mark split: if_splits)
  moreover have "meter_ok m" if m: "gget (jMeters j') i = Some m" for i m
  proof -
    from m obtain m0 where "gget (jMeters j1) i = Some m0" "m = m0 \<or> m = m0\<lparr>mt_Sent := am_Sequence (mt_Wire m0)\<rparr>"
      by (auto simp: 1(5) gget_mark split: if_splits)
    then show ?thesis using jinvD(4) [OF inv] by (fastforce simp: meter_ok_def meter_sane_def)
  qed
  moreover have "permit_ok (jGrants j') (jMeters j') p" if "gget (Permits j') n = Some p" for n p
    using that jinvD(5) [OF inv] by (auto simp: 1(5) permit_ok_def gget_mark)
  moreover have "maps_wf j'" using jinvD(2) [OF inv] by (simp add: maps_wf_def 1(5) mark_def)
  ultimately show ?thesis using jinvD(1) [OF inv] by (simp add: jinv_def 1(5))
qed

section \<open>Installing\<close>

lemma validate_budgets_ok:
  assumes "validate_budgets server bs acc wins = Inr m" "gwf acc"
    "\<And>k b. gget acc k = Some b \<Longrightarrow> ab_Key b = k \<and> budget_valid server b"
  shows "gwf m \<and> (\<forall>k b. gget m k = Some b \<longrightarrow> ab_Key b = k \<and> budget_valid server b)"
  using assms
proof (induction bs arbitrary: acc wins)
  case Nil
  then show ?case by simp
next
  case (Cons b bs)
  have rest: "validate_budgets server bs (gput (ab_Key b) b acc) (ab_WindowID b # wins) = Inr m"
    and b: "budget_valid server b" using Cons.prems(1) by (simp_all split: if_splits)
  have "gwf (gput (ab_Key b) b acc)" using Cons.prems(2) by simp
  moreover have "ab_Key c = k \<and> budget_valid server c" if "gget (gput (ab_Key b) b acc) k = Some c" for k c
    using that b Cons.prems(3) by (cases "k = ab_Key b") auto
  ultimately show ?case by (rule Cons.IH [OF rest])
qed

lemma validateBudgets_ok:
  assumes "validateBudgets r = Inr bs"
  shows "gwf bs" "gget bs k = Some b \<Longrightarrow> ab_Key b = k" "gget bs k = Some b \<Longrightarrow> budget_valid (rs_ServerTime r) b"
  using validate_budgets_ok [OF assms [unfolded validateBudgets_def]] by simp_all

lemma install_snapshot_jinv:
  assumes "jinv own j" "install_snapshot received server rtt bs j wins = Inr (j', wins')"
    "gwf bs" "\<And>k b. gget bs k = Some b \<Longrightarrow> ab_Key b = k"
  shows "jinv own j'" "jGrants j' = jGrants j" "Permits j' = Permits j" "Poisoned j' = Poisoned j"
    "Requests j' = Requests j" "Receipts j' = Receipts j"
  using assms
  by (auto simp: install_snapshot_def Let_def jinv_def maps_wf_def split: if_splits)

text \<open>A new grant is whole, or it is closed at once.\<close>

lemma validateGrant_amount: "validateGrant w (Some r) server \<Longrightarrow> 0 < Amount w"
  by (simp add: validateGrant_def)

lemma grant_ok_new:
  assumes "new_grant s received server rtt stale w r j = (g, until)" "0 < Amount w" "Amount w \<le> max_i64"
    "reserved_by ps (ag_ID w) = 0" "pending_by ps (ag_ID w) = 0"
  shows "grant_ok (s_instance s) po ps (ag_ID w) g"
  using assms
  by (auto simp: new_grant_def Let_def grant_ok_def grant_sane_def credit_ok_def split: if_splits)

lemma jinv_add_grant:
  assumes inv: "jinv own j" and new: "gget (jGrants j) i = None"
    and ok: "grant_ok own (Poisoned j) (Permits j) i g" and rs: "gwf rs"
  shows "jinv own (j\<lparr>jGrants := gput i g (jGrants j), Requests := rs\<rparr>)"
proof -
  have "permit_ok (gput i g (jGrants j)) (jMeters j) p" if "gget (Permits j) n = Some p" for n p
    using jinvD(5) [OF inv that] by (auto simp: permit_ok_def gget_gput)
  then show ?thesis using inv ok rs by (auto simp: jinv_def maps_wf_def gget_gput)
qed

lemma apply_grant_cases:
  assumes "apply_grant cd s received server rtt stale w l = Inr l'"
  obtains (replay) "aj l' = aj l" "adl l' = adl l"
  | (fresh) r g until where "gget (Requests (aj l)) (ag_RequestID w) = Some r" "validateGrant w (Some r) server"
      "gget (jGrants (aj l)) (ag_ID w) = None" "GrantID r = ''''"
      "new_grant s received server rtt stale w r (aj l) = (g, until)"
      "aj l' = (aj l)\<lparr>jGrants := gput (ag_ID w) g (jGrants (aj l)),
                     Requests := gput (ag_RequestID w)
                       (r\<lparr>GrantID := ag_ID w, Denied := '''', PendingReply := False\<rparr>) (Requests (aj l))\<rparr>"
      "adl l' = (case until of None \<Rightarrow> adl l | Some t \<Rightarrow> gput (ag_ID w) t (adl l))"
      "gget (Receipts (aj l)) (reportReceiptID (ag_ID w)) = None"
  using assms
  by (auto simp: apply_grant_def Let_def split: if_splits option.splits prod.splits)

lemma apply_grant_jinv:
  assumes inv: "jinv (s_instance s) (aj l)" and w: "Amount w \<le> max_i64"
    and run: "apply_grant cd s received server rtt stale w l = Inr l'"
  shows "jinv (s_instance s) (aj l')"
  using run
proof (cases rule: apply_grant_cases)
  case replay
  then show ?thesis using inv by simp
next
  case (fresh r g until)
  note sums = unnamed_grant_sums [OF inv fresh(3)]
  have "grant_ok (s_instance s) (Poisoned (aj l)) (Permits (aj l)) (ag_ID w) g"
    by (rule grant_ok_new [OF fresh(5) validateGrant_amount [OF fresh(2)] w sums])
  then show ?thesis unfolding fresh(6)
    by (intro jinv_add_grant [OF inv fresh(3)]) (simp_all add: jinv_wf [OF inv])
qed

lemma jinv_set_requests: "jinv own j \<Longrightarrow> gwf rs \<Longrightarrow> jinv own (j\<lparr>Requests := rs\<rparr>)"
  by (simp add: jinv_def maps_wf_def)

lemma apply_denial_jinv:
  assumes "jinv own (aj l)" "apply_denial stale dn l = Inr l'"
  shows "jinv own (aj l')" "jGrants (aj l') = jGrants (aj l)" "Permits (aj l') = Permits (aj l)"
    "Poisoned (aj l') = Poisoned (aj l)" "adl l' = adl l"
  using assms
  by (auto simp: apply_denial_def split: option.splits if_splits intro!: jinv_set_requests simp: jinv_wf)

lemma ack_report_jinv:
  assumes inv: "jinv own j" and run: "ack_report ack (j, sn) = Inr (j', sn')"
  shows "jinv own j'"
proof (cases "gget (jGrants j) (ack_ID ack)")
  case None
  then show ?thesis using run inv by (auto simp: ack_report_def split: option.splits if_splits)
next
  case (Some g)
  with run have j': "j' = j\<lparr>jGrants := gput (ack_ID ack) (g\<lparr>Ack := max (Ack g) (ack_Sequence ack)\<rparr>) (jGrants j)\<rparr>"
    and sent: "ack_Sequence ack \<le> Sent g" by (auto simp: ack_report_def split: if_splits)
  have "grant_ok own (Poisoned j) (Permits j) (ack_ID ack) (g\<lparr>Ack := max (Ack g) (ack_Sequence ack)\<rparr>)"
    using jinvD(3) [OF inv Some] sent by (auto simp: grant_ok_def grant_sane_def credit_ok_def)
  then show ?thesis unfolding j' by (rule jinv_gput_grant [OF inv Some])
qed

lemma jinv_gput_meter:
  assumes "jinv own j" "gget (jMeters j) i = Some m" "meter_ok m'"
  shows "jinv own (j\<lparr>jMeters := gput i m' (jMeters j)\<rparr>)"
  using assms unfolding jinv_def maps_wf_def permit_ok_def by (auto simp: gget_gput)

lemma ack_meter_cases:
  assumes "ack_meter cd ack (j, sn) = Inr (j', sn')"
  obtains (final) "j' = j"
  | (known) i m where "meters_for ack j = [(i, m)]" "ack_Sequence ack \<le> mt_Sent m"
      "j' = j\<lparr>jMeters := gput i (m\<lparr>mt_Ack := max (mt_Ack m) (ack_Sequence ack)\<rparr>) (jMeters j)\<rparr>"
proof (cases "gget (Receipts j) (meterReceiptID cd (ack_Instance ack) (ack_ID ack))")
  case None
  note run = assms [unfolded ack_meter_def Let_def prod.case None option.case]
  show ?thesis
  proof (cases "meters_for ack j")
    case Nil
    with run show ?thesis by (simp split: if_splits)
  next
    case (Cons x xs)
    obtain i m where "x = (i, m)" by (cases x)
    then show ?thesis using run Cons known by (cases xs) (simp_all split: if_splits)
  qed
next
  case (Some rc)
  with assms show ?thesis by (intro final) (simp add: ack_meter_def Let_def split: if_splits)
qed

lemma ack_meter_jinv:
  assumes inv: "jinv own j" and run: "ack_meter cd ack (j, sn) = Inr (j', sn')"
  shows "jinv own j'"
  using run
proof (cases rule: ack_meter_cases)
  case final
  then show ?thesis using inv by simp
next
  case (known i m)
  have "(i, m) \<in> set (meters_for ack j)" using known(1) by simp
  then have m: "gget (jMeters j) i = Some m"
    using jinv_wf(5) [OF inv] by (auto simp: meters_for_def gfilter_def gget_set_iff)
  have "meter_ok (m\<lparr>mt_Ack := max (mt_Ack m) (ack_Sequence ack)\<rparr>)"
    using jinvD(4) [OF inv m] known(2) by (auto simp: meter_ok_def meter_sane_def)
  then show ?thesis unfolding known(3) by (rule jinv_gput_meter [OF inv m])
qed

lemma ack_meter_grants: "ack_meter cd ack (j, sn) = Inr (j', sn') \<Longrightarrow> jGrants j' = jGrants j"
  by (erule ack_meter_cases) simp_all

lemma applyAcks_jinv:
  assumes inv: "jinv own j" and run: "applyAcks cd r j = Inr j'"
  shows "jinv own j'"
proof -
  from run obtain a b where a: "rfold ack_report (rs_ReportAcks r) (j, []) = Inr a"
    and b: "rfold (ack_meter cd) (rs_MeterAcks r) (fst a, []) = Inr b" "j' = fst b"
    by (auto simp: applyAcks_def elim!: rbind_InrE)
  have "jinv own (fst a)"
    by (rule rfold_invariant [OF a, of "\<lambda>x. jinv own (fst x)"]) (use inv ack_report_jinv in force)+
  then have "jinv own (fst b)"
    by (intro rfold_invariant [OF b(1), of "\<lambda>x. jinv own (fst x)"]) (use ack_meter_jinv in force)+
  then show ?thesis by (simp add: b(2))
qed

section \<open>The installing transaction\<close>

lemma apply_body_cases:
  assumes "apply_body cd s received response rtt bs j = (w, Inr (j', r))"
  obtains j1 wins l1 l2 j2 j3 gs stale where
    "install_snapshot received (rs_ServerTime response) rtt bs j (windows s) = Inr (j1, wins)"
    "stale = (\<not> IsZero (ServerTime j) \<and> inst (rs_ServerTime response) < inst (ServerTime j))"
    "rfold (apply_grant cd s received (rs_ServerTime response) rtt stale) (rs_Grants response)
        \<lparr>aj = j1, adl = deadlines s, seen = [], grantIDs = []\<rparr> = Inr l1"
    "rfold (apply_denial stale) (rs_Denied response) l1 = Inr l2"
    "applyAcks cd response (aj l2) = Inr j2"
    "j3 = j2\<lparr>Requests := gmapv (\<lambda>_ r. obsolete_request j2 r) (Requests j2)\<rparr>"
    "gmapM (\<lambda>i g. if \<not> Closed g \<and> Pending g = 0 \<and> outdated j3 received (adl l2) i g
                  then closeGrant g else Inr g) (jGrants j3) = Inr gs"
    "j' = j3\<lparr>jGrants := gs\<rparr>" "r = (stale, adl l2, wins)"
  using assms by (auto simp: apply_body_def Let_def elim!: rbind_InrE)

text \<open>Amounts on the wire are 64-bit integers.\<close>

definition response_ok :: "AuthorityResponse \<Rightarrow> bool" where
  "response_ok r \<longleftrightarrow> list_all (\<lambda>w. in_i64 (Amount w)) (rs_Grants r)"

lemma apply_body_jinv:
  assumes inv: "jinv (s_instance s) j" and bs: "validateBudgets response = Inr bs" and ok: "response_ok response"
    and run: "apply_body cd s received response rtt bs j = (w, Inr (j', r))"
  shows "jinv (s_instance s) j'"
  using run
proof (cases rule: apply_body_cases)
  case (1 j1 wins l1 l2 j2 j3 gs stale)
  let ?own = "s_instance s"
  have i1: "jinv ?own j1" using install_snapshot_jinv(1) [OF inv 1(1) validateBudgets_ok(1,2) [OF bs]] .
  have amount: "Amount w \<le> max_i64" if "w \<in> set (rs_Grants response)" for w
    using ok that by (auto simp: response_ok_def list_all_iff in_i64_def)
  have "jinv ?own (aj l1)"
    by (rule rfold_invariant [OF 1(3), of "\<lambda>l. jinv ?own (aj l)"]) (use i1 apply_grant_jinv [OF _ amount] in auto)
  then have "jinv ?own (aj l2)"
    by (intro rfold_invariant [OF 1(4), of "\<lambda>l. jinv ?own (aj l)"]) (use apply_denial_jinv(1) in auto)
  then have "jinv ?own j2" using applyAcks_jinv 1(5) by blast
  then have i3: "jinv ?own j3" unfolding 1(6) by (simp add: jinv_set_requests jinv_wf)
  have step: "g' = g \<or> closeGrant g = Inr g'"
    if "(if \<not> Closed g \<and> Pending g = 0 \<and> outdated j3 received (adl l2) i g then closeGrant g else Inr g) = Inr g'"
    for i g g' using that by (auto split: if_splits)
  note keep = gmapM_same_accounts [OF 1(7) jinv_wf(2) [OF i3] step]
  show ?thesis unfolding 1(8)
    by (rule jinv_grants [OF i3 keep(1)]) (use same_accountsD(3) keep(2,3) jinvD(3) [OF i3] in auto)
qed

end
