(* ===== verification/Authority_Restart.thy ===== *)
theory Authority_Restart
  imports Authority_Collect
begin

text \<open>
  Retirement at restart (\<open>retire\<close> and \<open>initialize\<close> of
  \<open>src/internal/authority/local/store.go\<close>): every permit of an earlier boot is finished, its
  bound is charged to its meters, and every grant is closed with its whole amount consumed.
\<close>

definition retired_permit :: "permit \<Rightarrow> permit" where
  "retired_permit p = (if Done p then p else p\<lparr>Done := True, Retired := True\<rparr>)"

definition same_dom :: "('k, 'v) gomap \<Rightarrow> ('k, 'v) gomap \<Rightarrow> bool" where
  "same_dom a b \<longleftrightarrow> (\<forall>i. gget b i = None \<longleftrightarrow> gget a i = None)"

lemma retire_meter_ok:
  assumes "retire_meter bound i ms = Inr ms'" "meters_ok ms"
  shows "meters_ok ms' \<and> same_dom ms ms'"
proof -
  from assms(1) obtain m where m: "gget ms i = Some m" and b: "0 \<le> bound"
    and ms': "ms' = gput i (m\<lparr>mt_Wire := (mt_Wire m)\<lparr>am_Consumed := am_Consumed (mt_Wire m) + bound,
                am_Sequence := am_Sequence (mt_Wire m) + 1\<rparr>\<rparr>) ms"
    by (auto simp: retire_meter_def add64_Inr_iff bump_Inr_iff split: option.splits elim!: rbind_InrE)
  have "meter_ok m" using assms(2) m by (simp add: meters_ok_def)
  then have "meter_ok (m\<lparr>mt_Wire := (mt_Wire m)\<lparr>am_Consumed := am_Consumed (mt_Wire m) + bound,
                am_Sequence := am_Sequence (mt_Wire m) + 1\<rparr>\<rparr>)"
    using b by (simp add: meter_ok_def meter_sane_def)
  then show ?thesis using assms(2) m unfolding ms' by (auto simp: meters_ok_def same_dom_def gget_gput)
qed

lemma retire_meters_ok:
  assumes "rfold (retire_meter bound) is ms = Inr ms'" "meters_ok ms"
  shows "meters_ok ms' \<and> same_dom ms ms'"
  by (rule rfold_invariant [OF assms(1), of "\<lambda>x. meters_ok x \<and> same_dom ms x"])
    (use assms(2) retire_meter_ok in \<open>auto simp: same_dom_def\<close>)

text \<open>The loop over the permits.\<close>

definition grants_frame :: "journal \<Rightarrow> journal \<Rightarrow> bool" where
  "grants_frame j j' \<longleftrightarrow> jGrants j' = jGrants j \<and> Requests j' = Requests j \<and> Budgets j' = Budgets j \<and>
     Receipts j' = Receipts j \<and> Poisoned j' = Poisoned j \<and> jVersion j' = jVersion j"

definition retiring :: "journal \<Rightarrow> (string \<times> permit) list \<Rightarrow> journal \<Rightarrow> bool" where
  "retiring j ys j' \<longleftrightarrow> grants_frame j j' \<and> gwf (Permits j') \<and>
     meters_ok (jMeters j') \<and> same_dom (jMeters j) (jMeters j') \<and>
     (\<forall>i. gget (Permits j') i =
        (if i \<in> fst ` set ys then map_option retired_permit (gget (Permits j) i) else gget (Permits j) i))"

lemma retiring_step:
  assumes "jinv own j" "(i, p) \<in> set (Permits j)" "retiring j ys j'" "retire_permit (i, p) j' = Inr j''"
  shows "retiring j (ys @ [(i, p)]) j''"
proof -
  have p: "gget (Permits j) i = Some p" using assms(1,2) jinv_wf(4) by (simp add: gget_set_iff)
  show ?thesis
  proof (cases "Done p")
    case True
    then show ?thesis using assms(3,4) p
      by (auto simp: retire_permit_def retiring_def retired_permit_def)
  next
    case False
    from assms(4) False obtain ms where ms: "rfold (retire_meter (Bound p)) (Meters p) (jMeters j') = Inr ms"
      and j'': "j'' = j'\<lparr>jMeters := ms, Permits := gput i (p\<lparr>Done := True, Retired := True\<rparr>) (Permits j')\<rparr>"
      by (auto simp: retire_permit_def elim!: rbind_InrE)
    have ok: "meters_ok ms" "same_dom (jMeters j') ms"
      using retire_meters_ok [OF ms] assms(3) by (auto simp: retiring_def)
    have "grants_frame j j''" using assms(3) by (simp add: retiring_def grants_frame_def j'')
    moreover have "same_dom (jMeters j) ms" using ok(2) assms(3) by (simp add: same_dom_def retiring_def)
    ultimately show ?thesis using ok(1) assms(3) p False
      unfolding retiring_def by (auto simp: j'' gget_gput retired_permit_def)
  qed
qed

lemma retire_permits:
  assumes "jinv own j" "rfold retire_permit (Permits j) j = Inr j1"
  shows "retiring j (Permits j) j1"
proof (rule rfold_prefix [OF assms(2), of "retiring j"])
  show "retiring j [] j"
    using assms(1) by (simp add: retiring_def jinv_wf meters_ok_def jinvD(4) same_dom_def grants_frame_def)
next
  fix ys x zs s s'
  assume "Permits j = ys @ x # zs" "retiring j ys s" "retire_permit x s = Inr s'"
  then show "retiring j (ys @ [x]) s'" using retiring_step [OF assms(1), of "fst x" "snd x"] by simp
qed

lemma retire_permits_all:
  assumes "jinv own j" "rfold retire_permit (Permits j) j = Inr j1"
  shows "gget (Permits j1) i = map_option retired_permit (gget (Permits j) i)"
proof (cases "gget (Permits j) i")
  case None
  then show ?thesis using retire_permits [OF assms] by (auto simp: retiring_def)
next
  case (Some p)
  then have "i \<in> fst ` set (Permits j)" by (force dest: gget_in_set)
  then show ?thesis using retire_permits [OF assms] by (simp add: retiring_def)
qed

text \<open>A retired grant is spent: closed, and nothing of its amount is left.\<close>

definition spent :: "grant \<Rightarrow> bool" where
  "spent g \<longleftrightarrow> Closed g \<and> Amount (Wire g) \<le> Consumed g"

lemma retire_grant_ok:
  assumes "retire_grant g = Inr g'" "grant_ok own po ps i g" "reserved_by ps' i = 0" "pending_by ps' i = 0"
  shows "grant_ok own' po ps' i g'" "spent g'" "Wire g' = Wire g"
proof -
  from assms(1) have g': "g' = g\<lparr>Consumed := (if Consumed g < Amount (Wire g) then Amount (Wire g) else Consumed g),
              Closed := True, Reserved := 0, Pending := 0, Sequence := Sequence g + 1\<rparr>"
    by (auto simp: retire_grant_def bump_Inr_iff elim!: rbind_InrE)
  show "spent g'" "Wire g' = Wire g" by (simp_all add: g' spent_def)
  have "grant_sane i g" "credit_ok po g" using assms(2) by (simp_all add: grant_ok_def)
  then have "grant_sane i g'" "credit_ok po g'" by (auto simp: g' grant_sane_def credit_ok_def)
  then show "grant_ok own' po ps' i g'" using assms(3,4) by (simp add: grant_ok_def g')
qed

lemma jinv_retire:
  assumes inv: "jinv own j" and ret: "retire j = Inr j'"
  shows "jinv own' j'" "gget (jGrants j') i = Some g \<Longrightarrow> spent g"
    "gget (Permits j') n = Some p \<Longrightarrow> Done p" "Poisoned j' = Poisoned j"
    "gget (jGrants j') i = None \<longleftrightarrow> gget (jGrants j) i = None"
proof -
  from ret obtain j1 gs where j1: "rfold retire_permit (Permits j) j = Inr j1"
    and gs: "gmapM (\<lambda>_ g. retire_grant g) (jGrants j1) = Inr gs"
    and j': "j' = j1\<lparr>jGrants := gs, Requests := gmapv (\<lambda>_ r. r\<lparr>Obsolete := True\<rparr>) (Requests j1)\<rparr>"
    unfolding retire_def by (auto elim!: rbind_InrE)
  note R = retire_permits [OF inv j1]
  note ps = retire_permits_all [OF inv j1]
  have rec: "jGrants j1 = jGrants j" "Requests j1 = Requests j" "Budgets j1 = Budgets j"
    "Receipts j1 = Receipts j" "Poisoned j1 = Poisoned j" "jVersion j1 = jVersion j"
    using R by (auto simp: retiring_def grants_frame_def)
  have wf: "gwf (Permits j1)" "meters_ok (jMeters j1)" "same_dom (jMeters j) (jMeters j1)"
    using R by (auto simp: retiring_def)
  have fin: "Done p" if "gget (Permits j1) n = Some p" for n p
  proof -
    from that obtain q where "p = retired_permit q" by (auto simp: ps)
    then show ?thesis by (simp add: retired_permit_def)
  qed
  have zero: "reserved_by (Permits j1) i = 0" "pending_by (Permits j1) i = 0" for i
    unfolding reserved_by_def pending_by_def
    by (auto intro!: gsum_zero simp: gget_set_iff [OF wf(1), symmetric] open_on_def dest: fin)
  have grant: "grant_ok own' (Poisoned j) (Permits j1) i g \<and> spent g" if "gget gs i = Some g" for i g
    using gmapM_gget_rev [OF gs that] retire_grant_ok [OF _ jinvD(3) [OF inv] zero] by (auto simp: rec)
  have dom: "gget gs i = None \<longleftrightarrow> gget (jGrants j) i = None" for i
    using gmapM_gmapv [OF gs] by (simp add: gget_gmapv rec)
  have permit: "permit_ok gs (jMeters j1) p" if p: "gget (Permits j1) n = Some p" for n p
  proof -
    from p obtain q where q: "gget (Permits j) n = Some q" "p = retired_permit q" by (auto simp: ps)
    show ?thesis using jinvD(5) [OF inv q(1)] wf(3) unfolding q(2)
      by (auto simp: permit_ok_def retired_permit_def dom same_dom_def)
  qed
  have "gwf gs" using gmapM_gmapv [OF gs] jinv_wf(2) [OF inv] by (simp add: rec)
  then have "maps_wf j'" using jinvD(2) [OF inv] wf by (simp add: maps_wf_def j' rec meters_ok_def)
  then show "jinv own' j'"
    using jinvD(1) [OF inv] grant permit wf(2) by (auto simp: jinv_def j' rec meters_ok_def)
  show "gget (jGrants j') i = Some g \<Longrightarrow> spent g" using grant by (simp add: j')
  show "gget (Permits j') n = Some p \<Longrightarrow> Done p" using fin by (simp add: j')
  show "Poisoned j' = Poisoned j" by (simp add: j' rec)
  show "gget (jGrants j') i = None \<longleftrightarrow> gget (jGrants j) i = None" by (simp add: j' dom)
qed

lemma jinv_emptyJournal: "jinv own emptyJournal"
  by (simp add: jinv_def maps_wf_def emptyJournal_def)

lemma jinv_clear:
  "jinv own j \<Longrightarrow> jinv own (j\<lparr>Ready := False, ServerTime := zero_ztime, Budgets := []\<rparr>)"
  by (simp add: jinv_def maps_wf_def)

text \<open>The journal of a new boot.\<close>

lemma initialize_cases:
  assumes "initialize cd own' row = Inr d" "\<And>j. row = Some j \<Longrightarrow> jinv own j"
  obtains j where "d = \<lparr>owner = own', state = collect cd own' (j\<lparr>Ready := False, ServerTime := zero_ztime, Budgets := []\<rparr>)\<rparr>"
    "jinv own' j" "\<And>i g. gget (jGrants j) i = Some g \<Longrightarrow> spent g" "\<And>n p. gget (Permits j) n = Some p \<Longrightarrow> Done p"
    "Poisoned j = (case row of None \<Rightarrow> False | Some j0 \<Rightarrow> Poisoned j0)"
proof (cases row)
  case None
  with assms(1) that [of emptyJournal] jinv_emptyJournal show ?thesis
    by (auto simp: initialize_def emptyJournal_def)
next
  case (Some j0)
  with assms obtain j where j: "retire j0 = Inr j"
    and d: "d = \<lparr>owner = own', state = collect cd own' (j\<lparr>Ready := False, ServerTime := zero_ztime, Budgets := []\<rparr>)\<rparr>"
    by (auto simp: initialize_def jinv_decode elim!: rbind_InrE)
  note R = jinv_retire [OF assms(2) [OF Some] j]
  show ?thesis by (rule that [OF d]) (use R Some in auto)
qed

lemma jinv_initialize:
  assumes "initialize cd own' row = Inr d" "\<And>j. row = Some j \<Longrightarrow> jinv own j"
  shows "owner d = own'" "jinv own' (state d)" "gget (jGrants (state d)) i = Some g \<Longrightarrow> spent g"
    "gget (Permits (state d)) n = Some p \<Longrightarrow> Done p"
    "Poisoned (state d) = (case row of None \<Rightarrow> False | Some j0 \<Rightarrow> Poisoned j0)" "\<not> Ready (state d)"
proof -
  from initialize_cases [OF assms] obtain j where
    d: "d = \<lparr>owner = own', state = collect cd own' (j\<lparr>Ready := False, ServerTime := zero_ztime, Budgets := []\<rparr>)\<rparr>"
    and j: "jinv own' j" "\<And>i g. gget (jGrants j) i = Some g \<Longrightarrow> spent g"
      "\<And>n p. gget (Permits j) n = Some p \<Longrightarrow> Done p"
      "Poisoned j = (case row of None \<Rightarrow> False | Some j0 \<Rightarrow> Poisoned j0)"
    by blast
  show "owner d = own'" "\<not> Ready (state d)" by (simp_all add: d)
  show "jinv own' (state d)" unfolding d by (simp add: jinv_collect jinv_clear j(1))
  show "gget (jGrants (state d)) i = Some g \<Longrightarrow> spent g"
    using j(2) by (auto simp: d gget_collect_grants split: option.splits if_splits)
  show "gget (Permits (state d)) n = Some p \<Longrightarrow> Done p"
    using j(3) by (auto simp: d gget_collect_permits split: if_splits)
  show "Poisoned (state d) = (case row of None \<Rightarrow> False | Some j0 \<Rightarrow> Poisoned j0)"
    using j(4) by (simp add: d)
qed

end
