(* ===== verification/Authority.thy ===== *)
theory Authority
  imports Authority_Settle Authority_Exchange Authority_Restart
begin

text \<open>
  The node journal as a system: one database row and the handles that boots have opened on
  it. Every operation is a step, in any order, by any handle, with any database fault, and
  the journal invariant holds in every reachable state.
\<close>

section \<open>Transactions\<close>

text \<open>A transaction leaves the row alone, or it writes the collected result of its body.\<close>

lemma transaction_cases:
  assumes "transaction cd fault fn d s = (r, d', s')"
  obtains (kept) e where "d' = d" "r = Inl e"
  | (lost) e w j1 x where "fault \<noteq> NoFault" "r = Inl e" "owner d = s_instance s" "decode (state d) = Inr (state d)"
      "fn (state d) = (w, Inr (j1, x))" "d' = d\<lparr>state := collect cd (s_instance s) j1\<rparr>"
  | (committed) w j1 x where "owner d = s_instance s" "decode (state d) = Inr (state d)"
      "fn (state d) = (w, Inr (j1, x))"
      "r = Inr (x, collect cd (s_instance s) j1)" "d' = d\<lparr>state := collect cd (s_instance s) j1\<rparr>"
      "closed s = False" "broken s = None"
      "s' = (if w then signal s else s)\<lparr>deadlines := pruneDeadlines (state d') (deadlines s)\<rparr>"
proof -
  have dec: "j = state d" if "decode (state d) = Inr j" for j
    using that by (auto simp: decode_def split: if_splits)
  show thesis
  proof (cases "\<not> closed s \<and> broken s = None \<and> owner d = s_instance s")
    case False
    then have "d' = d \<and> (\<exists>e. r = Inl e)" using assms
      by (cases "closed s"; cases "broken s"; cases fault)
        (auto simp: transaction_def tx_abort_def storageError_def Let_def)
    then show ?thesis using kept by blast
  next
    case True
    note base = True
    show ?thesis
    proof (cases "decode (state d)")
      case (Inl e)
      then have "d' = d \<and> (\<exists>e. r = Inl e)" using assms base
        by (cases fault) (auto simp: transaction_def tx_abort_def storageError_def Let_def)
      then show ?thesis using kept by blast
    next
      case (Inr j)
      then have j: "j = state d" using dec by blast
      obtain w res where fn: "fn j = (w, res)" by force
      show ?thesis
      proof (cases res)
        case (Inl e)
        then have "d' = d \<and> (\<exists>e. r = Inl e)" using assms base Inr fn
          by (cases fault) (auto simp: transaction_def tx_abort_def storageError_def Let_def)
        then show ?thesis using kept by blast
      next
        case (Inr p)
        obtain j1 x where p: "p = (j1, x)" by force
        have run: "transaction cd fault fn d s =
          (case fault of BeginFails ctx \<Rightarrow> tx_abort ctx d s | ReadFails ctx \<Rightarrow> tx_abort ctx d s
           | DecodeFails \<Rightarrow> (Inl (invalid ''decode journal''), d, s\<lparr>broken := Some (invalid ''decode journal'')\<rparr>)
           | MarshalFails \<Rightarrow> tx_abort False d (if w then signal s else s)
           | WriteFails ctx \<Rightarrow> tx_abort ctx d (if w then signal s else s)
           | CommitFails ctx persisted \<Rightarrow> tx_abort ctx
               (if persisted then d\<lparr>state := collect cd (s_instance s) j1\<rparr> else d) (if w then signal s else s)
           | NoFault \<Rightarrow> (Inr (x, collect cd (s_instance s) j1), d\<lparr>state := collect cd (s_instance s) j1\<rparr>,
               (if w then signal s else s)\<lparr>deadlines := pruneDeadlines (collect cd (s_instance s) j1)
                  (deadlines (if w then signal s else s))\<rparr>))"
          using base \<open>decode (state d) = Inr j\<close> fn Inr p
          by (cases fault) (simp_all add: transaction_def Let_def)
        have dl: "deadlines (if w then signal s else s) = deadlines s" by (simp add: signal_def)
        note facts = base \<open>decode (state d) = Inr j\<close> [unfolded j] fn [unfolded j Inr p]
        show ?thesis
        proof (cases fault)
          case NoFault
          then show ?thesis using committed [OF _ facts(2) facts(3)] base assms run dl by auto
        next
          case (CommitFails ctx persisted)
          then show ?thesis using lost [OF _ _ _ facts(2) facts(3)] kept base assms run
            by (cases persisted) (auto simp: tx_abort_def split: prod.splits)
        qed (use assms run kept in \<open>auto simp: tx_abort_def split: prod.splits\<close>)
      qed
    qed
  qed
qed

definition dinv :: "disk \<Rightarrow> bool" where
  "dinv d \<longleftrightarrow> jinv (owner d) (state d)"

text \<open>
  If every body run of the owner keeps a property of the journal, so does the transaction.
\<close>

lemma transaction_dinv:
  assumes "transaction cd fault fn d s = (r, d', s')" "dinv d"
    and "\<And>w j1 x. owner d = s_instance s \<Longrightarrow> fn (state d) = (w, Inr (j1, x)) \<Longrightarrow> jinv (owner d) j1"
  shows "dinv d'" "owner d' = owner d"
  using assms(1)
  by (cases rule: transaction_cases; use assms(2,3) in \<open>auto simp: dinv_def intro!: jinv_collect\<close>)+

section \<open>The operations keep the invariant\<close>

definition fresh_nonces :: "string list \<Rightarrow> disk \<Rightarrow> bool" where
  "fresh_nonces ns d \<longleftrightarrow> list_all (\<lambda>n. gget (Permits (state d)) n = None) ns"

lemma Reserve_cases:
  assumes "Reserve cd f1 f2 t1 t2 t3 ns subject bound d s = (r, d', s')"
  obtains (refused) e where "r = Inl e" "d' = d" "s' = s"
  | (first) rr where "transaction cd f1 (reserve_body cd s subject bound t1 ns) d s = (rr, d', s')"
      "0 \<le> bound" "Team subject \<noteq> ''''"
      "r = (case rr of Inr ((None, Some p, _), _) \<Rightarrow> Inr p | Inr ((Some e, _, _), _) \<Rightarrow> Inl e
            | Inr ((None, None, _), _) \<Rightarrow> Inl (invalid ''missing undispatched permit'') | Inl e \<Rightarrow> Inl e)"
      "\<And>p ex j. rr = Inr ((None, Some p, ex), j) \<Longrightarrow> ex = 0 \<or> t2 < ex"
  | (undone) d1 s1 p ex j rr s2 e where
      "transaction cd f1 (reserve_body cd s subject bound t1 ns) d s = (Inr ((None, Some p, ex), j), d1, s1)"
      "0 \<le> bound" "Team subject \<noteq> ''''" "ex \<noteq> 0" "\<not> t2 < ex"
      "transaction cd f2 (undispatch_body s1 (ID p) t3) d1 s1 = (rr, d', s2)" "s' = signal s2" "r = Inl e"
proof (cases "bound < 0 \<or> Team subject = ''''")
  case True
  then show ?thesis using assms refused by (auto simp: Reserve_def)
next
  case False
  obtain rr d1 s1 where t: "transaction cd f1 (reserve_body cd s subject bound t1 ns) d s = (rr, d1, s1)"
    by (metis prod_cases3)
  note run = assms [unfolded Reserve_def t]
  show ?thesis
  proof (cases "\<exists>p ex j. rr = Inr ((None, Some p, ex), j) \<and> ex \<noteq> 0 \<and> \<not> t2 < ex")
    case True
    then obtain p ex j where rr: "rr = Inr ((None, Some p, ex), j)" "ex \<noteq> 0" "\<not> t2 < ex" by blast
    obtain ru d2 s2 where u: "transaction cd f2 (undispatch_body s1 (ID p) t3) d1 s1 = (ru, d2, s2)"
      by (metis prod_cases3)
    show ?thesis using undone [OF t [unfolded rr(1)] _ _ rr(2,3), of ru s2] run False rr u
      by (auto split: sum.splits)
  next
    case no: False
    show ?thesis using first [of rr] t run False no
      by (auto split: sum.splits option.splits if_splits)
  qed
qed

lemma Reserve_dinv:
  assumes inv: "dinv d" and h: "0 \<le> t1" "bound \<le> max_i64" "fresh_nonces ns d"
    and run: "Reserve cd f1 f2 t1 t2 t3 ns subject bound d s = (r, d', s')"
  shows "dinv d' \<and> owner d' = owner d"
proof -
  have body: "jinv (owner d) j1"
    if "0 \<le> bound" "reserve_body cd s subject bound t1 ns (state d) = (w, Inr (j1, x))" for w j1 x
  proof -
    obtain e bp ex where x: "x = (e, bp, ex)" by (cases x)
    show ?thesis
      by (rule reserve_body_jinv [OF inv [unfolded dinv_def] h(1) that(1) h(2) _ that(2) [unfolded x]])
        (use h(3) in \<open>auto simp: fresh_nonces_def list_all_iff\<close>)
  qed
  from run show ?thesis
  proof (cases rule: Reserve_cases)
    case refused
    then show ?thesis using inv by simp
  next
    case (first rr)
    then show ?thesis using transaction_dinv [OF first(1) inv] body by blast
  next
    case (undone d1 s1 p ex j rr s2 e)
    have d1: "dinv d1" "owner d1 = owner d" using transaction_dinv [OF undone(1) inv] body undone(2) by blast+
    show ?thesis
      using transaction_dinv [OF undone(6) d1(1)] undispatch_body_jinv d1 by (metis dinv_def)
  qed
qed

lemma Finish_cases:
  assumes "Finish cd fault now authorization actual complete d s = (r, d', s')"
  obtains (refused) e where "r = Some e" "d' = d" "s' = s"
  | (run) a rr s1 where "authorization = Some a" "ID a \<noteq> ''''" "0 \<le> BoundMicroUSD a"
      "\<forall>n\<in>set_option actual. 0 \<le> n"
      "transaction cd fault (finish_body s a actual (if bp_InvalidUsage a then False else complete) now) d s = (rr, d', s1)"
      "r = (case rr of Inl e \<Rightarrow> Some e | Inr (e, _) \<Rightarrow> e)" "s' = (case rr of Inl _ \<Rightarrow> s1 | Inr _ \<Rightarrow> signal s1)"
proof (cases authorization)
  case None
  then show ?thesis using assms refused by (auto simp: Finish_def)
next
  case (Some a)
  show ?thesis
  proof (cases "ID a = '''' \<or> BoundMicroUSD a < 0 \<or> (case actual of Some n \<Rightarrow> n < 0 | None \<Rightarrow> False)")
    case True
    then show ?thesis using assms refused Some by (auto simp: Finish_def)
  next
    case False
    obtain rr d1 s1 where t: "transaction cd fault
        (finish_body s a actual (if bp_InvalidUsage a then False else complete) now) d s = (rr, d1, s1)"
      by (metis prod_cases3)
    have "(r, d', s') = (case rr of Inl e \<Rightarrow> (Some e, d1, s1) | Inr (e, _) \<Rightarrow> (e, d1, signal s1))"
      using assms Some False t by (auto simp: Finish_def Let_def split: sum.splits)
    then show ?thesis using run [OF Some _ _ _ _, of rr s1] False t
      by (cases rr) (auto split: option.splits)
  qed
qed

lemma Finish_dinv:
  assumes inv: "dinv d" and act: "\<forall>n\<in>set_option actual. n \<le> max_i64"
    and fin: "Finish cd fault now authorization actual complete d s = (r, d', s')"
  shows "dinv d' \<and> owner d' = owner d"
  using fin
proof (cases rule: Finish_cases)
  case refused
  then show ?thesis using inv by simp
next
  case (run a rr s1)
  have "\<forall>n\<in>set_option actual. 0 \<le> n \<and> n \<le> max_i64" using act run(4) by blast
  from transaction_dinv [OF run(5) inv] finish_body_jinv [OF inv [unfolded dinv_def] this]
  show ?thesis by metis
qed

lemma Request_dinv:
  assumes inv: "dinv d" and run: "Request cd fault now d s = (r, d', s')"
  shows "dinv d' \<and> owner d' = owner d"
proof -
  obtain rr d1 s1 where t: "transaction cd fault (request_body s now) d s = (rr, d1, s1)"
    by (metis prod_cases3)
  have "d' = d1" using run t by (auto simp: Request_def split: sum.splits)
  then show ?thesis using transaction_dinv [OF t inv] request_body_jinv [OF inv [unfolded dinv_def]]
    by blast
qed

lemma Apply_cases:
  assumes "Apply cd fault received response rtt d s = (r, d', s')"
  obtains (refused) e where "r = Some e" "d' = d" "s' = s"
  | (run) bs rr s1 where "validateBudgets response = Inr bs" "0 \<le> rtt"
      "transaction cd fault (apply_body cd s received response rtt bs) d s = (rr, d', s1)"
      "case rr of Inl e \<Rightarrow> r = Some e \<and> s' = s1
       | Inr ((stale, dls, wins), j') \<Rightarrow> (r = None \<longleftrightarrow> \<not> stale) \<and>
           s' = s1\<lparr>deadlines := pruneDeadlines j' dls, windows := wins\<rparr>"
proof (cases "rs_Protocol response \<noteq> AuthorityProtocol \<or> \<not> utcTime (rs_ServerTime response) \<or> rtt < 0")
  case True
  then show ?thesis using assms refused by (auto simp: Apply_def)
next
  case False
  note ok = this
  show ?thesis
  proof (cases "validateBudgets response")
    case (Inl e)
    then show ?thesis using assms refused ok by (auto simp: Apply_def)
  next
    case (Inr bs)
    obtain rr d1 s1 where t: "transaction cd fault (apply_body cd s received response rtt bs) d s = (rr, d1, s1)"
      by (metis prod_cases3)
    then show ?thesis using assms run [OF Inr, of rr s1] ok Inr
      by (auto simp: Apply_def split: sum.splits if_splits)
  qed
qed

lemma Apply_dinv:
  assumes inv: "dinv d" and ok: "response_ok response"
    and ap: "Apply cd fault received response rtt d s = (r, d', s')"
  shows "dinv d' \<and> owner d' = owner d"
  using ap
proof (cases rule: Apply_cases)
  case refused
  then show ?thesis using inv by simp
next
  case (run bs rr s1)
  show ?thesis using transaction_dinv [OF run(3) inv] apply_body_jinv [OF _ run(1) ok] inv
    by (metis dinv_def)
qed

lemma Open_dinv:
  assumes "\<forall>d0. row = Some d0 \<longrightarrow> dinv d0" "Open cd path io nonce row = Inr (d, s)"
  shows "dinv d" "owner d = s_instance s" "nonce = Some (owner d)"
    "gget (jGrants (state d)) i = Some g \<Longrightarrow> spent g" "gget (Permits (state d)) n = Some p \<Longrightarrow> Done p"
    "Poisoned (state d) = (case row of None \<Rightarrow> False | Some d0 \<Rightarrow> Poisoned (state d0))" "\<not> Ready (state d)"
    "deadlines s = []"
proof -
  from assms(2) obtain own where own: "nonce = Some own" "initialize cd own (map_option state row) = Inr d"
    "s = \<lparr>s_instance = own, wake = True, closed = False, broken = None, deadlines = [], windows = []\<rparr>"
    by (auto simp: Open_def split: if_splits option.splits elim!: rbind_InrE)
  have inv: "jinv (case row of None \<Rightarrow> '''' | Some d0 \<Rightarrow> owner d0) j" if "map_option state row = Some j" for j
    using that assms(1) by (auto simp: dinv_def)
  note I = jinv_initialize [OF own(2) inv]
  show "dinv d" "owner d = s_instance s" "nonce = Some (owner d)" "\<not> Ready (state d)" "deadlines s = []"
    "gget (jGrants (state d)) i = Some g \<Longrightarrow> spent g" "gget (Permits (state d)) n = Some p \<Longrightarrow> Done p"
    "Poisoned (state d) = (case row of None \<Rightarrow> False | Some d0 \<Rightarrow> Poisoned (state d0))"
    using I own by (auto simp: dinv_def split: option.splits)
qed

end
