(* ===== verification/Authority_Progress.thy ===== *)
theory Authority_Progress
  imports Authority
begin

text \<open>
  What a grant may become. No operation refunds what a grant has consumed, reopens a closed
  grant or changes a reported field without raising the report sequence, and a grant leaves
  the journal only when its final report is acknowledged.
\<close>

definition same_report :: "grant \<Rightarrow> grant \<Rightarrow> bool" where
  "same_report g g' \<longleftrightarrow> Consumed g' = Consumed g \<and> Observed g' = Observed g \<and> Closed g' = Closed g \<and>
     (Overrun g' = Overrun g \<or> Overrun g' \<and> \<not> Closed g')"

definition advances :: "grant \<Rightarrow> grant \<Rightarrow> bool" where
  "advances g g' \<longleftrightarrow> Wire g' = Wire g \<and> g_Instance g' = g_Instance g \<and> Consumed g \<le> Consumed g' \<and>
     Observed g \<le> Observed g' \<and> Sequence g \<le> Sequence g' \<and> Sent g \<le> Sent g' \<and> Ack g \<le> Ack g' \<and>
     (Closed g \<longrightarrow> Closed g') \<and> (Overrun g \<longrightarrow> Overrun g') \<and>
     (Sequence g' = Sequence g \<longrightarrow> same_report g g')"

lemma same_report_refl [simp]: "same_report g g"
  by (simp add: same_report_def)

lemma same_report_trans: "same_report a b \<Longrightarrow> same_report b c \<Longrightarrow> same_report a c"
  unfolding same_report_def by (elim conjE) (intro conjI; simp; argo?)

lemma advances_refl [simp]: "advances g g"
  by (simp add: advances_def)

lemma advances_trans:
  assumes "advances a b" "advances b c"
  shows "advances a c"
proof -
  have "same_report a c" if "Sequence c = Sequence a"
  proof (rule same_report_trans)
    have "Sequence b = Sequence a" "Sequence c = Sequence b" using assms that by (simp_all add: advances_def)
    then show "same_report a b" "same_report b c" using assms by (simp_all add: advances_def)
  qed
  then show ?thesis using assms by (simp add: advances_def)
qed

definition grows :: "(string, grant) gomap \<Rightarrow> (string, grant) gomap \<Rightarrow> bool" where
  "grows gs gs' \<longleftrightarrow> (\<forall>i g. gget gs i = Some g \<longrightarrow> (\<exists>g'. gget gs' i = Some g' \<and> advances g g'))"

lemma growsI: "(\<And>i g. gget gs i = Some g \<Longrightarrow> \<exists>g'. gget gs' i = Some g' \<and> advances g g') \<Longrightarrow> grows gs gs'"
  by (simp add: grows_def)

lemma growsD: "grows gs gs' \<Longrightarrow> gget gs i = Some g \<Longrightarrow> gget gs' i = Some g' \<Longrightarrow> advances g g'"
  unfolding grows_def by (metis option.inject)

lemma grows_refl [simp]: "grows gs gs"
  by (simp add: grows_def)

lemma grows_trans: "grows a b \<Longrightarrow> grows b c \<Longrightarrow> grows a c"
  unfolding grows_def using advances_trans by meson

lemma grows_gput: "gget gs i = Some g \<Longrightarrow> advances g g' \<Longrightarrow> grows gs (gput i g' gs)"
  by (auto simp: grows_def gget_gput)

section \<open>The pieces\<close>

lemma advances_close: "closeGrant g = Inr g' \<Longrightarrow> advances g g'"
  using closeGrant_cases by (fastforce simp: advances_def)

lemma gmapM_grows:
  assumes m: "gmapM f gs = Inr gs'" and f: "\<And>i g g'. gget gs i = Some g \<Longrightarrow> f i g = Inr g' \<Longrightarrow> advances g g'"
  shows "grows gs gs'"
  using gmapM_gget [OF m] f by (meson growsI)

lemma closeInactive_grows:
  assumes "closeInactive s j now = Inr j'"
  shows "grows (jGrants j) (jGrants j')"
proof -
  from assms obtain gs where "gmapM (\<lambda>_ g. if Closed g \<or> Pending g \<noteq> 0 then Inr g
      else if inactive s j now g then closeGrant g else Inr g) (jGrants j) = Inr gs" "jGrants j' = gs"
    by (auto simp: closeInactive_def elim!: rbind_InrE)
  then show ?thesis by (auto intro!: gmapM_grows intro: advances_close split: if_splits)
qed

lemma pick_grant_grows:
  "pick_grant s b bound now is gs = Inr (gs', found) \<Longrightarrow> grows gs gs'"
proof (induction s b bound now "is" gs rule: pick_grant.induct)
  case (1 s b bound now gs)
  then show ?case by simp
next
  case (2 s b bound now i "is" gs)
  show ?case
  proof (cases "gget gs i")
    case None
    then show ?thesis using 2 by simp
  next
    case (Some g)
    show ?thesis
    proof (cases "usable s g b now \<and> \<not> (0 < available g \<and> bound \<le> available g) \<and> Pending g = 0")
      case True
      with 2(5) Some obtain g' where g': "closeGrant g = Inr g'"
        and rest: "pick_grant s b bound now is (gput i g' gs) = Inr (gs', found)"
        by (auto elim!: rbind_InrE)
      have "grows (gput i g' gs) gs'" using 2(3) [OF Some _ _ _ rest] True by auto
      with grows_gput [OF Some advances_close [OF g']] show ?thesis by (rule grows_trans)
    next
      case False
      then show ?thesis using 2 Some by (auto split: if_splits)
    qed
  qed
qed

lemma reserve_budget_grows:
  assumes "reserve_budget s subject bound now key l = Inr l'" "gwf (Requests (lj l))"
  shows "grows (jGrants (lj l)) (jGrants (lj l')) \<and> gwf (Requests (lj l'))"
  using assms(1)
proof (cases rule: reserve_budget_cases)
  case (hard b gs i)
  then show ?thesis using pick_grant_grows [OF hard(6)] assms(2) by simp
next
  case (queued b gs ex j' ns x e)
  note Q = queue_ok [OF queued(5), simplified, OF assms(2)]
  have "jGrants j' = gs" by (subst Q(1)) simp
  then show ?thesis using pick_grant_grows [OF queued(4)] Q(2) queued(6) by simp
qed (use assms(2) in simp_all)

lemma reserve_loop_grows:
  assumes "reserve_loop s subject bound now ns j = Inr l" "gwf (Requests j)"
  shows "grows (jGrants j) (jGrants (lj l))"
proof -
  have "grows (jGrants j) (jGrants (lj l)) \<and> gwf (Requests (lj l))"
  proof (rule rfold_invariant [OF assms(1) [unfolded reserve_loop_def],
        of "\<lambda>l. grows (jGrants j) (jGrants (lj l)) \<and> gwf (Requests (lj l))"])
    fix x l l' assume "grows (jGrants j) (jGrants (lj l)) \<and> gwf (Requests (lj l))"
      "reserve_budget s subject bound now x l = Inr l'"
    then show "grows (jGrants j) (jGrants (lj l')) \<and> gwf (Requests (lj l'))"
      using reserve_budget_grows grows_trans by blast
  qed (simp add: assms(2))
  then show ?thesis ..
qed

lemma take_reservations_grow:
  assumes "rfold (take_reservation bound) is gs = Inr gs'"
  shows "grows gs gs'"
proof (rule rfold_invariant [OF assms, of "grows gs"])
  fix i a b assume "grows gs a" "take_reservation bound i a = Inr b"
  moreover from this(2) have "grows a b"
    by (auto simp: take_reservation_def advances_def same_report_def split: option.splits elim!: rbind_InrE intro!: grows_gput)
  ultimately show "grows gs b" by (blast intro: grows_trans)
qed simp

lemma reserve_body_grows:
  assumes "reserve_body cd s subject bound now ns j = (w, Inr (j', x))" "gwf (Requests j)"
  shows "grows (jGrants j) (jGrants j')"
proof -
  obtain e bp ex where x: "x = (e, bp, ex)" by (cases x)
  have pre: "grows (jGrants j) (jGrants (lj l))"
    if "closeInactive s j now = Inr j1" "reserve_loop s subject bound now ns j1 = Inr l" for j1 l
    using closeInactive_grows [OF that(1)] reserve_loop_grows [OF that(2)] closeInactive_frame(5) [OF that(1)]
      assms(2) grows_trans by metis
  from assms(1) [unfolded x] show ?thesis
  proof (cases rule: reserve_body_cases)
    case (denied j1 l e')
    then show ?thesis using pre by simp
  next
    case (granted j1 l)
    from granted(4) show ?thesis
    proof (cases rule: grant_permit_cases)
      case (1 n gs)
      then show ?thesis using grows_trans [OF pre [OF granted(1,2)] take_reservations_grow [OF 1(2)]] by simp
    qed
  qed
qed

lemma updates_grow:
  assumes "\<And>g. advances g (f g)"
  shows "grows gs (fold (update_at f) is gs)"
proof (induction "is" arbitrary: gs)
  case Nil
  then show ?case by simp
next
  case (Cons i "is")
  have "grows gs (update_at f i gs)" using assms by (auto simp: grows_def gget_update_at)
  with Cons.IH show ?case by (auto intro: grows_trans)
qed

lemma updates_grow_members:
  assumes "distinct is" "\<And>i g. i \<in> set is \<Longrightarrow> gget gs i = Some g \<Longrightarrow> advances g (f g)"
  shows "grows gs (fold (update_at f) is gs)"
  by (rule growsI) (use assms in \<open>auto simp: gget_updates\<close>)

lemma finish_body_grows:
  assumes inv: "jinv own j" and actual: "\<forall>n\<in>set_option actual. 0 \<le> n"
    and run: "finish_body s a actual complete now j = (w, Inr (j', r))"
  shows "grows (jGrants j) (jGrants j')"
  using run
proof (cases rule: finish_body_cases)
  case replay
  then show ?thesis by simp
next
  case (poisoned p e)
  have "distinct (Grants p)" using jinvD(5) [OF inv poisoned(1)] by (simp add: permit_ok_def)
  moreover have "advances g (g\<lparr>Overrun := True\<rparr>)" if "i \<in> set (Grants p)" "gget (jGrants j) i = Some g" for i g
    using open_permit_grant [OF inv poisoned(1,2) that(1)] that(2) by (auto simp: advances_def same_report_def)
  ultimately show ?thesis using updates_grow_members by (auto simp: poisoned(3) poison_def)
next
  case (settled p consumed observed)
  have "0 \<le> Bound p" using jinvD(5) [OF inv settled(1)] by (simp add: permit_ok_def)
  from charge_bounds [OF settled(3) this actual]
  have "advances g (settle_grant (Bound p) consumed observed over g)" for g over
    by (auto simp: advances_def same_report_def settle_grant_def Let_def)
  then have "grows (jGrants j) (jGrants (settled_journal a actual complete p j))"
    by (simp add: settled_journal_def settled(3) Let_def updates_grow)
  with closeInactive_grows [OF settled(5)] show ?thesis by (blast intro: grows_trans)
qed

lemma undispatch_body_grows:
  assumes "undispatch_body s n now j = (w, Inr (j', u))"
  shows "grows (jGrants j) (jGrants j')"
  using assms
proof (cases rule: undispatch_body_cases)
  case (1 p)
  have "grows (jGrants j) (fold (update_at (release_on (Bound p))) (Grants p) (jGrants j))"
    by (rule updates_grow) (simp add: advances_def same_report_def release_on_def)
  with closeInactive_grows [OF 1(3)] show ?thesis by (auto intro: grows_trans)
qed

lemma request_body_grows:
  assumes inv: "jinv own j" and run: "request_body s now j = (w, Inr (j', out))"
  shows "grows (jGrants j) (jGrants j')"
  using run
proof (cases rule: request_body_cases)
  case (1 j1 rs gs ms)
  have "Sent g \<le> Sequence g" if "gget (jGrants j1) i = Some g" for i g
    using jinvD(3) [OF closeInactive_jinv(1) [OF inv 1(1)] that] by (simp add: grant_ok_def grant_sane_def)
  then have "grows (jGrants j1) (jGrants j')"
    by (auto simp: 1(5) grows_def gget_mark advances_def same_report_def)
  with closeInactive_grows [OF 1(1)] show ?thesis by (rule grows_trans)
qed

lemma apply_grant_grows:
  assumes "apply_grant cd s received server rtt stale w l = Inr l'"
  shows "grows (jGrants (aj l)) (jGrants (aj l'))"
  using assms
proof (cases rule: apply_grant_cases)
  case replay
  then show ?thesis by simp
next
  case (fresh r g until)
  then show ?thesis by (auto simp: grows_def gget_gput)
qed

lemma ack_report_grows:
  "ack_report ack (j, sn) = Inr (j', sn') \<Longrightarrow> grows (jGrants j) (jGrants j')"
  by (auto simp: ack_report_def advances_def same_report_def split: option.splits if_splits intro!: grows_gput)

lemma applyAcks_grows:
  assumes "applyAcks cd r j = Inr j'"
  shows "grows (jGrants j) (jGrants j')"
proof -
  from assms obtain a b where a: "rfold ack_report (rs_ReportAcks r) (j, []) = Inr a"
    and b: "rfold (ack_meter cd) (rs_MeterAcks r) (fst a, []) = Inr b" "j' = fst b"
    by (auto simp: applyAcks_def elim!: rbind_InrE)
  have "grows (jGrants j) (jGrants (fst a))"
  proof (rule rfold_invariant [OF a, of "\<lambda>x. grows (jGrants j) (jGrants (fst x))"])
    fix x p q assume "grows (jGrants j) (jGrants (fst p))" "ack_report x p = Inr q"
    then show "grows (jGrants j) (jGrants (fst q))"
      using ack_report_grows [of x "fst p" "snd p" "fst q" "snd q"] grows_trans by auto
  qed simp
  moreover have "jGrants (fst b) = jGrants (fst a)"
  proof (rule rfold_invariant [OF b(1), of "\<lambda>x. jGrants (fst x) = jGrants (fst a)"])
    fix x p q assume "jGrants (fst p) = jGrants (fst a)" "ack_meter cd x p = Inr q"
    then show "jGrants (fst q) = jGrants (fst a)"
      using ack_meter_grants [of cd x "fst p" "snd p" "fst q" "snd q"] by simp
  qed simp
  ultimately show ?thesis by (simp add: b(2))
qed

lemma apply_body_grows:
  assumes "apply_body cd s received response rtt bs j = (w, Inr (j', r))"
  shows "grows (jGrants j) (jGrants j')"
  using assms
proof (cases rule: apply_body_cases)
  case (1 j1 wins l1 l2 j2 j3 gs stale)
  have "jGrants j1 = jGrants j" using 1(1) by (auto simp: install_snapshot_def Let_def split: if_splits)
  moreover have "grows (jGrants j1) (jGrants (aj l1))"
  proof (rule rfold_invariant [OF 1(3), of "\<lambda>l. grows (jGrants j1) (jGrants (aj l))"])
    fix x p q assume "grows (jGrants j1) (jGrants (aj p))"
      "apply_grant cd s received (rs_ServerTime response) rtt stale x p = Inr q"
    then show "grows (jGrants j1) (jGrants (aj q))" using apply_grant_grows grows_trans by blast
  qed simp
  moreover have "jGrants (aj l2) = jGrants (aj l1)"
    by (rule rfold_invariant [OF 1(4), of "\<lambda>l. jGrants (aj l) = jGrants (aj l1)"])
      (auto simp: apply_denial_def split: option.splits if_splits)
  moreover have "grows (jGrants j2) gs"
    using 1(6) by (intro gmapM_grows [OF 1(7) [unfolded 1(6)], simplified]) (auto split: if_splits intro: advances_close)
  ultimately show ?thesis using applyAcks_grows [OF 1(5)] by (auto simp: 1(8) intro: grows_trans)
qed

section \<open>Accounts across a commit\<close>

text \<open>The account is as it was, unless the grant was already final and has been collected.\<close>

definition accounts_kept :: "journal \<Rightarrow> journal \<Rightarrow> bool" where
  "accounts_kept j j' \<longleftrightarrow> (\<forall>i g. gget (jGrants j) i = Some g \<longrightarrow> (\<exists>g'. same_account g g' \<and>
     (gget (jGrants j') i = Some g' \<or> finalised g' \<and> gget (jGrants j') i = None)))"

lemma accounts_kept_collect:
  assumes "same_accounts (jGrants j) (jGrants j1)"
  shows "accounts_kept j (collect cd own j1)"
  unfolding accounts_kept_def
proof (intro allI impI)
  fix i g assume "gget (jGrants j) i = Some g"
  from same_accountsD(1) [OF assms this] obtain g' where "gget (jGrants j1) i = Some g'" "same_account g g'" by blast
  then show "\<exists>g'. same_account g g' \<and> (gget (jGrants (collect cd own j1)) i = Some g' \<or>
      finalised g' \<and> gget (jGrants (collect cd own j1)) i = None)"
    by (auto simp: gget_collect_grants)
qed

text \<open>
  A reservation that was committed and not undone: an unfinished permit carries the bound, its
  grants have the whole bound set aside, and every other account is as it was.
\<close>

definition bound_retained :: "i64 \<Rightarrow> string list \<Rightarrow> journal \<Rightarrow> journal \<Rightarrow> bool" where
  "bound_retained bound ns j j' \<longleftrightarrow>
     (\<exists>n\<in>set ns. \<exists>p. gget (Permits j') n = Some p \<and> \<not> Done p \<and> Bound p = bound \<and> distinct (Grants p)
        \<and> (\<forall>i\<in>set (Grants p). \<exists>g g'. gget (jGrants j) i = Some g \<and> gget (jGrants j') i = Some g'
             \<and> Reserved g' = Reserved g + bound \<and> Consumed g' = Consumed g)
        \<and> (\<forall>i g. i \<notin> set (Grants p) \<longrightarrow> gget (jGrants j) i = Some g \<longrightarrow> (\<exists>g'. same_account g g'
             \<and> (gget (jGrants j') i = Some g' \<or> finalised g' \<and> gget (jGrants j') i = None))))"

lemma granted_retained:
  assumes "jinv own j" "0 \<le> t1" "reserve_body cd s subject bound t1 ns j = (w, Inr (j1, None, bp, ex))"
  shows "bound_retained bound ns j (collect cd own j1)"
  using assms
proof (cases rule: reserve_body_granted)
  case (1 n p)
  have open': "gget (Permits j1) n = Some p" using 1(3) by simp
  have kept: "gget (jGrants (collect cd own j1)) i = Some g" if "i \<in> set (Grants p)" "gget (jGrants j1) i = Some g" for i g
    using that in_pendingGrants(1) [OF open' 1(4)] by (auto simp: gget_collect_grants)
  have "\<exists>g g'. gget (jGrants j) i = Some g \<and> gget (jGrants (collect cd own j1)) i = Some g'
      \<and> Reserved g' = Reserved g + bound \<and> Consumed g' = Consumed g" if "i \<in> set (Grants p)" for i
    using 1(9) [OF that] kept [OF that] by blast
  moreover have "\<exists>g'. same_account g g' \<and> (gget (jGrants (collect cd own j1)) i = Some g'
      \<or> finalised g' \<and> gget (jGrants (collect cd own j1)) i = None)"
    if other: "i \<notin> set (Grants p)" "gget (jGrants j) i = Some g" for i g
  proof -
    obtain g' where "gget (jGrants j1) i = Some g'" "same_account g g'" using 1(10) [OF other] by blast
    then show ?thesis by (auto simp: gget_collect_grants)
  qed
  moreover have "gget (Permits (collect cd own j1)) n = Some p" by (rule gget_collect_open_permit [OF open' 1(4)])
  ultimately show ?thesis using 1(2,4-6) unfolding bound_retained_def by blast
qed

text \<open>Undoing a reservation right after it was committed restores every account.\<close>

lemma undo_restores_accounts:
  assumes inv: "jinv own j" and now: "0 \<le> t1" "0 \<le> bound" "bound \<le> max_i64"
    and fresh: "\<And>n. n \<in> set ns \<Longrightarrow> gget (Permits j) n = None"
    and run: "reserve_body cd s subject bound t1 ns j = (w, Inr (j1, None, bp, ex))"
    and undo: "undispatch_body s1 n t3 (collect cd own j1) = (w', Inr (j3, u))"
    and n: "bp = Some \<lparr>ID = n, BoundMicroUSD = bound, bp_InvalidUsage = False\<rparr>"
  shows "accounts_kept j (collect cd own j3)"
  using inv now(1) run
proof (cases rule: reserve_body_granted)
  case (1 m p)
  have m: "m = n" using 1(1) n by simp
  have open': "gget (Permits j1) n = Some p" using 1(3) m by simp
  note inv1 = jinv_collect [OF reserve_body_jinv [OF inv now fresh run], of cd own]
  have p2: "gget (Permits (collect cd own j1)) n = Some p" by (rule gget_collect_open_permit [OF open' 1(4)])
  from undo obtain gs where gs: "gs = fold (update_at (release_on bound)) (Grants p) (jGrants (collect cd own j1))"
    and cl: "closeInactive s1 ((collect cd own j1)\<lparr>jGrants := gs, Permits := gput n (undone_permit p)
        (Permits (collect cd own j1))\<rparr>) t3 = Inr j3"
    using p2 1(5) by (auto elim!: undispatch_body_cases)
  note inv2 = undone_jinv [OF inv1 p2 1(4), unfolded 1(5), folded gs]
  have cls: "same_accounts gs (jGrants j3)" using closeInactive_jinv(2) [OF inv2 cl] by simp
  show ?thesis unfolding accounts_kept_def
  proof (intro allI impI)
    fix i g assume g: "gget (jGrants j) i = Some g"
    have released: "\<exists>g'. same_account g g' \<and> (gget gs i = Some g' \<or> finalised g' \<and> gget gs i = None)"
    proof (cases "i \<in> set (Grants p)")
      case True
      from 1(9) [OF True] g obtain g' where
        g': "gget (jGrants j1) i = Some g'" "same_account g (release_on bound g')" "0 < Pending g'"
        by (auto simp: release_on_def)
      have "gget (jGrants (collect cd own j1)) i = Some g'"
        using g' in_pendingGrants(1) [OF open' 1(4)] True by (auto simp: gget_collect_grants)
      then show ?thesis using g' True 1(6) by (auto simp: gs gget_updates)
    next
      case False
      from 1(10) [OF False g] obtain g' where "gget (jGrants j1) i = Some g'" "same_account g g'" by blast
      then show ?thesis using False 1(6) by (auto simp: gs gget_updates gget_collect_grants)
    qed
    then obtain g' where g': "same_account g g'" "gget gs i = Some g' \<or> finalised g' \<and> gget gs i = None" by blast
    show "\<exists>g'. same_account g g' \<and> (gget (jGrants (collect cd own j3)) i = Some g' \<or>
        finalised g' \<and> gget (jGrants (collect cd own j3)) i = None)"
    proof (cases "gget gs i")
      case None
      then have "gget (jGrants (collect cd own j3)) i = None"
        using same_accountsD(3) [OF cls, of i] by (simp add: gget_collect_grants)
      then show ?thesis using g' None by auto
    next
      case (Some h)
      then have h: "same_account g h" using g' by auto
      obtain h' where "gget (jGrants j3) i = Some h'" "same_account h h'" using same_accountsD(1) [OF cls Some] by blast
      then show ?thesis using same_account_trans [OF h] by (auto simp: gget_collect_grants)
    qed
  qed
qed

text \<open>Closing idle grants moves no acknowledgement.\<close>

lemma closeInactive_ack:
  assumes "closeInactive s j now = Inr j'" "gget (jGrants j) i = Some g" "gget (jGrants j') i = Some g'"
  shows "Ack g' = Ack g"
proof -
  let ?f = "\<lambda>_ g. if Closed g \<or> Pending g \<noteq> 0 then Inr g
                  else if inactive s j now g then closeGrant g else Inr g"
  from assms(1) obtain gs where gs: "gmapM ?f (jGrants j) = Inr gs" "jGrants j' = gs"
    by (auto simp: closeInactive_def elim!: rbind_InrE)
  from gmapM_gget [OF gs(1) assms(2)] obtain h where h: "?f i g = Inr h" "gget gs i = Some h" by blast
  then have "h = g'" using assms(3) gs(2) by simp
  with h(1) show ?thesis by (auto split: if_splits dest: closeGrant_cases)
qed

section \<open>Progress across operations\<close>

definition progress :: "journal \<Rightarrow> journal \<Rightarrow> bool" where
  "progress j j' \<longleftrightarrow> (\<forall>i g. gget (jGrants j) i = Some g \<longrightarrow> (\<exists>g'. advances g g' \<and>
     (gget (jGrants j') i = Some g' \<or> finalised g' \<and> gget (jGrants j') i = None)))"

lemma progress_refl [simp]: "progress j j"
  by (auto simp: progress_def)

lemma progress_collect:
  assumes "grows (jGrants j) (jGrants j1)"
  shows "progress j (collect cd own j1)"
  unfolding progress_def
proof (intro allI impI)
  fix i g assume "gget (jGrants j) i = Some g"
  with assms obtain g' where "gget (jGrants j1) i = Some g'" "advances g g'" by (auto simp: grows_def)
  then show "\<exists>g'. advances g g' \<and> (gget (jGrants (collect cd own j1)) i = Some g' \<or>
      finalised g' \<and> gget (jGrants (collect cd own j1)) i = None)"
    by (auto simp: gget_collect_grants)
qed

lemma progress_trans:
  assumes "progress a b" "progress b c" "\<And>i. gget (jGrants b) i = None \<Longrightarrow> gget (jGrants c) i = None"
  shows "progress a c"
  unfolding progress_def
proof (intro allI impI)
  fix i g assume "gget (jGrants a) i = Some g"
  with assms(1) obtain g' where g': "advances g g'"
    "gget (jGrants b) i = Some g' \<or> finalised g' \<and> gget (jGrants b) i = None" by (auto simp: progress_def)
  then show "\<exists>g'. advances g g' \<and> (gget (jGrants c) i = Some g' \<or> finalised g' \<and> gget (jGrants c) i = None)"
    using assms(2,3) advances_trans [OF g'(1)] unfolding progress_def by metis
qed

text \<open>A property of the row that every body keeps up to collection.\<close>

lemma transaction_state:
  assumes "transaction cd fault fn d s = (r, d', s')" "Q (state d)"
    and "\<And>w j1 x. owner d = s_instance s \<Longrightarrow> fn (state d) = (w, Inr (j1, x)) \<Longrightarrow> Q (collect cd (s_instance s) j1)"
  shows "Q (state d')"
  using assms(1) by (cases rule: transaction_cases) (use assms(2,3) in auto)

lemma closeInactive_dom:
  assumes "closeInactive s j now = Inr j'"
  shows "gget (jGrants j') i = None \<longleftrightarrow> gget (jGrants j) i = None"
  using assms by (auto simp: closeInactive_def gget_gmapv dest!: gmapM_gmapv elim!: rbind_InrE)

lemma undispatch_body_dom:
  assumes "undispatch_body s n now j = (w, Inr (j', u))"
  shows "gget (jGrants j') i = None \<longleftrightarrow> gget (jGrants j) i = None"
  using assms by (cases rule: undispatch_body_cases) (simp add: closeInactive_dom updates_dom)

lemma Reserve_progress:
  assumes inv: "dinv d" and run: "Reserve cd f1 f2 t1 t2 t3 ns subject bound d s = (r, d', s')"
  shows "progress (state d) (state d')"
proof -
  have wf: "gwf (Requests (state d))" using inv by (simp add: dinv_def jinv_wf)
  have one: "progress (state d) (state e)"
    if "transaction cd f1 (reserve_body cd s subject bound t1 ns) d s = (x, e, s1)" for x e s1
    using that by (rule transaction_state) (use wf in \<open>auto intro: progress_collect reserve_body_grows\<close>)
  from run show ?thesis
  proof (cases rule: Reserve_cases)
    case refused
    then show ?thesis by simp
  next
    case (first rr)
    then show ?thesis using one by blast
  next
    case (undone d1 s1 p ex j rr s2 e)
    have p2: "progress (state d1) (state d')"
      using undone(6) by (rule transaction_state) (auto intro: progress_collect undispatch_body_grows)
    have gone: "gget (jGrants (state d')) i = None" if "gget (jGrants (state d1)) i = None" for i
      using undone(6) that by (rule transaction_state)
        (use that in \<open>auto simp: gget_collect_grants dest!: undispatch_body_dom [of _ _ _ _ _ _ _ i]\<close>)
    show ?thesis by (rule progress_trans [OF one [OF undone(1)] p2 gone])
  qed
qed

lemma Finish_progress:
  assumes inv: "dinv d" and fin: "Finish cd fault now authorization actual complete d s = (r, d', s')"
  shows "progress (state d) (state d')"
  using fin
proof (cases rule: Finish_cases)
  case refused
  then show ?thesis by simp
next
  case (run a rr s1)
  from run(5) show ?thesis
    by (rule transaction_state)
      (use finish_body_grows [OF inv [unfolded dinv_def] run(4)] in \<open>auto intro: progress_collect\<close>)
qed

lemma Request_progress:
  assumes inv: "dinv d" and run: "Request cd fault now d s = (r, d', s')"
  shows "progress (state d) (state d')"
proof -
  obtain rr d1 s1 where t: "transaction cd fault (request_body s now) d s = (rr, d1, s1)"
    by (metis prod_cases3)
  have "d' = d1" using run t by (auto simp: Request_def split: sum.splits)
  moreover from t have "progress (state d) (state d1)"
    by (rule transaction_state)
      (use request_body_grows [OF inv [unfolded dinv_def]] in \<open>auto intro: progress_collect\<close>)
  ultimately show ?thesis by simp
qed

lemma Apply_progress:
  assumes "Apply cd fault received response rtt d s = (r, d', s')"
  shows "progress (state d) (state d')"
  using assms
proof (cases rule: Apply_cases)
  case refused
  then show ?thesis by simp
next
  case (run bs rr s1)
  from run(3) show ?thesis by (rule transaction_state) (auto intro: progress_collect apply_body_grows)
qed

lemma Open_progress:
  assumes inv: "dinv d0" and run: "Open cd path io nonce (Some d0) = Inr (d, s)"
  shows "progress (state d0) (state d)"
proof -
  from run obtain own where "initialize cd own (Some (state d0)) = Inr d"
    by (auto simp: Open_def split: if_splits option.splits elim!: rbind_InrE)
  then obtain j where j: "retire (state d0) = Inr j"
    and d: "state d = collect cd own (j\<lparr>Ready := False, ServerTime := zero_ztime, Budgets := []\<rparr>)"
    using jinv_decode [OF inv [unfolded dinv_def]] by (auto simp: initialize_def elim!: rbind_InrE)
  from j obtain j1 gs where j1: "rfold retire_permit (Permits (state d0)) (state d0) = Inr j1"
    and gs: "gmapM (\<lambda>_ g. retire_grant g) (jGrants j1) = Inr gs" "jGrants j = gs"
    unfolding retire_def by (auto elim!: rbind_InrE)
  have "jGrants j1 = jGrants (state d0)"
    using retire_permits [OF inv [unfolded dinv_def] j1] by (simp add: retiring_def grants_frame_def)
  moreover have "advances g g'" if "retire_grant g = Inr g'" for g g'
    using that by (auto simp: retire_grant_def bump_Inr_iff advances_def elim!: rbind_InrE)
  ultimately have "grows (jGrants (state d0)) (jGrants j)"
    using gmapM_grows [OF gs(1)] gs(2) by simp
  then show ?thesis unfolding d by (intro progress_collect) simp
qed

end
