(* ===== verification/Authority_System.thy ===== *)
theory Authority_System
  imports Authority_Progress
begin

text \<open>
  Runs of the node journal: boots, crashes, reservations, settlements and exchanges in any
  order and with any database fault. A crash is a handle that takes no further step.
\<close>

section \<open>Runs\<close>

record sys =
  row :: "disk option"
  handles :: "Store list"

datatype event =
    EOpen string "auth_error option" "string option"
  | EClose nat
  | EReserve nat tx_fault tx_fault gotime gotime gotime "string list" Subject i64
  | EFinish nat tx_fault gotime "BudgetPermit option" "i64 option" bool
  | ERequest nat tx_fault gotime
  | EApply nat tx_fault gotime AuthorityResponse duration

definition on_handle :: "nat \<Rightarrow> (disk \<Rightarrow> Store \<Rightarrow> 'r \<times> disk \<times> Store) \<Rightarrow> sys \<Rightarrow> sys" where
  "on_handle k f y =
     (if k < length (handles y)
      then (case row y of
          None \<Rightarrow> y
        | Some d \<Rightarrow> (case f d (handles y ! k) of (_, d', s') \<Rightarrow>
            y\<lparr>row := Some d', handles := (handles y)[k := s']\<rparr>))
      else y)"

fun exec :: "codec \<Rightarrow> event \<Rightarrow> sys \<Rightarrow> sys" where
  "exec cd (EOpen path io nonce) y =
     (case Open cd path io nonce (row y) of
        Inl _ \<Rightarrow> y
      | Inr (d, s) \<Rightarrow> y\<lparr>row := Some d, handles := handles y @ [s]\<rparr>)"
| "exec cd (EClose k) y =
     (if k < length (handles y) then y\<lparr>handles := (handles y)[k := Close (handles y ! k)]\<rparr> else y)"
| "exec cd (EReserve k f1 f2 t1 t2 t3 ns subject bound) y =
     on_handle k (Reserve cd f1 f2 t1 t2 t3 ns subject bound) y"
| "exec cd (EFinish k fault now a actual complete) y =
     on_handle k (Finish cd fault now a actual complete) y"
| "exec cd (ERequest k fault now) y = on_handle k (Request cd fault now) y"
| "exec cd (EApply k fault received response rtt) y =
     on_handle k (Apply cd fault received response rtt) y"

text \<open>
  What the environment guarantees: clocks after Go's zero instant, 64-bit arguments, and
  random permit ids that the journal does not hold yet.
\<close>

fun event_ok :: "event \<Rightarrow> sys \<Rightarrow> bool" where
  "event_ok (EReserve k f1 f2 t1 t2 t3 ns subject bound) y \<longleftrightarrow> 0 \<le> t1 \<and> in_i64 bound \<and>
     (case row y of None \<Rightarrow> True | Some d \<Rightarrow> fresh_nonces ns d)"
| "event_ok (EFinish k fault now a actual complete) y \<longleftrightarrow>
     (case actual of None \<Rightarrow> True | Some n \<Rightarrow> in_i64 n)"
| "event_ok (EApply k fault received response rtt) y \<longleftrightarrow> response_ok response"
| "event_ok _ y \<longleftrightarrow> True"

definition boot0 :: sys where
  "boot0 = \<lparr>row = None, handles = []\<rparr>"

inductive reachable :: "codec \<Rightarrow> sys \<Rightarrow> bool" for cd where
  start: "reachable cd boot0"
| step: "reachable cd y \<Longrightarrow> event_ok e y \<Longrightarrow> reachable cd (exec cd e y)"

text \<open>A list of events, checked as it runs.\<close>

fun run :: "codec \<Rightarrow> event list \<Rightarrow> sys \<Rightarrow> sys option" where
  "run cd [] y = Some y"
| "run cd (e # es) y = (if event_ok e y then run cd es (exec cd e y) else None)"

lemma reachable_run:
  assumes "reachable cd y" "run cd es y = Some y'"
  shows "reachable cd y'"
  using assms by (induction es arbitrary: y) (auto split: if_splits intro: reachable.step)

section \<open>The invariant of a run\<close>

definition sys_inv :: "sys \<Rightarrow> bool" where
  "sys_inv y \<longleftrightarrow> (\<forall>d. row y = Some d \<longrightarrow> dinv d)"

lemma on_handle_cases:
  obtains (idle) "on_handle k f y = y"
  | (ran) d r d' s' where "k < length (handles y)" "row y = Some d" "f d (handles y ! k) = (r, d', s')"
      "on_handle k f y = y\<lparr>row := Some d', handles := (handles y)[k := s']\<rparr>"
proof (cases "k < length (handles y) \<and> row y \<noteq> None")
  case True
  then obtain d where d: "row y = Some d" by auto
  obtain r d' s' where "f d (handles y ! k) = (r, d', s')" by (metis prod_cases3)
  then show ?thesis using ran True d by (simp add: on_handle_def)
next
  case False
  then show ?thesis using idle by (auto simp: on_handle_def split: option.splits)
qed

text \<open>Every event acts on the row by one operation of the journal, or not at all.\<close>

lemma exec_row:
  assumes "event_ok e y" "sys_inv y"
  obtains (same) "row (exec cd e y) = row y"
  | (opened) path io nonce d s where "Open cd path io nonce (row y) = Inr (d, s)" "row (exec cd e y) = Some d"
  | (reserved) d d' k f1 f2 t1 t2 t3 ns subject bound r s' where "row y = Some d" "row (exec cd e y) = Some d'"
      "0 \<le> t1" "bound \<le> max_i64" "fresh_nonces ns d"
      "Reserve cd f1 f2 t1 t2 t3 ns subject bound d (handles y ! k) = (r, d', s')"
  | (finished) d d' k fault now a actual complete r s' where "row y = Some d" "row (exec cd e y) = Some d'"
      "\<forall>n\<in>set_option actual. n \<le> max_i64"
      "Finish cd fault now a actual complete d (handles y ! k) = (r, d', s')"
  | (requested) d d' k fault now r s' where "row y = Some d" "row (exec cd e y) = Some d'"
      "Request cd fault now d (handles y ! k) = (r, d', s')"
  | (applied) d d' k fault received response rtt r s' where "row y = Some d" "row (exec cd e y) = Some d'"
      "response_ok response" "Apply cd fault received response rtt d (handles y ! k) = (r, d', s')"
proof (cases e)
  case (EOpen path io nonce)
  then show ?thesis using opened [of path io nonce] same
    by (cases "Open cd path io nonce (row y)") auto
next
  case (EClose k)
  then show ?thesis using same by simp
next
  case (EReserve k f1 f2 t1 t2 t3 ns subject bound)
  show ?thesis
  proof (cases rule: on_handle_cases [of k "Reserve cd f1 f2 t1 t2 t3 ns subject bound" y])
    case idle
    then show ?thesis using same EReserve by simp
  next
    case (ran d r d' s')
    then show ?thesis using reserved [OF ran(2) _ _ _ _ ran(3)] EReserve assms(1) by (simp add: in_i64_def)
  qed
next
  case (EFinish k fault now a actual complete)
  have act: "\<forall>n\<in>set_option actual. n \<le> max_i64"
    using assms(1) EFinish by (auto simp: in_i64_def split: option.splits)
  show ?thesis
  proof (cases rule: on_handle_cases [of k "Finish cd fault now a actual complete" y])
    case idle
    then show ?thesis using same EFinish by simp
  next
    case (ran d r d' s')
    then show ?thesis using finished [OF ran(2) _ act ran(3)] EFinish assms(1) by simp
  qed
next
  case (ERequest k fault now)
  show ?thesis
  proof (cases rule: on_handle_cases [of k "Request cd fault now" y])
    case idle
    then show ?thesis using same ERequest by simp
  next
    case (ran d r d' s')
    then show ?thesis using requested [OF ran(2) _ ran(3)] ERequest assms(1) by simp
  qed
next
  case (EApply k fault received response rtt)
  show ?thesis
  proof (cases rule: on_handle_cases [of k "Apply cd fault received response rtt" y])
    case idle
    then show ?thesis using same EApply by simp
  next
    case (ran d r d' s')
    then show ?thesis using applied [OF ran(2) _ _ ran(3)] EApply assms(1) by simp
  qed
qed

lemma exec_sys_inv:
  assumes ok: "event_ok e y" and inv: "sys_inv y"
  shows "sys_inv (exec cd e y)"
  using ok inv
proof (cases rule: exec_row [where cd = cd])
  case same
  then show ?thesis using inv by (simp add: sys_inv_def)
next
  case (opened path io nonce d s)
  then show ?thesis using Open_dinv(1) [OF inv [unfolded sys_inv_def] opened(1)] by (simp add: sys_inv_def)
next
  case (reserved d d' k f1 f2 t1 t2 t3 ns subject bound r s')
  then show ?thesis using Reserve_dinv [OF _ reserved(3-6)] inv by (simp add: sys_inv_def)
next
  case (finished d d' k fault now a actual complete r s')
  then show ?thesis using Finish_dinv [OF _ finished(3,4)] inv by (simp add: sys_inv_def)
next
  case (requested d d' k fault now r s')
  then show ?thesis using Request_dinv [OF _ requested(3)] inv by (simp add: sys_inv_def)
next
  case (applied d d' k fault received response rtt r s')
  then show ?thesis using Apply_dinv [OF _ applied(3,4)] inv by (simp add: sys_inv_def)
qed

lemma reachable_inv: "reachable cd y \<Longrightarrow> sys_inv y"
proof (induction rule: reachable.induct)
  case start
  then show ?case by (simp add: sys_inv_def boot0_def)
next
  case (step y e)
  then show ?case by (intro exec_sys_inv)
qed

lemma reachable_dinv: "reachable cd y \<Longrightarrow> row y = Some d \<Longrightarrow> dinv d"
  using reachable_inv by (simp add: sys_inv_def)

end
