(* ===== verification/Authority_Sample.thy ===== *)
theory Authority_Sample
  imports Authority_System
begin

text \<open>
  A concrete run of the node journal, on which the properties of this development are
  exercised: a boot installs a hard budget, wants credit, receives a grant, reserves and
  settles.
\<close>

definition sample_codec :: codec where
  "sample_codec = \<lparr>marshal2 = (\<lambda>a b. a @ ''|'' @ b), marshal3 = (\<lambda>a b c. a @ ''|'' @ b @ ''|'' @ c),
     grantFingerprint = (\<lambda>w. ag_ID w @ ''|'' @ ag_RequestID w)\<rparr>"

definition utc :: "int \<Rightarrow> ztime" where
  "utc secs = \<lparr>inst = secs * second, zone = 0\<rparr>"

definition sample_budget :: AuthorityBudget where
  "sample_budget = \<lparr>ab_Key = ''k'', ab_Policy = ''p'', ab_Rule = ''r'', ab_Team = ''t'', ab_User = '''',
     ab_Revision = ''1'', ab_WindowID = ''w'', WindowStart = utc 500, WindowEnd = utc 90000,
     LimitMicroUSD = 5000, GrantMicroUSD = 1000, LeaseSeconds = 600, HardCap = True\<rparr>"

definition sample_grant :: AuthorityGrant where
  "sample_grant = \<lparr>ag_ID = ''g'', ag_RequestID = ''n'', ag_Key = ''k'', ag_Revision = ''1'',
     ag_WindowID = ''w'', Amount = 1000, ExpiresAt = utc 1600\<rparr>"

definition sample_response :: "int \<Rightarrow> AuthorityGrant list \<Rightarrow> AuthorityResponse" where
  "sample_response secs gs = \<lparr>rs_Protocol = AuthorityProtocol, rs_ServerTime = utc secs,
     rs_Budgets = [sample_budget], rs_Grants = gs, rs_ReportAcks = [], rs_MeterAcks = [], rs_Denied = []\<rparr>"

definition sample_subject :: Subject where
  "sample_subject = \<lparr>Team = ''t'', KeyID = ''key'', User = ''u''\<rparr>"

definition sample_permit :: BudgetPermit where
  "sample_permit = \<lparr>ID = ''m'', BoundMicroUSD = 300, bp_InvalidUsage = False\<rparr>"

definition at :: "int \<Rightarrow> gotime" where
  "at secs = secs * second"

definition sample_reserve :: "string list \<Rightarrow> i64 \<Rightarrow> event" where
  "sample_reserve ns bound =
     EReserve 0 NoFault NoFault (at 2000) (at 2000) (at 2000) ns sample_subject bound"

definition sample_setup :: "event list" where
  "sample_setup = [EOpen ''db'' None (Some ''boot''),
     EApply 0 NoFault (at 2000) (sample_response 1000 []) 0,
     sample_reserve [''n''] 300, ERequest 0 NoFault (at 2000),
     EApply 0 NoFault (at 2000) (sample_response 1001 [sample_grant]) 0,
     sample_reserve [''m''] 300]"

text \<open>Where the run ends: 300 of the grant's 1000 micro-dollars are reserved.\<close>

definition sample_request :: grantRequest where
  "sample_request = \<lparr>rq_Wire = \<lparr>gr_RequestID = ''n'', gr_Key = ''k'', gr_Revision = ''1'',
       gr_WindowID = ''w'', WantMicroUSD = 300\<rparr>,
     rq_Budget = sample_budget, rq_Instance = ''boot'', rq_Sent = True, GrantID = ''g'', Denied = '''',
     Obsolete = False, PendingReply = False\<rparr>"

definition sample_held :: grant where
  "sample_held = \<lparr>Wire = sample_grant, g_Instance = ''boot'', Consumed = 0, Observed = 0, Reserved = 300,
     Pending = 1, Closed = False, Overrun = False, Sequence = 1, Ack = 0, Sent = 0\<rparr>"

definition sample_open :: permit where
  "sample_open = \<lparr>pm_Instance = ''boot'', Bound = 300, Grants = [''g''], Meters = [], Done = False,
     Complete = False, Actual = None, Retired = False, InvalidUsage = False\<rparr>"

definition sample_journal :: journal where
  "sample_journal = \<lparr>jVersion = 1, Ready = True, Poisoned = False, ServerTime = utc 1001,
     Budgets = [(''k'', sample_budget)], jGrants = [(''g'', sample_held)],
     Requests = [(''n'', sample_request)], Permits = [(''m'', sample_open)], jMeters = [],
     RequestCursor = ''n'', ReportCursor = '''', MeterCursor = '''', ObsoleteRequests = [],
     Completed = [], Receipts = [], ReceiptOrder = []\<rparr>"

definition sample_store :: Store where
  "sample_store = \<lparr>s_instance = ''boot'', wake = True, closed = False, broken = None,
     deadlines = [(''g'', at 2599)], windows = [(''k'', at 90999)]\<rparr>"

definition sample_disk :: disk where
  "sample_disk = \<lparr>owner = ''boot'', state = sample_journal\<rparr>"

definition sample_sys :: sys where
  "sample_sys = \<lparr>row = Some sample_disk, handles = [sample_store]\<rparr>"

lemma sample_run: "run sample_codec sample_setup boot0 = Some sample_sys"
  by code_simp

lemma sample_reachable: "reachable sample_codec sample_sys"
  by (rule reachable_run [OF reachable.start sample_run])

lemma sample_row: "row sample_sys = Some sample_disk"
  by (simp add: sample_sys_def)

end
