(* ===== verification/Authority_Properties.thy ===== *)
theory Authority_Properties
  imports Authority_Sample
begin

text \<open>
  The properties of the node journal, over its reachable states.
\<close>

section \<open>Credit\<close>

text \<open>
  C1: in every reachable state the credit a grant has reserved is exactly the sum of the
  bounds of the unfinished permits that name it, the cost observed never exceeds what is
  consumed, and, unless admission is poisoned, what is consumed and reserved together stays
  within the amount that the control plane issued.
\<close>

theorem issued_credit_never_overspent:
  assumes "reachable cd y" "row y = Some d" "gget (jGrants (state d)) i = Some g"
  shows "Reserved g = reserved_by (Permits (state d)) i \<and> Observed g \<le> Consumed g \<and>
    (\<not> Poisoned (state d) \<longrightarrow> Consumed g + reserved_by (Permits (state d)) i \<le> Amount (Wire g))"
proof -
  have "grant_ok (owner d) (Poisoned (state d)) (Permits (state d)) i g"
    using reachable_dinv [OF assms(1,2)] assms(3) by (simp add: dinv_def jinvD)
  then show ?thesis by (auto simp: grant_ok_def credit_ok_def)
qed

theorem issued_credit_never_overspent_witness:
  "reserved_by (Permits sample_journal) ''g'' = 300 \<and>
   Consumed sample_held + reserved_by (Permits sample_journal) ''g'' \<le> Amount (Wire sample_held)"
proof -
  have g: "gget (jGrants (state sample_disk)) ''g'' = Some sample_held" by code_simp
  have "\<not> Poisoned (state sample_disk)" "Reserved sample_held = 300" by code_simp+
  then show ?thesis
    using issued_credit_never_overspent [OF sample_reachable sample_row g] by (simp add: sample_disk_def)
qed

text \<open>
  C10: a reservation that succeeds records one unfinished permit for exactly the bound; every
  matching hard budget is served by a grant of its key whose deadline, like the window's, is
  still ahead when the permit is handed out; each chosen grant has the whole bound added to
  its reservation and still covers it; every other grant keeps its account.
\<close>

theorem reserve_takes_whole_bound:
  assumes "reachable cd y" "row y = Some d" "0 \<le> t1" "in_i64 bound" "fresh_nonces ns d"
    and "Reserve cd f1 f2 t1 t2 t3 ns subject bound d s = (Inr a, d', s')"
  shows "\<exists>p. gget (Permits (state d)) (ID a) = None \<and> gget (Permits (state d')) (ID a) = Some p \<and>
     \<not> Done p \<and> Bound p = bound \<and> BoundMicroUSD a = bound \<and> distinct (Grants p) \<and>
     (\<forall>k b. gget (Budgets (state d)) k = Some b \<and> matches b subject \<longrightarrow> t2 < time_at (windows s) k \<and>
        (HardCap b \<longrightarrow> (\<exists>i\<in>set (Grants p). \<exists>g. gget (jGrants (state d')) i = Some g \<and>
           ag_Key (Wire g) = k \<and> t2 < time_at (deadlines s) i))) \<and>
     (\<forall>i\<in>set (Grants p). \<exists>g g'. gget (jGrants (state d)) i = Some g \<and> gget (jGrants (state d')) i = Some g' \<and>
        Wire g' = Wire g \<and> Consumed g' = Consumed g \<and> Reserved g' = Reserved g + bound \<and>
        Consumed g' + Reserved g' \<le> Amount (Wire g'))"
proof -
  have inv: "jinv (owner d) (state d)" using reachable_dinv [OF assms(1,2)] by (simp add: dinv_def)
  from assms(6) show ?thesis
  proof (cases rule: Reserve_cases)
    case (first rr)
    from first(4) obtain ex j where rr: "rr = Inr ((None, Some a, ex), j)"
      by (auto split: sum.splits prod.splits option.splits)
    have ex: "ex = 0 \<or> t2 < ex" by (rule first(5) [OF rr])
    from first(1) show ?thesis
    proof (cases rule: transaction_cases)
      case (committed w j1 x)
      have x: "reserve_body cd s subject bound t1 ns (state d) = (w, Inr (j1, None, Some a, ex))"
        using committed(3,4) rr by simp
      have st: "state d' = collect cd (s_instance s) j1" using committed(5) by simp
      from inv assms(3) x show ?thesis
      proof (cases rule: reserve_body_granted)
        case (1 n p)
        have fresh: "gget (Permits (state d)) n = None"
          using 1(2) assms(5) by (simp add: fresh_nonces_def list_all_iff)
        have open': "gget (Permits j1) n = Some p" using 1(3) by simp
        have kept: "gget (jGrants (state d')) i = Some g"
          if "i \<in> set (Grants p)" "gget (jGrants j1) i = Some g" for i g
          using that in_pendingGrants(1) [OF open' 1(4)] by (auto simp: st gget_collect_grants)
        have a: "ID a = n" "BoundMicroUSD a = bound" using 1(1) by simp_all
        have perm: "gget (Permits (state d')) n = Some p"
          unfolding st by (rule gget_collect_open_permit [OF open' 1(4)])
        have budgets: "t2 < time_at (windows s) k \<and> (HardCap b \<longrightarrow> (\<exists>i\<in>set (Grants p). \<exists>g.
            gget (jGrants (state d')) i = Some g \<and> ag_Key (Wire g) = k \<and> t2 < time_at (deadlines s) i))"
          if "gget (Budgets (state d)) k = Some b" "matches b subject" for k b
          using 1(8) [OF that] ex kept by fastforce
        have grants: "\<exists>g g'. gget (jGrants (state d)) i = Some g \<and> gget (jGrants (state d')) i = Some g' \<and>
          Wire g' = Wire g \<and> Consumed g' = Consumed g \<and> Reserved g' = Reserved g + bound \<and>
          Consumed g' + Reserved g' \<le> Amount (Wire g')" if "i \<in> set (Grants p)" for i
          using 1(9) [OF that] kept [OF that] by blast
        show ?thesis using a fresh perm 1(4-6) budgets grants by blast
      qed
    qed (use rr in simp_all)
  qed (use assms(6) in simp_all)
qed

definition sample_again :: "(auth_error + BudgetPermit) \<times> disk \<times> Store" where
  "sample_again = Reserve sample_codec NoFault NoFault (at 2001) (at 2001) (at 2001) [''q''] sample_subject 500
     sample_disk sample_store"

theorem reserve_takes_whole_bound_witness:
  "\<exists>p. gget (Permits (state (fst (snd sample_again)))) ''q'' = Some p \<and> Bound p = 500 \<and>
     (\<exists>g'. gget (jGrants (state (fst (snd sample_again)))) ''g'' = Some g' \<and> Reserved g' = 800)"
proof -
  have run: "Reserve sample_codec NoFault NoFault (at 2001) (at 2001) (at 2001) [''q''] sample_subject 500
      sample_disk sample_store =
      (Inr \<lparr>ID = ''q'', BoundMicroUSD = 500, bp_InvalidUsage = False\<rparr>, fst (snd sample_again), snd (snd sample_again))"
    unfolding sample_again_def by code_simp
  have h: "0 \<le> at 2001" "in_i64 500" "fresh_nonces [''q''] sample_disk" by code_simp+
  have g: "gget (jGrants (state sample_disk)) ''g'' = Some sample_held" "Reserved sample_held = 300"
    "gget (Budgets (state sample_disk)) ''k'' = Some sample_budget" "matches sample_budget sample_subject"
    "HardCap sample_budget" by code_simp+
  have only: "map fst (jGrants (state (fst (snd sample_again)))) = [''g'']" by code_simp
  from reserve_takes_whole_bound [OF sample_reachable sample_row h run] obtain p where
    p: "gget (Permits (state (fst (snd sample_again)))) ''q'' = Some p" "Bound p = 500"
    and b: "\<exists>i\<in>set (Grants p). \<exists>g. gget (jGrants (state (fst (snd sample_again)))) i = Some g"
    and r: "\<forall>i\<in>set (Grants p). \<exists>g g'. gget (jGrants (state sample_disk)) i = Some g \<and>
        gget (jGrants (state (fst (snd sample_again)))) i = Some g' \<and> Reserved g' = Reserved g + 500"
    using g(3-5) by auto blast
  have "''g'' \<in> set (Grants p)" using b only by (force dest!: gget_in_set simp: map_eq_Cons_conv)
  then show ?thesis using p r g(1,2) by force
qed

text \<open>
  C25: a reservation that is refused never loses track of credit, whatever storage faults happen
  on the way and even when the authority expired while it was being recorded: every account is as
  it was, or, when a write or the clean-up failed, the whole bound stays set aside under an
  unfinished permit and every other account is as it was. Without a storage fault a refusal leaves
  every account as it was, unless the clean-up itself ran into an accounting overflow.
\<close>

theorem refused_reservation_is_free:
  assumes "reachable cd y" "row y = Some d" "0 \<le> t1" "in_i64 bound" "fresh_nonces ns d"
    and "Reserve cd f1 f2 t1 t2 t3 ns subject bound d s = (Inl e, d', s')"
  shows "(accounts_kept (state d) (state d') \<or> bound_retained bound ns (state d) (state d'))
    \<and> (f1 = NoFault \<and> f2 = NoFault \<and> e \<noteq> accounting_overflow \<longrightarrow> accounts_kept (state d) (state d'))"
proof -
  have inv: "jinv (owner d) (state d)" using reachable_dinv [OF assms(1,2)] by (simp add: dinv_def)
  have bnd: "bound \<le> max_i64" using assms(4) by (simp add: in_i64_def)
  have fresh: "gget (Permits (state d)) n = None" if "n \<in> set ns" for n
    using assms(5) that by (simp add: fresh_nonces_def list_all_iff)
  have same: "accounts_kept (state d) (state d)" by (auto simp: accounts_kept_def)
  from assms(6) show ?thesis
  proof (cases rule: Reserve_cases)
    case refused
    then show ?thesis using same by simp
  next
    case (first rr)
    from first(1) show ?thesis
    proof (cases rule: transaction_cases)
      case kept
      then show ?thesis using same by simp
    next
      case (lost e' w j1 x)
      obtain e0 bp ex where x: "x = (e0, bp, ex)" by (cases x)
      show ?thesis
      proof (cases e0)
        case None
        from granted_retained [OF inv assms(3) lost(5) [unfolded x None]] lost(1,3,6) show ?thesis by simp
      next
        case (Some e1)
        from reserve_body_denied [OF inv assms(3) lost(5) [unfolded x Some]]
        show ?thesis using accounts_kept_collect lost(6) by simp
      qed
    next
      case (committed w j1 x)
      obtain e0 bp ex where x: "x = (e0, bp, ex)" by (cases x)
      show ?thesis
      proof (cases e0)
        case None
        from inv assms(3) committed(3) [unfolded x None] obtain n where "bp = Some n"
          by (rule reserve_body_granted) blast
        then show ?thesis using first(4) committed(4) x None by simp
      next
        case (Some e1)
        from reserve_body_denied [OF inv assms(3) committed(3) [unfolded x Some]]
        show ?thesis using accounts_kept_collect committed(5) by simp
      qed
    qed
  next
    case (undone d1 s1 p ex j rr s2 e1)
    note c1 = undone(1)
    from c1 obtain w j1 where w: "reserve_body cd s subject bound t1 ns (state d) = (w, Inr (j1, None, Some p, ex))"
      and d1: "owner d = s_instance s" "d1 = d\<lparr>state := collect cd (s_instance s) j1\<rparr>"
      and s1: "closed s1 = False" "broken s1 = None" "s_instance s1 = s_instance s"
      by (cases rule: transaction_cases) (auto simp: signal_def)
    from inv assms(3) w obtain n q where
      n: "Some p = Some \<lparr>ID = n, BoundMicroUSD = bound, bp_InvalidUsage = False\<rparr>"
      and q: "gget (Permits j1) n = Some q" "\<not> Done q"
      by (rule reserve_body_granted) (metis gget_gput_same)
    have idp: "ID p = n" using n by simp
    have inv1: "jinv (owner d) (collect cd (owner d) j1)"
      by (rule jinv_collect [OF reserve_body_jinv [OF inv assms(3) undone(2) bnd fresh w]])
    have st: "state d1 = collect cd (owner d) j1" "owner d1 = owner d" using d1 by simp_all
    have retained: "bound_retained bound ns (state d) (state d1)"
      unfolding st by (rule granted_retained [OF inv assms(3) w])
    have perm: "gget (Permits (state d1)) n = Some q" unfolding st by (rule gget_collect_open_permit [OF q])
    obtain w' res where u: "undispatch_body s1 n t3 (state d1) = (w', res)" by force
    show ?thesis
    proof (cases res)
      case (Inl e')
      have over: "e' = accounting_overflow"
        using undispatch_body_Inl [OF inv1 perm [unfolded st] q(2) u [unfolded st Inl]] .
      have "rr = Inl e'" if "f2 = NoFault"
        using that undone(6) u Inl s1 st d1 jinv_decode [OF inv1] idp by (simp add: transaction_def Let_def)
      then have "f2 = NoFault \<Longrightarrow> e = accounting_overflow"
        using assms(6) undone(1,4,5,6) undone(2,3) over by (auto simp: Reserve_def)
      moreover have "d' = d1" using undone(6) by (cases rule: transaction_cases) (use u Inl idp in auto)
      ultimately show ?thesis using retained by auto
    next
      case (Inr r)
      obtain j3 v where r: "r = (j3, v)" by (rule prod.exhaust)
      have free: "accounts_kept (state d) (collect cd (owner d) j3)"
        by (rule undo_restores_accounts [OF inv assms(3) undone(2) bnd fresh w u [unfolded st Inr r] n])
      have "state d' = collect cd (owner d) j3" if "f2 = NoFault"
        using that undone(6) u Inr r s1 st d1 jinv_decode [OF inv1] idp by (auto simp: transaction_def Let_def)
      moreover have "d' = d1 \<or> state d' = collect cd (owner d) j3"
        using undone(6) by (cases rule: transaction_cases) (use u Inr r idp s1 d1 in auto)
      ultimately show ?thesis using retained free by auto
    qed
  qed
qed

definition sample_late :: "(auth_error + BudgetPermit) \<times> disk \<times> Store" where
  "sample_late = Reserve sample_codec NoFault NoFault (at 2001) (at 2600) (at 2600) [''q''] sample_subject 500
     sample_disk sample_store"

text \<open>The same reservation when the clean-up cannot be written.\<close>

definition sample_stuck :: "(auth_error + BudgetPermit) \<times> disk \<times> Store" where
  "sample_stuck = Reserve sample_codec NoFault (WriteFails False) (at 2001) (at 2600) (at 2600) [''q''] sample_subject 500
     sample_disk sample_store"

theorem refused_reservation_is_free_witness:
  "fst sample_late = Inl (AuthorityUnavailable ''authority expired while recording reservation'') \<and>
   (\<exists>g'. gget (jGrants (state (fst (snd sample_late)))) ''g'' = Some g' \<and> Reserved g' = 300) \<and>
   isl (fst sample_stuck) \<and> map_option Reserved (gget (jGrants (state (fst (snd sample_stuck)))) ''g'') = Some 800"
proof -
  have run: "Reserve sample_codec NoFault NoFault (at 2001) (at 2600) (at 2600) [''q''] sample_subject 500
      sample_disk sample_store =
      (Inl (AuthorityUnavailable ''authority expired while recording reservation''),
       fst (snd sample_late), snd (snd sample_late))"
    unfolding sample_late_def by code_simp
  have h: "0 \<le> at 2001" "in_i64 500" "fresh_nonces [''q''] sample_disk" by code_simp+
  have g: "gget (jGrants (state sample_disk)) ''g'' = Some sample_held" "Reserved sample_held = 300"
    "Pending sample_held = 1" by code_simp+
  have "accounts_kept (state sample_disk) (state (fst (snd sample_late)))"
    using refused_reservation_is_free [OF sample_reachable sample_row h run] by (simp add: accounting_overflow_def)
  then obtain g' where "same_account sample_held g'"
    "gget (jGrants (state (fst (snd sample_late)))) ''g'' = Some g' \<or> finalised g'"
    using g(1) by (auto simp: accounts_kept_def)
  then have "gget (jGrants (state (fst (snd sample_late)))) ''g'' = Some g'" "Reserved g' = 300"
    using g by (auto simp: same_account_def finalised_def)
  moreover have "isl (fst sample_stuck)" "map_option Reserved (gget (jGrants (state (fst (snd sample_stuck)))) ''g'') = Some 800"
    by code_simp+
  moreover have "fst sample_late = Inl (AuthorityUnavailable ''authority expired while recording reservation'')"
    using run unfolding sample_late_def by (metis fst_conv)
  ultimately show ?thesis by blast
qed

text \<open>
  C11: a settlement that is accepted charges every grant of the permit with the reported cost
  when the outcome is complete and known, with the whole bound when it is not (or with the
  observed cost if that is larger), records the observed cost, and releases exactly the bound
  and one pending permit.
\<close>

theorem finish_settles_exactly:
  assumes "reachable cd y" "row y = Some d"
    and "gget (Permits (state d)) (ID a) = Some p" "\<not> Done p"
    and "\<forall>n\<in>set_option actual. in_i64 n"
    and "Finish cd NoFault now (Some a) actual complete d s = (None, d', s')"
    and "i \<in> set (Grants p)" "gget (jGrants (state d)) i = Some g"
  shows "\<exists>g'. gget (jGrants (state d')) i = Some g' \<and> Wire g' = Wire g \<and>
     Consumed g' = Consumed g + (case actual of None \<Rightarrow> Bound p
        | Some n \<Rightarrow> if complete \<and> \<not> bp_InvalidUsage a then n else max n (Bound p)) \<and>
     Observed g' = Observed g + (case actual of None \<Rightarrow> 0 | Some n \<Rightarrow> n) \<and>
     Reserved g' = Reserved g - Bound p \<and> Pending g' = Pending g - 1"
proof -
  have inv: "jinv (owner d) (state d)" using reachable_dinv [OF assms(1,2)] by (simp add: dinv_def)
  let ?c = "if bp_InvalidUsage a then False else complete"
  from assms(6) show ?thesis
  proof (cases rule: Finish_cases)
    case (run a' rr s1)
    have a': "a' = a" using run(1) by simp
    have act: "\<forall>n\<in>set_option actual. 0 \<le> n \<and> n \<le> max_i64" using run(4) assms(5) by (auto simp: in_i64_def)
    from run(5) show ?thesis
    proof (cases rule: transaction_cases)
      case (committed w j1 r)
      from committed(3) have fb: "finish_body s a actual ?c now (state d) = (w, Inr (j1, r))" by (simp add: a')
      have r: "r = None" using run(6) committed(4) by simp
      have st: "state d' = collect cd (s_instance s) j1" using committed(5) by simp
      from fb show ?thesis
      proof (cases rule: finish_body_cases)
        case (settled q consumed observed)
        have q: "q = p" using settled(1) assms(3) by simp
        note S = settled [unfolded q]
        have dist: "distinct (Grants p)" using jinvD(5) [OF inv assms(3)] by (simp add: permit_ok_def)
        let ?over = "bp_InvalidUsage a \<or> observed > Bound p"
        have g1: "gget (jGrants (settled_journal a actual ?c p (state d))) i =
            Some (settle_grant (Bound p) consumed observed ?over g)"
          using assms(7,8) S(3) by (simp add: settled_journal_def Let_def gget_updates [OF dist])
        obtain g2 where g2: "gget (jGrants j1) i = Some g2" "same_account (settle_grant (Bound p) consumed observed ?over g) g2"
          "Sequence g2 > Ack g2"
        proof -
          note inv' = jinv_settled [OF inv S(1,2) act S(3,4)]
          from same_accountsD(1) [OF closeInactive_jinv(2) [OF inv' S(5)] g1] obtain g2 where
            g2: "gget (jGrants j1) i = Some g2" "same_account (settle_grant (Bound p) consumed observed ?over g) g2" by blast
          note adv = growsD [OF closeInactive_grows [OF S(5)] g1 g2(1)]
          have "Ack g2 = Ack g" using closeInactive_ack [OF S(5) g1 g2(1)] by (simp add: settle_grant_def Let_def)
          moreover have "Ack g \<le> Sequence g" using jinvD(3) [OF inv assms(8)] by (auto simp: grant_ok_def grant_sane_def)
          moreover have "Sequence g + 1 \<le> Sequence g2" using adv by (simp add: advances_def settle_grant_def Let_def)
          ultimately show thesis using that g2 by simp
        qed
        have "gget (jGrants (state d')) i = Some g2" using g2 by (auto simp: st gget_collect_grants finalised_def)
        moreover have "charge (Bound p) actual ?c = (case actual of None \<Rightarrow> (Bound p, 0)
            | Some n \<Rightarrow> (if complete \<and> \<not> bp_InvalidUsage a then n else max n (Bound p), n))"
          by (auto simp: charge_def max_def split: option.split)
        ultimately show ?thesis using g2(2) S(3)
          by (auto simp: same_account_def settle_grant_def Let_def split: option.splits)
      next
        case poisoned
        then show ?thesis using r by simp
      next
        case replay
        then show ?thesis using assms(3,4) by simp
      qed
    qed (use run(6) in simp_all)
  qed (use assms(6) in simp_all)
qed

definition sample_done :: "auth_error option \<times> disk \<times> Store" where
  "sample_done = Finish sample_codec NoFault (at 2001) (Some sample_permit) (Some 120) True sample_disk sample_store"

theorem finish_settles_exactly_witness:
  "\<exists>g'. gget (jGrants (state (fst (snd sample_done)))) ''g'' = Some g' \<and> Consumed g' = 120 \<and> Reserved g' = 0"
proof -
  have run: "Finish sample_codec NoFault (at 2001) (Some sample_permit) (Some 120) True sample_disk sample_store =
     (None, fst (snd sample_done), snd (snd sample_done))"
    unfolding sample_done_def by code_simp
  have p: "gget (Permits (state sample_disk)) (ID sample_permit) = Some sample_open" "\<not> Done sample_open"
    "\<forall>n\<in>set_option (Some 120). in_i64 n" by code_simp+
  have g: "''g'' \<in> set (Grants sample_open)" "gget (jGrants (state sample_disk)) ''g'' = Some sample_held"
    by code_simp+
  have v: "Consumed sample_held = 0" "Reserved sample_held = 300" "Bound sample_open = 300"
    "bp_InvalidUsage sample_permit = False" by code_simp+
  from finish_settles_exactly [OF sample_reachable sample_row p run g] show ?thesis by (auto simp: v)
qed

text \<open>
  C26: settling an unfinished permit of the current boot that no poisoning retired, with a database
  that answers, never meets an inconsistent journal: it is accepted, or it is refused for an
  accounting overflow.
\<close>

theorem settlement_never_stuck:
  assumes "reachable cd y" "row y = Some d" "owner d = s_instance s" "\<not> closed s" "broken s = None"
    and "gget (Permits (state d)) (ID a) = Some p" "\<not> Done p" "\<not> Retired p"
    and "Bound p = BoundMicroUSD a" "pm_Instance p = s_instance s" "ID a \<noteq> ''''"
    and "\<forall>n\<in>set_option actual. 0 \<le> n \<and> n \<le> max_i64"
  shows "fst (Finish cd NoFault now (Some a) actual complete d s) \<in> {None, Some accounting_overflow}"
proof -
  have inv: "jinv (owner d) (state d)" using reachable_dinv [OF assms(1,2)] by (simp add: dinv_def)
  have b: "0 \<le> BoundMicroUSD a" using jinvD(5) [OF inv assms(6)] assms(9) by (simp add: permit_ok_def)
  have act: "\<not> (case actual of Some n \<Rightarrow> n < 0 | None \<Rightarrow> False)" using assms(12) by (auto split: option.split)
  let ?c = "if bp_InvalidUsage a then False else complete"
  have fin: "Finish cd NoFault now (Some a) actual complete d s =
    (case finish_body s a actual ?c now (state d) of
       (w, Inl e) \<Rightarrow> (Some e, d, if w then signal s else s)
     | (w, Inr (j1, r)) \<Rightarrow> (let j2 = collect cd (s_instance s) j1 in
         (r, d\<lparr>state := j2\<rparr>, signal ((if w then signal s else s)\<lparr>deadlines := pruneDeadlines j2
            (deadlines (if w then signal s else s))\<rparr>))))"
    using assms(3-5,11) b act jinv_decode [OF inv]
    by (auto simp: Finish_def transaction_def Let_def split: prod.split sum.split)
  from finish_body_never_inconsistent [OF inv assms(6-10,12), of ?c now] show ?thesis
    unfolding fin by (auto simp: Let_def)
qed

theorem settlement_never_stuck_witness:
  "fst (Finish sample_codec NoFault (at 2001) (Some sample_permit) None False sample_disk sample_store)
     \<in> {None, Some accounting_overflow}"
proof -
  have s: "owner sample_disk = s_instance sample_store" "\<not> closed sample_store" "broken sample_store = None" by code_simp+
  have p: "gget (Permits (state sample_disk)) (ID sample_permit) = Some sample_open" "\<not> Done sample_open"
    "\<not> Retired sample_open" "Bound sample_open = BoundMicroUSD sample_permit"
    "pm_Instance sample_open = s_instance sample_store" "ID sample_permit \<noteq> ''''"
    "\<forall>n\<in>set_option (None :: i64 option). 0 \<le> n \<and> n \<le> max_i64" by code_simp+
  show ?thesis by (rule settlement_never_stuck [OF sample_reachable sample_row s p])
qed

text \<open>
  Settling a permit a second time with the same outcome succeeds and changes no account;
  with another outcome it is refused and nothing is written.
\<close>

theorem finish_is_idempotent:
  assumes "reachable cd y" "row y = Some d" "owner d = s_instance s" "\<not> closed s" "broken s = None"
    and "gget (Permits (state d)) (ID a) = Some p" "Done p" "\<not> Retired p" "Bound p = BoundMicroUSD a" "ID a \<noteq> ''''"
    and "\<forall>n\<in>set_option actual. 0 \<le> n"
    and "Finish cd NoFault now (Some a) actual complete d s = (r, d', s')"
  shows "if Complete p = (complete \<and> \<not> bp_InvalidUsage a) \<and> InvalidUsage p = bp_InvalidUsage a \<and> Actual p = actual
    then r = None \<and> accounts_kept (state d) (state d')
    else r = Some (AuthorityInvalid ''conflicting settlement'') \<and> d' = d"
proof -
  have inv: "jinv (owner d) (state d)" using reachable_dinv [OF assms(1,2)] by (simp add: dinv_def)
  have b: "0 \<le> BoundMicroUSD a" using jinvD(5) [OF inv assms(6)] assms(9) by (simp add: permit_ok_def)
  have act: "\<not> (case actual of Some n \<Rightarrow> n < 0 | None \<Rightarrow> False)" using assms(11) by (auto split: option.split)
  let ?c = "if bp_InvalidUsage a then False else complete"
  let ?same = "Complete p = ?c \<and> InvalidUsage p = bp_InvalidUsage a \<and> Actual p = actual"
  have body: "finish_body s a actual ?c now (state d) =
      (False, if ?same then Inr (state d, None) else Inl (invalid ''conflicting settlement''))"
    using assms(6-9) by (auto simp: finish_body_def equalActual_def)
  have "r = (if ?same then None else Some (invalid ''conflicting settlement''))"
    "state d' = (if ?same then collect cd (s_instance s) (state d) else state d)" "\<not> ?same \<Longrightarrow> d' = d"
    using assms(3-5,10,12) b act jinv_decode [OF inv] body
    by (auto simp: Finish_def transaction_def Let_def split: if_splits)
  moreover have "accounts_kept (state d) (collect cd (s_instance s) (state d))" by (rule accounts_kept_collect) simp
  ultimately show ?thesis by (auto simp: invalid_def)
qed

definition sample_twice :: "auth_error option \<times> disk \<times> Store" where
  "sample_twice = Finish sample_codec NoFault (at 2002) (Some sample_permit) (Some 120) True
     (fst (snd sample_done)) (snd (snd sample_done))"

definition sample_settled_permit :: permit where
  "sample_settled_permit = sample_open\<lparr>Done := True, Complete := True, Actual := Some 120, Grants := []\<rparr>"

lemma sample_done_reachable:
  "reachable sample_codec (exec sample_codec (EFinish 0 NoFault (at 2001) (Some sample_permit) (Some 120) True) sample_sys)"
  by (rule reachable.step [OF sample_reachable]) code_simp

theorem finish_is_idempotent_witness:
  "fst sample_twice = None \<and> accounts_kept (state (fst (snd sample_done))) (state (fst (snd sample_twice)))"
proof -
  let ?y = "exec sample_codec (EFinish 0 NoFault (at 2001) (Some sample_permit) (Some 120) True) sample_sys"
  let ?d = "fst (snd sample_done)" and ?s = "snd (snd sample_done)"
  have r: "row ?y = Some ?d" by code_simp
  have s: "owner ?d = s_instance ?s" "\<not> closed ?s" "broken ?s = None" by code_simp+
  have p: "gget (Permits (state ?d)) (ID sample_permit) = Some sample_settled_permit" "Done sample_settled_permit"
    "\<not> Retired sample_settled_permit" "Bound sample_settled_permit = BoundMicroUSD sample_permit" "ID sample_permit \<noteq> ''''"
    by code_simp+
  have c: "Complete sample_settled_permit = (True \<and> \<not> bp_InvalidUsage sample_permit)"
    "InvalidUsage sample_settled_permit = bp_InvalidUsage sample_permit" "Actual sample_settled_permit = Some 120" by code_simp+
  have run: "Finish sample_codec NoFault (at 2002) (Some sample_permit) (Some 120) True ?d ?s =
      (fst sample_twice, fst (snd sample_twice), snd (snd sample_twice))" by (simp add: sample_twice_def)
  from finish_is_idempotent [OF sample_done_reachable r s p _ run] c show ?thesis by simp
qed

section \<open>Boots\<close>








end
