(* ===== verification/Authority_Fencing.thy ===== *)
theory Authority_Fencing
  imports Authority_Sample
begin

text \<open>
  The fail-closed side of the node journal: poisoning, ownership, corruption checks, lease
  deadlines and the bounds on history.
\<close>

section \<open>Poisoning\<close>

lemma finish_body_poisoned:
  "finish_body s a actual complete now j = (w, Inr (j', r)) \<Longrightarrow> Poisoned j \<Longrightarrow> Poisoned j'"
  by (erule finish_body_cases)
    (auto simp: poison_def settled_journal_def Let_def dest: closeInactive_frame(4) split: prod.splits)

lemma request_body_poisoned: "request_body s now j = (w, Inr (j', r)) \<Longrightarrow> Poisoned j' = Poisoned j"
  by (erule request_body_cases) (simp add: closeInactive_frame(4))

lemma apply_grant_poisoned:
  "apply_grant cd s received server rtt stale x l = Inr l' \<Longrightarrow> Poisoned (aj l') = Poisoned (aj l)"
  by (erule apply_grant_cases) simp_all

lemma applyAcks_poisoned:
  assumes "applyAcks cd r j = Inr j'"
  shows "Poisoned j' = Poisoned j"
proof -
  from assms obtain a b where a: "rfold ack_report (rs_ReportAcks r) (j, []) = Inr a"
    and b: "rfold (ack_meter cd) (rs_MeterAcks r) (fst a, []) = Inr b" "j' = fst b"
    by (auto simp: applyAcks_def elim!: rbind_InrE)
  have "Poisoned (fst a) = Poisoned j"
    by (rule rfold_invariant [OF a, of "\<lambda>x. Poisoned (fst x) = Poisoned j"])
      (auto simp: ack_report_def split: option.splits if_splits)
  moreover have "Poisoned (fst b) = Poisoned (fst a)"
  proof (rule rfold_invariant [OF b(1), of "\<lambda>x. Poisoned (fst x) = Poisoned (fst a)"])
    fix x p q assume h: "Poisoned (fst p) = Poisoned (fst a)" and run: "ack_meter cd x p = Inr q"
    from run have "ack_meter cd x (fst p, snd p) = Inr (fst q, snd q)" by simp
    then show "Poisoned (fst q) = Poisoned (fst a)" by (rule ack_meter_cases) (simp_all add: h)
  qed simp
  ultimately show ?thesis by (simp add: b(2))
qed

lemma apply_body_poisoned:
  assumes "apply_body cd s received response rtt bs j = (w, Inr (j', r))"
  shows "Poisoned j' = Poisoned j"
  using assms
proof (cases rule: apply_body_cases)
  case (1 j1 wins l1 l2 j2 j3 gs stale)
  have "Poisoned j1 = Poisoned j" using 1(1) by (auto simp: install_snapshot_def Let_def split: if_splits)
  moreover have "Poisoned (aj l1) = Poisoned j1"
    by (rule rfold_invariant [OF 1(3), of "\<lambda>l. Poisoned (aj l) = Poisoned j1"]) (auto dest: apply_grant_poisoned)
  moreover have "Poisoned (aj l2) = Poisoned (aj l1)"
    by (rule rfold_invariant [OF 1(4), of "\<lambda>l. Poisoned (aj l) = Poisoned (aj l1)"])
      (auto simp: apply_denial_def split: option.splits if_splits)
  ultimately show ?thesis using applyAcks_poisoned [OF 1(5)] 1(6,8) by simp
qed

lemma reserve_body_refuses_poisoned:
  "Poisoned j \<Longrightarrow> reserve_body cd s subject bound now ns j =
     (False, Inl (invalid ''admission poisoned by an observed bound overrun''))"
  by (simp add: reserve_body_def)

lemma Reserve_refuses_poisoned:
  assumes "Poisoned (state d)" "Reserve cd f1 f2 t1 t2 t3 ns subject bound d s = (r, d', s')"
  shows "(\<exists>e. r = Inl e) \<and> d' = d"
  using assms(2)
proof (cases rule: Reserve_cases)
  case refused
  then show ?thesis by simp
next
  case (first rr)
  from first(1) show ?thesis
    by (cases rule: transaction_cases) (use first(4) reserve_body_refuses_poisoned [OF assms(1)] in auto)
next
  case (undone d1 s1 p ex j rr s2 e)
  from undone(1) show ?thesis
    by (cases rule: transaction_cases) (use reserve_body_refuses_poisoned [OF assms(1)] in auto)
qed

text \<open>
  C29: once poisoned, the journal refuses every reservation without writing anything, and no
  event, restarts and responses of the control plane included, lifts the poison.
\<close>

theorem poison_is_permanent:
  assumes "reachable cd y" "row y = Some d" "Poisoned (state d)" "event_ok e y"
  shows "(\<exists>d'. row (exec cd e y) = Some d' \<and> Poisoned (state d')) \<and>
    (\<forall>f1 f2 t1 t2 t3 ns subject bound s. \<exists>err s'.
       Reserve cd f1 f2 t1 t2 t3 ns subject bound d s = (Inl err, d, s'))"
proof
  show "\<forall>f1 f2 t1 t2 t3 ns subject bound s. \<exists>err s'.
       Reserve cd f1 f2 t1 t2 t3 ns subject bound d s = (Inl err, d, s')"
    using Reserve_refuses_poisoned [OF assms(3)] by (metis prod_cases3)
  from assms(4) reachable_inv [OF assms(1)] show "\<exists>d'. row (exec cd e y) = Some d' \<and> Poisoned (state d')"
  proof (cases rule: exec_row [where cd = cd])
    case same
    then show ?thesis using assms(2,3) by simp
  next
    case (opened path io nonce d1 s1)
    then show ?thesis
      using Open_dinv(6) [OF reachable_inv [OF assms(1), unfolded sys_inv_def] opened(1)] assms(2,3) by simp
  next
    case (reserved d1 d2 k f1 f2 t1 t2 t3 ns subject bound r s')
    then show ?thesis using Reserve_refuses_poisoned [OF _ reserved(6)] assms(2,3) by simp
  next
    case (finished d1 d2 k fault now a actual complete r s')
    have "Poisoned (state d2)" using finished(4)
    proof (cases rule: Finish_cases)
      case (run b rr s1)
      from run(5) show ?thesis
        by (rule transaction_state) (use assms(2,3) finished(1) finish_body_poisoned in auto)
    qed (use assms(2,3) finished(1) in simp)
    then show ?thesis using finished(2) by simp
  next
    case (requested d1 d2 k fault now r s')
    obtain rr d3 s3 where t: "transaction cd fault (request_body (handles y ! k) now) d1 (handles y ! k) = (rr, d3, s3)"
      by (metis prod_cases3)
    have "d2 = d3" using requested(3) t by (auto simp: Request_def split: sum.splits)
    moreover from t have "Poisoned (state d3)"
      by (rule transaction_state) (use assms(2,3) requested(1) request_body_poisoned in auto)
    ultimately show ?thesis using requested(2) by simp
  next
    case (applied d1 d2 k fault received response rtt r s')
    have "Poisoned (state d2)" using applied(4)
    proof (cases rule: Apply_cases)
      case (run bs rr s1)
      from run(3) show ?thesis
        by (rule transaction_state) (use assms(2,3) applied(1) apply_body_poisoned in auto)
    qed (use assms(2,3) applied(1) in simp)
    then show ?thesis using applied(2) by simp
  qed
qed

text \<open>The sample run continued: a cost above the bound poisons the journal.\<close>

definition sample_overrun :: event where
  "sample_overrun = EFinish 0 NoFault (at 2001) (Some sample_permit) (Some 400) True"

definition sample_poisoned :: sys where
  "sample_poisoned = exec sample_codec sample_overrun sample_sys"

lemma sample_poisoned_reachable: "reachable sample_codec sample_poisoned"
  unfolding sample_poisoned_def by (rule reachable.step [OF sample_reachable]) code_simp

definition poisoned_disk :: disk where
  "poisoned_disk = (case row sample_poisoned of None \<Rightarrow> sample_disk | Some d \<Rightarrow> d)"

theorem poison_is_permanent_witness:
  "\<exists>d'. row (exec sample_codec (EOpen ''db'' None (Some ''boot2'')) sample_poisoned) = Some d' \<and> Poisoned (state d')"
proof -
  have r: "row sample_poisoned = Some poisoned_disk" by code_simp
  have p: "Poisoned (state poisoned_disk)" "event_ok (EOpen ''db'' None (Some ''boot2'')) sample_poisoned" by code_simp+
  from poison_is_permanent [OF sample_poisoned_reachable r p] show ?thesis by blast
qed

section \<open>Ownership\<close>

lemma transaction_fenced:
  assumes "owner d \<noteq> s_instance s"
  shows "\<exists>e s'. transaction cd fault fn d s = (Inl e, d, s')"
proof -
  obtain r d' s' where t: "transaction cd fault fn d s = (r, d', s')" by (metis prod_cases3)
  from t show ?thesis by (cases rule: transaction_cases) (use assms t in auto)
qed

text \<open>
  C30: once another boot has opened the journal, every operation of an older handle fails and
  leaves the row of the new owner as it is.
\<close>

theorem older_handle_is_fenced:
  assumes "Open cd path io (Some boot) row0 = Inr (d, s0)" "s_instance s \<noteq> boot"
  shows "(\<exists>e s'. Reserve cd f1 f2 t1 t2 t3 ns subject bound d s = (Inl e, d, s')) \<and>
    (\<exists>e s'. Finish cd fault now authorization actual complete d s = (Some e, d, s')) \<and>
    (\<exists>e s'. Request cd fault now d s = (Inl e, d, s')) \<and>
    (\<exists>e s'. Apply cd fault received response rtt d s = (Some e, d, s'))"
proof -
  have own: "owner d = boot" using assms(1)
    by (auto simp: Open_def initialize_def split: if_splits option.splits elim!: rbind_InrE)
  note F = transaction_fenced [of d s, unfolded own, OF assms(2) [symmetric]]
  have "\<exists>e s'. Reserve cd f1 f2 t1 t2 t3 ns subject bound d s = (Inl e, d, s')"
    using F [of cd f1 "reserve_body cd s subject bound t1 ns"] by (auto simp: Reserve_def)
  moreover have "\<exists>e s'. Finish cd fault now authorization actual complete d s = (Some e, d, s')"
  proof (cases authorization)
    case (Some a)
    show ?thesis using F [of cd fault "finish_body s a actual (if bp_InvalidUsage a then False else complete) now"]
      by (auto simp: Finish_def Some Let_def)
  qed (simp add: Finish_def)
  moreover have "\<exists>e s'. Request cd fault now d s = (Inl e, d, s')"
    using F [of cd fault "request_body s now"] by (auto simp: Request_def)
  moreover have "\<exists>e s'. Apply cd fault received response rtt d s = (Some e, d, s')"
  proof (cases "validateBudgets response")
    case (Inr bs)
    show ?thesis using F [of cd fault "apply_body cd s received response rtt bs"] by (auto simp: Apply_def Inr)
  qed (auto simp: Apply_def)
  ultimately show ?thesis by blast
qed

theorem older_handle_is_fenced_witness:
  "\<exists>d s0 e s'. Open sample_codec ''db'' None (Some ''boot2'') (Some sample_disk) = Inr (d, s0) \<and>
     Finish sample_codec NoFault 0 (Some sample_permit) None False d sample_store = (Some e, d, s')"
proof -
  have "\<not> isl (Open sample_codec ''db'' None (Some ''boot2'') (Some sample_disk))" by code_simp
  then obtain x where "Open sample_codec ''db'' None (Some ''boot2'') (Some sample_disk) = Inr x"
    by (metis isl_def sum.exhaust_sel)
  then obtain d s0 where o: "Open sample_codec ''db'' None (Some ''boot2'') (Some sample_disk) = Inr (d, s0)"
    by (cases x) simp
  have "s_instance sample_store \<noteq> ''boot2''" by code_simp
  from older_handle_is_fenced [OF o this, of NoFault NoFault 0 0 0 "[]" sample_subject 0 NoFault 0
      "Some sample_permit" None False 0 "sample_response 0 []" 0] o
  show ?thesis by blast
qed

section \<open>Reading the journal back\<close>

text \<open>
  C31: whatever the events, the row that was written is accepted by the validation when it is
  read again, so the corruption checks refuse no journal this code has written.
\<close>

theorem written_journal_is_accepted:
  assumes "reachable cd y" "row y = Some d"
  shows "decode (state d) = Inr (state d)"
  using reachable_dinv [OF assms] jinv_decode by (simp add: dinv_def)

theorem written_journal_is_accepted_witness: "decode (state sample_disk) = Inr (state sample_disk)"
  by (rule written_journal_is_accepted [OF sample_reachable sample_row])

section \<open>Leases\<close>

text \<open>
  The local deadline of a lease is conservative. If the server read its clock at some
  instant of the exchange, then before the local deadline the lease has not expired on the
  server's clock.
\<close>

theorem lease_deadline_is_conservative:
  assumes "received - rtt \<le> at_server" "received \<le> now" "now < deadline received server expiry rtt"
  shows "inst server + (now - at_server) < inst expiry"
proof -
  let ?rem = "time_sub (inst expiry) (inst server)"
  have open': "0 < ?rem" "rtt < ?rem" "now < received + (?rem - rtt)"
    using assms(2,3) by (auto simp: deadline_def Let_def simp del: time_sub_pos_iff split: if_splits)
  then have "?rem \<le> inst expiry - inst server" by (intro time_sub_le) simp
  then show ?thesis using open'(3) assms(1) by linarith
qed

theorem lease_deadline_is_conservative_witness:
  "inst (utc 1000) + (at 2100 - at 1999) < inst (utc 1600)"
proof -
  have h: "at 2000 - at 2 \<le> at 1999" "at 2000 \<le> at 2100"
    "at 2100 < deadline (at 2000) (utc 1000) (utc 1600) (at 2)" by code_simp+
  show ?thesis by (rule lease_deadline_is_conservative [OF h])
qed

section \<open>History\<close>

lemma collect_bounded:
  assumes "jinv own j"
  shows "card {n. \<exists>r. gget (Requests (collect cd inst' j)) n = Some r \<and> obsolete_open r} \<le> obsoleteRequestLimit"
  unfolding collect_def Let_def
  by (rule obsolete_requests_bounded
      [OF jinv_wf(3) [OF collecting_folds(2) [OF collecting_folds(1) [OF collecting_start [OF assms]],
        unfolded collecting_def, THEN conjunct1]]])

definition history_ok :: "journal \<Rightarrow> bool" where
  "history_ok j \<longleftrightarrow> card {n. \<exists>p. gget (Permits j) n = Some p \<and> Done p} \<le> completedReceiptLimit \<and>
     card {n. \<exists>r. gget (Requests j) n = Some r \<and> obsolete_open r} \<le> obsoleteRequestLimit"

lemma history_ok_collect: "jinv own j \<Longrightarrow> history_ok (collect cd inst' j)"
  unfolding history_ok_def using finished_permits_bounded collect_bounded by blast

text \<open>Every body that commits has produced a journal that satisfies the invariant.\<close>

lemma Reserve_history:
  assumes inv: "dinv d" and h: "0 \<le> t1" "bound \<le> max_i64" "fresh_nonces ns d" and hist: "history_ok (state d)"
    and run: "Reserve cd f1 f2 t1 t2 t3 ns subject bound d s = (r, d', s')"
  shows "history_ok (state d')"
proof -
  have one: "history_ok (state e) \<and> dinv e"
    if t: "transaction cd f1 (reserve_body cd s subject bound t1 ns) d s = (x, e, s1)" "0 \<le> bound" for x e s1
  proof
    have body: "jinv (owner d) j1" if "reserve_body cd s subject bound t1 ns (state d) = (w, Inr (j1, x))" for w j1 x
    proof -
      obtain e bp ex where x: "x = (e, bp, ex)" by (cases x)
      show ?thesis
        by (rule reserve_body_jinv [OF inv [unfolded dinv_def] h(1) t(2) h(2) _ that [unfolded x]])
          (use h(3) in \<open>simp add: fresh_nonces_def list_all_iff\<close>)
    qed
    show "history_ok (state e)"
      using t(1) hist by (rule transaction_state) (use body history_ok_collect in blast)
    show "dinv e" using transaction_dinv(1) [OF t(1) inv] body by blast
  qed
  from run show ?thesis
  proof (cases rule: Reserve_cases)
    case refused
    then show ?thesis using hist by simp
  next
    case (first rr)
    then show ?thesis using one by blast
  next
    case (undone d1 s1 p ex j rr s2 e)
    have d1: "history_ok (state d1)" "dinv d1" using one [OF undone(1,2)] by blast+
    from undone(6) d1(1) show ?thesis
      by (rule transaction_state)
        (use undispatch_body_jinv [OF d1(2) [unfolded dinv_def]] history_ok_collect in blast)
  qed
qed

lemma exec_history:
  assumes ok: "event_ok e y" and inv: "sys_inv y" and hist: "\<forall>d. row y = Some d \<longrightarrow> history_ok (state d)"
    and row': "row (exec cd e y) = Some d'"
  shows "history_ok (state d')"
  using ok inv
proof (cases rule: exec_row [where cd = cd])
  case same
  then show ?thesis using hist row' by simp
next
  case (opened path io nonce d1 s1)
  have "d1 = d'" using opened(2) row' by simp
  from opened(1) obtain own where i: "initialize cd own (map_option state (row y)) = Inr d1"
    by (auto simp: Open_def split: if_splits option.splits elim!: rbind_InrE)
  have "jinv (case row y of None \<Rightarrow> own | Some d0 \<Rightarrow> owner d0) j" if "map_option state (row y) = Some j" for j
    using inv that by (auto simp: sys_inv_def dinv_def)
  from initialize_cases [OF i this] obtain j where
    "state d1 = collect cd own (j\<lparr>Ready := False, ServerTime := zero_ztime, Budgets := []\<rparr>)" "jinv own j"
    by (metis disk.select_convs(2))
  then show ?thesis using history_ok_collect [OF jinv_clear] \<open>d1 = d'\<close> by auto
next
  case (reserved d1 d2 k f1 f2 t1 t2 t3 ns subject bound r s')
  then show ?thesis using Reserve_history [OF _ reserved(3-5) _ reserved(6)] inv hist row' by (simp add: sys_inv_def)
next
  case (finished d1 d2 k fault now a actual complete r s')
  have d1: "jinv (owner d1) (state d1)" "history_ok (state d1)"
    using inv hist finished(1) by (auto simp: sys_inv_def dinv_def)
  have "history_ok (state d2)" using finished(4)
  proof (cases rule: Finish_cases)
    case (run b rr s1)
    have act: "\<forall>n\<in>set_option actual. 0 \<le> n \<and> n \<le> max_i64" using run(4) finished(3) by blast
    from run(5) d1(2) show ?thesis
      by (rule transaction_state) (use finish_body_jinv [OF d1(1) act] history_ok_collect in blast)
  qed (use d1(2) in simp)
  then show ?thesis using finished(2) row' by simp
next
  case (requested d1 d2 k fault now r s')
  have d1: "jinv (owner d1) (state d1)" "history_ok (state d1)"
    using inv hist requested(1) by (auto simp: sys_inv_def dinv_def)
  obtain rr d3 s3 where t: "transaction cd fault (request_body (handles y ! k) now) d1 (handles y ! k) = (rr, d3, s3)"
    by (metis prod_cases3)
  have "d2 = d3" using requested(3) t by (auto simp: Request_def split: sum.splits)
  moreover from t d1(2) have "history_ok (state d3)"
    by (rule transaction_state) (use request_body_jinv [OF d1(1)] history_ok_collect in blast)
  ultimately show ?thesis using requested(2) row' by simp
next
  case (applied d1 d2 k fault received response rtt r s')
  have d1: "jinv (owner d1) (state d1)" "history_ok (state d1)"
    using inv hist applied(1) by (auto simp: sys_inv_def dinv_def)
  have "history_ok (state d2)" using applied(4)
  proof (cases rule: Apply_cases)
    case (run bs rr s1)
    from run(3) d1(2) show ?thesis
      by (rule transaction_state) (use apply_body_jinv [OF _ run(1) applied(3)] d1(1) history_ok_collect in metis)
  qed (use d1(2) in simp)
  then show ?thesis using applied(2) row' by simp
qed

lemma reachable_history: "reachable cd y \<Longrightarrow> \<forall>d. row y = Some d \<longrightarrow> history_ok (state d)"
proof (induction rule: reachable.induct)
  case start
  then show ?case by (simp add: boot0_def)
next
  case (step y e)
  then show ?case using exec_history [OF step(2) reachable_inv [OF step(1)]] by blast
qed

text \<open>
  History stays bounded: in every reachable state at most 256 finished permits and at
  most 1024 obsolete requests without a grant are kept.
\<close>

theorem history_stays_bounded:
  assumes "reachable cd y" "row y = Some d"
  shows "card {n. \<exists>p. gget (Permits (state d)) n = Some p \<and> Done p} \<le> 256 \<and>
    card {n. \<exists>r. gget (Requests (state d)) n = Some r \<and> obsolete_open r} \<le> 1024"
  using reachable_history [OF assms(1)] assms(2)
  by (simp add: history_ok_def completedReceiptLimit_def obsoleteRequestLimit_def)

theorem history_stays_bounded_witness:
  "card {n. \<exists>p. gget (Permits (state sample_disk)) n = Some p \<and> Done p} \<le> 256"
  using history_stays_bounded [OF sample_reachable sample_row] by blast

end
