(* ===== verification/Tier.thy ===== *)
theory Tier
  imports Go_Time
begin

text \<open>
  Budget tiers (\<open>src/internal/tier\<close>): the whole-percent utilisation of a budget, the
  table of model substitutions that the request path reads, and the latch that keeps a tier
  active until its budget window ends. A Go map is an association list, a nil map is the
  empty list (every use of a nil map here is a read), and the mutexes make each operation
  atomic.
\<close>

section \<open>Data\<close>

text \<open>The tier a heartbeat (or a local evaluation) reports as active.\<close>

record ActiveTier =
  at_Policy :: string
  at_Rule :: string
  at_BudgetRef :: string
  at_Team :: string
  at_ThresholdPercent :: i64
  at_Substitute :: "(string, string) gomap"
  at_EnforceTargets :: bool
  at_User :: string

record subjectKey =
  sk_team :: string
  sk_user :: string

record winner =
  threshold :: i64
  wn_policy :: string
  wn_rule :: string

record choice =
  target :: string
  priority :: winner

record tier_Table =
  bySubject :: "(subjectKey, (string, choice) gomap) gomap"
  strict :: "(subjectKey, (string, string) gomap) gomap"

record latchEntry =
  window :: string
  tierIndex :: int

type_synonym Latch = "(string, latchEntry) gomap"

datatype BudgetPeriod = PeriodCalendarDay | PeriodCalendarMonth | PeriodUnset

section \<open>Utilisation\<close>

text \<open>
  \<open>bits.Mul64\<close> gives the two halves of the 128-bit product, \<open>bits.Div64\<close> divides such a
  pair and panics (\<open>None\<close>) when the quotient does not fit.
\<close>

definition two64 :: int where
  "two64 = 18446744073709551616"

definition Mul64 :: "int \<Rightarrow> int \<Rightarrow> int \<times> int" where
  "Mul64 x y = (x * y div two64, x * y mod two64)"

definition Div64 :: "int \<Rightarrow> int \<Rightarrow> int \<Rightarrow> (int \<times> int) option" where
  "Div64 hi lo y = (if y \<le> hi then None
     else Some ((hi * two64 + lo) div y, (hi * two64 + lo) mod y))"

definition UtilizedPercent :: "i64 \<Rightarrow> i64 \<Rightarrow> i64 \<Rightarrow> int option" where
  "UtilizedPercent spent0 outstanding limit =
     (if spent0 < 0 \<or> outstanding < 0 \<or> limit \<le> 0 \<or> limit \<le> spent0
         \<or> wrap64 (limit - spent0) \<le> outstanding
      then Some 100
      else let (hi, lo) = Mul64 (wrap64 (spent0 + outstanding) mod two64) 100
           in map_option fst (Div64 hi lo (limit mod two64)))"

text \<open>The layouts \<open>2006-01\<close> and \<open>2006-01-02\<close> of \<open>time.Format\<close>: years of up to four digits.\<close>

definition WindowKeyForPeriod :: "Location \<Rightarrow> gotime \<Rightarrow> BudgetPeriod \<Rightarrow> string" where
  "WindowKeyForPeriod loc now period =
     (let (y, m, d) = civil_in loc now in
      if period = PeriodCalendarDay then pad 4 y @ ''-'' @ pad 2 m @ ''-'' @ pad 2 d
      else pad 4 y @ ''-'' @ pad 2 m)"

definition WindowKey :: "gotime \<Rightarrow> string" where
  "WindowKey now = (let (y, m, d) = civil_in UTC now in pad 4 y @ ''-'' @ pad 2 m)"

section \<open>The substitution table\<close>

definition NewTable :: tier_Table where
  "NewTable = \<lparr>bySubject = [], strict = []\<rparr>"

definition no_subject :: subjectKey where
  "no_subject = \<lparr>sk_team = [], sk_user = []\<rparr>"

definition higherPressure :: "winner \<Rightarrow> winner \<Rightarrow> bool" where
  "higherPressure cand cur =
     (if threshold cand \<noteq> threshold cur then threshold cand > threshold cur
      else if wn_policy cand \<noteq> wn_policy cur then wn_policy cand < wn_policy cur
      else wn_rule cand < wn_rule cur)"

definition mergeConstraints ::
  "(string, string) gomap \<Rightarrow> (string, string) gomap \<Rightarrow> (string, string) gomap" where
  "mergeConstraints out restrictions =
     fold (\<lambda>(from, to) out.
       case gget out from of
         Some old \<Rightarrow> gput from (if old \<noteq> to then [] else to) out
       | None \<Rightarrow> gput from to out) restrictions out"

definition matchingKeys :: "string \<Rightarrow> string \<Rightarrow> subjectKey list" where
  "matchingKeys team user =
     [\<lparr>sk_team = team, sk_user = []\<rparr>, \<lparr>sk_team = [], sk_user = user\<rparr>,
      if team \<noteq> [] \<and> user \<noteq> [] then \<lparr>sk_team = team, sk_user = user\<rparr> else no_subject]"

text \<open>The entry of a subject, the nil map when it has none.\<close>

definition gat :: "('k, ('a, 'b) gomap) gomap \<Rightarrow> 'k \<Rightarrow> ('a, 'b) gomap" where
  "gat m k = (case gget m k of None \<Rightarrow> [] | Some v \<Rightarrow> v)"

definition keep_choice :: "string \<times> choice \<Rightarrow> (string, choice) gomap \<Rightarrow> (string, choice) gomap" where
  "keep_choice fc selected =
     (case fc of (from, candidate) \<Rightarrow>
        (case gget selected from of
           Some previous \<Rightarrow>
             if higherPressure (priority candidate) (priority previous)
             then gput from candidate selected else selected
         | None \<Rightarrow> gput from candidate selected))"

definition GetForSubject :: "tier_Table \<Rightarrow> string \<Rightarrow> string \<Rightarrow> (string, string) gomap" where
  "GetForSubject t team user =
     (let selected = fold (\<lambda>key selected.
            if key = no_subject then selected
            else fold keep_choice (gat (bySubject t) key) selected) (matchingKeys team user) []
      in gmapv (\<lambda>_. target) selected)"

definition Get :: "tier_Table \<Rightarrow> string \<Rightarrow> (string, string) gomap" where
  "Get t team = GetForSubject t team []"

definition ConstraintsForSubject :: "tier_Table \<Rightarrow> string \<Rightarrow> string \<Rightarrow> (string, string) gomap" where
  "ConstraintsForSubject t team user =
     fold (\<lambda>key out.
       if key = no_subject \<or> gat (strict t) key = [] then out
       else mergeConstraints out (gat (strict t) key)) (matchingKeys team user) []"

definition Constraints :: "tier_Table \<Rightarrow> string \<Rightarrow> (string, string) gomap" where
  "Constraints t team = ConstraintsForSubject t team []"

definition tier_subject :: "ActiveTier \<Rightarrow> subjectKey" where
  "tier_subject a = \<lparr>sk_team = at_Team a, sk_user = at_User a\<rparr>"

definition tier_winner :: "ActiveTier \<Rightarrow> winner" where
  "tier_winner a = \<lparr>threshold = at_ThresholdPercent a, wn_policy = at_Policy a, wn_rule = at_Rule a\<rparr>"

definition offer :: "winner \<Rightarrow> string \<times> string \<Rightarrow> (string, choice) gomap \<Rightarrow> (string, choice) gomap" where
  "offer cand ft m =
     (case ft of (from, to) \<Rightarrow>
        (case gget m from of
           Some cur \<Rightarrow>
             if \<not> higherPressure cand (priority cur) then m
             else gput from \<lparr>target = to, priority = cand\<rparr> m
         | None \<Rightarrow> gput from \<lparr>target = to, priority = cand\<rparr> m))"

definition set_tier :: "ActiveTier \<Rightarrow> tier_Table \<Rightarrow> tier_Table" where
  "set_tier a t =
     (let key = tier_subject a in
      if key = no_subject then t
      else
        let t1 = (if at_EnforceTargets a
                  then t\<lparr>strict := gput key (mergeConstraints (gat (strict t) key) (at_Substitute a)) (strict t)\<rparr>
                  else t)
        in t1\<lparr>bySubject := gput key (fold (offer (tier_winner a)) (at_Substitute a) (gat (bySubject t1) key))
                (bySubject t1)\<rparr>)"

definition tier_Set :: "ActiveTier list \<Rightarrow> tier_Table \<Rightarrow> tier_Table" where
  "tier_Set active t = fold set_tier active \<lparr>bySubject = [], strict = []\<rparr>"

section \<open>The latch\<close>

definition NewLatch :: Latch where
  "NewLatch = []"

fun crossed_from :: "int \<Rightarrow> int \<Rightarrow> int list \<Rightarrow> int \<Rightarrow> int" where
  "crossed_from i crossed [] percentUtilized = crossed"
| "crossed_from i crossed (th # ths) percentUtilized =
     crossed_from (i + 1) (if th \<le> percentUtilized then i else crossed) ths percentUtilized"

definition latch_Evaluate :: "string \<Rightarrow> string \<Rightarrow> int list \<Rightarrow> int \<Rightarrow> Latch \<Rightarrow> int \<times> Latch" where
  "latch_Evaluate key w thresholds percentUtilized l =
     (let fresh = \<lparr>window = w, tierIndex = - 1\<rparr>;
          e = (case gget l key of None \<Rightarrow> fresh | Some e \<Rightarrow> if window e \<noteq> w then fresh else e);
          crossed = crossed_from 0 (- 1) thresholds percentUtilized;
          e1 = (if crossed > tierIndex e then e\<lparr>tierIndex := crossed\<rparr> else e);
          e2 = (if tierIndex e1 \<ge> int (length thresholds)
                then e1\<lparr>tierIndex := int (length thresholds) - 1\<rparr> else e1)
      in (tierIndex e2, gput key e2 l))"

definition Forget :: "string \<Rightarrow> Latch \<Rightarrow> Latch" where
  "Forget key l = gdel key l"

section \<open>The order on tiers\<close>

lemma tier_outranked:
  "\<not> higherPressure (tier_winner b) (tier_winner a) \<longleftrightarrow>
     at_ThresholdPercent b < at_ThresholdPercent a
     \<or> at_ThresholdPercent b = at_ThresholdPercent a
        \<and> (at_Policy a < at_Policy b \<or> at_Policy a = at_Policy b \<and> at_Rule a \<le> at_Rule b)"
  by (auto simp: higherPressure_def tier_winner_def not_less)

lemma higherPressure_irrefl [simp]: "\<not> higherPressure w w"
  by (simp add: higherPressure_def)

lemma higherPressure_negtrans:
  "\<not> higherPressure a b \<Longrightarrow> \<not> higherPressure b c \<Longrightarrow> \<not> higherPressure a c"
  by (auto simp: higherPressure_def not_less split: if_splits)

lemma higherPressure_asym: "higherPressure a b \<Longrightarrow> \<not> higherPressure b a"
  by (auto simp: higherPressure_def split: if_splits)

lemma higherPressure_total: "\<not> higherPressure a b \<Longrightarrow> \<not> higherPressure b a \<Longrightarrow> a = b"
  by (cases a, cases b) (auto simp: higherPressure_def split: if_splits)

text \<open>\<open>r\<close> is a choice of highest pressure among \<open>C\<close>, or nothing when \<open>C\<close> is empty.\<close>

definition is_best :: "choice set \<Rightarrow> choice option \<Rightarrow> bool" where
  "is_best C r = (case r of None \<Rightarrow> C = {}
     | Some c \<Rightarrow> c \<in> C \<and> (\<forall>c'\<in>C. \<not> higherPressure (priority c') (priority c)))"

definition prefer_choice :: "choice option \<Rightarrow> choice option \<Rightarrow> choice option" where
  "prefer_choice cand cur =
     (case cand of None \<Rightarrow> cur
      | Some c \<Rightarrow> (case cur of None \<Rightarrow> Some c
                 | Some p \<Rightarrow> if higherPressure (priority c) (priority p) then Some c else Some p))"

lemma prefer_choice_None [simp]: "prefer_choice None cur = cur"
  by (simp add: prefer_choice_def)

lemma is_best_empty [simp]: "is_best {} r \<longleftrightarrow> r = None"
  by (cases r) (auto simp: is_best_def)

lemma is_best_single [simp]: "is_best {c} (Some c)"
  by (simp add: is_best_def)

lemma prefer_choice_best:
  assumes "is_best C r" "is_best D s"
  shows "is_best (C \<union> D) (prefer_choice r s)"
proof (cases r)
  case None
  with assms show ?thesis by (simp add: is_best_def prefer_choice_def)
next
  case (Some c)
  note r = this
  show ?thesis
  proof (cases s)
    case None
    with assms r show ?thesis by (auto simp: is_best_def prefer_choice_def)
  next
    case (Some p)
    have C: "c \<in> C" "\<And>c'. c' \<in> C \<Longrightarrow> \<not> higherPressure (priority c') (priority c)"
      and D: "p \<in> D" "\<And>c'. c' \<in> D \<Longrightarrow> \<not> higherPressure (priority c') (priority p)"
      using assms r Some by (auto simp: is_best_def)
    show ?thesis
    proof (cases "higherPressure (priority c) (priority p)")
      case True
      have "\<not> higherPressure (priority c') (priority c)" if "c' \<in> D" for c'
        using D(2) [OF that] higherPressure_asym [OF True] by (rule higherPressure_negtrans)
      with True r Some C show ?thesis by (auto simp: is_best_def prefer_choice_def)
    next
      case False
      have "\<not> higherPressure (priority c') (priority p)" if "c' \<in> C" for c'
        using C(2) [OF that] False by (rule higherPressure_negtrans)
      with False r Some D show ?thesis by (auto simp: is_best_def prefer_choice_def)
    qed
  qed
qed

text \<open>What the loops of the table compute at one requested model.\<close>

lemma gget_keep_choices:
  "gwf r \<Longrightarrow> gget (fold keep_choice r m) from = prefer_choice (gget r from) (gget m from)"
  by (subst gget_fold_own
      [where F = "\<lambda>_ c cur. prefer_choice (Some c) cur"])
     (auto simp: keep_choice_def prefer_choice_def gomap split: option.splits)

lemma gget_offers:
  "gwf r \<Longrightarrow> gget (fold (offer w) r m) from =
     prefer_choice (map_option (\<lambda>to. \<lparr>target = to, priority = w\<rparr>) (gget r from)) (gget m from)"
  by (subst gget_fold_own
      [where F = "\<lambda>_ to cur. prefer_choice (Some \<lparr>target = to, priority = w\<rparr>) cur"])
     (auto simp: offer_def prefer_choice_def gomap split: option.splits)

lemma gwf_keep_choices [simp]: "gwf m \<Longrightarrow> gwf (fold keep_choice r m)"
  by (rule gwf_fold) (auto simp: keep_choice_def split: option.splits)

lemma gwf_offers [simp]: "gwf m \<Longrightarrow> gwf (fold (offer w) r m)"
  by (rule gwf_fold) (auto simp: offer_def split: option.splits)

section \<open>The table holds the deepest tier of every subject\<close>

text \<open>The substitutions that the active tiers of one subject offer for a requested model.\<close>

definition offers :: "ActiveTier set \<Rightarrow> subjectKey \<Rightarrow> string \<Rightarrow> choice set" where
  "offers A k from = {c. \<exists>a\<in>A. tier_subject a = k \<and> k \<noteq> no_subject
     \<and> gget (at_Substitute a) from = Some (target c) \<and> priority c = tier_winner a}"

lemma offers_insert:
  "offers (insert a A) k from =
     (if tier_subject a = k \<and> k \<noteq> no_subject
      then (case gget (at_Substitute a) from of None \<Rightarrow> {}
            | Some to \<Rightarrow> {\<lparr>target = to, priority = tier_winner a\<rparr>}) else {}) \<union> offers A k from"
  by (auto simp: offers_def split: option.splits)

definition table_wf :: "tier_Table \<Rightarrow> bool" where
  "table_wf t \<longleftrightarrow> (\<forall>k. gwf (gat (bySubject t) k) \<and> gwf (gat (strict t) k))"

lemma gat_gput [simp]: "gat (gput k v m) k' = (if k' = k then v else gat m k')"
  by (simp add: gat_def gomap)

lemma gat_Nil [simp]: "gat [] k = []"
  by (simp add: gat_def)

lemma gwf_mergeConstraints [simp]: "gwf out \<Longrightarrow> gwf (mergeConstraints out r)"
  unfolding mergeConstraints_def by (rule gwf_fold) (auto split: option.splits)

lemma set_tier_wf: "table_wf t \<Longrightarrow> table_wf (set_tier a t)"
  by (auto simp: table_wf_def set_tier_def Let_def)

lemma set_tier_bySubject:
  assumes "gwf (at_Substitute a)"
  shows "gget (gat (bySubject (set_tier a t)) k) from =
    prefer_choice (if tier_subject a = k \<and> k \<noteq> no_subject
      then map_option (\<lambda>to. \<lparr>target = to, priority = tier_winner a\<rparr>) (gget (at_Substitute a) from)
      else None) (gget (gat (bySubject t) k) from)"
  using assms by (simp add: set_tier_def Let_def gget_offers)

definition subjects_best :: "ActiveTier set \<Rightarrow> tier_Table \<Rightarrow> bool" where
  "subjects_best A t \<longleftrightarrow> (\<forall>k from. is_best (offers A k from) (gget (gat (bySubject t) k) from))"

lemma set_tier_best:
  assumes "gwf (at_Substitute a)" "subjects_best A t"
  shows "subjects_best (insert a A) (set_tier a t)"
  unfolding subjects_best_def
proof (intro allI)
  fix k fm
  have "is_best (offers A k fm) (gget (gat (bySubject t) k) fm)"
    using assms(2) by (simp add: subjects_best_def)
  moreover have "is_best
      (if tier_subject a = k \<and> k \<noteq> no_subject
       then (case gget (at_Substitute a) fm of None \<Rightarrow> {}
             | Some to \<Rightarrow> {\<lparr>target = to, priority = tier_winner a\<rparr>}) else {})
      (if tier_subject a = k \<and> k \<noteq> no_subject
       then map_option (\<lambda>to. \<lparr>target = to, priority = tier_winner a\<rparr>) (gget (at_Substitute a) fm)
       else None)"
    by (simp split: option.split)
  ultimately show "is_best (offers (insert a A) k fm) (gget (gat (bySubject (set_tier a t)) k) fm)"
    unfolding offers_insert set_tier_bySubject [OF assms(1)] by (intro prefer_choice_best)
qed

lemma fold_set_tier_best:
  assumes "\<forall>a\<in>set as. gwf (at_Substitute a)" "subjects_best A t"
  shows "subjects_best (A \<union> set as) (fold set_tier as t)"
  using assms
proof (induction as arbitrary: A t)
  case Nil
  then show ?case by simp
next
  case (Cons a as)
  have "subjects_best (insert a A) (set_tier a t)"
    using Cons.prems by (intro set_tier_best) auto
  then have "subjects_best (insert a A \<union> set as) (fold set_tier as (set_tier a t))"
    using Cons.prems(1) by (intro Cons.IH) auto
  then show ?case by simp
qed

lemma fold_set_tier_wf: "table_wf t \<Longrightarrow> table_wf (fold set_tier as t)"
  by (induction as arbitrary: t) (auto simp: set_tier_wf)

lemma tier_Set_best:
  assumes "\<forall>a\<in>set active. gwf (at_Substitute a)"
  shows "subjects_best (set active) (tier_Set active t)" "table_wf (tier_Set active t)"
proof -
  have "subjects_best {} \<lparr>bySubject = [], strict = []\<rparr>"
    by (simp add: subjects_best_def offers_def)
  from fold_set_tier_best [OF assms this] show "subjects_best (set active) (tier_Set active t)"
    by (simp add: tier_Set_def)
  show "table_wf (tier_Set active t)"
    unfolding tier_Set_def by (rule fold_set_tier_wf) (simp add: table_wf_def)
qed

text \<open>A tier applies to a caller when each selector it names is the caller's.\<close>

definition applies :: "string \<Rightarrow> string \<Rightarrow> ActiveTier \<Rightarrow> bool" where
  "applies team user a \<longleftrightarrow> tier_subject a \<noteq> no_subject
     \<and> (at_Team a = [] \<or> at_Team a = team) \<and> (at_User a = [] \<or> at_User a = user)"

lemma applies_iff:
  "applies team user a \<longleftrightarrow> tier_subject a \<noteq> no_subject \<and> tier_subject a \<in> set (matchingKeys team user)"
  by (auto simp: applies_def matchingKeys_def tier_subject_def no_subject_def)

lemma select_keys_best:
  assumes "subjects_best A t" "table_wf t" "is_best C (gget m from)"
  shows "is_best (C \<union> (\<Union>k\<in>set ks. offers A k from))
    (gget (fold (\<lambda>key selected. if key = no_subject then selected
        else fold keep_choice (gat (bySubject t) key) selected) ks m) from)"
  using assms(3)
proof (induction ks arbitrary: C m)
  case Nil
  then show ?case by simp
next
  case (Cons k ks)
  let ?m = "if k = no_subject then m else fold keep_choice (gat (bySubject t) k) m"
  have "is_best (offers A k from \<union> C) (gget ?m from)"
  proof (cases "k = no_subject")
    case True
    then have "offers A k from = {}" by (simp add: offers_def)
    then show ?thesis using True Cons.prems by simp
  next
    case False
    have "gwf (gat (bySubject t) k)" using assms(2) by (simp add: table_wf_def)
    then show ?thesis
      using False assms(1) Cons.prems
      by (simp add: gget_keep_choices subjects_best_def prefer_choice_best)
  qed
  from Cons.IH [OF this] show ?case by (simp add: Un_ac)
qed

lemma GetForSubject_best:
  assumes "\<forall>a\<in>set active. gwf (at_Substitute a)"
  obtains r where "gget (GetForSubject (tier_Set active t) team user) from = map_option target r"
    "is_best {c. \<exists>a\<in>set active. applies team user a
       \<and> gget (at_Substitute a) from = Some (target c) \<and> priority c = tier_winner a} r"
proof -
  let ?t = "tier_Set active t"
  let ?sel = "fold (\<lambda>key selected. if key = no_subject then selected
        else fold keep_choice (gat (bySubject ?t) key) selected) (matchingKeys team user) []"
  have "is_best ({} \<union> (\<Union>k\<in>set (matchingKeys team user). offers (set active) k from)) (gget ?sel from)"
    by (rule select_keys_best [OF tier_Set_best [OF assms]]) simp
  moreover have "(\<Union>k\<in>set (matchingKeys team user). offers (set active) k from)
      = {c. \<exists>a\<in>set active. applies team user a
          \<and> gget (at_Substitute a) from = Some (target c) \<and> priority c = tier_winner a}"
    by (auto simp: offers_def applies_iff)
  moreover have "gget (GetForSubject ?t team user) from = map_option target (gget ?sel from)"
    by (simp add: GetForSubject_def Let_def gget_gmapv)
  ultimately show ?thesis using that by simp
qed

section \<open>Strict restrictions are joined, never overridden\<close>

definition join_target :: "string option \<Rightarrow> string option \<Rightarrow> string option" where
  "join_target a b =
     (case b of None \<Rightarrow> a
      | Some to \<Rightarrow> (case a of None \<Rightarrow> Some to | Some old \<Rightarrow> Some (if old \<noteq> to then [] else to)))"

text \<open>The restriction a set of targets amounts to: the target they agree on, or denial.\<close>

definition agreed :: "string set \<Rightarrow> string option" where
  "agreed T = (if T = {} then None else if is_singleton T then Some (the_elem T) else Some [])"

lemma agreed_simps [simp]: "agreed {} = None" "agreed {x} = Some x"
  by (simp_all add: agreed_def)

lemma agreed_conflict: "x \<in> T \<Longrightarrow> y \<in> T \<Longrightarrow> x \<noteq> y \<Longrightarrow> agreed T = Some []"
  by (auto simp: agreed_def is_singleton_def)

lemma agreed_cases:
  obtains (none) "T = {}" | (one) x where "T = {x}" | (conflict) x y where "x \<in> T" "y \<in> T" "x \<noteq> y"
  by (metis is_singletonI' is_singleton_def)

lemma join_agreed: "join_target (agreed S) (agreed T) = agreed (S \<union> T)"
proof (cases S rule: agreed_cases)
  case none
  then show ?thesis by (simp add: join_target_def split: option.split)
next
  case (one x)
  note S = this
  show ?thesis
  proof (cases T rule: agreed_cases)
    case none
    with S show ?thesis by (simp add: join_target_def)
  next
    case (one y)
    then show ?thesis using S agreed_conflict [of x "S \<union> T" y]
      by (cases "x = y") (auto simp: join_target_def)
  next
    case (conflict y z)
    then have "agreed T = Some []" "agreed (S \<union> T) = Some []"
      by (auto intro: agreed_conflict [of y _ z])
    with S show ?thesis by (simp add: join_target_def)
  qed
next
  case (conflict y z)
  then have "agreed S = Some []" "agreed (S \<union> T) = Some []"
    by (auto intro: agreed_conflict [of y _ z])
  then show ?thesis by (auto simp: join_target_def split: option.split)
qed

lemma gget_mergeConstraints:
  "gwf r \<Longrightarrow> gget (mergeConstraints out r) from = join_target (gget out from) (gget r from)"
  unfolding mergeConstraints_def
  by (subst gget_fold_own [where F = "\<lambda>_ to old. join_target old (Some to)"])
     (auto simp: join_target_def gomap split: option.splits)

text \<open>The targets that the strict tiers of one subject demand for a requested model.\<close>

definition demands :: "ActiveTier set \<Rightarrow> subjectKey \<Rightarrow> string \<Rightarrow> string set" where
  "demands A k from = {to. \<exists>a\<in>A. tier_subject a = k \<and> k \<noteq> no_subject
     \<and> at_EnforceTargets a \<and> gget (at_Substitute a) from = Some to}"

lemma set_tier_strict:
  assumes "gwf (at_Substitute a)" "gget (gat (strict t) k) from = agreed (demands A k from)"
  shows "gget (gat (strict (set_tier a t)) k) from = agreed (demands (insert a A) k from)"
proof -
  let ?D = "if tier_subject a = k \<and> k \<noteq> no_subject \<and> at_EnforceTargets a
            then set_option (gget (at_Substitute a) from) else {}"
  have "gget (gat (strict (set_tier a t)) k) from = join_target (gget (gat (strict t) k) from) (agreed ?D)"
  proof (cases "tier_subject a = k \<and> k \<noteq> no_subject \<and> at_EnforceTargets a")
    case True
    then show ?thesis using assms(1)
      by (cases "gget (at_Substitute a) from")
         (simp_all add: set_tier_def Let_def gget_mergeConstraints)
  next
    case False
    then show ?thesis by (auto simp: set_tier_def Let_def join_target_def)
  qed
  also have "\<dots> = agreed (demands A k from \<union> ?D)" by (simp add: assms(2) join_agreed)
  also have "demands A k from \<union> ?D = demands (insert a A) k from" by (auto simp: demands_def)
  finally show ?thesis .
qed

lemma tier_Set_strict:
  assumes "\<forall>a\<in>set active. gwf (at_Substitute a)"
  shows "gget (gat (strict (tier_Set active t)) k) from = agreed (demands (set active) k from)"
proof -
  have "gget (gat (strict (fold set_tier as t0)) k) from = agreed (demands (A \<union> set as) k from)"
    if "\<forall>a\<in>set as. gwf (at_Substitute a)" "gget (gat (strict t0) k) from = agreed (demands A k from)"
    for as t0 A
    using that
  proof (induction as arbitrary: A t0)
    case Nil
    then show ?case by simp
  next
    case (Cons a as)
    then have "gget (gat (strict (fold set_tier as (set_tier a t0))) k) from
        = agreed (demands (insert a A \<union> set as) k from)"
      by (intro Cons.IH set_tier_strict) auto
    then show ?case by simp
  qed
  from this [OF assms, of "\<lparr>bySubject = [], strict = []\<rparr>" "{}"] show ?thesis
    by (simp add: tier_Set_def demands_def)
qed

lemma constraint_keys:
  assumes "\<And>k. gwf (gat (strict t) k)"
    and "\<And>k. gget (gat (strict t) k) from = agreed (demands A k from)"
    and "gget m from = agreed D"
  shows "gget (fold (\<lambda>key out. if key = no_subject \<or> gat (strict t) key = [] then out
      else mergeConstraints out (gat (strict t) key)) ks m) from
    = agreed (D \<union> (\<Union>k\<in>set ks. demands A k from))"
  using assms(3)
proof (induction ks arbitrary: D m)
  case Nil
  then show ?case by simp
next
  case (Cons k ks)
  let ?m = "if k = no_subject \<or> gat (strict t) k = [] then m else mergeConstraints m (gat (strict t) k)"
  have "gget ?m from = agreed (D \<union> demands A k from)"
  proof (cases "k = no_subject \<or> gat (strict t) k = []")
    case True
    have "agreed (demands A k from) = None"
      using True assms(2) [of k] by (auto simp: demands_def)
    then have "demands A k from = {}" by (auto simp: agreed_def split: if_splits)
    with True Cons.prems show ?thesis by simp
  next
    case False
    then show ?thesis
      using Cons.prems by (simp add: gget_mergeConstraints assms join_agreed)
  qed
  from Cons.IH [OF this] show ?case by (simp add: Un_ac)
qed

lemma ConstraintsForSubject_agreed:
  assumes "\<forall>a\<in>set active. gwf (at_Substitute a)"
  shows "gget (ConstraintsForSubject (tier_Set active t) team user) from
    = agreed {to. \<exists>a\<in>set active. applies team user a \<and> at_EnforceTargets a
                \<and> gget (at_Substitute a) from = Some to}"
proof -
  have "gget (ConstraintsForSubject (tier_Set active t) team user) from
      = agreed ({} \<union> (\<Union>k\<in>set (matchingKeys team user). demands (set active) k from))"
    unfolding ConstraintsForSubject_def
    using tier_Set_best(2) [OF assms]
    by (intro constraint_keys tier_Set_strict [OF assms]) (auto simp: table_wf_def)
  also have "{} \<union> (\<Union>k\<in>set (matchingKeys team user). demands (set active) k from)
      = {to. \<exists>a\<in>set active. applies team user a \<and> at_EnforceTargets a
          \<and> gget (at_Substitute a) from = Some to}"
    by (auto simp: demands_def applies_iff)
  finally show ?thesis .
qed

section \<open>The latch\<close>

text \<open>The deepest threshold that a sample crosses, and the index an entry holds in a window.\<close>

definition held :: "string \<Rightarrow> string \<Rightarrow> Latch \<Rightarrow> int" where
  "held key w l = (case gget l key of None \<Rightarrow> - 1 | Some e \<Rightarrow> if window e \<noteq> w then - 1 else tierIndex e)"

lemma crossed_from_cases:
  "(\<forall>th\<in>set ths. p < th) \<and> crossed_from i c ths p = c
   \<or> (\<exists>n < length ths. ths ! n \<le> p \<and> (\<forall>m. n < m \<and> m < length ths \<longrightarrow> p < ths ! m)
        \<and> crossed_from i c ths p = i + int n)"
proof (induction ths arbitrary: i c)
  case Nil
  then show ?case by simp
next
  case (Cons th ths)
  show ?case
  proof (cases "\<exists>n < length ths. ths ! n \<le> p \<and> (\<forall>m. n < m \<and> m < length ths \<longrightarrow> p < ths ! m)
        \<and> crossed_from (i + 1) (if th \<le> p then i else c) ths p = i + 1 + int n")
    case True
    then obtain n where n: "n < length ths" "ths ! n \<le> p" "\<forall>m. n < m \<and> m < length ths \<longrightarrow> p < ths ! m"
      "crossed_from (i + 1) (if th \<le> p then i else c) ths p = i + 1 + int n" by blast
    have "\<forall>m. Suc n < m \<and> m < length (th # ths) \<longrightarrow> p < (th # ths) ! m"
      using n(3) by (auto simp: nth_Cons split: nat.split)
    then show ?thesis using n by (intro disjI2 exI [of _ "Suc n"]) simp
  next
    case False
    with Cons.IH [of "i + 1" "if th \<le> p then i else c"]
    have "\<forall>th\<in>set ths. p < th" and c: "crossed_from (i + 1) (if th \<le> p then i else c) ths p = (if th \<le> p then i else c)"
      by blast+
    then have "\<forall>m. 0 < m \<and> m < length (th # ths) \<longrightarrow> p < (th # ths) ! m"
      by (auto simp: nth_Cons split: nat.split)
    then show ?thesis using c \<open>\<forall>th\<in>set ths. p < th\<close>
      by (cases "th \<le> p") (auto intro!: exI [of _ 0])
  qed
qed

lemma crossed_range: "- 1 \<le> crossed_from 0 (- 1) ths p" "crossed_from 0 (- 1) ths p < int (length ths)"
  using crossed_from_cases [of ths p 0 "- 1"] by auto

lemma latch_Evaluate_fst:
  "fst (latch_Evaluate key w ths p l) =
     min (max (held key w l) (crossed_from 0 (- 1) ths p)) (int (length ths) - 1)"
  by (auto simp: latch_Evaluate_def Let_def held_def split: option.splits)

lemma latch_Evaluate_held:
  "held k w' (snd (latch_Evaluate key w ths p l)) =
     (if k = key then (if w' = w then fst (latch_Evaluate key w ths p l) else - 1) else held k w' l)"
  by (auto simp: latch_Evaluate_def Let_def held_def gomap split: option.splits)

text \<open>A run of samples of one rule in one window.\<close>

fun latch_run :: "string \<Rightarrow> string \<Rightarrow> int list \<Rightarrow> int list \<Rightarrow> Latch \<Rightarrow> int list \<times> Latch" where
  "latch_run key w ths [] l = ([], l)"
| "latch_run key w ths (p # ps) l =
     (let (i, l1) = latch_Evaluate key w ths p l; (is, l2) = latch_run key w ths ps l1 in (i # is, l2))"

lemma latch_run_values:
  assumes "i < length ps" "held key w l < int (length ths)"
  shows "fst (latch_run key w ths ps l) ! i
    = fold (\<lambda>p m. max m (crossed_from 0 (- 1) ths p)) (take (Suc i) ps) (held key w l)"
  using assms
proof (induction ps arbitrary: l i)
  case Nil
  then show ?case by simp
next
  case (Cons p ps)
  let ?l = "snd (latch_Evaluate key w ths p l)"
  have v: "fst (latch_Evaluate key w ths p l) = max (held key w l) (crossed_from 0 (- 1) ths p)"
    using Cons.prems(2) crossed_range(2) [of ths p] by (simp add: latch_Evaluate_fst)
  then have held: "held key w ?l = max (held key w l) (crossed_from 0 (- 1) ths p)"
    by (simp add: latch_Evaluate_held)
  have lt: "held key w ?l < int (length ths)"
    using Cons.prems(2) crossed_range(2) [of ths p] by (simp add: held)
  show ?case
  proof (cases i)
    case 0
    then show ?thesis using v by (simp add: case_prod_unfold Let_def)
  next
    case (Suc j)
    then show ?thesis using Cons.IH [OF _ lt, of j] Cons.prems(1)
      by (simp add: case_prod_unfold Let_def held)
  qed
qed

lemma length_latch_run [simp]: "length (fst (latch_run key w ths ps l)) = length ps"
  by (induction ps arbitrary: l) (simp_all add: case_prod_unfold Let_def)

lemma count_above:
  "sorted ths \<Longrightarrow> n < length ths \<Longrightarrow> ths ! n \<le> p \<Longrightarrow> \<forall>m. n < m \<and> m < length ths \<longrightarrow> p < ths ! m
   \<Longrightarrow> length (filter (\<lambda>th. th \<le> (p::int)) ths) = Suc n"
proof (induction ths arbitrary: n)
  case Nil
  then show ?case by simp
next
  case (Cons th ths)
  show ?case
  proof (cases n)
    case 0
    have "\<forall>x\<in>set ths. p < x"
    proof
      fix x assume "x \<in> set ths"
      then obtain i where i: "i < length ths" "x = ths ! i" by (auto simp: in_set_conv_nth)
      then show "p < x" using Cons.prems(4) 0 by (auto dest!: spec [of _ "Suc i"])
    qed
    then have "filter (\<lambda>th. th \<le> p) ths = []" by (simp add: filter_empty_conv not_le)
    then show ?thesis using 0 Cons.prems(3) by simp
  next
    case (Suc m)
    have "ths ! m \<le> p" "m < length ths" using Cons.prems(2,3) Suc by auto
    moreover have "th \<le> p"
      using Cons.prems(1) \<open>m < length ths\<close> \<open>ths ! m \<le> p\<close> by (force dest: nth_mem)
    moreover have "\<forall>i. m < i \<and> i < length ths \<longrightarrow> p < ths ! i"
    proof (intro allI impI)
      fix i assume "m < i \<and> i < length ths"
      then show "p < ths ! i" using Cons.prems(4) [rule_format, of "Suc i"] Suc by simp
    qed
    ultimately show ?thesis using Cons.IH [of m] Cons.prems(1) Suc by simp
  qed
qed

lemma crossed_eq_count:
  assumes "sorted ths"
  shows "crossed_from 0 (- 1) ths p = int (length (filter (\<lambda>th. th \<le> p) ths)) - 1"
proof (cases "\<forall>th\<in>set ths. p < th")
  case True
  then have "filter (\<lambda>th. th \<le> p) ths = []" by (simp add: filter_empty_conv not_le)
  moreover have "crossed_from 0 (- 1) ths p = - 1"
    using True crossed_from_cases [of ths p 0 "- 1"] by (auto simp: in_set_conv_nth not_le) (meson leD nth_mem)
  ultimately show ?thesis by simp
next
  case False
  then obtain n where "n < length ths" "ths ! n \<le> p" "\<forall>m. n < m \<and> m < length ths \<longrightarrow> p < ths ! m"
    "crossed_from 0 (- 1) ths p = int n"
    using crossed_from_cases [of ths p 0 "- 1"] by auto
  with count_above [OF assms this(1-3)] show ?thesis by simp
qed

lemma crossed_mono:
  assumes "sorted ths" "p \<le> q"
  shows "crossed_from 0 (- 1) ths p \<le> crossed_from 0 (- 1) ths q"
proof -
  have "length (filter (\<lambda>th. th \<le> p) ths) \<le> length (filter (\<lambda>th. th \<le> q) ths)"
    using assms(2) by (induction ths) auto
  then show ?thesis by (simp add: crossed_eq_count [OF assms(1)])
qed

lemma fold_max_mono:
  fixes f :: "int \<Rightarrow> int"
  assumes "\<And>p q. p \<le> q \<Longrightarrow> f p \<le> f q"
  shows "fold (\<lambda>p m. max m (f p)) ps (f x) = f (fold max ps x)"
proof (induction ps arbitrary: x)
  case Nil
  then show ?case by simp
next
  case (Cons p ps)
  have "max (f x) (f p) = f (max p x)"
    using assms [of x p] assms [of p x] by (cases "x \<le> p") (auto simp: max_def)
  then show ?case using Cons.IH [of "max p x"] by simp
qed

lemma latch_ok_clamp:
  assumes "- 1 \<le> held key w l"
  shows "- 1 \<le> fst (latch_Evaluate key w ths p l)"
    and "fst (latch_Evaluate key w ths p l) < int (length ths)"
    and "held key w l < int (length ths) \<Longrightarrow> held key w l \<le> fst (latch_Evaluate key w ths p l)"
  using assms crossed_range [of ths p] by (auto simp: latch_Evaluate_fst)

text \<open>
  The utilisation of a budget is the whole percentage of its limit that is spent or set
  aside, capped at 100, computed without overflow or panic for all 64-bit values; broken
  accounting (a negative amount, no positive limit) reads as exhausted.
\<close>

lemma UtilizedPercent_exact:
  assumes "in_i64 spent0" "in_i64 outstanding" "in_i64 limit"
  shows "UtilizedPercent spent0 outstanding limit =
    Some (if spent0 < 0 \<or> outstanding < 0 \<or> limit \<le> 0 then 100
          else min 100 ((spent0 + outstanding) * 100 div limit))"
proof (cases "spent0 < 0 \<or> outstanding < 0 \<or> limit \<le> 0")
  case True
  then show ?thesis by (auto simp: UtilizedPercent_def)
next
  case False
  then have pos: "0 \<le> spent0" "0 \<le> outstanding" "0 < limit" by auto
  have w: "wrap64 (limit - spent0) = limit - spent0"
    using pos assms by (intro wrap64_diff_nonneg) (auto simp: in_i64_def)
  show ?thesis
  proof (cases "limit \<le> spent0 + outstanding")
    case True
    have "limit * 100 div limit \<le> (spent0 + outstanding) * 100 div limit"
      using pos True by (intro zdiv_mono1) auto
    then have "min 100 ((spent0 + outstanding) * 100 div limit) = 100" using pos by simp
    then show ?thesis using pos w True by (auto simp: UtilizedPercent_def)
  next
    case fits: False
    let ?x = "spent0 + outstanding"
    have x: "0 \<le> ?x" "?x < limit" "limit \<le> max_i64" using fits pos assms(3) by (auto simp: in_i64_def)
    then have "wrap64 ?x = ?x" by (intro wrap64_in_range) (simp add: in_i64_nonneg)
    moreover have "?x mod two64 = ?x" "limit mod two64 = limit"
      using x by (simp_all add: two64_def max_i64_def mod_pos_pos_trivial)
    moreover have "?x * 100 div two64 < limit"
      using x by (simp add: two64_def div_less_iff_less_mult)
    moreover have "?x * 100 div two64 * two64 + ?x * 100 mod two64 = ?x * 100"
      by (rule div_mult_mod_eq)
    moreover have "?x * 100 div limit \<le> 100"
      using zdiv_mono1 [of "?x * 100" "limit * 100" limit] x by simp
    ultimately show ?thesis
      using pos w fits by (auto simp: UtilizedPercent_def Mul64_def Div64_def Let_def)
  qed
qed

section \<open>Properties\<close>

text \<open>
  C21: The substitution the request path reads for a caller and a requested model is the one of
  an active tier that applies to the caller (each selector the tier names is the caller's) and
  that comes first among the applying tiers that name the model: every other one has a lower
  threshold, or the same threshold and a policy name that is greater, or the same threshold and
  policy name and a rule name that is not smaller. A model has no substitution exactly when no
  applying tier names it. The order in which the tiers were reported does not enter the statement.
\<close>

theorem deepest_tier_wins:
  assumes "\<forall>a\<in>set active. gwf (at_Substitute a)"
  shows "case gget (GetForSubject (tier_Set active t) team user) model of
      None \<Rightarrow> \<forall>a\<in>set active. applies team user a \<longrightarrow> gget (at_Substitute a) model = None
    | Some to \<Rightarrow> \<exists>a\<in>set active. applies team user a \<and> gget (at_Substitute a) model = Some to
        \<and> (\<forall>b\<in>set active. applies team user b \<and> gget (at_Substitute b) model \<noteq> None \<longrightarrow>
              at_ThresholdPercent b < at_ThresholdPercent a
              \<or> at_ThresholdPercent b = at_ThresholdPercent a
                 \<and> (at_Policy a < at_Policy b \<or> at_Policy a = at_Policy b \<and> at_Rule a \<le> at_Rule b))"
proof -
  obtain r where r: "gget (GetForSubject (tier_Set active t) team user) model = map_option target r"
    and best: "is_best {c. \<exists>a\<in>set active. applies team user a
       \<and> gget (at_Substitute a) model = Some (target c) \<and> priority c = tier_winner a} r"
    (is "is_best ?C r")
    using GetForSubject_best [OF assms] .
  have offer: "\<lparr>target = to, priority = tier_winner b\<rparr> \<in> ?C"
    if "b \<in> set active" "applies team user b" "gget (at_Substitute b) model = Some to" for b to
    using that by auto
  show ?thesis
  proof (cases r)
    case None
    with best have "?C = {}" by (simp add: is_best_def)
    then have "\<forall>a\<in>set active. applies team user a \<longrightarrow> gget (at_Substitute a) model = None"
      using offer by (metis empty_iff not_None_eq)
    with r None show ?thesis by simp
  next
    case (Some c)
    then have c: "c \<in> ?C" and no: "\<And>c'. c' \<in> ?C \<Longrightarrow> \<not> higherPressure (priority c') (priority c)"
      using best by (simp_all add: is_best_def)
    from c obtain a where a: "a \<in> set active" "applies team user a"
      "gget (at_Substitute a) model = Some (target c)" "priority c = tier_winner a" by blast
    have "at_ThresholdPercent b < at_ThresholdPercent a
        \<or> at_ThresholdPercent b = at_ThresholdPercent a
           \<and> (at_Policy a < at_Policy b \<or> at_Policy a = at_Policy b \<and> at_Rule a \<le> at_Rule b)"
      if b: "b \<in> set active" "applies team user b" "gget (at_Substitute b) model \<noteq> None" for b
    proof -
      from b(3) obtain to where "gget (at_Substitute b) model = Some to" by blast
      from no [OF offer [OF b(1,2) this]] show ?thesis by (auto simp: a(4) tier_outranked)
    qed
    with a r Some show ?thesis by (auto intro: bexI [of _ a])
  qed
qed

definition sample_tiers :: "ActiveTier list" where
  "sample_tiers =
     [\<lparr>at_Policy = ''p'', at_Rule = ''r1'', at_BudgetRef = ''b'', at_Team = ''ml'', at_ThresholdPercent = 80,
       at_Substitute = [(''opus'', ''sonnet'')], at_EnforceTargets = True, at_User = []\<rparr>,
      \<lparr>at_Policy = ''p'', at_Rule = ''r2'', at_BudgetRef = ''b'', at_Team = [], at_ThresholdPercent = 95,
       at_Substitute = [(''opus'', ''haiku'')], at_EnforceTargets = True, at_User = ''ann''\<rparr>]"

text \<open>Three tiers apply: the shallow one loses, and the rule name decides between the two deep ones.\<close>

definition sample_tied :: "ActiveTier list" where
  "sample_tied = map (\<lambda>a. a\<lparr>at_Rule := ''r3'', at_Substitute := [(''opus'', ''mini'')]\<rparr>) (drop 1 sample_tiers) @ sample_tiers"

theorem deepest_tier_wins_witness:
  "gget (GetForSubject (tier_Set sample_tied NewTable) ''ml'' ''ann'') ''opus'' = Some ''haiku''
   \<and> list_ex (\<lambda>a. applies ''ml'' ''ann'' a \<and> gget (at_Substitute a) ''opus'' = Some ''haiku''
       \<and> list_all (\<lambda>b. at_ThresholdPercent b < at_ThresholdPercent a \<or> at_ThresholdPercent b = at_ThresholdPercent a
            \<and> (at_Policy a < at_Policy b \<or> at_Policy a = at_Policy b \<and> at_Rule a \<le> at_Rule b)) sample_tied) sample_tied"
proof -
  have v: "gget (GetForSubject (tier_Set sample_tied NewTable) ''ml'' ''ann'') ''opus'' = Some ''haiku''"
    "list_all (\<lambda>b. applies ''ml'' ''ann'' b \<and> gget (at_Substitute b) ''opus'' \<noteq> None) sample_tied"
    by code_simp+
  have "\<forall>a\<in>set sample_tied. gwf (at_Substitute a)" by code_simp
  from deepest_tier_wins [OF this, where t = NewTable and team = "''ml''" and user = "''ann''" and model = "''opus''"] v
  show ?thesis unfolding list_ex_iff list_all_iff by (simp only: option.case) blast
qed

text \<open>
  C34: Strict restrictions only tighten. A model is unrestricted for a caller exactly when no
  applying enforcing tier names it; when all of those that do agree on a target, that is the
  restriction; when two disagree the target is the empty one, which denies the request. Tiers
  that do not enforce, or that do not apply to the caller, never enter.
\<close>

theorem strict_targets_never_loosen:
  assumes "\<forall>a\<in>set active. gwf (at_Substitute a)"
    and "T = {to. \<exists>a\<in>set active. applies team user a \<and> at_EnforceTargets a
                \<and> gget (at_Substitute a) model = Some to}"
  shows "(gget (ConstraintsForSubject (tier_Set active t) team user) model = None \<longleftrightarrow> T = {})
    \<and> (\<forall>to. T = {to} \<longrightarrow> gget (ConstraintsForSubject (tier_Set active t) team user) model = Some to)
    \<and> (\<forall>x\<in>T. \<forall>y\<in>T. x \<noteq> y \<longrightarrow>
         gget (ConstraintsForSubject (tier_Set active t) team user) model = Some [])"
proof -
  have "gget (ConstraintsForSubject (tier_Set active t) team user) model = agreed T"
    unfolding assms(2) by (rule ConstraintsForSubject_agreed [OF assms(1)])
  moreover have "agreed T = None \<longleftrightarrow> T = {}" by (auto simp: agreed_def)
  ultimately show ?thesis by (auto dest: agreed_conflict)
qed

theorem strict_targets_never_loosen_witness:
  "gget (ConstraintsForSubject (tier_Set sample_tiers NewTable) ''ml'' ''ann'') ''opus'' = Some []
   \<and> gget (ConstraintsForSubject (tier_Set sample_tiers NewTable) ''ml'' ''bob'') ''opus'' = Some ''sonnet''"
proof -
  have wf: "\<forall>a\<in>set sample_tiers. gwf (at_Substitute a)" by code_simp
  have "{to. \<exists>a\<in>set sample_tiers. applies ''ml'' ''ann'' a \<and> at_EnforceTargets a
      \<and> gget (at_Substitute a) ''opus'' = Some to} = {''sonnet'', ''haiku''}"
    by (auto simp: sample_tiers_def applies_def tier_subject_def no_subject_def gget_def)
  moreover have "{to. \<exists>a\<in>set sample_tiers. applies ''ml'' ''bob'' a \<and> at_EnforceTargets a
      \<and> gget (at_Substitute a) ''opus'' = Some to} = {''sonnet''}"
    by (auto simp: sample_tiers_def applies_def tier_subject_def no_subject_def gget_def)
  ultimately show ?thesis
    using strict_targets_never_loosen [OF wf refl,
        where t = NewTable and team = "''ml''" and user = "''ann''" and model = "''opus''"]
      strict_targets_never_loosen [OF wf refl,
        where t = NewTable and team = "''ml''" and user = "''bob''" and model = "''opus''"] by auto
qed

text \<open>
  C35: Within one budget window the latch refines the peak of the utilisation samples: after
  any number of samples the active tier is the deepest one whose threshold the highest sample
  so far has reached (none when it reached none), although the latch stores one index and no
  sample. A dip never steps a tier down, and the window's first sample starts from no tier.
\<close>

theorem latch_tracks_the_peak:
  assumes "sorted thresholds" "held key w l = - 1" "i < length samples"
  shows "fst (latch_run key w thresholds samples l) ! i
    = int (length (filter (\<lambda>th. th \<le> Max (set (take (Suc i) samples))) thresholds)) - 1"
proof -
  let ?c = "crossed_from 0 (- 1) thresholds"
  obtain p ps where samples: "take (Suc i) samples = p # ps" using assms(3) by (cases samples) auto
  have "fst (latch_run key w thresholds samples l) ! i
      = fold (\<lambda>p m. max m (?c p)) (p # ps) (- 1)"
    using latch_run_values [OF assms(3), of key w l thresholds] assms(2) samples by simp
  also have "\<dots> = fold (\<lambda>p m. max m (?c p)) ps (?c p)"
    using crossed_range(1) [of thresholds p] by (simp add: max_def)
  also have "\<dots> = ?c (fold max ps p)"
    by (rule fold_max_mono) (rule crossed_mono [OF assms(1)])
  also have "fold max ps p = Max (set (take (Suc i) samples))"
    by (simp only: samples Max.set_eq_fold)
  finally show ?thesis by (simp add: crossed_eq_count [OF assms(1)])
qed

theorem latch_tracks_the_peak_witness:
  "fst (latch_run ''p/r'' ''2026-08'' [50, 80, 95] [40, 85, 60, 96] NewLatch) = [- 1, 1, 1, 2]
   \<and> fst (latch_run ''p/r'' ''2026-08'' [50, 80, 95] [40, 85, 60, 96] NewLatch) ! 2
       = int (length (filter (\<lambda>th. th \<le> Max (set (take (Suc 2) [40, 85, 60, 96]))) [50, 80, 95::int])) - 1"
proof -
  have "held ''p/r'' ''2026-08'' NewLatch = - 1" by (simp add: held_def NewLatch_def)
  from latch_tracks_the_peak [OF _ this, of "[50, 80, 95]" 2 "[40, 85, 60, 96]"] show ?thesis
    by (intro conjI) (code_simp, simp)
qed

end
