(* ===== verification/Breaker.thy ===== *)
theory Breaker
  imports Prelude
begin

text \<open>
  The per-provider circuit breaker of \<open>src/internal/router/breaker.go\<close>. The clock
  \<open>b.now()\<close> is an argument of the operations that read it, and the mutex makes each of them
  atomic. The failure count is a natural number: it would take $2^{63}$ failures to wrap.
\<close>

section \<open>State and operations\<close>

record brkState =
  consecutiveFails :: nat
  openUntil :: gotime
  backoff :: duration

record breaker =
  brk_threshold :: int
  baseBackoff :: duration
  brk_state :: "(string, brkState) gomap"

definition newBreaker :: "int \<Rightarrow> duration \<Rightarrow> breaker" where
  "newBreaker th base = \<lparr>brk_threshold = th, baseBackoff = base, brk_state = []\<rparr>"

definition brk_Allow :: "gotime \<Rightarrow> string \<Rightarrow> breaker \<Rightarrow> bool" where
  "brk_Allow now provider b =
     (case gget (brk_state b) provider of
        None \<Rightarrow> True
      | Some s \<Rightarrow> if openUntil s = 0 then True else \<not> now < openUntil s)"

definition max_backoff :: duration where
  "max_backoff = 30 * second"

definition next_backoff :: "duration \<Rightarrow> duration \<Rightarrow> duration" where
  "next_backoff base cur =
     (if cur = 0 then base
      else let d = wrap64 (cur * 2) in if d > max_backoff then max_backoff else d)"

definition RecordFailure :: "gotime \<Rightarrow> string \<Rightarrow> breaker \<Rightarrow> breaker" where
  "RecordFailure now provider b =
     (let s0 = (case gget (brk_state b) provider of
                  None \<Rightarrow> \<lparr>consecutiveFails = 0, openUntil = 0, backoff = 0\<rparr> | Some s \<Rightarrow> s);
          s1 = s0\<lparr>consecutiveFails := Suc (consecutiveFails s0)\<rparr>;
          s2 = (if int (consecutiveFails s1) \<ge> brk_threshold b
                then let d = next_backoff (baseBackoff b) (backoff s1)
                     in s1\<lparr>backoff := d, openUntil := now + d\<rparr>
                else s1)
      in b\<lparr>brk_state := gput provider s2 (brk_state b)\<rparr>)"

definition RecordSuccess :: "string \<Rightarrow> breaker \<Rightarrow> breaker" where
  "RecordSuccess provider b =
     (case gget (brk_state b) provider of
        None \<Rightarrow> b
      | Some s \<Rightarrow> b\<lparr>brk_state := gput provider
          (s\<lparr>consecutiveFails := 0, openUntil := 0, backoff := 0\<rparr>) (brk_state b)\<rparr>)"

definition Retain :: "string list \<Rightarrow> breaker \<Rightarrow> breaker" where
  "Retain keep b = b\<lparr>brk_state := gfilter (\<lambda>k _. k \<in> set keep) (brk_state b)\<rparr>"

definition brk_State :: "gotime \<Rightarrow> string \<Rightarrow> breaker \<Rightarrow> int" where
  "brk_State now provider b =
     (case gget (brk_state b) provider of
        None \<Rightarrow> 0
      | Some s \<Rightarrow> if openUntil s = 0 then 0 else if now < openUntil s then 2 else 1)"

section \<open>Specification: the current run of failures\<close>

text \<open>
  A history of the breaker, newest event first. What a provider may do depends on its current
  run of failures only: how many there are since its last success (or since the provider was
  dropped on a reload), and when the last one was.
\<close>

datatype brk_event = Failed string gotime | Succeeded string | Retained "string list"

fun brk_apply :: "brk_event \<Rightarrow> breaker \<Rightarrow> breaker" where
  "brk_apply (Failed p t) b = RecordFailure t p b"
| "brk_apply (Succeeded p) b = RecordSuccess p b"
| "brk_apply (Retained keep) b = Retain keep b"

fun streak :: "string \<Rightarrow> brk_event list \<Rightarrow> nat \<times> gotime" where
  "streak p [] = (0, 0)"
| "streak p (Failed q t # es) = (if q = p then (Suc (fst (streak p es)), t) else streak p es)"
| "streak p (Succeeded q # es) = (if q = p then (0, 0) else streak p es)"
| "streak p (Retained keep # es) = (if p \<in> set keep then streak p es else (0, 0))"

fun event_time_ok :: "brk_event \<Rightarrow> bool" where
  "event_time_ok (Failed p t) = (0 < t)"
| "event_time_ok (Succeeded p) = True"
| "event_time_ok (Retained keep) = True"

text \<open>The wait after the \<open>k\<close>-th failure beyond the one that opened the circuit.\<close>

definition wait_after :: "duration \<Rightarrow> nat \<Rightarrow> duration" where
  "wait_after base k = (if k = 0 then base else min max_backoff (2 ^ k * base))"

definition opens_at :: "int \<Rightarrow> nat" where
  "opens_at th = max 1 (nat th)"

lemma next_backoff_step:
  assumes "0 \<le> base" "base \<le> max_i64 div 2" and that: "base \<noteq> 0"
  shows "next_backoff base (wait_after base k) = wait_after base (Suc k)"
proof -
  have pos: "0 < wait_after base k" using assms that by (auto simp: wait_after_def max_backoff_def second_def)
  have le: "wait_after base k * 2 \<le> max_i64"
    using assms by (auto simp: wait_after_def max_backoff_def second_def max_i64_def min_def)
  have "wrap64 (wait_after base k * 2) = wait_after base k * 2"
    using pos le by (intro wrap64_in_range) (simp add: in_i64_nonneg)
  then have "next_backoff base (wait_after base k) = min max_backoff (wait_after base k * 2)"
    using pos by (simp add: next_backoff_def Let_def min_def)
  also have "\<dots> = wait_after base (Suc k)"
    by (auto simp: wait_after_def max_backoff_def second_def min_def mult.commute [of base])
  finally show ?thesis .
qed

lemma next_backoff_zero [simp]: "next_backoff base 0 = base"
  by (simp add: next_backoff_def)

lemma next_backoff_wait:
  assumes "0 \<le> base" "base \<le> max_i64 div 2"
  shows "next_backoff base (wait_after base k) = wait_after base (Suc k)"
proof (cases "base = 0")
  case True
  then show ?thesis by (simp add: wait_after_def max_backoff_def second_def)
next
  case False
  then show ?thesis by (rule next_backoff_step [OF assms])
qed

lemma wait_after_nonneg: "0 \<le> base \<Longrightarrow> 0 \<le> wait_after base k"
  by (simp add: wait_after_def max_backoff_def second_def)

section \<open>The entries follow the specification\<close>

definition entry_for :: "nat \<Rightarrow> duration \<Rightarrow> nat \<times> gotime \<Rightarrow> brkState \<Rightarrow> bool" where
  "entry_for m base nt s \<longleftrightarrow> consecutiveFails s = fst nt
     \<and> (if fst nt < m then openUntil s = 0 \<and> backoff s = 0
        else backoff s = wait_after base (fst nt - m) \<and> openUntil s = snd nt + backoff s \<and> 0 < openUntil s)"

definition entry_matches :: "nat \<Rightarrow> duration \<Rightarrow> nat \<times> gotime \<Rightarrow> brkState option \<Rightarrow> bool" where
  "entry_matches m base nt r \<longleftrightarrow> (case r of None \<Rightarrow> fst nt = 0 | Some s \<Rightarrow> entry_for m base nt s)"

definition follows :: "int \<Rightarrow> duration \<Rightarrow> brk_event list \<Rightarrow> breaker \<Rightarrow> bool" where
  "follows th base es b \<longleftrightarrow> gwf (brk_state b) \<and> brk_threshold b = th \<and> baseBackoff b = base
     \<and> (\<forall>p. entry_matches (opens_at th) base (streak p es) (gget (brk_state b) p))"

lemma opens_at_pos: "0 < opens_at th"
  by (simp add: opens_at_def)

lemma reached_iff: "th \<le> int (Suc n) \<longleftrightarrow> opens_at th \<le> Suc n"
  by (auto simp: opens_at_def)

lemma entry_fresh: "entry_for (opens_at th) base (0, t) \<lparr>consecutiveFails = 0, openUntil = 0, backoff = 0\<rparr>"
  by (simp add: entry_for_def opens_at_pos)

lemma entry_failure:
  assumes "0 \<le> base" "base \<le> max_i64 div 2" "0 < t"
    and "entry_for (opens_at th) base (n, t0) s"
  shows "entry_for (opens_at th) base (Suc n, t)
    (if int (Suc n) \<ge> th
     then s\<lparr>consecutiveFails := Suc n, backoff := next_backoff base (backoff s),
            openUntil := t + next_backoff base (backoff s)\<rparr>
     else s\<lparr>consecutiveFails := Suc n\<rparr>)"
proof (cases "opens_at th \<le> Suc n")
  case False
  then show ?thesis using assms(4) reached_iff [of th n] by (auto simp: entry_for_def)
next
  case True
  have "next_backoff base (backoff s) = wait_after base (Suc n - opens_at th)"
  proof (cases "n < opens_at th")
    case below: True
    then show ?thesis using True assms(4) by (simp add: entry_for_def wait_after_def)
  next
    case False
    then have "backoff s = wait_after base (n - opens_at th)" using assms(4) by (simp add: entry_for_def)
    moreover have "Suc n - opens_at th = Suc (n - opens_at th)" using False by simp
    ultimately show ?thesis using next_backoff_wait [OF assms(1,2)] by simp
  qed
  then show ?thesis
    using True reached_iff [of th n] assms(3) wait_after_nonneg [OF assms(1), of "Suc n - opens_at th"]
    by (simp add: entry_for_def)
qed

lemma follows_failure:
  assumes "0 \<le> base" "base \<le> max_i64 div 2" "0 < t" "follows th base es b"
  shows "follows th base (Failed q t # es) (RecordFailure t q b)"
proof -
  define s where "s = (case gget (brk_state b) q of
     None \<Rightarrow> \<lparr>consecutiveFails = 0, openUntil = 0, backoff = 0\<rparr> | Some s \<Rightarrow> s)"
  obtain n t0 where st: "streak q es = (n, t0)" by fastforce
  have "entry_matches (opens_at th) base (n, t0) (gget (brk_state b) q)"
    using assms(4) st [symmetric] by (simp add: follows_def)
  then have s: "entry_for (opens_at th) base (n, t0) s"
    by (auto simp: entry_matches_def s_def entry_fresh split: option.splits)
  then have n: "consecutiveFails s = n" by (simp add: entry_for_def)
  have "gget (brk_state (RecordFailure t q b)) q = Some
    (if int (Suc n) \<ge> th
     then s\<lparr>consecutiveFails := Suc n, backoff := next_backoff base (backoff s),
            openUntil := t + next_backoff base (backoff s)\<rparr>
     else s\<lparr>consecutiveFails := Suc n\<rparr>)"
    using assms(4) n by (simp add: RecordFailure_def Let_def s_def [symmetric] follows_def)
  moreover have "gget (brk_state (RecordFailure t q b)) p = gget (brk_state b) p" if "p \<noteq> q" for p
    using that by (simp add: RecordFailure_def Let_def)
  moreover have "gwf (brk_state (RecordFailure t q b))" "brk_threshold (RecordFailure t q b) = th"
    "baseBackoff (RecordFailure t q b) = base"
    using assms(4) by (simp_all add: RecordFailure_def Let_def follows_def)
  ultimately show ?thesis
    using assms(4) entry_failure [OF assms(1-3) s] st by (auto simp: follows_def entry_matches_def)
qed

lemma follows_success: "follows th base es b \<Longrightarrow> follows th base (Succeeded q # es) (RecordSuccess q b)"
  by (auto simp: follows_def RecordSuccess_def entry_matches_def entry_for_def opens_at_pos gomap
      split: option.splits)

lemma follows_retain: "follows th base es b \<Longrightarrow> follows th base (Retained keep # es) (Retain keep b)"
  by (auto simp: follows_def Retain_def entry_matches_def gomap split: option.splits)
     (metis option.distinct(1))

lemma breaker_follows:
  assumes "0 \<le> base" "base \<le> max_i64 div 2" "\<forall>e\<in>set es. event_time_ok e"
  shows "follows th base es (foldr brk_apply es (newBreaker th base))"
  using assms(3)
proof (induction es)
  case Nil
  then show ?case by (simp add: follows_def newBreaker_def entry_matches_def)
next
  case (Cons e es)
  then have "follows th base es (foldr brk_apply es (newBreaker th base))" by simp
  then show ?case using Cons.prems
    by (cases e) (auto intro: follows_failure [OF assms(1,2)] follows_success follows_retain)
qed

lemma follows_openUntil:
  assumes "follows th base es b" "streak p es = (n, last_t)"
  shows "brk_Allow now p b \<longleftrightarrow> n < opens_at th \<or> last_t + wait_after base (n - opens_at th) \<le> now"
    and "brk_State now p b = (if n < opens_at th then 0 else if brk_Allow now p b then 1 else 2)"
proof -
  have "entry_matches (opens_at th) base (n, last_t) (gget (brk_state b) p)"
    using assms by (simp add: follows_def assms(2) [symmetric])
  then show "brk_Allow now p b \<longleftrightarrow> n < opens_at th \<or> last_t + wait_after base (n - opens_at th) \<le> now"
    and "brk_State now p b = (if n < opens_at th then 0 else if brk_Allow now p b then 1 else 2)"
    using opens_at_pos [of th]
    by (auto simp: entry_matches_def entry_for_def brk_Allow_def brk_State_def split: option.splits if_splits)
qed

section \<open>Properties\<close>

text \<open>
  C36: After any history of results and reloads, for any number of providers, a request to a
  provider is let through exactly when its current run of failures is shorter than the
  threshold or the wait since its last failure has elapsed. The wait is the base backoff after
  the failure that opened the circuit and then doubles with each further failure up to 30 s;
  the reported state is closed, half-open or open accordingly.
\<close>

theorem breaker_refines_failure_run:
  assumes "0 \<le> base" "base \<le> max_i64 div 2" "\<forall>e\<in>set history. event_time_ok e"
    and "b = foldr brk_apply history (newBreaker th base)"
    and "streak p history = (n, last_failure)"
  shows "(brk_Allow now p b \<longleftrightarrow>
            n < max 1 (nat th) \<or> last_failure + wait_after base (n - max 1 (nat th)) \<le> now)
    \<and> brk_State now p b = (if n < max 1 (nat th) then 0 else if brk_Allow now p b then 1 else 2)"
  using follows_openUntil [OF breaker_follows [OF assms(1-3), of th] assms(5), of now]
  unfolding assms(4) [symmetric] opens_at_def by blast

definition sample_failures :: "brk_event list" where
  "sample_failures =
     [Failed ''bedrock'' (40 * second), Failed ''bedrock'' (30 * second), Succeeded ''openai'',
      Failed ''bedrock'' (20 * second), Failed ''openai'' (15 * second), Failed ''bedrock'' (10 * second)]"

theorem breaker_refines_failure_run_witness:
  "\<not> brk_Allow (43 * second) ''bedrock'' (foldr brk_apply sample_failures (newBreaker 3 (2 * second)))
   \<and> brk_Allow (44 * second) ''bedrock'' (foldr brk_apply sample_failures (newBreaker 3 (2 * second)))"
proof -
  have h: "\<forall>e\<in>set sample_failures. event_time_ok e" by code_simp
  have s: "streak ''bedrock'' sample_failures = (4, 40 * second)"
    by (simp add: sample_failures_def)
  show ?thesis
    using breaker_refines_failure_run [OF _ _ h refl s, of "2 * second" "43 * second" 3]
      breaker_refines_failure_run [OF _ _ h refl s, of "2 * second" "44 * second" 3]
    by (simp add: second_def max_i64_def wait_after_def max_backoff_def)
qed

end
