(* ===== verification/Float64.thy ===== *)
theory Float64
  imports Complex_Main Prelude
begin

text \<open>
  Go's \<open>float64\<close> arithmetic as the token buckets use it: a finite value is the rational it
  denotes, and each operation rounds its exact result to the nearest value with a 53-bit
  significand, ties to even. The buckets stay far from the ends of the exponent range (their
  operands are sums and products of at most a few 64-bit integers, sixtieths and billionths),
  so infinities and subnormal numbers do not arise and the exponent is unbounded here.
\<close>

section \<open>Rounding\<close>

type_synonym float64 = rat

text \<open>\<open>2 ^ e\<close> for an integer exponent.\<close>

definition pow2 :: "int \<Rightarrow> rat" where
  "pow2 e = (if 0 \<le> e then 2 ^ nat e else 1 / 2 ^ nat (- e))"

text \<open>The number of bits of a positive integer, and the binary exponent of a positive rational.\<close>

function bit_count :: "int \<Rightarrow> nat" where
  "bit_count n = (if n \<le> 0 then 0 else Suc (bit_count (n div 2)))"
  by pat_completeness auto

termination
  by (relation "measure nat") auto

declare bit_count.simps [simp del]

definition exponent :: "rat \<Rightarrow> int" where
  "exponent x =
     (let (p, q) = quotient_of x;
          k = int (bit_count p) - int (bit_count q)
      in if pow2 k \<le> x then k else k - 1)"

definition round_even :: "rat \<Rightarrow> int" where
  "round_even x =
     (let f = \<lfloor>x\<rfloor>; d = x - of_int f
      in if d < 1 / 2 then f else if 1 / 2 < d then f + 1 else if even f then f else f + 1)"

definition fl_pos :: "rat \<Rightarrow> float64" where
  "fl_pos x = (let e = exponent x - 52 in of_int (round_even (x / pow2 e)) * pow2 e)"

definition fl :: "rat \<Rightarrow> float64" where
  "fl x = (if x = 0 then 0 else if 0 < x then fl_pos x else - fl_pos (- x))"

text \<open>The conversions and operations of the language.\<close>

definition float_of_int :: "i64 \<Rightarrow> float64" where
  "float_of_int n = fl (of_int n)"

definition fadd :: "float64 \<Rightarrow> float64 \<Rightarrow> float64" where
  "fadd x y = fl (x + y)"

definition fsub :: "float64 \<Rightarrow> float64 \<Rightarrow> float64" where
  "fsub x y = fl (x - y)"

definition fmul :: "float64 \<Rightarrow> float64 \<Rightarrow> float64" where
  "fmul x y = fl (x * y)"

definition fdiv :: "float64 \<Rightarrow> float64 \<Rightarrow> float64" where
  "fdiv x y = fl (x / y)"

text \<open>\<open>Duration.Seconds\<close>: whole seconds plus the remaining nanoseconds over \<open>1e9\<close>.\<close>

definition Seconds :: "duration \<Rightarrow> float64" where
  "Seconds d = fadd (float_of_int (sgn d * (\<bar>d\<bar> div second)))
                    (fdiv (float_of_int (sgn d * (\<bar>d\<bar> mod second))) (float_of_int second))"

section \<open>Powers and exponents\<close>

lemma pow2_pos [simp]: "0 < pow2 e"
  by (simp add: pow2_def)

lemma pow2_nonneg [simp]: "0 \<le> pow2 e" "pow2 e \<noteq> 0"
  using pow2_pos [of e] by linarith+

lemma pow2_add_nat: "pow2 (e + int n) = pow2 e * 2 ^ n"
proof (induction n)
  case 0
  then show ?case by simp
next
  case (Suc n)
  have "pow2 (e' + 1) = pow2 e' * 2" for e'
  proof (cases "0 \<le> e'")
    case True
    then have "nat (e' + 1) = Suc (nat e')" by simp
    with True show ?thesis by (simp add: pow2_def)
  next
    case False
    then have "nat (- e') = Suc (nat (- (e' + 1)))" by simp
    with False show ?thesis by (cases "e' = - 1") (simp_all add: pow2_def)
  qed
  from this [of "e + int n"] Suc show ?case by (simp add: ac_simps)
qed

lemma pow2_mono: "e \<le> e' \<Longrightarrow> pow2 e \<le> pow2 e'"
proof -
  assume "e \<le> e'"
  then have "e' = e + int (nat (e' - e))" by simp
  then have "pow2 e' = pow2 e * 2 ^ nat (e' - e)" by (metis pow2_add_nat)
  then show ?thesis by simp
qed

lemma pow2_less_iff: "pow2 e < pow2 e' \<longleftrightarrow> e < e'"
proof
  assume "pow2 e < pow2 e'"
  then show "e < e'" using pow2_mono [of e' e] by (meson not_le)
next
  assume "e < e'"
  then have "pow2 (e + int 1) \<le> pow2 e'" by (intro pow2_mono) simp
  then have "pow2 e * 2 \<le> pow2 e'" by (simp only: pow2_add_nat power_one_right)
  then show "pow2 e < pow2 e'" using pow2_pos [of e] by linarith
qed

lemma bit_count_bounds:
  "0 < p \<Longrightarrow> 2 ^ bit_count p \<le> 2 * p \<and> p < 2 ^ bit_count p"
proof (induction p rule: bit_count.induct)
  case (1 p)
  show ?case
  proof (cases "p div 2 = 0")
    case True
    then have "p = 1" using 1(2) by linarith
    then show ?thesis by (simp add: bit_count.simps)
  next
    case False
    then have "0 < p div 2" using 1(2) by linarith
    with 1 have "2 ^ bit_count (p div 2) \<le> 2 * (p div 2)" "p div 2 < 2 ^ bit_count (p div 2)" by auto
    moreover have "bit_count p = Suc (bit_count (p div 2))" using 1(2) by (simp add: bit_count.simps)
    moreover have "2 * (p div 2) \<le> p" "p \<le> 2 * (p div 2) + 1" by linarith+
    ultimately show ?thesis by (simp only: power_Suc) linarith
  qed
qed

lemma bit_count_rat_bounds:
  assumes "0 < p"
  shows "(2::rat) ^ bit_count p \<le> 2 * of_int p" "of_int p < (2::rat) ^ bit_count p"
proof -
  have "of_int (2 ^ bit_count p) \<le> (of_int (2 * p) :: rat)" "of_int p < (of_int (2 ^ bit_count p) :: rat)"
    using bit_count_bounds [OF assms] by (simp_all only: of_int_le_iff of_int_less_iff)
  then show "(2::rat) ^ bit_count p \<le> 2 * of_int p" "of_int p < (2::rat) ^ bit_count p"
    by simp_all
qed

lemma pow2_diff: "pow2 (int a - int b) = 2 ^ a / 2 ^ b"
proof -
  have "pow2 (int a - int b) * 2 ^ b = pow2 (int a)" by (simp only: pow2_add_nat [symmetric]) simp
  also have "\<dots> = 2 ^ a" by (simp add: pow2_def)
  finally show ?thesis by (simp add: field_simps)
qed

lemma exponent_bounds:
  assumes "0 < x"
  shows "pow2 (exponent x) \<le> x" "x < pow2 (exponent x + 1)"
proof -
  obtain p q where pq: "quotient_of x = (p, q)" by fastforce
  then have q: "0 < q" and x: "x = of_int p / of_int q"
    by (simp_all add: quotient_of_denom_pos quotient_of_div)
  then have p: "0 < p" using assms by (simp add: zero_less_divide_iff)
  define a where "a = bit_count p"
  define b where "b = bit_count q"
  have A: "(2::rat) ^ a \<le> 2 * of_int p" "of_int p < (2::rat) ^ a"
    and B: "(2::rat) ^ b \<le> 2 * of_int q" "of_int q < (2::rat) ^ b"
    using bit_count_rat_bounds [OF p] bit_count_rat_bounds [OF q] by (simp_all add: a_def b_def)
  have e: "exponent x = (if pow2 (int a - int b) \<le> x then int a - int b else int a - int b - 1)"
    by (simp add: exponent_def pq Let_def a_def b_def)
  have up: "x < pow2 (int a - int b) * 2"
  proof -
    have "of_int p * (2::rat) ^ b \<le> of_int p * (2 * of_int q)"
      using B p by (intro mult_left_mono) auto
    also have "\<dots> < 2 ^ a * (2 * of_int q)" using A q by (intro mult_strict_right_mono) auto
    finally show ?thesis using q by (simp add: x pow2_diff field_simps)
  qed
  have low: "pow2 (int a - int b) \<le> x * 2"
  proof -
    have "(2::rat) ^ a * of_int q \<le> 2 * of_int p * of_int q"
      using A q by (intro mult_right_mono) auto
    also have "\<dots> \<le> 2 * of_int p * 2 ^ b" using B p by (intro mult_left_mono) auto
    finally show ?thesis using q by (simp add: x pow2_diff field_simps)
  qed
  have half: "pow2 (int a - int b) = pow2 (int a - int b - 1) * 2"
    using pow2_add_nat [of "int a - int b - 1" 1] by simp
  have double: "pow2 (int a - int b + 1) = pow2 (int a - int b) * 2"
    using pow2_add_nat [of "int a - int b" 1] by simp
  show "pow2 (exponent x) \<le> x" "x < pow2 (exponent x + 1)"
    using up low half double by (auto simp: e)
qed

lemma exponent_mono: "0 < x \<Longrightarrow> x \<le> y \<Longrightarrow> exponent x \<le> exponent y"
proof -
  assume "0 < x" "x \<le> y"
  then have "pow2 (exponent x) < pow2 (exponent y + 1)"
    using exponent_bounds [of x] exponent_bounds [of y] by linarith
  then show ?thesis by (simp add: pow2_less_iff)
qed

section \<open>Rounding is monotone and exact on integers of 53 bits\<close>

lemma round_even_of_int [simp]: "round_even (of_int n) = n"
  by (simp add: round_even_def)

lemma round_even_mono:
  assumes "x \<le> y"
  shows "round_even x \<le> round_even y"
proof (cases "\<lfloor>x\<rfloor> = \<lfloor>y\<rfloor>")
  case True
  then show ?thesis using assms by (auto simp: round_even_def Let_def)
next
  case False
  then have "\<lfloor>x\<rfloor> + 1 \<le> \<lfloor>y\<rfloor>" using floor_mono [OF assms] by linarith
  moreover have "round_even x \<le> \<lfloor>x\<rfloor> + 1" "\<lfloor>y\<rfloor> \<le> round_even y"
    by (auto simp: round_even_def Let_def)
  ultimately show ?thesis by linarith
qed

text \<open>A positive number lies between the consecutive 53-bit powers of its binade, and so does its rounding.\<close>

lemma fl_pos_bounds:
  assumes "0 < x"
  shows "pow2 (exponent x) \<le> fl_pos x" "fl_pos x \<le> pow2 (exponent x + 1)"
proof -
  define e where "e = exponent x - 52"
  have lo: "pow2 (exponent x) = 2 ^ 52 * pow2 e" and hi: "pow2 (exponent x + 1) = 2 ^ 53 * pow2 e"
    using pow2_add_nat [of e 52] pow2_add_nat [of e 53] by (simp_all add: e_def add.commute mult.commute)
  have "of_int (2 ^ 52) \<le> x / pow2 e" "x / pow2 e \<le> of_int (2 ^ 53)"
    using exponent_bounds [OF assms] lo hi by (simp_all add: pos_le_divide_eq pos_divide_le_eq)
  then have "2 ^ 52 \<le> round_even (x / pow2 e)" "round_even (x / pow2 e) \<le> 2 ^ 53"
    using round_even_mono [of "of_int (2 ^ 52)" "x / pow2 e"] round_even_mono [of "x / pow2 e" "of_int (2 ^ 53)"]
    by (simp_all only: round_even_of_int)
  then have "of_int (2 ^ 52) \<le> (of_int (round_even (x / pow2 e)) :: rat)"
    "of_int (round_even (x / pow2 e)) \<le> (of_int (2 ^ 53) :: rat)"
    by (simp_all only: of_int_le_iff)
  then show "pow2 (exponent x) \<le> fl_pos x" "fl_pos x \<le> pow2 (exponent x + 1)"
    unfolding lo hi fl_pos_def Let_def e_def [symmetric]
    by (auto intro!: mult_right_mono)
qed

lemma fl_pos_pos: "0 < x \<Longrightarrow> 0 < fl_pos x"
  using fl_pos_bounds(1) [of x] pow2_pos [of "exponent x"] by linarith

lemma fl_pos_mono:
  assumes "0 < x" "x \<le> y"
  shows "fl_pos x \<le> fl_pos y"
proof (cases "exponent x = exponent y")
  case True
  have "x / pow2 (exponent y - 52) \<le> y / pow2 (exponent y - 52)"
    using assms by (simp add: divide_right_mono)
  from round_even_mono [OF this] show ?thesis
    by (simp add: fl_pos_def Let_def True mult_right_mono)
next
  case False
  then have "exponent x + 1 \<le> exponent y" using exponent_mono [OF assms] by linarith
  then have "pow2 (exponent x + 1) \<le> pow2 (exponent y)" by (rule pow2_mono)
  then show ?thesis
    using fl_pos_bounds(2) [OF assms(1)] fl_pos_bounds(1) [of y] assms by linarith
qed

lemma fl_mono: "x \<le> y \<Longrightarrow> fl x \<le> fl y"
proof -
  assume le: "x \<le> y"
  consider "0 < x" | "x \<le> 0" "0 \<le> y" | "y < 0" by linarith
  then show ?thesis
  proof cases
    case 1
    then show ?thesis using le fl_pos_mono [of x y] by (simp add: fl_def)
  next
    case 2
    then show ?thesis using fl_pos_pos [of "- x"] fl_pos_pos [of y] by (auto simp: fl_def)
  next
    case 3
    then show ?thesis using le fl_pos_mono [of "- y" "- x"] by (auto simp: fl_def)
  qed
qed

lemma fl_zero [simp]: "fl 0 = 0"
  by (simp add: fl_def)

lemma fl_minus: "fl (- x) = - fl x"
  by (simp add: fl_def)

lemma fl_nonneg: "0 \<le> x \<Longrightarrow> 0 \<le> fl x"
  using fl_mono [of 0 x] by simp

lemma fl_pos_int:
  assumes "0 < n" "n \<le> 2 ^ 53"
  shows "fl_pos (of_int n) = of_int n"
proof -
  let ?e = "exponent (of_int n)"
  have "pow2 ?e \<le> of_int n" using exponent_bounds(1) [of "of_int n"] assms(1) by simp
  also have "\<dots> \<le> of_int (2 ^ 53)" using assms(2) by (simp only: of_int_le_iff)
  also have "\<dots> < pow2 54" by (simp add: pow2_def)
  finally have e: "?e < 54" by (simp add: pow2_less_iff)
  show ?thesis
  proof (cases "?e \<le> 52")
    case True
    have "pow2 (?e - 52) * 2 ^ nat (52 - ?e) = pow2 0"
      using pow2_add_nat [of "?e - 52" "nat (52 - ?e)"] True by simp
    then have "of_int n / pow2 (?e - 52) = of_int (n * 2 ^ nat (52 - ?e))"
      by (simp add: pow2_def field_simps)
    then have "round_even (of_int n / pow2 (?e - 52)) = n * 2 ^ nat (52 - ?e)"
      by (simp only: round_even_of_int)
    with \<open>of_int n / pow2 (?e - 52) = _\<close> have "of_int (round_even (of_int n / pow2 (?e - 52))) = of_int n / pow2 (?e - 52)"
      by simp
    then show ?thesis by (simp add: fl_pos_def Let_def)
  next
    case False
    then have e53: "?e = 53" using e by simp
    then have "of_int (2 ^ 53) \<le> (of_int n :: rat)"
      using exponent_bounds(1) [of "of_int n"] assms(1) by (simp add: pow2_def)
    then have "n = 2 ^ 53" using assms(2) by (simp only: of_int_le_iff)
    then have half: "of_int n / pow2 1 = of_int (2 ^ 52)" by (simp add: pow2_def)
    then have "round_even (of_int n / pow2 1) = 2 ^ 52" by (simp only: round_even_of_int)
    moreover have "fl_pos (of_int n) = of_int (round_even (of_int n / pow2 1)) * pow2 1"
      by (simp add: fl_pos_def Let_def e53)
    ultimately show ?thesis using \<open>n = 2 ^ 53\<close> by (simp add: pow2_def)
  qed
qed

lemma fl_int:
  assumes "\<bar>n\<bar> \<le> 2 ^ 53"
  shows "fl (of_int n) = of_int n"
proof -
  consider "n = 0" | "0 < n" | "n < 0" by linarith
  then show ?thesis
  proof cases
    case 3
    then have "fl_pos (of_int (- n)) = of_int (- n)" using assms by (intro fl_pos_int) auto
    then show ?thesis using 3 by (simp add: fl_def)
  qed (use assms in \<open>simp_all add: fl_def fl_pos_int\<close>)
qed

text \<open>For evaluation: integers of up to 53 bits are returned as they are.\<close>

lemma fl_code [code]:
  "fl x = (if snd (quotient_of x) = 1 \<and> \<bar>fst (quotient_of x)\<bar> \<le> 9007199254740992 then x
           else if x = 0 then 0 else if 0 < x then fl_pos x else - fl_pos (- x))"
proof (cases "snd (quotient_of x) = 1 \<and> \<bar>fst (quotient_of x)\<bar> \<le> 9007199254740992")
  case True
  then obtain p where "quotient_of x = (p, 1)" by (metis prod.collapse)
  then have "x = of_int p" "\<bar>p\<bar> \<le> 2 ^ 53" using True quotient_of_div [of x p 1] by simp_all
  then show ?thesis using True fl_int [of p] by simp
next
  case False
  then show ?thesis by (simp only: fl_def if_False)
qed

text \<open>Scaling by a power of two commutes with rounding, so rounding twice is rounding once.\<close>

lemma pow2_add: "pow2 (a + b) = pow2 a * pow2 b"
proof (cases "0 \<le> b")
  case True
  then show ?thesis using pow2_add_nat [of a "nat b"] by (simp add: pow2_def)
next
  case False
  then have "pow2 a = pow2 (a + b) * 2 ^ nat (- b)" using pow2_add_nat [of "a + b" "nat (- b)"] by simp
  with False show ?thesis by (simp add: pow2_def [of b])
qed

lemma exponent_unique:
  assumes "0 < x" "pow2 e \<le> x" "x < pow2 (e + 1)"
  shows "exponent x = e"
proof -
  have "pow2 e < pow2 (exponent x + 1)" "pow2 (exponent x) < pow2 (e + 1)"
    using exponent_bounds [OF assms(1)] assms(2,3) by linarith+
  then show ?thesis by (simp add: pow2_less_iff)
qed

lemma fl_pos_scale:
  assumes "0 < x"
  shows "fl_pos (x * pow2 k) = fl_pos x * pow2 k"
proof -
  have "exponent (x * pow2 k) = exponent x + k"
    using exponent_bounds [OF assms] assms
    by (intro exponent_unique) (auto simp: pow2_add algebra_simps)
  moreover have "x * pow2 k / pow2 (exponent x + k - 52) = x / pow2 (exponent x - 52)"
    using pow2_add [of "exponent x - 52" k] by (simp add: algebra_simps)
  moreover have "pow2 (exponent x + k - 52) = pow2 (exponent x - 52) * pow2 k"
    using pow2_add [of "exponent x - 52" k] by (simp add: algebra_simps)
  ultimately show ?thesis by (simp add: fl_pos_def Let_def)
qed

lemma fl_pos_idem:
  assumes "0 < x"
  shows "fl_pos (fl_pos x) = fl_pos x"
proof -
  define e where "e = exponent x - 52"
  define n where "n = round_even (x / pow2 e)"
  have x: "fl_pos x = of_int n * pow2 e" by (simp add: fl_pos_def Let_def e_def n_def)
  have hi: "pow2 (exponent x + 1) = of_int (2 ^ 53) * pow2 e"
    using pow2_add_nat [of e 53] by (simp add: e_def add.commute mult.commute)
  have "0 < of_int n * pow2 e" "of_int n * pow2 e \<le> of_int (2 ^ 53) * pow2 e"
    using fl_pos_pos [OF assms] fl_pos_bounds(2) [OF assms] x hi by simp_all
  then have n: "0 < n" "of_int n \<le> (of_int (2 ^ 53) :: rat)"
    by (simp_all only: zero_less_mult_iff mult_le_cancel_right_pos [OF pow2_pos]) (use pow2_pos [of e] in auto)
  then have "n \<le> 2 ^ 53" by (simp only: of_int_le_iff)
  then have "fl_pos (of_int n) = of_int n" using n(1) by (intro fl_pos_int)
  then show ?thesis using n(1) by (simp add: x fl_pos_scale)
qed

lemma fl_idem [simp]: "fl (fl x) = fl x"
  using fl_pos_pos [of x] fl_pos_pos [of "- x"] fl_pos_idem [of x] fl_pos_idem [of "- x"]
  by (auto simp: fl_def)

section \<open>Elapsed seconds\<close>

lemma Seconds_nonneg: "0 \<le> d \<Longrightarrow> 0 \<le> Seconds d"
  unfolding Seconds_def fadd_def fdiv_def float_of_int_def
  by (intro fl_nonneg add_nonneg_nonneg divide_nonneg_nonneg)
     (auto simp: sgn_if second_def pos_imp_zdiv_nonneg_iff)

lemma Seconds_split:
  assumes "0 \<le> d"
  shows "Seconds d = fl (fl (of_int (d div second)) + fl (of_int (d mod second) / of_int second))"
proof -
  have "fl (of_int (d mod second)) = of_int (d mod second)" "fl (of_int second) = of_int second"
    using pos_mod_bound [of second d] pos_mod_sign [of second d]
    by (auto intro!: fl_int) (simp_all add: second_def)
  with assms show ?thesis
    by (cases "d = 0") (auto simp: Seconds_def fadd_def fdiv_def float_of_int_def sgn_if)
qed

lemma Seconds_mono:
  assumes "0 \<le> d" "d \<le> d'" "d' \<le> max_i64"
  shows "Seconds d \<le> Seconds d'"
proof (cases "d div second = d' div second")
  case True
  have "d mod second \<le> d' mod second"
    using assms(2) mult_div_mod_eq [of second d] mult_div_mod_eq [of second d'] unfolding True by linarith
  then have "of_int (d mod second) / of_int second \<le> (of_int (d' mod second) / of_int second :: rat)"
    by (simp add: second_def divide_right_mono)
  with True show ?thesis using assms
    by (simp add: Seconds_split fl_mono)
next
  case False
  have "0 \<le> d div second" "d div second + 1 \<le> d' div second" "d' div second \<le> 2 ^ 53"
    using assms False zdiv_mono1 [OF assms(2), of second] zdiv_mono1 [OF assms(3), of second]
    by (auto simp: second_def max_i64_def pos_imp_zdiv_nonneg_iff)
  then have s: "fl (of_int (d div second)) = of_int (d div second)"
    "fl (of_int (d' div second)) = of_int (d' div second)"
    and le: "of_int (d div second) + 1 \<le> (of_int (d' div second) :: rat)"
    by (auto intro!: fl_int)
  have "of_int (d mod second) / of_int second \<le> (1 :: rat)"
    using pos_mod_bound [of second d] by (simp add: second_def)
  then have one: "fl (of_int (d mod second) / of_int second) \<le> 1"
    using fl_mono [of "of_int (d mod second) / of_int second" 1] fl_int [of 1] by simp
  have "0 \<le> of_int (d' mod second) / (of_int second :: rat)"
    using pos_mod_sign [of second d'] by (simp add: second_def)
  then have "0 \<le> fl (of_int (d' mod second) / of_int second)" by (rule fl_nonneg)
  with one le s show ?thesis
    using assms by (simp add: Seconds_split fl_mono)
qed

end
