(* ===== verification/Limiter.thy ===== *)
theory Limiter
  imports Float64 Spend_Counter
begin

text \<open>
  The in-memory limiter of \<open>src/internal/limiter/limiter.go\<close>: token buckets for the request
  and token rates, quota windows, the sweep that reclaims entries carrying no state, and the
  capacity fail-safe. \<open>ReserveRate\<close> hands out a pointer to its bucket inside a closure, so
  buckets live in a heap and the map holds addresses; a quota window is only reached through
  its map. The clock \<open>m.now()\<close> is the argument \<open>t\<close> of each operation and the mutex makes each
  of them atomic. Every floating-point operation rounds on its own (no fused multiply-add).
\<close>

section \<open>Data\<close>

datatype lim_Decision = LimAllow | LimBlock

record bucket =
  tokens :: float64
  b_last :: gotime
  b_pending :: i64
  b_ratePerMin :: i64
  b_burst :: i64

record quotaWin =
  q_used :: i64
  q_windowEnd :: gotime

record lim_Memory =
  heap :: "bucket list"
  buckets :: "(string, nat) gomap"
  quotas :: "(string, quotaWin) gomap"
  lim_maxEntries :: int
  lim_sweepTick :: nat
  lim_rejected :: nat

text \<open>
  The closure \<open>ReserveRate\<close> returns: its bucket (none when the rate is unlimited), the cost it
  charged, and whether its \<open>sync.Once\<close> has fired.
\<close>

record finisher =
  fin_bucket :: "nat option"
  fin_cost :: i64
  fin_done :: bool

definition lim_sweepEvery :: nat where
  "lim_sweepEvery = 256"

definition lim_defaultMaxEntries :: int where
  "lim_defaultMaxEntries = 100000"

definition lim_NewMemory :: lim_Memory where
  "lim_NewMemory = \<lparr>heap = [], buckets = [], quotas = [], lim_maxEntries = lim_defaultMaxEntries,
     lim_sweepTick = 0, lim_rejected = 0\<rparr>"

section \<open>Operations\<close>

definition lim_Rejections :: "lim_Memory \<Rightarrow> nat" where
  "lim_Rejections m = lim_rejected m"

text \<open>The token level of a bucket at \<open>t\<close>, not yet capped at its burst.\<close>

definition refilled :: "gotime \<Rightarrow> i64 \<Rightarrow> bucket \<Rightarrow> float64" where
  "refilled t rate b =
     fadd (tokens b) (fmul (Seconds (time_sub t (b_last b))) (fdiv (float_of_int rate) (float_of_int 60)))"

definition reclaimable :: "gotime \<Rightarrow> bucket \<Rightarrow> bool" where
  "reclaimable t b \<longleftrightarrow> \<not> (b_ratePerMin b \<le> 0 \<or> b_pending b > 0)
     \<and> refilled t (b_ratePerMin b) b \<ge> float_of_int (b_burst b)"

definition sweepReclaimable :: "gotime \<Rightarrow> lim_Memory \<Rightarrow> lim_Memory" where
  "sweepReclaimable t m =
     m\<lparr>buckets := gfilter (\<lambda>_ a. \<not> reclaimable t (heap m ! a)) (buckets m),
       quotas := gfilter (\<lambda>_ q. t < q_windowEnd q) (quotas m)\<rparr>"

definition lim_tick :: "gotime \<Rightarrow> lim_Memory \<Rightarrow> lim_Memory" where
  "lim_tick t m =
     (let m1 = m\<lparr>lim_sweepTick := Suc (lim_sweepTick m)\<rparr> in
      if lim_sweepTick m1 \<ge> lim_sweepEvery then sweepReclaimable t (m1\<lparr>lim_sweepTick := 0\<rparr>) else m1)"

definition lim_admit :: "gotime \<Rightarrow> lim_Memory \<Rightarrow> bool \<times> lim_Memory" where
  "lim_admit t m =
     (if int (length (buckets m) + length (quotas m)) < lim_maxEntries m then (True, m)
      else let m1 = sweepReclaimable t m in
        if int (length (buckets m1) + length (quotas m1)) < lim_maxEntries m1 then (True, m1)
        else (False, m1\<lparr>lim_rejected := Suc (lim_rejected m1)\<rparr>))"

definition new_bucket :: "gotime \<Rightarrow> string \<Rightarrow> i64 \<Rightarrow> lim_Memory \<Rightarrow> nat \<times> lim_Memory" where
  "new_bucket t key burst m =
     (length (heap m),
      m\<lparr>heap := heap m @ [\<lparr>tokens = float_of_int burst, b_last = t, b_pending = 0,
                            b_ratePerMin = 0, b_burst = 0\<rparr>],
        buckets := gput key (length (heap m)) (buckets m)\<rparr>)"

definition charge_bucket :: "gotime \<Rightarrow> i64 \<Rightarrow> i64 \<Rightarrow> i64 \<Rightarrow> bucket \<Rightarrow> bucket \<times> bool" where
  "charge_bucket t cost rate burst b =
     (let level = refilled t rate b;
          capped = (if level > float_of_int burst then float_of_int burst else level);
          b1 = b\<lparr>b_ratePerMin := rate, b_burst := burst, tokens := capped, b_last := t\<rparr>
      in if capped \<ge> float_of_int cost then (b1\<lparr>tokens := fsub capped (float_of_int cost)\<rparr>, True)
         else (b1, False))"

definition find_bucket :: "gotime \<Rightarrow> string \<Rightarrow> i64 \<Rightarrow> lim_Memory \<Rightarrow> nat option \<times> lim_Memory" where
  "find_bucket t key burst m =
     (case gget (buckets m) key of
        Some a \<Rightarrow> (Some a, m)
      | None \<Rightarrow> (case lim_admit t m of
            (ok, m1) \<Rightarrow> if \<not> ok then (None, m1)
                       else (case new_bucket t key burst m1 of (a, m2) \<Rightarrow> (Some a, m2))))"

fun charge_found ::
  "gotime \<Rightarrow> i64 \<Rightarrow> i64 \<Rightarrow> i64 \<Rightarrow> nat option \<times> lim_Memory \<Rightarrow> (nat option \<times> bool) \<times> lim_Memory" where
  "charge_found t cost rate burst (None, m) = ((None, False), m)"
| "charge_found t cost rate burst (Some a, m) =
     (case charge_bucket t cost rate burst (heap m ! a) of
        (b, allowed) \<Rightarrow> ((Some a, allowed), m\<lparr>heap := (heap m)[a := b]\<rparr>))"

definition allowRate :: "gotime \<Rightarrow> string \<Rightarrow> i64 \<Rightarrow> i64 \<Rightarrow> i64 \<Rightarrow> lim_Memory \<Rightarrow> (nat option \<times> bool) \<times> lim_Memory" where
  "allowRate t key cost rate burst m =
     charge_found t cost rate burst (find_bucket t key burst (lim_tick t m))"

definition AllowRate :: "gotime \<Rightarrow> string \<Rightarrow> i64 \<Rightarrow> i64 \<Rightarrow> i64 \<Rightarrow> lim_Memory \<Rightarrow> bool \<times> lim_Memory" where
  "AllowRate t key cost rate burst m =
     (if cost < 0 then (False, m)
      else if rate \<le> 0 then (True, m)
      else (case allowRate t key cost rate burst m of ((_, allowed), m1) \<Rightarrow> (allowed, m1)))"

definition ReserveRate ::
  "gotime \<Rightarrow> string \<Rightarrow> i64 \<Rightarrow> i64 \<Rightarrow> i64 \<Rightarrow> lim_Memory \<Rightarrow> finisher option \<times> lim_Memory" where
  "ReserveRate t key cost rate burst m =
     (if cost < 0 then (None, m)
      else if rate \<le> 0 then (Some \<lparr>fin_bucket = None, fin_cost = cost, fin_done = False\<rparr>, m)
      else (case allowRate t key cost rate burst m of
              ((Some a, True), m1) \<Rightarrow>
                (Some \<lparr>fin_bucket = Some a, fin_cost = cost, fin_done = False\<rparr>,
                 m1\<lparr>heap := (heap m1)[a := (heap m1 ! a)\<lparr>b_pending := b_pending (heap m1 ! a) + 1\<rparr>]\<rparr>)
            | (_, m1) \<Rightarrow> (None, m1)))"

definition true_up :: "i64 \<Rightarrow> i64 option \<Rightarrow> bucket \<Rightarrow> bucket" where
  "true_up cost actual b0 =
     (let b = b0\<lparr>b_pending := b_pending b0 - 1\<rparr> in
      case actual of
        None \<Rightarrow> b
      | Some n \<Rightarrow>
          if n < 0 then b
          else let level = fadd (tokens b) (float_of_int (wrap64 (cost - n)))
               in b\<lparr>tokens := (if level > float_of_int (b_burst b) then float_of_int (b_burst b) else level)\<rparr>)"

definition finish_rate :: "i64 option \<Rightarrow> finisher \<Rightarrow> lim_Memory \<Rightarrow> finisher \<times> lim_Memory" where
  "finish_rate actual f m =
     (case fin_bucket f of
        None \<Rightarrow> (f, m)
      | Some a \<Rightarrow>
          if fin_done f then (f, m)
          else (f\<lparr>fin_done := True\<rparr>, m\<lparr>heap := (heap m)[a := true_up (fin_cost f) actual (heap m ! a)]\<rparr>))"

definition curWindow :: "gotime \<Rightarrow> string \<Rightarrow> duration \<Rightarrow> lim_Memory \<Rightarrow> quotaWin option \<times> lim_Memory" where
  "curWindow t key window m0 =
     (let q = gget (quotas m0) key;
          m = lim_tick t m0;
          fresh = \<lparr>q_used = 0, q_windowEnd = t + window\<rparr>
      in case q of
           Some w \<Rightarrow> if t < q_windowEnd w then (Some w, m)
                     else (Some fresh, m\<lparr>quotas := gput key fresh (quotas m)\<rparr>)
         | None \<Rightarrow> (case lim_admit t m of
               (False, m1) \<Rightarrow> (None, m1)
             | (True, m1) \<Rightarrow> (Some fresh, m1\<lparr>quotas := gput key fresh (quotas m1)\<rparr>)))"

definition CheckQuota :: "gotime \<Rightarrow> string \<Rightarrow> i64 \<Rightarrow> i64 \<Rightarrow> duration \<Rightarrow> lim_Memory \<Rightarrow> lim_Decision \<times> lim_Memory" where
  "CheckQuota t key estimate limit window m =
     (if estimate < 0 then (LimBlock, m)
      else if limit \<le> 0 then (LimAllow, m)
      else (case curWindow t key window m of
              (None, m1) \<Rightarrow> (LimBlock, m1)
            | (Some q, m1) \<Rightarrow>
                (if q_used q > limit \<or> estimate > wrap64 (limit - q_used q) then LimBlock else LimAllow, m1)))"

definition DebitQuota :: "gotime \<Rightarrow> string \<Rightarrow> i64 \<Rightarrow> duration \<Rightarrow> lim_Memory \<Rightarrow> lim_Memory" where
  "DebitQuota t key actual window m =
     (if actual < 0 then m
      else (case curWindow t key window m of
              (None, m1) \<Rightarrow> m1
            | (Some q, m1) \<Rightarrow>
                m1\<lparr>quotas := gput key (q\<lparr>q_used := (if actual > wrap64 (max_i64 - q_used q)
                      then max_i64 else q_used q + actual)\<rparr>) (quotas m1)\<rparr>))"

definition QuotaUsed :: "gotime \<Rightarrow> string \<Rightarrow> duration \<Rightarrow> lim_Memory \<Rightarrow> i64" where
  "QuotaUsed t key window m =
     (case gget (quotas m) key of
        None \<Rightarrow> 0
      | Some q \<Rightarrow> if \<not> t < q_windowEnd q then 0 else q_used q)"

definition RateUsed :: "gotime \<Rightarrow> string \<Rightarrow> i64 \<Rightarrow> i64 \<Rightarrow> lim_Memory \<Rightarrow> i64" where
  "RateUsed t key rate burst m =
     (if rate \<le> 0 then 0
      else (case gget (buckets m) key of
              None \<Rightarrow> 0
            | Some a \<Rightarrow>
                let level = refilled t rate (heap m ! a);
                    capped = (if level > float_of_int burst then float_of_int burst else level);
                    used0 = fsub (float_of_int burst) capped;
                    used = (if used0 < 0 then 0 else used0)
                in if used \<ge> float_of_int max_i64 then max_i64 else \<lfloor>fadd used (1 / 2)\<rfloor>))"

definition AdjustRate :: "string \<Rightarrow> i64 \<Rightarrow> i64 \<Rightarrow> lim_Memory \<Rightarrow> lim_Memory" where
  "AdjustRate key delta burst m =
     (case gget (buckets m) key of
        None \<Rightarrow> m
      | Some a \<Rightarrow>
          let b = heap m ! a;
              level = fadd (tokens b) (float_of_int delta)
          in m\<lparr>heap := (heap m)[a := b\<lparr>tokens :=
                 (if level > float_of_int burst then float_of_int burst else level)\<rparr>]\<rparr>)"

section \<open>Invariant\<close>

definition lim_count :: "lim_Memory \<Rightarrow> int" where
  "lim_count m = int (length (buckets m) + length (quotas m))"

definition lim_ok :: "lim_Memory \<Rightarrow> bool" where
  "lim_ok m \<longleftrightarrow> gwf (buckets m) \<and> gwf (quotas m)
     \<and> (\<forall>k a. gget (buckets m) k = Some a \<longrightarrow> a < length (heap m))
     \<and> (\<forall>k q. gget (quotas m) k = Some q \<longrightarrow> 0 \<le> q_used q \<and> q_used q \<le> max_i64)"

lemma lim_ok_D:
  assumes "lim_ok m"
  shows "gwf (buckets m)" "gwf (quotas m)"
    "gget (buckets m) k = Some a \<Longrightarrow> a < length (heap m)"
    "gget (quotas m) k = Some q \<Longrightarrow> 0 \<le> q_used q \<and> q_used q \<le> max_i64"
  using assms by (auto simp: lim_ok_def)

text \<open>Operations that only ever drop what the sweep may drop.\<close>

definition swept :: "gotime \<Rightarrow> lim_Memory \<Rightarrow> lim_Memory \<Rightarrow> bool" where
  "swept t m m' \<longleftrightarrow> heap m' = heap m \<and> lim_maxEntries m' = lim_maxEntries m
     \<and> (buckets m' = buckets m \<and> quotas m' = quotas m
        \<or> buckets m' = buckets (sweepReclaimable t m) \<and> quotas m' = quotas (sweepReclaimable t m))"

lemma sweep_fields [simp]:
  "heap (sweepReclaimable t m) = heap m" "lim_maxEntries (sweepReclaimable t m) = lim_maxEntries m"
  "lim_sweepTick (sweepReclaimable t m) = lim_sweepTick m"
  by (simp_all add: sweepReclaimable_def)

lemma sweep_idem:
  "buckets (sweepReclaimable t (sweepReclaimable t m)) = buckets (sweepReclaimable t m)"
  "quotas (sweepReclaimable t (sweepReclaimable t m)) = quotas (sweepReclaimable t m)"
  by (simp_all add: sweepReclaimable_def gfilter_def case_prod_unfold)

lemma sweep_cong:
  "heap m' = heap m \<Longrightarrow> buckets m' = buckets m \<Longrightarrow> quotas m' = quotas m \<Longrightarrow>
   buckets (sweepReclaimable t m') = buckets (sweepReclaimable t m)
   \<and> quotas (sweepReclaimable t m') = quotas (sweepReclaimable t m)"
  by (simp add: sweepReclaimable_def)

lemma lim_tick_swept: "swept t m (lim_tick t m)"
  by (simp add: lim_tick_def swept_def Let_def sweepReclaimable_def)

lemma lim_admit_swept: "swept t m (snd (lim_admit t m))"
  by (simp add: lim_admit_def swept_def Let_def)

lemma swept_trans:
  assumes "swept t m m1" "swept t m1 m2"
  shows "swept t m m2"
proof -
  have heap: "heap m1 = heap m" "lim_maxEntries m1 = lim_maxEntries m" "heap m2 = heap m1"
    "lim_maxEntries m2 = lim_maxEntries m1" using assms by (simp_all add: swept_def)
  have "buckets (sweepReclaimable t m1) = buckets (sweepReclaimable t m)"
    "quotas (sweepReclaimable t m1) = quotas (sweepReclaimable t m)"
  proof -
    have "buckets (sweepReclaimable t m1) = buckets (sweepReclaimable t m)
        \<and> quotas (sweepReclaimable t m1) = quotas (sweepReclaimable t m)"
    proof (cases "buckets m1 = buckets m \<and> quotas m1 = quotas m")
      case True
      then show ?thesis using heap by (intro sweep_cong) auto
    next
      case False
      then have "buckets m1 = buckets (sweepReclaimable t m)" "quotas m1 = quotas (sweepReclaimable t m)"
        using assms(1) by (auto simp: swept_def)
      then have "buckets (sweepReclaimable t m1) = buckets (sweepReclaimable t (sweepReclaimable t m))
          \<and> quotas (sweepReclaimable t m1) = quotas (sweepReclaimable t (sweepReclaimable t m))"
        using heap by (intro sweep_cong) auto
      then show ?thesis by (simp add: sweep_idem)
    qed
    then show "buckets (sweepReclaimable t m1) = buckets (sweepReclaimable t m)"
      "quotas (sweepReclaimable t m1) = quotas (sweepReclaimable t m)" by simp_all
  qed
  then show ?thesis using assms heap by (auto simp: swept_def)
qed

lemma gget_sweep_buckets:
  "gwf (buckets m) \<Longrightarrow> gget (buckets (sweepReclaimable t m)) k =
     (case gget (buckets m) k of None \<Rightarrow> None
      | Some a \<Rightarrow> if reclaimable t (heap m ! a) then None else Some a)"
  by (simp add: sweepReclaimable_def gget_gfilter split: option.split)

lemma gget_sweep_quotas:
  "gwf (quotas m) \<Longrightarrow> gget (quotas (sweepReclaimable t m)) k =
     (case gget (quotas m) k of None \<Rightarrow> None | Some q \<Rightarrow> if t < q_windowEnd q then Some q else None)"
  by (simp add: sweepReclaimable_def gget_gfilter split: option.split)

lemma swept_ok: "lim_ok m \<Longrightarrow> swept t m m' \<Longrightarrow> lim_ok m'"
  by (auto simp: lim_ok_def swept_def sweepReclaimable_def gget_gfilter split: option.splits if_splits)

lemma swept_bucket:
  assumes "lim_ok m" "swept t m m'" "gget (buckets m) k = Some a" "b_pending (heap m ! a) > 0"
  shows "gget (buckets m') k = Some a"
  using assms by (auto simp: swept_def gget_sweep_buckets lim_ok_D reclaimable_def)

lemma swept_bucket_sub:
  "lim_ok m \<Longrightarrow> swept t m m' \<Longrightarrow> gget (buckets m') k = Some a \<Longrightarrow> gget (buckets m) k = Some a"
  by (auto simp: swept_def gget_sweep_buckets lim_ok_D split: option.splits if_splits)

lemma swept_quota:
  assumes "lim_ok m" "swept t m m'" "gget (quotas m) k = Some q" "t < q_windowEnd q"
  shows "gget (quotas m') k = Some q"
  using assms by (auto simp: swept_def gget_sweep_quotas lim_ok_D)

lemma swept_quota_sub:
  "lim_ok m \<Longrightarrow> swept t m m' \<Longrightarrow> gget (quotas m') k = Some q \<Longrightarrow> gget (quotas m) k = Some q"
  by (auto simp: swept_def gget_sweep_quotas lim_ok_D split: option.splits if_splits)

lemma QuotaUsed_swept: "lim_ok m \<Longrightarrow> swept t m m' \<Longrightarrow> QuotaUsed t k w m' = QuotaUsed t k w m"
  by (auto simp: QuotaUsed_def swept_def gget_sweep_quotas lim_ok_D split: option.splits)

section \<open>Quota windows are spend counters\<close>

lemma curWindow_cases:
  assumes "curWindow t key w m = (r, m')"
  obtains (live) q m1 where "gget (quotas m) key = Some q" "t < q_windowEnd q" "r = Some q" "swept t m m'"
  | (fresh) m1 where "swept t m m1" "\<forall>q. gget (quotas m) key = Some q \<longrightarrow> \<not> t < q_windowEnd q"
      "r = Some \<lparr>q_used = 0, q_windowEnd = t + w\<rparr>"
      "m' = m1\<lparr>quotas := gput key \<lparr>q_used = 0, q_windowEnd = t + w\<rparr> (quotas m1)\<rparr>"
  | (full) "gget (quotas m) key = None" "r = None" "swept t m m'"
proof (cases "gget (quotas m) key")
  case (Some q)
  note q = this
  show ?thesis
  proof (cases "t < q_windowEnd q")
    case True
    then show ?thesis using assms q lim_tick_swept [of t m] live by (simp add: curWindow_def Let_def)
  next
    case False
    then show ?thesis using assms q lim_tick_swept [of t m] fresh
      by (auto simp: curWindow_def Let_def)
  qed
next
  case None
  obtain ok m2 where adm: "lim_admit t (lim_tick t m) = (ok, m2)" by fastforce
  have "swept t m m2"
    using swept_trans [OF lim_tick_swept lim_admit_swept, of t m] adm by simp
  then show ?thesis using assms None adm full fresh
    by (cases ok) (auto simp: curWindow_def Let_def)
qed

lemma lim_ok_put_quota:
  "lim_ok m \<Longrightarrow> 0 \<le> q_used q \<Longrightarrow> q_used q \<le> max_i64 \<Longrightarrow> lim_ok (m\<lparr>quotas := gput key q (quotas m)\<rparr>)"
  by (auto simp: lim_ok_def gomap split: if_splits)

lemma curWindow_ok:
  assumes "lim_ok m" "curWindow t key w m = (r, m')"
  shows "lim_ok m'" and "\<And>q. r = Some q \<Longrightarrow> 0 \<le> q_used q \<and> q_used q \<le> max_i64"
proof -
  show "lim_ok m'"
    using assms(2)
    by (cases rule: curWindow_cases) (auto intro!: lim_ok_put_quota intro: swept_ok [OF assms(1)])
  show "0 \<le> q_used q \<and> q_used q \<le> max_i64" if "r = Some q" for q
    using assms(2) by (cases rule: curWindow_cases) (use that lim_ok_D(4) [OF assms(1)] in auto)
qed

lemma curWindow_used:
  assumes "lim_ok m" "curWindow t key w m = (Some q, m')"
  shows "q_used q = QuotaUsed t key w' m"
  using assms(2) by (cases rule: curWindow_cases) (auto simp: QuotaUsed_def split: option.splits)

lemma curWindow_frame:
  assumes "lim_ok m" "curWindow t key w m = (r, m')" "k \<noteq> key"
  shows "QuotaUsed t k w' m' = QuotaUsed t k w' m"
  using assms(2)
proof (cases rule: curWindow_cases)
  case (fresh m1)
  then show ?thesis using QuotaUsed_swept [OF assms(1) fresh(1), of k w'] assms(3)
    by (simp add: QuotaUsed_def gomap)
qed (use QuotaUsed_swept [OF assms(1)] in simp_all)

definition quota_tracked :: "lim_Memory \<Rightarrow> string \<Rightarrow> gotime \<Rightarrow> bool" where
  "quota_tracked m k t \<longleftrightarrow> (\<exists>q. gget (quotas m) k = Some q \<and> t < q_windowEnd q)"

lemma curWindow_tracked:
  assumes "lim_ok m" "curWindow t key w m = (r, m')" "quota_tracked m k t"
  shows "quota_tracked m' k t" and "k = key \<Longrightarrow> \<exists>q. r = Some q \<and> t < q_windowEnd q"
proof -
  obtain q where q: "gget (quotas m) k = Some q" "t < q_windowEnd q"
    using assms(3) by (auto simp: quota_tracked_def)
  show "quota_tracked m' k t"
    using assms(2)
  proof (cases rule: curWindow_cases)
    case (fresh m1)
    then have "k \<noteq> key" using q by auto
    then show ?thesis using swept_quota [OF assms(1) fresh(1) q] q fresh by (simp add: quota_tracked_def)
  qed (use swept_quota [OF assms(1) _ q] q in \<open>auto simp: quota_tracked_def\<close>)
  show "\<exists>q. r = Some q \<and> t < q_windowEnd q" if "k = key"
    using assms(2) by (cases rule: curWindow_cases) (use q that in auto)
qed

lemma DebitQuota_ok: "lim_ok m \<Longrightarrow> lim_ok (DebitQuota t key n w m)"
proof -
  assume ok: "lim_ok m"
  obtain r m' where c: "curWindow t key w m = (r, m')" by fastforce
  show ?thesis
  proof (cases r)
    case None
    then show ?thesis using ok c curWindow_ok [OF ok c] by (simp add: DebitQuota_def)
  next
    case (Some q)
    then have "0 \<le> q_used q" "q_used q \<le> max_i64" "lim_ok m'" using curWindow_ok [OF ok c] by auto
    moreover have "wrap64 (max_i64 - q_used q) = max_i64 - q_used q"
      using calculation by (intro wrap64_diff_nonneg) auto
    ultimately show ?thesis using ok c Some
      by (auto simp: DebitQuota_def intro!: lim_ok_put_quota)
  qed
qed

lemma DebitQuota_counts:
  assumes ok: "lim_ok m" and "quota_tracked m key t" "0 \<le> n"
  shows "QuotaUsed t key w' (DebitQuota t key n w m) = sat_add64 (QuotaUsed t key w' m) n"
proof -
  obtain r m' where c: "curWindow t key w m = (r, m')" by fastforce
  obtain q where r: "r = Some q" "t < q_windowEnd q"
    using curWindow_tracked(2) [OF ok c assms(2)] by blast
  have q: "q_used q = QuotaUsed t key w' m" using curWindow_used [OF ok] c r(1) by simp
  have "0 \<le> q_used q" "q_used q \<le> max_i64" using curWindow_ok(2) [OF ok c r(1)] by auto
  then have "wrap64 (max_i64 - q_used q) = max_i64 - q_used q" by (intro wrap64_diff_nonneg) auto
  then show ?thesis
    using assms(3) c r q by (simp add: DebitQuota_def QuotaUsed_def [of _ _ _ "_\<lparr>quotas := _\<rparr>"] sat_add64_def)
qed

lemma QuotaUsed_put_other:
  "k \<noteq> key \<Longrightarrow> QuotaUsed t k w (m\<lparr>quotas := gput key q (quotas m)\<rparr>) = QuotaUsed t k w m"
  by (simp add: QuotaUsed_def)

lemma DebitQuota_frame:
  "lim_ok m \<Longrightarrow> k \<noteq> key \<Longrightarrow> QuotaUsed t k w' (DebitQuota t key n w m) = QuotaUsed t k w' m"
  using curWindow_frame [of m t key w _ _ k w']
  by (cases "curWindow t key w m")
     (auto simp: DebitQuota_def QuotaUsed_put_other split: option.split)

lemma DebitQuota_tracked:
  assumes "lim_ok m" "quota_tracked m k t"
  shows "quota_tracked (DebitQuota t key n w m) k t"
proof (cases "curWindow t key w m")
  case (Pair r m')
  show ?thesis
    using curWindow_tracked [OF assms(1) Pair assms(2)] assms(2) Pair
    by (auto simp: DebitQuota_def quota_tracked_def gomap split: option.splits)
qed

lemma QuotaUsed_bounds: "lim_ok m \<Longrightarrow> 0 \<le> QuotaUsed t k w m \<and> QuotaUsed t k w m \<le> max_i64"
  by (auto simp: QuotaUsed_def lim_ok_def split: option.split)

interpretation quota: spend_counter lim_ok "\<lambda>m k t. QuotaUsed t k 0 m" quota_tracked DebitQuota
  by unfold_locales
     (simp_all add: QuotaUsed_bounds DebitQuota_ok DebitQuota_counts DebitQuota_frame DebitQuota_tracked)

end
