(* ===== verification/Limiter_Rates.thy ===== *)
theory Limiter_Rates
  imports Limiter
begin

text \<open>
  The rate half of the limiter: what a charge does to the store, that an unfinished reservation
  keeps its bucket bound to its key through every sweep, and that the sweep itself cannot be
  observed through any operation.
\<close>

section \<open>What a charge changes\<close>

text \<open>
  The frame of every rate operation: no bucket moves or loses a reservation, and a bucket with
  a reservation stays bound to its key.
\<close>

definition keeps :: "lim_Memory \<Rightarrow> lim_Memory \<Rightarrow> bool" where
  "keeps m m' \<longleftrightarrow> length (heap m) \<le> length (heap m')
     \<and> (\<forall>a < length (heap m). b_pending (heap m' ! a) = b_pending (heap m ! a))
     \<and> (\<forall>a. length (heap m) \<le> a \<and> a < length (heap m') \<longrightarrow> b_pending (heap m' ! a) = 0)
     \<and> (\<forall>k a. gget (buckets m) k = Some a \<and> b_pending (heap m ! a) > 0 \<longrightarrow> gget (buckets m') k = Some a)"

lemma keeps_refl [simp]: "keeps m m"
  by (simp add: keeps_def)

lemma swept_keeps: "lim_ok m \<Longrightarrow> swept t m m' \<Longrightarrow> keeps m m'"
  using swept_bucket [of m t m'] by (auto simp: keeps_def swept_def)

lemma keeps_trans:
  assumes "lim_ok m" "keeps m m1" "keeps m1 m2"
  shows "keeps m m2"
proof -
  have "b_pending (heap m2 ! a) = 0" if "length (heap m) \<le> a" "a < length (heap m2)" for a
    using assms(2,3) that by (cases "a < length (heap m1)") (simp_all add: keeps_def)
  moreover have "gget (buckets m2) k = Some a"
    if "gget (buckets m) k = Some a" "b_pending (heap m ! a) > 0" for k a
    using assms that lim_ok_D(3) [OF assms(1) that(1)] by (simp add: keeps_def)
  ultimately show ?thesis using assms(2,3) by (auto simp: keeps_def)
qed

lemma charge_bucket_frame [simp]:
  "b_pending (fst (charge_bucket t cost rate burst b)) = b_pending b"
  "b_ratePerMin (fst (charge_bucket t cost rate burst b)) = rate"
  "b_burst (fst (charge_bucket t cost rate burst b)) = burst"
  "b_last (fst (charge_bucket t cost rate burst b)) = t"
  by (simp_all add: charge_bucket_def Let_def)

lemma new_bucket_keeps:
  assumes "lim_ok m" "gget (buckets m) key = None" "new_bucket t key burst m = (a, m')"
  shows "lim_ok m'" "keeps m m'" "gget (buckets m') key = Some a" "a < length (heap m')"
  using assms by (auto simp: new_bucket_def lim_ok_def keeps_def gomap nth_append less_Suc_eq split: if_splits)

lemma heap_update_keeps:
  assumes "lim_ok m" "a < length (heap m)" "b_pending b = b_pending (heap m ! a)"
  shows "lim_ok (m\<lparr>heap := (heap m)[a := b]\<rparr>)" "keeps m (m\<lparr>heap := (heap m)[a := b]\<rparr>)"
  using assms by (auto simp: lim_ok_def keeps_def nth_list_update)

text \<open>The bucket a charge works on, and whether it is charged.\<close>

lemma allowRate_cases:
  assumes "lim_ok m" "allowRate t key cost rate burst m = ((r, allowed), m')"
  obtains (full) "r = None" "\<not> allowed" "lim_ok m'" "keeps m m'"
  | (charged) a m1 where "r = Some a" "lim_ok m1" "keeps m m1" "gget (buckets m1) key = Some a"
      "a < length (heap m1)"
      "charge_bucket t cost rate burst (heap m1 ! a) = (heap m' ! a, allowed)"
      "m' = m1\<lparr>heap := (heap m1)[a := heap m' ! a]\<rparr>"
proof -
  let ?m1 = "lim_tick t m"
  have sw1: "swept t m ?m1" by (rule lim_tick_swept)
  have ok1: "lim_ok ?m1" by (rule swept_ok [OF assms(1) sw1])
  show ?thesis
  proof (cases "gget (buckets ?m1) key")
    case (Some a)
    obtain b v where ch: "charge_bucket t cost rate burst (heap ?m1 ! a) = (b, v)" by fastforce
    have a: "a < length (heap ?m1)" using lim_ok_D(3) [OF ok1 Some] .
    have "m' = ?m1\<lparr>heap := (heap ?m1)[a := b]\<rparr>" "r = Some a" "allowed = v"
      using assms(2) Some ch by (simp_all add: allowRate_def find_bucket_def)
    then show ?thesis using charged [of a ?m1] ok1 swept_keeps [OF assms(1) sw1] Some a ch by simp
  next
    case None
    obtain ok m2 where adm: "lim_admit t ?m1 = (ok, m2)" by fastforce
    have sw2: "swept t m m2" using swept_trans [OF sw1 lim_admit_swept] adm by simp
    have ok2: "lim_ok m2" and k2: "keeps m m2"
      by (rule swept_ok [OF assms(1) sw2], rule swept_keeps [OF assms(1) sw2])
    show ?thesis
    proof (cases ok)
      case False
      then show ?thesis using assms(2) None adm full ok2 k2 by (simp add: allowRate_def find_bucket_def)
    next
      case True
      have "swept t ?m1 m2" using lim_admit_swept [of t ?m1] adm by simp
      then have none: "gget (buckets m2) key = None"
        using swept_bucket_sub [OF ok1, of t m2 key] None by (cases "gget (buckets m2) key") auto
      obtain a m3 where nb: "new_bucket t key burst m2 = (a, m3)" by fastforce
      obtain b v where ch: "charge_bucket t cost rate burst (heap m3 ! a) = (b, v)" by fastforce
      note nk = new_bucket_keeps [OF ok2 none nb]
      have "m' = m3\<lparr>heap := (heap m3)[a := b]\<rparr>" "r = Some a" "allowed = v"
        using assms(2) None adm True nb ch by (simp_all add: allowRate_def find_bucket_def)
      then show ?thesis using charged [of a m3] nk keeps_trans [OF assms(1) k2 nk(2)] ch by simp
    qed
  qed
qed

lemma allowRate_keeps:
  assumes "lim_ok m" "allowRate t key cost rate burst m = ((r, allowed), m')"
  shows "lim_ok m'" "keeps m m'"
    "\<And>a. r = Some a \<Longrightarrow> gget (buckets m') key = Some a \<and> a < length (heap m')"
proof -
  have "lim_ok m' \<and> keeps m m' \<and> (\<forall>a. r = Some a \<longrightarrow> gget (buckets m') key = Some a \<and> a < length (heap m'))"
    using assms
  proof (cases rule: allowRate_cases)
    case (charged a m1)
    have p: "b_pending (heap m' ! a) = b_pending (heap m1 ! a)"
      using charge_bucket_frame(1) [of t cost rate burst "heap m1 ! a"] charged(6) by simp
    note up = heap_update_keeps [OF charged(2,5) p, folded charged(7)]
    have b: "buckets m' = buckets m1" "length (heap m') = length (heap m1)"
      by (subst charged(7), simp)+
    show ?thesis using up keeps_trans [OF assms(1) charged(3) up(2)] charged b by simp
  qed auto
  then show "lim_ok m'" "keeps m m'"
    "\<And>a. r = Some a \<Longrightarrow> gget (buckets m') key = Some a \<and> a < length (heap m')" by auto
qed

lemma AllowRate_keeps:
  assumes "lim_ok m" "AllowRate t key cost rate burst m = (v, m')"
  shows "lim_ok m'" "keeps m m'"
  using assms allowRate_keeps [OF assms(1)]
  by (auto simp: AllowRate_def split: if_splits prod.splits)

lemma curWindow_keeps:
  assumes "lim_ok m" "curWindow t key w m = (r, m')"
  shows "keeps m m'"
  using assms(2)
proof (cases rule: curWindow_cases)
  case (fresh m1)
  have "keeps m m1" by (rule swept_keeps [OF assms(1) fresh(1)])
  then show ?thesis using fresh by (simp add: keeps_def)
qed (auto intro: swept_keeps [OF assms(1)])

lemma CheckQuota_keeps:
  assumes "lim_ok m" "CheckQuota t key est limit w m = (v, m')"
  shows "lim_ok m'" "keeps m m'"
  using assms curWindow_ok(1) [OF assms(1)] curWindow_keeps [OF assms(1)]
  by (auto simp: CheckQuota_def split: if_splits prod.splits option.splits)

lemma DebitQuota_keeps: "lim_ok m \<Longrightarrow> keeps m (DebitQuota t key n w m)"
  using curWindow_keeps [of m t key w]
  by (auto simp: DebitQuota_def keeps_def split: prod.split option.split)

lemma AdjustRate_keeps:
  assumes "lim_ok m"
  shows "lim_ok (AdjustRate key delta burst m)" "keeps m (AdjustRate key delta burst m)"
  using heap_update_keeps [OF assms] lim_ok_D(3) [OF assms]
  by (auto simp: AdjustRate_def Let_def assms split: option.split)

section \<open>Reservations\<close>

definition is_open :: "nat \<Rightarrow> finisher \<Rightarrow> bool" where
  "is_open a f \<longleftrightarrow> fin_bucket f = Some a \<and> \<not> fin_done f"

text \<open>A limiter together with the reservations handed out so far and the keys they were for.\<close>

record lim_sys =
  ls_mem :: lim_Memory
  ls_fins :: "(string \<times> finisher) list"

definition opens :: "nat \<Rightarrow> (string \<times> finisher) list \<Rightarrow> int" where
  "opens a fs = int (length (filter (\<lambda>(_, f). is_open a f) fs))"

datatype lim_event =
    EvAllow gotime string i64 i64 i64
  | EvReserve gotime string i64 i64 i64
  | EvFinish nat "i64 option"
  | EvCheckQuota gotime string i64 i64 duration
  | EvDebitQuota gotime string i64 duration
  | EvAdjust string i64 i64

fun lim_exec :: "lim_event \<Rightarrow> lim_sys \<Rightarrow> lim_sys" where
  "lim_exec (EvAllow t key cost rate burst) s =
     s\<lparr>ls_mem := snd (AllowRate t key cost rate burst (ls_mem s))\<rparr>"
| "lim_exec (EvReserve t key cost rate burst) s =
     (case ReserveRate t key cost rate burst (ls_mem s) of
        (None, m) \<Rightarrow> s\<lparr>ls_mem := m\<rparr>
      | (Some f, m) \<Rightarrow> s\<lparr>ls_mem := m, ls_fins := ls_fins s @ [(key, f)]\<rparr>)"
| "lim_exec (EvFinish i actual) s =
     (if i < length (ls_fins s)
      then case finish_rate actual (snd (ls_fins s ! i)) (ls_mem s) of
             (f, m) \<Rightarrow> s\<lparr>ls_mem := m, ls_fins := (ls_fins s)[i := (fst (ls_fins s ! i), f)]\<rparr>
      else s)"
| "lim_exec (EvCheckQuota t key est limit w) s =
     s\<lparr>ls_mem := snd (CheckQuota t key est limit w (ls_mem s))\<rparr>"
| "lim_exec (EvDebitQuota t key n w) s = s\<lparr>ls_mem := DebitQuota t key n w (ls_mem s)\<rparr>"
| "lim_exec (EvAdjust key delta burst) s = s\<lparr>ls_mem := AdjustRate key delta burst (ls_mem s)\<rparr>"

text \<open>
  The invariant: each bucket counts its open reservations, and an open reservation's bucket is
  the one its key is bound to.
\<close>

definition pinned :: "lim_sys \<Rightarrow> bool" where
  "pinned s \<longleftrightarrow> lim_ok (ls_mem s)
     \<and> (\<forall>a < length (heap (ls_mem s)). b_pending (heap (ls_mem s) ! a) = opens a (ls_fins s))
     \<and> (\<forall>k f a. (k, f) \<in> set (ls_fins s) \<and> is_open a f \<longrightarrow> gget (buckets (ls_mem s)) k = Some a)"

lemma opens_pos: "(k, f) \<in> set fs \<Longrightarrow> is_open a f \<Longrightarrow> 0 < opens a fs"
  by (force simp: opens_def length_greater_0_conv filter_empty_conv)

lemma opens_zero: "\<forall>k f. (k, f) \<in> set fs \<longrightarrow> \<not> is_open a f \<Longrightarrow> opens a fs = 0"
  by (auto simp: opens_def filter_empty_conv)

lemma opens_append [simp]: "opens a (fs @ [(k, f)]) = opens a fs + (if is_open a f then 1 else 0)"
  by (simp add: opens_def)

lemma opens_Cons: "opens a (kf # fs) = (if is_open a (snd kf) then 1 else 0) + opens a fs"
  by (simp add: opens_def case_prod_unfold)

lemma opens_update:
  "i < length fs \<Longrightarrow> opens a (fs[i := (k, f)]) =
     opens a fs - (if is_open a (snd (fs ! i)) then 1 else 0) + (if is_open a f then 1 else 0)"
proof (induction fs arbitrary: i)
  case Nil
  then show ?case by simp
next
  case (Cons kf fs)
  then show ?case by (cases i) (simp_all add: opens_Cons)
qed

lemma pinned_D:
  assumes "pinned s"
  shows "lim_ok (ls_mem s)"
    "a < length (heap (ls_mem s)) \<Longrightarrow> b_pending (heap (ls_mem s) ! a) = opens a (ls_fins s)"
    "(k, f) \<in> set (ls_fins s) \<Longrightarrow> is_open a f \<Longrightarrow> gget (buckets (ls_mem s)) k = Some a"
  using assms by (auto simp: pinned_def)

lemma pinned_open_in_heap:
  "pinned s \<Longrightarrow> (k, f) \<in> set (ls_fins s) \<Longrightarrow> is_open a f \<Longrightarrow> a < length (heap (ls_mem s))"
  using lim_ok_D(3) pinned_D(1,3) by blast

lemma pinned_keeps:
  assumes "pinned s" "lim_ok m" "keeps (ls_mem s) m"
  shows "pinned (s\<lparr>ls_mem := m\<rparr>)"
proof -
  have "b_pending (heap m ! a) = opens a (ls_fins s)" if "a < length (heap m)" for a
  proof (cases "a < length (heap (ls_mem s))")
    case True
    then show ?thesis using assms that by (simp add: keeps_def pinned_D)
  next
    case False
    then have "\<forall>k f. (k, f) \<in> set (ls_fins s) \<longrightarrow> \<not> is_open a f"
      using pinned_open_in_heap [OF assms(1)] by blast
    then show ?thesis using False assms(3) that by (simp add: keeps_def opens_zero)
  qed
  moreover have "gget (buckets m) k = Some a" if "(k, f) \<in> set (ls_fins s)" "is_open a f" for k f a
  proof -
    have "gget (buckets (ls_mem s)) k = Some a" "a < length (heap (ls_mem s))"
      using that pinned_D(3) [OF assms(1)] pinned_open_in_heap [OF assms(1)] by blast+
    moreover have "0 < b_pending (heap (ls_mem s) ! a)"
      using pinned_D(2) [OF assms(1) calculation(2)] opens_pos [OF that] by simp
    ultimately show ?thesis using assms(3) by (simp add: keeps_def)
  qed
  ultimately show ?thesis using assms(2) by (auto simp: pinned_def)
qed

lemma pinned_reserve:
  assumes "pinned s"
  shows "pinned (lim_exec (EvReserve t key cost rate burst) s)"
proof (cases "cost < 0 \<or> rate \<le> 0")
  case True
  then show ?thesis using assms
    by (auto simp: ReserveRate_def pinned_def is_open_def)
next
  case False
  obtain r v m where al: "allowRate t key cost rate burst (ls_mem s) = ((r, v), m)"
    by (metis surj_pair)
  note k = allowRate_keeps [OF pinned_D(1) [OF assms] al]
  have pin: "pinned (s\<lparr>ls_mem := m\<rparr>)" by (rule pinned_keeps [OF assms k(1,2)])
  show ?thesis
  proof (cases "v \<and> r \<noteq> None")
    case True
    then obtain a where r: "r = Some a" by blast
    have a: "gget (buckets m) key = Some a" "a < length (heap m)" using k(3) r by auto
    show ?thesis using pin k(1) a False al r True
      by (auto simp: ReserveRate_def pinned_def lim_ok_def is_open_def nth_list_update)
  next
    case no: False
    then show ?thesis using pin False al by (auto simp: ReserveRate_def split: option.splits bool.splits)
  qed
qed

lemma true_up_frame [simp]:
  "b_pending (true_up cost actual b) = b_pending b - 1" "b_ratePerMin (true_up cost actual b) = b_ratePerMin b"
  "b_burst (true_up cost actual b) = b_burst b" "b_last (true_up cost actual b) = b_last b"
  by (simp_all add: true_up_def Let_def split: option.split)

lemma pinned_finish:
  assumes "pinned s"
  shows "pinned (lim_exec (EvFinish i actual) s)"
proof (cases "i < length (ls_fins s) \<and> (\<exists>a. is_open a (snd (ls_fins s ! i)))")
  case False
  then show ?thesis using assms
    by (auto simp: finish_rate_def is_open_def list_update_same_conv split: option.split)
next
  case True
  then obtain a where i: "i < length (ls_fins s)" and a: "is_open a (snd (ls_fins s ! i))" by blast
  obtain k f where kf: "ls_fins s ! i = (k, f)" by fastforce
  then have mem: "(k, f) \<in> set (ls_fins s)" and f: "is_open a f" using i a by (auto simp: in_set_conv_nth)
  have ah: "a < length (heap (ls_mem s))" by (rule pinned_open_in_heap [OF assms mem f])
  have fd: "fin_bucket f = Some a" "\<not> fin_done f" using f by (auto simp: is_open_def)
  let ?m = "(ls_mem s)\<lparr>heap := (heap (ls_mem s))[a := true_up (fin_cost f) actual (heap (ls_mem s) ! a)]\<rparr>"
  let ?fs = "(ls_fins s)[i := (k, f\<lparr>fin_done := True\<rparr>)]"
  have ex: "lim_exec (EvFinish i actual) s = s\<lparr>ls_mem := ?m, ls_fins := ?fs\<rparr>"
    using i kf fd by (simp add: finish_rate_def)
  have op: "opens b ?fs = opens b (ls_fins s) - (if b = a then 1 else 0)" for b
    using opens_update [OF i, of b k "f\<lparr>fin_done := True\<rparr>"] kf fd by (auto simp: is_open_def)
  have sub: "(k', g) \<in> set (ls_fins s)" if "(k', g) \<in> set ?fs" "is_open b g" for k' g b
    using that set_update_subset_insert [of "ls_fins s" i "(k, f\<lparr>fin_done := True\<rparr>)"]
    by (auto simp: is_open_def)
  show ?thesis
    unfolding ex pinned_def
    using pinned_D(1,2) [OF assms] ah op
    by (auto simp: lim_ok_def nth_list_update intro: pinned_D(3) [OF assms] sub)
qed

lemma pinned_exec: "pinned s \<Longrightarrow> pinned (lim_exec e s)"
proof (cases e)
  case (EvAllow t key cost rate burst)
  assume p: "pinned s"
  show ?thesis
    using pinned_keeps [OF p AllowRate_keeps [OF pinned_D(1) [OF p], where v = "fst (AllowRate t key cost rate burst (ls_mem s))"]]
      EvAllow by simp
next
  case (EvCheckQuota t key est limit w)
  assume p: "pinned s"
  show ?thesis
    using pinned_keeps [OF p CheckQuota_keeps [OF pinned_D(1) [OF p], where v = "fst (CheckQuota t key est limit w (ls_mem s))"]]
      EvCheckQuota by simp
qed (auto intro: pinned_reserve [simplified] pinned_finish [simplified]
      pinned_keeps DebitQuota_ok DebitQuota_keeps AdjustRate_keeps dest: pinned_D(1)
      simp del: lim_exec.simps(2,3) simp: pinned_reserve pinned_finish)

lemma pinned_run: "pinned s \<Longrightarrow> pinned (fold lim_exec es s)"
  by (induction es arbitrary: s) (auto simp: pinned_exec simp del: lim_exec.simps)

lemma pinned_new: "pinned \<lparr>ls_mem = lim_NewMemory, ls_fins = []\<rparr>"
  by (simp add: pinned_def lim_ok_def lim_NewMemory_def)

section \<open>The sweep cannot be observed\<close>

lemma refilled_mono:
  assumes "b_last b \<le> t" "t \<le> t'" "0 \<le> rate"
  shows "refilled t rate b \<le> refilled t' rate b"
proof -
  have d: "0 \<le> time_sub t (b_last b)" "time_sub t (b_last b) \<le> time_sub t' (b_last b)"
    "time_sub t' (b_last b) \<le> max_i64"
    using assms by (auto simp: time_sub_def i64_consts)
  have "0 \<le> fdiv (float_of_int rate) (float_of_int 60)"
    unfolding fdiv_def float_of_int_def using assms(3)
    by (intro fl_nonneg divide_nonneg_nonneg) (simp_all add: fl_nonneg)
  with Seconds_mono [OF d] show ?thesis
    by (auto simp: refilled_def fadd_def fmul_def intro!: fl_mono mult_right_mono add_left_mono)
qed

lemma reclaimable_mono:
  "reclaimable t b \<Longrightarrow> b_last b \<le> t \<Longrightarrow> t \<le> t' \<Longrightarrow> reclaimable t' b"
  using refilled_mono [of b t t' "b_ratePerMin b"] by (auto simp: reclaimable_def)

text \<open>A reclaimable bucket charges exactly as the full bucket that would replace it.\<close>

lemma reclaimable_full:
  assumes "reclaimable t b" "b_last b \<le> t" "t \<le> t'" "b_ratePerMin b = rate" "b_burst b = burst"
  shows "float_of_int burst \<le> refilled t' rate b" "0 < rate"
  using assms refilled_mono [of b t t' rate] by (auto simp: reclaimable_def)

lemma fresh_refilled:
  "refilled t rate \<lparr>tokens = float_of_int burst, b_last = t, b_pending = p, b_ratePerMin = r, b_burst = u\<rparr>
     = fl (float_of_int burst)"
  by (simp add: refilled_def time_sub_def Seconds_def fadd_def fmul_def float_of_int_def fdiv_def i64_consts)

lemma charge_reclaimable:
  assumes "float_of_int burst \<le> refilled t rate b"
  shows "snd (charge_bucket t cost rate burst b) \<longleftrightarrow> float_of_int cost \<le> float_of_int burst"
  using assms by (auto simp: charge_bucket_def Let_def)

section \<open>The number of entries\<close>

definition lim_within :: "lim_Memory \<Rightarrow> bool" where
  "lim_within m \<longleftrightarrow> lim_count m \<le> lim_maxEntries m"

lemma sweep_count_le: "lim_count (sweepReclaimable t m) \<le> lim_count m"
  unfolding lim_count_def sweepReclaimable_def
  by (simp add: add_mono length_gfilter_le)

lemma swept_count_le: "swept t m m' \<Longrightarrow> lim_count m' \<le> lim_count m"
  using sweep_count_le [of t m] by (auto simp: swept_def lim_count_def)

lemma swept_within: "swept t m m' \<Longrightarrow> lim_within m \<Longrightarrow> lim_within m'"
  using swept_count_le [of t m m'] by (simp add: lim_within_def swept_def)

lemma sweep_drops_bucket:
  "gget (buckets m) key = Some a \<Longrightarrow> reclaimable t (heap m ! a) \<Longrightarrow>
   lim_count (sweepReclaimable t m) < lim_count m"
  using length_gfilter_less [of "buckets m" key a "\<lambda>_ a. \<not> reclaimable t (heap m ! a)"]
    length_gfilter_le [of "\<lambda>_ q. t < q_windowEnd q" "quotas m"]
  by (simp add: lim_count_def sweepReclaimable_def)

lemma sweep_drops_quota:
  "gget (quotas m) key = Some q \<Longrightarrow> \<not> t < q_windowEnd q \<Longrightarrow>
   lim_count (sweepReclaimable t m) < lim_count m"
  using length_gfilter_less [of "quotas m" key q "\<lambda>_ q. t < q_windowEnd q"]
    length_gfilter_le [of "\<lambda>_ a. \<not> reclaimable t (heap m ! a)" "buckets m"]
  by (simp add: lim_count_def sweepReclaimable_def)

lemma lim_admit_iff: "fst (lim_admit t m) \<longleftrightarrow> lim_count (sweepReclaimable t m) < lim_maxEntries m"
  using sweep_count_le [of t m] by (auto simp: lim_admit_def Let_def lim_count_def)

lemma lim_admit_room: "lim_admit t m = (True, m') \<Longrightarrow> lim_count m' < lim_maxEntries m'"
  by (auto simp: lim_admit_def Let_def lim_count_def split: if_splits)

lemma put_quota_within:
  "lim_count m < lim_maxEntries m \<or> gget (quotas m) key \<noteq> None \<and> lim_within m \<Longrightarrow>
   lim_within (m\<lparr>quotas := gput key q (quotas m)\<rparr>)"
  by (auto simp: lim_within_def lim_count_def length_gput)

lemma curWindow_within:
  assumes "lim_ok m" "lim_within m" "curWindow t key w m = (r, m')"
  shows "lim_within m'"
proof (cases "gget (quotas m) key")
  case None
  obtain ok m2 where adm: "lim_admit t (lim_tick t m) = (ok, m2)" by fastforce
  show ?thesis
  proof (cases ok)
    case True
    then show ?thesis
      using assms(3) None adm lim_admit_room [of t "lim_tick t m" m2]
      by (auto simp: curWindow_def Let_def intro!: put_quota_within)
  next
    case False
    have "swept t m m2" using swept_trans [OF lim_tick_swept lim_admit_swept, of t m] adm by simp
    then show ?thesis using assms False None adm by (auto simp: curWindow_def Let_def intro: swept_within)
  qed
next
  case (Some q)
  let ?m = "lim_tick t m"
  have sw: "swept t m ?m" by (rule lim_tick_swept)
  show ?thesis
  proof (cases "t < q_windowEnd q")
    case True
    then show ?thesis using assms(2,3) Some swept_within [OF sw] by (auto simp: curWindow_def Let_def)
  next
    case False
    have "lim_count ?m < lim_maxEntries ?m \<or> gget (quotas ?m) key \<noteq> None \<and> lim_within ?m"
    proof (cases "gget (quotas ?m) key")
      case None
      then have "quotas ?m \<noteq> quotas m" using Some by auto
      then have "buckets ?m = buckets (sweepReclaimable t m)" "quotas ?m = quotas (sweepReclaimable t m)"
        using sw by (auto simp: swept_def)
      then have "lim_count ?m < lim_count m" using sweep_drops_quota [OF Some False] by (simp add: lim_count_def)
      then show ?thesis using assms(2) sw by (simp add: lim_within_def swept_def)
    next
      case (Some q')
      then show ?thesis using swept_within [OF sw assms(2)] by simp
    qed
    then show ?thesis using assms(3) Some False
      by (auto simp: curWindow_def Let_def intro!: put_quota_within)
  qed
qed

lemma allowRate_within:
  assumes "lim_within m" "allowRate t key cost rate burst m = (r, m')"
  shows "lim_within m'"
proof -
  let ?m = "lim_tick t m"
  have sw: "swept t m ?m" by (rule lim_tick_swept)
  obtain ok m2 where adm: "lim_admit t ?m = (ok, m2)" by fastforce
  have sw2: "swept t m m2" using swept_trans [OF sw lim_admit_swept] adm by simp
  have upd: "lim_within (x\<lparr>heap := h\<rparr>) = lim_within x" for x h
    by (simp add: lim_within_def lim_count_def)
  have room: "ok \<Longrightarrow> lim_within (snd (new_bucket t key burst m2))"
    using lim_admit_room [of t ?m m2] adm
    by (auto simp: new_bucket_def lim_within_def lim_count_def length_gput)
  have w: "lim_within ?m" "lim_within m2" by (rule swept_within [OF sw assms(1)], rule swept_within [OF sw2 assms(1)])
  show ?thesis
  proof (cases "gget (buckets ?m) key")
    case None
    then show ?thesis using assms(2) adm room w upd
      by (cases ok) (auto simp: allowRate_def find_bucket_def case_prod_unfold)
  next
    case (Some a)
    then show ?thesis using assms(2) w upd by (auto simp: allowRate_def find_bucket_def case_prod_unfold)
  qed
qed

lemma heap_within [simp]: "lim_within (m\<lparr>heap := h\<rparr>) = lim_within m"
  by (simp add: lim_within_def lim_count_def)

lemma lim_exec_within:
  assumes "lim_ok (ls_mem s)" "lim_within (ls_mem s)"
  shows "lim_within (ls_mem (lim_exec e s))"
proof (cases e)
  case (EvAllow t key cost rate burst)
  then show ?thesis using assms allowRate_within [OF assms(2), of t key cost rate burst]
    by (auto simp: AllowRate_def split: prod.split)
next
  case (EvReserve t key cost rate burst)
  then show ?thesis using assms(2) allowRate_within [OF assms(2), of t key cost rate burst]
    by (auto simp: ReserveRate_def split: prod.split option.split bool.split)
next
  case (EvFinish i actual)
  then show ?thesis using assms(2) by (auto simp: finish_rate_def split: prod.split option.split)
next
  case (EvCheckQuota t key est limit w)
  then show ?thesis using assms curWindow_within [OF assms, of t key w]
    by (auto simp: CheckQuota_def split: prod.split option.split)
next
  case (EvDebitQuota t key n w)
  obtain r m' where c: "curWindow t key w (ls_mem s) = (r, m')" by fastforce
  have "lim_within m'" by (rule curWindow_within [OF assms c])
  moreover have "gget (quotas m') key \<noteq> None" if "r \<noteq> None"
    using c that
    by (cases rule: curWindow_cases) (use swept_quota [OF assms(1)] in \<open>auto simp: gomap\<close>)
  ultimately show ?thesis using EvDebitQuota assms(2) c
    by (auto simp: DebitQuota_def intro!: put_quota_within split: option.split)
next
  case (EvAdjust key delta burst)
  then show ?thesis using assms(2) by (auto simp: AdjustRate_def Let_def split: option.split)
qed

lemma lim_new_within: "lim_within (ls_mem \<lparr>ls_mem = lim_NewMemory, ls_fins = []\<rparr>)"
  by (simp add: lim_within_def lim_count_def lim_NewMemory_def lim_defaultMaxEntries_def)

lemma lim_run_within:
  "pinned s \<Longrightarrow> lim_within (ls_mem s) \<Longrightarrow> lim_within (ls_mem (fold lim_exec es s))"
proof (induction es arbitrary: s)
  case Nil
  then show ?case by simp
next
  case (Cons e es)
  have "lim_within (ls_mem (lim_exec e s))" by (rule lim_exec_within [OF pinned_D(1) [OF Cons.prems(1)] Cons.prems(2)])
  then show ?case using Cons.IH [OF pinned_exec [OF Cons.prems(1)]] by simp
qed

section \<open>Verdicts before and after a sweep\<close>

lemma sweep_sweep:
  assumes "gwf (buckets m)" "t \<le> t'" "\<forall>k a. gget (buckets m) k = Some a \<longrightarrow> b_last (heap m ! a) \<le> t"
  shows "buckets (sweepReclaimable t' (sweepReclaimable t m)) = buckets (sweepReclaimable t' m)"
    "quotas (sweepReclaimable t' (sweepReclaimable t m)) = quotas (sweepReclaimable t' m)"
proof -
  have "\<not> reclaimable t' (heap m ! a) \<Longrightarrow> \<not> reclaimable t (heap m ! a)" if "(k, a) \<in> set (buckets m)" for k a
    using reclaimable_mono [of t "heap m ! a" t'] assms(2,3) in_set_gget [OF assms(1) that] by blast
  then show "buckets (sweepReclaimable t' (sweepReclaimable t m)) = buckets (sweepReclaimable t' m)"
    by (auto simp: sweepReclaimable_def gfilter_def intro!: filter_cong)
  show "quotas (sweepReclaimable t' (sweepReclaimable t m)) = quotas (sweepReclaimable t' m)"
    using assms(2) by (auto simp: sweepReclaimable_def gfilter_def intro!: filter_cong)
qed

lemma swept_sweep:
  assumes "swept t m m'"
  shows "buckets (sweepReclaimable t m') = buckets (sweepReclaimable t m)"
    "quotas (sweepReclaimable t m') = quotas (sweepReclaimable t m)"
proof -
  have "swept t m (sweepReclaimable t m')"
    by (rule swept_trans [OF assms]) (simp add: swept_def)
  moreover have "buckets (sweepReclaimable t m') = buckets (sweepReclaimable t m)
      \<and> quotas (sweepReclaimable t m') = quotas (sweepReclaimable t m)"
    using assms sweep_cong [of m' m t] sweep_cong [of m' "sweepReclaimable t m" t] sweep_idem [of t m]
    by (auto simp: swept_def)
  ultimately show "buckets (sweepReclaimable t m') = buckets (sweepReclaimable t m)"
    "quotas (sweepReclaimable t m') = quotas (sweepReclaimable t m)" by simp_all
qed

text \<open>The verdict of a charge, with the sweep that may run inside it taken out.\<close>

definition verdict :: "gotime \<Rightarrow> string \<Rightarrow> i64 \<Rightarrow> i64 \<Rightarrow> i64 \<Rightarrow> lim_Memory \<Rightarrow> bool" where
  "verdict t key cost rate burst m =
     (case gget (buckets m) key of
        Some a \<Rightarrow> if reclaimable t (heap m ! a) then float_of_int cost \<le> float_of_int burst
                  else snd (charge_bucket t cost rate burst (heap m ! a))
      | None \<Rightarrow> lim_count (sweepReclaimable t m) < lim_maxEntries m
          \<and> float_of_int cost \<le> float_of_int burst)"

lemma fresh_charge:
  "snd (charge_bucket t cost rate burst
      \<lparr>tokens = float_of_int burst, b_last = t, b_pending = p, b_ratePerMin = r, b_burst = u\<rparr>)
   \<longleftrightarrow> float_of_int cost \<le> float_of_int burst"
  by (rule charge_reclaimable, unfold fresh_refilled) (simp add: float_of_int_def)

definition key_known :: "string \<Rightarrow> i64 \<Rightarrow> i64 \<Rightarrow> lim_Memory \<Rightarrow> bool" where
  "key_known key rate burst m \<longleftrightarrow> (\<forall>a. gget (buckets m) key = Some a \<longrightarrow>
     b_ratePerMin (heap m ! a) = rate \<and> b_burst (heap m ! a) = burst)"

definition not_after :: "gotime \<Rightarrow> lim_Memory \<Rightarrow> bool" where
  "not_after t m \<longleftrightarrow> (\<forall>k a. gget (buckets m) k = Some a \<longrightarrow> b_last (heap m ! a) \<le> t)"

lemma allowRate_verdict:
  assumes "lim_ok m" "lim_within m" "key_known key rate burst m" "not_after t m"
  shows "snd (fst (allowRate t key cost rate burst m)) = verdict t key cost rate burst m"
proof -
  let ?m = "lim_tick t m"
  have sw: "swept t m ?m" by (rule lim_tick_swept)
  have h: "heap ?m = heap m" "lim_maxEntries ?m = lim_maxEntries m" using sw by (simp_all add: swept_def)
  have cnt: "lim_count (sweepReclaimable t ?m) = lim_count (sweepReclaimable t m)"
    by (simp add: lim_count_def swept_sweep [OF sw])
  have full: "snd (fst (allowRate t key cost rate burst m))
      \<longleftrightarrow> lim_count (sweepReclaimable t m) < lim_maxEntries m \<and> float_of_int cost \<le> float_of_int burst"
    if "gget (buckets ?m) key = None"
  proof -
    obtain ok m2 where adm: "lim_admit t ?m = (ok, m2)" by fastforce
    then have "ok \<longleftrightarrow> lim_count (sweepReclaimable t m) < lim_maxEntries m"
      using lim_admit_iff [of t ?m] cnt h by simp
    then show ?thesis using that adm
      by (cases ok) (auto simp: allowRate_def find_bucket_def new_bucket_def nth_append fresh_charge case_prod_unfold)
  qed
  show ?thesis
  proof (cases "gget (buckets m) key")
    case None
    then have "gget (buckets ?m) key = None"
      using swept_bucket_sub [OF assms(1) sw, of key] by (cases "gget (buckets ?m) key") auto
    then show ?thesis using full None by (simp add: verdict_def)
  next
    case (Some a)
    have charge: "snd (fst (allowRate t key cost rate burst m)) = snd (charge_bucket t cost rate burst (heap m ! a))"
      if "gget (buckets ?m) key = Some a"
      using that h by (simp add: allowRate_def find_bucket_def case_prod_unfold)
    show ?thesis
    proof (cases "reclaimable t (heap m ! a)")
      case True
      then have "float_of_int burst \<le> refilled t rate (heap m ! a)"
        using assms(3) Some by (auto simp: reclaimable_def key_known_def)
      note ch = charge_reclaimable [OF this, of cost]
      have "lim_count (sweepReclaimable t m) < lim_maxEntries m"
        using sweep_drops_bucket [OF Some True] assms(2) by (simp add: lim_within_def)
      then show ?thesis using full charge ch Some True
        swept_bucket_sub [OF assms(1) sw, of key] by (cases "gget (buckets ?m) key") (auto simp: verdict_def)
    next
      case False
      then have "gget (buckets ?m) key = Some a"
        using sw Some lim_ok_D(1) [OF assms(1)] by (auto simp: swept_def gget_sweep_buckets)
      then show ?thesis using charge False Some by (simp add: verdict_def)
    qed
  qed
qed

lemma verdict_sweep:
  assumes "lim_ok m" "lim_within m" "not_after t m" "t \<le> t'"
  shows "verdict t' key cost rate burst (sweepReclaimable t m) = verdict t' key cost rate burst m"
proof -
  have last: "\<forall>k a. gget (buckets m) k = Some a \<longrightarrow> b_last (heap m ! a) \<le> t"
    using assms(3) by (simp add: not_after_def)
  have cnt: "lim_count (sweepReclaimable t' (sweepReclaimable t m)) = lim_count (sweepReclaimable t' m)"
    by (simp add: lim_count_def sweep_sweep [OF lim_ok_D(1) [OF assms(1)] assms(4) last])
  show ?thesis
  proof (cases "gget (buckets m) key")
    case None
    then show ?thesis using cnt lim_ok_D(1) [OF assms(1)]
      by (simp add: verdict_def gget_sweep_buckets)
  next
    case (Some a)
    show ?thesis
    proof (cases "reclaimable t (heap m ! a)")
      case False
      then show ?thesis using Some lim_ok_D(1) [OF assms(1)] by (simp add: verdict_def gget_sweep_buckets)
    next
      case True
      have r': "reclaimable t' (heap m ! a)" using reclaimable_mono [OF True _ assms(4)] last Some by blast
      have "lim_count (sweepReclaimable t' m) < lim_maxEntries m"
        using sweep_drops_bucket [OF Some r'] assms(2) by (simp add: lim_within_def)
      then show ?thesis using Some True r' cnt lim_ok_D(1) [OF assms(1)]
        by (simp add: verdict_def gget_sweep_buckets)
    qed
  qed
qed

lemma sweep_ok: "lim_ok m \<Longrightarrow> lim_ok (sweepReclaimable t m)"
  by (erule swept_ok [where t = t]) (simp add: swept_def)

lemma sweep_within: "lim_within m \<Longrightarrow> lim_within (sweepReclaimable t m)"
  using sweep_count_le [of t m] by (simp add: lim_within_def)

lemma AllowRate_sweep:
  assumes "lim_ok m" "lim_within m" "key_known key rate burst m" "not_after t m" "t \<le> t'"
  shows "fst (AllowRate t' key cost rate burst (sweepReclaimable t m)) = fst (AllowRate t' key cost rate burst m)"
proof -
  have "not_after t' m" using assms(4,5) by (force simp: not_after_def)
  then have a: "snd (fst (allowRate t' key cost rate burst m)) = verdict t' key cost rate burst m"
    by (rule allowRate_verdict [OF assms(1-3)])
  have "key_known key rate burst (sweepReclaimable t m)" "not_after t' (sweepReclaimable t m)"
    using assms(3) \<open>not_after t' m\<close> lim_ok_D(1) [OF assms(1)]
    by (auto simp: key_known_def not_after_def gget_sweep_buckets split: option.splits if_splits)
  then have b: "snd (fst (allowRate t' key cost rate burst (sweepReclaimable t m)))
      = verdict t' key cost rate burst (sweepReclaimable t m)"
    by (intro allowRate_verdict sweep_ok sweep_within assms)
  show ?thesis
    using a b verdict_sweep [OF assms(1,2,4,5), of key cost rate burst]
    by (simp add: AllowRate_def case_prod_unfold)
qed

lemma fl_half: "fl (1 / 2) = 1 / 2"
  by code_simp

lemma RateUsed_sweep:
  assumes "lim_ok m" "key_known key rate burst m" "not_after t m" "t \<le> t'"
  shows "RateUsed t' key rate burst (sweepReclaimable t m) = RateUsed t' key rate burst m"
proof (cases "gget (buckets m) key")
  case None
  then show ?thesis using lim_ok_D(1) [OF assms(1)] by (simp add: RateUsed_def gget_sweep_buckets)
next
  case (Some a)
  show ?thesis
  proof (cases "reclaimable t (heap m ! a)")
    case False
    then show ?thesis using Some lim_ok_D(1) [OF assms(1)] by (simp add: RateUsed_def gget_sweep_buckets)
  next
    case True
    have "float_of_int burst \<le> refilled t' rate (heap m ! a)"
      using reclaimable_full(1) [OF True _ assms(4)] assms(2,3) Some by (auto simp: key_known_def not_after_def)
    then have capped: "(if refilled t' rate (heap m ! a) > float_of_int burst then float_of_int burst
        else refilled t' rate (heap m ! a)) = float_of_int burst" by simp
    have "\<not> float_of_int max_i64 \<le> 0"
      using fl_mono [of 1 "of_int max_i64"] fl_int [of 1] by (simp add: float_of_int_def max_i64_def)
    then have "RateUsed t' key rate burst m = 0"
      using Some by (simp add: RateUsed_def Let_def capped fsub_def fadd_def fl_half floor_eq_iff)
    moreover have "RateUsed t' key rate burst (sweepReclaimable t m) = 0"
      using Some True lim_ok_D(1) [OF assms(1)] by (simp add: RateUsed_def gget_sweep_buckets)
    ultimately show ?thesis by simp
  qed
qed

lemma quota_admit_sweep:
  assumes "lim_ok m" "not_after t m" "t \<le> t'"
  shows "fst (lim_admit t' (lim_tick t' (sweepReclaimable t m))) = fst (lim_admit t' (lim_tick t' m))"
proof -
  have last: "\<forall>k a. gget (buckets m) k = Some a \<longrightarrow> b_last (heap m ! a) \<le> t"
    using assms(2) by (simp add: not_after_def)
  show ?thesis
    using lim_tick_swept [of t' m] lim_tick_swept [of t' "sweepReclaimable t m"]
    by (simp add: lim_admit_iff lim_count_def swept_sweep [OF lim_tick_swept]
        sweep_sweep [OF lim_ok_D(1) [OF assms(1)] assms(3) last]) (simp add: swept_def)
qed

lemma CheckQuota_alt:
  "fst (CheckQuota t key est limit w m) =
     (if est < 0 then LimBlock else if limit \<le> 0 then LimAllow
      else if gget (quotas m) key = None \<and> \<not> fst (lim_admit t (lim_tick t m)) then LimBlock
      else if QuotaUsed t key w m > limit \<or> est > wrap64 (limit - QuotaUsed t key w m) then LimBlock else LimAllow)"
  by (cases "lim_admit t (lim_tick t m)")
     (auto simp: CheckQuota_def curWindow_def QuotaUsed_def Let_def split: option.splits bool.splits)

lemma CheckQuota_sweep:
  assumes "lim_ok m" "lim_within m" "not_after t m" "t \<le> t'"
  shows "fst (CheckQuota t' key est limit w (sweepReclaimable t m)) = fst (CheckQuota t' key est limit w m)"
proof -
  let ?s = "sweepReclaimable t m"
  have used: "QuotaUsed t' key w ?s = QuotaUsed t' key w m"
    using assms(4) lim_ok_D(2) [OF assms(1)]
    by (auto simp: QuotaUsed_def gget_sweep_quotas split: option.split)
  have "fst (lim_admit t' (lim_tick t' ?s))" if "gget (quotas m) key = Some q" "gget (quotas ?s) key = None" for q
  proof -
    have "\<not> t < q_windowEnd q" using that lim_ok_D(2) [OF assms(1)]
      by (auto simp: gget_sweep_quotas split: if_splits)
    then have "lim_count (sweepReclaimable t' m) < lim_count m"
      using assms(4) by (intro sweep_drops_quota [OF that(1)]) simp
    then have "fst (lim_admit t' (lim_tick t' m))"
      using assms(2) lim_tick_swept [of t' m]
      by (simp add: lim_admit_iff lim_count_def swept_sweep [OF lim_tick_swept] lim_within_def)
         (simp add: swept_def)
    then show ?thesis using quota_admit_sweep [OF assms(1,3,4)] by simp
  qed
  moreover have "gget (quotas ?s) key = None" if "gget (quotas m) key = None"
    using that lim_ok_D(2) [OF assms(1)] by (simp add: gget_sweep_quotas)
  ultimately show ?thesis
    using used quota_admit_sweep [OF assms(1,3,4)] by (cases "gget (quotas m) key") (auto simp: CheckQuota_alt)
qed

text \<open>A reservation is refused exactly when the plain check refuses.\<close>

lemma ReserveRate_None: "fst (ReserveRate t key cost rate burst m) = None \<longleftrightarrow> \<not> fst (AllowRate t key cost rate burst m)"
proof -
  have "snd (fst (allowRate t key cost rate burst m)) \<Longrightarrow> fst (fst (allowRate t key cost rate burst m)) \<noteq> None"
    by (cases "(t, cost, rate, burst, find_bucket t key burst (lim_tick t m))" rule: charge_found.cases)
      (simp_all add: allowRate_def case_prod_unfold)
  then show ?thesis
    by (auto simp: ReserveRate_def AllowRate_def case_prod_unfold split: option.splits bool.splits)
qed

section \<open>Properties\<close>

text \<open>
  C33: Reclaiming entries is unobservable. For a store and a clock that does not run backwards,
  a sweep at any earlier instant does not change the next answer about any key: whether a rate check
  or a rate reservation is granted, the verdict of a quota check, and the usage reported for the
  rate and for the quota, whether the key had an entry or not and also when the store is at
  capacity. The key has to be asked about with the rate and burst it was last charged with: after
  a change of the limit a swept bucket starts full at the new burst, a kept one does not.
\<close>

theorem sweep_is_unobservable:
  assumes "lim_ok m" "lim_within m" "not_after t m" "t \<le> t'"
    and "\<And>a. gget (buckets m) key = Some a \<Longrightarrow> b_ratePerMin (heap m ! a) = rate \<and> b_burst (heap m ! a) = burst"
  shows "fst (AllowRate t' key cost rate burst (sweepReclaimable t m)) = fst (AllowRate t' key cost rate burst m)
    \<and> (fst (ReserveRate t' key cost rate burst (sweepReclaimable t m)) = None \<longleftrightarrow> fst (ReserveRate t' key cost rate burst m) = None)
    \<and> fst (CheckQuota t' qkey est limit w (sweepReclaimable t m)) = fst (CheckQuota t' qkey est limit w m)
    \<and> RateUsed t' key rate burst (sweepReclaimable t m) = RateUsed t' key rate burst m
    \<and> QuotaUsed t' qkey w (sweepReclaimable t m) = QuotaUsed t' qkey w m"
proof -
  have "QuotaUsed t' qkey w (sweepReclaimable t m) = QuotaUsed t' qkey w m"
    using assms(4) lim_ok_D(2) [OF assms(1)]
    by (auto simp: QuotaUsed_def gget_sweep_quotas split: option.split)
  moreover have "key_known key rate burst m" using assms(5) by (simp add: key_known_def)
  ultimately show ?thesis
    using AllowRate_sweep [OF assms(1,2) _ assms(3,4)] CheckQuota_sweep [OF assms(1-4)]
      RateUsed_sweep [OF assms(1) _ assms(3,4)] unfolding ReserveRate_None by blast
qed

text \<open>A team's bucket drained at 1 s and full again at 61 s, and a quota window that has ended.\<close>

definition sample_limiter :: lim_Memory where
  "sample_limiter = ls_mem (fold lim_exec
     [EvAllow second ''rate:ml'' 60 60 60, EvDebitQuota second ''quota:ml'' 500 (10 * second)]
     \<lparr>ls_mem = lim_NewMemory, ls_fins = []\<rparr>)"

theorem sweep_is_unobservable_witness:
  "lim_count sample_limiter = 2 \<and> lim_count (sweepReclaimable (61 * second) sample_limiter) = 0
   \<and> fst (AllowRate (62 * second) ''rate:ml'' 60 60 60 (sweepReclaimable (61 * second) sample_limiter))
     = fst (AllowRate (62 * second) ''rate:ml'' 60 60 60 sample_limiter)
   \<and> (fst (ReserveRate (62 * second) ''rate:ml'' 60 60 60 (sweepReclaimable (61 * second) sample_limiter)) = None
      \<longleftrightarrow> fst (ReserveRate (62 * second) ''rate:ml'' 60 60 60 sample_limiter) = None)"
proof -
  have ok: "lim_ok sample_limiter" and w: "lim_within sample_limiter"
    unfolding sample_limiter_def
    by (rule pinned_D(1) [OF pinned_run [OF pinned_new]], rule lim_run_within [OF pinned_new lim_new_within])
  have b: "buckets sample_limiter = [(''rate:ml'', 0)]" "b_ratePerMin (heap sample_limiter ! 0) = 60"
    "b_burst (heap sample_limiter ! 0) = 60" "b_last (heap sample_limiter ! 0) = second"
    by code_simp+
  have "not_after (61 * second) sample_limiter"
    "\<And>a. gget (buckets sample_limiter) ''rate:ml'' = Some a \<Longrightarrow>
       b_ratePerMin (heap sample_limiter ! a) = 60 \<and> b_burst (heap sample_limiter ! a) = 60"
    by (auto simp: not_after_def b gomap second_def split: if_splits)
  from sweep_is_unobservable [OF ok w this(1) _ this(2), where t' = "62 * second" and cost = 60]
  show ?thesis by (intro conjI) (code_simp, code_simp, simp add: second_def, simp add: second_def)
qed

text \<open>
  C8: In every run of the limiter a reservation keeps its bucket: until it is finished, its key
  is bound to the very bucket that was charged, no sweep and no other caller can detach it, the
  bucket counts exactly its open reservations, and the store never holds more entries than its
  capacity. Finishing settles that bucket once: finishing again changes nothing.
\<close>

theorem reservation_keeps_its_bucket:
  assumes "s = fold lim_exec es \<lparr>ls_mem = lim_NewMemory, ls_fins = []\<rparr>"
    and "i < length (ls_fins s)" "ls_fins s ! i = (key, f)" "fin_bucket f = Some a" "\<not> fin_done f"
  shows "gget (buckets (ls_mem s)) key = Some a
    \<and> b_pending (heap (ls_mem s) ! a) = opens a (ls_fins s)
    \<and> lim_count (ls_mem s) \<le> lim_maxEntries (ls_mem s)
    \<and> heap (ls_mem (lim_exec (EvFinish i actual) s)) ! a = true_up (fin_cost f) actual (heap (ls_mem s) ! a)
    \<and> lim_exec (EvFinish i again) (lim_exec (EvFinish i actual) s) = lim_exec (EvFinish i actual) s"
proof -
  have p: "pinned s" unfolding assms(1) by (rule pinned_run [OF pinned_new])
  have w: "lim_within (ls_mem s)"
    unfolding assms(1) by (rule lim_run_within [OF pinned_new lim_new_within])
  have f: "(key, f) \<in> set (ls_fins s)" "is_open a f"
    using assms(2-5) by (auto simp: is_open_def in_set_conv_nth)
  have a: "a < length (heap (ls_mem s))" by (rule pinned_open_in_heap [OF p f])
  have "list_update (ls_fins s) i (key, f\<lparr>fin_done := True\<rparr>) ! i = (key, f\<lparr>fin_done := True\<rparr>)"
    using assms(2) by simp
  then show ?thesis
    using pinned_D(3) [OF p f] pinned_D(2) [OF p a] w a assms(2-5)
    by (simp add: lim_within_def finish_rate_def list_update_same_conv)
qed

theorem reservation_keeps_its_bucket_witness:
  "let s = fold lim_exec [EvReserve second ''tpm:ml'' 400 6000 6000, EvAllow (2 * second) ''tpm:ml'' 100 6000 6000]
         \<lparr>ls_mem = lim_NewMemory, ls_fins = []\<rparr>
   in gget (buckets (ls_mem s)) ''tpm:ml'' = Some 0 \<and> b_pending (heap (ls_mem s) ! 0) = 1"
proof -
  define s where "s = fold lim_exec [EvReserve second ''tpm:ml'' 400 6000 6000, EvAllow (2 * second) ''tpm:ml'' 100 6000 6000]
         \<lparr>ls_mem = lim_NewMemory, ls_fins = []\<rparr>"
  have f: "ls_fins s = [(''tpm:ml'', \<lparr>fin_bucket = Some 0, fin_cost = 400, fin_done = False\<rparr>)]"
    unfolding s_def by code_simp
  have "gget (buckets (ls_mem s)) ''tpm:ml'' = Some 0 \<and> b_pending (heap (ls_mem s) ! 0) = opens 0 (ls_fins s)"
    using reservation_keeps_its_bucket [OF s_def, of 0 "''tpm:ml''" _ 0] f by simp
  moreover have "opens 0 (ls_fins s) = 1" by (simp add: f opens_def is_open_def)
  ultimately show ?thesis unfolding s_def [symmetric] Let_def by simp
qed

end
