(* ===== verification/Governance_Types.thy ===== *)
theory Governance_Types
  imports Pricing Budget Limiter_Rates Audit_Ref
begin

text \<open>
  The governor of \<open>src/internal/governance\<close>: the limits a request is held to, the state it
  keeps, where a denial comes from (\<open>denial.go\<close>), and how limits are built from the
  configuration (\<open>fromconfig.go\<close>). The dynamic lookups, the lease gate and the notification
  hooks are fields of the governor that other packages install; they are arguments here, and
  the notifications a call sends are recorded in order. Prometheus metrics are not modelled.
\<close>

section \<open>Subjects and limits\<close>

record Subject =
  sub_Team :: string
  sub_KeyID :: string
  sub_User :: string

record LimitSource =
  ls_Source :: string
  ls_Policy :: "PolicyRuleRef option"

record TeamSources =
  src_Rate :: LimitSource
  src_TokenRate :: LimitSource
  src_Quota :: LimitSource
  src_Budget :: LimitSource
  src_BudgetDay :: LimitSource

record UserSources =
  usrc_Budget :: LimitSource
  usrc_BudgetDay :: LimitSource

record TeamPolicy =
  tp_RatePerMin :: i64
  tp_RateBurst :: i64
  tp_TokensPerMinute :: i64
  tp_TokensPerDay :: i64
  tp_QuotaExceeded :: string
  tp_BudgetMicrosPerMonth :: i64
  tp_BudgetExceeded :: string
  tp_BudgetMicrosPerDay :: i64
  tp_BudgetDayExceeded :: string
  tp_AdminContact :: string
  tp_Sources :: TeamSources

record KeyPolicy =
  kp_RatePerMin :: i64
  kp_TokensPerMinute :: i64
  kp_BudgetMicrosPerMonth :: i64
  kp_BudgetMicrosPerDay :: i64

record UserPolicy =
  up_BudgetMicrosPerMonth :: i64
  up_BudgetMicrosPerDay :: i64
  up_BudgetExceeded :: string
  up_AdminContact :: string
  up_Sources :: UserSources

section \<open>The governor\<close>

text \<open>
  What is installed at startup. \<open>cf_shared\<close> says that a shared authority is installed,
  \<open>cf_notifyBudget\<close> and \<open>cf_notifyKeyBudget\<close> that the alert hooks are. The lease gate
  answers with the reason when it blocks.
\<close>

record GovCfg =
  cf_shared :: bool
  cf_teams :: "(string, TeamPolicy) gomap"
  cf_lookup :: "(string \<Rightarrow> TeamPolicy option) option"
  cf_userLookup :: "(string \<Rightarrow> string \<Rightarrow> UserPolicy option) option"
  cf_leaseGate :: "(string \<Rightarrow> string option) option"
  cf_notifyBudget :: bool
  cf_notifyKeyBudget :: bool
  cf_budgetLoc :: "Location option"

record localMoneyState =
  lm_ends :: gotime
  lm_held :: i64
  lm_frozen :: bool

datatype notification =
    TeamBudgetNote string i64 i64
  | KeyBudgetNote string string i64 i64

text \<open>
  The mutable state. Permits keep pointers to their liability states, so those live in a heap
  (\<open>gv_states\<close>) and the map holds addresses. Every store call reads the clock once more:
  reading number \<open>n\<close> of a run is \<open>clk n\<close> for an arbitrary clock \<open>clk\<close>, an argument of the
  operations, and \<open>gv_reads\<close> counts the readings made so far.
\<close>

record gov =
  gv_lim :: lim_Memory
  gv_bud :: Memory
  gv_money :: "(string, nat) gomap"
  gv_states :: "localMoneyState list"
  gv_notes :: "notification list"
  gv_reads :: nat

type_synonym clock = "nat \<Rightarrow> gotime"

definition NewGovernor :: "lim_Memory \<Rightarrow> Memory \<Rightarrow> gov" where
  "NewGovernor lstore bud = \<lparr>gv_lim = lstore, gv_bud = bud, gv_money = [], gv_states = [], gv_notes = [], gv_reads = 0\<rparr>"

section \<open>Calls of the stores\<close>

definition bud_Check :: "clock \<Rightarrow> string \<Rightarrow> i64 \<Rightarrow> i64 \<Rightarrow> Window \<Rightarrow> gov \<Rightarrow> Decision \<times> gov" where
  "bud_Check clk key est limit w g =
     (let r = Check (clk (gv_reads g)) key est limit w (gv_bud g)
      in (fst r, g\<lparr>gv_bud := snd r, gv_reads := Suc (gv_reads g)\<rparr>))"

definition bud_Spent :: "clock \<Rightarrow> string \<Rightarrow> Window \<Rightarrow> gov \<Rightarrow> i64 \<times> gov" where
  "bud_Spent clk key w g =
     (let r = Spent (clk (gv_reads g)) key w (gv_bud g)
      in (fst r, g\<lparr>gv_bud := snd r, gv_reads := Suc (gv_reads g)\<rparr>))"

definition bud_ResetsAt :: "clock \<Rightarrow> string \<Rightarrow> Window \<Rightarrow> gov \<Rightarrow> gotime \<times> gov" where
  "bud_ResetsAt clk key w g =
     (let r = ResetsAt (clk (gv_reads g)) (clk (Suc (gv_reads g))) key w (gv_bud g)
      in (fst r, g\<lparr>gv_bud := snd r, gv_reads := Suc (Suc (gv_reads g))\<rparr>))"

definition bud_Debit :: "clock \<Rightarrow> string \<Rightarrow> i64 \<Rightarrow> Window \<Rightarrow> gov \<Rightarrow> gov" where
  "bud_Debit clk key n w g =
     g\<lparr>gv_bud := Debit (clk (gv_reads g)) key n w (gv_bud g), gv_reads := Suc (gv_reads g)\<rparr>"

definition lim_AllowRate :: "clock \<Rightarrow> string \<Rightarrow> i64 \<Rightarrow> i64 \<Rightarrow> i64 \<Rightarrow> gov \<Rightarrow> bool \<times> gov" where
  "lim_AllowRate clk key cost rate burst g =
     (let r = AllowRate (clk (gv_reads g)) key cost rate burst (gv_lim g)
      in (fst r, g\<lparr>gv_lim := snd r, gv_reads := Suc (gv_reads g)\<rparr>))"

definition lim_ReserveRate :: "clock \<Rightarrow> string \<Rightarrow> i64 \<Rightarrow> i64 \<Rightarrow> i64 \<Rightarrow> gov \<Rightarrow> finisher option \<times> gov" where
  "lim_ReserveRate clk key cost rate burst g =
     (let r = ReserveRate (clk (gv_reads g)) key cost rate burst (gv_lim g)
      in (fst r, g\<lparr>gv_lim := snd r, gv_reads := Suc (gv_reads g)\<rparr>))"

definition lim_CheckQuota :: "clock \<Rightarrow> string \<Rightarrow> i64 \<Rightarrow> i64 \<Rightarrow> duration \<Rightarrow> gov \<Rightarrow> lim_Decision \<times> gov" where
  "lim_CheckQuota clk key est limit w g =
     (let r = CheckQuota (clk (gv_reads g)) key est limit w (gv_lim g)
      in (fst r, g\<lparr>gv_lim := snd r, gv_reads := Suc (gv_reads g)\<rparr>))"

definition lim_DebitQuota :: "clock \<Rightarrow> string \<Rightarrow> i64 \<Rightarrow> duration \<Rightarrow> gov \<Rightarrow> gov" where
  "lim_DebitQuota clk key n w g =
     g\<lparr>gv_lim := DebitQuota (clk (gv_reads g)) key n w (gv_lim g), gv_reads := Suc (gv_reads g)\<rparr>"

definition lim_QuotaUsed :: "clock \<Rightarrow> string \<Rightarrow> duration \<Rightarrow> gov \<Rightarrow> i64 \<times> gov" where
  "lim_QuotaUsed clk key w g =
     (QuotaUsed (clk (gv_reads g)) key w (gv_lim g), g\<lparr>gv_reads := Suc (gv_reads g)\<rparr>)"

definition lim_RateUsed :: "clock \<Rightarrow> string \<Rightarrow> i64 \<Rightarrow> i64 \<Rightarrow> gov \<Rightarrow> i64 \<times> gov" where
  "lim_RateUsed clk key rate burst g =
     (RateUsed (clk (gv_reads g)) key rate burst (gv_lim g), g\<lparr>gv_reads := Suc (gv_reads g)\<rparr>)"

section \<open>Where a limit comes from\<close>

definition no_source :: LimitSource where
  "no_source = \<lparr>ls_Source = [], ls_Policy = None\<rparr>"

definition source_named :: "string \<Rightarrow> LimitSource" where
  "source_named s = \<lparr>ls_Source = s, ls_Policy = None\<rparr>"

definition ConfigSources :: TeamSources where
  "ConfigSources = (let c = source_named GovSourceConfig in
     \<lparr>src_Rate = c, src_TokenRate = c, src_Quota = c, src_Budget = c, src_BudgetDay = c\<rparr>)"

definition keySource :: LimitSource where
  "keySource = source_named GovSourceKey"

definition limitRef :: "string \<Rightarrow> string \<Rightarrow> LimitSource \<Rightarrow> GovernanceRef" where
  "limitRef scope limit src =
     \<lparr>ref_Scope = scope, ref_Limit = limit, ref_Source = ls_Source src, ref_Policy = ls_Policy src\<rparr>"

definition denial :: "string \<Rightarrow> string \<Rightarrow> LimitSource \<Rightarrow> GovernanceRef" where
  "denial scope limit src = limitRef scope limit src"

definition budgetDenial :: "string \<Rightarrow> string \<Rightarrow> LimitSource \<Rightarrow> Decision \<Rightarrow> GovernanceRef" where
  "budgetDenial scope limit src dec =
     denial scope limit (if dec = BlockCapacity then source_named GovSourceBudgetStore else src)"

definition PricingDenial :: GovernanceRef where
  "PricingDenial = denial GovScopeGateway GovLimitPricing (source_named GovSourceConfig)"

text \<open>
  The errors a money admission may return. A \<open>BudgetDenial\<close> wraps its sentinel and names the
  binding limit, a \<open>SharedDenial\<close> carries its own.
\<close>

datatype admission_error =
    ErrLocalBudgetExhausted
  | ErrAuthorityUnavailable
  | ErrAuthorityExhausted
  | ErrAuthorityInvalid
  | ErrSharedUnavailable
  | BudgetDenial admission_error "GovernanceRef option"
  | SharedDenial i64 string i64 "GovernanceRef option"

fun DenialGovernance :: "admission_error \<Rightarrow> GovernanceRef option" where
  "DenialGovernance (BudgetDenial e ref) = ref"
| "DenialGovernance (SharedDenial st reason retry ref) = ref"
| "DenialGovernance _ = None"

text \<open>\<open>errors.Is\<close>: the error itself, or a sentinel it wraps.\<close>

fun error_Is :: "admission_error \<Rightarrow> admission_error \<Rightarrow> bool" where
  "error_Is (BudgetDenial e ref) target = (BudgetDenial e ref = target \<or> error_Is e target)"
| "error_Is e target = (e = target)"

section \<open>Limits from the configuration\<close>

record ConfigTeam =
  ct_RatePerMin :: i64
  ct_TokensPerMinute :: i64
  ct_TokensPerDay :: i64
  ct_QuotaExceeded :: string
  ct_BudgetUSDPerMonth :: float64
  ct_BudgetUSDPerDay :: float64
  ct_BudgetExceeded :: string

record Limits =
  lt_RatePerMin :: i64
  lt_TokensPerMinute :: i64
  lt_TokensPerDay :: i64
  lt_QuotaExceeded :: string
  lt_BudgetMicrosPerMonth :: i64
  lt_BudgetExceeded :: string
  lt_BudgetMicrosPerDay :: i64
  lt_BudgetDayExceeded :: string
  lt_Sources :: TeamSources

definition PolicyFromLimits :: "Limits \<Rightarrow> TeamPolicy" where
  "PolicyFromLimits l =
     (let burst = (if lt_RatePerMin l \<le> 0 then 1 else lt_RatePerMin l) in
      \<lparr>tp_RatePerMin = lt_RatePerMin l, tp_RateBurst = burst, tp_TokensPerMinute = lt_TokensPerMinute l,
       tp_TokensPerDay = lt_TokensPerDay l, tp_QuotaExceeded = lt_QuotaExceeded l,
       tp_BudgetMicrosPerMonth = lt_BudgetMicrosPerMonth l, tp_BudgetExceeded = lt_BudgetExceeded l,
       tp_BudgetMicrosPerDay = lt_BudgetMicrosPerDay l, tp_BudgetDayExceeded = lt_BudgetDayExceeded l,
       tp_AdminContact = [], tp_Sources = lt_Sources l\<rparr>)"

text \<open>\<open>math.Round\<close>: half away from zero.\<close>

definition math_Round :: "float64 \<Rightarrow> int" where
  "math_Round x = (if 0 \<le> x then \<lfloor>x + 1 / 2\<rfloor> else - \<lfloor>- x + 1 / 2\<rfloor>)"

definition usdToMicros :: "float64 \<Rightarrow> i64" where
  "usdToMicros usd = math_Round (fmul usd 1000000)"

definition PoliciesFromConfig :: "(string, ConfigTeam) gomap \<Rightarrow> (string, TeamPolicy) gomap" where
  "PoliciesFromConfig cfg =
     gmapv (\<lambda>_ c. PolicyFromLimits
       \<lparr>lt_RatePerMin = ct_RatePerMin c, lt_TokensPerMinute = ct_TokensPerMinute c,
        lt_TokensPerDay = ct_TokensPerDay c, lt_QuotaExceeded = ct_QuotaExceeded c,
        lt_BudgetMicrosPerMonth = usdToMicros (ct_BudgetUSDPerMonth c),
        lt_BudgetExceeded = ct_BudgetExceeded c,
        lt_BudgetMicrosPerDay = usdToMicros (ct_BudgetUSDPerDay c),
        lt_BudgetDayExceeded = ct_BudgetExceeded c, lt_Sources = ConfigSources\<rparr>) cfg"

section \<open>Resolving a subject's limits\<close>

definition policyOf :: "GovCfg \<Rightarrow> string \<Rightarrow> TeamPolicy option" where
  "policyOf cfg team =
     (case cf_lookup cfg of
        None \<Rightarrow> gget (cf_teams cfg) team
      | Some f \<Rightarrow> (case f team of Some p \<Rightarrow> Some p | None \<Rightarrow> gget (cf_teams cfg) team))"

definition userPolicyOf :: "GovCfg \<Rightarrow> Subject \<Rightarrow> UserPolicy option" where
  "userPolicyOf cfg s =
     (case cf_userLookup cfg of
        None \<Rightarrow> None
      | Some f \<Rightarrow> if sub_User s \<noteq> [] then f (sub_Team s) (sub_User s) else None)"

definition dayWindow :: "GovCfg \<Rightarrow> Window" where
  "dayWindow cfg = CalendarDayIn (cf_budgetLoc cfg)"

definition monthWindow :: "GovCfg \<Rightarrow> Window" where
  "monthWindow cfg = CalendarMonthIn (cf_budgetLoc cfg)"

definition budgetLocOrUTC :: "GovCfg \<Rightarrow> Location" where
  "budgetLocOrUTC cfg = (case cf_budgetLoc cfg of None \<Rightarrow> UTC | Some l \<Rightarrow> l)"

definition userBudgetID :: "Subject \<Rightarrow> string" where
  "userBudgetID s = sub_Team s @ ''/'' @ sub_User s"

definition PricingVersionOf :: "Table option \<Rightarrow> string" where
  "PricingVersionOf t = (case t of None \<Rightarrow> [] | Some t \<Rightarrow> Version t)"

definition max64 :: "i64 \<Rightarrow> i64 \<Rightarrow> i64" where
  "max64 a b = (if a > b then a else b)"

end
