(* ===== verification/Governance_Money.thy ===== *)
theory Governance_Money
  imports Governance_Types
begin

text \<open>
  Local money admission (\<open>src/internal/governance/local_money.go\<close>): the scopes a request
  spends from, the liabilities an attempt holds against them while its cost is unknown, and
  their settlement. The governor's mutex makes an admission and the state change of a
  settlement atomic.
\<close>

section \<open>Data\<close>

record localMoneyScope =
  sc_key :: string
  sc_win :: Window
  sc_limit :: i64
  sc_hard :: bool
  sc_gov :: GovernanceRef

record localMoneyHold =
  hd_state :: nat
  hd_amount :: i64

text \<open>A permit belongs to the attempt that holds it; \<open>lp_once\<close> says that its \<open>sync.Once\<close> has fired.\<close>

record LocalBudgetPermit =
  lp_once :: bool
  lp_holds :: "localMoneyHold list"
  lp_scopes :: "localMoneyScope list"
  lp_subject :: Subject

definition scope_exhausted :: "localMoneyScope \<Rightarrow> bool \<Rightarrow> admission_error" where
  "scope_exhausted s atCapacity =
     BudgetDenial ErrLocalBudgetExhausted (Some
       (if atCapacity
        then \<lparr>ref_Scope = ref_Scope (sc_gov s), ref_Limit = ref_Limit (sc_gov s),
              ref_Source = GovSourceBudgetStore, ref_Policy = None\<rparr>
        else sc_gov s))"

section \<open>The scopes of a request\<close>

definition add_scope :: "string \<Rightarrow> string \<Rightarrow> i64 \<Rightarrow> string \<Rightarrow> Window \<Rightarrow> GovernanceRef \<Rightarrow> localMoneyScope list" where
  "add_scope scope ident limit mode win ref =
     (if limit > 0
      then [\<lparr>sc_key = budget_Key scope ident win, sc_win = win, sc_limit = limit,
             sc_hard = (mode \<noteq> ''warn''), sc_gov = ref\<rparr>]
      else [])"

definition localMoneyScopes :: "GovCfg \<Rightarrow> Subject \<Rightarrow> KeyPolicy \<Rightarrow> localMoneyScope list" where
  "localMoneyScopes cfg s kp =
     (if cf_shared cfg then []
      else
        let month = monthWindow cfg; day = dayWindow cfg in
        (case policyOf cfg (sub_Team s) of
           None \<Rightarrow> []
         | Some p \<Rightarrow>
             add_scope ScopeTeam (sub_Team s) (tp_BudgetMicrosPerMonth p) (tp_BudgetExceeded p) month
               (limitRef GovScopeTeam GovLimitBudgetMonth (src_Budget (tp_Sources p)))
           @ add_scope ScopeTeam (sub_Team s) (tp_BudgetMicrosPerDay p) (tp_BudgetDayExceeded p) day
               (limitRef GovScopeTeam GovLimitBudgetDay (src_BudgetDay (tp_Sources p))))
      @ add_scope ScopeKey (sub_KeyID s) (kp_BudgetMicrosPerMonth kp) [] month
          (limitRef GovScopeKey GovLimitBudgetMonth keySource)
      @ add_scope ScopeKey (sub_KeyID s) (kp_BudgetMicrosPerDay kp) [] day
          (limitRef GovScopeKey GovLimitBudgetDay keySource)
      @ (case userPolicyOf cfg s of
           None \<Rightarrow> []
         | Some p \<Rightarrow>
             add_scope ScopeUser (userBudgetID s) (up_BudgetMicrosPerMonth p) (up_BudgetExceeded p) month
               (limitRef GovScopeUser GovLimitBudgetMonth (usrc_Budget (up_Sources p)))
           @ add_scope ScopeUser (userBudgetID s) (up_BudgetMicrosPerDay p) (up_BudgetExceeded p) day
               (limitRef GovScopeUser GovLimitBudgetDay (usrc_BudgetDay (up_Sources p)))))"

definition HasLocalBudget :: "GovCfg \<Rightarrow> Subject \<Rightarrow> KeyPolicy \<Rightarrow> bool" where
  "HasLocalBudget cfg s kp = (localMoneyScopes cfg s kp \<noteq> [])"

section \<open>Admission\<close>

text \<open>The state of a scope's current window: the one on record, or a new one.\<close>

definition money_state :: "string \<Rightarrow> gotime \<Rightarrow> gov \<Rightarrow> nat \<times> gov" where
  "money_state key ends g =
     (let a = gget (gv_money g) key in
      if a \<noteq> None \<and> lm_ends (gv_states g ! the a) = ends then (the a, g)
      else (length (gv_states g),
            g\<lparr>gv_states := gv_states g @ [\<lparr>lm_ends = ends, lm_held = 0, lm_frozen = False\<rparr>],
              gv_money := gput key (length (gv_states g)) (gv_money g)\<rparr>))"

text \<open>The body of the admission loop for one blocking scope, step by step.\<close>

fun claim_checked ::
  "localMoneyScope \<Rightarrow> i64 \<Rightarrow> bool \<Rightarrow> nat \<Rightarrow> i64 \<Rightarrow> Decision \<times> gov \<Rightarrow> (admission_error + localMoneyHold) \<times> gov" where
  "claim_checked sc bound bounded a spent0 (dec, g) =
     (if dec \<noteq> Allow then (Inl (scope_exhausted sc (dec = BlockCapacity)), g)
      else (Inr \<lparr>hd_state = a, hd_amount = (if bounded then bound else wrap64 (sc_limit sc - spent0))\<rparr>, g))"

fun claim_spent ::
  "clock \<Rightarrow> localMoneyScope \<Rightarrow> i64 \<Rightarrow> bool \<Rightarrow> nat \<Rightarrow> i64 \<times> gov \<Rightarrow> (admission_error + localMoneyHold) \<times> gov" where
  "claim_spent clk sc bound bounded a (spent0, g) =
     (let st = gv_states g ! a in
      if lm_frozen st \<or> spent0 \<ge> sc_limit sc \<or> lm_held st \<ge> wrap64 (sc_limit sc - spent0)
      then (Inl (scope_exhausted sc False), g)
      else claim_checked sc bound bounded a spent0
             (bud_Check clk (sc_key sc) (lm_held st) (sc_limit sc) (sc_win sc) g))"

fun claim_state ::
  "clock \<Rightarrow> localMoneyScope \<Rightarrow> i64 \<Rightarrow> bool \<Rightarrow> nat \<times> gov \<Rightarrow> (admission_error + localMoneyHold) \<times> gov" where
  "claim_state clk sc bound bounded (a, g) =
     claim_spent clk sc bound bounded a (bud_Spent clk (sc_key sc) (sc_win sc) g)"

fun claim_ends ::
  "clock \<Rightarrow> localMoneyScope \<Rightarrow> i64 \<Rightarrow> bool \<Rightarrow> gotime \<times> gov \<Rightarrow> (admission_error + localMoneyHold) \<times> gov" where
  "claim_ends clk sc bound bounded (ends, g) =
     claim_state clk sc bound bounded (money_state (sc_key sc) ends g)"

definition claim_scope ::
  "clock \<Rightarrow> localMoneyScope \<Rightarrow> i64 \<Rightarrow> bool \<Rightarrow> gov \<Rightarrow> (admission_error + localMoneyHold) \<times> gov" where
  "claim_scope clk sc bound bounded g =
     claim_ends clk sc bound bounded (bud_ResetsAt clk (sc_key sc) (sc_win sc) g)"

text \<open>The loop over the scopes, with its early return.\<close>

fun claim_all ::
  "clock \<Rightarrow> i64 \<Rightarrow> bool \<Rightarrow> localMoneyScope list \<Rightarrow> localMoneyHold list \<Rightarrow> gov
     \<Rightarrow> (admission_error + localMoneyHold list) \<times> gov"
and claim_next ::
  "clock \<Rightarrow> i64 \<Rightarrow> bool \<Rightarrow> localMoneyScope list \<Rightarrow> localMoneyHold list
     \<Rightarrow> (admission_error + localMoneyHold) \<times> gov \<Rightarrow> (admission_error + localMoneyHold list) \<times> gov" where
  "claim_all clk bound bounded [] holds g = (Inr holds, g)"
| "claim_all clk bound bounded (sc # scs) holds g =
     (if \<not> sc_hard sc then claim_all clk bound bounded scs holds g
      else claim_next clk bound bounded scs holds (claim_scope clk sc bound bounded g))"
| "claim_next clk bound bounded scs holds (Inl e, g) = (Inl e, g)"
| "claim_next clk bound bounded scs holds (Inr h, g) = claim_all clk bound bounded scs (holds @ [h]) g"

text \<open>A hold is added to its state; an addition that would overflow saturates and freezes it.\<close>

definition add_hold :: "localMoneyHold \<Rightarrow> gov \<Rightarrow> gov" where
  "add_hold h g =
     (let st = gv_states g ! hd_state h in
      g\<lparr>gv_states := (gv_states g)[hd_state h :=
          if hd_amount h > wrap64 (max_i64 - lm_held st)
          then st\<lparr>lm_held := max_i64, lm_frozen := True\<rparr>
          else st\<lparr>lm_held := lm_held st + hd_amount h\<rparr>]\<rparr>)"

text \<open>Evicting entries when the liability ledger is full: each entry reads the clock itself.\<close>

fun evict_entries :: "clock \<Rightarrow> (string, nat) gomap \<Rightarrow> gov \<Rightarrow> gov" where
  "evict_entries clk [] g = g"
| "evict_entries clk ((key, a) # es) g =
     (let st = gv_states g ! a;
          g1 = g\<lparr>gv_reads := Suc (gv_reads g)\<rparr>
      in evict_entries clk es
           (if \<not> clk (gv_reads g) < lm_ends st \<or> lm_held st = 0 \<and> \<not> lm_frozen st
            then g1\<lparr>gv_money := gdel key (gv_money g1)\<rparr> else g1))"

definition maxLocalMoney :: int where
  "maxLocalMoney = 100000"

definition ledger_full :: "localMoneyScope list \<Rightarrow> gov \<Rightarrow> bool" where
  "ledger_full sclist g \<longleftrightarrow> int (length (gv_money g)) + int (length sclist) > maxLocalMoney"

definition make_room :: "clock \<Rightarrow> localMoneyScope list \<Rightarrow> gov \<Rightarrow> gov" where
  "make_room clk sclist g = (if ledger_full sclist g then evict_entries clk (gv_money g) g else g)"

fun issue_permit ::
  "localMoneyScope list \<Rightarrow> Subject \<Rightarrow> (admission_error + localMoneyHold list) \<times> gov
     \<Rightarrow> (admission_error + LocalBudgetPermit option) \<times> gov" where
  "issue_permit sclist s (Inl e, g) = (Inl e, g)"
| "issue_permit sclist s (Inr holds, g) =
     (Inr (Some \<lparr>lp_once = False, lp_holds = holds, lp_scopes = sclist, lp_subject = s\<rparr>), fold add_hold holds g)"

definition ReserveLocalBudget ::
  "clock \<Rightarrow> GovCfg \<Rightarrow> Subject \<Rightarrow> KeyPolicy \<Rightarrow> i64 \<Rightarrow> bool \<Rightarrow> gov
     \<Rightarrow> (admission_error + LocalBudgetPermit option) \<times> gov" where
  "ReserveLocalBudget clk cfg s kp bound bounded g =
     (let sclist = localMoneyScopes cfg s kp in
      if sclist = [] then (Inr None, g)
      else if bound < 0 then (Inl ErrLocalBudgetExhausted, g)
      else if ledger_full sclist (make_room clk sclist g)
      then (Inl (BudgetDenial ErrLocalBudgetExhausted
              (Some (denial GovScopeGateway GovLimitBudget (source_named GovSourceBudgetStore)))),
            make_room clk sclist g)
      else issue_permit sclist s (claim_all clk bound bounded sclist [] (make_room clk sclist g)))"

section \<open>Settlement\<close>

definition debit_scopes :: "clock \<Rightarrow> i64 \<Rightarrow> localMoneyScope list \<Rightarrow> gov \<Rightarrow> gov" where
  "debit_scopes clk n sclist g = fold (\<lambda>sc. bud_Debit clk (sc_key sc) n (sc_win sc)) sclist g"

definition release_hold :: "bool \<Rightarrow> bool \<Rightarrow> localMoneyHold \<Rightarrow> gov \<Rightarrow> gov" where
  "release_hold full invalid h g =
     (let st = gv_states g ! hd_state h in
      if full \<and> \<not> invalid
      then g\<lparr>gv_states := (gv_states g)[hd_state h := st\<lparr>lm_held := wrap64 (lm_held st - hd_amount h)\<rparr>]\<rparr>
      else if invalid
      then g\<lparr>gv_states := (gv_states g)[hd_state h := st\<lparr>lm_frozen := True\<rparr>]\<rparr>
      else g)"

definition add_note :: "notification \<Rightarrow> gov \<Rightarrow> gov" where
  "add_note n g = g\<lparr>gv_notes := gv_notes g @ [n]\<rparr>"

fun note_spent :: "GovCfg \<Rightarrow> Subject \<Rightarrow> localMoneyScope \<Rightarrow> i64 \<times> gov \<Rightarrow> gov" where
  "note_spent cfg s sc (spent0, g) =
     (if sc_key sc = budget_Key ScopeTeam (sub_Team s) (sc_win sc)
      then if cf_notifyBudget cfg then add_note (TeamBudgetNote (sub_Team s) spent0 (sc_limit sc)) g else g
      else if sc_key sc = budget_Key ScopeKey (sub_KeyID s) (sc_win sc)
      then if cf_notifyKeyBudget cfg
           then add_note (KeyBudgetNote (sub_Team s) (sub_KeyID s) spent0 (sc_limit sc)) g else g
      else g)"

definition note_scope :: "clock \<Rightarrow> GovCfg \<Rightarrow> Subject \<Rightarrow> localMoneyScope \<Rightarrow> gov \<Rightarrow> gov" where
  "note_scope clk cfg s sc g =
     (if Kind (sc_win sc) \<noteq> CalMonth then g
      else note_spent cfg s sc (bud_Spent clk (sc_key sc) (sc_win sc) g))"

definition observed :: "i64 option \<Rightarrow> bool" where
  "observed actual = (case actual of None \<Rightarrow> False | Some n \<Rightarrow> 0 \<le> n)"

definition settle_money :: "clock \<Rightarrow> i64 option \<Rightarrow> bool \<Rightarrow> bool \<Rightarrow> LocalBudgetPermit \<Rightarrow> gov \<Rightarrow> gov" where
  "settle_money clk actual full invalid p g =
     fold (release_hold full invalid) (lp_holds p)
       (if observed actual then debit_scopes clk (the actual) (lp_scopes p) g else g)"

definition FinishLocalBudget ::
  "clock \<Rightarrow> GovCfg \<Rightarrow> i64 option \<Rightarrow> bool \<Rightarrow> bool \<Rightarrow> LocalBudgetPermit option \<Rightarrow> gov
     \<Rightarrow> LocalBudgetPermit option \<times> gov" where
  "FinishLocalBudget clk cfg actual full invalid permit g =
     (case permit of
        None \<Rightarrow> (None, g)
      | Some p \<Rightarrow>
          if lp_once p then (Some p, g)
          else (Some (p\<lparr>lp_once := True\<rparr>),
                if observed actual
                then fold (note_scope clk cfg (lp_subject p)) (lp_scopes p)
                       (settle_money clk actual full invalid p g)
                else settle_money clk actual full invalid p g))"

fun reserved_in :: "string \<Rightarrow> gotime \<times> gov \<Rightarrow> (i64 \<times> bool) \<times> gov" where
  "reserved_in key (ends, g) =
     (let a = gget (gv_money g) key in
      if a \<noteq> None \<and> lm_ends (gv_states g ! the a) = ends
      then ((lm_held (gv_states g ! the a), lm_frozen (gv_states g ! the a)), g)
      else ((0, False), g))"

definition localReserved :: "clock \<Rightarrow> string \<Rightarrow> Window \<Rightarrow> gov \<Rightarrow> (i64 \<times> bool) \<times> gov" where
  "localReserved clk key win0 g = reserved_in key (bud_ResetsAt clk key win0 g)"

end
