(* ===== verification/Governance_Overshoot.thy ===== *)
theory Governance_Overshoot
  imports Governance_Money
begin

text \<open>
  The overshoot contract of local money admission: within one budget window, whatever attempts
  overlap, a blocking scope is never charged past its limit by more than the bound of one
  attempt. The proof follows one store key through every admission and settlement.
\<close>

section \<open>The counter of a scope within one window\<close>

text \<open>
  The scope that is followed: its key, window, limit, the end of the window the run stays in,
  and a bound on what one attempt may hold.
\<close>

record followed =
  fo_key :: string
  fo_win :: Window
  fo_limit :: i64
  fo_ends :: gotime
  fo_bound :: i64

text \<open>The clock stays inside the window.\<close>

definition in_window :: "followed \<Rightarrow> clock \<Rightarrow> bool" where
  "in_window F clk \<longleftrightarrow> (\<forall>n. clk n < fo_ends F \<and> windowEnd (clk n) (fo_win F) = fo_ends F)"

definition entry_end :: "followed \<Rightarrow> Memory \<Rightarrow> bool" where
  "entry_end F b \<longleftrightarrow> (\<forall>v. gget (bm b) (fo_key F) = Some v \<longrightarrow> windowEnd_of v = fo_ends F)"

definition spent_of :: "followed \<Rightarrow> Memory \<Rightarrow> i64" where
  "spent_of F b = live_spend b (fo_key F) (fo_ends F - 1)"

lemma spent_of_live: "entry_end F b \<Longrightarrow> t < fo_ends F \<Longrightarrow> live_spend b (fo_key F) t = spent_of F b"
  by (auto simp: spent_of_def live_spend_def entry_end_def split: option.split)

lemma gget_tick:
  assumes "mem_ok b" "gget (bm (tick t b)) k = Some v"
  shows "gget (bm b) k = Some v"
  using assms
proof (cases rule: tick_cases [of t b])
  case 2
  then show ?thesis using assms gget_sweepExpired [OF mem_ok_sweepTick [OF assms(1), of 0], of t k]
    by (auto split: option.splits if_splits)
qed auto

lemma cur_gget:
  assumes ok: "mem_ok b" and "gget (bm (snd (cur t key w b))) k = Some v"
  shows "gget (bm b) k = Some v \<or> k = key \<and> v = \<lparr>spent = 0, windowEnd_of = windowEnd t w\<rparr>"
proof -
  have s: "gget (bm (sweepExpired t (tick t b))) k = Some v \<Longrightarrow> gget (bm (tick t b)) k = Some v" for k v
    using gget_sweepExpired [OF tick_ok [OF ok], of t t k] by (auto split: option.splits if_splits)
  show ?thesis
    using assms(2) gget_tick [OF ok, of t k v] s [of k v]
    by (auto simp: cur_def Let_def fresh_window_def gget_gput split: option.splits if_splits)
qed

lemma cur_follow:
  assumes "mem_ok b" "entry_end F b" "t < fo_ends F" "windowEnd t (fo_win F) = fo_ends F"
    and "key = fo_key F \<longrightarrow> w = fo_win F"
  shows "mem_ok (snd (cur t key w b)) \<and> entry_end F (snd (cur t key w b))
    \<and> spent_of F (snd (cur t key w b)) = spent_of F b"
proof -
  have e: "entry_end F (snd (cur t key w b))"
    using cur_gget [OF assms(1), of t key w] assms(2,4,5) by (fastforce simp: entry_end_def)
  moreover have "spent_of F (snd (cur t key w b)) = spent_of F b"
    using cur_live_spend [OF assms(1), of t key w "fo_key F"] spent_of_live [OF e assms(3)]
      spent_of_live [OF assms(2,3)] by simp
  ultimately show ?thesis using cur_ok [OF assms(1)] by simp
qed

lemma cur_Some_follow:
  assumes "mem_ok b" "entry_end F b" "t < fo_ends F" "windowEnd t (fo_win F) = fo_ends F"
    and "cur t (fo_key F) (fo_win F) b = (Some v, b')"
  shows "windowEnd_of v = fo_ends F"
  using cur_Some(1) [OF assms(1,5)] cur_follow [OF assms(1-4), of "fo_key F" "fo_win F"] assms(5)
  by (simp add: entry_end_def)

definition follows_bud :: "followed \<Rightarrow> gov \<Rightarrow> bool" where
  "follows_bud F g \<longleftrightarrow> mem_ok (gv_bud g) \<and> entry_end F (gv_bud g)"

definition gov_spent :: "followed \<Rightarrow> gov \<Rightarrow> i64" where
  "gov_spent F g = spent_of F (gv_bud g)"

text \<open>A store call that only looks leaves the followed counter and the liabilities alone.\<close>

definition looks :: "followed \<Rightarrow> gov \<Rightarrow> gov \<Rightarrow> bool" where
  "looks F g g' \<longleftrightarrow> follows_bud F g' \<and> gov_spent F g' = gov_spent F g
     \<and> gv_money g' = gv_money g \<and> gv_states g' = gv_states g"

lemma looks_trans: "looks F g g1 \<Longrightarrow> looks F g1 g2 \<Longrightarrow> looks F g g2"
  by (simp add: looks_def)

lemma store_call_looks:
  assumes "in_window F clk" "follows_bud F g" "key = fo_key F \<longrightarrow> w = fo_win F"
  shows "looks F g (snd (bud_Check clk key est limit w g))"
    "looks F g (snd (bud_Spent clk key w g))" "looks F g (snd (bud_ResetsAt clk key w g))"
proof -
  have t: "clk n < fo_ends F" "windowEnd (clk n) (fo_win F) = fo_ends F" for n
    using assms(1) by (simp_all add: in_window_def)
  note c = cur_follow [OF _ _ t assms(3)]
  show "looks F g (snd (bud_Check clk key est limit w g))"
    "looks F g (snd (bud_Spent clk key w g))" "looks F g (snd (bud_ResetsAt clk key w g))"
    using assms(2) c
    by (simp_all add: looks_def follows_bud_def gov_spent_def bud_Check_def bud_Spent_def bud_ResetsAt_def
        Let_def Check_snd Spent_snd ResetsAt_snd)
qed

lemma spent_of_bounds: "mem_ok b \<Longrightarrow> 0 \<le> spent_of F b \<and> spent_of F b \<le> max_i64"
  by (simp add: spent_of_def live_spend_bounds)

lemma bud_Spent_value:
  assumes "in_window F clk" "follows_bud F g"
  shows "fst (bud_Spent clk (fo_key F) w g) = gov_spent F g"
  using assms spent_of_live [of F "gv_bud g"]
  by (simp add: bud_Spent_def Let_def Spent_fst follows_bud_def gov_spent_def in_window_def)

lemma bud_ResetsAt_value:
  assumes "in_window F clk" "follows_bud F g"
  shows "fst (bud_ResetsAt clk (fo_key F) (fo_win F) g) = fo_ends F"
proof -
  have t: "clk n < fo_ends F" "windowEnd (clk n) (fo_win F) = fo_ends F" for n
    using assms(1) by (simp_all add: in_window_def)
  show ?thesis
    using cur_Some_follow [OF _ _ t, of "gv_bud g"] assms(2) t
    by (auto simp: bud_ResetsAt_def Let_def ResetsAt_def follows_bud_def split: prod.split option.split)
qed

lemma Debit_gget:
  assumes "mem_ok b" "gget (bm (Debit t key n w b)) k = Some v"
  shows "\<exists>v'. windowEnd_of v' = windowEnd_of v \<and>
    (gget (bm b) k = Some v' \<or> k = key \<and> v' = \<lparr>spent = 0, windowEnd_of = windowEnd t w\<rparr>)"
proof (cases "cur t key w b")
  case (Pair r b')
  have old: "gget (bm b') k = Some v' \<Longrightarrow> gget (bm b) k = Some v'
      \<or> k = key \<and> v' = \<lparr>spent = 0, windowEnd_of = windowEnd t w\<rparr>" for v'
    using cur_gget [OF assms(1), of t key w k v'] Pair by simp
  show ?thesis
  proof (cases "n < 0 \<or> r = None \<or> k \<noteq> key")
    case True
    then show ?thesis
      using assms(2) Pair old
      by (auto simp: Debit_def gget_gput split: option.splits if_splits)
  next
    case False
    then obtain bkt where r: "r = Some bkt" "k = key" "\<not> n < 0" by auto
    then have "gget (bm b') key = Some bkt" using cur_Some(1) [OF assms(1)] Pair by simp
    moreover have "windowEnd_of v = windowEnd_of bkt" using assms(2) Pair r by (auto simp: Debit_def)
    ultimately show ?thesis using old [of bkt] r by metis
  qed
qed

lemma Debit_follow:
  assumes "mem_ok b" "entry_end F b" "t < fo_ends F" "windowEnd t (fo_win F) = fo_ends F"
    and "key = fo_key F \<longrightarrow> w = fo_win F" "0 \<le> n"
  shows "mem_ok (Debit t key n w b)" "entry_end F (Debit t key n w b)"
    "spent_of F (Debit t key n w b) \<le> spent_of F b + (if key = fo_key F then n else 0)"
proof -
  show ok: "mem_ok (Debit t key n w b)" by (rule Debit_ok [OF assms(1)])
  show e: "entry_end F (Debit t key n w b)"
    using Debit_gget [OF assms(1), of t key n w "fo_key F"] assms(2,4,5)
    by (fastforce simp: entry_end_def)
  have "live_spend (Debit t key n w b) (fo_key F) t \<le> live_spend b (fo_key F) t + (if key = fo_key F then n else 0)"
  proof (cases "key = fo_key F")
    case False
    then show ?thesis using Debit_frame [OF assms(1), of "fo_key F" key t n w] by simp
  next
    case True
    show ?thesis
    proof (cases "cur t key w b")
      case (Pair r b')
      show ?thesis
      proof (cases r)
        case None
        then show ?thesis using cur_None(2) [OF assms(1), of t key w b' t] Pair True assms(6)
          by (simp add: Debit_def)
      next
        case (Some bkt)
        have "Debit t key n w b = b'\<lparr>bm := gput key (bkt\<lparr>spent := sat_add64 (live_spend b key t) n\<rparr>) (bm b')\<rparr>"
          using Debit_Some [OF assms(1) _ assms(6)] Pair Some by simp
        then have "live_spend (Debit t key n w b) key t \<le> max 0 (sat_add64 (live_spend b key t) n)"
          by (simp add: live_spend_def [of "_\<lparr>bm := _\<rparr>"])
        also have "\<dots> \<le> live_spend b key t + n"
          using live_spend_bounds [OF assms(1), of key t] assms(6) by (auto simp: sat_add64_def)
        finally show ?thesis using True by simp
      qed
    qed
  qed
  then show "spent_of F (Debit t key n w b) \<le> spent_of F b + (if key = fo_key F then n else 0)"
    using spent_of_live [OF e assms(3)] spent_of_live [OF assms(2,3)] by simp
qed

section \<open>Permits and their liabilities\<close>

record msys =
  ms_gov :: gov
  ms_permits :: "LocalBudgetPermit list"

text \<open>The holds of a permit, each with the blocking scope it was claimed for.\<close>

definition claims :: "LocalBudgetPermit \<Rightarrow> (localMoneyScope \<times> localMoneyHold) list" where
  "claims p = zip (filter sc_hard (lp_scopes p)) (lp_holds p)"

definition khold :: "followed \<Rightarrow> LocalBudgetPermit \<Rightarrow> i64" where
  "khold F p = sum_list (map (\<lambda>(sc, h). if sc_key sc = fo_key F then hd_amount h else 0) (claims p))"

text \<open>What unfinished attempts may still cost the followed scope.\<close>

definition open_amount :: "followed \<Rightarrow> LocalBudgetPermit list \<Rightarrow> i64" where
  "open_amount F ps = sum_list (map (\<lambda>p. if lp_once p then 0 else khold F p) ps)"

definition scope_ok :: "followed \<Rightarrow> localMoneyScope \<Rightarrow> bool" where
  "scope_ok F sc \<longleftrightarrow> (sc_key sc = fo_key F \<longrightarrow> sc_hard sc \<and> sc_limit sc = fo_limit F \<and> sc_win sc = fo_win F)"

definition claim_ok :: "followed \<Rightarrow> gov \<Rightarrow> bool \<Rightarrow> localMoneyScope \<Rightarrow> localMoneyHold \<Rightarrow> bool" where
  "claim_ok F g once sc h \<longleftrightarrow> hd_state h < length (gv_states g)
     \<and> (if sc_key sc = fo_key F
        then 0 \<le> hd_amount h \<and> (once \<or> hd_amount h = 0 \<or> gget (gv_money g) (fo_key F) = Some (hd_state h))
        else gget (gv_money g) (fo_key F) \<noteq> Some (hd_state h))"

definition permit_ok :: "followed \<Rightarrow> gov \<Rightarrow> LocalBudgetPermit \<Rightarrow> bool" where
  "permit_ok F g p \<longleftrightarrow> length (lp_holds p) = length (filter sc_hard (lp_scopes p))
     \<and> distinct (map sc_key (lp_scopes p)) \<and> (\<forall>sc\<in>set (lp_scopes p). scope_ok F sc)
     \<and> (\<forall>sc h. (sc, h) \<in> set (claims p) \<longrightarrow> claim_ok F g (lp_once p) sc h)"

definition ledger_ok :: "gov \<Rightarrow> bool" where
  "ledger_ok g \<longleftrightarrow> gwf (gv_money g)
     \<and> (\<forall>k a. gget (gv_money g) k = Some a \<longrightarrow> a < length (gv_states g))
     \<and> (\<forall>k k' a. gget (gv_money g) k = Some a \<and> gget (gv_money g) k' = Some a \<longrightarrow> k = k')"

text \<open>The liability on record covers what the unfinished attempts may cost, unless it is frozen.\<close>

definition covers :: "followed \<Rightarrow> i64 \<Rightarrow> gov \<Rightarrow> bool" where
  "covers F op g \<longleftrightarrow>
     (case gget (gv_money g) (fo_key F) of
        None \<Rightarrow> op = 0
      | Some a \<Rightarrow> lm_ends (gv_states g ! a) = fo_ends F
          \<and> (lm_frozen (gv_states g ! a)
             \<or> op \<le> lm_held (gv_states g ! a) \<and> lm_held (gv_states g ! a) \<le> max_i64))"

definition minv :: "followed \<Rightarrow> LocalBudgetPermit list \<Rightarrow> gov \<Rightarrow> bool" where
  "minv F ps g \<longleftrightarrow> follows_bud F g \<and> ledger_ok g \<and> (\<forall>p\<in>set ps. permit_ok F g p)
     \<and> covers F (open_amount F ps) g
     \<and> gov_spent F g + open_amount F ps \<le> fo_limit F - 1 + fo_bound F"

lemma minv_D:
  assumes "minv F ps g"
  shows "follows_bud F g" "ledger_ok g" "\<And>p. p \<in> set ps \<Longrightarrow> permit_ok F g p"
    "covers F (open_amount F ps) g" "gov_spent F g + open_amount F ps \<le> fo_limit F - 1 + fo_bound F"
  using assms by (auto simp: minv_def)

lemma khold_nonneg: "permit_ok F g p \<Longrightarrow> 0 \<le> khold F p"
  unfolding khold_def permit_ok_def claim_ok_def by (intro sum_list_nonneg) auto

lemma open_amount_nonneg: "\<forall>p\<in>set ps. permit_ok F g p \<Longrightarrow> 0 \<le> open_amount F ps"
  unfolding open_amount_def using khold_nonneg [of F g] by (intro sum_list_nonneg) auto

lemma open_amount_append [simp]:
  "open_amount F (ps @ [p]) = open_amount F ps + (if lp_once p then 0 else khold F p)"
  by (simp add: open_amount_def)

lemma open_amount_update:
  "i < length ps \<Longrightarrow> open_amount F (ps[i := p]) = open_amount F ps
     - (if lp_once (ps ! i) then 0 else khold F (ps ! i)) + (if lp_once p then 0 else khold F p)"
proof (induction ps arbitrary: i)
  case Nil
  then show ?case by simp
next
  case (Cons q ps)
  then show ?case by (cases i) (auto simp: open_amount_def)
qed

text \<open>Looking at the stores keeps the invariant.\<close>

lemma ledger_cong:
  assumes "gv_money g' = gv_money g" "gv_states g' = gv_states g"
  shows "permit_ok F g' p = permit_ok F g p" "ledger_ok g' = ledger_ok g" "covers F op g' = covers F op g"
  unfolding permit_ok_def claim_ok_def ledger_ok_def covers_def assms by simp_all

lemma looks_minv: "minv F ps g \<Longrightarrow> looks F g g' \<Longrightarrow> minv F ps g'"
  using ledger_cong [of g' g] by (simp add: minv_def looks_def)

section \<open>Admission\<close>

text \<open>The state of a scope's window is found or created; the followed scope's is never replaced.\<close>

lemma permit_ok_grow:
  assumes "permit_ok F g p" "length (gv_states g) \<le> length (gv_states g')"
    and "gget (gv_money g') (fo_key F) = gget (gv_money g) (fo_key F)
       \<or> gget (gv_money g) (fo_key F) = None \<and> gget (gv_money g') (fo_key F) = Some (length (gv_states g))"
  shows "permit_ok F g' p"
  using assms by (fastforce simp: permit_ok_def claim_ok_def split: if_splits)

lemma money_state_minv:
  assumes inv: "minv F ps g" and ends: "key = fo_key F \<longrightarrow> ends = fo_ends F"
    and ms: "money_state key ends g = (a, g')"
  shows "minv F ps g'" "gget (gv_money g') key = Some a" "gv_bud g' = gv_bud g"
    "\<And>k. k \<noteq> key \<Longrightarrow> gget (gv_money g') k = gget (gv_money g) k"
    "length (gv_states g) \<le> length (gv_states g')"
    "\<And>b. b < length (gv_states g) \<Longrightarrow> gv_states g' ! b = gv_states g ! b"
proof -
  let ?old = "gget (gv_money g) key"
  have led: "ledger_ok g" and cov: "covers F (open_amount F ps) g"
    using minv_D [OF inv] by blast+
  have "minv F ps g' \<and> gget (gv_money g') key = Some a \<and> gv_bud g' = gv_bud g
      \<and> (\<forall>k. k \<noteq> key \<longrightarrow> gget (gv_money g') k = gget (gv_money g) k)
      \<and> length (gv_states g) \<le> length (gv_states g')
      \<and> (\<forall>b. b < length (gv_states g) \<longrightarrow> gv_states g' ! b = gv_states g ! b)"
  proof (cases "?old \<noteq> None \<and> lm_ends (gv_states g ! the ?old) = ends")
    case True
    then show ?thesis
      using ms inv by (auto simp: money_state_def Let_def)
  next
    case False
    then have g': "a = length (gv_states g)"
      "g' = g\<lparr>gv_states := gv_states g @ [\<lparr>lm_ends = ends, lm_held = 0, lm_frozen = False\<rparr>],
              gv_money := gput key (length (gv_states g)) (gv_money g)\<rparr>"
      using ms by (auto simp: money_state_def Let_def split: if_splits)
    have none: "?old = None" if "key = fo_key F"
      using False that ends cov by (auto simp: covers_def split: option.splits)
    have p: "permit_ok F g' p" if "p \<in> set ps" for p
      using minv_D(3) [OF inv that] none by (rule_tac permit_ok_grow) (auto simp: g' gomap)
    have "ledger_ok g'" using led by (fastforce simp: ledger_ok_def g' gomap split: if_splits)
    moreover have "covers F (open_amount F ps) g'"
      using cov led ends none by (auto simp: covers_def g' gomap nth_append ledger_ok_def split: option.splits)
    moreover have "follows_bud F g'" "gov_spent F g' = gov_spent F g"
      using minv_D(1) [OF inv] by (simp_all add: follows_bud_def gov_spent_def g')
    ultimately have "minv F ps g'" using p minv_D(5) [OF inv] by (simp add: minv_def)
    then show ?thesis
      by (auto simp: g' nth_append)
  qed
  then show "minv F ps g'" "gget (gv_money g') key = Some a" "gv_bud g' = gv_bud g"
    "\<And>k. k \<noteq> key \<Longrightarrow> gget (gv_money g') k = gget (gv_money g) k"
    "length (gv_states g) \<le> length (gv_states g')"
    "\<And>b. b < length (gv_states g) \<Longrightarrow> gv_states g' ! b = gv_states g ! b"
    by blast+
qed

text \<open>What claiming a scope may touch: the entry of its own key, and fresh states.\<close>

definition touches :: "followed \<Rightarrow> string \<Rightarrow> gov \<Rightarrow> gov \<Rightarrow> bool" where
  "touches F key g g' \<longleftrightarrow> (\<forall>k. k \<noteq> key \<longrightarrow> gget (gv_money g') k = gget (gv_money g) k)
     \<and> length (gv_states g) \<le> length (gv_states g')
     \<and> (\<forall>b < length (gv_states g). gv_states g' ! b = gv_states g ! b)
     \<and> gov_spent F g' = gov_spent F g"

lemma looks_touches: "looks F g g' \<Longrightarrow> touches F key g g'"
  by (simp add: looks_def touches_def)

lemma touches_trans: "touches F key g g1 \<Longrightarrow> touches F key g1 g2 \<Longrightarrow> touches F key g g2"
  by (simp add: touches_def)

text \<open>A successful claim of the followed scope: there was room, and what is set aside.\<close>

definition ready :: "followed \<Rightarrow> i64 \<Rightarrow> bool \<Rightarrow> gov \<Rightarrow> localMoneyHold \<Rightarrow> bool" where
  "ready F bound bounded g h \<longleftrightarrow> gget (gv_money g) (fo_key F) = Some (hd_state h)
     \<and> \<not> lm_frozen (gv_states g ! hd_state h)
     \<and> gov_spent F g + lm_held (gv_states g ! hd_state h) < fo_limit F
     \<and> hd_amount h = (if bounded then bound else fo_limit F - gov_spent F g)"

lemma ready_touches:
  "ready F bound bounded g h \<Longrightarrow> touches F key g g' \<Longrightarrow> key \<noteq> fo_key F \<Longrightarrow> ledger_ok g \<Longrightarrow>
   ready F bound bounded g' h"
  by (auto simp: ready_def touches_def ledger_ok_def)

lemma claim_checked_looks:
  assumes "minv F ps g" "looks F g g4" "claim_checked sc bound bounded a sp (dec, g4) = (r, g')"
  shows "minv F ps g'" "looks F g g'"
    "\<And>h. r = Inr h \<Longrightarrow> hd_state h = a \<and> hd_amount h = (if bounded then bound else wrap64 (sc_limit sc - sp))"
  using assms looks_minv [OF assms(1,2)] by (auto split: if_splits)

lemma claim_spent_follow:
  assumes win: "in_window F clk" and inv: "minv F ps g" and sc: "scope_ok F sc"
    and lim: "0 < fo_limit F" "fo_limit F \<le> max_i64"
    and a: "gget (gv_money g) (sc_key sc) = Some a"
    and run: "claim_spent clk sc bound bounded a (bud_Spent clk (sc_key sc) (sc_win sc) g) = (r, g')"
  shows "minv F ps g'" "looks F g g'"
    "\<And>h. r = Inr h \<Longrightarrow> hd_state h = a \<and> (sc_key sc = fo_key F \<longrightarrow> ready F bound bounded g' h)"
proof -
  define g3 where "g3 = snd (bud_Spent clk (sc_key sc) (sc_win sc) g)"
  define sp where "sp = fst (bud_Spent clk (sc_key sc) (sc_win sc) g)"
  define st where "st = gv_states g3 ! a"
  have w: "sc_key sc = fo_key F \<longrightarrow> sc_win sc = fo_win F" using sc by (simp add: scope_ok_def)
  have fb: "follows_bud F g" by (rule minv_D(1) [OF inv])
  have l3: "looks F g g3" unfolding g3_def by (rule store_call_looks(2) [OF win fb w])
  have i3: "minv F ps g3" by (rule looks_minv [OF inv l3])
  have run': "claim_spent clk sc bound bounded a (sp, g3) = (r, g')"
    using run by (simp add: sp_def g3_def)
  let ?no = "lm_frozen st \<or> sp \<ge> sc_limit sc \<or> lm_held st \<ge> wrap64 (sc_limit sc - sp)"
  show "minv F ps g'" "looks F g g'"
    "\<And>h. r = Inr h \<Longrightarrow> hd_state h = a \<and> (sc_key sc = fo_key F \<longrightarrow> ready F bound bounded g' h)"
  proof -
    have "minv F ps g' \<and> looks F g g'
      \<and> (\<forall>h. r = Inr h \<longrightarrow> hd_state h = a \<and> (sc_key sc = fo_key F \<longrightarrow> ready F bound bounded g' h))"
    proof (cases ?no)
      case True
      then show ?thesis using run' i3 l3 by (auto simp: st_def Let_def)
    next
      case False
      let ?c = "bud_Check clk (sc_key sc) (lm_held st) (sc_limit sc) (sc_win sc) g3"
      have l4: "looks F g3 (snd ?c)" by (rule store_call_looks(1) [OF win minv_D(1) [OF i3] w])
      have ch: "claim_checked sc bound bounded a sp (fst ?c, snd ?c) = (r, g')"
        using run' False by (simp add: st_def Let_def)
      note c = claim_checked_looks [OF i3 l4 ch]
      have "ready F bound bounded g' h" if "r = Inr h" "sc_key sc = fo_key F" for h
      proof -
        have spv: "sp = gov_spent F g" using bud_Spent_value [OF win fb] that(2) by (simp add: sp_def)
        have lm: "sc_limit sc = fo_limit F" using sc that(2) by (simp add: scope_ok_def)
        have bnd: "0 \<le> sp" "sp < fo_limit F"
          using spent_of_bounds fb False lm by (auto simp: spv gov_spent_def follows_bud_def)
        then have "wrap64 (fo_limit F - sp) = fo_limit F - sp"
          using lim by (intro wrap64_diff_nonneg) auto
        moreover have "gv_states g' = gv_states g3" "gv_money g' = gv_money g" "gov_spent F g' = gov_spent F g"
          using c(2) l3 by (simp_all add: looks_def)
        ultimately show ?thesis
          using c(3) [OF that(1)] False lm a that(2) spv by (auto simp: ready_def st_def)
      qed
      then show ?thesis using c l3 looks_trans [OF l3] by blast
    qed
    then show "minv F ps g'" "looks F g g'"
      "\<And>h. r = Inr h \<Longrightarrow> hd_state h = a \<and> (sc_key sc = fo_key F \<longrightarrow> ready F bound bounded g' h)"
      by blast+
  qed
qed

lemma claim_scope_follow:
  assumes win: "in_window F clk" and inv: "minv F ps g" and sc: "scope_ok F sc"
    and lim: "0 < fo_limit F" "fo_limit F \<le> max_i64"
    and run: "claim_scope clk sc bound bounded g = (r, g')"
  shows "minv F ps g'" "touches F (sc_key sc) g g'"
    "\<And>h. r = Inr h \<Longrightarrow> gget (gv_money g') (sc_key sc) = Some (hd_state h)
       \<and> (sc_key sc = fo_key F \<longrightarrow> ready F bound bounded g' h)"
proof -
  define g1 where "g1 = snd (bud_ResetsAt clk (sc_key sc) (sc_win sc) g)"
  define ends where "ends = fst (bud_ResetsAt clk (sc_key sc) (sc_win sc) g)"
  have w: "sc_key sc = fo_key F \<longrightarrow> sc_win sc = fo_win F" using sc by (simp add: scope_ok_def)
  have fb: "follows_bud F g" by (rule minv_D(1) [OF inv])
  have l1: "looks F g g1" unfolding g1_def by (rule store_call_looks(3) [OF win fb w])
  have i1: "minv F ps g1" by (rule looks_minv [OF inv l1])
  have e: "sc_key sc = fo_key F \<longrightarrow> ends = fo_ends F"
    using bud_ResetsAt_value [OF win fb] w by (simp add: ends_def)
  obtain a g2 where ms: "money_state (sc_key sc) ends g1 = (a, g2)" by fastforce
  note m = money_state_minv [OF i1 e ms]
  have run': "claim_spent clk sc bound bounded a (bud_Spent clk (sc_key sc) (sc_win sc) g2) = (r, g')"
  proof -
    have "bud_ResetsAt clk (sc_key sc) (sc_win sc) g = (ends, g1)" by (simp add: ends_def g1_def)
    then show ?thesis using run ms by (simp add: claim_scope_def)
  qed
  note c = claim_spent_follow [OF win m(1) sc lim m(2) run']
  show "minv F ps g'" by (rule c(1))
  have t1: "touches F (sc_key sc) g1 g2"
    using m(3-6) by (simp add: touches_def gov_spent_def)
  show "touches F (sc_key sc) g g'"
    by (rule touches_trans [OF looks_touches [OF l1] touches_trans [OF t1 looks_touches [OF c(2)]]])
  show "gget (gv_money g') (sc_key sc) = Some (hd_state h) \<and> (sc_key sc = fo_key F \<longrightarrow> ready F bound bounded g' h)"
    if "r = Inr h" for h
    using c(3) [OF that] c(2) m(2) by (simp add: looks_def)
qed

text \<open>
  The loop: it ends with one claim per blocking scope, each bound to the current state of its
  key, and the claim of the followed scope is still backed by the room that was found.
\<close>

definition claimed :: "followed \<Rightarrow> i64 \<Rightarrow> bool \<Rightarrow> gov \<Rightarrow> localMoneyScope \<Rightarrow> localMoneyHold \<Rightarrow> bool" where
  "claimed F bound bounded g sc h \<longleftrightarrow> gget (gv_money g) (sc_key sc) = Some (hd_state h)
     \<and> (sc_key sc = fo_key F \<longrightarrow> ready F bound bounded g h)"

lemma claimed_touches:
  assumes "claimed F bound bounded g sc h" "touches F key g g'" "key \<noteq> sc_key sc" "ledger_ok g"
  shows "claimed F bound bounded g' sc h"
proof -
  have "gget (gv_money g') (sc_key sc) = Some (hd_state h)"
    using assms by (simp add: claimed_def touches_def)
  moreover have "ready F bound bounded g' h" if "sc_key sc = fo_key F"
    using assms that ready_touches [of F bound bounded g h key g'] by (auto simp: claimed_def)
  ultimately show ?thesis by (simp add: claimed_def)
qed

lemma claim_all_follow:
  assumes win: "in_window F clk" and lim: "0 < fo_limit F" "fo_limit F \<le> max_i64"
    and "claim_all clk bound bounded scs holds g = (r, g')"
    and "minv F ps g" "\<forall>sc\<in>set scs. scope_ok F sc"
    and "distinct (map sc_key (pre @ scs))" "length holds = length (filter sc_hard pre)"
    and "\<forall>(sc, h)\<in>set (zip (filter sc_hard pre) holds). claimed F bound bounded g sc h"
  shows "minv F ps g'"
    and "\<And>hs. r = Inr hs \<Longrightarrow> length hs = length (filter sc_hard (pre @ scs))
      \<and> (\<forall>(sc, h)\<in>set (zip (filter sc_hard (pre @ scs)) hs). claimed F bound bounded g' sc h)"
proof -
  have "minv F ps g' \<and> (\<forall>hs. r = Inr hs \<longrightarrow> length hs = length (filter sc_hard (pre @ scs))
      \<and> (\<forall>(sc, h)\<in>set (zip (filter sc_hard (pre @ scs)) hs). claimed F bound bounded g' sc h))"
    using assms(4-9)
  proof (induction scs arbitrary: pre holds g)
    case Nil
    then show ?case by auto
  next
    case (Cons sc scs)
    show ?case
    proof (cases "sc_hard sc")
      case False
      then show ?thesis using Cons.IH [of holds g "pre @ [sc]"] Cons.prems by simp
    next
      case True
      obtain r1 g1 where cs: "claim_scope clk sc bound bounded g = (r1, g1)" by fastforce
      have sok: "scope_ok F sc" using Cons.prems(3) by simp
      note c = claim_scope_follow [OF win Cons.prems(2) sok lim cs]
      show ?thesis
      proof (cases r1)
        case (Inl e)
        then show ?thesis using Cons.prems(1) True cs c(1) by auto
      next
        case (Inr h)
        have "claimed F bound bounded g1 sc' h'" if "(sc', h') \<in> set (zip (filter sc_hard pre) holds)" for sc' h'
        proof -
          have "sc' \<in> set pre" using that by (auto dest: set_zip_leftD)
          then have "sc_key sc \<noteq> sc_key sc'" using Cons.prems(4) by auto
          then show ?thesis
            using Cons.prems(6) that c(2) minv_D(2) [OF Cons.prems(2)]
            by (auto intro: claimed_touches)
        qed
        moreover have "claimed F bound bounded g1 sc h" using c(3) [OF Inr] by (simp add: claimed_def)
        ultimately have "\<forall>(sc', h')\<in>set (zip (filter sc_hard (pre @ [sc])) (holds @ [h])). claimed F bound bounded g1 sc' h'"
          using True Cons.prems(5) by auto
        then show ?thesis
          using Cons.IH [of "holds @ [h]" g1 "pre @ [sc]"] Cons.prems True cs Inr c(1) by simp
      qed
    qed
  qed
  then show "minv F ps g'"
    and "\<And>hs. r = Inr hs \<Longrightarrow> length hs = length (filter sc_hard (pre @ scs))
      \<and> (\<forall>(sc, h)\<in>set (zip (filter sc_hard (pre @ scs)) hs). claimed F bound bounded g' sc h)"
    by blast+
qed

section \<open>Recording the holds\<close>

lemma add_hold_fields [simp]:
  "gv_bud (add_hold h g) = gv_bud g" "gv_money (add_hold h g) = gv_money g"
  "length (gv_states (add_hold h g)) = length (gv_states g)"
  by (simp_all add: add_hold_def Let_def)

lemma add_holds_fields [simp]:
  "gv_bud (fold add_hold hs g) = gv_bud g" "gv_money (fold add_hold hs g) = gv_money g"
  "length (gv_states (fold add_hold hs g)) = length (gv_states g)"
  by (induction hs arbitrary: g) simp_all

lemma add_hold_other: "hd_state h \<noteq> a \<Longrightarrow> gv_states (add_hold h g) ! a = gv_states g ! a"
  by (simp add: add_hold_def Let_def)

lemma add_holds_other: "\<forall>h\<in>set hs. hd_state h \<noteq> a \<Longrightarrow> gv_states (fold add_hold hs g) ! a = gv_states g ! a"
  by (induction hs arbitrary: g) (simp_all add: add_hold_other)

lemma add_hold_ends [simp]: "lm_ends (gv_states (add_hold h g) ! a) = lm_ends (gv_states g ! a)"
proof (cases "hd_state h = a")
  case True
  then show ?thesis
    by (cases "a < length (gv_states g)") (simp_all add: add_hold_def Let_def list_update_beyond)
qed (simp add: add_hold_other)

lemma add_holds_ends [simp]: "lm_ends (gv_states (fold add_hold hs g) ! a) = lm_ends (gv_states g ! a)"
  by (induction hs arbitrary: g) simp_all

text \<open>One hold on a state among holds on other states.\<close>

lemma add_holds_one:
  assumes "\<forall>h'\<in>set hs1 \<union> set hs2. hd_state h' \<noteq> hd_state h" "hd_state h < length (gv_states g)"
    and "0 \<le> hd_amount h" "lm_held (gv_states g ! hd_state h) \<le> max_i64" "0 \<le> lm_held (gv_states g ! hd_state h)"
  shows "lm_frozen (gv_states (fold add_hold (hs1 @ h # hs2) g) ! hd_state h)
    \<or> lm_held (gv_states (fold add_hold (hs1 @ h # hs2) g) ! hd_state h)
        = lm_held (gv_states g ! hd_state h) + hd_amount h
      \<and> lm_held (gv_states (fold add_hold (hs1 @ h # hs2) g) ! hd_state h) \<le> max_i64"
proof -
  define g1 where "g1 = fold add_hold hs1 g"
  have s1: "gv_states g1 ! hd_state h = gv_states g ! hd_state h"
    unfolding g1_def using assms(1) by (intro add_holds_other) auto
  have "gv_states (fold add_hold hs2 (add_hold h g1)) ! hd_state h = gv_states (add_hold h g1) ! hd_state h"
    using assms(1) by (intro add_holds_other) auto
  moreover have "wrap64 (max_i64 - lm_held (gv_states g ! hd_state h)) = max_i64 - lm_held (gv_states g ! hd_state h)"
    using assms by (intro wrap64_diff_nonneg) auto
  moreover have "hd_state h < length (gv_states g1)" using assms(2) by (simp add: g1_def)
  ultimately show ?thesis
    using s1 by (auto simp: g1_def [symmetric] add_hold_def Let_def)
qed

section \<open>Making room in the ledger\<close>

lemma open_zero_claims:
  assumes "\<forall>p\<in>set ps. permit_ok F g p" "open_amount F ps = 0"
    and "p \<in> set ps" "\<not> lp_once p" "(sc, h) \<in> set (claims p)" "sc_key sc = fo_key F"
  shows "hd_amount h = 0"
proof -
  have "\<forall>x\<in>set (map (\<lambda>p. if lp_once p then 0 else khold F p) ps). 0 \<le> x"
    using assms(1) khold_nonneg by auto
  then have "khold F p = 0"
    using assms(2-4) sum_list_nonneg_eq_0_iff [of "map (\<lambda>p. if lp_once p then 0 else khold F p) ps"]
    by (force simp: open_amount_def)
  moreover have "\<forall>x\<in>set (map (\<lambda>(sc, h). if sc_key sc = fo_key F then hd_amount h else 0) (claims p)). 0 \<le> x"
    using assms(1,3) by (auto simp: permit_ok_def claim_ok_def)
  ultimately show ?thesis
    using assms(5,6) sum_list_nonneg_eq_0_iff
      [of "map (\<lambda>(sc, h). if sc_key sc = fo_key F then hd_amount h else 0) (claims p)"]
    by (force simp: khold_def)
qed

lemma forget_minv:
  assumes inv: "minv F ps g"
    and own: "key = fo_key F \<longrightarrow> open_amount F ps = 0"
  shows "minv F ps (g\<lparr>gv_money := gdel key (gv_money g)\<rparr>)"
proof -
  let ?g = "g\<lparr>gv_money := gdel key (gv_money g)\<rparr>"
  have all: "\<forall>p\<in>set ps. permit_ok F g p" using minv_D(3) [OF inv] by blast
  have p: "permit_ok F ?g p" if "p \<in> set ps" for p
  proof -
    have "claim_ok F ?g (lp_once p) sc h" if c: "(sc, h) \<in> set (claims p)" for sc h
    proof (cases "key = fo_key F \<and> sc_key sc = fo_key F")
      case True
      then have "lp_once p \<or> hd_amount h = 0"
        using open_zero_claims [OF all] own c \<open>p \<in> set ps\<close> by blast
      then show ?thesis using all \<open>p \<in> set ps\<close> c True by (auto simp: permit_ok_def claim_ok_def)
    next
      case False
      then show ?thesis using all \<open>p \<in> set ps\<close> c by (auto simp: permit_ok_def claim_ok_def gomap split: if_splits)
    qed
    then show ?thesis using all that by (auto simp: permit_ok_def)
  qed
  have "ledger_ok ?g" using minv_D(2) [OF inv] by (auto simp: ledger_ok_def gomap split: if_splits)
  moreover have "covers F (open_amount F ps) ?g"
    using minv_D(4) [OF inv] own by (auto simp: covers_def gomap split: option.splits)
  ultimately show ?thesis using p minv_D(1,5) [OF inv]
    by (simp add: minv_def follows_bud_def gov_spent_def)
qed

lemma read_minv: "minv F ps g \<Longrightarrow> minv F ps (g\<lparr>gv_reads := n\<rparr>)"
  using looks_minv [of F ps g "g\<lparr>gv_reads := n\<rparr>"] minv_D(1) [of F ps g]
  by (simp add: looks_def follows_bud_def gov_spent_def)

lemma evict_minv:
  assumes "in_window F clk" "minv F ps g" "distinct (map fst es)"
    and "\<forall>(k, a)\<in>set es. gget (gv_money g) k = Some a"
  shows "minv F ps (evict_entries clk es g)"
  using assms(2-)
proof (induction es arbitrary: g)
  case Nil
  then show ?case by simp
next
  case (Cons e es)
  obtain key a where e: "e = (key, a)" by fastforce
  let ?st = "gv_states g ! a"
  let ?g = "g\<lparr>gv_reads := Suc (gv_reads g)\<rparr>"
  have t: "clk (gv_reads g) < fo_ends F" using assms(1) by (simp add: in_window_def)
  have a: "gget (gv_money g) key = Some a" using Cons.prems(3) e by simp
  have keep: "minv F ps (?g\<lparr>gv_money := gdel key (gv_money ?g)\<rparr>)"
    if "\<not> clk (gv_reads g) < lm_ends ?st \<or> lm_held ?st = 0 \<and> \<not> lm_frozen ?st"
  proof (rule forget_minv [OF read_minv [OF Cons.prems(1)]], rule impI)
    assume k: "key = fo_key F"
    have "lm_ends ?st = fo_ends F" "lm_frozen ?st \<or> open_amount F ps \<le> lm_held ?st"
      using minv_D(4) [OF Cons.prems(1)] a k by (auto simp: covers_def)
    moreover have "0 \<le> open_amount F ps"
      using minv_D(3) [OF Cons.prems(1)] by (intro open_amount_nonneg [of ps F g]) blast
    ultimately show "open_amount F ps = 0" using that t by auto
  qed
  have rest: "\<forall>(k, b)\<in>set es. gget (gdel key (gv_money g)) k = Some b"
    using Cons.prems(2,3) e by (force simp: gomap)
  show ?case
    using Cons.IH [OF keep] Cons.IH [OF read_minv [OF Cons.prems(1)]] Cons.prems(2,3) rest
    by (simp add: e Let_def)
qed

lemma make_room_minv:
  assumes "in_window F clk" "minv F ps g"
  shows "minv F ps (make_room clk scs g)"
proof -
  have "gwf (gv_money g)" using minv_D(2) [OF assms(2)] by (simp add: ledger_ok_def)
  then have "distinct (map fst (gv_money g))" "\<forall>(k, a)\<in>set (gv_money g). gget (gv_money g) k = Some a"
    by (auto simp: gwf_def gget_def)
  then show ?thesis using assms evict_minv [OF assms] by (simp add: make_room_def)
qed

section \<open>An admitted attempt\<close>

lemma zip_split:
  assumes "(x, y) \<in> set (zip xs ys)" "length ys = length xs"
  obtains xs1 xs2 ys1 ys2 where "xs = xs1 @ x # xs2" "ys = ys1 @ y # ys2" "length ys1 = length xs1"
proof -
  obtain i where i: "i < length xs" "x = xs ! i" "y = ys ! i" using assms by (auto simp: set_zip)
  then have "xs = take i xs @ x # drop (Suc i) xs" "ys = take i ys @ y # drop (Suc i) ys"
    "length (take i ys) = length (take i xs)"
    using assms(2) by (simp_all add: id_take_nth_drop)
  then show ?thesis using that by blast
qed

lemma permit_ok_same:
  assumes "gv_money g' = gv_money g" "length (gv_states g') = length (gv_states g)"
  shows "permit_ok F g' p = permit_ok F g p" "ledger_ok g' = ledger_ok g"
  unfolding permit_ok_def claim_ok_def ledger_ok_def assms by simp_all

text \<open>The claims of a new permit when the followed scope is not among them.\<close>

lemma sum_other_keys:
  "\<forall>(sc, h)\<in>set c. sc_key sc \<noteq> fo_key F \<Longrightarrow>
   sum_list (map (\<lambda>(sc, h). if sc_key sc = fo_key F then hd_amount h else 0) c) = 0"
  by (induction c) auto

lemma khold_none: "\<forall>(sc, h)\<in>set (claims p). sc_key sc \<noteq> fo_key F \<Longrightarrow> khold F p = 0"
  unfolding khold_def by (rule sum_other_keys)

lemma khold_one:
  assumes "claims p = c1 @ (sc, h) # c2" "sc_key sc = fo_key F"
    and "\<forall>(sc', h')\<in>set c1 \<union> set c2. sc_key sc' \<noteq> fo_key F"
  shows "khold F p = hd_amount h"
proof -
  have "\<forall>(sc', h')\<in>set c1. sc_key sc' \<noteq> fo_key F" "\<forall>(sc', h')\<in>set c2. sc_key sc' \<noteq> fo_key F"
    using assms(3) by auto
  then show ?thesis by (simp add: khold_def assms(1,2) sum_other_keys)
qed

text \<open>A permit claims the followed scope not at all, or once among claims of other scopes.\<close>

lemma claims_cases:
  assumes len: "length (lp_holds p) = length (filter sc_hard (lp_scopes p))"
    and dist: "distinct (map sc_key (lp_scopes p))"
  obtains (none) "\<forall>sc h. (sc, h) \<in> set (claims p) \<longrightarrow> sc_key sc \<noteq> fo_key F" "khold F p = 0"
  | (one) sc h hs1 hs2 where "(sc, h) \<in> set (claims p)" "sc_key sc = fo_key F"
      "lp_holds p = hs1 @ h # hs2" "khold F p = hd_amount h"
      "\<forall>h'\<in>set hs1 \<union> set hs2. \<exists>sc'. (sc', h') \<in> set (claims p) \<and> sc_key sc' \<noteq> fo_key F"
proof (cases "\<exists>sc h. (sc, h) \<in> set (claims p) \<and> sc_key sc = fo_key F")
  case False
  then show ?thesis using none khold_none [of p F] by blast
next
  case True
  then obtain sc h where c: "(sc, h) \<in> set (claims p)" and k: "sc_key sc = fo_key F" by blast
  obtain xs1 xs2 hs1 hs2 where split: "filter sc_hard (lp_scopes p) = xs1 @ sc # xs2" "lp_holds p = hs1 @ h # hs2"
    "length hs1 = length xs1"
  proof (rule zip_split [OF _ len])
    show "(sc, h) \<in> set (zip (filter sc_hard (lp_scopes p)) (lp_holds p))" using c by (simp add: claims_def)
  qed
  have "distinct (map sc_key (filter sc_hard (lp_scopes p)))" using dist by (simp add: distinct_map_filter)
  then have other: "\<forall>x\<in>set xs1 \<union> set xs2. sc_key x \<noteq> fo_key F" using split(1) k by (auto simp: image_iff)
  have parts: "claims p = zip xs1 hs1 @ (sc, h) # zip xs2 hs2" using split by (simp add: claims_def)
  have kh: "khold F p = hd_amount h"
    using other by (intro khold_one [OF parts k]) (auto dest: set_zip_leftD)
  have "\<forall>h'\<in>set hs1 \<union> set hs2. \<exists>sc'. (sc', h') \<in> set (claims p) \<and> sc_key sc' \<noteq> fo_key F"
  proof
    fix h' assume "h' \<in> set hs1 \<union> set hs2"
    moreover have "length hs2 = length xs2" using split len by simp
    ultimately obtain x where "(x, h') \<in> set (zip xs1 hs1) \<union> set (zip xs2 hs2)"
      using split(3) by (metis Un_iff in_set_impl_in_set_zip2)
    then show "\<exists>sc'. (sc', h') \<in> set (claims p) \<and> sc_key sc' \<noteq> fo_key F"
      using parts other by (auto dest: set_zip_leftD)
  qed
  then show ?thesis using one [OF c k split(2) kh] by blast
qed

lemma holds_claimed:
  "length (lp_holds p) = length (filter sc_hard (lp_scopes p)) \<Longrightarrow> h \<in> set (lp_holds p) \<Longrightarrow>
   \<exists>sc. (sc, h) \<in> set (claims p)"
  by (auto simp: claims_def in_set_conv_nth set_zip)

lemma grant_covers:
  assumes inv: "minv F ps g"
    and len: "length (lp_holds p) = length (filter sc_hard (lp_scopes p))" and dist: "distinct (map sc_key (lp_scopes p))"
    and cl: "\<forall>(sc, h)\<in>set (claims p). claimed F bound bounded g sc h"
    and bnd: "0 \<le> bound" "bound \<le> fo_bound F" "\<not> bounded \<longrightarrow> fo_limit F \<le> fo_bound F"
  shows "covers F (open_amount F ps + khold F p) (fold add_hold (lp_holds p) g)
    \<and> gov_spent F g + open_amount F ps + khold F p \<le> fo_limit F - 1 + fo_bound F"
proof -
  have inj: "gget (gv_money g) k = Some a \<Longrightarrow> gget (gv_money g) k' = Some a \<Longrightarrow> k = k'"
    and rng: "gget (gv_money g) k = Some a \<Longrightarrow> a < length (gv_states g)" for k k' a
    using minv_D(2) [OF inv] by (auto simp: ledger_ok_def)
  have addr: "gget (gv_money g) (sc_key sc) = Some (hd_state h)" if "(sc, h) \<in> set (claims p)" for sc h
    using cl that by (auto simp: claimed_def)
  from len dist show ?thesis
  proof (cases rule: claims_cases [where F = F])
    case none
    have "gv_states (fold add_hold (lp_holds p) g) ! a = gv_states g ! a"
      if "gget (gv_money g) (fo_key F) = Some a" for a
      using none(1) holds_claimed [OF len] addr inj that by (intro add_holds_other ballI) blast
    then show ?thesis using minv_D(4,5) [OF inv] none(2) by (auto simp: covers_def split: option.splits)
  next
    case (one sc h hs1 hs2)
    have rd: "ready F bound bounded g h" using cl one(1,2) by (auto simp: claimed_def)
    then have a: "gget (gv_money g) (fo_key F) = Some (hd_state h)" and nf: "\<not> lm_frozen (gv_states g ! hd_state h)"
      and room: "gov_spent F g + lm_held (gv_states g ! hd_state h) < fo_limit F"
      and amt: "hd_amount h = (if bounded then bound else fo_limit F - gov_spent F g)"
      by (auto simp: ready_def)
    have ne: "\<forall>h'\<in>set hs1 \<union> set hs2. hd_state h' \<noteq> hd_state h" using one(5) addr inj a by metis
    have cov: "open_amount F ps \<le> lm_held (gv_states g ! hd_state h)" "lm_held (gv_states g ! hd_state h) \<le> max_i64"
      "lm_ends (gv_states g ! hd_state h) = fo_ends F"
      using minv_D(4) [OF inv] a nf by (auto simp: covers_def)
    have op: "0 \<le> open_amount F ps" using minv_D(3) [OF inv] by (intro open_amount_nonneg [of ps F g]) blast
    have sp: "0 \<le> gov_spent F g" using minv_D(1) [OF inv] spent_of_bounds by (auto simp: gov_spent_def follows_bud_def)
    have amt0: "0 \<le> hd_amount h" using amt bnd room cov op by (auto split: if_splits)
    have add: "lm_frozen (gv_states (fold add_hold (lp_holds p) g) ! hd_state h)
      \<or> lm_held (gv_states (fold add_hold (lp_holds p) g) ! hd_state h) = lm_held (gv_states g ! hd_state h) + hd_amount h
        \<and> lm_held (gv_states (fold add_hold (lp_holds p) g) ! hd_state h) \<le> max_i64"
      unfolding one(3) using ne rng [OF a] amt0 cov op by (intro add_holds_one) auto
    have "covers F (open_amount F ps + khold F p) (fold add_hold (lp_holds p) g)"
      using add a cov one(4) by (auto simp: covers_def)
    moreover have "hd_amount h \<le> fo_bound F" using amt bnd sp by (auto split: if_splits)
    ultimately show ?thesis using room cov one(4) by auto
  qed
qed

lemma grant_minv:
  assumes inv: "minv F ps g" and p: "p = \<lparr>lp_once = False, lp_holds = hs, lp_scopes = scs, lp_subject = s\<rparr>"
    and len: "length hs = length (filter sc_hard scs)" and dist: "distinct (map sc_key scs)"
    and cl: "\<forall>(sc, h)\<in>set (zip (filter sc_hard scs) hs). claimed F bound bounded g sc h"
    and bnd: "0 \<le> bound" "bound \<le> fo_bound F" "\<not> bounded \<longrightarrow> fo_limit F \<le> fo_bound F"
    and sok: "\<forall>sc\<in>set scs. scope_ok F sc"
  shows "minv F (ps @ [p]) (fold add_hold hs g)"
proof -
  let ?g = "fold add_hold hs g"
  have cov: "covers F (open_amount F ps + khold F p) ?g
      \<and> gov_spent F g + open_amount F ps + khold F p \<le> fo_limit F - 1 + fo_bound F"
    using grant_covers [OF inv _ _ _ bnd, of p] len dist cl by (simp add: p claims_def)
  have led: "ledger_ok g" by (rule minv_D(2) [OF inv])
  have "claim_ok F ?g False sc h" if "(sc, h) \<in> set (claims p)" for sc h
  proof -
    have c: "claimed F bound bounded g sc h" using cl that by (auto simp: claims_def p)
    then have a: "gget (gv_money g) (sc_key sc) = Some (hd_state h)" by (simp add: claimed_def)
    have "0 \<le> hd_amount h" if "sc_key sc = fo_key F"
    proof -
      have "ready F bound bounded g h" using c that by (simp add: claimed_def)
      moreover have "0 \<le> open_amount F ps" using minv_D(3) [OF inv] by (intro open_amount_nonneg [of ps F g]) blast
      ultimately show ?thesis using minv_D(4) [OF inv] bnd(1) by (auto simp: ready_def covers_def split: if_splits)
    qed
    moreover have "gget (gv_money g) (fo_key F) \<noteq> Some (hd_state h)" if "sc_key sc \<noteq> fo_key F"
      using a led that by (auto simp: ledger_ok_def)
    moreover have "hd_state h < length (gv_states g)" using a led by (auto simp: ledger_ok_def)
    ultimately show ?thesis using a by (auto simp: claim_ok_def)
  qed
  then have "permit_ok F ?g p" using len dist sok by (simp add: permit_ok_def p)
  moreover have "permit_ok F ?g q" if "q \<in> set ps" for q
    using minv_D(3) [OF inv that] permit_ok_same(1) [of ?g g F q] by simp
  moreover have "ledger_ok ?g" using led permit_ok_same(2) [of ?g g] by simp
  moreover have "follows_bud F ?g" "gov_spent F ?g = gov_spent F g"
    using minv_D(1) [OF inv] by (simp_all add: follows_bud_def gov_spent_def)
  ultimately show ?thesis using cov p by (auto simp: minv_def)
qed

section \<open>The scopes of a request have different keys\<close>

lemma budget_Key_eq:
  assumes "scope \<in> set scopes" "scope' \<in> set scopes"
  shows "budget_Key scope ident w = budget_Key scope' ident' w' \<longleftrightarrow> Tag w = Tag w' \<and> scope = scope' \<and> ident = ident'"
proof
  assume "budget_Key scope ident w = budget_Key scope' ident' w'"
  then have "Tag w @ '':'' @ scope @ '':'' @ ident = Tag w' @ '':'' @ scope' @ '':'' @ ident'"
    by (simp add: budget_Key_def)
  with colon_split [OF Tag_no_colon Tag_no_colon] have "Tag w = Tag w'"
    "scope @ '':'' @ ident = scope' @ '':'' @ ident'" by blast+
  with colon_split [OF scope_no_colon scope_no_colon, OF assms] show "Tag w = Tag w' \<and> scope = scope' \<and> ident = ident'"
    by blast
qed (simp add: budget_Key_def)

lemma window_tags: "Tag (monthWindow cfg) = ''month''" "Tag (dayWindow cfg) = ''day''"
  by (simp_all add: monthWindow_def dayWindow_def CalendarMonthIn_def CalendarDayIn_def Tag_def)

lemma scopes_mem [simp]: "ScopeTeam \<in> set scopes" "ScopeKey \<in> set scopes" "ScopeUser \<in> set scopes"
  by (simp_all add: scopes_def)

lemma scopes_neq [simp]: "ScopeTeam \<noteq> ScopeKey" "ScopeTeam \<noteq> ScopeUser" "ScopeKey \<noteq> ScopeUser"
  "ScopeKey \<noteq> ScopeTeam" "ScopeUser \<noteq> ScopeTeam" "ScopeUser \<noteq> ScopeKey"
  by (simp_all add: ScopeTeam_def ScopeKey_def ScopeUser_def)

lemma add_scope_keys: "sc \<in> set (add_scope scope ident limit mode w ref) \<Longrightarrow> sc_key sc = budget_Key scope ident w"
  by (simp add: add_scope_def split: if_splits)

lemma add_scope_distinct: "distinct (map sc_key (add_scope scope ident limit mode w ref))"
  by (simp add: add_scope_def)

lemma localMoneyScopes_distinct: "distinct (map sc_key (localMoneyScopes cfg s kp))"
  unfolding localMoneyScopes_def Let_def
  by (auto simp: distinct_map_filter add_scope_distinct budget_Key_eq window_tags
      dest!: add_scope_keys split: option.split)

lemma reserve_minv:
  assumes win: "in_window F clk" and inv: "minv F ps g" and lim: "0 < fo_limit F" "fo_limit F \<le> max_i64"
    and sok: "\<forall>sc\<in>set (localMoneyScopes cfg s kp). scope_ok F sc"
    and bnd: "bound \<le> fo_bound F" "\<not> bounded \<longrightarrow> fo_limit F \<le> fo_bound F"
    and run: "ReserveLocalBudget clk cfg s kp bound bounded g = (r, g')"
  shows "case r of Inr (Some p) \<Rightarrow> minv F (ps @ [p]) g' | _ \<Rightarrow> minv F ps g'"
proof -
  let ?scs = "localMoneyScopes cfg s kp"
  let ?g = "make_room clk ?scs g"
  have room: "minv F ps ?g" by (rule make_room_minv [OF win inv])
  show ?thesis
  proof (cases "?scs = [] \<or> bound < 0 \<or> ledger_full ?scs ?g")
    case True
    then show ?thesis using run inv room by (auto simp: ReserveLocalBudget_def Let_def split: if_splits)
  next
    case False
    obtain r1 g1 where ca: "claim_all clk bound bounded ?scs [] ?g = (r1, g1)" by fastforce
    have gr: "issue_permit ?scs s (r1, g1) = (r, g')"
      using run False ca by (simp add: ReserveLocalBudget_def Let_def)
    note c = claim_all_follow [OF win lim ca room sok, where pre = "[]", simplified, OF localMoneyScopes_distinct]
    show ?thesis
    proof (cases r1)
      case (Inl e)
      then show ?thesis using gr c(1) by auto
    next
      case (Inr hs)
      have "minv F (ps @ [\<lparr>lp_once = False, lp_holds = hs, lp_scopes = ?scs, lp_subject = s\<rparr>]) (fold add_hold hs g1)"
        using c(2) [OF Inr] bnd False localMoneyScopes_distinct sok
        by (intro grant_minv [OF c(1) refl, where bound = bound and bounded = bounded]) auto
      then show ?thesis using gr Inr by auto
    qed
  qed
qed

section \<open>Settlement\<close>

lemma debit_scopes_frame [simp]:
  "gv_money (debit_scopes clk n scs g) = gv_money g" "gv_states (debit_scopes clk n scs g) = gv_states g"
  unfolding debit_scopes_def by (induction scs arbitrary: g) (simp_all add: bud_Debit_def)

lemma debit_scopes_follow:
  assumes "in_window F clk" "0 \<le> n"
    and "follows_bud F g" "\<forall>sc\<in>set scs. scope_ok F sc" "distinct (map sc_key scs)"
  shows "follows_bud F (debit_scopes clk n scs g)
    \<and> gov_spent F (debit_scopes clk n scs g) \<le> gov_spent F g + (if fo_key F \<in> sc_key ` set scs then n else 0)"
  using assms(3-5)
proof (induction scs arbitrary: g)
  case Nil
  then show ?case by (simp add: debit_scopes_def)
next
  case (Cons sc scs)
  let ?g = "bud_Debit clk (sc_key sc) n (sc_win sc) g"
  have t: "clk m < fo_ends F" "windowEnd (clk m) (fo_win F) = fo_ends F" for m
    using assms(1) by (simp_all add: in_window_def)
  have w: "sc_key sc = fo_key F \<longrightarrow> sc_win sc = fo_win F" using Cons.prems(2) by (simp add: scope_ok_def)
  have ok: "mem_ok (gv_bud g)" "entry_end F (gv_bud g)" using Cons.prems(1) by (simp_all add: follows_bud_def)
  note d = Debit_follow [OF ok t w assms(2)]
  have f: "follows_bud F ?g" using d(1,2) by (simp add: follows_bud_def bud_Debit_def)
  have s: "gov_spent F ?g \<le> gov_spent F g + (if sc_key sc = fo_key F then n else 0)"
    using d(3) by (simp add: gov_spent_def bud_Debit_def)
  have "debit_scopes clk n (sc # scs) g = debit_scopes clk n scs ?g" by (simp add: debit_scopes_def)
  moreover have "sc_key sc = fo_key F \<Longrightarrow> fo_key F \<notin> sc_key ` set scs" using Cons.prems(3) by auto
  ultimately show ?case using Cons.IH [OF f] Cons.prems(2,3) s assms(2) by (auto split: if_splits)
qed

lemma release_hold_fields [simp]:
  "gv_bud (release_hold full inval h g) = gv_bud g" "gv_money (release_hold full inval h g) = gv_money g"
  "length (gv_states (release_hold full inval h g)) = length (gv_states g)"
  by (simp_all add: release_hold_def Let_def)

lemma releases_fields [simp]:
  "gv_bud (fold (release_hold full inval) hs g) = gv_bud g"
  "gv_money (fold (release_hold full inval) hs g) = gv_money g"
  "length (gv_states (fold (release_hold full inval) hs g)) = length (gv_states g)"
  by (induction hs arbitrary: g) simp_all

lemma release_other: "hd_state h \<noteq> a \<Longrightarrow> gv_states (release_hold full inval h g) ! a = gv_states g ! a"
  by (simp add: release_hold_def Let_def)

lemma releases_other:
  "\<forall>h\<in>set hs. hd_state h \<noteq> a \<Longrightarrow> gv_states (fold (release_hold full inval) hs g) ! a = gv_states g ! a"
  by (induction hs arbitrary: g) (simp_all add: release_other)

lemma releases_one:
  assumes "\<forall>h'\<in>set hs1 \<union> set hs2. hd_state h' \<noteq> hd_state h" "hd_state h < length (gv_states g)"
  shows "gv_states (fold (release_hold full inval) (hs1 @ h # hs2) g) ! hd_state h =
    (let st = gv_states g ! hd_state h in
     if full \<and> \<not> inval then st\<lparr>lm_held := wrap64 (lm_held st - hd_amount h)\<rparr>
     else if inval then st\<lparr>lm_frozen := True\<rparr> else st)"
proof -
  define g1 where "g1 = fold (release_hold full inval) hs1 g"
  have s1: "gv_states g1 ! hd_state h = gv_states g ! hd_state h"
    unfolding g1_def using assms(1) by (intro releases_other) auto
  have "gv_states (fold (release_hold full inval) hs2 (release_hold full inval h g1)) ! hd_state h
      = gv_states (release_hold full inval h g1) ! hd_state h"
    using assms(1) by (intro releases_other) auto
  moreover have "hd_state h < length (gv_states g1)" using assms(2) by (simp add: g1_def)
  ultimately show ?thesis using s1 by (simp add: g1_def [symmetric] release_hold_def Let_def)
qed

lemma release_covers:
  assumes ok: "permit_ok F g p" and un: "\<not> lp_once p" and led: "ledger_ok g"
    and cov: "covers F op g" and op: "khold F p \<le> op"
  shows "covers F (op - khold F p) (fold (release_hold full inval) (lp_holds p) g)"
proof -
  let ?g = "fold (release_hold full inval) (lp_holds p) g"
  have len: "length (lp_holds p) = length (filter sc_hard (lp_scopes p))" and dist: "distinct (map sc_key (lp_scopes p))"
    and cl: "(sc, h) \<in> set (claims p) \<Longrightarrow> claim_ok F g False sc h" for sc h
    using ok un by (auto simp: permit_ok_def)
  have same: "gv_states ?g ! a = gv_states g ! a"
    if "\<forall>h\<in>set (lp_holds p). hd_state h \<noteq> a" for a
    using that by (rule releases_other)
  from len dist show ?thesis
  proof (cases rule: claims_cases [where F = F])
    case none
    have "gv_states ?g ! a = gv_states g ! a" if "gget (gv_money g) (fo_key F) = Some a" for a
      using none(1) holds_claimed [OF len] cl that by (intro same ballI) (force simp: claim_ok_def)
    then show ?thesis using cov none(2) by (auto simp: covers_def split: option.splits)
  next
    case (one sc h hs1 hs2)
    have c: "hd_state h < length (gv_states g)" "0 \<le> hd_amount h"
      "hd_amount h = 0 \<or> gget (gv_money g) (fo_key F) = Some (hd_state h)"
      using cl [OF one(1)] one(2) by (auto simp: claim_ok_def)
    have ne: "hd_state h' \<noteq> a" if "h' \<in> set hs1 \<union> set hs2" "gget (gv_money g) (fo_key F) = Some a" for h' a
      using one(5) cl that by (fastforce simp: claim_ok_def)
    show ?thesis
    proof (cases "gget (gv_money g) (fo_key F) = Some (hd_state h)")
      case True
      then have "gv_states ?g ! hd_state h = (let st = gv_states g ! hd_state h in
         if full \<and> \<not> inval then st\<lparr>lm_held := wrap64 (lm_held st - hd_amount h)\<rparr>
         else if inval then st\<lparr>lm_frozen := True\<rparr> else st)"
        unfolding one(3) using ne c(1) by (intro releases_one) auto
      moreover have "wrap64 (lm_held (gv_states g ! hd_state h) - hd_amount h) = lm_held (gv_states g ! hd_state h) - hd_amount h"
        if "\<not> lm_frozen (gv_states g ! hd_state h)"
        using that cov True c(2) op one(4)
        by (intro wrap64_in_range) (auto simp: covers_def in_i64_def i64_consts)
      ultimately show ?thesis using cov True c(2) op one(4) by (auto simp: covers_def Let_def)
    next
      case False
      then have "hd_amount h = 0" using c(3) by blast
      moreover have "gv_states ?g ! a = gv_states g ! a" if "gget (gv_money g) (fo_key F) = Some a" for a
        using ne [OF _ that] False that one(3) by (intro same) auto
      ultimately show ?thesis using cov one(4) by (auto simp: covers_def split: option.splits)
    qed
  qed
qed

lemma khold_le_open:
  assumes "\<forall>p\<in>set ps. permit_ok F g p" "p \<in> set ps" "\<not> lp_once p"
  shows "khold F p \<le> open_amount F ps"
proof -
  have "0 \<le> x" if "x \<in> set (map (\<lambda>p. if lp_once p then 0 else khold F p) ps)" for x
    using that assms(1) khold_nonneg by auto
  then have "(if lp_once p then 0 else khold F p) \<le> open_amount F ps"
    unfolding open_amount_def using assms(2) by (intro member_le_sum_list) auto
  then show ?thesis using assms(3) by simp
qed

lemma note_scope_looks:
  assumes "in_window F clk" "follows_bud F g" "scope_ok F sc"
  shows "looks F g (note_scope clk cfg s sc g)"
proof -
  have "looks F g (snd (bud_Spent clk (sc_key sc) (sc_win sc) g))"
    using assms by (intro store_call_looks(2)) (auto simp: scope_ok_def)
  then have "looks F g (note_spent cfg s sc (bud_Spent clk (sc_key sc) (sc_win sc) g))"
    by (cases "bud_Spent clk (sc_key sc) (sc_win sc) g")
       (auto simp: looks_def follows_bud_def gov_spent_def add_note_def)
  moreover have "looks F g g" using assms(2) by (simp add: looks_def)
  ultimately show ?thesis by (simp add: note_scope_def)
qed

lemma notes_looks:
  assumes "in_window F clk" "follows_bud F g" "\<forall>sc\<in>set scs. scope_ok F sc"
  shows "looks F g (fold (note_scope clk cfg s) scs g)"
  using assms(2,3)
proof (induction scs arbitrary: g)
  case Nil
  then show ?case by (simp add: looks_def)
next
  case (Cons sc scs)
  have l: "looks F g (note_scope clk cfg s sc g)" using Cons.prems by (intro note_scope_looks [OF assms(1)]) auto
  then have "looks F (note_scope clk cfg s sc g) (fold (note_scope clk cfg s) scs (note_scope clk cfg s sc g))"
    using Cons.prems(2) by (intro Cons.IH) (auto simp: looks_def)
  then show ?case using looks_trans [OF l] by simp
qed

lemma settle_money_minv:
  assumes win: "in_window F clk" and inv: "minv F ps g" and i: "i < length ps" "\<not> lp_once (ps ! i)"
    and act: "observed actual \<and> fo_key F \<in> sc_key ` set (lp_scopes (ps ! i)) \<longrightarrow> the actual \<le> khold F (ps ! i)"
  shows "minv F (ps[i := (ps ! i)\<lparr>lp_once := True\<rparr>]) (settle_money clk actual full inval (ps ! i) g)"
proof -
  let ?p = "ps ! i"
  let ?p' = "?p\<lparr>lp_once := True\<rparr>"
  define g1 where "g1 = (if observed actual then debit_scopes clk (the actual) (lp_scopes ?p) g else g)"
  let ?g = "fold (release_hold full inval) (lp_holds ?p) g1"
  have all: "\<forall>p\<in>set ps. permit_ok F g p" using minv_D(3) [OF inv] by blast
  have p: "permit_ok F g ?p" using all i(1) by simp
  have same: "gv_money g1 = gv_money g" "gv_states g1 = gv_states g" by (simp_all add: g1_def)
  have g1: "follows_bud F g1 \<and> gov_spent F g1 \<le> gov_spent F g + khold F ?p"
  proof (cases "observed actual")
    case True
    have n: "0 \<le> the actual" using True by (auto simp: observed_def split: option.splits)
    have "\<forall>sc\<in>set (lp_scopes ?p). scope_ok F sc" "distinct (map sc_key (lp_scopes ?p))"
      using p by (auto simp: permit_ok_def)
    from debit_scopes_follow [OF win n minv_D(1) [OF inv] this] show ?thesis
      using act True khold_nonneg [OF p] by (auto simp: g1_def split: if_splits)
  next
    case False
    then show ?thesis using minv_D(1) [OF inv] khold_nonneg [OF p] by (simp add: g1_def)
  qed
  have kle: "khold F ?p \<le> open_amount F ps" using khold_le_open [OF all _ i(2)] i(1) by simp
  have cov: "covers F (open_amount F ps - khold F ?p) ?g"
    using p i(2) minv_D(2,4) [OF inv] kle ledger_cong [OF same]
    by (intro release_covers) auto
  have op: "open_amount F (ps[i := ?p']) = open_amount F ps - khold F ?p"
    using open_amount_update [OF i(1), of F ?p'] i(2) by simp
  have perm: "permit_ok F ?g q" if "q \<in> set (ps[i := ?p'])" for q
  proof -
    have "q = ?p' \<or> q \<in> set ps" using that set_update_subset_insert [of ps i ?p'] by auto
    moreover have "permit_ok F g ?p'" using p by (auto simp: permit_ok_def claim_ok_def claims_def split: if_splits)
    ultimately have "permit_ok F g q" using all by auto
    then show ?thesis using permit_ok_same(1) [of ?g g] same by simp
  qed
  have "ledger_ok ?g" using minv_D(2) [OF inv] permit_ok_same(2) [of ?g g] same by simp
  moreover have "follows_bud F ?g" "gov_spent F ?g = gov_spent F g1"
    using g1 by (simp_all add: follows_bud_def gov_spent_def)
  ultimately show ?thesis
    using cov op perm g1 minv_D(5) [OF inv] unfolding minv_def settle_money_def g1_def [symmetric] by auto
qed

lemma finish_minv:
  assumes win: "in_window F clk" and inv: "minv F ps g" and i: "i < length ps"
    and act: "\<not> lp_once (ps ! i) \<and> observed actual \<and> fo_key F \<in> sc_key ` set (lp_scopes (ps ! i))
      \<longrightarrow> the actual \<le> khold F (ps ! i)"
    and run: "FinishLocalBudget clk cfg actual full inval (Some (ps ! i)) g = (Some p', g')"
  shows "minv F (ps[i := p']) g'"
proof (cases "lp_once (ps ! i)")
  case True
  then show ?thesis using run inv i by (auto simp: FinishLocalBudget_def)
next
  case False
  let ?g = "settle_money clk actual full inval (ps ! i) g"
  have m: "minv F (ps[i := (ps ! i)\<lparr>lp_once := True\<rparr>]) ?g"
    using act False by (intro settle_money_minv [OF win inv i False]) auto
  have "\<forall>sc\<in>set (lp_scopes (ps ! i)). scope_ok F sc"
    using minv_D(3) [OF inv nth_mem [OF i]] by (simp add: permit_ok_def)
  then have "looks F ?g (fold (note_scope clk cfg (lp_subject (ps ! i))) (lp_scopes (ps ! i)) ?g)"
    by (intro notes_looks [OF win minv_D(1) [OF m]])
  then show ?thesis using run False m looks_minv [OF m]
    by (auto simp: FinishLocalBudget_def split: if_splits)
qed

section \<open>Runs within one window\<close>

text \<open>
  Any interleaving of admissions and settlements while the clock stays in one window of the
  followed scope. An admission may hold at most \<open>fo_bound\<close> (an unbounded one sets aside what is
  left of the limit), and an observed cost stays within what its attempt holds.
\<close>

inductive money_run :: "followed \<Rightarrow> clock \<Rightarrow> msys \<Rightarrow> bool" for F clk where
  start: "follows_bud F g \<Longrightarrow> gv_money g = [] \<Longrightarrow> gov_spent F g < fo_limit F + fo_bound F \<Longrightarrow>
    money_run F clk \<lparr>ms_gov = g, ms_permits = []\<rparr>"
| admit: "money_run F clk s \<Longrightarrow> \<forall>sc\<in>set (localMoneyScopes cfg sub kp). scope_ok F sc \<Longrightarrow>
    bound \<le> fo_bound F \<Longrightarrow> \<not> bounded \<longrightarrow> fo_limit F \<le> fo_bound F \<Longrightarrow>
    ReserveLocalBudget clk cfg sub kp bound bounded (ms_gov s) = (Inr (Some p), g) \<Longrightarrow>
    money_run F clk \<lparr>ms_gov = g, ms_permits = ms_permits s @ [p]\<rparr>"
| refuse: "money_run F clk s \<Longrightarrow> \<forall>sc\<in>set (localMoneyScopes cfg sub kp). scope_ok F sc \<Longrightarrow>
    bound \<le> fo_bound F \<Longrightarrow> \<not> bounded \<longrightarrow> fo_limit F \<le> fo_bound F \<Longrightarrow>
    ReserveLocalBudget clk cfg sub kp bound bounded (ms_gov s) = (Inl e, g) \<Longrightarrow>
    money_run F clk (s\<lparr>ms_gov := g\<rparr>)"
| settle: "money_run F clk s \<Longrightarrow> i < length (ms_permits s) \<Longrightarrow>
    \<not> lp_once (ms_permits s ! i) \<and> observed actual \<and> fo_key F \<in> sc_key ` set (lp_scopes (ms_permits s ! i))
      \<longrightarrow> the actual \<le> khold F (ms_permits s ! i) \<Longrightarrow>
    FinishLocalBudget clk cfg actual full inval (Some (ms_permits s ! i)) (ms_gov s) = (Some p, g) \<Longrightarrow>
    money_run F clk \<lparr>ms_gov = g, ms_permits = (ms_permits s)[i := p]\<rparr>"

lemma money_run_minv:
  assumes "money_run F clk s" "in_window F clk" "0 < fo_limit F" "fo_limit F \<le> max_i64"
  shows "minv F (ms_permits s) (ms_gov s)"
  using assms(1)
proof (induction rule: money_run.induct)
  case (start g)
  then show ?case by (simp add: minv_def ledger_ok_def covers_def open_amount_def)
next
  case (admit s cfg sub kp bound bounded p g)
  then show ?case using reserve_minv [OF assms(2) admit.IH assms(3,4) admit.hyps(2-5)] by simp
next
  case (refuse s cfg sub kp bound bounded e g)
  then show ?case using reserve_minv [OF assms(2) refuse.IH assms(3,4) refuse.hyps(2-5)] by simp
next
  case (settle s i actual cfg full inval p g)
  then show ?case using finish_minv [OF assms(2) settle.IH settle.hyps(2-4)] by simp
qed

section \<open>Properties\<close>

text \<open>
  C2: Local money admission overshoots a blocking budget by at most one request. In any
  interleaving of admissions and settlements within one budget window, the recorded spend of the
  scope plus everything its unfinished attempts may still cost stays below the limit plus the
  bound of a single attempt: overlapping attempts do not multiply the overshoot. The clock stays in
  the window, the limit stays the same, and an attempt settles at most the amount that it holds.
\<close>

theorem overshoot_is_one_request:
  assumes "money_run F clk s" "in_window F clk" "0 < fo_limit F" "fo_limit F \<le> max_i64" "t < fo_ends F"
  shows "live_spend (gv_bud (ms_gov s)) (fo_key F) t + open_amount F (ms_permits s) < fo_limit F + fo_bound F
    \<and> 0 \<le> open_amount F (ms_permits s)"
proof -
  note inv = money_run_minv [OF assms(1-4)]
  have "entry_end F (gv_bud (ms_gov s))" using minv_D(1) [OF inv] by (simp add: follows_bud_def)
  then have "live_spend (gv_bud (ms_gov s)) (fo_key F) t = gov_spent F (ms_gov s)"
    using spent_of_live assms(5) by (simp add: gov_spent_def)
  moreover have "0 \<le> open_amount F (ms_permits s)"
    using minv_D(3) [OF inv] by (intro open_amount_nonneg [where g = "ms_gov s"]) blast
  ultimately show ?thesis using minv_D(5) [OF inv] by simp
qed

definition sample_sources :: TeamSources where
  "sample_sources = ConfigSources"

definition sample_team :: TeamPolicy where
  "sample_team = PolicyFromLimits
     \<lparr>lt_RatePerMin = 60, lt_TokensPerMinute = 6000, lt_TokensPerDay = 100000, lt_QuotaExceeded = ''block'',
      lt_BudgetMicrosPerMonth = 1000, lt_BudgetExceeded = ''block'', lt_BudgetMicrosPerDay = 0,
      lt_BudgetDayExceeded = ''block'', lt_Sources = sample_sources\<rparr>"

definition sample_cfg :: GovCfg where
  "sample_cfg = \<lparr>cf_shared = False, cf_teams = [(''acme'', sample_team)], cf_lookup = None, cf_userLookup = None,
     cf_leaseGate = None, cf_notifyBudget = True, cf_notifyKeyBudget = False, cf_budgetLoc = None\<rparr>"

definition sample_subject :: Subject where
  "sample_subject = \<lparr>sub_Team = ''acme'', sub_KeyID = ''k1'', sub_User = []\<rparr>"

definition sample_key :: KeyPolicy where
  "sample_key = \<lparr>kp_RatePerMin = 0, kp_TokensPerMinute = 0, kp_BudgetMicrosPerMonth = 0, kp_BudgetMicrosPerDay = 0\<rparr>"

definition sample_gov :: gov where
  "sample_gov = NewGovernor lim_NewMemory \<lparr>bm = [], maxEntries = 8, sweepTick = 0, rejected = 0\<rparr>"

definition sample_clock :: clock where
  "sample_clock = (\<lambda>_. second)"

definition sample_followed :: followed where
  "sample_followed = \<lparr>fo_key = budget_Key ScopeTeam ''acme'' (CalendarMonthIn None), fo_win = CalendarMonthIn None,
     fo_limit = 1000, fo_ends = windowEnd second (CalendarMonthIn None), fo_bound = 700\<rparr>"

text \<open>Two overlapping attempts of 600 and 700; a third is refused.\<close>

definition sample_admit :: "i64 \<Rightarrow> gov \<Rightarrow> (admission_error + LocalBudgetPermit option) \<times> gov" where
  "sample_admit n g = ReserveLocalBudget sample_clock sample_cfg sample_subject sample_key n True g"

definition sample_p1 :: LocalBudgetPermit where "sample_p1 = the (projr (fst (sample_admit 600 sample_gov)))"
definition sample_g1 :: gov where "sample_g1 = snd (sample_admit 600 sample_gov)"
definition sample_p2 :: LocalBudgetPermit where "sample_p2 = the (projr (fst (sample_admit 700 sample_g1)))"
definition sample_g2 :: gov where "sample_g2 = snd (sample_admit 700 sample_g1)"

definition admitted :: "admission_error + LocalBudgetPermit option \<Rightarrow> bool" where
  "admitted r = (case r of Inl _ \<Rightarrow> False | Inr p \<Rightarrow> (case p of None \<Rightarrow> False | Some _ \<Rightarrow> True))"

lemma admitted_eq: "admitted (fst x) \<Longrightarrow> x = (Inr (Some (the (projr (fst x)))), snd x)"
  by (cases x) (auto simp: admitted_def split: sum.splits option.splits)

lemma sample_admitted: "admitted (fst (sample_admit 600 sample_gov))" "admitted (fst (sample_admit 700 sample_g1))"
  "isl (fst (sample_admit 1 sample_g2))"
  by code_simp+

lemma sample_scope: "\<forall>sc\<in>set (localMoneyScopes sample_cfg sample_subject sample_key). scope_ok sample_followed sc"
  by (simp add: localMoneyScopes_def sample_cfg_def sample_subject_def sample_key_def policyOf_def userPolicyOf_def
      gget_def sample_team_def PolicyFromLimits_def add_scope_def scope_ok_def sample_followed_def Let_def
      monthWindow_def dayWindow_def)

lemma sample_window: "in_window sample_followed sample_clock"
proof -
  have "second < windowEnd second (CalendarMonthIn None)" by code_simp
  then show ?thesis by (simp add: in_window_def sample_followed_def sample_clock_def)
qed

lemma sample_start: "money_run sample_followed sample_clock \<lparr>ms_gov = sample_gov, ms_permits = []\<rparr>"
  by (rule money_run.start)
     (simp_all add: follows_bud_def sample_gov_def NewGovernor_def mem_ok_def sweepEvery_def entry_end_def
        gov_spent_def spent_of_def live_spend_def sample_followed_def)

lemma sample_two: "money_run sample_followed sample_clock \<lparr>ms_gov = sample_g2, ms_permits = [sample_p1, sample_p2]\<rparr>"
proof -
  have "money_run sample_followed sample_clock \<lparr>ms_gov = sample_g1, ms_permits = [] @ [sample_p1]\<rparr>"
    using money_run.admit [OF sample_start sample_scope, of 600 True sample_p1 sample_g1]
      admitted_eq [OF sample_admitted(1)]
    by (simp add: sample_p1_def sample_g1_def sample_admit_def sample_followed_def)
  from money_run.admit [OF this sample_scope, of 700 True sample_p2 sample_g2] show ?thesis
    using admitted_eq [OF sample_admitted(2)]
    by (simp add: sample_p2_def sample_g2_def sample_admit_def sample_followed_def)
qed

theorem overshoot_is_one_request_witness:
  "isl (fst (sample_admit 1 sample_g2)) \<and> open_amount sample_followed [sample_p1, sample_p2] = 1300
   \<and> live_spend (gv_bud sample_g2) (fo_key sample_followed) second + 1300 < 1000 + 700"
proof -
  have op: "open_amount sample_followed [sample_p1, sample_p2] = 1300" by code_simp
  have "second < fo_ends sample_followed" using sample_window by (auto simp: in_window_def sample_clock_def)
  from overshoot_is_one_request [OF sample_two sample_window _ _ this] op sample_admitted(3) show ?thesis
    by (simp add: sample_followed_def max_i64_def)
qed

section \<open>Settlement counts once\<close>

lemma known_tracked: "entry_end F b \<Longrightarrow> t < fo_ends F \<Longrightarrow> known b (fo_key F) \<longleftrightarrow> tracked b (fo_key F) t"
  by (auto simp: known_def tracked_def entry_end_def)

lemma bud_Debit_exact:
  assumes "in_window F clk" "0 \<le> n" "follows_bud F g" "known (gv_bud g) (fo_key F)" "key = fo_key F \<longrightarrow> w = fo_win F"
  shows "follows_bud F (bud_Debit clk key n w g)" "known (gv_bud (bud_Debit clk key n w g)) (fo_key F)"
    "gov_spent F (bud_Debit clk key n w g) = (if key = fo_key F then sat_add64 (gov_spent F g) n else gov_spent F g)"
proof -
  let ?g = "bud_Debit clk key n w g"
  let ?t = "clk (gv_reads g)"
  have t: "?t < fo_ends F" "windowEnd ?t (fo_win F) = fo_ends F" using assms(1) by (simp_all add: in_window_def)
  have ok: "mem_ok (gv_bud g)" "entry_end F (gv_bud g)" using assms(3) by (simp_all add: follows_bud_def)
  note d = Debit_follow [OF ok t assms(5,2)]
  have bud: "gv_bud ?g = Debit ?t key n w (gv_bud g)" by (simp add: bud_Debit_def)
  show "follows_bud F ?g" using d(1,2) bud by (simp add: follows_bud_def)
  have tr: "tracked (gv_bud g) (fo_key F) ?t" using assms(4) known_tracked [OF ok(2) t(1)] by simp
  show "known (gv_bud ?g) (fo_key F)"
    using bc.debit_tracked [OF ok(1) tr] known_tracked [OF d(2) t(1)] bud by simp
  show "gov_spent F ?g = (if key = fo_key F then sat_add64 (gov_spent F g) n else gov_spent F g)"
    using bc.debit_counts [OF ok(1) tr assms(2)] bc.debit_frame [OF ok(1), of "fo_key F" key ?t n w]
      spent_of_live [OF ok(2) t(1)] spent_of_live [OF d(2) t(1)] bud
    by (auto simp: gov_spent_def)
qed

lemma debit_scopes_exact:
  assumes "in_window F clk" "0 \<le> n"
    and "follows_bud F g" "known (gv_bud g) (fo_key F)"
    and "\<forall>sc\<in>set scs. scope_ok F sc" "distinct (map sc_key scs)"
  shows "gov_spent F (debit_scopes clk n scs g) =
    (if fo_key F \<in> sc_key ` set scs then sat_add64 (gov_spent F g) n else gov_spent F g)"
  using assms(3-6)
proof (induction scs arbitrary: g)
  case Nil
  then show ?case by (simp add: debit_scopes_def)
next
  case (Cons sc scs)
  have w: "sc_key sc = fo_key F \<longrightarrow> sc_win sc = fo_win F" using Cons.prems(3) by (simp add: scope_ok_def)
  note d = bud_Debit_exact [OF assms(1,2) Cons.prems(1,2) w]
  have "debit_scopes clk n (sc # scs) g = debit_scopes clk n scs (bud_Debit clk (sc_key sc) n (sc_win sc) g)"
    by (simp add: debit_scopes_def)
  moreover have "sc_key sc = fo_key F \<Longrightarrow> fo_key F \<notin> sc_key ` set scs" using Cons.prems(4) by auto
  ultimately show ?case using Cons.IH [OF d(1,2)] Cons.prems(3,4) d(3) by auto
qed

text \<open>
  Settling an attempt counts its observed cost exactly once. The first settlement adds the
  cost to the counter of every scope the attempt was admitted under, blocking or not (and to no
  other counter), however its holds end; settling the same permit again, with any arguments,
  changes neither the permit nor the governor.
\<close>

theorem settlement_counts_once:
  assumes "in_window F clk" "follows_bud F g" "known (gv_bud g) (fo_key F)"
    and "\<not> lp_once p" "distinct (map sc_key (lp_scopes p))" "\<forall>sc\<in>set (lp_scopes p). scope_ok F sc" "0 \<le> n"
    and "FinishLocalBudget clk cfg (Some n) full inval (Some p) g = (Some p', g')"
  shows "gov_spent F g' = (if fo_key F \<in> sc_key ` set (lp_scopes p) then sat_add64 (gov_spent F g) n else gov_spent F g)
    \<and> FinishLocalBudget clk cfg actual full' inval' (Some p') g' = (Some p', g')"
proof -
  let ?d = "debit_scopes clk n (lp_scopes p) g"
  let ?g = "fold (release_hold full inval) (lp_holds p) ?d"
  have obs: "observed (Some n)" using assms(7) by (simp add: observed_def)
  have fin: "p' = p\<lparr>lp_once := True\<rparr>" "g' = fold (note_scope clk cfg (lp_subject p)) (lp_scopes p) ?g"
    using assms(4,8) obs by (auto simp: FinishLocalBudget_def settle_money_def)
  have d: "follows_bud F ?d" using debit_scopes_follow [OF assms(1,7,2,6,5)] by blast
  then have "follows_bud F ?g" "gov_spent F ?g = gov_spent F ?d" by (simp_all add: follows_bud_def gov_spent_def)
  moreover have "looks F ?g g'" unfolding fin(2) using assms(1,6) calculation(1) by (intro notes_looks) auto
  ultimately have "gov_spent F g' = gov_spent F ?d" by (simp add: looks_def)
  then show ?thesis using debit_scopes_exact [OF assms(1,7,2,3,6,5)] fin(1) by (simp add: FinishLocalBudget_def)
qed

theorem settlement_counts_once_witness:
  "gov_spent sample_followed
     (snd (FinishLocalBudget sample_clock sample_cfg (Some 500) True False (Some sample_p1) sample_g2)) = 500"
proof -
  have fb: "follows_bud sample_followed sample_g2"
    using minv_D(1) [OF money_run_minv [OF sample_two sample_window]] by (simp add: sample_followed_def max_i64_def)
  have k: "known (gv_bud sample_g2) (fo_key sample_followed)"
  proof -
    have "(case gget (bm (gv_bud sample_g2)) (fo_key sample_followed) of None \<Rightarrow> False | Some v \<Rightarrow> True)" by code_simp
    then show ?thesis by (auto simp: known_def split: option.splits)
  qed
  have p: "\<not> lp_once sample_p1" "fo_key sample_followed \<in> set (map sc_key (lp_scopes sample_p1))" by code_simp+
  have z: "gov_spent sample_followed sample_g2 = 0" by code_simp
  have "permit_ok sample_followed sample_g2 sample_p1"
    using minv_D(3) [OF money_run_minv [OF sample_two sample_window]] by (simp add: sample_followed_def max_i64_def)
  then have ok: "distinct (map sc_key (lp_scopes sample_p1))" "\<forall>sc\<in>set (lp_scopes sample_p1). scope_ok sample_followed sc"
    by (auto simp: permit_ok_def)
  obtain p' g' where f: "FinishLocalBudget sample_clock sample_cfg (Some 500) True False (Some sample_p1) sample_g2 = (Some p', g')"
    using p(1) by (auto simp: FinishLocalBudget_def)
  from settlement_counts_once [OF sample_window fb k p(1) ok _ f] show ?thesis
    using p(2) z f by (simp add: sat_add64_def max_i64_def)
qed

end
