(* ===== verification/Governance_Check.thy ===== *)
theory Governance_Check
  imports Governance_Overshoot
begin

text \<open>
  The check in front of a provider call (\<open>PreCheck\<close> in
  \<open>src/internal/governance/governance.go\<close>), the admission handle it returns
  (\<open>admission.go\<close>) and the pricing guard. Each block of \<open>PreCheck\<close> that may return early is
  a stage: it yields the denial it returns, if any, and the state it leaves; the stages run in
  the order of the source until one denies.
\<close>

section \<open>Decisions\<close>

record GovDecision =
  gd_Allowed :: bool
  gd_Status :: i64
  gd_Reason :: string
  gd_Code :: "DenyReason option"
  gd_Governance :: "GovernanceRef option"

definition allow_decision :: GovDecision where
  "allow_decision = \<lparr>gd_Allowed = True, gd_Status = 0, gd_Reason = [], gd_Code = None, gd_Governance = None\<rparr>"

definition deny_decision :: "i64 \<Rightarrow> string \<Rightarrow> DenyReason \<Rightarrow> GovernanceRef option \<Rightarrow> GovDecision" where
  "deny_decision status reason code ref =
     \<lparr>gd_Allowed = False, gd_Status = status, gd_Reason = reason, gd_Code = Some code, gd_Governance = ref\<rparr>"

definition mustDenyBudget :: "Decision \<Rightarrow> string \<Rightarrow> bool" where
  "mustDenyBudget dec onExceeded \<longleftrightarrow> dec = BlockCapacity \<or> dec = Block \<and> onExceeded \<noteq> ''warn''"

text \<open>The dash of the message, in UTF-8, and the date layout \<open>2006-01-02\<close>.\<close>

definition em_dash :: string where
  "em_dash = [char_of (226::nat), char_of (128::nat), char_of (148::nat)]"

fun format_date :: "int \<times> int \<times> int \<Rightarrow> string" where
  "format_date (y, m, d) =
     pad 4 y @ ''-'' @ pad 2 m @ ''-'' @ pad 2 d"

definition budgetExceededMessage :: "string \<Rightarrow> gotime \<Rightarrow> Location \<Rightarrow> string \<Rightarrow> string" where
  "budgetExceededMessage kind resetsAt loc adminContact =
     kind @ '' exceeded '' @ em_dash @ '' resets '' @ format_date (civil_in loc resetsAt)
     @ (if adminContact \<noteq> [] then ''. Contact your admin: '' @ adminContact else [])"

section \<open>Admissions\<close>

record Admission =
  ad_once :: bool
  ad_rates :: "finisher list"
  ad_estimate :: i64
  ad_cost :: i64
  ad_missing :: bool
  ad_moneyOwned :: bool
  ad_dispatched :: bool

definition new_admission :: "i64 \<Rightarrow> Admission" where
  "new_admission est = \<lparr>ad_once = False, ad_rates = [], ad_estimate = est, ad_cost = 0, ad_missing = True,
     ad_moneyOwned = False, ad_dispatched = False\<rparr>"

fun finish_each :: "i64 option \<Rightarrow> finisher list \<Rightarrow> lim_Memory \<Rightarrow> finisher list \<times> lim_Memory" where
  "finish_each actual [] m = ([], m)"
| "finish_each actual (f # fs) m =
     (let r = finish_rate actual f m; rs = finish_each actual fs (snd r) in (fst r # fst rs, snd rs))"

definition finishRates :: "i64 option \<Rightarrow> Admission \<Rightarrow> gov \<Rightarrow> Admission \<times> gov" where
  "finishRates actual a g =
     (let r = finish_each actual (ad_rates a) (gv_lim g) in (a\<lparr>ad_rates := fst r\<rparr>, g\<lparr>gv_lim := snd r\<rparr>))"

definition finish_once :: "i64 option \<Rightarrow> Admission \<Rightarrow> gov \<Rightarrow> Admission \<times> gov" where
  "finish_once actual a g = (if ad_once a then (a, g) else finishRates actual (a\<lparr>ad_once := True\<rparr>) g)"

definition ad_Close :: "Admission \<Rightarrow> gov \<Rightarrow> Admission \<times> gov" where
  "ad_Close a g = finish_once None a g"

definition ad_Cancel :: "Admission \<Rightarrow> gov \<Rightarrow> Admission \<times> gov" where
  "ad_Cancel a g = finish_once (Some 0) a g"

definition OwnLocalMoney :: "Admission \<Rightarrow> Admission" where
  "OwnLocalMoney a = a\<lparr>ad_moneyOwned := True\<rparr>"

definition MarkDispatched :: "Admission \<Rightarrow> Admission" where
  "MarkDispatched a = a\<lparr>ad_dispatched := True\<rparr>"

definition CancelUndispatched :: "Admission \<Rightarrow> gov \<Rightarrow> Admission \<times> gov" where
  "CancelUndispatched a g = (if \<not> ad_dispatched a then ad_Cancel a g else (a, g))"

section \<open>Stages\<close>

type_synonym pcstate = "Admission \<times> gov"
type_synonym stage = "pcstate \<Rightarrow> GovDecision option \<times> pcstate"

fun first_denial :: "stage list \<Rightarrow> pcstate \<Rightarrow> GovDecision option \<times> pcstate"
and continue_with :: "stage list \<Rightarrow> GovDecision option \<times> pcstate \<Rightarrow> GovDecision option \<times> pcstate" where
  "first_denial [] st = (None, st)"
| "first_denial (s # ss) st = continue_with ss (s st)"
| "continue_with ss (Some d, st) = (Some d, st)"
| "continue_with ss (None, st) = first_denial ss st"

definition lease_stage :: "GovCfg \<Rightarrow> Subject \<Rightarrow> stage" where
  "lease_stage cfg s st =
     ((case cf_leaseGate cfg of
         None \<Rightarrow> None
       | Some gate \<Rightarrow> map_option (\<lambda>reason. deny_decision 402 reason DenyTeamBudgetExceeded
           (Some (denial GovScopeTeam GovLimitBudget (source_named GovSourceLease)))) (gate (sub_Team s))), st)"

fun rate_checked :: "GovDecision \<Rightarrow> Admission \<Rightarrow> bool \<times> gov \<Rightarrow> GovDecision option \<times> pcstate" where
  "rate_checked d a (allowed, g) = (if allowed then None else Some d, (a, g))"

fun rate_stage :: "clock \<Rightarrow> string \<Rightarrow> i64 \<Rightarrow> i64 \<Rightarrow> GovDecision \<Rightarrow> stage" where
  "rate_stage clk key rate burst d (a, g) =
     (if rate > 0 then rate_checked d a (lim_AllowRate clk key 1 rate burst g) else (None, (a, g)))"

fun rate_reserved :: "GovDecision \<Rightarrow> Admission \<Rightarrow> finisher option \<times> gov \<Rightarrow> GovDecision option \<times> pcstate" where
  "rate_reserved d a (None, g) = (Some d, (a, g))"
| "rate_reserved d a (Some f, g) = (None, (a\<lparr>ad_rates := ad_rates a @ [f]\<rparr>, g))"

fun reserve_stage :: "clock \<Rightarrow> string \<Rightarrow> i64 \<Rightarrow> i64 \<Rightarrow> GovDecision \<Rightarrow> stage" where
  "reserve_stage clk key est rate d (a, g) =
     (if rate > 0 then rate_reserved d a (lim_ReserveRate clk key est rate rate g) else (None, (a, g)))"

fun quota_checked :: "GovDecision \<Rightarrow> string \<Rightarrow> Admission \<Rightarrow> lim_Decision \<times> gov \<Rightarrow> GovDecision option \<times> pcstate" where
  "quota_checked d mode a (dec, g) = (if dec = LimBlock \<and> mode \<noteq> ''warn'' then Some d else None, (a, g))"

fun quota_stage :: "clock \<Rightarrow> string \<Rightarrow> i64 \<Rightarrow> i64 \<Rightarrow> string \<Rightarrow> GovDecision \<Rightarrow> stage" where
  "quota_stage clk key est limit mode d (a, g) =
     (if limit > 0 then quota_checked d mode a (lim_CheckQuota clk key est limit (24 * hour) g) else (None, (a, g)))"

text \<open>
  One window of a two-window budget check: the denial kept so far with its reset instant, and
  how a refusal is worded. A refusal replaces a kept one only when its window resets sooner.
\<close>

type_synonym wording = "gotime \<Rightarrow> Decision \<Rightarrow> GovDecision"

fun keep_soonest ::
  "wording \<Rightarrow> Decision \<Rightarrow> GovDecision option \<times> gotime \<Rightarrow> gotime \<times> gov \<Rightarrow> (GovDecision option \<times> gotime) \<times> gov" where
  "keep_soonest mk dec (kept, keptResets) (resetsAt, g) =
     (if kept = None \<or> resetsAt < keptResets then ((Some (mk resetsAt dec), resetsAt), g) else ((kept, keptResets), g))"

fun window_checked ::
  "clock \<Rightarrow> string \<Rightarrow> Window \<Rightarrow> string \<Rightarrow> wording \<Rightarrow> GovDecision option \<times> gotime \<Rightarrow> Decision \<times> gov
     \<Rightarrow> (GovDecision option \<times> gotime) \<times> gov" where
  "window_checked clk key w mode mk kept (dec, g) =
     (if mustDenyBudget dec mode then keep_soonest mk dec kept (bud_ResetsAt clk key w g) else (kept, g))"

definition window_check ::
  "clock \<Rightarrow> string \<Rightarrow> Window \<Rightarrow> i64 \<Rightarrow> string \<Rightarrow> wording \<Rightarrow> GovDecision option \<times> gotime \<Rightarrow> gov
     \<Rightarrow> (GovDecision option \<times> gotime) \<times> gov" where
  "window_check clk key w limit mode mk kept g =
     (if limit > 0 then window_checked clk key w mode mk kept (bud_Check clk key 0 limit w g) else (kept, g))"

fun day_check ::
  "clock \<Rightarrow> string \<Rightarrow> Window \<Rightarrow> i64 \<Rightarrow> string \<Rightarrow> wording \<Rightarrow> Admission
     \<Rightarrow> (GovDecision option \<times> gotime) \<times> gov \<Rightarrow> GovDecision option \<times> pcstate" where
  "day_check clk key w limit mode mk a (kept, g) =
     (case window_check clk key w limit mode mk kept g of (kept', g') \<Rightarrow> (fst kept', (a, g')))"

fun budget_stage ::
  "clock \<Rightarrow> GovCfg \<Rightarrow> string \<Rightarrow> string \<Rightarrow> i64 \<Rightarrow> string \<Rightarrow> wording \<Rightarrow> i64 \<Rightarrow> string \<Rightarrow> wording \<Rightarrow> stage" where
  "budget_stage clk cfg scope ident mlimit mmode mmk dlimit dmode dmk (a, g) =
     day_check clk (budget_Key scope ident (dayWindow cfg)) (dayWindow cfg) dlimit dmode dmk a
       (window_check clk (budget_Key scope ident (monthWindow cfg)) (monthWindow cfg) mlimit mmode mmk (None, 0) g)"

definition budget_words ::
  "GovCfg \<Rightarrow> string \<Rightarrow> string \<Rightarrow> DenyReason \<Rightarrow> string \<Rightarrow> string \<Rightarrow> LimitSource \<Rightarrow> wording" where
  "budget_words cfg kind contact code scope limit src resetsAt dec =
     deny_decision 402 (budgetExceededMessage kind resetsAt (budgetLocOrUTC cfg) contact) code
       (Some (budgetDenial scope limit src dec))"

definition team_stages :: "clock \<Rightarrow> GovCfg \<Rightarrow> Subject \<Rightarrow> i64 \<Rightarrow> TeamPolicy \<Rightarrow> stage list" where
  "team_stages clk cfg s est p =
     [rate_stage clk (''rate:'' @ sub_Team s) (tp_RatePerMin p) (max64 (tp_RateBurst p) 1)
        (deny_decision 429 ''rate limit exceeded'' DenyTeamRateLimited
           (Some (denial GovScopeTeam GovLimitRPM (src_Rate (tp_Sources p))))),
      reserve_stage clk (''tpm:'' @ sub_Team s) est (tp_TokensPerMinute p)
        (deny_decision 429 ''token rate limit exceeded'' DenyTeamTokenRateLimited
           (Some (denial GovScopeTeam GovLimitTPM (src_TokenRate (tp_Sources p))))),
      quota_stage clk (''quota:'' @ sub_Team s) est (tp_TokensPerDay p) (tp_QuotaExceeded p)
        (deny_decision 429 ''token quota exceeded'' DenyTeamQuotaExceeded
           (Some (denial GovScopeTeam GovLimitTokensPerDay (src_Quota (tp_Sources p))))),
      budget_stage clk cfg ScopeTeam (sub_Team s)
        (tp_BudgetMicrosPerMonth p) (tp_BudgetExceeded p)
        (budget_words cfg ''budget'' (tp_AdminContact p) DenyTeamBudgetExceeded GovScopeTeam GovLimitBudgetMonth
           (src_Budget (tp_Sources p)))
        (tp_BudgetMicrosPerDay p) (tp_BudgetDayExceeded p)
        (budget_words cfg ''daily budget'' (tp_AdminContact p) DenyTeamBudgetExceeded GovScopeTeam GovLimitBudgetDay
           (src_BudgetDay (tp_Sources p)))]"

definition key_stages :: "clock \<Rightarrow> GovCfg \<Rightarrow> Subject \<Rightarrow> KeyPolicy \<Rightarrow> i64 \<Rightarrow> stage list" where
  "key_stages clk cfg s kp est =
     [rate_stage clk (''rate:key:'' @ sub_KeyID s) (kp_RatePerMin kp) (kp_RatePerMin kp)
        (deny_decision 429 ''key rate limit exceeded'' DenyKeyRateLimited
           (Some (denial GovScopeKey GovLimitRPM keySource))),
      reserve_stage clk (''tpm:key:'' @ sub_KeyID s) est (kp_TokensPerMinute kp)
        (deny_decision 429 ''key token rate limit exceeded'' DenyKeyTokenRateLimited
           (Some (denial GovScopeKey GovLimitTPM keySource))),
      budget_stage clk cfg ScopeKey (sub_KeyID s)
        (kp_BudgetMicrosPerMonth kp) []
        (budget_words cfg ''key budget'' [] DenyKeyBudgetExceeded GovScopeKey GovLimitBudgetMonth keySource)
        (kp_BudgetMicrosPerDay kp) []
        (budget_words cfg ''key daily budget'' [] DenyKeyBudgetExceeded GovScopeKey GovLimitBudgetDay keySource)]"

definition user_stages :: "clock \<Rightarrow> GovCfg \<Rightarrow> Subject \<Rightarrow> UserPolicy \<Rightarrow> stage list" where
  "user_stages clk cfg s up =
     [budget_stage clk cfg ScopeUser (userBudgetID s)
        (up_BudgetMicrosPerMonth up) (up_BudgetExceeded up)
        (budget_words cfg ''user budget'' (up_AdminContact up) DenyUserBudgetExceeded GovScopeUser GovLimitBudgetMonth
           (usrc_Budget (up_Sources up)))
        (up_BudgetMicrosPerDay up) (up_BudgetExceeded up)
        (budget_words cfg ''user daily budget'' (up_AdminContact up) DenyUserBudgetExceeded GovScopeUser GovLimitBudgetDay
           (usrc_BudgetDay (up_Sources up)))]"

definition precheck_stages :: "clock \<Rightarrow> GovCfg \<Rightarrow> Subject \<Rightarrow> KeyPolicy \<Rightarrow> i64 \<Rightarrow> stage list" where
  "precheck_stages clk cfg s kp est =
     [lease_stage cfg s]
     @ (case policyOf cfg (sub_Team s) of None \<Rightarrow> [] | Some p \<Rightarrow> team_stages clk cfg s est p)
     @ key_stages clk cfg s kp est
     @ (case userPolicyOf cfg s of None \<Rightarrow> [] | Some up \<Rightarrow> user_stages clk cfg s up)"

text \<open>The deferred \<open>a.Cancel()\<close> of a denial.\<close>

fun conclude :: "GovDecision option \<times> pcstate \<Rightarrow> GovDecision \<times> Admission \<times> gov" where
  "conclude (None, (a, g)) = (allow_decision, a, g)"
| "conclude (Some d, (a, g)) = (d, ad_Cancel a g)"

definition PreCheck :: "clock \<Rightarrow> GovCfg \<Rightarrow> Subject \<Rightarrow> KeyPolicy \<Rightarrow> i64 \<Rightarrow> gov \<Rightarrow> GovDecision \<times> Admission \<times> gov" where
  "PreCheck clk cfg s kp est g =
     (if est < 0
      then conclude (Some (deny_decision 429 ''invalid token estimate'' DenyInvalidTokenEstimate None), (new_admission est, g))
      else if cf_shared cfg then conclude (None, (new_admission est, g))
      else conclude (first_denial (precheck_stages clk cfg s kp est) (new_admission est, g)))"

section \<open>The pricing guard\<close>

record PricedTarget =
  pt_Provider :: string
  pt_Upstream :: string

fun unpriced :: "Table \<Rightarrow> PricedTarget list \<Rightarrow> PricedTarget option" where
  "unpriced t [] = None"
| "unpriced t (x # xs) = (if \<not> HasRate (Some t) (pt_Provider x) (pt_Upstream x) then Some x else unpriced t xs)"

definition PricingGuard :: "Table option \<Rightarrow> PricedTarget list \<Rightarrow> GovDecision" where
  "PricingGuard table targets =
     (case table of
        None \<Rightarrow> allow_decision
      | Some t \<Rightarrow>
          if onMissing t \<noteq> OnMissingBlock then allow_decision
          else (case unpriced t targets of
                  None \<Rightarrow> allow_decision
                | Some x \<Rightarrow> deny_decision 402 (''no pricing rate for '' @ pt_Provider x @ ''/'' @ pt_Upstream x)
                    DenyPricingMissing (Some PricingDenial)))"

end
