(* ===== verification/Governance_Denials.thy ===== *)
theory Governance_Denials
  imports Governance_Check
begin

text \<open>
  What \<open>PreCheck\<close> promises: a refusal names the limit behind it, leaves no reservation behind,
  and an exceeded blocking budget is never admitted. The argument about a sequence of early
  returns is made once, for any invariant of the stages.
\<close>

section \<open>Sequences of stages\<close>

locale stage_contract =
  fixes ok :: "pcstate \<Rightarrow> bool"
    and good :: "GovDecision \<Rightarrow> bool"
    and stages :: "stage list"
  assumes stage_keeps: "s \<in> set stages \<Longrightarrow> ok st \<Longrightarrow> ok (snd (s st))"
    and stage_denies: "s \<in> set stages \<Longrightarrow> ok st \<Longrightarrow> fst (s st) = Some d \<Longrightarrow> good d"
begin

lemma run_stages:
  "set ss \<subseteq> set stages \<Longrightarrow> ok st \<Longrightarrow>
   ok (snd (first_denial ss st)) \<and> (\<forall>d. fst (first_denial ss st) = Some d \<longrightarrow> good d)"
proof (induction ss arbitrary: st)
  case Nil
  then show ?case by simp
next
  case (Cons s ss)
  obtain r st' where s: "s st = (r, st')" by (cases "s st")
  have ok': "ok st'" using stage_keeps [of s st] Cons.prems s by simp
  show ?case
  proof (cases r)
    case None
    then show ?thesis using Cons.IH [OF _ ok'] Cons.prems(1) s by simp
  next
    case (Some d)
    then show ?thesis using ok' stage_denies [of s st d] Cons.prems s by simp
  qed
qed

lemma first_denial_keeps: "ok st \<Longrightarrow> ok (snd (first_denial stages st))"
  using run_stages [of stages st] by simp

lemma first_denial_good: "ok st \<Longrightarrow> fst (first_denial stages st) = Some d \<Longrightarrow> good d"
  using run_stages [of stages st] by simp

text \<open>A stage that denies in every state the invariant allows makes the sequence deny.\<close>

lemma denies_in_sequence:
  "set ss \<subseteq> set stages \<Longrightarrow> s \<in> set ss \<Longrightarrow> \<forall>st. ok st \<longrightarrow> fst (s st) \<noteq> None \<Longrightarrow> ok st \<Longrightarrow>
   fst (first_denial ss st) \<noteq> None"
proof (induction ss arbitrary: st)
  case Nil
  then show ?case by simp
next
  case (Cons x ss)
  obtain r st' where x: "x st = (r, st')" by (cases "x st")
  have ok': "ok st'" using stage_keeps [of x st] Cons.prems x by simp
  show ?case
  proof (cases r)
    case (Some d)
    then show ?thesis using x by simp
  next
    case None
    have "fst (s st) \<noteq> None" using Cons.prems(3) [rule_format, OF Cons.prems(4)] by simp
    then have "s \<noteq> x" using x None by auto
    then show ?thesis using Cons.IH [OF _ _ Cons.prems(3) ok'] Cons.prems(1,2) x None by simp
  qed
qed

lemma stage_decides:
  "s \<in> set stages \<Longrightarrow> \<forall>st. ok st \<longrightarrow> fst (s st) \<noteq> None \<Longrightarrow> ok st \<Longrightarrow> fst (first_denial stages st) \<noteq> None"
  by (rule denies_in_sequence) auto

end

section \<open>Denials name their limit\<close>

text \<open>The scope and the HTTP status that belong to a deny code of the check.\<close>

fun code_scope :: "DenyReason \<Rightarrow> string" where
  "code_scope DenyKeyRateLimited = GovScopeKey"
| "code_scope DenyKeyTokenRateLimited = GovScopeKey"
| "code_scope DenyKeyBudgetExceeded = GovScopeKey"
| "code_scope DenyUserBudgetExceeded = GovScopeUser"
| "code_scope DenyPricingMissing = GovScopeGateway"
| "code_scope _ = GovScopeTeam"

fun code_status :: "DenyReason \<Rightarrow> i64" where
  "code_status DenyTeamBudgetExceeded = 402"
| "code_status DenyKeyBudgetExceeded = 402"
| "code_status DenyUserBudgetExceeded = 402"
| "code_status DenyPricingMissing = 402"
| "code_status _ = 429"

definition names_limit :: "GovDecision \<Rightarrow> bool" where
  "names_limit d \<longleftrightarrow> \<not> gd_Allowed d \<and> (\<exists>code ref. gd_Code d = Some code \<and> gd_Governance d = Some ref
     \<and> ref_Scope ref = code_scope code \<and> gd_Status d = code_status code)"

lemma deny_names_limit:
  "ref_Scope ref = code_scope code \<Longrightarrow> status = code_status code \<Longrightarrow>
   names_limit (deny_decision status reason code (Some ref))"
  by (simp add: names_limit_def deny_decision_def)

lemma denial_scope [simp]: "ref_Scope (denial scope limit src) = scope"
  "ref_Scope (budgetDenial scope limit src dec) = scope"
  by (simp_all add: denial_def limitRef_def budgetDenial_def)

lemma window_check_words:
  assumes "\<forall>d. fst kept = Some d \<longrightarrow> P d" "\<forall>t dec. P (mk t dec)"
  shows "\<forall>d. fst (fst (window_check clk key w limit mode mk kept g)) = Some d \<longrightarrow> P d"
  using assms
  by (cases kept; cases "bud_Check clk key 0 limit w g"; cases "bud_ResetsAt clk key w (snd (bud_Check clk key 0 limit w g))")
     (auto simp: window_check_def)

lemma budget_stage_eq:
  "budget_stage clk cfg scope ident ml mm mk1 dl dm mk2 (a, g) =
     (let r1 = window_check clk (budget_Key scope ident (monthWindow cfg)) (monthWindow cfg) ml mm mk1 (None, 0) g;
          r2 = window_check clk (budget_Key scope ident (dayWindow cfg)) (dayWindow cfg) dl dm mk2 (fst r1) (snd r1)
      in (fst (fst r2), (a, snd r2)))"
  by (cases "window_check clk (budget_Key scope ident (monthWindow cfg)) (monthWindow cfg) ml mm mk1 (None, 0) g")
     (simp add: Let_def case_prod_unfold)

lemma budget_stage_words:
  assumes "\<forall>t dec. P (mk1 t dec)" "\<forall>t dec. P (mk2 t dec)"
    and "fst (budget_stage clk cfg scope ident ml mm mk1 dl dm mk2 st) = Some d"
  shows "P d"
proof (cases st)
  case (Pair a g)
  let ?r1 = "window_check clk (budget_Key scope ident (monthWindow cfg)) (monthWindow cfg) ml mm mk1 (None, 0) g"
  have "\<forall>d. fst (fst ?r1) = Some d \<longrightarrow> P d" by (rule window_check_words) (use assms in auto)
  then have "\<forall>d. fst (fst (window_check clk (budget_Key scope ident (dayWindow cfg)) (dayWindow cfg) dl dm mk2
      (fst ?r1) (snd ?r1))) = Some d \<longrightarrow> P d"
    by (rule window_check_words) (use assms in auto)
  then show ?thesis using assms(3) unfolding Pair budget_stage_eq Let_def by simp
qed

lemma simple_stage_words:
  "fst (rate_stage clk key rate burst d st) = Some d' \<Longrightarrow> d' = d"
  "fst (reserve_stage clk key est rate d st) = Some d' \<Longrightarrow> d' = d"
  "fst (quota_stage clk key est limit mode d st) = Some d' \<Longrightarrow> d' = d"
proof -
  obtain a g where st: "st = (a, g)" by fastforce
  show "fst (rate_stage clk key rate burst d st) = Some d' \<Longrightarrow> d' = d"
    by (cases "lim_AllowRate clk key 1 rate burst g") (auto simp: st split: if_splits)
  show "fst (reserve_stage clk key est rate d st) = Some d' \<Longrightarrow> d' = d"
    by (cases "lim_ReserveRate clk key est rate rate g"; cases "fst (lim_ReserveRate clk key est rate rate g)")
       (auto simp: st split: if_splits)
  show "fst (quota_stage clk key est limit mode d st) = Some d' \<Longrightarrow> d' = d"
    by (cases "lim_CheckQuota clk key est limit (24 * hour) g") (auto simp: st split: if_splits)
qed

lemmas stage_lists = precheck_stages_def team_stages_def key_stages_def user_stages_def

lemma precheck_stage_cases:
  assumes "x \<in> set (precheck_stages clk cfg s kp est)"
  obtains (lease) "x = lease_stage cfg s"
  | (rate) key rate burst d where "x = rate_stage clk key rate burst d" "names_limit d"
  | (reserve) key rate d where "x = reserve_stage clk key est rate d" "names_limit d"
  | (quota) key limit mode d where "x = quota_stage clk key est limit mode d" "names_limit d"
  | (budget) scope ident ml mm mk1 dl dm mk2 where
      "x = budget_stage clk cfg scope ident ml mm mk1 dl dm mk2" "scope \<in> set scopes"
      "\<forall>t dec. names_limit (mk1 t dec)" "\<forall>t dec. names_limit (mk2 t dec)"
proof -
  have words: "names_limit (budget_words cfg kind contact code scope limit src t dec)"
    if "scope = code_scope code" "code_status code = 402" for kind contact code scope limit src t dec
    using that by (simp add: budget_words_def deny_names_limit)
  show ?thesis
    using assms lease rate reserve quota budget
    by (auto simp: stage_lists deny_names_limit words split: option.splits)
qed

lemma lease_names: "fst (lease_stage cfg s st) = Some d \<Longrightarrow> names_limit d"
  by (auto simp: lease_stage_def deny_names_limit split: option.splits)

interpretation words: stage_contract "\<lambda>_. True" names_limit "precheck_stages clk cfg s kp est"
  for clk cfg s kp est
proof
  fix x st d
  assume "x \<in> set (precheck_stages clk cfg s kp est)" and d: "fst (x st) = Some d"
  then show "names_limit d"
    by (cases rule: precheck_stage_cases)
       (auto dest: lease_names simple_stage_words intro: budget_stage_words [where P = names_limit])
qed simp

section \<open>The limit that refuses\<close>

text \<open>What a refusal by each limit means, on the stores that its check found.\<close>

definition window_refuses :: "clock \<Rightarrow> string \<Rightarrow> string \<Rightarrow> Window \<Rightarrow> i64 \<Rightarrow> string \<Rightarrow> gov \<Rightarrow> bool" where
  "window_refuses clk scope ident w limit mode g \<longleftrightarrow>
     0 < limit
     \<and> (fst (bud_Check clk (budget_Key scope ident w) 0 limit w g) = BlockCapacity
        \<or> fst (bud_Check clk (budget_Key scope ident w) 0 limit w g) = Block \<and> mode \<noteq> ''warn'')"

text \<open>The stores once the month of a scope is checked; its day is checked there.\<close>

definition after_month :: "clock \<Rightarrow> GovCfg \<Rightarrow> string \<Rightarrow> string \<Rightarrow> i64 \<Rightarrow> string \<Rightarrow> gov \<Rightarrow> gov" where
  "after_month clk cfg scope ident limit mode g =
     snd (window_check clk (budget_Key scope ident (monthWindow cfg)) (monthWindow cfg) limit mode (\<lambda>_ _. allow_decision) (None, 0) g)"

definition budget_refuses ::
    "clock \<Rightarrow> GovCfg \<Rightarrow> string \<Rightarrow> string \<Rightarrow> i64 \<Rightarrow> string \<Rightarrow> i64 \<Rightarrow> string \<Rightarrow> string \<Rightarrow> gov \<Rightarrow> bool" where
  "budget_refuses clk cfg scope ident ml mm dl dm limit g \<longleftrightarrow>
     limit = GovLimitBudgetMonth \<and> window_refuses clk scope ident (monthWindow cfg) ml mm g
     \<or> limit = GovLimitBudgetDay \<and> window_refuses clk scope ident (dayWindow cfg) dl dm (after_month clk cfg scope ident ml mm g)"

definition limit_refuses ::
    "clock \<Rightarrow> GovCfg \<Rightarrow> Subject \<Rightarrow> KeyPolicy \<Rightarrow> i64 \<Rightarrow> DenyReason \<Rightarrow> string \<Rightarrow> gov \<Rightarrow> bool" where
  "limit_refuses clk cfg s kp est code limit g \<longleftrightarrow>
     (case code of
        DenyTeamRateLimited \<Rightarrow> limit = GovLimitRPM \<and> (\<exists>p. policyOf cfg (sub_Team s) = Some p \<and> 0 < tp_RatePerMin p
          \<and> \<not> fst (lim_AllowRate clk (''rate:'' @ sub_Team s) 1 (tp_RatePerMin p) (max64 (tp_RateBurst p) 1) g))
      | DenyTeamTokenRateLimited \<Rightarrow> limit = GovLimitTPM \<and> (\<exists>p. policyOf cfg (sub_Team s) = Some p \<and> 0 < tp_TokensPerMinute p
          \<and> fst (lim_ReserveRate clk (''tpm:'' @ sub_Team s) est (tp_TokensPerMinute p) (tp_TokensPerMinute p) g) = None)
      | DenyTeamQuotaExceeded \<Rightarrow> limit = GovLimitTokensPerDay \<and> (\<exists>p. policyOf cfg (sub_Team s) = Some p \<and> 0 < tp_TokensPerDay p
          \<and> tp_QuotaExceeded p \<noteq> ''warn''
          \<and> fst (lim_CheckQuota clk (''quota:'' @ sub_Team s) est (tp_TokensPerDay p) (24 * hour) g) = LimBlock)
      | DenyTeamBudgetExceeded \<Rightarrow>
          limit = GovLimitBudget \<and> (\<exists>gate. cf_leaseGate cfg = Some gate \<and> gate (sub_Team s) \<noteq> None)
          \<or> (\<exists>p. policyOf cfg (sub_Team s) = Some p
               \<and> budget_refuses clk cfg ScopeTeam (sub_Team s) (tp_BudgetMicrosPerMonth p) (tp_BudgetExceeded p)
                   (tp_BudgetMicrosPerDay p) (tp_BudgetDayExceeded p) limit g)
      | DenyKeyRateLimited \<Rightarrow> limit = GovLimitRPM \<and> 0 < kp_RatePerMin kp
          \<and> \<not> fst (lim_AllowRate clk (''rate:key:'' @ sub_KeyID s) 1 (kp_RatePerMin kp) (kp_RatePerMin kp) g)
      | DenyKeyTokenRateLimited \<Rightarrow> limit = GovLimitTPM \<and> 0 < kp_TokensPerMinute kp
          \<and> fst (lim_ReserveRate clk (''tpm:key:'' @ sub_KeyID s) est (kp_TokensPerMinute kp) (kp_TokensPerMinute kp) g) = None
      | DenyKeyBudgetExceeded \<Rightarrow>
          budget_refuses clk cfg ScopeKey (sub_KeyID s) (kp_BudgetMicrosPerMonth kp) [] (kp_BudgetMicrosPerDay kp) [] limit g
      | DenyUserBudgetExceeded \<Rightarrow> (\<exists>up. userPolicyOf cfg s = Some up
          \<and> budget_refuses clk cfg ScopeUser (userBudgetID s) (up_BudgetMicrosPerMonth up) (up_BudgetExceeded up)
              (up_BudgetMicrosPerDay up) (up_BudgetExceeded up) limit g)
      | _ \<Rightarrow> False)"

lemma window_check_Some:
  assumes "fst (fst (window_check clk (budget_Key scope ident w) w limit mode mk kept g)) = Some d"
  shows "fst kept = Some d \<or> (\<exists>t dec. d = mk t dec) \<and> window_refuses clk scope ident w limit mode g"
proof -
  obtain dec g1 where c: "bud_Check clk (budget_Key scope ident w) 0 limit w g = (dec, g1)" by fastforce
  obtain t g2 where r: "bud_ResetsAt clk (budget_Key scope ident w) w g1 = (t, g2)" by fastforce
  show ?thesis using assms c r
    by (cases kept) (auto simp: window_check_def window_refuses_def mustDenyBudget_def split: if_splits)
qed

lemma window_check_state:
  "snd (window_check clk key w limit mode mk (None, 0) g) = snd (window_check clk key w limit mode mk' (None, 0) g)"
proof -
  obtain dec g1 where c: "bud_Check clk key 0 limit w g = (dec, g1)" by fastforce
  obtain t g2 where r: "bud_ResetsAt clk key w g1 = (t, g2)" by fastforce
  show ?thesis using c r by (simp add: window_check_def)
qed

lemma budget_stage_Some:
  assumes "fst (budget_stage clk cfg scope ident ml mm mk1 dl dm mk2 (a, g)) = Some d"
  shows "(\<exists>t dec. d = mk1 t dec) \<and> budget_refuses clk cfg scope ident ml mm dl dm GovLimitBudgetMonth g
    \<or> (\<exists>t dec. d = mk2 t dec) \<and> budget_refuses clk cfg scope ident ml mm dl dm GovLimitBudgetDay g"
proof -
  let ?r1 = "window_check clk (budget_Key scope ident (monthWindow cfg)) (monthWindow cfg) ml mm mk1 (None, 0) g"
  have "fst (fst (window_check clk (budget_Key scope ident (dayWindow cfg)) (dayWindow cfg) dl dm mk2 (fst ?r1) (snd ?r1))) = Some d"
    using assms unfolding budget_stage_eq Let_def by simp
  from window_check_Some [OF this]
  consider "fst (fst ?r1) = Some d"
    | "\<exists>t dec. d = mk2 t dec" "window_refuses clk scope ident (dayWindow cfg) dl dm (snd ?r1)" by blast
  then show ?thesis
  proof cases
    case 1
    from window_check_Some [OF this] show ?thesis by (simp add: budget_refuses_def)
  next
    case 2
    moreover have "snd ?r1 = after_month clk cfg scope ident ml mm g"
      unfolding after_month_def by (rule window_check_state)
    ultimately show ?thesis by (simp add: budget_refuses_def)
  qed
qed

lemma rate_stage_Some:
  "fst (rate_stage clk key rate burst d (a, g)) = Some d' \<Longrightarrow> d' = d \<and> 0 < rate \<and> \<not> fst (lim_AllowRate clk key 1 rate burst g)"
  by (cases "lim_AllowRate clk key 1 rate burst g") (auto split: if_splits)

lemma reserve_stage_Some:
  "fst (reserve_stage clk key est rate d (a, g)) = Some d' \<Longrightarrow> d' = d \<and> 0 < rate \<and> fst (lim_ReserveRate clk key est rate rate g) = None"
  by (cases "lim_ReserveRate clk key est rate rate g"; cases "fst (lim_ReserveRate clk key est rate rate g)") (auto split: if_splits)

lemma quota_stage_Some:
  "fst (quota_stage clk key est limit mode d (a, g)) = Some d' \<Longrightarrow>
   d' = d \<and> 0 < limit \<and> mode \<noteq> ''warn'' \<and> fst (lim_CheckQuota clk key est limit (24 * hour) g) = LimBlock"
  by (cases "lim_CheckQuota clk key est limit (24 * hour) g") (auto split: if_splits)

text \<open>A refusal that names its limit, in the stores that the refusing check found.\<close>

definition names_refusing ::
    "clock \<Rightarrow> GovCfg \<Rightarrow> Subject \<Rightarrow> KeyPolicy \<Rightarrow> i64 \<Rightarrow> gov \<Rightarrow> GovDecision \<Rightarrow> bool" where
  "names_refusing clk cfg s kp est g d \<longleftrightarrow>
     (\<exists>code ref. gd_Code d = Some code \<and> gd_Governance d = Some ref \<and> limit_refuses clk cfg s kp est code (ref_Limit ref) g)"

lemma names_refusingI:
  assumes "limit_refuses clk cfg s kp est code (ref_Limit ref) g"
  shows "names_refusing clk cfg s kp est g (deny_decision status reason code (Some ref))"
  using assms by (simp add: names_refusing_def deny_decision_def)

lemma denial_limit [simp]: "ref_Limit (denial scope limit src) = limit" "ref_Limit (budgetDenial scope limit src dec) = limit"
  by (simp_all add: denial_def limitRef_def budgetDenial_def)

lemma budget_words_refusing:
  assumes "limit_refuses clk cfg s kp est code limit g"
  shows "names_refusing clk cfg s kp est g (budget_words cfg kind contact code scope limit src t dec)"
  unfolding budget_words_def using assms by (intro names_refusingI) simp

lemma team_stage_refuses:
  assumes "x \<in> set (team_stages clk cfg s est p)" "policyOf cfg (sub_Team s) = Some p" "fst (x (a, g)) = Some d"
  shows "names_refusing clk cfg s kp est g d"
  using assms(1) unfolding team_stages_def set_simps insert_iff empty_iff
proof (elim disjE)
  assume "x = rate_stage clk (''rate:'' @ sub_Team s) (tp_RatePerMin p) (max64 (tp_RateBurst p) 1)
    (deny_decision 429 ''rate limit exceeded'' DenyTeamRateLimited (Some (denial GovScopeTeam GovLimitRPM (src_Rate (tp_Sources p)))))"
  from rate_stage_Some [OF assms(3) [unfolded this]] show ?thesis
    by (auto intro!: names_refusingI simp: limit_refuses_def assms(2))
next
  assume "x = reserve_stage clk (''tpm:'' @ sub_Team s) est (tp_TokensPerMinute p)
    (deny_decision 429 ''token rate limit exceeded'' DenyTeamTokenRateLimited (Some (denial GovScopeTeam GovLimitTPM (src_TokenRate (tp_Sources p)))))"
  from reserve_stage_Some [OF assms(3) [unfolded this]] show ?thesis
    by (auto intro!: names_refusingI simp: limit_refuses_def assms(2))
next
  assume "x = quota_stage clk (''quota:'' @ sub_Team s) est (tp_TokensPerDay p) (tp_QuotaExceeded p)
    (deny_decision 429 ''token quota exceeded'' DenyTeamQuotaExceeded (Some (denial GovScopeTeam GovLimitTokensPerDay (src_Quota (tp_Sources p)))))"
  from quota_stage_Some [OF assms(3) [unfolded this]] show ?thesis
    by (auto intro!: names_refusingI simp: limit_refuses_def assms(2))
next
  assume "x = budget_stage clk cfg ScopeTeam (sub_Team s) (tp_BudgetMicrosPerMonth p) (tp_BudgetExceeded p)
      (budget_words cfg ''budget'' (tp_AdminContact p) DenyTeamBudgetExceeded GovScopeTeam GovLimitBudgetMonth (src_Budget (tp_Sources p)))
      (tp_BudgetMicrosPerDay p) (tp_BudgetDayExceeded p)
      (budget_words cfg ''daily budget'' (tp_AdminContact p) DenyTeamBudgetExceeded GovScopeTeam GovLimitBudgetDay (src_BudgetDay (tp_Sources p)))"
  from budget_stage_Some [OF assms(3) [unfolded this]] show ?thesis
    by (auto intro!: budget_words_refusing simp: limit_refuses_def assms(2))
qed simp

lemma key_stage_refuses:
  assumes "x \<in> set (key_stages clk cfg s kp est)" "fst (x (a, g)) = Some d"
  shows "names_refusing clk cfg s kp est g d"
  using assms(1) unfolding key_stages_def set_simps insert_iff empty_iff
proof (elim disjE)
  assume "x = rate_stage clk (''rate:key:'' @ sub_KeyID s) (kp_RatePerMin kp) (kp_RatePerMin kp)
    (deny_decision 429 ''key rate limit exceeded'' DenyKeyRateLimited (Some (denial GovScopeKey GovLimitRPM keySource)))"
  from rate_stage_Some [OF assms(2) [unfolded this]] show ?thesis
    by (auto intro!: names_refusingI simp: limit_refuses_def)
next
  assume "x = reserve_stage clk (''tpm:key:'' @ sub_KeyID s) est (kp_TokensPerMinute kp)
    (deny_decision 429 ''key token rate limit exceeded'' DenyKeyTokenRateLimited (Some (denial GovScopeKey GovLimitTPM keySource)))"
  from reserve_stage_Some [OF assms(2) [unfolded this]] show ?thesis
    by (auto intro!: names_refusingI simp: limit_refuses_def)
next
  assume "x = budget_stage clk cfg ScopeKey (sub_KeyID s) (kp_BudgetMicrosPerMonth kp) []
      (budget_words cfg ''key budget'' [] DenyKeyBudgetExceeded GovScopeKey GovLimitBudgetMonth keySource)
      (kp_BudgetMicrosPerDay kp) [] (budget_words cfg ''key daily budget'' [] DenyKeyBudgetExceeded GovScopeKey GovLimitBudgetDay keySource)"
  from budget_stage_Some [OF assms(2) [unfolded this]] show ?thesis
    by (auto intro!: budget_words_refusing simp: limit_refuses_def)
qed simp

lemma user_stage_refuses:
  assumes "x \<in> set (user_stages clk cfg s up)" "userPolicyOf cfg s = Some up" "fst (x (a, g)) = Some d"
  shows "names_refusing clk cfg s kp est g d"
proof -
  have "x = budget_stage clk cfg ScopeUser (userBudgetID s) (up_BudgetMicrosPerMonth up) (up_BudgetExceeded up)
      (budget_words cfg ''user budget'' (up_AdminContact up) DenyUserBudgetExceeded GovScopeUser GovLimitBudgetMonth (usrc_Budget (up_Sources up)))
      (up_BudgetMicrosPerDay up) (up_BudgetExceeded up)
      (budget_words cfg ''user daily budget'' (up_AdminContact up) DenyUserBudgetExceeded GovScopeUser GovLimitBudgetDay (usrc_BudgetDay (up_Sources up)))"
    using assms(1) by (simp add: user_stages_def)
  from budget_stage_Some [OF assms(3) [unfolded this]] show ?thesis
    by (auto intro!: budget_words_refusing simp: limit_refuses_def assms(2))
qed

lemma stage_refuses:
  assumes "x \<in> set (precheck_stages clk cfg s kp est)" "fst (x (a, g)) = Some d"
  shows "names_refusing clk cfg s kp est g d"
proof -
  consider "x = lease_stage cfg s" | p where "policyOf cfg (sub_Team s) = Some p" "x \<in> set (team_stages clk cfg s est p)"
    | "x \<in> set (key_stages clk cfg s kp est)" | up where "userPolicyOf cfg s = Some up" "x \<in> set (user_stages clk cfg s up)"
    using assms(1) by (cases "policyOf cfg (sub_Team s)"; cases "userPolicyOf cfg s") (auto simp: precheck_stages_def)
  then show ?thesis
  proof cases
    case 1
    with assms(2) show ?thesis
      by (auto simp: lease_stage_def limit_refuses_def split: option.splits intro!: names_refusingI)
  next
    case 2
    show ?thesis by (rule team_stage_refuses [where x = x and a = a, OF 2(2,1) assms(2)])
  next
    case 3
    show ?thesis by (rule key_stage_refuses [where x = x and a = a, OF 3 assms(2)])
  next
    case 4
    show ?thesis by (rule user_stage_refuses [where x = x and a = a, OF 4(2,1) assms(2)])
  qed
qed

text \<open>The refusing stage runs where the stages before it, which all passed, left the stores.\<close>

lemma first_denial_at:
  assumes "fst (first_denial ss st) = Some d"
  shows "\<exists>n<length ss. \<exists>st1. first_denial (take n ss) st = (None, st1) \<and> fst ((ss ! n) st1) = Some d"
  using assms
proof (induction ss arbitrary: st)
  case (Cons x ss)
  obtain r st' where x: "x st = (r, st')" by (cases "x st")
  show ?case
  proof (cases r)
    case (Some d')
    then show ?thesis using Cons.prems x by (intro exI [of _ 0]) (cases st', simp)
  next
    case None
    then obtain n st1 where "n < length ss" "first_denial (take n ss) st' = (None, st1)" "fst ((ss ! n) st1) = Some d"
      using Cons x by (cases st') fastforce
    then show ?thesis using x None by (intro exI [of _ "Suc n"]) (cases st', auto)
  qed
qed simp

section \<open>Denials leave no reservation behind\<close>

definition open_rates :: "nat \<Rightarrow> finisher list \<Rightarrow> int" where
  "open_rates b fs = int (length (filter (is_open b) fs))"

text \<open>
  Against the store \<open>m0\<close> at the start of the check: every bucket has exactly the reservations of
  the admission more, and the admission's reservations are on buckets of the store.
\<close>

definition pending_since :: "lim_Memory \<Rightarrow> (nat \<Rightarrow> int) \<Rightarrow> lim_Memory \<Rightarrow> bool" where
  "pending_since m0 extra m \<longleftrightarrow> length (heap m0) \<le> length (heap m)
     \<and> (\<forall>b < length (heap m). b_pending (heap m ! b) =
          (if b < length (heap m0) then b_pending (heap m0 ! b) else 0) + extra b)"

definition reserved_since :: "lim_Memory \<Rightarrow> pcstate \<Rightarrow> bool" where
  "reserved_since m0 st \<longleftrightarrow> lim_ok (gv_lim (snd st))
     \<and> pending_since m0 (\<lambda>b. open_rates b (ad_rates (fst st))) (gv_lim (snd st))
     \<and> (\<forall>f\<in>set (ad_rates (fst st)). \<forall>b. fin_bucket f = Some b \<longrightarrow> b < length (heap (gv_lim (snd st))))
     \<and> \<not> ad_once (fst st)"

lemma pending_since_keeps:
  assumes "pending_since m0 extra m" "keeps m m'" "\<forall>b. length (heap m) \<le> b \<longrightarrow> extra b = 0"
  shows "pending_since m0 extra m'"
  unfolding pending_since_def
proof (intro conjI allI impI)
  show "length (heap m0) \<le> length (heap m')" using assms(1,2) by (auto simp: pending_since_def keeps_def)
  fix b assume b: "b < length (heap m')"
  show "b_pending (heap m' ! b) = (if b < length (heap m0) then b_pending (heap m0 ! b) else 0) + extra b"
  proof (cases "b < length (heap m)")
    case True
    then show ?thesis using assms(1,2) by (auto simp: pending_since_def keeps_def)
  next
    case False
    then show ?thesis using assms b by (auto simp: pending_since_def keeps_def)
  qed
qed

lemma open_rates_beyond:
  "\<forall>f\<in>set fs. \<forall>b. fin_bucket f = Some b \<longrightarrow> b < n \<Longrightarrow> n \<le> b \<Longrightarrow> open_rates b fs = 0"
  by (force simp: open_rates_def filter_empty_conv is_open_def)

lemma reserved_keeps:
  assumes "reserved_since m0 (a, g)" "lim_ok m" "keeps (gv_lim g) m" "gv_lim g' = m"
  shows "reserved_since m0 (a, g')"
proof -
  have "pending_since m0 (\<lambda>b. open_rates b (ad_rates a)) m"
  proof (rule pending_since_keeps [OF _ assms(3)])
    show "pending_since m0 (\<lambda>b. open_rates b (ad_rates a)) (gv_lim g)"
      using assms(1) by (simp add: reserved_since_def)
    show "\<forall>b. length (heap (gv_lim g)) \<le> b \<longrightarrow> open_rates b (ad_rates a) = 0"
      using assms(1) open_rates_beyond [of "ad_rates a"] by (auto simp: reserved_since_def)
  qed
  moreover have "length (heap (gv_lim g)) \<le> length (heap m)" using assms(3) by (simp add: keeps_def)
  ultimately show ?thesis using assms by (auto simp: reserved_since_def intro: less_le_trans)
qed

text \<open>A reservation adds one to its bucket.\<close>

lemma ReserveRate_pending:
  assumes ok: "lim_ok m" and r: "ReserveRate t key cost rate burst m = (r, m')" and pos: "rate > 0"
  shows "lim_ok m'" "r = None \<Longrightarrow> keeps m m'"
    "\<And>f. r = Some f \<Longrightarrow> \<exists>b m1. fin_bucket f = Some b \<and> \<not> fin_done f \<and> b < length (heap m1) \<and> lim_ok m1 \<and> keeps m m1
       \<and> m' = m1\<lparr>heap := (heap m1)[b := (heap m1 ! b)\<lparr>b_pending := b_pending (heap m1 ! b) + 1\<rparr>]\<rparr>"
proof -
  have "lim_ok m' \<and> (r = None \<longrightarrow> keeps m m')
    \<and> (\<forall>f. r = Some f \<longrightarrow> (\<exists>b m1. fin_bucket f = Some b \<and> \<not> fin_done f \<and> b < length (heap m1) \<and> lim_ok m1 \<and> keeps m m1
         \<and> m' = m1\<lparr>heap := (heap m1)[b := (heap m1 ! b)\<lparr>b_pending := b_pending (heap m1 ! b) + 1\<rparr>]\<rparr>))"
  proof (cases "cost < 0")
    case True
    then show ?thesis using r ok by (auto simp: ReserveRate_def)
  next
    case False
    obtain q v m1 where al: "allowRate t key cost rate burst m = ((q, v), m1)" by (metis surj_pair)
    note k = allowRate_keeps [OF ok al]
    show ?thesis
    proof (cases "v \<and> q \<noteq> None")
      case True
      then obtain b where q: "q = Some b" "v" by auto
      have "m' = m1\<lparr>heap := (heap m1)[b := (heap m1 ! b)\<lparr>b_pending := b_pending (heap m1 ! b) + 1\<rparr>]\<rparr>"
        "r = Some \<lparr>fin_bucket = Some b, fin_cost = cost, fin_done = False\<rparr>"
        using r False pos al q by (simp_all add: ReserveRate_def)
      then show ?thesis using k q(1) by (auto simp: lim_ok_def)
    next
      case no: False
      then have "r = None" "m' = m1" using r False pos al by (auto simp: ReserveRate_def split: option.splits bool.splits)
      then show ?thesis using k by simp
    qed
  qed
  then show "lim_ok m'" "r = None \<Longrightarrow> keeps m m'"
    "\<And>f. r = Some f \<Longrightarrow> \<exists>b m1. fin_bucket f = Some b \<and> \<not> fin_done f \<and> b < length (heap m1) \<and> lim_ok m1 \<and> keeps m m1
       \<and> m' = m1\<lparr>heap := (heap m1)[b := (heap m1 ! b)\<lparr>b_pending := b_pending (heap m1 ! b) + 1\<rparr>]\<rparr>"
    by blast+
qed

lemma open_rates_snoc: "open_rates b (fs @ [f]) = open_rates b fs + (if is_open b f then 1 else 0)"
  by (simp add: open_rates_def)

lemma reserve_stage_reserved:
  assumes "reserved_since m0 st"
  shows "reserved_since m0 (snd (reserve_stage clk key est rate d st))"
proof -
  obtain a g where st: "st = (a, g)" by fastforce
  show ?thesis
  proof (cases "rate > 0")
    case False
    then show ?thesis using assms by (simp add: st)
  next
    case True
    obtain r g' where rg: "lim_ReserveRate clk key est rate rate g = (r, g')" by fastforce
    have rr: "ReserveRate (clk (gv_reads g)) key est rate rate (gv_lim g) = (r, gv_lim g')"
      using rg by (auto simp: lim_ReserveRate_def Let_def prod_eq_iff)
    have ok: "lim_ok (gv_lim g)" using assms by (simp add: st reserved_since_def)
    note R = ReserveRate_pending [OF ok rr True]
    show ?thesis
    proof (cases r)
      case None
      then show ?thesis using True rg reserved_keeps [OF assms [unfolded st] R(1) R(2) [OF None] refl] by (simp add: st)
    next
      case (Some f)
      obtain b m1 where b: "fin_bucket f = Some b" "\<not> fin_done f" "b < length (heap m1)" "lim_ok m1" "keeps (gv_lim g) m1"
        and m: "gv_lim g' = m1\<lparr>heap := (heap m1)[b := (heap m1 ! b)\<lparr>b_pending := b_pending (heap m1 ! b) + 1\<rparr>]\<rparr>"
        using R(3) [OF Some] by blast
      have one: "reserved_since m0 (a, g'\<lparr>gv_lim := m1\<rparr>)"
        by (rule reserved_keeps [OF assms [unfolded st] b(4,5)]) simp
      have f: "is_open c f \<longleftrightarrow> c = b" for c using b(1,2) by (auto simp: is_open_def)
      have "reserved_since m0 (a\<lparr>ad_rates := ad_rates a @ [f]\<rparr>, g')"
        using one R(1) b(1,3) m f
        by (auto simp: reserved_since_def pending_since_def open_rates_snoc nth_list_update)
      then show ?thesis using True rg Some by (simp add: st)
    qed
  qed
qed

lemma limiter_stage_reserved:
  assumes "reserved_since m0 st"
  shows "reserved_since m0 (snd (rate_stage clk key rate burst d st))"
    "reserved_since m0 (snd (quota_stage clk key est limit mode d st))"
proof -
  obtain a g where st: "st = (a, g)" by fastforce
  have ok: "lim_ok (gv_lim g)" using assms by (simp add: st reserved_since_def)
  obtain v m where al: "AllowRate (clk (gv_reads g)) key 1 rate burst (gv_lim g) = (v, m)" by fastforce
  obtain dq mq where ch: "CheckQuota (clk (gv_reads g)) key est limit (24 * hour) (gv_lim g) = (dq, mq)" by fastforce
  have "reserved_since m0 (a, g\<lparr>gv_lim := m, gv_reads := Suc (gv_reads g)\<rparr>)"
    by (rule reserved_keeps [OF assms [unfolded st] AllowRate_keeps [OF ok al]]) simp
  then show "reserved_since m0 (snd (rate_stage clk key rate burst d st))"
    using assms al by (simp add: st lim_AllowRate_def Let_def)
  have "reserved_since m0 (a, g\<lparr>gv_lim := mq, gv_reads := Suc (gv_reads g)\<rparr>)"
    by (rule reserved_keeps [OF assms [unfolded st] CheckQuota_keeps [OF ok ch]]) simp
  then show "reserved_since m0 (snd (quota_stage clk key est limit mode d st))"
    using assms ch by (simp add: st lim_CheckQuota_def Let_def)
qed

lemma window_check_lim: "gv_lim (snd (window_check clk key w limit mode mk kept g)) = gv_lim g"
  by (cases kept) (simp add: window_check_def bud_Check_def bud_ResetsAt_def Let_def)

lemma budget_stage_lim:
  "fst (snd (budget_stage clk cfg scope ident ml mm mk1 dl dm mk2 st)) = fst st"
  "gv_lim (snd (snd (budget_stage clk cfg scope ident ml mm mk1 dl dm mk2 st))) = gv_lim (snd st)"
  by (cases st; simp only: budget_stage_eq Let_def; simp add: window_check_lim)+

interpretation rates: stage_contract "reserved_since m0" "\<lambda>_. True" "precheck_stages clk cfg s kp est"
  for m0 clk cfg s kp est
proof
  fix x st
  assume "x \<in> set (precheck_stages clk cfg s kp est)" and ok: "reserved_since m0 st"
  then show "reserved_since m0 (snd (x st))"
  proof (cases rule: precheck_stage_cases)
    case (budget scope ident ml mm mk1 dl dm mk2)
    then show ?thesis using ok budget_stage_lim [of clk cfg scope ident ml mm mk1 dl dm mk2 st]
      by (simp add: reserved_since_def)
  qed (use ok in \<open>simp_all add: lease_stage_def limiter_stage_reserved reserve_stage_reserved del: rate_stage.simps reserve_stage.simps quota_stage.simps\<close>)
qed simp

text \<open>Finishing every reservation of the admission takes them all back.\<close>

lemma finish_rate_open:
  assumes "fin_bucket f = Some b" "\<not> fin_done f" "b < length (heap m)"
  shows "snd (finish_rate actual f m) = m\<lparr>heap := (heap m)[b := true_up (fin_cost f) actual (heap m ! b)]\<rparr>"
    "fst (finish_rate actual f m) = f\<lparr>fin_done := True\<rparr>"
  using assms by (simp_all add: finish_rate_def)

lemma finish_rate_closed: "(\<forall>b. \<not> is_open b f) \<Longrightarrow> finish_rate actual f m = (f, m)"
  by (auto simp: finish_rate_def is_open_def split: option.split)

lemma finish_rate_frame [simp]:
  "buckets (snd (finish_rate actual f m)) = buckets m" "quotas (snd (finish_rate actual f m)) = quotas m"
  "length (heap (snd (finish_rate actual f m))) = length (heap m)"
  by (simp_all add: finish_rate_def split: option.split)

lemma open_rates_Cons: "open_rates b (f # fs) = (if is_open b f then 1 else 0) + open_rates b fs"
  by (simp add: open_rates_def)

lemma finish_each_pending:
  assumes "pending_since m0 (\<lambda>b. open_rates b fs) m"
    and "\<forall>f\<in>set fs. \<forall>b. fin_bucket f = Some b \<longrightarrow> b < length (heap m)"
  shows "pending_since m0 (\<lambda>_. 0) (snd (finish_each actual fs m))
    \<and> buckets (snd (finish_each actual fs m)) = buckets m
    \<and> (\<forall>f\<in>set (fst (finish_each actual fs m)). \<forall>b. \<not> is_open b f)"
  using assms
proof (induction fs arbitrary: m)
  case Nil
  then show ?case by (simp add: pending_since_def open_rates_def)
next
  case (Cons f fs)
  let ?m = "snd (finish_rate actual f m)"
  have "pending_since m0 (\<lambda>b. open_rates b fs) ?m \<and> (\<forall>b. \<not> is_open b (fst (finish_rate actual f m)))"
  proof (cases "\<exists>b. is_open b f")
    case False
    then show ?thesis using Cons.prems(1) by (simp add: finish_rate_closed open_rates_Cons)
  next
    case True
    then obtain b where b: "fin_bucket f = Some b" "\<not> fin_done f" by (auto simp: is_open_def)
    have bl: "b < length (heap m)" using Cons.prems(2) b(1) by simp
    have f: "is_open c f \<longleftrightarrow> c = b" for c using b by (auto simp: is_open_def)
    have upd: "b_pending ((heap m)[b := true_up (fin_cost f) actual (heap m ! b)] ! c)
        = b_pending (heap m ! c) - (if c = b then 1 else 0)" for c
      using bl by (cases "c = b") simp_all
    have "pending_since m0 (\<lambda>b. open_rates b fs) ?m"
      using Cons.prems(1) f
      by (auto simp: finish_rate_open(1) [OF b bl] pending_since_def open_rates_Cons upd)
    then show ?thesis by (simp add: finish_rate_open(2) [OF b bl] is_open_def)
  qed
  moreover have "\<forall>f\<in>set fs. \<forall>b. fin_bucket f = Some b \<longrightarrow> b < length (heap ?m)" using Cons.prems(2) by simp
  ultimately show ?case using Cons.IH [of ?m] by (simp add: Let_def)
qed

lemma ad_Cancel_pending:
  assumes "reserved_since m0 (a, g)" "ad_Cancel a g = (a', g')"
  shows "pending_since m0 (\<lambda>_. 0) (gv_lim g')" "\<forall>f\<in>set (ad_rates a'). \<forall>b. \<not> is_open b f"
  using assms finish_each_pending [of m0 "ad_rates a" "gv_lim g" "Some 0"]
  by (auto simp: reserved_since_def ad_Cancel_def finish_once_def finishRates_def Let_def)

section \<open>An exceeded blocking budget\<close>

text \<open>The windows under which the check may look at the followed key.\<close>

definition windows_of :: "followed \<Rightarrow> GovCfg \<Rightarrow> bool" where
  "windows_of F cfg \<longleftrightarrow> (\<forall>scope\<in>set scopes. \<forall>ident. \<forall>w\<in>{monthWindow cfg, dayWindow cfg}.
     budget_Key scope ident w = fo_key F \<longrightarrow> w = fo_win F)"

definition budget_seen :: "followed \<Rightarrow> clock \<Rightarrow> GovCfg \<Rightarrow> i64 \<Rightarrow> pcstate \<Rightarrow> bool" where
  "budget_seen F clk cfg c st \<longleftrightarrow>
     (in_window F clk \<and> windows_of F cfg \<longrightarrow> follows_bud F (snd st) \<and> gov_spent F (snd st) = c)"

lemma window_check_looks:
  assumes "in_window F clk" "follows_bud F g" "key = fo_key F \<longrightarrow> w = fo_win F"
  shows "looks F g (snd (window_check clk key w limit mode mk kept g))"
proof -
  obtain dec g1 where c: "bud_Check clk key 0 limit w g = (dec, g1)" by fastforce
  have l1: "looks F g g1" using store_call_looks(1) [OF assms, of 0 limit] c by simp
  obtain t g2 where r: "bud_ResetsAt clk key w g1 = (t, g2)" by fastforce
  have "looks F g1 g2" using store_call_looks(3) [OF assms(1) _ assms(3), of g1] l1 r by (simp add: looks_def)
  then have "looks F g g2" by (rule looks_trans [OF l1])
  moreover have "looks F g g" using assms(2) by (simp add: looks_def)
  ultimately show ?thesis using l1 c r by (cases kept) (simp add: window_check_def)
qed

lemma window_check_keeps: "fst kept \<noteq> None \<Longrightarrow> fst (fst (window_check clk key w limit mode mk kept g)) \<noteq> None"
  by (cases kept; cases "bud_Check clk key 0 limit w g"; cases "bud_ResetsAt clk key w (snd (bud_Check clk key 0 limit w g))")
     (auto simp: window_check_def)

lemma window_check_denies:
  assumes "in_window F clk" "follows_bud F g" "key = fo_key F" "0 < limit" "limit \<le> max_i64"
    and "mode \<noteq> ''warn''" "limit < gov_spent F g"
  shows "fst (fst (window_check clk key w limit mode mk kept g)) \<noteq> None"
proof -
  let ?t = "clk (gv_reads g)"
  have ok: "mem_ok (gv_bud g)" "entry_end F (gv_bud g)" using assms(2) by (simp_all add: follows_bud_def)
  have t: "?t < fo_ends F" using assms(1) by (simp add: in_window_def)
  have sp: "live_spend (gv_bud g) key ?t > limit"
    using spent_of_live [OF ok(2) t] assms(3,7) by (simp add: gov_spent_def)
  have "fst (Check ?t key 0 limit w (gv_bud g)) \<noteq> Allow"
    using assms(4) sp cur_Some(2) [OF ok(1)]
    by (auto simp: Check_def split: prod.split option.split)
  then have deny: "mustDenyBudget (fst (Check ?t key 0 limit w (gv_bud g))) mode"
    using assms(6) by (cases "fst (Check ?t key 0 limit w (gv_bud g))") (auto simp: mustDenyBudget_def)
  show ?thesis
    using assms(4) deny
    by (cases kept; cases "bud_ResetsAt clk key w (snd (bud_Check clk key 0 limit w g))")
       (auto simp: window_check_def bud_Check_def Let_def)
qed

lemma budget_stage_looks:
  assumes "in_window F clk" "windows_of F cfg" "scope \<in> set scopes" "follows_bud F (snd st)"
  shows "looks F (snd st) (snd (snd (budget_stage clk cfg scope ident ml mm mk1 dl dm mk2 st)))"
proof -
  obtain a g where st: "st = (a, g)" by fastforce
  have w: "budget_Key scope ident (monthWindow cfg) = fo_key F \<longrightarrow> monthWindow cfg = fo_win F"
    "budget_Key scope ident (dayWindow cfg) = fo_key F \<longrightarrow> dayWindow cfg = fo_win F"
    using assms(2,3) by (auto simp: windows_of_def)
  let ?r1 = "window_check clk (budget_Key scope ident (monthWindow cfg)) (monthWindow cfg) ml mm mk1 (None, 0) g"
  have l1: "looks F g (snd ?r1)" using assms(4) st by (intro window_check_looks [OF assms(1) _ w(1)]) simp
  then have "follows_bud F (snd ?r1)" by (simp add: looks_def)
  from looks_trans [OF l1 window_check_looks [OF assms(1) this w(2), of dl dm mk2 "fst ?r1"]]
  show ?thesis unfolding st budget_stage_eq Let_def by simp
qed

interpretation seen: stage_contract "budget_seen F clk cfg c" "\<lambda>_. True" "precheck_stages clk cfg s kp est"
  for F clk cfg c s kp est
proof
  fix x st
  assume "x \<in> set (precheck_stages clk cfg s kp est)" and ok: "budget_seen F clk cfg c st"
  obtain a g where st: "st = (a, g)" by fastforce
  have lim: "follows_bud F (g\<lparr>gv_lim := m, gv_reads := n\<rparr>) = follows_bud F g"
    "gov_spent F (g\<lparr>gv_lim := m, gv_reads := n\<rparr>) = gov_spent F g" for m n
    by (simp_all add: follows_bud_def gov_spent_def)
  from \<open>x \<in> _\<close> show "budget_seen F clk cfg c (snd (x st))"
  proof (cases rule: precheck_stage_cases)
    case lease
    then show ?thesis using ok by (simp add: lease_stage_def)
  next
    case (rate key rate burst d)
    then show ?thesis using ok lim by (simp add: st budget_seen_def lim_AllowRate_def Let_def)
  next
    case (reserve key rate d)
    then show ?thesis using ok lim
      by (cases "fst (ReserveRate (clk (gv_reads g)) key est rate rate (gv_lim g))")
         (simp_all add: st budget_seen_def lim_ReserveRate_def Let_def)
  next
    case (quota key limit mode d)
    then show ?thesis using ok lim by (simp add: st budget_seen_def lim_CheckQuota_def Let_def)
  next
    case (budget scope ident ml mm mk1 dl dm mk2)
    then show ?thesis
      using ok budget_stage_looks [OF _ _ budget(2), of F clk cfg st ident ml mm mk1 dl dm mk2]
      by (auto simp: budget_seen_def looks_def)
  qed
qed simp

lemma conclude_cases:
  assumes "conclude r = (d, a', g')"
  obtains (allowed) g a where "r = (None, (a, g))" "d = allow_decision" "a' = a" "g' = g"
  | (denied) a g where "r = (Some d, (a, g))" "ad_Cancel a g = (a', g')"
  using assms by (cases r rule: conclude.cases) auto

lemma conclude_Some: "fst r = Some d \<Longrightarrow> fst (conclude r) = d"
  by (cases r rule: conclude.cases) auto

text \<open>A scope of the request as a stage of the check.\<close>

lemma add_scope_mem: "sc \<in> set (add_scope scope ident limit mode w ref) \<longleftrightarrow>
   0 < limit \<and> sc = \<lparr>sc_key = budget_Key scope ident w, sc_win = w, sc_limit = limit, sc_hard = (mode \<noteq> ''warn''), sc_gov = ref\<rparr>"
  by (auto simp: add_scope_def)

lemma scope_stage:
  assumes "sc \<in> set (localMoneyScopes cfg s kp)" "sc_hard sc"
  obtains scope ident ml mm mk1 dl dm mk2 where
    "budget_stage clk cfg scope ident ml mm mk1 dl dm mk2 \<in> set (precheck_stages clk cfg s kp est)"
    "scope \<in> set scopes" "\<not> cf_shared cfg"
    "sc_key sc = budget_Key scope ident (monthWindow cfg) \<and> sc_win sc = monthWindow cfg \<and> sc_limit sc = ml \<and> 0 < ml \<and> mm \<noteq> ''warn''
     \<or> sc_key sc = budget_Key scope ident (dayWindow cfg) \<and> sc_win sc = dayWindow cfg \<and> sc_limit sc = dl \<and> 0 < dl \<and> dm \<noteq> ''warn''"
proof -
  have ns: "\<not> cf_shared cfg" using assms(1) by (auto simp: localMoneyScopes_def)
  consider (team) p where "policyOf cfg (sub_Team s) = Some p"
      "sc \<in> set (add_scope ScopeTeam (sub_Team s) (tp_BudgetMicrosPerMonth p) (tp_BudgetExceeded p) (monthWindow cfg)
               (limitRef GovScopeTeam GovLimitBudgetMonth (src_Budget (tp_Sources p))))
       \<or> sc \<in> set (add_scope ScopeTeam (sub_Team s) (tp_BudgetMicrosPerDay p) (tp_BudgetDayExceeded p) (dayWindow cfg)
               (limitRef GovScopeTeam GovLimitBudgetDay (src_BudgetDay (tp_Sources p))))"
    | (key) "sc \<in> set (add_scope ScopeKey (sub_KeyID s) (kp_BudgetMicrosPerMonth kp) [] (monthWindow cfg)
          (limitRef GovScopeKey GovLimitBudgetMonth keySource))
       \<or> sc \<in> set (add_scope ScopeKey (sub_KeyID s) (kp_BudgetMicrosPerDay kp) [] (dayWindow cfg)
          (limitRef GovScopeKey GovLimitBudgetDay keySource))"
    | (user) p where "userPolicyOf cfg s = Some p"
      "sc \<in> set (add_scope ScopeUser (userBudgetID s) (up_BudgetMicrosPerMonth p) (up_BudgetExceeded p) (monthWindow cfg)
               (limitRef GovScopeUser GovLimitBudgetMonth (usrc_Budget (up_Sources p))))
       \<or> sc \<in> set (add_scope ScopeUser (userBudgetID s) (up_BudgetMicrosPerDay p) (up_BudgetExceeded p) (dayWindow cfg)
               (limitRef GovScopeUser GovLimitBudgetDay (usrc_BudgetDay (up_Sources p))))"
    using assms(1) ns unfolding localMoneyScopes_def Let_def
    by (cases "policyOf cfg (sub_Team s)"; cases "userPolicyOf cfg s") (simp_all, blast+)
  then show ?thesis
  proof cases
    case (team p)
    show ?thesis
      by (rule that [of ScopeTeam "sub_Team s" "tp_BudgetMicrosPerMonth p" "tp_BudgetExceeded p" _ "tp_BudgetMicrosPerDay p"
            "tp_BudgetDayExceeded p"])
         (use team assms(2) ns in \<open>auto simp: stage_lists add_scope_mem\<close>)
  next
    case key
    show ?thesis
      by (rule that [of ScopeKey "sub_KeyID s" "kp_BudgetMicrosPerMonth kp" "[]" _ "kp_BudgetMicrosPerDay kp" "[]"])
         (use key assms(2) ns in \<open>auto simp: stage_lists add_scope_mem\<close>)
  next
    case (user p)
    show ?thesis
      by (rule that [of ScopeUser "userBudgetID s" "up_BudgetMicrosPerMonth p" "up_BudgetExceeded p" _ "up_BudgetMicrosPerDay p"
            "up_BudgetExceeded p"])
         (use user assms(2) ns in \<open>auto simp: stage_lists add_scope_mem\<close>)
  qed
qed

lemma windows_of_scope:
  assumes "fo_key F = budget_Key scope ident w" "scope \<in> set scopes" "w \<in> {monthWindow cfg, dayWindow cfg}" "fo_win F = w"
  shows "windows_of F cfg"
  using assms budget_Key_eq [OF _ assms(2)] window_tags [of cfg]
  by (auto simp: windows_of_def)

lemma budget_stage_denies:
  assumes "in_window F clk" "windows_of F cfg" "scope \<in> set scopes" "follows_bud F (snd st)"
    and "limit \<le> max_i64" "limit < gov_spent F (snd st)"
    and "fo_key F = budget_Key scope ident (monthWindow cfg) \<and> limit = ml \<and> 0 < ml \<and> mm \<noteq> ''warn''
     \<or> fo_key F = budget_Key scope ident (dayWindow cfg) \<and> limit = dl \<and> 0 < dl \<and> dm \<noteq> ''warn''"
  shows "fst (budget_stage clk cfg scope ident ml mm mk1 dl dm mk2 st) \<noteq> None"
proof -
  obtain a g where st: "st = (a, g)" by fastforce
  let ?r1 = "window_check clk (budget_Key scope ident (monthWindow cfg)) (monthWindow cfg) ml mm mk1 (None, 0) g"
  let ?r2 = "window_check clk (budget_Key scope ident (dayWindow cfg)) (dayWindow cfg) dl dm mk2 (fst ?r1) (snd ?r1)"
  have w: "budget_Key scope ident (monthWindow cfg) = fo_key F \<longrightarrow> monthWindow cfg = fo_win F"
    using assms(2,3) by (auto simp: windows_of_def)
  have l1: "looks F g (snd ?r1)" using assms(4) st by (intro window_check_looks [OF assms(1) _ w]) simp
  have "fst (fst ?r2) \<noteq> None"
  proof (cases "fo_key F = budget_Key scope ident (monthWindow cfg) \<and> limit = ml \<and> 0 < ml \<and> mm \<noteq> ''warn''")
    case True
    then have "fst (fst ?r1) \<noteq> None"
      using assms(1,4-6) st by (intro window_check_denies [where F = F]) auto
    then show ?thesis by (rule window_check_keeps)
  next
    case False
    then show ?thesis using assms(1,5-7) l1 st
      by (intro window_check_denies [where F = F]) (auto simp: looks_def)
  qed
  then show ?thesis unfolding st budget_stage_eq Let_def by simp
qed

section \<open>Properties\<close>

text \<open>
  C32: Every refusal of \<open>PreCheck\<close> is evidence: it has a deny code of the closed set with the
  HTTP status that belongs to it (402 for a budget, 429 for a rate, a quota or an invalid
  estimate), and it names a limit that refused: the check of exactly that limit (of the named
  scope and window, with the configured amount) refuses in the stores that the earlier checks,
  which all passed, left behind. Only an invalid estimate, which no limit refuses, names none; an
  admission names nothing at all.
\<close>

theorem denial_names_its_limit:
  assumes "PreCheck clk cfg s kp est g = (d, a, g')"
  shows "if gd_Allowed d then gd_Status d = 0 \<and> gd_Code d = None \<and> gd_Governance d = None
    else if est < 0 then gd_Code d = Some DenyInvalidTokenEstimate \<and> gd_Status d = 429 \<and> gd_Governance d = None
    else \<exists>code ref n a1 g1. gd_Code d = Some code \<and> gd_Governance d = Some ref
           \<and> ref_Scope ref = code_scope code \<and> gd_Status d = code_status code
           \<and> first_denial (take n (precheck_stages clk cfg s kp est)) (new_admission est, g) = (None, (a1, g1))
           \<and> limit_refuses clk cfg s kp est code (ref_Limit ref) g1"
proof (cases "est < 0")
  case True
  then have "d = deny_decision 429 ''invalid token estimate'' DenyInvalidTokenEstimate None"
    using assms by (auto simp: PreCheck_def)
  then show ?thesis using True by (simp add: deny_decision_def)
next
  case False
  define r where "r = (if cf_shared cfg then (None, (new_admission est, g))
     else first_denial (precheck_stages clk cfg s kp est) (new_admission est, g))"
  have c: "conclude r = (d, a, g')"
    using assms False by (cases "cf_shared cfg") (simp_all add: PreCheck_def r_def)
  then show ?thesis
  proof (cases rule: conclude_cases)
    case allowed
    then show ?thesis by (simp add: allow_decision_def)
  next
    case (denied b h)
    then have fd: "fst (first_denial (precheck_stages clk cfg s kp est) (new_admission est, g)) = Some d"
      by (auto simp: r_def split: if_splits)
    then have names: "names_limit d" by (rule words.first_denial_good [OF TrueI])
    obtain n a1 g1 where n: "n < length (precheck_stages clk cfg s kp est)"
        "first_denial (take n (precheck_stages clk cfg s kp est)) (new_admission est, g) = (None, (a1, g1))"
        "fst ((precheck_stages clk cfg s kp est ! n) (a1, g1)) = Some d"
      using first_denial_at [OF fd] by auto
    obtain code ref where ref: "gd_Code d = Some code" "gd_Governance d = Some ref" "limit_refuses clk cfg s kp est code (ref_Limit ref) g1"
      using stage_refuses [OF nth_mem [OF n(1)] n(3)] by (auto simp: names_refusing_def)
    moreover have "\<not> gd_Allowed d" "ref_Scope ref = code_scope code" "gd_Status d = code_status code"
      using names ref(1,2) by (simp_all add: names_limit_def)
    ultimately show ?thesis using False n(2) by simp blast
  qed
qed

text \<open>
  C7: A refused request leaves nothing behind in the token buckets: whatever it had reserved
  before the refusing stage is finished, so every bucket has exactly the reservations it had
  before the check. An admitted one holds exactly the reservations of its admission handle.
\<close>

theorem denial_holds_no_reservation:
  assumes "lim_ok (gv_lim g)" "PreCheck clk cfg s kp est g = (d, a, g')" "b < length (heap (gv_lim g'))"
  shows "b_pending (heap (gv_lim g') ! b) =
      (if b < length (heap (gv_lim g)) then b_pending (heap (gv_lim g) ! b) else 0)
      + (if gd_Allowed d then open_rates b (ad_rates a) else 0)
    \<and> (\<not> gd_Allowed d \<longrightarrow> (\<forall>f\<in>set (ad_rates a). \<not> is_open b f))"
proof -
  let ?st = "(new_admission est, g)"
  have start: "reserved_since (gv_lim g) ?st"
    using assms(1) by (simp add: reserved_since_def pending_since_def new_admission_def open_rates_def)
  define r where "r = (if est < 0 then (Some (deny_decision 429 ''invalid token estimate'' DenyInvalidTokenEstimate None), ?st)
     else if cf_shared cfg then (None, ?st) else first_denial (precheck_stages clk cfg s kp est) ?st)"
  have res: "reserved_since (gv_lim g) (snd r)"
    using start rates.first_denial_keeps [OF start] by (simp add: r_def)
  have good: "fst r = Some d' \<Longrightarrow> \<not> gd_Allowed d'" for d'
    using words.first_denial_good [OF TrueI, of clk cfg s kp est ?st d']
    by (auto simp: r_def names_limit_def deny_decision_def split: if_splits)
  have "conclude r = (d, a, g')"
    using assms(2) by (cases "est < 0"; cases "cf_shared cfg") (simp_all add: PreCheck_def r_def)
  then show ?thesis
  proof (cases rule: conclude_cases)
    case (allowed h b')
    then show ?thesis using res assms(3)
      by (simp add: allow_decision_def reserved_since_def pending_since_def)
  next
    case (denied b' h)
    have "\<not> gd_Allowed d" using good denied(1) by simp
    moreover have "pending_since (gv_lim g) (\<lambda>_. 0) (gv_lim g')" "\<forall>f\<in>set (ad_rates a). \<forall>b. \<not> is_open b f"
      using ad_Cancel_pending [OF _ denied(2)] res denied(1) by auto
    ultimately show ?thesis using assms(3) by (simp add: pending_since_def)
  qed
qed

text \<open>
  C5: An exceeded blocking budget is never admitted. If the recorded spend of any blocking
  scope of the request (team, key or user; month or day) is over its limit, \<open>PreCheck\<close> refuses,
  whatever the other limits and the order of the checks: no scope can turn another's refusal
  into an admission.
\<close>

theorem exceeded_budget_is_refused:
  assumes "sc \<in> set (localMoneyScopes cfg s kp)" "sc_hard sc" "sc_limit sc \<le> max_i64"
    and "fo_key F = sc_key sc" "fo_win F = sc_win sc"
    and "in_window F clk" "follows_bud F g" "sc_limit sc < gov_spent F g"
  shows "\<not> gd_Allowed (fst (PreCheck clk cfg s kp est g))"
proof (cases "est < 0")
  case True
  then show ?thesis by (simp add: PreCheck_def deny_decision_def)
next
  case False
  let ?ss = "precheck_stages clk cfg s kp est"
  let ?st = "(new_admission est, g)"
  obtain scope ident ml mm mk1 dl dm mk2 where
    mem: "budget_stage clk cfg scope ident ml mm mk1 dl dm mk2 \<in> set ?ss" and scp: "scope \<in> set scopes"
    and ns: "\<not> cf_shared cfg" and lim:
    "sc_key sc = budget_Key scope ident (monthWindow cfg) \<and> sc_win sc = monthWindow cfg \<and> sc_limit sc = ml \<and> 0 < ml \<and> mm \<noteq> ''warn''
     \<or> sc_key sc = budget_Key scope ident (dayWindow cfg) \<and> sc_win sc = dayWindow cfg \<and> sc_limit sc = dl \<and> 0 < dl \<and> dm \<noteq> ''warn''"
    by (rule scope_stage [OF assms(1,2), where clk = clk and est = est]) (rule that; assumption)
  have win: "windows_of F cfg"
    using lim windows_of_scope [of F scope ident "sc_win sc" cfg] assms(4,5) scp by auto
  have seen: "budget_seen F clk cfg (gov_spent F g) ?st" using assms(7) by (simp add: budget_seen_def)
  have "fst (first_denial ?ss ?st) \<noteq> None"
  proof (rule seen.stage_decides [OF mem _ seen], intro allI impI)
    fix st assume "budget_seen F clk cfg (gov_spent F g) st"
    then have "follows_bud F (snd st)" "gov_spent F (snd st) = gov_spent F g"
      using assms(6) win by (auto simp: budget_seen_def)
    then show "fst (budget_stage clk cfg scope ident ml mm mk1 dl dm mk2 st) \<noteq> None"
      using assms(3,4,8) lim by (intro budget_stage_denies [OF assms(6) win scp, where limit = "sc_limit sc"]) auto
  qed
  then obtain d where d: "fst (first_denial ?ss ?st) = Some d" by blast
  then have "names_limit d" by (rule words.first_denial_good [OF TrueI])
  moreover have "fst (PreCheck clk cfg s kp est g) = d"
    using False ns conclude_Some [OF d] by (simp add: PreCheck_def)
  ultimately show ?thesis by (simp add: names_limit_def)
qed

section \<open>The properties at work\<close>

text \<open>
  A team whose month is overspent: its request passes the rate and the quota, reserves its
  tokens, and is refused by the budget.
\<close>

definition sample_spent :: gov where
  "sample_spent = NewGovernor lim_NewMemory
     \<lparr>bm = [(fo_key sample_followed, \<lparr>spent = 1001, windowEnd_of = fo_ends sample_followed\<rparr>)],
      maxEntries = 8, sweepTick = 0, rejected = 0\<rparr>"

definition sample_check :: "GovDecision \<times> Admission \<times> gov" where
  "sample_check = PreCheck sample_clock sample_cfg sample_subject sample_key 50 sample_spent"

lemma sample_checked:
  "PreCheck sample_clock sample_cfg sample_subject sample_key 50 sample_spent
     = (fst sample_check, fst (snd sample_check), snd (snd sample_check))"
  by (simp add: sample_check_def)

lemma sample_refused:
  "\<not> gd_Allowed (fst sample_check)"
  "length (heap (gv_lim (snd (snd sample_check)))) = 2" "length (ad_rates (fst (snd sample_check))) = 1"
  by code_simp+

lemma sample_spent_follows: "follows_bud sample_followed sample_spent" "gov_spent sample_followed sample_spent = 1001"
  by (simp_all add: follows_bud_def sample_spent_def NewGovernor_def mem_ok_def win_ok_def sweepEvery_def entry_end_def
        gov_spent_def spent_of_def live_spend_def gwf_def gget_def max_i64_def)

lemma sample_named:
  "gd_Code (fst sample_check) = Some DenyTeamBudgetExceeded"
  "map_option ref_Limit (gd_Governance (fst sample_check)) = Some GovLimitBudgetMonth"
  by code_simp+

theorem denial_names_its_limit_witness:
  "\<not> gd_Allowed (fst sample_check) \<and> gd_Status (fst sample_check) = 402
   \<and> (\<exists>n a1 g1. first_denial (take n (precheck_stages sample_clock sample_cfg sample_subject sample_key 50)) (new_admission 50, sample_spent)
          = (None, (a1, g1))
      \<and> fst (bud_Check sample_clock (budget_Key ScopeTeam ''acme'' (monthWindow sample_cfg)) 0 1000 (monthWindow sample_cfg) g1) \<noteq> Allow)"
proof -
  have p: "policyOf sample_cfg ''acme'' = Some sample_team" "sub_Team sample_subject = ''acme''"
    "tp_BudgetMicrosPerMonth sample_team = 1000"
    by (simp_all add: policyOf_def sample_cfg_def sample_subject_def gget_def sample_team_def PolicyFromLimits_def)
  from denial_names_its_limit [OF sample_checked] sample_refused(1) sample_named
  obtain n a1 g1 where n: "gd_Status (fst sample_check) = 402"
      "first_denial (take n (precheck_stages sample_clock sample_cfg sample_subject sample_key 50)) (new_admission 50, sample_spent)
        = (None, (a1, g1))"
      "limit_refuses sample_clock sample_cfg sample_subject sample_key 50 DenyTeamBudgetExceeded GovLimitBudgetMonth g1"
    by auto
  have "GovLimitBudgetMonth \<noteq> GovLimitBudget" "GovLimitBudgetMonth \<noteq> GovLimitBudgetDay" by code_simp+
  with n(3) have "fst (bud_Check sample_clock (budget_Key ScopeTeam ''acme'' (monthWindow sample_cfg)) 0 1000 (monthWindow sample_cfg) g1) \<noteq> Allow"
    by (auto simp: limit_refuses_def p budget_refuses_def window_refuses_def)
  with n sample_refused(1) show ?thesis by blast
qed

theorem denial_holds_no_reservation_witness:
  "b_pending (heap (gv_lim (snd (snd sample_check))) ! 1) = 0 \<and> ad_rates (fst (snd sample_check)) \<noteq> []
   \<and> list_all (\<lambda>f. \<not> is_open 1 f) (ad_rates (fst (snd sample_check)))"
proof -
  have ok: "lim_ok (gv_lim sample_spent)" and l0: "heap (gv_lim sample_spent) = []"
    by (simp_all add: lim_ok_def sample_spent_def NewGovernor_def lim_NewMemory_def gwf_def gget_def)
  have "1 < length (heap (gv_lim (snd (snd sample_check))))" using sample_refused(2) by simp
  from denial_holds_no_reservation [OF ok sample_checked this] l0 sample_refused(1,3) show ?thesis by (auto simp: list_all_iff)
qed

definition sample_month_scope :: localMoneyScope where
  "sample_month_scope = \<lparr>sc_key = fo_key sample_followed, sc_win = fo_win sample_followed, sc_limit = 1000, sc_hard = True,
    sc_gov = limitRef GovScopeTeam GovLimitBudgetMonth (src_Budget (tp_Sources sample_team))\<rparr>"

lemma sample_month_scope_in: "sample_month_scope \<in> set (localMoneyScopes sample_cfg sample_subject sample_key)"
  by (simp add: sample_month_scope_def localMoneyScopes_def sample_cfg_def sample_subject_def sample_key_def policyOf_def
      userPolicyOf_def gget_def sample_team_def PolicyFromLimits_def add_scope_def sample_followed_def Let_def
      monthWindow_def dayWindow_def)

theorem exceeded_budget_is_refused_witness:
  "\<not> gd_Allowed (fst (PreCheck sample_clock sample_cfg sample_subject sample_key 50 sample_spent))"
  by (rule exceeded_budget_is_refused [OF sample_month_scope_in _ _ _ _ sample_window sample_spent_follows(1)])
     (simp_all add: sample_month_scope_def sample_spent_follows(2) max_i64_def)

end
