(* ===== verification/Governance_Settle.thy ===== *)
theory Governance_Settle
  imports Governance_Denials
begin

text \<open>
  Settlement of a finished request and the usage report (\<open>Settle\<close> and \<open>UsageOf\<close> in
  \<open>src/internal/governance/governance.go\<close>), and how they agree with admission. The
  observability gauges are not modelled; a store call whose only purpose is a gauge still reads
  the clock.
\<close>

section \<open>Settlement\<close>

text \<open>The zero policy of a team without one.\<close>

definition no_policy :: TeamPolicy where
  "no_policy = \<lparr>tp_RatePerMin = 0, tp_RateBurst = 0, tp_TokensPerMinute = 0, tp_TokensPerDay = 0, tp_QuotaExceeded = [],
     tp_BudgetMicrosPerMonth = 0, tp_BudgetExceeded = [], tp_BudgetMicrosPerDay = 0, tp_BudgetDayExceeded = [],
     tp_AdminContact = [], tp_Sources = \<lparr>src_Rate = no_source, src_TokenRate = no_source, src_Quota = no_source,
       src_Budget = no_source, src_BudgetDay = no_source\<rparr>\<rparr>"

definition policy_or_zero :: "GovCfg \<Rightarrow> string \<Rightarrow> TeamPolicy" where
  "policy_or_zero cfg team = (case policyOf cfg team of None \<Rightarrow> no_policy | Some p \<Rightarrow> p)"

definition cost_or_missing :: "Table option \<Rightarrow> string \<Rightarrow> string \<Rightarrow> Usage \<Rightarrow> i64 \<times> bool" where
  "cost_or_missing table provider model u =
     (if table = None then (0, True) else CostUSDMicros table provider model u)"

definition settle_shared :: "Table option \<Rightarrow> string \<Rightarrow> string \<Rightarrow> Usage \<Rightarrow> i64 \<times> bool" where
  "settle_shared table provider model u =
     (if table = None then (0, True)
      else case CostUSDMicrosChecked table provider model u of Inl _ \<Rightarrow> (0, True) | Inr cost \<Rightarrow> (cost, False))"

definition settle_quota :: "clock \<Rightarrow> Subject \<Rightarrow> TeamPolicy \<Rightarrow> i64 \<Rightarrow> gov \<Rightarrow> gov" where
  "settle_quota clk s p n g =
     (if tp_TokensPerDay p > 0
      then snd (lim_QuotaUsed clk (''quota:'' @ sub_Team s) (24 * hour)
             (lim_DebitQuota clk (''quota:'' @ sub_Team s) n (24 * hour) g))
      else g)"

text \<open>\<open>finishRates\<close> on the handle, which may be nil.\<close>

definition finish_handle :: "i64 option \<Rightarrow> Admission option \<Rightarrow> gov \<Rightarrow> Admission option \<times> gov" where
  "finish_handle actual adm g =
     (case adm of None \<Rightarrow> (None, g) | Some a \<Rightarrow> let r = finishRates actual a g in (Some (fst r), snd r))"

definition settled_tokens :: "Usage \<Rightarrow> i64 \<Rightarrow> Admission option \<Rightarrow> i64" where
  "settled_tokens u n adm =
     (case adm of None \<Rightarrow> n | Some a \<Rightarrow> if Uncertain u then max n (ad_estimate a) else n)"

definition money_owned :: "Admission option \<Rightarrow> bool" where
  "money_owned adm = (case adm of None \<Rightarrow> False | Some a \<Rightarrow> ad_moneyOwned a)"

definition debit_window :: "clock \<Rightarrow> string \<Rightarrow> string \<Rightarrow> Window \<Rightarrow> i64 \<Rightarrow> i64 \<Rightarrow> gov \<Rightarrow> gov" where
  "debit_window clk scope ident w limit cost g =
     (if limit > 0 then bud_Debit clk (budget_Key scope ident w) cost w g else g)"

fun team_spent :: "GovCfg \<Rightarrow> Subject \<Rightarrow> i64 \<Rightarrow> i64 \<times> gov \<Rightarrow> gov" where
  "team_spent cfg s limit (spent0, g) =
     (if cf_notifyBudget cfg then add_note (TeamBudgetNote (sub_Team s) spent0 limit) g else g)"

fun key_spent :: "Subject \<Rightarrow> i64 \<Rightarrow> i64 \<times> gov \<Rightarrow> gov" where
  "key_spent s limit (spent0, g) = add_note (KeyBudgetNote (sub_Team s) (sub_KeyID s) spent0 limit) g"

definition team_month_note :: "clock \<Rightarrow> GovCfg \<Rightarrow> Subject \<Rightarrow> i64 \<Rightarrow> gov \<Rightarrow> gov" where
  "team_month_note clk cfg s limit g =
     (if limit > 0
      then team_spent cfg s limit (bud_Spent clk (budget_Key ScopeTeam (sub_Team s) (monthWindow cfg)) (monthWindow cfg) g)
      else g)"

definition key_month_note :: "clock \<Rightarrow> GovCfg \<Rightarrow> Subject \<Rightarrow> i64 \<Rightarrow> gov \<Rightarrow> gov" where
  "key_month_note clk cfg s limit g =
     (if limit > 0 \<and> cf_notifyKeyBudget cfg
      then key_spent s limit (bud_Spent clk (budget_Key ScopeKey (sub_KeyID s) (monthWindow cfg)) (monthWindow cfg) g)
      else g)"

definition settle_user :: "clock \<Rightarrow> GovCfg \<Rightarrow> Subject \<Rightarrow> i64 \<Rightarrow> gov \<Rightarrow> gov" where
  "settle_user clk cfg s cost g =
     (case userPolicyOf cfg s of
        None \<Rightarrow> g
      | Some up \<Rightarrow>
          debit_window clk ScopeUser (userBudgetID s) (dayWindow cfg) (up_BudgetMicrosPerDay up) cost
            (debit_window clk ScopeUser (userBudgetID s) (monthWindow cfg) (up_BudgetMicrosPerMonth up) cost g))"

definition settle_team :: "clock \<Rightarrow> GovCfg \<Rightarrow> Subject \<Rightarrow> TeamPolicy \<Rightarrow> i64 \<Rightarrow> gov \<Rightarrow> gov" where
  "settle_team clk cfg s p cost g =
     debit_window clk ScopeTeam (sub_Team s) (dayWindow cfg) (tp_BudgetMicrosPerDay p) cost
       (team_month_note clk cfg s (tp_BudgetMicrosPerMonth p)
          (debit_window clk ScopeTeam (sub_Team s) (monthWindow cfg) (tp_BudgetMicrosPerMonth p) cost g))"

definition settle_key :: "clock \<Rightarrow> GovCfg \<Rightarrow> Subject \<Rightarrow> KeyPolicy \<Rightarrow> i64 \<Rightarrow> gov \<Rightarrow> gov" where
  "settle_key clk cfg s kp cost g =
     debit_window clk ScopeKey (sub_KeyID s) (dayWindow cfg) (kp_BudgetMicrosPerDay kp) cost
       (key_month_note clk cfg s (kp_BudgetMicrosPerMonth kp)
          (debit_window clk ScopeKey (sub_KeyID s) (monthWindow cfg) (kp_BudgetMicrosPerMonth kp) cost g))"

definition settle_scopes :: "clock \<Rightarrow> GovCfg \<Rightarrow> Subject \<Rightarrow> KeyPolicy \<Rightarrow> TeamPolicy \<Rightarrow> i64 \<Rightarrow> gov \<Rightarrow> gov" where
  "settle_scopes clk cfg s kp p cost g =
     settle_user clk cfg s cost (settle_key clk cfg s kp cost (settle_team clk cfg s p cost g))"

text \<open>The budgets, once the rates are finished: an owner of the money settles it itself.\<close>

fun settle_cost ::
  "clock \<Rightarrow> GovCfg \<Rightarrow> Subject \<Rightarrow> KeyPolicy \<Rightarrow> TeamPolicy \<Rightarrow> i64 \<times> bool \<Rightarrow> Admission option \<times> gov
     \<Rightarrow> (i64 \<times> bool) \<times> Admission option \<times> gov" where
  "settle_cost clk cfg s kp p (cost, missing) (adm, g) =
     ((cost, missing), adm, if money_owned adm then g else settle_scopes clk cfg s kp p cost g)"

definition settle_local ::
  "clock \<Rightarrow> GovCfg \<Rightarrow> Subject \<Rightarrow> KeyPolicy \<Rightarrow> string \<Rightarrow> string \<Rightarrow> Usage \<Rightarrow> Table option \<Rightarrow> i64 \<Rightarrow> TeamPolicy
     \<Rightarrow> Admission option \<Rightarrow> gov \<Rightarrow> (i64 \<times> bool) \<times> Admission option \<times> gov" where
  "settle_local clk cfg s kp provider model u table n p adm g =
     settle_cost clk cfg s kp p (cost_or_missing table provider model u)
       (finish_handle (Some (settled_tokens u n adm)) adm (settle_quota clk s p n g))"

definition gov_settle ::
  "clock \<Rightarrow> GovCfg \<Rightarrow> Subject \<Rightarrow> KeyPolicy \<Rightarrow> string \<Rightarrow> string \<Rightarrow> Usage \<Rightarrow> Table option
     \<Rightarrow> Admission option \<Rightarrow> gov \<Rightarrow> (i64 \<times> bool) \<times> Admission option \<times> gov" where
  "gov_settle clk cfg s kp provider model u table adm g =
     (case TotalTokens u of
        Inl _ \<Rightarrow> ((0, True), finish_handle None adm g)
      | Inr n \<Rightarrow>
          if cf_shared cfg then (settle_shared table provider model u, finish_handle None adm g)
          else settle_local clk cfg s kp provider model u table n (policy_or_zero cfg (sub_Team s)) adm g)"

fun record_outcome :: "(i64 \<times> bool) \<times> Admission option \<times> gov \<Rightarrow> Admission option \<times> gov" where
  "record_outcome ((cost, missing), adm, g) =
     (map_option (\<lambda>a. a\<lparr>ad_once := True, ad_cost := cost, ad_missing := missing\<rparr>) adm, g)"

definition outcome :: "Table option \<Rightarrow> string \<Rightarrow> string \<Rightarrow> Usage \<Rightarrow> Admission \<Rightarrow> i64 \<times> bool" where
  "outcome table provider model u a =
     (if ad_moneyOwned a then cost_or_missing table provider model u else (ad_cost a, ad_missing a))"

definition Settle ::
  "clock \<Rightarrow> GovCfg \<Rightarrow> Subject \<Rightarrow> KeyPolicy \<Rightarrow> string \<Rightarrow> string \<Rightarrow> Usage \<Rightarrow> Table option
     \<Rightarrow> Admission option \<Rightarrow> gov \<Rightarrow> (i64 \<times> bool) \<times> Admission option \<times> gov" where
  "Settle clk cfg s kp provider model u table adm g =
     (case adm of
        None \<Rightarrow> gov_settle clk cfg s kp provider model u table None g
      | Some a \<Rightarrow>
          let r = (if ad_once a then (Some a, g)
                   else record_outcome (gov_settle clk cfg s kp provider model u table (Some a) g))
          in (outcome table provider model u (the (fst r)), r))"

section \<open>What a settlement charges\<close>

text \<open>
  A step of the settlement, seen from one followed counter: it stays live, and the step adds
  \<open>c\<close> to it when \<open>hit\<close>, else nothing.
\<close>

definition charged :: "followed \<Rightarrow> i64 \<Rightarrow> bool \<Rightarrow> gov \<Rightarrow> gov \<Rightarrow> bool" where
  "charged F c hit g g' \<longleftrightarrow> follows_bud F g' \<and> known (gv_bud g') (fo_key F)
     \<and> gov_spent F g' = (if hit then sat_add64 (gov_spent F g) c else gov_spent F g)"

lemma charged_trans:
  "charged F c p g g1 \<Longrightarrow> charged F c q g1 g2 \<Longrightarrow> \<not> (p \<and> q) \<Longrightarrow> charged F c (p \<or> q) g g2"
  by (auto simp: charged_def)

lemma charged_same_bud: "gv_bud g' = gv_bud g \<Longrightarrow> charged F c hit g0 g \<Longrightarrow> charged F c hit g0 g'"
  by (simp add: charged_def follows_bud_def gov_spent_def)

lemma known_reads:
  assumes "in_window F clk" "follows_bud F g" "known (gv_bud g) (fo_key F)"
  shows "known (gv_bud (snd (bud_Spent clk key w g))) (fo_key F)" "known (gv_bud (snd (bud_ResetsAt clk key w g))) (fo_key F)"
proof -
  have t: "clk n < fo_ends F" for n using assms(1) by (simp add: in_window_def)
  have ok: "mem_ok (gv_bud g)" "entry_end F (gv_bud g)" using assms(2) by (simp_all add: follows_bud_def)
  have "tracked (gv_bud g) (fo_key F) (clk (gv_reads g))" using assms(3) known_tracked [OF ok(2) t] by simp
  from tracked_known [OF cur_keeps_tracked [OF ok(1) this]]
  show "known (gv_bud (snd (bud_Spent clk key w g))) (fo_key F)" "known (gv_bud (snd (bud_ResetsAt clk key w g))) (fo_key F)"
    by (simp_all add: bud_Spent_def bud_ResetsAt_def Let_def Spent_snd ResetsAt_snd)
qed

text \<open>Every step of the settlement, with the windows the configuration uses.\<close>

lemma settle_steps:
  assumes "in_window F clk" "windows_of F cfg" "0 \<le> c" "follows_bud F g" "known (gv_bud g) (fo_key F)"
    and w: "w \<in> {monthWindow cfg, dayWindow cfg}" and sc: "scope \<in> set scopes"
  shows "charged F c (limit > 0 \<and> fo_key F = budget_Key scope ident w) g (debit_window clk scope ident w limit c g)"
    "charged F c False g (team_month_note clk cfg s limit g)"
    "charged F c False g (key_month_note clk cfg s limit g)"
proof -
  have kw: "scope' \<in> set scopes \<Longrightarrow> w' \<in> {monthWindow cfg, dayWindow cfg} \<Longrightarrow>
      budget_Key scope' ident' w' = fo_key F \<longrightarrow> w' = fo_win F" for scope' ident' w'
    using assms(2) by (auto simp: windows_of_def)
  show "charged F c (limit > 0 \<and> fo_key F = budget_Key scope ident w) g (debit_window clk scope ident w limit c g)"
    using bud_Debit_exact [OF assms(1,3-5) kw [OF sc w]] assms(4,5) by (auto simp: charged_def debit_window_def)
  have note1: "charged F c False g (snd (bud_Spent clk (budget_Key scope' ident' (monthWindow cfg)) (monthWindow cfg) g))"
    if "scope' \<in> set scopes" for scope' ident'
    using store_call_looks(2) [OF assms(1,4) kw [OF that]] known_reads(1) [OF assms(1,4,5)]
    by (simp add: charged_def looks_def)
  have refl: "charged F c False g g" using assms(4,5) by (simp add: charged_def)
  have t: "gv_bud (team_spent cfg s limit r) = gv_bud (snd r)" "gv_bud (key_spent s limit r) = gv_bud (snd r)" for r
    by (cases r; simp add: add_note_def)+
  show "charged F c False g (team_month_note clk cfg s limit g)"
    using refl charged_same_bud [OF t(1) note1 [of ScopeTeam]] by (simp add: team_month_note_def)
  show "charged F c False g (key_month_note clk cfg s limit g)"
    using refl charged_same_bud [OF t(2) note1 [of ScopeKey]] by (simp add: key_month_note_def)
qed

lemma charged_follows: "charged F c hit g g' \<Longrightarrow> follows_bud F g' \<and> known (gv_bud g') (fo_key F)"
  by (simp add: charged_def)

text \<open>The month and the day of a scope are different counters.\<close>

lemma month_not_day:
  "scope \<in> set scopes \<Longrightarrow> budget_Key scope ident (monthWindow cfg) \<noteq> budget_Key scope ident (dayWindow cfg)"
  using budget_Key_eq [of scope scope ident "monthWindow cfg" ident "dayWindow cfg"] window_tags [of cfg] by auto

definition two_windows :: "GovCfg \<Rightarrow> string \<Rightarrow> string \<Rightarrow> i64 \<Rightarrow> i64 \<Rightarrow> string set" where
  "two_windows cfg scope ident ml dl =
     (if ml > 0 then {budget_Key scope ident (monthWindow cfg)} else {})
     \<union> (if dl > 0 then {budget_Key scope ident (dayWindow cfg)} else {})"

lemma two_windows_charged:
  assumes "in_window F clk" "windows_of F cfg" "0 \<le> c" "follows_bud F g" "known (gv_bud g) (fo_key F)" "scope \<in> set scopes"
    and note1: "\<And>h. follows_bud F h \<Longrightarrow> known (gv_bud h) (fo_key F) \<Longrightarrow> charged F c False h (note h)"
  shows "charged F c (fo_key F \<in> two_windows cfg scope ident ml dl) g
    (debit_window clk scope ident (dayWindow cfg) dl c (note (debit_window clk scope ident (monthWindow cfg) ml c g)))"
proof -
  let ?m = "debit_window clk scope ident (monthWindow cfg) ml c g"
  have m: "charged F c (ml > 0 \<and> fo_key F = budget_Key scope ident (monthWindow cfg)) g ?m"
    by (rule settle_steps(1) [OF assms(1-5) _ assms(6)]) simp
  have n: "charged F c False ?m (note ?m)" using charged_follows [OF m] note1 by blast
  have f: "follows_bud F (note ?m)" "known (gv_bud (note ?m)) (fo_key F)" using charged_follows [OF n] by simp_all
  have d: "charged F c (dl > 0 \<and> fo_key F = budget_Key scope ident (dayWindow cfg)) (note ?m)
      (debit_window clk scope ident (dayWindow cfg) dl c (note ?m))"
    by (rule settle_steps(1) [OF assms(1-3) f _ assms(6)]) simp
  have "charged F c (ml > 0 \<and> fo_key F = budget_Key scope ident (monthWindow cfg)
        \<or> dl > 0 \<and> fo_key F = budget_Key scope ident (dayWindow cfg)) g
      (debit_window clk scope ident (dayWindow cfg) dl c (note ?m))"
    using charged_trans [OF charged_trans [OF m n] d] month_not_day [OF assms(6), of ident cfg] by auto
  then show ?thesis by (auto simp: two_windows_def split: if_splits elim!: back_subst [of "\<lambda>h. charged F c h g _"])
qed

lemma scope_keys:
  assumes "\<not> cf_shared cfg"
  shows "sc_key ` set (localMoneyScopes cfg s kp) =
    two_windows cfg ScopeTeam (sub_Team s) (tp_BudgetMicrosPerMonth (policy_or_zero cfg (sub_Team s)))
        (tp_BudgetMicrosPerDay (policy_or_zero cfg (sub_Team s)))
    \<union> two_windows cfg ScopeKey (sub_KeyID s) (kp_BudgetMicrosPerMonth kp) (kp_BudgetMicrosPerDay kp)
    \<union> (case userPolicyOf cfg s of None \<Rightarrow> {}
        | Some up \<Rightarrow> two_windows cfg ScopeUser (userBudgetID s) (up_BudgetMicrosPerMonth up) (up_BudgetMicrosPerDay up))"
proof -
  have k: "sc_key ` set (add_scope scope ident limit mode w ref) = (if limit > 0 then {budget_Key scope ident w} else {})"
    for scope ident limit mode w ref by (simp add: add_scope_def)
  show ?thesis using assms
    by (cases "policyOf cfg (sub_Team s)"; cases "userPolicyOf cfg s")
       (simp_all only: localMoneyScopes_def Let_def image_Un k two_windows_def policy_or_zero_def no_policy_def set_append
          option.case if_False set_simps image_empty TeamPolicy.select_convs less_irrefl Un_empty_left Un_empty_right Un_assoc)
qed

lemma two_windows_disjoint:
  assumes "scope \<in> set scopes" "scope' \<in> set scopes" "scope \<noteq> scope'"
    and "k \<in> two_windows cfg scope ident ml dl"
  shows "k \<notin> two_windows cfg scope' ident' ml' dl'"
proof -
  have "budget_Key scope i w \<noteq> budget_Key scope' j w'" "budget_Key scope' j w' \<noteq> budget_Key scope i w" for i j w w'
    using budget_Key_eq [OF assms(1,2)] assms(3) by metis+
  then show ?thesis using assms(4) by (auto simp: two_windows_def split: if_splits)
qed

lemma settle_scopes_charged:
  assumes "in_window F clk" "windows_of F cfg" "0 \<le> c" "follows_bud F g" "known (gv_bud g) (fo_key F)" "\<not> cf_shared cfg"
  shows "charged F c (fo_key F \<in> sc_key ` set (localMoneyScopes cfg s kp)) g
    (settle_scopes clk cfg s kp (policy_or_zero cfg (sub_Team s)) c g)"
proof -
  let ?p = "policy_or_zero cfg (sub_Team s)"
  let ?g1 = "settle_team clk cfg s ?p c g"
  let ?g2 = "settle_key clk cfg s kp c ?g1"
  note steps = settle_steps [OF assms(1-3) _ _ insertI1 scopes_mem(1)]
  note two = two_windows_charged [OF assms(1-3)]
  have t: "charged F c (fo_key F \<in> two_windows cfg ScopeTeam (sub_Team s) (tp_BudgetMicrosPerMonth ?p) (tp_BudgetMicrosPerDay ?p)) g ?g1"
    unfolding settle_team_def by (rule two [OF assms(4,5)]) (auto intro: steps)
  note g1 = charged_follows [OF t, THEN conjunct1] charged_follows [OF t, THEN conjunct2]
  have k: "charged F c (fo_key F \<in> two_windows cfg ScopeKey (sub_KeyID s) (kp_BudgetMicrosPerMonth kp) (kp_BudgetMicrosPerDay kp)) ?g1 ?g2"
    unfolding settle_key_def by (rule two [OF g1]) (auto intro: steps)
  note g2 = charged_follows [OF k, THEN conjunct1] charged_follows [OF k, THEN conjunct2]
  have u: "charged F c (fo_key F \<in> (case userPolicyOf cfg s of None \<Rightarrow> {}
        | Some up \<Rightarrow> two_windows cfg ScopeUser (userBudgetID s) (up_BudgetMicrosPerMonth up) (up_BudgetMicrosPerDay up)))
      ?g2 (settle_user clk cfg s c ?g2)"
  proof (cases "userPolicyOf cfg s")
    case None
    then show ?thesis using g2 by (simp add: settle_user_def charged_def)
  next
    case (Some up)
    show ?thesis using two [OF g2 scopes_mem(3), of "\<lambda>h. h"] Some by (simp add: settle_user_def charged_def)
  qed
  note disj = two_windows_disjoint [OF scopes_mem(1,2) scopes_neq(1)] two_windows_disjoint [OF scopes_mem(1,3) scopes_neq(2)]
    two_windows_disjoint [OF scopes_mem(2,3) scopes_neq(3)]
  show ?thesis unfolding settle_scopes_def scope_keys [OF assms(6)] Un_iff
    by (rule charged_trans [OF charged_trans [OF t k] u]) (auto split: option.splits dest: disj)
qed

section \<open>Settlement properties\<close>

lemma finish_handle_bud [simp]:
  "gv_bud (snd (finish_handle actual adm g)) = gv_bud g"
  "money_owned (fst (finish_handle actual adm g)) = money_owned adm"
  by (simp_all add: finish_handle_def finishRates_def money_owned_def Let_def split: option.split)

lemma settle_quota_bud [simp]: "gv_bud (settle_quota clk s p n g) = gv_bud g"
  by (simp add: settle_quota_def lim_QuotaUsed_def lim_DebitQuota_def)

lemma cost_nonneg: "0 \<le> fst (cost_or_missing table provider model u)"
  by (simp add: cost_or_missing_def CostUSDMicros_nonneg)

lemma settle_cost_eq:
  "settle_cost clk cfg s kp p c r =
     (c, fst r, if money_owned (fst r) then snd r else settle_scopes clk cfg s kp p (fst c) (snd r))"
  by (cases c; cases r) simp

text \<open>A settled handle answers from its record and changes nothing.\<close>

lemma Settle_again:
  "ad_once a \<Longrightarrow> Settle clk cfg s kp provider model u table (Some a) g
     = (outcome table provider model u a, Some a, g)"
  by (simp add: Settle_def)

lemma finish_handle_Some: "\<exists>a'. finish_handle actual (Some a) g = (Some a', snd (finish_handle actual (Some a) g))
    \<and> ad_moneyOwned a' = ad_moneyOwned a"
  by (simp add: finish_handle_def finishRates_def Let_def)

lemma Settle_valid:
  assumes "TotalTokens u = Inr n" "\<not> cf_shared cfg" "\<not> ad_once a" "\<not> ad_moneyOwned a"
    and cost_def: "cost = cost_or_missing table provider model u" and p_def: "p = policy_or_zero cfg (sub_Team s)"
  shows "\<exists>a' h. Settle clk cfg s kp provider model u table (Some a) g
      = (cost, Some a', settle_scopes clk cfg s kp p (fst cost) h)
    \<and> gv_bud h = gv_bud g \<and> ad_once a' \<and> \<not> ad_moneyOwned a' \<and> ad_cost a' = fst cost \<and> ad_missing a' = snd cost"
proof -
  let ?f = "finish_handle (Some (settled_tokens u n (Some a))) (Some a) (settle_quota clk s p n g)"
  obtain a' where a': "?f = (Some a', snd ?f)" "ad_moneyOwned a' = ad_moneyOwned a"
    using finish_handle_Some by blast
  have bud: "gv_bud (snd ?f) = gv_bud g" by simp
  have own: "fst ?f = Some a'" "\<not> money_owned (Some a')"
    using a' assms(4) by (metis fst_conv, simp add: money_owned_def)
  have gs: "gov_settle clk cfg s kp provider model u table (Some a) g
      = (cost, Some a', settle_scopes clk cfg s kp p (fst cost) (snd ?f))"
    using assms(1,2) own
    by (simp add: gov_settle_def settle_local_def settle_cost_eq cost_def p_def)
  show ?thesis
    using assms(3,4) a'(2) bud
    by (intro exI [of _ "a'\<lparr>ad_once := True, ad_cost := fst cost, ad_missing := snd cost\<rparr>"] exI [of _ "snd ?f"])
       (cases cost, simp add: Settle_def gs outcome_def Let_def)
qed

text \<open>The other settlements charge no budget: malformed usage, shared mode, money owned by a permit.\<close>

lemma Settle_uncharged:
  assumes "\<not> ad_once a" "isl (TotalTokens u) \<or> cf_shared cfg \<or> ad_moneyOwned a"
    and "Settle clk cfg s kp provider model u table (Some a) g = (cost, adm', g')"
  shows "gv_bud g' = gv_bud g \<and> (\<exists>a'. adm' = Some a' \<and> ad_once a' \<and> ad_moneyOwned a' = ad_moneyOwned a
    \<and> cost = (if ad_moneyOwned a then cost_or_missing table provider model u else (ad_cost a', ad_missing a'))
    \<and> (isl (TotalTokens u) \<longrightarrow> (ad_cost a', ad_missing a') = (0, True)))"
proof -
  let ?r = "gov_settle clk cfg s kp provider model u table (Some a) g"
  obtain a' where a': "fst (snd ?r) = Some a'" "ad_moneyOwned a' = ad_moneyOwned a"
      and bud: "gv_bud (snd (snd ?r)) = gv_bud g" and err: "isl (TotalTokens u) \<Longrightarrow> fst ?r = (0, True)"
  proof (cases "TotalTokens u")
    case (Inl e)
    obtain a' where "finish_handle None (Some a) g = (Some a', snd (finish_handle None (Some a) g))" "ad_moneyOwned a' = ad_moneyOwned a"
      using finish_handle_Some by blast
    then show thesis using that Inl by (metis finish_handle_bud(1) fst_conv gov_settle_def old.sum.simps(5) snd_conv)
  next
    case (Inr n)
    show thesis
    proof (cases "cf_shared cfg")
      case True
      obtain a' where "finish_handle None (Some a) g = (Some a', snd (finish_handle None (Some a) g))" "ad_moneyOwned a' = ad_moneyOwned a"
        using finish_handle_Some by blast
      then show thesis using that Inr True finish_handle_bud(1) [of None "Some a" g] by (simp add: gov_settle_def) (metis fst_conv)
    next
      case False
      let ?q = "settle_quota clk s (policy_or_zero cfg (sub_Team s)) n g" and ?t = "Some (settled_tokens u n (Some a))"
      obtain a' where f: "finish_handle ?t (Some a) ?q = (Some a', snd (finish_handle ?t (Some a) ?q))"
          "ad_moneyOwned a' = ad_moneyOwned a"
        using finish_handle_Some by blast
      moreover have "ad_moneyOwned a" using assms(2) Inr False by simp
      ultimately show thesis
        using that Inr False finish_handle_bud(1) [of ?t "Some a" ?q]
        by (simp add: gov_settle_def settle_local_def settle_cost_eq money_owned_def) (metis fst_conv)
    qed
  qed
  obtain c m where r: "?r = ((c, m), Some a', snd (snd ?r))"
    using a'(1) by (cases ?r) auto
  have "Settle clk cfg s kp provider model u table (Some a) g =
      (outcome table provider model u (the (fst (record_outcome ?r))), record_outcome ?r)"
    using assms(1) by (simp add: Settle_def Let_def)
  then have "adm' = Some (a'\<lparr>ad_once := True, ad_cost := c, ad_missing := m\<rparr>)" "g' = snd (snd ?r)"
    "cost = outcome table provider model u (a'\<lparr>ad_once := True, ad_cost := c, ad_missing := m\<rparr>)"
    using assms(3) by (simp_all add: r [THEN arg_cong [where f = record_outcome]])
  moreover have "isl (TotalTokens u) \<longrightarrow> (c, m) = (0, True)" using err r by (metis fst_conv)
  ultimately show ?thesis using a'(2) bud by (auto simp: outcome_def)
qed

text \<open>
  C6: Settling a request charges its cost exactly once to exactly the scopes it was admitted
  under. The first settlement of an admission with a valid usage, in local mode, adds the cost
  of the pricing table to the counter of every budget that applies to the subject (team, key and
  user, month and day) and to no other counter. It charges no counter when the usage is malformed
  (the cost is then missing), in shared mode, or when the money of the request is owned by the
  permits of its attempts, which \<open>FinishLocalBudget\<close> settles. Settling the same admission again,
  with any usage, model and table, changes nothing and answers with the recorded cost, or for
  owned money with the price of the usage given. Stated for one counter that is in the store and
  stays within its window.
\<close>

theorem settle_charges_every_scope_once:
  assumes "in_window F clk" "windows_of F cfg" "follows_bud F g" "known (gv_bud g) (fo_key F)" "\<not> ad_once a"
    and "Settle clk cfg s kp provider model u table (Some a) g = (cost, adm', g')"
  shows "gov_spent F g' =
      (if \<not> isl (TotalTokens u) \<and> \<not> ad_moneyOwned a \<and> fo_key F \<in> sc_key ` set (localMoneyScopes cfg s kp)
       then sat_add64 (gov_spent F g) (fst cost) else gov_spent F g)
    \<and> (\<not> isl (TotalTokens u) \<longrightarrow> \<not> cf_shared cfg \<longrightarrow> cost = cost_or_missing table provider model u)
    \<and> (isl (TotalTokens u) \<longrightarrow> \<not> ad_moneyOwned a \<longrightarrow> cost = (0, True))
    \<and> Settle clk cfg s kp provider' model' u' table' adm' g' =
        (if ad_moneyOwned a then cost_or_missing table' provider' model' u' else cost, adm', g')"
proof (cases "isl (TotalTokens u) \<or> cf_shared cfg \<or> ad_moneyOwned a")
  case True
  have "gov_spent F g' = gov_spent F g"
    using Settle_uncharged [OF assms(5) True assms(6)] by (simp add: gov_spent_def)
  moreover have "localMoneyScopes cfg s kp = []" if "cf_shared cfg" using that by (simp add: localMoneyScopes_def)
  ultimately show ?thesis
    using Settle_uncharged [OF assms(5) True assms(6)] True by (auto simp: Settle_again outcome_def)
next
  case False
  then obtain n where n: "TotalTokens u = Inr n" "\<not> cf_shared cfg" "\<not> ad_moneyOwned a"
    by (cases "TotalTokens u") auto
  let ?c = "cost_or_missing table provider model u"
  obtain a' h where st: "cost = ?c" "adm' = Some a'"
      "g' = settle_scopes clk cfg s kp (policy_or_zero cfg (sub_Team s)) (fst ?c) h"
    and h: "gv_bud h = gv_bud g"
    and a': "ad_once a'" "\<not> ad_moneyOwned a'" "ad_cost a' = fst ?c" "ad_missing a' = snd ?c"
    using Settle_valid [OF n(1,2) assms(5) n(3) refl refl, of clk s kp provider model table g] assms(6) by auto
  have f: "follows_bud F h" "known (gv_bud h) (fo_key F)" "gov_spent F h = gov_spent F g"
    using assms(3,4) h by (simp_all add: follows_bud_def gov_spent_def)
  show ?thesis
    using settle_scopes_charged [OF assms(1,2) cost_nonneg f(1,2) n(2)] f(3) st a' n
    by (simp add: charged_def Settle_again outcome_def)
qed

lemma curWindow_heap [simp]: "heap (snd (curWindow t key w m)) = heap m"
proof -
  have "heap (lim_tick t m) = heap m" "heap (snd (lim_admit t (lim_tick t m))) = heap m"
    using lim_tick_swept [of t m] lim_admit_swept [of t "lim_tick t m"] by (simp_all add: swept_def)
  then show ?thesis
    by (cases "lim_admit t (lim_tick t m)") (auto simp: curWindow_def Let_def split: option.split bool.split)
qed

lemma DebitQuota_heap [simp]: "heap (DebitQuota t key n w m) = heap m"
  using curWindow_heap [of t key w m]
  by (cases "curWindow t key w m") (auto simp: DebitQuota_def split: option.split)

lemma settle_quota_heap [simp]: "heap (gv_lim (settle_quota clk s p n g)) = heap (gv_lim g)"
  by (simp add: settle_quota_def lim_QuotaUsed_def lim_DebitQuota_def)

lemma settle_scopes_lim [simp]: "gv_lim (settle_scopes clk cfg s kp p c g) = gv_lim g"
proof -
  have d: "gv_lim (debit_window clk scope ident w limit c g) = gv_lim g" for scope ident w limit g
    by (simp add: debit_window_def bud_Debit_def)
  have n: "gv_lim (team_month_note clk cfg s limit g) = gv_lim g" "gv_lim (key_month_note clk cfg s limit g) = gv_lim g" for limit g
    by (simp_all add: team_month_note_def key_month_note_def bud_Spent_def Let_def add_note_def)
  show ?thesis by (simp add: settle_scopes_def settle_user_def settle_key_def settle_team_def d n split: option.split)
qed

text \<open>Finishing the reservations of a handle takes exactly them off the buckets.\<close>

lemma finish_each_takes:
  assumes "\<forall>f\<in>set fs. \<forall>b. fin_bucket f = Some b \<longrightarrow> b < length (heap m)" "b < length (heap m)"
  shows "b_pending (heap (snd (finish_each actual fs m)) ! b) = b_pending (heap m ! b) - open_rates b fs"
proof -
  define m0 where "m0 = m\<lparr>heap := map (\<lambda>i. (heap m ! i)\<lparr>b_pending := b_pending (heap m ! i) - open_rates i fs\<rparr>) [0..<length (heap m)]\<rparr>"
  have "pending_since m0 (\<lambda>b. open_rates b fs) m" by (simp add: pending_since_def m0_def)
  from finish_each_pending [OF this assms(1)] have "pending_since m0 (\<lambda>_. 0) (snd (finish_each actual fs m))" by blast
  then show ?thesis using assms(2) by (auto simp: pending_since_def m0_def)
qed

lemma finish_each_closed: "\<forall>f\<in>set (fst (finish_each actual fs m)). \<not> is_open b f"
proof (induction fs arbitrary: m)
  case (Cons f fs)
  have "\<not> is_open b (fst (finish_rate actual f m))"
    by (auto simp: finish_rate_def is_open_def Let_def split: option.splits)
  then show ?case using Cons.IH by (simp add: Let_def)
qed simp

text \<open>Every branch of the settlement finishes the rates of the handle, in a store with the same buckets.\<close>

lemma gov_settle_finishes:
  "\<exists>actual h cost. heap (gv_lim h) = heap (gv_lim g)
     \<and> fst (gov_settle clk cfg s kp provider model u table (Some a) g) = cost
     \<and> fst (snd (gov_settle clk cfg s kp provider model u table (Some a) g)) = Some (fst (finishRates actual a h))
     \<and> gv_lim (snd (snd (gov_settle clk cfg s kp provider model u table (Some a) g))) = gv_lim (snd (finishRates actual a h))"
proof (cases "TotalTokens u")
  case (Inl e)
  then show ?thesis by (auto simp: gov_settle_def finish_handle_def Let_def)
next
  case (Inr n)
  show ?thesis
  proof (cases "cf_shared cfg")
    case True
    then show ?thesis using Inr by (auto simp: gov_settle_def finish_handle_def Let_def)
  next
    case False
    let ?p = "policy_or_zero cfg (sub_Team s)"
    show ?thesis using Inr False
      by (intro exI [of _ "Some (settled_tokens u n (Some a))"] exI [of _ "settle_quota clk s ?p n g"])
         (simp add: gov_settle_def settle_local_def settle_cost_eq finish_handle_def Let_def)
  qed
qed

text \<open>
  C17: A settled request holds no tokens. Whatever the usage (valid, uncertain or malformed),
  the table and the mode (local or shared), the settlement takes exactly the unfinished
  reservations of its admission off their buckets; afterwards closing or cancelling the same
  admission, in any later state, does nothing.
\<close>

theorem settle_releases_reservations:
  assumes "\<not> ad_once a" "\<forall>f\<in>set (ad_rates a). \<forall>b. fin_bucket f = Some b \<longrightarrow> b < length (heap (gv_lim g))"
    and "b < length (heap (gv_lim g))"
    and "Settle clk cfg s kp provider model u table (Some a) g = (cost, Some a', g')"
  shows "b_pending (heap (gv_lim g') ! b) = b_pending (heap (gv_lim g) ! b) - open_rates b (ad_rates a)
    \<and> (\<forall>f\<in>set (ad_rates a'). \<not> is_open b f)
    \<and> ad_Close a' g'' = (a', g'') \<and> CancelUndispatched a' g'' = (a', g'')"
proof -
  let ?r = "gov_settle clk cfg s kp provider model u table (Some a) g"
  obtain actual h where h: "heap (gv_lim h) = heap (gv_lim g)"
      "fst (snd ?r) = Some (fst (finishRates actual a h))" "gv_lim (snd (snd ?r)) = gv_lim (snd (finishRates actual a h))"
    using gov_settle_finishes [of g clk cfg s kp provider model u table a] by blast
  obtain c m where r: "?r = ((c, m), Some (fst (finishRates actual a h)), snd (snd ?r))"
    using h(2) by (cases ?r) auto
  have S: "record_outcome ?r = (Some a', g')" using assms(1,4) by (auto simp: Settle_def Let_def)
  have a': "a' = (fst (finishRates actual a h))\<lparr>ad_once := True, ad_cost := c, ad_missing := m\<rparr>" "g' = snd (snd ?r)"
    using S by (subst (asm) r, simp)+
  let ?e = "finish_each actual (ad_rates a) (gv_lim h)"
  have e: "gv_lim g' = snd ?e" "ad_rates a' = fst ?e" "ad_once a'"
    using a' h(3) by (simp_all add: finishRates_def Let_def)
  have "b_pending (heap (snd ?e) ! b) = b_pending (heap (gv_lim h) ! b) - open_rates b (ad_rates a)"
    by (rule finish_each_takes) (use assms(2,3) h(1) in simp_all)
  moreover have "\<forall>f\<in>set (fst ?e). \<not> is_open b f" by (rule finish_each_closed)
  ultimately show ?thesis using e h(1)
    by (simp add: ad_Close_def CancelUndispatched_def ad_Cancel_def finish_once_def)
qed


text \<open>A request of 50 tokens on a team with 200 of its 1000 spent: checked, admitted, settled.\<close>

definition sample_live :: gov where
  "sample_live = NewGovernor lim_NewMemory
     \<lparr>bm = [(fo_key sample_followed, \<lparr>spent = 200, windowEnd_of = fo_ends sample_followed\<rparr>)],
      maxEntries = 8, sweepTick = 0, rejected = 0\<rparr>"

definition sample_passed :: "GovDecision \<times> Admission \<times> gov" where
  "sample_passed = PreCheck sample_clock sample_cfg sample_subject sample_key 50 sample_live"

definition sample_adm :: Admission where "sample_adm = fst (snd sample_passed)"
definition sample_gov1 :: gov where "sample_gov1 = snd (snd sample_passed)"

definition sample_settled :: "(i64 \<times> bool) \<times> Admission option \<times> gov" where
  "sample_settled = Settle sample_clock sample_cfg sample_subject sample_key ''bedrock'' ''us.anthropic.claude'' sample_usage
     (Some sample_table) (Some sample_adm) sample_gov1"

lemma sample_windows: "windows_of sample_followed sample_cfg"
  by (rule windows_of_scope [where scope = ScopeTeam and ident = "''acme''" and w = "CalendarMonthIn None"])
     (simp_all add: sample_followed_def sample_cfg_def monthWindow_def)

lemma sample_passed_values:
  "gd_Allowed (fst sample_passed)" "\<not> ad_once sample_adm" "\<not> ad_moneyOwned sample_adm"
  "length (ad_rates sample_adm) = 1" "map fin_bucket (ad_rates sample_adm) = [Some 1]" "map fin_done (ad_rates sample_adm) = [False]"
  "length (heap (gv_lim sample_gov1)) = 2" "b_pending (heap (gv_lim sample_gov1) ! 1) = 1"
  "bm (gv_bud sample_gov1) = [(fo_key sample_followed, \<lparr>spent = 200, windowEnd_of = fo_ends sample_followed\<rparr>)]"
  "maxEntries (gv_bud sample_gov1) = 8" "sweepTick (gv_bud sample_gov1) = 1"
  "TotalTokens sample_usage = Inr 1340"
  by code_simp+

lemma sample_gov1_follows:
  "follows_bud sample_followed sample_gov1" "gov_spent sample_followed sample_gov1 = 200"
  "known (gv_bud sample_gov1) (fo_key sample_followed)"
  using sample_passed_values(9-11)
  by (simp_all add: follows_bud_def mem_ok_def win_ok_def sweepEvery_def entry_end_def known_def
        gov_spent_def spent_of_def live_spend_def gwf_def gget_def max_i64_def)

lemma sample_settled_eq:
  "Settle sample_clock sample_cfg sample_subject sample_key ''bedrock'' ''us.anthropic.claude'' sample_usage
     (Some sample_table) (Some sample_adm) sample_gov1 = (fst sample_settled, fst (snd sample_settled), snd (snd sample_settled))"
  by (simp add: sample_settled_def)

theorem settle_charges_every_scope_once_witness:
  "gov_spent sample_followed (snd (snd sample_settled)) = 8205"
proof -
  have c: "cost_or_missing (Some sample_table) ''bedrock'' ''us.anthropic.claude'' sample_usage = (8005, False)"
    by (simp add: cost_or_missing_def CostUSDMicros_def sample_cost)
  have k: "fo_key sample_followed \<in> sc_key ` set (localMoneyScopes sample_cfg sample_subject sample_key)"
    using imageI [OF sample_month_scope_in, of sc_key] by (simp add: sample_month_scope_def)
  have ns: "\<not> cf_shared sample_cfg" by (simp add: sample_cfg_def)
  from settle_charges_every_scope_once [OF sample_window sample_windows sample_gov1_follows(1,3)
      sample_passed_values(2) sample_settled_eq] c k ns sample_gov1_follows(2) sample_passed_values(3,12)
  show ?thesis by (simp add: sat_add64_def max_i64_def)
qed

theorem settle_releases_reservations_witness:
  "b_pending (heap (gv_lim sample_gov1) ! 1) = 1 \<and> b_pending (heap (gv_lim (snd (snd sample_settled))) ! 1) = 0"
proof -
  obtain f where f: "ad_rates sample_adm = [f]" "fin_bucket f = Some 1" "\<not> fin_done f"
    using sample_passed_values(4-6) by (cases "ad_rates sample_adm") auto
  have open1: "open_rates 1 (ad_rates sample_adm) = 1" using f by (simp add: open_rates_def is_open_def)
  have b: "\<forall>f\<in>set (ad_rates sample_adm). \<forall>b. fin_bucket f = Some b \<longrightarrow> b < length (heap (gv_lim sample_gov1))"
    using f sample_passed_values(7) by simp
  have l: "1 < length (heap (gv_lim sample_gov1))" using sample_passed_values(7) by simp
  obtain a' where a': "fst (snd sample_settled) = Some a'"
    using gov_settle_finishes [of sample_gov1 sample_clock sample_cfg sample_subject sample_key "''bedrock''"
        "''us.anthropic.claude''" sample_usage "Some sample_table" sample_adm] sample_passed_values(2)
    by (cases "gov_settle sample_clock sample_cfg sample_subject sample_key ''bedrock'' ''us.anthropic.claude'' sample_usage
        (Some sample_table) (Some sample_adm) sample_gov1" rule: record_outcome.cases)
       (auto simp: sample_settled_def Settle_def)
  from settle_releases_reservations [OF sample_passed_values(2) b l sample_settled_eq [unfolded a']] open1 sample_passed_values(8)
  show ?thesis by simp
qed

end
