(* ===== verification/Governance_Usage.thy ===== *)
theory Governance_Usage
  imports Governance_Settle
begin

text \<open>
  The usage report of \<open>src/internal/governance/governance.go\<close> (\<open>UsageOf\<close>), the reporting of
  shared limits (\<open>ObserveShared\<close> in \<open>shared.go\<close>), and how the report agrees with the money
  admission of \<open>local_money.go\<close>.
\<close>

section \<open>Data\<close>

record BudgetUsage =
  bu_Limit :: i64
  bu_Spent :: i64
  bu_Remaining :: i64
  bu_Window :: string
  bu_ResetsAt :: gotime
  bu_Reserved :: i64
  bu_Uncertain :: bool

record QuotaUsage =
  qu_Limit :: i64
  qu_Used :: i64
  qu_Window :: string

record SharedLimit =
  sl_Scope :: string
  sl_Kind :: string
  sl_Policy :: string
  sl_Rule :: string
  sl_Window :: string
  sl_Limit :: i64
  sl_Used :: i64
  sl_Reserved :: i64
  sl_Remaining :: i64
  sl_ResetsAt :: gotime
  sl_Hard :: bool

record UsageStatus =
  us_EnforcementMode :: string
  us_SharedLimits :: "SharedLimit list"
  us_Team :: string
  us_TeamBudget :: "BudgetUsage option"
  us_TeamQuota :: "QuotaUsage option"
  us_KeyBudget :: "BudgetUsage option"
  us_KeyQuota :: "QuotaUsage option"
  us_TeamBudgetDay :: "BudgetUsage option"
  us_KeyBudgetDay :: "BudgetUsage option"
  us_UserBudget :: "BudgetUsage option"
  us_UserBudgetDay :: "BudgetUsage option"

definition usage_for :: "string \<Rightarrow> string \<Rightarrow> UsageStatus" where
  "usage_for team mode = \<lparr>us_EnforcementMode = mode, us_SharedLimits = [], us_Team = team, us_TeamBudget = None,
     us_TeamQuota = None, us_KeyBudget = None, us_KeyQuota = None, us_TeamBudgetDay = None, us_KeyBudgetDay = None,
     us_UserBudget = None, us_UserBudgetDay = None\<rparr>"

section \<open>The report\<close>

text \<open>The entry of one budget: the spend, then the reset instant.\<close>

fun entry_resets :: "i64 \<Rightarrow> string \<Rightarrow> i64 \<Rightarrow> gotime \<times> gov \<Rightarrow> BudgetUsage \<times> gov" where
  "entry_resets limit label spent0 (resetsAt, g) =
     (\<lparr>bu_Limit = limit, bu_Spent = spent0, bu_Remaining = max64 0 (wrap64 (limit - spent0)), bu_Window = label,
       bu_ResetsAt = resetsAt, bu_Reserved = 0, bu_Uncertain = False\<rparr>, g)"

fun entry_spent :: "clock \<Rightarrow> string \<Rightarrow> Window \<Rightarrow> i64 \<Rightarrow> string \<Rightarrow> i64 \<times> gov \<Rightarrow> BudgetUsage \<times> gov" where
  "entry_spent clk key w limit label (spent0, g) = entry_resets limit label spent0 (bud_ResetsAt clk key w g)"

type_synonym usage_field = "(BudgetUsage option \<Rightarrow> BudgetUsage option) \<Rightarrow> UsageStatus \<Rightarrow> UsageStatus"

fun put_entry :: "usage_field \<Rightarrow> UsageStatus \<Rightarrow> BudgetUsage \<times> gov \<Rightarrow> UsageStatus \<times> gov" where
  "put_entry upd u (b, g) = (upd (\<lambda>_. Some b) u, g)"

fun usage_budget ::
  "clock \<Rightarrow> usage_field \<Rightarrow> string \<Rightarrow> string \<Rightarrow> Window \<Rightarrow> i64 \<Rightarrow> string \<Rightarrow> UsageStatus \<times> gov \<Rightarrow> UsageStatus \<times> gov" where
  "usage_budget clk upd scope ident w limit label (u, g) =
     (if limit > 0
      then put_entry upd u (entry_spent clk (budget_Key scope ident w) w limit label
             (bud_Spent clk (budget_Key scope ident w) w g))
      else (u, g))"

fun put_team_quota :: "i64 \<Rightarrow> UsageStatus \<Rightarrow> i64 \<times> gov \<Rightarrow> UsageStatus \<times> gov" where
  "put_team_quota limit u (used, g) =
     (u\<lparr>us_TeamQuota := Some \<lparr>qu_Limit = limit, qu_Used = used, qu_Window = ''24h''\<rparr>\<rparr>, g)"

fun put_key_quota :: "i64 \<Rightarrow> UsageStatus \<Rightarrow> i64 \<times> gov \<Rightarrow> UsageStatus \<times> gov" where
  "put_key_quota limit u (used, g) =
     (u\<lparr>us_KeyQuota := Some \<lparr>qu_Limit = limit, qu_Used = used, qu_Window = ''1m''\<rparr>\<rparr>, g)"

fun usage_team_quota :: "clock \<Rightarrow> Subject \<Rightarrow> i64 \<Rightarrow> UsageStatus \<times> gov \<Rightarrow> UsageStatus \<times> gov" where
  "usage_team_quota clk s limit (u, g) =
     (if limit > 0 then put_team_quota limit u (lim_QuotaUsed clk (''quota:'' @ sub_Team s) (24 * hour) g) else (u, g))"

fun usage_key_quota :: "clock \<Rightarrow> Subject \<Rightarrow> i64 \<Rightarrow> UsageStatus \<times> gov \<Rightarrow> UsageStatus \<times> gov" where
  "usage_key_quota clk s limit (u, g) =
     (if limit > 0 then put_key_quota limit u (lim_RateUsed clk (''tpm:key:'' @ sub_KeyID s) limit limit g) else (u, g))"

definition usage_team :: "clock \<Rightarrow> GovCfg \<Rightarrow> Subject \<Rightarrow> UsageStatus \<times> gov \<Rightarrow> UsageStatus \<times> gov" where
  "usage_team clk cfg s st =
     (case policyOf cfg (sub_Team s) of
        None \<Rightarrow> st
      | Some p \<Rightarrow>
          usage_team_quota clk s (tp_TokensPerDay p)
            (usage_budget clk us_TeamBudgetDay_update ScopeTeam (sub_Team s) (dayWindow cfg) (tp_BudgetMicrosPerDay p) ''calendar-day''
              (usage_budget clk us_TeamBudget_update ScopeTeam (sub_Team s) (monthWindow cfg) (tp_BudgetMicrosPerMonth p)
                 ''calendar-month'' st)))"

definition usage_key :: "clock \<Rightarrow> GovCfg \<Rightarrow> Subject \<Rightarrow> KeyPolicy \<Rightarrow> UsageStatus \<times> gov \<Rightarrow> UsageStatus \<times> gov" where
  "usage_key clk cfg s kp st =
     usage_budget clk us_KeyBudgetDay_update ScopeKey (sub_KeyID s) (dayWindow cfg) (kp_BudgetMicrosPerDay kp) ''calendar-day''
       (usage_budget clk us_KeyBudget_update ScopeKey (sub_KeyID s) (monthWindow cfg) (kp_BudgetMicrosPerMonth kp)
          ''calendar-month'' st)"

definition usage_user :: "clock \<Rightarrow> GovCfg \<Rightarrow> Subject \<Rightarrow> UsageStatus \<times> gov \<Rightarrow> UsageStatus \<times> gov" where
  "usage_user clk cfg s st =
     (case userPolicyOf cfg s of
        None \<Rightarrow> st
      | Some up \<Rightarrow>
          usage_budget clk us_UserBudgetDay_update ScopeUser (userBudgetID s) (dayWindow cfg) (up_BudgetMicrosPerDay up) ''calendar-day''
            (usage_budget clk us_UserBudget_update ScopeUser (userBudgetID s) (monthWindow cfg) (up_BudgetMicrosPerMonth up)
               ''calendar-month'' st))"

text \<open>The loop at the end takes the liabilities of running attempts off every entry.\<close>

fun adjust_entry :: "BudgetUsage \<Rightarrow> (i64 \<times> bool) \<times> gov \<Rightarrow> BudgetUsage \<times> gov" where
  "adjust_entry b ((reserved, uncertain), g) =
     (b\<lparr>bu_Reserved := reserved, bu_Uncertain := uncertain,
        bu_Remaining := (if uncertain then 0
           else max64 0 (wrap64 (bu_Remaining b - min reserved (bu_Remaining b))))\<rparr>, g)"

fun usage_adjust ::
  "clock \<Rightarrow> (UsageStatus \<Rightarrow> BudgetUsage option) \<Rightarrow> usage_field \<Rightarrow> string \<Rightarrow> string \<Rightarrow> Window
     \<Rightarrow> UsageStatus \<times> gov \<Rightarrow> UsageStatus \<times> gov" where
  "usage_adjust clk field upd scope ident w (u, g) =
     (case field u of
        None \<Rightarrow> (u, g)
      | Some b \<Rightarrow> put_entry upd u (adjust_entry b (localReserved clk (budget_Key scope ident w) w g)))"

definition usage_reserved :: "clock \<Rightarrow> GovCfg \<Rightarrow> Subject \<Rightarrow> UsageStatus \<times> gov \<Rightarrow> UsageStatus \<times> gov" where
  "usage_reserved clk cfg s st =
     usage_adjust clk us_UserBudgetDay us_UserBudgetDay_update ScopeUser (userBudgetID s) (dayWindow cfg)
      (usage_adjust clk us_UserBudget us_UserBudget_update ScopeUser (userBudgetID s) (monthWindow cfg)
        (usage_adjust clk us_KeyBudgetDay us_KeyBudgetDay_update ScopeKey (sub_KeyID s) (dayWindow cfg)
          (usage_adjust clk us_KeyBudget us_KeyBudget_update ScopeKey (sub_KeyID s) (monthWindow cfg)
            (usage_adjust clk us_TeamBudgetDay us_TeamBudgetDay_update ScopeTeam (sub_Team s) (dayWindow cfg)
              (usage_adjust clk us_TeamBudget us_TeamBudget_update ScopeTeam (sub_Team s) (monthWindow cfg) st)))))"

definition UsageOf :: "clock \<Rightarrow> GovCfg \<Rightarrow> Subject \<Rightarrow> KeyPolicy \<Rightarrow> gov \<Rightarrow> UsageStatus \<times> gov" where
  "UsageOf clk cfg s kp g =
     (if cf_shared cfg then (usage_for (sub_Team s) ''shared'', g)
      else usage_reserved clk cfg s
             (usage_key_quota clk s (kp_TokensPerMinute kp)
               (usage_user clk cfg s (usage_key clk cfg s kp (usage_team clk cfg s (usage_for (sub_Team s) [], g))))))"

section \<open>Reporting shared limits\<close>

text \<open>
  The notifications after a settlement by the shared authority, whose answer (the limits, or
  an error) is an argument.
\<close>

definition observe_limit :: "GovCfg \<Rightarrow> Subject \<Rightarrow> SharedLimit \<Rightarrow> gov \<Rightarrow> gov" where
  "observe_limit cfg s l g =
     (if sl_Limit l \<le> 0 then g
      else
        let g1 = (if sl_Scope l = ''team'' \<and> sl_Kind l = ''microUSD'' \<and> sl_Window l = ''CalendarMonth'' \<and> cf_notifyBudget cfg
                  then add_note (TeamBudgetNote (sub_Team s) (sl_Used l) (sl_Limit l)) g else g)
        in if sl_Scope l = ''key'' \<and> sl_Kind l = ''microUSD'' \<and> sl_Window l = ''CalendarMonth'' \<and> cf_notifyKeyBudget cfg
           then add_note (KeyBudgetNote (sub_Team s) (sub_KeyID s) (sl_Used l) (sl_Limit l)) g1 else g1)"

definition ObserveShared :: "GovCfg \<Rightarrow> Subject \<Rightarrow> admission_error + SharedLimit list \<Rightarrow> gov \<Rightarrow> gov" where
  "ObserveShared cfg s answer g =
     (if \<not> cf_shared cfg then g
      else case answer of Inl _ \<Rightarrow> g | Inr limits \<Rightarrow> fold (observe_limit cfg s) limits g)"

section \<open>What an entry reports\<close>

text \<open>The liabilities on record for the followed window.\<close>

definition liabilities :: "followed \<Rightarrow> gov \<Rightarrow> i64 \<times> bool" where
  "liabilities F g = fst (reserved_in (fo_key F) (fo_ends F, g))"

lemma liabilities_looks: "looks F g g' \<Longrightarrow> liabilities F g' = liabilities F g"
  by (simp add: liabilities_def looks_def Let_def)

lemma looks_refl: "follows_bud F g \<Longrightarrow> looks F g g"
  by (simp add: looks_def)

lemma looks_follows: "looks F g g' \<Longrightarrow> follows_bud F g'"
  by (simp add: looks_def)

lemma looks_same_bud:
  "gv_bud g' = gv_bud g \<Longrightarrow> gv_money g' = gv_money g \<Longrightarrow> gv_states g' = gv_states g \<Longrightarrow> looks F g0 g \<Longrightarrow> looks F g0 g'"
  by (simp add: looks_def follows_bud_def gov_spent_def)

text \<open>The entry of the followed scope before and after the liabilities are taken off.\<close>

definition raw_entry :: "followed \<Rightarrow> gov \<Rightarrow> i64 \<Rightarrow> string \<Rightarrow> BudgetUsage" where
  "raw_entry F g limit label =
     \<lparr>bu_Limit = limit, bu_Spent = gov_spent F g, bu_Remaining = max64 0 (wrap64 (limit - gov_spent F g)), bu_Window = label,
      bu_ResetsAt = fo_ends F, bu_Reserved = 0, bu_Uncertain = False\<rparr>"

definition net_entry :: "followed \<Rightarrow> gov \<Rightarrow> i64 \<Rightarrow> string \<Rightarrow> BudgetUsage" where
  "net_entry F g limit label = fst (adjust_entry (raw_entry F g limit label) (liabilities F g, g))"


text \<open>
  One field of the report through the steps that fill it: the step of its own scope sets it,
  every other step leaves it alone, and none of them changes the followed counter.
\<close>

definition slot_is :: "followed \<Rightarrow> gov \<Rightarrow> (UsageStatus \<Rightarrow> BudgetUsage option) \<Rightarrow> BudgetUsage option \<Rightarrow> UsageStatus \<times> gov \<Rightarrow> bool" where
  "slot_is F g0 field x st \<longleftrightarrow> looks F g0 (snd st) \<and> field (fst st) = x"

lemma key_window: "windows_of F cfg \<Longrightarrow> scope \<in> set scopes \<Longrightarrow> w \<in> {monthWindow cfg, dayWindow cfg} \<Longrightarrow>
    budget_Key scope ident w = fo_key F \<longrightarrow> w = fo_win F"
  by (auto simp: windows_of_def)

lemma other_budget:
  assumes "in_window F clk" "windows_of F cfg" "\<And>f u. field (upd f u) = field u" "scope \<in> set scopes"
    and "w \<in> {monthWindow cfg, dayWindow cfg}" "slot_is F g0 field x st"
  shows "slot_is F g0 field x (usage_budget clk upd scope ident w limit label st)"
proof -
  obtain u g where st: "st = (u, g)" by (cases st)
  let ?k = "budget_Key scope ident w"
  have l: "looks F g0 g" using assms(6) by (simp add: slot_is_def st)
  note kw = key_window [OF assms(2,4,5)]
  have l1: "looks F g (snd (bud_Spent clk ?k w g))"
    by (rule store_call_looks(2) [OF assms(1) looks_follows [OF l] kw])
  have l2: "looks F (snd (bud_Spent clk ?k w g)) (snd (bud_ResetsAt clk ?k w (snd (bud_Spent clk ?k w g))))"
    by (rule store_call_looks(3) [OF assms(1) looks_follows [OF l1] kw])
  show ?thesis using assms(3,6) looks_trans [OF l looks_trans [OF l1 l2]]
    by (cases "bud_Spent clk ?k w g"; cases "bud_ResetsAt clk ?k w (snd (bud_Spent clk ?k w g))")
       (simp add: slot_is_def st)
qed

lemma other_adjust:
  assumes "in_window F clk" "windows_of F cfg" "\<And>f u. field (upd f u) = field u" "scope \<in> set scopes"
    and "w \<in> {monthWindow cfg, dayWindow cfg}" "slot_is F g0 field x st"
  shows "slot_is F g0 field x (usage_adjust clk other upd scope ident w st)"
proof -
  obtain u g where st: "st = (u, g)" by (cases st)
  let ?k = "budget_Key scope ident w"
  let ?r = "bud_ResetsAt clk ?k w g"
  have l: "looks F g0 g" using assms(6) by (simp add: slot_is_def st)
  have "looks F g (snd ?r)"
    by (rule store_call_looks(3) [OF assms(1) looks_follows [OF l] key_window [OF assms(2,4,5)]])
  moreover have "snd (localReserved clk ?k w g) = snd ?r" by (cases ?r) (simp add: localReserved_def Let_def)
  ultimately have "looks F g0 (snd (localReserved clk ?k w g))" using looks_trans [OF l] by simp
  then show ?thesis using assms(3,6)
    by (cases "other u"; cases "localReserved clk ?k w g" rule: adjust_entry.cases [of "(b, r)" for b r, simplified])
       (auto simp: slot_is_def st)
qed

lemma reserved_in_eq: "reserved_in (fo_key F) (fo_ends F, g) = (liabilities F g, g)"
  by (simp add: liabilities_def Let_def)

text \<open>The laws of a field of the report.\<close>

locale usage_slot =
  fixes field :: "UsageStatus \<Rightarrow> BudgetUsage option" and upd :: usage_field
  assumes get_put: "field (upd f u) = f (field u)"
begin

lemma own_budget:
  assumes "in_window F clk" "fo_key F = budget_Key scope ident w" "fo_win F = w" "0 < limit" "slot_is F g0 field x st"
  shows "slot_is F g0 field (Some (raw_entry F g0 limit label)) (usage_budget clk upd scope ident w limit label st)"
proof -
  obtain u g where st: "st = (u, g)" by (cases st)
  have l: "looks F g0 g" using assms(5) by (simp add: slot_is_def st)
  let ?s = "bud_Spent clk (fo_key F) w g"
  let ?r = "bud_ResetsAt clk (fo_key F) w (snd ?s)"
  have l1: "looks F g (snd ?s)"
    by (rule store_call_looks(2) [OF assms(1) looks_follows [OF l]]) (simp add: assms(3))
  have l2: "looks F (snd ?s) (snd ?r)"
    by (rule store_call_looks(3) [OF assms(1) looks_follows [OF l1]]) (simp add: assms(3))
  have v: "fst ?s = gov_spent F g0" "fst ?r = fo_ends F"
    using bud_Spent_value [OF assms(1) looks_follows [OF l]] bud_ResetsAt_value [OF assms(1) looks_follows [OF l1]] l
    by (simp_all add: looks_def assms(3))
  show ?thesis using looks_trans [OF l looks_trans [OF l1 l2]] v get_put assms(2,4)
    by (cases ?s; cases ?r) (simp add: slot_is_def st raw_entry_def)
qed

lemma own_adjust:
  assumes "in_window F clk" "fo_key F = budget_Key scope ident w" "fo_win F = w"
    and "slot_is F g0 field (Some (raw_entry F g0 limit label)) st"
  shows "slot_is F g0 field (Some (net_entry F g0 limit label)) (usage_adjust clk field upd scope ident w st)"
proof -
  obtain u g where st: "st = (u, g)" by (cases st)
  have l: "looks F g0 g" using assms(4) by (simp add: slot_is_def st)
  let ?r = "bud_ResetsAt clk (fo_key F) w g"
  have l1: "looks F g (snd ?r)"
    by (rule store_call_looks(3) [OF assms(1) looks_follows [OF l]]) (simp add: assms(3))
  have "?r = (fo_ends F, snd ?r)"
    using bud_ResetsAt_value [OF assms(1) looks_follows [OF l]] by (simp add: assms(3) prod_eq_iff)
  then have "localReserved clk (fo_key F) w g = reserved_in (fo_key F) (fo_ends F, snd ?r)"
    by (simp add: localReserved_def del: reserved_in.simps)
  then have r: "localReserved clk (fo_key F) w g = (liabilities F g0, snd ?r)"
    using liabilities_looks [OF looks_trans [OF l l1]] by (simp add: reserved_in_eq del: reserved_in.simps)
  have "field (upd f u) = f (field u)" for f by (rule get_put)
  then show ?thesis using looks_trans [OF l l1] assms(2,4) r
    by (cases "liabilities F g0") (simp add: slot_is_def st net_entry_def)
qed

end

interpretation team_month: usage_slot us_TeamBudget us_TeamBudget_update by unfold_locales simp
interpretation team_day: usage_slot us_TeamBudgetDay us_TeamBudgetDay_update by unfold_locales simp
interpretation key_month: usage_slot us_KeyBudget us_KeyBudget_update by unfold_locales simp
interpretation key_day: usage_slot us_KeyBudgetDay us_KeyBudgetDay_update by unfold_locales simp
interpretation user_month: usage_slot us_UserBudget us_UserBudget_update by unfold_locales simp
interpretation user_day: usage_slot us_UserBudgetDay us_UserBudgetDay_update by unfold_locales simp

text \<open>The other fields of the report, group by group.\<close>

lemma other_quota:
  "(\<And>f u. field (us_TeamQuota_update f u) = field u) \<Longrightarrow> slot_is F g0 field x st \<Longrightarrow>
     slot_is F g0 field x (usage_team_quota clk s limit st)"
  "(\<And>f u. field (us_KeyQuota_update f u) = field u) \<Longrightarrow> slot_is F g0 field x st \<Longrightarrow>
     slot_is F g0 field x (usage_key_quota clk s limit st)"
  by (cases st; simp add: slot_is_def lim_QuotaUsed_def lim_RateUsed_def looks_def follows_bud_def gov_spent_def)+

lemma other_groups:
  assumes "in_window F clk" "windows_of F cfg"
  shows "(\<And>f u. field (us_TeamBudget_update f u) = field u) \<Longrightarrow> (\<And>f u. field (us_TeamBudgetDay_update f u) = field u) \<Longrightarrow>
      (\<And>f u. field (us_TeamQuota_update f u) = field u) \<Longrightarrow> slot_is F g0 field x st \<Longrightarrow>
      slot_is F g0 field x (usage_team clk cfg s st)"
    "(\<And>f u. field (us_KeyBudget_update f u) = field u) \<Longrightarrow> (\<And>f u. field (us_KeyBudgetDay_update f u) = field u) \<Longrightarrow>
      (\<And>f u. field (us_KeyQuota_update f u) = field u) \<Longrightarrow> slot_is F g0 field x st \<Longrightarrow>
      slot_is F g0 field x (usage_key clk cfg s kp st)"
    "(\<And>f u. field (us_UserBudget_update f u) = field u) \<Longrightarrow> (\<And>f u. field (us_UserBudgetDay_update f u) = field u) \<Longrightarrow>
      (\<And>f u. field (us_KeyQuota_update f u) = field u) \<Longrightarrow> slot_is F g0 field x st \<Longrightarrow>
      slot_is F g0 field x (usage_user clk cfg s st)"
  using assms
  by (auto simp: usage_team_def usage_key_def usage_user_def split: option.split
        intro!: other_quota other_budget [where cfg = cfg])

lemma slot_start: "follows_bud F g \<Longrightarrow> slot_is F g field (field (usage_for team mode)) (usage_for team mode, g)"
  by (simp add: slot_is_def looks_refl)

text \<open>The entry of a scope, found by the limit that the scope is evidence for.\<close>

definition entry_for :: "GovernanceRef \<Rightarrow> UsageStatus \<Rightarrow> BudgetUsage option" where
  "entry_for ref u =
     (if ref_Limit ref = GovLimitBudgetMonth
      then if ref_Scope ref = GovScopeTeam then us_TeamBudget u
           else if ref_Scope ref = GovScopeKey then us_KeyBudget u else us_UserBudget u
      else if ref_Scope ref = GovScopeTeam then us_TeamBudgetDay u
           else if ref_Scope ref = GovScopeKey then us_KeyBudgetDay u else us_UserBudgetDay u)"

lemmas usage_steps = UsageOf_def usage_reserved_def usage_team_def usage_key_def usage_user_def
lemmas entry_names = entry_for_def limitRef_def GovLimitBudgetMonth_def GovLimitBudgetDay_def
  GovScopeTeam_def GovScopeKey_def GovScopeUser_def

lemma reserved_slots:
  assumes win: "in_window F clk" "windows_of F cfg"
  shows "fo_key F = budget_Key ScopeTeam (sub_Team s) (monthWindow cfg) \<Longrightarrow> fo_win F = monthWindow cfg \<Longrightarrow>
      slot_is F g us_TeamBudget (Some (raw_entry F g limit label)) st \<Longrightarrow>
      slot_is F g us_TeamBudget (Some (net_entry F g limit label)) (usage_reserved clk cfg s st)"
    "fo_key F = budget_Key ScopeTeam (sub_Team s) (dayWindow cfg) \<Longrightarrow> fo_win F = dayWindow cfg \<Longrightarrow>
      slot_is F g us_TeamBudgetDay (Some (raw_entry F g limit label)) st \<Longrightarrow>
      slot_is F g us_TeamBudgetDay (Some (net_entry F g limit label)) (usage_reserved clk cfg s st)"
    "fo_key F = budget_Key ScopeKey (sub_KeyID s) (monthWindow cfg) \<Longrightarrow> fo_win F = monthWindow cfg \<Longrightarrow>
      slot_is F g us_KeyBudget (Some (raw_entry F g limit label)) st \<Longrightarrow>
      slot_is F g us_KeyBudget (Some (net_entry F g limit label)) (usage_reserved clk cfg s st)"
    "fo_key F = budget_Key ScopeKey (sub_KeyID s) (dayWindow cfg) \<Longrightarrow> fo_win F = dayWindow cfg \<Longrightarrow>
      slot_is F g us_KeyBudgetDay (Some (raw_entry F g limit label)) st \<Longrightarrow>
      slot_is F g us_KeyBudgetDay (Some (net_entry F g limit label)) (usage_reserved clk cfg s st)"
    "fo_key F = budget_Key ScopeUser (userBudgetID s) (monthWindow cfg) \<Longrightarrow> fo_win F = monthWindow cfg \<Longrightarrow>
      slot_is F g us_UserBudget (Some (raw_entry F g limit label)) st \<Longrightarrow>
      slot_is F g us_UserBudget (Some (net_entry F g limit label)) (usage_reserved clk cfg s st)"
    "fo_key F = budget_Key ScopeUser (userBudgetID s) (dayWindow cfg) \<Longrightarrow> fo_win F = dayWindow cfg \<Longrightarrow>
      slot_is F g us_UserBudgetDay (Some (raw_entry F g limit label)) st \<Longrightarrow>
      slot_is F g us_UserBudgetDay (Some (net_entry F g limit label)) (usage_reserved clk cfg s st)"
  unfolding usage_reserved_def
  by ((rule other_adjust [OF win], (simp; fail), (simp; fail), (simp; fail)
      | rule team_month.own_adjust [OF win(1)] team_day.own_adjust [OF win(1)] key_month.own_adjust [OF win(1)]
          key_day.own_adjust [OF win(1)] user_month.own_adjust [OF win(1)] user_day.own_adjust [OF win(1)]
      | assumption)+)

lemma own_groups:
  assumes win: "in_window F clk" "windows_of F cfg"
  shows "policyOf cfg (sub_Team s) = Some p \<Longrightarrow> 0 < tp_BudgetMicrosPerMonth p \<Longrightarrow>
      fo_key F = budget_Key ScopeTeam (sub_Team s) (monthWindow cfg) \<Longrightarrow> fo_win F = monthWindow cfg \<Longrightarrow>
      slot_is F g us_TeamBudget x st \<Longrightarrow>
      slot_is F g us_TeamBudget (Some (raw_entry F g (tp_BudgetMicrosPerMonth p) ''calendar-month'')) (usage_team clk cfg s st)"
    "policyOf cfg (sub_Team s) = Some p \<Longrightarrow> 0 < tp_BudgetMicrosPerDay p \<Longrightarrow>
      fo_key F = budget_Key ScopeTeam (sub_Team s) (dayWindow cfg) \<Longrightarrow> fo_win F = dayWindow cfg \<Longrightarrow>
      slot_is F g us_TeamBudgetDay x st \<Longrightarrow>
      slot_is F g us_TeamBudgetDay (Some (raw_entry F g (tp_BudgetMicrosPerDay p) ''calendar-day'')) (usage_team clk cfg s st)"
    "0 < kp_BudgetMicrosPerMonth kp \<Longrightarrow>
      fo_key F = budget_Key ScopeKey (sub_KeyID s) (monthWindow cfg) \<Longrightarrow> fo_win F = monthWindow cfg \<Longrightarrow>
      slot_is F g us_KeyBudget x st \<Longrightarrow>
      slot_is F g us_KeyBudget (Some (raw_entry F g (kp_BudgetMicrosPerMonth kp) ''calendar-month'')) (usage_key clk cfg s kp st)"
    "0 < kp_BudgetMicrosPerDay kp \<Longrightarrow>
      fo_key F = budget_Key ScopeKey (sub_KeyID s) (dayWindow cfg) \<Longrightarrow> fo_win F = dayWindow cfg \<Longrightarrow>
      slot_is F g us_KeyBudgetDay x st \<Longrightarrow>
      slot_is F g us_KeyBudgetDay (Some (raw_entry F g (kp_BudgetMicrosPerDay kp) ''calendar-day'')) (usage_key clk cfg s kp st)"
    "userPolicyOf cfg s = Some up \<Longrightarrow> 0 < up_BudgetMicrosPerMonth up \<Longrightarrow>
      fo_key F = budget_Key ScopeUser (userBudgetID s) (monthWindow cfg) \<Longrightarrow> fo_win F = monthWindow cfg \<Longrightarrow>
      slot_is F g us_UserBudget x st \<Longrightarrow>
      slot_is F g us_UserBudget (Some (raw_entry F g (up_BudgetMicrosPerMonth up) ''calendar-month'')) (usage_user clk cfg s st)"
    "userPolicyOf cfg s = Some up \<Longrightarrow> 0 < up_BudgetMicrosPerDay up \<Longrightarrow>
      fo_key F = budget_Key ScopeUser (userBudgetID s) (dayWindow cfg) \<Longrightarrow> fo_win F = dayWindow cfg \<Longrightarrow>
      slot_is F g us_UserBudgetDay x st \<Longrightarrow>
      slot_is F g us_UserBudgetDay (Some (raw_entry F g (up_BudgetMicrosPerDay up) ''calendar-day'')) (usage_user clk cfg s st)"
  unfolding usage_team_def usage_key_def usage_user_def
  by (simp_all only: option.case)
     ((rule other_quota, (simp; fail)
      | rule other_budget [OF win], (simp; fail), (simp; fail), (simp; fail)
      | rule team_month.own_budget [OF win(1)] team_day.own_budget [OF win(1)] key_month.own_budget [OF win(1)]
          key_day.own_budget [OF win(1)] user_month.own_budget [OF win(1)] user_day.own_budget [OF win(1)]
      | assumption)+)

definition first_pass :: "clock \<Rightarrow> GovCfg \<Rightarrow> Subject \<Rightarrow> KeyPolicy \<Rightarrow> gov \<Rightarrow> UsageStatus \<times> gov" where
  "first_pass clk cfg s kp g = usage_key_quota clk s (kp_TokensPerMinute kp)
     (usage_user clk cfg s (usage_key clk cfg s kp (usage_team clk cfg s (usage_for (sub_Team s) [], g))))"

lemma first_slots:
  assumes win: "in_window F clk" "windows_of F cfg" and fb: "follows_bud F g"
  shows "policyOf cfg (sub_Team s) = Some p \<Longrightarrow> 0 < tp_BudgetMicrosPerMonth p \<Longrightarrow>
      fo_key F = budget_Key ScopeTeam (sub_Team s) (monthWindow cfg) \<Longrightarrow> fo_win F = monthWindow cfg \<Longrightarrow>
      slot_is F g us_TeamBudget (Some (raw_entry F g (tp_BudgetMicrosPerMonth p) ''calendar-month'')) (first_pass clk cfg s kp g)"
    "policyOf cfg (sub_Team s) = Some p \<Longrightarrow> 0 < tp_BudgetMicrosPerDay p \<Longrightarrow>
      fo_key F = budget_Key ScopeTeam (sub_Team s) (dayWindow cfg) \<Longrightarrow> fo_win F = dayWindow cfg \<Longrightarrow>
      slot_is F g us_TeamBudgetDay (Some (raw_entry F g (tp_BudgetMicrosPerDay p) ''calendar-day'')) (first_pass clk cfg s kp g)"
    "0 < kp_BudgetMicrosPerMonth kp \<Longrightarrow>
      fo_key F = budget_Key ScopeKey (sub_KeyID s) (monthWindow cfg) \<Longrightarrow> fo_win F = monthWindow cfg \<Longrightarrow>
      slot_is F g us_KeyBudget (Some (raw_entry F g (kp_BudgetMicrosPerMonth kp) ''calendar-month'')) (first_pass clk cfg s kp g)"
    "0 < kp_BudgetMicrosPerDay kp \<Longrightarrow>
      fo_key F = budget_Key ScopeKey (sub_KeyID s) (dayWindow cfg) \<Longrightarrow> fo_win F = dayWindow cfg \<Longrightarrow>
      slot_is F g us_KeyBudgetDay (Some (raw_entry F g (kp_BudgetMicrosPerDay kp) ''calendar-day'')) (first_pass clk cfg s kp g)"
    "userPolicyOf cfg s = Some up \<Longrightarrow> 0 < up_BudgetMicrosPerMonth up \<Longrightarrow>
      fo_key F = budget_Key ScopeUser (userBudgetID s) (monthWindow cfg) \<Longrightarrow> fo_win F = monthWindow cfg \<Longrightarrow>
      slot_is F g us_UserBudget (Some (raw_entry F g (up_BudgetMicrosPerMonth up) ''calendar-month'')) (first_pass clk cfg s kp g)"
    "userPolicyOf cfg s = Some up \<Longrightarrow> 0 < up_BudgetMicrosPerDay up \<Longrightarrow>
      fo_key F = budget_Key ScopeUser (userBudgetID s) (dayWindow cfg) \<Longrightarrow> fo_win F = dayWindow cfg \<Longrightarrow>
      slot_is F g us_UserBudgetDay (Some (raw_entry F g (up_BudgetMicrosPerDay up) ''calendar-day'')) (first_pass clk cfg s kp g)"
  unfolding first_pass_def
  by ((rule other_quota, (simp; fail)
      | rule other_groups [OF win], (simp; fail), (simp; fail), (simp; fail)
      | rule own_groups [OF win]
      | assumption | rule slot_start [OF fb])+)


text \<open>The report's entry for a scope: what is spent, and what is left beside the running attempts.\<close>

lemma UsageOf_passes:
  "\<not> cf_shared cfg \<Longrightarrow> UsageOf clk cfg s kp g = usage_reserved clk cfg s (first_pass clk cfg s kp g)"
  by (simp add: UsageOf_def first_pass_def)

lemma usage_entry:
  assumes sc: "sc \<in> set (localMoneyScopes cfg s kp)"
    and F: "fo_key F = sc_key sc" "fo_win F = sc_win sc" and win: "in_window F clk" "windows_of F cfg" and fb: "follows_bud F g"
  shows "\<exists>label. slot_is F g (entry_for (sc_gov sc)) (Some (net_entry F g (sc_limit sc) label)) (UsageOf clk cfg s kp g)"
proof -
  let ?m = "monthWindow cfg" and ?d = "dayWindow cfg"
  have ns: "\<not> cf_shared cfg" using sc by (auto simp: localMoneyScopes_def)
  note u = UsageOf_passes [OF ns]
  note first = first_slots [OF win fb]
  note net = reserved_slots [OF win]
  consider (tm) p where "policyOf cfg (sub_Team s) = Some p" "sc \<in> set (add_scope ScopeTeam (sub_Team s)
        (tp_BudgetMicrosPerMonth p) (tp_BudgetExceeded p) ?m (limitRef GovScopeTeam GovLimitBudgetMonth (src_Budget (tp_Sources p))))"
    | (td) p where "policyOf cfg (sub_Team s) = Some p" "sc \<in> set (add_scope ScopeTeam (sub_Team s)
        (tp_BudgetMicrosPerDay p) (tp_BudgetDayExceeded p) ?d (limitRef GovScopeTeam GovLimitBudgetDay (src_BudgetDay (tp_Sources p))))"
    | (km) "sc \<in> set (add_scope ScopeKey (sub_KeyID s) (kp_BudgetMicrosPerMonth kp) [] ?m (limitRef GovScopeKey GovLimitBudgetMonth keySource))"
    | (kd) "sc \<in> set (add_scope ScopeKey (sub_KeyID s) (kp_BudgetMicrosPerDay kp) [] ?d (limitRef GovScopeKey GovLimitBudgetDay keySource))"
    | (um) up where "userPolicyOf cfg s = Some up" "sc \<in> set (add_scope ScopeUser (userBudgetID s)
        (up_BudgetMicrosPerMonth up) (up_BudgetExceeded up) ?m (limitRef GovScopeUser GovLimitBudgetMonth (usrc_Budget (up_Sources up))))"
    | (ud) up where "userPolicyOf cfg s = Some up" "sc \<in> set (add_scope ScopeUser (userBudgetID s)
        (up_BudgetMicrosPerDay up) (up_BudgetExceeded up) ?d (limitRef GovScopeUser GovLimitBudgetDay (usrc_BudgetDay (up_Sources up))))"
    using sc ns unfolding localMoneyScopes_def Let_def
    by (cases "policyOf cfg (sub_Team s)"; cases "userPolicyOf cfg s") (simp_all, blast+)
  then show ?thesis
  proof cases
    case (tm p)
    have k: "fo_key F = budget_Key ScopeTeam (sub_Team s) ?m" "fo_win F = ?m" "0 < tp_BudgetMicrosPerMonth p"
      "sc_limit sc = tp_BudgetMicrosPerMonth p" "entry_for (sc_gov sc) = us_TeamBudget"
      using tm(2) F by (auto simp: add_scope_mem entry_names fun_eq_iff)
    show ?thesis unfolding u k(4,5) using net(1) [OF k(1,2) first(1) [OF tm(1) k(3,1,2)]] by blast
  next
    case (td p)
    have k: "fo_key F = budget_Key ScopeTeam (sub_Team s) ?d" "fo_win F = ?d" "0 < tp_BudgetMicrosPerDay p"
      "sc_limit sc = tp_BudgetMicrosPerDay p" "entry_for (sc_gov sc) = us_TeamBudgetDay"
      using td(2) F by (auto simp: add_scope_mem entry_names fun_eq_iff)
    show ?thesis unfolding u k(4,5) using net(2) [OF k(1,2) first(2) [OF td(1) k(3,1,2)]] by blast
  next
    case km
    have k: "fo_key F = budget_Key ScopeKey (sub_KeyID s) ?m" "fo_win F = ?m" "0 < kp_BudgetMicrosPerMonth kp"
      "sc_limit sc = kp_BudgetMicrosPerMonth kp" "entry_for (sc_gov sc) = us_KeyBudget"
      using km F by (auto simp: add_scope_mem entry_names fun_eq_iff)
    show ?thesis unfolding u k(4,5) using net(3) [OF k(1,2) first(3) [OF k(3,1,2)]] by blast
  next
    case kd
    have k: "fo_key F = budget_Key ScopeKey (sub_KeyID s) ?d" "fo_win F = ?d" "0 < kp_BudgetMicrosPerDay kp"
      "sc_limit sc = kp_BudgetMicrosPerDay kp" "entry_for (sc_gov sc) = us_KeyBudgetDay"
      using kd F by (auto simp: add_scope_mem entry_names fun_eq_iff)
    show ?thesis unfolding u k(4,5) using net(4) [OF k(1,2) first(4) [OF k(3,1,2)]] by blast
  next
    case (um up)
    have k: "fo_key F = budget_Key ScopeUser (userBudgetID s) ?m" "fo_win F = ?m" "0 < up_BudgetMicrosPerMonth up"
      "sc_limit sc = up_BudgetMicrosPerMonth up" "entry_for (sc_gov sc) = us_UserBudget"
      using um(2) F by (auto simp: add_scope_mem entry_names fun_eq_iff)
    show ?thesis unfolding u k(4,5) using net(5) [OF k(1,2) first(5) [OF um(1) k(3,1,2)]] by blast
  next
    case (ud up)
    have k: "fo_key F = budget_Key ScopeUser (userBudgetID s) ?d" "fo_win F = ?d" "0 < up_BudgetMicrosPerDay up"
      "sc_limit sc = up_BudgetMicrosPerDay up" "entry_for (sc_gov sc) = us_UserBudgetDay"
      using ud(2) F by (auto simp: add_scope_mem entry_names fun_eq_iff)
    show ?thesis unfolding u k(4,5) using net(6) [OF k(1,2) first(6) [OF ud(1) k(3,1,2)]] by blast
  qed
qed

section \<open>The report and the admission\<close>

text \<open>The admission of one blocking scope, from the followed counter and its liabilities.\<close>

lemma money_state_reads:
  assumes "money_state (fo_key F) (fo_ends F) g = (a, g')"
  shows "gv_bud g' = gv_bud g" "gv_reads g' = gv_reads g"
    "(lm_held (gv_states g' ! a), lm_frozen (gv_states g' ! a)) = liabilities F g"
  using assms by (auto simp: money_state_def liabilities_def Let_def split: if_splits)

lemma Check_allows:
  assumes "mem_ok b" "tracked b key t" "0 \<le> est" "0 < limit" "limit \<le> max_i64" "live_spend b key t + est \<le> limit"
  shows "fst (Check t key est limit w b) = Allow"
proof -
  obtain v where c: "cur t key w b = (Some v, tick t b)" using cur_tracked [OF assms(1,2)] by blast
  have v: "spent v = live_spend b key t" using cur_Some(2) [OF assms(1) c] by simp
  have "0 \<le> spent v" using live_spend_bounds [OF assms(1), of key t] v by simp
  then have "wrap64 (limit - spent v) = limit - spent v"
    using assms(3-6) v by (intro wrap64_diff_nonneg) auto
  then show ?thesis using assms(3,4,6) v by (simp add: Check_def c)
qed

lemma claim_scope_decides:
  assumes win: "in_window F clk" and fb: "follows_bud F g" and kn: "known (gv_bud g) (fo_key F)"
    and F: "fo_key F = sc_key sc" "fo_win F = sc_win sc" and lim: "0 < sc_limit sc" "sc_limit sc \<le> max_i64"
    and liab: "liabilities F g = (reserved, frozen)" "0 \<le> reserved"
  shows "isl (fst (claim_scope clk sc bound bounded g)) \<longleftrightarrow> frozen \<or> sc_limit sc \<le> gov_spent F g + reserved"
proof -
  obtain g1 where r: "bud_ResetsAt clk (fo_key F) (fo_win F) g = (fo_ends F, g1)"
    using bud_ResetsAt_value [OF win fb] by (metis prod.collapse)
  have l1: "looks F g g1" "known (gv_bud g1) (fo_key F)"
    using store_call_looks(3) [OF win fb, of "fo_key F" "fo_win F"] known_reads(2) [OF win fb kn, of "fo_key F" "fo_win F"] r by simp_all
  obtain a g2 where ms: "money_state (fo_key F) (fo_ends F) g1 = (a, g2)" by (cases "money_state (fo_key F) (fo_ends F) g1")
  note m = money_state_reads [OF ms]
  have st: "lm_held (gv_states g2 ! a) = reserved" "lm_frozen (gv_states g2 ! a) = frozen"
    using m(3) liabilities_looks [OF l1(1)] liab(1) by simp_all
  have f2: "follows_bud F g2" "gov_spent F g2 = gov_spent F g" "known (gv_bud g2) (fo_key F)"
    using l1 m(1) by (simp_all add: looks_def follows_bud_def gov_spent_def)
  obtain g3 where s: "bud_Spent clk (fo_key F) (fo_win F) g2 = (gov_spent F g, g3)"
    using bud_Spent_value [OF win f2(1)] f2(2) by (metis prod.collapse)
  have l3: "looks F g2 g3" "known (gv_bud g3) (fo_key F)"
    using store_call_looks(2) [OF win f2(1), of "fo_key F" "fo_win F"] known_reads(1) [OF win f2(1,3), of "fo_key F" "fo_win F"] s by simp_all
  have st3: "gv_states g3 = gv_states g2" using l3 by (simp add: looks_def)
  let ?c = "bud_Check clk (fo_key F) reserved (sc_limit sc) (fo_win F) g3"
  have sp: "0 \<le> gov_spent F g" using spent_of_bounds fb by (simp add: gov_spent_def follows_bud_def)
  have claim: "claim_scope clk sc bound bounded g =
      (if frozen \<or> gov_spent F g \<ge> sc_limit sc \<or> reserved \<ge> wrap64 (sc_limit sc - gov_spent F g)
       then (Inl (scope_exhausted sc False), g3) else claim_checked sc bound bounded a (gov_spent F g) ?c)"
    using r ms s st st3 F by (simp add: claim_scope_def Let_def)
  show ?thesis
  proof (cases "frozen \<or> sc_limit sc \<le> gov_spent F g + reserved")
    case True
    have "wrap64 (sc_limit sc - gov_spent F g) = sc_limit sc - gov_spent F g" if "gov_spent F g < sc_limit sc"
      using that sp lim by (intro wrap64_diff_nonneg) auto
    then show ?thesis using True unfolding claim by auto
  next
    case False
    have w: "wrap64 (sc_limit sc - gov_spent F g) = sc_limit sc - gov_spent F g"
      using False sp lim liab(2) by (intro wrap64_diff_nonneg) auto
    have b3: "mem_ok (gv_bud g3)" "entry_end F (gv_bud g3)" using l3(1) by (simp_all add: looks_def follows_bud_def)
    have t: "clk (gv_reads g3) < fo_ends F" using win by (simp add: in_window_def)
    have "live_spend (gv_bud g3) (fo_key F) (clk (gv_reads g3)) = gov_spent F g"
      using spent_of_live [OF b3(2) t] l3(1) f2(2) by (simp add: looks_def gov_spent_def)
    then have "fst ?c = Allow"
      using Check_allows [OF b3(1) known_tracked [OF b3(2) t, THEN iffD1, OF l3(2)] liab(2) lim, of "fo_win F"] False
      by (simp add: bud_Check_def Let_def)
    then show ?thesis using False w liab(2) unfolding claim by (cases ?c) auto
  qed
qed

text \<open>
  C12: The usage report tells the truth about admission. For every blocking budget of a subject
  the report shows the recorded spend, the liabilities of the running attempts and what they
  leave of the limit (nothing while the accounting of the window is uncertain); the remaining
  amount is zero exactly when the admission of the next attempt under that budget would be
  refused. Reporting itself changes no counter and no liability. The counter of the budget is one
  that the store already has (a new one is refused by a full store, which no report shows).
\<close>

theorem usage_agrees_with_admission:
  assumes "sc \<in> set (localMoneyScopes cfg s kp)" "fo_key F = sc_key sc" "fo_win F = sc_win sc"
    and "0 < sc_limit sc" "sc_limit sc \<le> max_i64"
    and "in_window F clk" "windows_of F cfg" "follows_bud F g" "known (gv_bud g) (fo_key F)"
    and "liabilities F g = (reserved, frozen)" "0 \<le> reserved"
    and "UsageOf clk cfg s kp g = (u, g')"
  shows "\<exists>b. entry_for (sc_gov sc) u = Some b
    \<and> bu_Limit b = sc_limit sc \<and> bu_Spent b = gov_spent F g \<and> bu_Reserved b = reserved \<and> bu_ResetsAt b = fo_ends F
    \<and> bu_Remaining b = (if frozen then 0 else max 0 (sc_limit sc - gov_spent F g - reserved))
    \<and> (bu_Remaining b = 0 \<longleftrightarrow> isl (fst (claim_scope clk sc bound bounded g)))
    \<and> gov_spent F g' = gov_spent F g \<and> liabilities F g' = (reserved, frozen)"
proof -
  obtain label where e: "slot_is F g (entry_for (sc_gov sc)) (Some (net_entry F g (sc_limit sc) label)) (u, g')"
    using usage_entry [OF assms(1-3,6-8)] assms(12) by auto
  let ?b = "net_entry F g (sc_limit sc) label"
  have sp: "0 \<le> gov_spent F g" "gov_spent F g \<le> max_i64"
    using spent_of_bounds assms(8) by (simp_all add: gov_spent_def follows_bud_def)
  have w: "wrap64 (sc_limit sc - gov_spent F g) = sc_limit sc - gov_spent F g"
    using sp assms(4,5) by (intro wrap64_diff_nonneg) auto
  have w2: "wrap64 (x - min reserved x) = x - min reserved x" if "0 \<le> x" "x \<le> max_i64" for x
    using that assms(11) by (intro wrap64_diff_nonneg) auto
  have rem: "bu_Remaining ?b = (if frozen then 0 else max 0 (sc_limit sc - gov_spent F g - reserved))"
  proof -
    let ?x = "max 0 (sc_limit sc - gov_spent F g)"
    have "max64 a b = max a b" for a b by (simp add: max64_def max_def)
    then have "bu_Remaining ?b = (if frozen then 0 else max 0 (wrap64 (?x - min reserved ?x)))"
      using w assms(10) by (simp add: net_entry_def raw_entry_def)
    moreover have "wrap64 (?x - min reserved ?x) = ?x - min reserved ?x" by (rule w2) (use assms(5) sp in auto)
    ultimately show ?thesis using assms(11) by (auto simp: max_def min_def)
  qed
  have rest: "bu_Limit ?b = sc_limit sc" "bu_Spent ?b = gov_spent F g" "bu_Reserved ?b = reserved" "bu_ResetsAt ?b = fo_ends F"
    using assms(10) by (simp_all add: net_entry_def raw_entry_def)
  have dec: "bu_Remaining ?b = 0 \<longleftrightarrow> isl (fst (claim_scope clk sc bound bounded g))"
    using claim_scope_decides [OF assms(6,8,9,2,3,4,5,10,11), of bound bounded] rem by auto
  have "looks F g g'" "entry_for (sc_gov sc) u = Some ?b" using e by (simp_all add: slot_is_def)
  then show ?thesis using rem rest dec liabilities_looks [of F g g'] assms(10) by (intro exI [of _ ?b]) (simp add: looks_def)
qed

text \<open>The report of a team with 200 spent and an attempt of 600 running.\<close>

definition sample_running :: "(admission_error + LocalBudgetPermit option) \<times> gov" where
  "sample_running = sample_admit 600 sample_live"

definition sample_gov2 :: gov where "sample_gov2 = snd sample_running"

lemma sample_running_values:
  "bm (gv_bud sample_gov2) = [(fo_key sample_followed, \<lparr>spent = 200, windowEnd_of = fo_ends sample_followed\<rparr>)]"
  "maxEntries (gv_bud sample_gov2) = 8" "sweepTick (gv_bud sample_gov2) = 3"
  "liabilities sample_followed sample_gov2 = (600, False)"
  by code_simp+

lemma sample_gov2_follows:
  "follows_bud sample_followed sample_gov2" "gov_spent sample_followed sample_gov2 = 200"
  "known (gv_bud sample_gov2) (fo_key sample_followed)"
  using sample_running_values(1-3)
  by (simp_all add: follows_bud_def mem_ok_def win_ok_def sweepEvery_def entry_end_def known_def
        gov_spent_def spent_of_def live_spend_def gwf_def gget_def max_i64_def)

theorem usage_agrees_with_admission_witness:
  "\<exists>b. entry_for (sc_gov sample_month_scope) (fst (UsageOf sample_clock sample_cfg sample_subject sample_key sample_gov2)) = Some b
    \<and> bu_Spent b = 200 \<and> bu_Reserved b = 600 \<and> bu_Remaining b = 200
    \<and> \<not> isl (fst (claim_scope sample_clock sample_month_scope 700 True sample_gov2))"
proof -
  have F: "fo_key sample_followed = sc_key sample_month_scope" "fo_win sample_followed = sc_win sample_month_scope"
    "0 < sc_limit sample_month_scope" "sc_limit sample_month_scope \<le> max_i64" "sc_limit sample_month_scope = 1000"
    by (simp_all add: sample_month_scope_def max_i64_def)
  let ?u = "UsageOf sample_clock sample_cfg sample_subject sample_key sample_gov2"
  have u: "?u = (fst ?u, snd ?u)" by simp
  obtain b where b: "entry_for (sc_gov sample_month_scope) (fst ?u) = Some b" "bu_Spent b = 200" "bu_Reserved b = 600"
      "bu_Remaining b = max 0 (1000 - 200 - 600)"
      "bu_Remaining b = 0 \<longleftrightarrow> isl (fst (claim_scope sample_clock sample_month_scope 700 True sample_gov2))"
    using usage_agrees_with_admission [OF sample_month_scope_in F(1-4) sample_window sample_windows sample_gov2_follows(1,3) sample_running_values(4) _ u,
        of 700 True] unfolding sample_gov2_follows(2) F(5) if_False by auto
  show ?thesis by (rule exI [of _ b]) (use b in simp)
qed

end
