(* ===== verification/Go_Duration.thy ===== *)
theory Go_Duration
  imports Float64
begin

text \<open>
  \<open>time.ParseDuration\<close> of the Go standard library, which the policy documents use for their
  intervals: a sign, then terms of a decimal number and a unit. Unsigned 64-bit values are
  \<open>int\<close> with the overflow tests of the library written out; the fraction of a term is computed
  in floating point, as the library does.
\<close>

definition two63 :: int where "two63 = 9223372036854775808"

definition is_digit :: "char \<Rightarrow> bool" where
  "is_digit c \<longleftrightarrow> CHR ''0'' \<le> c \<and> c \<le> CHR ''9''"

definition digit_val :: "char \<Rightarrow> int" where
  "digit_val c = of_char c - 48"

fun leadingInt :: "int \<Rightarrow> string \<Rightarrow> (int \<times> string) option" where
  "leadingInt x [] = Some (x, [])"
| "leadingInt x (c # s) =
     (if \<not> is_digit c then Some (x, c # s)
      else if x > two63 div 10 then None
      else if x * 10 + digit_val c > two63 then None
      else leadingInt (x * 10 + digit_val c) s)"

fun leadingFraction :: "int \<Rightarrow> float64 \<Rightarrow> bool \<Rightarrow> string \<Rightarrow> int \<times> float64 \<times> string" where
  "leadingFraction x scale overflow [] = (x, scale, [])"
| "leadingFraction x scale overflow (c # s) =
     (if \<not> is_digit c then (x, scale, c # s)
      else if overflow then leadingFraction x scale overflow s
      else if x > max_i64 div 10 then leadingFraction x scale True s
      else if x * 10 + digit_val c > two63 then leadingFraction x scale True s
      else leadingFraction (x * 10 + digit_val c) (fmul scale (float_of_int 10)) overflow s)"

text \<open>The units; the two micro signs are U+00B5 and U+03BC in UTF-8.\<close>

definition unit_of :: "string \<Rightarrow> int option" where
  "unit_of u =
     (if u = ''ns'' then Some 1
      else if u = ''us'' \<or> u = [char_of (194::nat), char_of (181::nat), CHR ''s'']
        \<or> u = [char_of (206::nat), char_of (188::nat), CHR ''s''] then Some 1000
      else if u = ''ms'' then Some 1000000
      else if u = ''s'' then Some 1000000000
      else if u = ''m'' then Some 60000000000
      else if u = ''h'' then Some 3600000000000
      else None)"

definition unit_end :: "char \<Rightarrow> bool" where
  "unit_end c \<longleftrightarrow> c = CHR ''.'' \<or> is_digit c"

text \<open>The number of a term: its digits, the fraction with its scale, and the rest.\<close>

definition parse_number :: "string \<Rightarrow> (int \<times> int \<times> float64 \<times> string) option" where
  "parse_number s =
     (case leadingInt 0 s of
        None \<Rightarrow> None
      | Some (v, s1) \<Rightarrow>
          (case s1 of
             CHR ''.'' # s2 \<Rightarrow>
               (case leadingFraction 0 (float_of_int 1) False s2 of
                  (f, scale, s3) \<Rightarrow>
                    if length s1 = length s \<and> length s3 = length s2 then None else Some (v, f, scale, s3))
           | _ \<Rightarrow> if length s1 = length s then None else Some (v, 0, float_of_int 1, s1)))"

definition term_value :: "int \<Rightarrow> int \<Rightarrow> float64 \<Rightarrow> int \<Rightarrow> int option" where
  "term_value v f scale u =
     (if v > two63 div u then None
      else
        let w = (if f > 0 then v * u + \<lfloor>fmul (float_of_int f) (fdiv (float_of_int u) scale)\<rfloor> else v * u)
        in if f > 0 \<and> w > two63 then None else Some w)"

definition parse_term :: "string \<Rightarrow> (int \<times> string) option" where
  "parse_term s =
     (case parse_number s of
        None \<Rightarrow> None
      | Some (v, f, scale, s1) \<Rightarrow>
          (case unit_of (takeWhile (\<lambda>c. \<not> unit_end c) s1) of
             None \<Rightarrow> None
           | Some u \<Rightarrow> map_option (\<lambda>w. (w, dropWhile (\<lambda>c. \<not> unit_end c) s1)) (term_value v f scale u)))"

lemma leadingInt_length: "leadingInt x s = Some (v, s') \<Longrightarrow> length s' \<le> length s"
  by (induction x s rule: leadingInt.induct) (auto split: if_splits)

lemma leadingFraction_length: "leadingFraction x scale ov s = (f, sc, s') \<Longrightarrow> length s' \<le> length s"
  by (induction x scale ov s rule: leadingFraction.induct) (auto split: if_splits)

lemma parse_number_length: "parse_number s = Some (v, f, scale, s') \<Longrightarrow> length s' < length s"
  using leadingInt_length [of 0 s] leadingFraction_length [of 0 "float_of_int 1" False]
  by (fastforce simp: parse_number_def split: option.splits list.splits char.splits bool.splits prod.splits if_splits)

lemma parse_term_length: "parse_term s = Some (w, s') \<Longrightarrow> length s' < length s"
proof -
  assume "parse_term s = Some (w, s')"
  then obtain v f scale s1 where n: "parse_number s = Some (v, f, scale, s1)"
    and s': "s' = dropWhile (\<lambda>c. \<not> unit_end c) s1"
    by (auto simp: parse_term_def split: option.splits)
  show ?thesis unfolding s' by (rule le_less_trans [OF length_dropWhile_le parse_number_length [OF n]])
qed

function parse_terms :: "int \<Rightarrow> string \<Rightarrow> int option" where
  "parse_terms d s =
     (if s = [] then Some d
      else if \<not> unit_end (hd s) then None
      else (case parse_term s of
              None \<Rightarrow> None
            | Some (v, s') \<Rightarrow>
                if (d + v) mod (2 * two63) > two63 then None else parse_terms ((d + v) mod (2 * two63)) s'))"
  by pat_completeness auto

termination parse_terms
  by (relation "measure (length \<circ> snd)") (auto dest: parse_term_length)

declare parse_terms.simps [simp del]

definition parse_magnitude :: "bool \<Rightarrow> string \<Rightarrow> duration option" where
  "parse_magnitude neg s =
     (if s = ''0'' then Some 0
      else if s = [] then None
      else (case parse_terms 0 s of
              None \<Rightarrow> None
            | Some d \<Rightarrow> if neg then Some (wrap64 (- d)) else if d > max_i64 then None else Some d))"

definition ParseDuration :: "string \<Rightarrow> duration option" where
  "ParseDuration s =
     (case s of
        [] \<Rightarrow> None
      | c # s' \<Rightarrow>
          if c = CHR ''-'' \<or> c = CHR ''+'' then parse_magnitude (c = CHR ''-'') s'
          else parse_magnitude False s)"

end
