(* ===== verification/Policy_Doc.thy ===== *)
theory Policy_Doc
  imports Go_Duration
begin

text \<open>
  Governance policy documents (\<open>src/api/v1alpha1/types.go\<close>, \<open>src/internal/policy/policy.go\<close>
  and the rule half of \<open>observability.go\<close>): the wire form, the internal form and the
  conversion that accepts a document or rejects it with a reason. A string-typed enum stays a
  string, since a document may carry any string there; a nil pointer is \<open>None\<close>. The texts of
  the rejections are the constructors of \<open>reject_reason\<close>, with the values the source formats
  into them.
\<close>

section \<open>The wire form\<close>

definition APIVersion :: string where "APIVersion = ''inferplane.dev/v1alpha1''"
definition KindGovernancePolicy :: string where "KindGovernancePolicy = ''GovernancePolicy''"
definition FailOpen :: string where "FailOpen = ''FailOpen''"
definition FailClosed :: string where "FailClosed = ''FailClosed''"
definition CalendarDay :: string where "CalendarDay = ''CalendarDay''"
definition CalendarMonth :: string where "CalendarMonth = ''CalendarMonth''"
definition PreferAffinity :: string where "PreferAffinity = ''PreferAffinity''"
definition PreferFallback :: string where "PreferFallback = ''PreferFallback''"
definition InternalOnly :: string where "InternalOnly = ''InternalOnly''"
definition Block :: string where "Block = ''Block''"
definition Mask :: string where "Mask = ''Mask''"
definition Shadow :: string where "Shadow = ''Shadow''"
definition Enforce :: string where "Enforce = ''Enforce''"

lemmas wire_constants =
  APIVersion_def KindGovernancePolicy_def FailOpen_def FailClosed_def CalendarDay_def CalendarMonth_def
  PreferAffinity_def PreferFallback_def InternalOnly_def Block_def Mask_def Shadow_def Enforce_def

record ObjectMeta =
  om_Name :: string
  om_Generation :: i64

record wire_Subject =
  ws_Team :: string
  ws_User :: string

record LeaseSpec =
  ls_GrantMilliUSD :: i64
  ls_RenewInterval :: string

record BudgetRule =
  wb_Unlimited :: bool
  wb_LimitMilliUSD :: i64
  wb_HardCap :: bool
  wb_Lease :: LeaseSpec
  wb_AdminContact :: string
  wb_Period :: string

record RateRule =
  wr_Unlimited :: bool
  wr_RPM :: i64
  wr_TPM :: i64

record ModelAccessRule =
  wm_Allow :: "string list"

record TokenQuotaRule =
  wq_LimitTokens :: i64
  wq_Period :: string

record wire_BudgetTier =
  wt_ThresholdPercent :: i64
  wt_Substitute :: "(string, string) gomap"

record BudgetTiersRule =
  wts_BudgetRef :: string
  wts_Tiers :: "wire_BudgetTier list"
  wts_EnforceTargets :: bool

record wire_ContextStability =
  wcs_MinHold :: string
  wcs_MinRequests :: i64
  wcs_SessionTTL :: string

record ContextRule =
  wc_Mode :: string
  wc_FromModels :: "string list"
  wc_SimpleModel :: string
  wc_ComplexModel :: string
  wc_MaxSimpleInputTokens :: i64
  wc_ComplexKeywords :: "string list"
  wc_NormalModel :: string
  wc_MaxNormalInputTokens :: i64
  wc_Stability :: "wire_ContextStability option"

record RoutingRule =
  wro_OnAffinityConflict :: string
  wro_BudgetTiers :: "BudgetTiersRule option"
  wro_Context :: "ContextRule option"

record SensitiveDataRule =
  wsd_OnDetected :: string
  wsd_OnUninspectable :: string
  wsd_InternalModels :: "string list"

record wire_TraceExport =
  wte_Exporter :: string
  wte_SamplePercent :: "i64 option"

record SignalExport =
  wse_Exporter :: string

record ObservabilityRule =
  wo_Traces :: "wire_TraceExport option"
  wo_Audit :: "SignalExport option"
  wo_Content :: "SignalExport option"

record wire_Rule =
  w_Name :: string
  w_FailurePolicy :: string
  w_Budget :: "BudgetRule option"
  w_Routing :: "RoutingRule option"
  w_ModelAccess :: "ModelAccessRule option"
  w_Rate :: "RateRule option"
  w_SensitiveData :: "SensitiveDataRule option"
  w_TokenQuota :: "TokenQuotaRule option"
  w_Observability :: "ObservabilityRule option"

record GovernancePolicySpec =
  sp_Subject :: wire_Subject
  sp_Rules :: "wire_Rule list"

record GovernancePolicy =
  gp_APIVersion :: string
  gp_Kind :: string
  gp_Metadata :: ObjectMeta
  gp_Spec :: GovernancePolicySpec

section \<open>The internal form\<close>

record policy_Subject =
  ps_Team :: string
  ps_User :: string

record policy_Budget =
  pb_Unlimited :: bool
  pb_LimitMicroUSD :: i64
  pb_HardCap :: bool
  pb_LeaseGrantMicroUSD :: i64
  pb_LeaseRenewInterval :: duration
  pb_AdminContact :: string
  pb_Period :: string

record ModelAccess =
  ma_Allow :: "string list"

record policy_Rate =
  pr_Unlimited :: bool
  pr_RPM :: i64
  pr_TPM :: i64

record Affinity =
  af_OnAffinityConflict :: string

record policy_BudgetTier =
  bt_ThresholdPercent :: i64
  bt_Substitute :: "(string, string) gomap"

record BudgetTiers =
  bts_BudgetRef :: string
  bts_Tiers :: "policy_BudgetTier list"
  bts_EnforceTargets :: bool

record ContextStability =
  cs_MinHold :: duration
  cs_MinRequests :: i64
  cs_SessionTTL :: duration

record policy_Context =
  pc_Mode :: string
  pc_FromModels :: "string list"
  pc_SimpleModel :: string
  pc_ComplexModel :: string
  pc_MaxSimpleInputTokens :: i64
  pc_ComplexKeywords :: "string list"
  pc_NormalModel :: string
  pc_MaxNormalInputTokens :: i64
  pc_Stability :: "ContextStability option"

record Routing =
  ro_Affinity :: "Affinity option"
  ro_BudgetTiers :: "BudgetTiers option"
  ro_Context :: "policy_Context option"

record SensitiveData =
  sd_OnDetected :: string
  sd_OnUninspectable :: string
  sd_InternalModels :: "string list"

record policy_TokenQuota =
  tq_LimitTokens :: i64
  tq_Period :: string

record TraceExport =
  te_Exporter :: string
  te_SamplePercent :: i64

record Observability =
  ob_Traces :: "TraceExport option"
  ob_Audit :: string
  ob_Content :: string

record policy_Rule =
  r_Name :: string
  r_FailurePolicy :: string
  r_Budget :: "policy_Budget option"
  r_Routing :: "Routing option"
  r_ModelAccess :: "ModelAccess option"
  r_SensitiveData :: "SensitiveData option"
  r_Rate :: "policy_Rate option"
  r_TokenQuota :: "policy_TokenQuota option"
  r_Observability :: "Observability option"

record Policy =
  p_Name :: string
  p_Generation :: i64
  p_Subject :: policy_Subject
  p_Rules :: "policy_Rule list"

section \<open>Rejections\<close>

datatype document_reason =
    ApiVersionNotSupported "string list"
  | UnknownKind string
  | SubjectSelectsNobody
  | NoRules
  | TooManyRules nat
  | EmptyRuleName
  | DuplicateRuleName
  | FailurePolicyRequired
  | UnknownFailurePolicy string
  | NotExactlyOneKind

datatype limit_reason =
    TokenQuotaShape
  | TokenQuotaNotFailClosed
  | ModelAccessEmpty
  | ModelAccessEmptyName
  | RateNegative
  | RateUnlimitedCombined
  | RateLimitsNothing

datatype budget_reason =
    BudgetUnlimitedCombined
  | BudgetLimitRange i64
  | HardCapNotFailClosed
  | UnknownBudgetPeriod string
  | LeaseGrantRange i64
  | RenewIntervalNotDuration string
  | RenewIntervalTooSmall duration

datatype routing_reason =
    RoutingNotExactlyOne
  | UnknownAffinityConflict string
  | StrictTiersNotTeamOnly
  | BudgetRefRequired
  | BudgetRefNotBudget string
  | BudgetRefUnlimited string
  | TiersEmpty

datatype tier_reason =
    ThresholdRange i64 i64
  | ThresholdNotIncreasing
  | SubstituteEmpty
  | SubstituteEmptyEntry
  | SubstituteSelf string
  | SubstituteChain string

datatype sensitive_reason =
    SensitiveNotFailClosed
  | OnDetectedUnknown
  | OnUninspectableUnknown
  | InternalModelsEmpty
  | InternalModelNotExplicit

datatype context_reason =
    ContextNotFailOpen
  | ContextModeUnknown
  | ContextModelsMissing
  | ContextFromModelNotExplicit
  | ContextMaxSimple
  | ContextNormalModel
  | StabilityMinHold
  | StabilitySessionTTL
  | StabilityRange
  | ContextKeywordBlank

datatype observability_reason =
    ObservabilityNotFailOpen
  | ObservabilityEmpty
  | ExporterNameInvalid string string
  | SamplePercentRange i64

text \<open>The reasons of \<open>checkEnforceable\<close>; the last string of the first two is the error of the check.\<close>

datatype enforce_reason =
    TargetRefused string string
  | TierTargetRefused string string
  | ExporterRefused string string string
  | TokenQuotaNotShared
  | AffinityNotEnforceable
  | TierNotTeamOnly
  | RateNotTeamOnly

datatype reject_reason =
    OfDocument document_reason
  | OfLimit limit_reason
  | OfBudget budget_reason
  | OfRouting routing_reason
  | OfTier tier_reason
  | OfSensitive sensitive_reason
  | OfContext context_reason
  | OfObservability observability_reason
  | OfEnforcement enforce_reason

record UnsupportedError =
  ue_APIVersion :: string
  ue_Kind :: string
  ue_Rule :: string
  ue_Reason :: reject_reason

type_synonym reject = "string \<Rightarrow> reject_reason \<Rightarrow> UnsupportedError"
type_synonym 'a converted = "UnsupportedError + 'a"

definition reject_doc :: "GovernancePolicy \<Rightarrow> reject" where
  "reject_doc doc rule reason =
     \<lparr>ue_APIVersion = gp_APIVersion doc, ue_Kind = gp_Kind doc, ue_Rule = rule, ue_Reason = reason\<rparr>"

end
