(* ===== verification/Policy_Convert.thy ===== *)
theory Policy_Convert
  imports Policy_Doc
begin

text \<open>
  The conversion of a wire document (\<open>FromV1Alpha1\<close> of \<open>src/internal/policy/policy.go\<close> and
  \<open>observabilityFromV1Alpha1\<close> of \<open>observability.go\<close>). The first failing check rejects the whole
  document. Two checks range over a Go map, whose order is not fixed: they are run in the order of
  the association list, which decides only the reason that is reported.
\<close>

section \<open>Names\<close>

definition maxPolicyRules :: nat where "maxPolicyRules = 256"

definition SupportedAPIVersions :: "string list" where "SupportedAPIVersions = [APIVersion]"

definition Supports :: "string \<Rightarrow> bool" where
  "Supports v \<longleftrightarrow> v \<in> set SupportedAPIVersions"

text \<open>The white-space characters of \<open>strings.TrimSpace\<close>, as the bytes of their encodings.\<close>

definition space_runes :: "nat list list" where
  "space_runes =
     [[9], [10], [11], [12], [13], [32], [194, 133], [194, 160], [225, 154, 128],
      [226, 128, 128], [226, 128, 129], [226, 128, 130], [226, 128, 131], [226, 128, 132],
      [226, 128, 133], [226, 128, 134], [226, 128, 135], [226, 128, 136], [226, 128, 137],
      [226, 128, 138], [226, 128, 168], [226, 128, 169], [226, 128, 175], [226, 129, 159],
      [227, 128, 128]]"

fun all_space :: "nat list \<Rightarrow> bool" where
  "all_space [] = True"
| "all_space (a # r) =
     (if [a] \<in> set space_runes then all_space r
      else (case r of
              [] \<Rightarrow> False
            | b # r' \<Rightarrow>
                if [a, b] \<in> set space_runes then all_space r'
                else (case r' of [] \<Rightarrow> False | c # r'' \<Rightarrow> [a, b, c] \<in> set space_runes \<and> all_space r'')))"

text \<open>\<open>strings.TrimSpace(s) == ""\<close>.\<close>

definition blank :: "string \<Rightarrow> bool" where
  "blank s = all_space (map of_char s)"

definition explicitModel :: "string \<Rightarrow> bool" where
  "explicitModel name \<longleftrightarrow> \<not> blank name \<and> list_all (\<lambda>c. c \<notin> set ''*?[]'') name"

definition lower_alnum :: "char \<Rightarrow> bool" where
  "lower_alnum c \<longleftrightarrow> is_digit c \<or> (CHR ''a'' \<le> c \<and> c \<le> CHR ''z'')"

definition ValidExporterName :: "string \<Rightarrow> bool" where
  "ValidExporterName name \<longleftrightarrow>
     name \<noteq> [] \<and> length name \<le> 63 \<and> lower_alnum (hd name) \<and> lower_alnum (last name)
     \<and> list_all (\<lambda>c. lower_alnum c \<or> c = CHR ''-'') name"

section \<open>Budget rules\<close>

definition microPerMilli :: i64 where "microPerMilli = 1000"
definition maxWireMilliUSD :: i64 where "maxWireMilliUSD = max_i64 div microPerMilli"
definition DefaultLeaseGrantBP :: i64 where "DefaultLeaseGrantBP = 10"
definition DefaultLeaseRenewInterval :: duration where "DefaultLeaseRenewInterval = 10 * second"
definition MinLeaseRenewInterval :: duration where "MinLeaseRenewInterval = second"

definition unlimited_budget :: policy_Budget where
  "unlimited_budget =
     \<lparr>pb_Unlimited = True, pb_LimitMicroUSD = 0, pb_HardCap = False, pb_LeaseGrantMicroUSD = 0,
      pb_LeaseRenewInterval = 0, pb_AdminContact = [], pb_Period = CalendarMonth\<rparr>"

definition budget_period :: "wire_Rule \<Rightarrow> BudgetRule \<Rightarrow> reject \<Rightarrow> string converted" where
  "budget_period wr wb reject =
     (if wb_Period wb = CalendarDay \<or> wb_Period wb = CalendarMonth then Inr (wb_Period wb)
      else if wb_Period wb = [] then Inr CalendarMonth
      else Inl (reject (w_Name wr) (OfBudget (UnknownBudgetPeriod (wb_Period wb)))))"

definition lease_grant :: "wire_Rule \<Rightarrow> BudgetRule \<Rightarrow> reject \<Rightarrow> i64 converted" where
  "lease_grant wr wb reject =
     (let grantMilli = ls_GrantMilliUSD (wb_Lease wb) in
      if grantMilli < 0 \<or> grantMilli > maxWireMilliUSD
      then Inl (reject (w_Name wr) (OfBudget (LeaseGrantRange maxWireMilliUSD)))
      else if grantMilli = 0
      then Inr (let g = wrap64 (wb_LimitMilliUSD wb * DefaultLeaseGrantBP) div 10000 in if g < 1 then 1 else g)
      else Inr grantMilli)"

definition renew_interval :: "wire_Rule \<Rightarrow> BudgetRule \<Rightarrow> reject \<Rightarrow> duration converted" where
  "renew_interval wr wb reject =
     (let s = ls_RenewInterval (wb_Lease wb) in
      if s = [] then Inr DefaultLeaseRenewInterval
      else (case ParseDuration s of
              None \<Rightarrow> Inl (reject (w_Name wr) (OfBudget (RenewIntervalNotDuration s)))
            | Some d \<Rightarrow>
                if d < MinLeaseRenewInterval
                then Inl (reject (w_Name wr) (OfBudget (RenewIntervalTooSmall MinLeaseRenewInterval)))
                else Inr d))"

definition budgetFromV1Alpha1 :: "wire_Rule \<Rightarrow> BudgetRule \<Rightarrow> reject \<Rightarrow> policy_Budget converted" where
  "budgetFromV1Alpha1 wr wb reject =
     (if wb_Unlimited wb then
        (if wb_LimitMilliUSD wb \<noteq> 0 \<or> wb_HardCap wb \<or> wb_Lease wb \<noteq> \<lparr>ls_GrantMilliUSD = 0, ls_RenewInterval = []\<rparr>
            \<or> wb_AdminContact wb \<noteq> [] \<or> wb_Period wb \<noteq> []
         then Inl (reject (w_Name wr) (OfBudget BudgetUnlimitedCombined))
         else Inr unlimited_budget)
      else if wb_LimitMilliUSD wb \<le> 0 \<or> wb_LimitMilliUSD wb > maxWireMilliUSD
      then Inl (reject (w_Name wr) (OfBudget (BudgetLimitRange maxWireMilliUSD)))
      else if wb_HardCap wb \<and> w_FailurePolicy wr \<noteq> FailClosed
      then Inl (reject (w_Name wr) (OfBudget HardCapNotFailClosed))
      else
        rbind (budget_period wr wb reject) (\<lambda>period.
        rbind (lease_grant wr wb reject) (\<lambda>grantMilli.
        rbind (renew_interval wr wb reject) (\<lambda>iv.
        Inr \<lparr>pb_Unlimited = False, pb_LimitMicroUSD = wrap64 (wb_LimitMilliUSD wb * microPerMilli),
             pb_HardCap = wb_HardCap wb, pb_LeaseGrantMicroUSD = wrap64 (grantMilli * microPerMilli),
             pb_LeaseRenewInterval = iv, pb_AdminContact = wb_AdminContact wb, pb_Period = period\<rparr>))))"

section \<open>Routing rules\<close>

definition stability_default :: ContextStability where
  "stability_default = \<lparr>cs_MinHold = 300 * second, cs_MinRequests = 3, cs_SessionTTL = 1800 * second\<rparr>"

definition duration_or :: "string \<Rightarrow> duration \<Rightarrow> UnsupportedError \<Rightarrow> duration converted" where
  "duration_or s d e =
     (if s = [] then Inr d else (case ParseDuration s of None \<Rightarrow> Inl e | Some d' \<Rightarrow> Inr d'))"

definition stability_ok :: "ContextStability \<Rightarrow> bool" where
  "stability_ok st \<longleftrightarrow>
     0 \<le> cs_MinHold st \<and> cs_MinHold st \<le> 24 * hour \<and> 0 < cs_SessionTTL st \<and> cs_SessionTTL st \<le> 24 * hour
     \<and> cs_MinHold st \<le> cs_SessionTTL st \<and> 1 \<le> cs_MinRequests st \<and> cs_MinRequests st \<le> 10000"

fun context_stability ::
    "wire_Rule \<Rightarrow> wire_ContextStability option \<Rightarrow> reject \<Rightarrow> ContextStability option converted" where
  "context_stability wr None reject = Inr None"
| "context_stability wr (Some ws) reject =
     rbind (duration_or (wcs_MinHold ws) (cs_MinHold stability_default)
              (reject (w_Name wr) (OfContext StabilityMinHold))) (\<lambda>hold.
     rbind (duration_or (wcs_SessionTTL ws) (cs_SessionTTL stability_default)
              (reject (w_Name wr) (OfContext StabilitySessionTTL))) (\<lambda>ttl.
     let st = \<lparr>cs_MinHold = hold,
               cs_MinRequests = (if wcs_MinRequests ws \<noteq> 0 then wcs_MinRequests ws else cs_MinRequests stability_default),
               cs_SessionTTL = ttl\<rparr>
     in if \<not> stability_ok st then Inl (reject (w_Name wr) (OfContext StabilityRange)) else Inr (Some st)))"

definition contextFromV1Alpha1 :: "wire_Rule \<Rightarrow> ContextRule \<Rightarrow> reject \<Rightarrow> policy_Context converted" where
  "contextFromV1Alpha1 wr c reject =
     (let bad = (\<lambda>reason. Inl (reject (w_Name wr) (OfContext reason)));
          mode = (if wc_Mode c = [] then Shadow else wc_Mode c)
      in if w_FailurePolicy wr \<noteq> FailOpen then bad ContextNotFailOpen
      else if mode \<noteq> Shadow \<and> mode \<noteq> Enforce then bad ContextModeUnknown
      else if wc_FromModels c = [] \<or> \<not> explicitModel (wc_SimpleModel c) \<or> \<not> explicitModel (wc_ComplexModel c)
      then bad ContextModelsMissing
      else if \<not> list_all explicitModel (wc_FromModels c) then bad ContextFromModelNotExplicit
      else if wc_MaxSimpleInputTokens c \<le> 0 then bad ContextMaxSimple
      else if (wc_NormalModel c = [] \<and> wc_MaxNormalInputTokens c \<noteq> 0)
          \<or> (wc_NormalModel c \<noteq> [] \<and> (\<not> explicitModel (wc_NormalModel c)
               \<or> wc_MaxNormalInputTokens c \<le> wc_MaxSimpleInputTokens c))
      then bad ContextNormalModel
      else rbind (context_stability wr (wc_Stability c) reject) (\<lambda>stability.
        if list_ex blank (wc_ComplexKeywords c) then bad ContextKeywordBlank
        else Inr \<lparr>pc_Mode = mode, pc_FromModels = wc_FromModels c, pc_SimpleModel = wc_SimpleModel c,
                  pc_ComplexModel = wc_ComplexModel c, pc_MaxSimpleInputTokens = wc_MaxSimpleInputTokens c,
                  pc_ComplexKeywords = wc_ComplexKeywords c, pc_NormalModel = wc_NormalModel c,
                  pc_MaxNormalInputTokens = wc_MaxNormalInputTokens c, pc_Stability = stability\<rparr>))"

text \<open>One tier: the threshold against the previous one, then the entries of the substitution.\<close>

fun substitute_entries :: "wire_Rule \<Rightarrow> reject \<Rightarrow> (string \<times> string) list \<Rightarrow> unit converted" where
  "substitute_entries wr reject [] = Inr ()"
| "substitute_entries wr reject ((k, v) # rest) =
     (if k = [] \<or> v = [] then Inl (reject (w_Name wr) (OfTier SubstituteEmptyEntry))
      else if k = v then Inl (reject (w_Name wr) (OfTier (SubstituteSelf k)))
      else substitute_entries wr reject rest)"

definition substitute_chain :: "(string, string) gomap \<Rightarrow> string option" where
  "substitute_chain sub = find (\<lambda>k. k \<in> set (map snd sub)) (map fst sub)"

fun convert_tier ::
    "wire_Rule \<Rightarrow> reject \<Rightarrow> i64 \<Rightarrow> wire_BudgetTier \<Rightarrow> i64 \<times> policy_BudgetTier list
     \<Rightarrow> (i64 \<times> policy_BudgetTier list) converted" where
  "convert_tier wr reject maxThreshold t (prevThreshold, tiers) =
     (if wt_ThresholdPercent t < 1 \<or> wt_ThresholdPercent t > maxThreshold
      then Inl (reject (w_Name wr) (OfTier (ThresholdRange maxThreshold (wt_ThresholdPercent t))))
      else if wt_ThresholdPercent t \<le> prevThreshold
      then Inl (reject (w_Name wr) (OfTier ThresholdNotIncreasing))
      else if wt_Substitute t = [] then Inl (reject (w_Name wr) (OfTier SubstituteEmpty))
      else rbind (substitute_entries wr reject (wt_Substitute t)) (\<lambda>_.
        case substitute_chain (wt_Substitute t) of
          Some k \<Rightarrow> Inl (reject (w_Name wr) (OfTier (SubstituteChain k)))
        | None \<Rightarrow>
            Inr (wt_ThresholdPercent t,
                 tiers @ [\<lparr>bt_ThresholdPercent = wt_ThresholdPercent t, bt_Substitute = wt_Substitute t\<rparr>])))"

definition check_budget_ref ::
    "wire_Rule \<Rightarrow> GovernancePolicy \<Rightarrow> string \<Rightarrow> reject \<Rightarrow> unit converted" where
  "check_budget_ref wr doc ref reject =
     (let bad = (\<lambda>reason. Inl (reject (w_Name wr) (OfRouting reason)))
      in case find (\<lambda>r. w_Name r = ref) (sp_Rules (gp_Spec doc)) of
           None \<Rightarrow> bad (BudgetRefNotBudget ref)
         | Some r \<Rightarrow>
             (case w_Budget r of
                None \<Rightarrow> bad (BudgetRefNotBudget ref)
              | Some b \<Rightarrow> if wb_Unlimited b then bad (BudgetRefUnlimited ref) else Inr ()))"

definition budgetTiersFromV1Alpha1 ::
    "wire_Rule \<Rightarrow> BudgetTiersRule \<Rightarrow> GovernancePolicy \<Rightarrow> reject \<Rightarrow> BudgetTiers converted" where
  "budgetTiersFromV1Alpha1 wr bt doc reject =
     (let bad = (\<lambda>reason. Inl (reject (w_Name wr) (OfRouting reason)));
          sub = sp_Subject (gp_Spec doc)
      in if wts_EnforceTargets bt \<and> (ws_Team sub = [] \<or> ws_User sub \<noteq> []) then bad StrictTiersNotTeamOnly
      else if wts_BudgetRef bt = [] then bad BudgetRefRequired
      else rbind (check_budget_ref wr doc (wts_BudgetRef bt) reject) (\<lambda>_.
        if wts_Tiers bt = [] then bad TiersEmpty
        else rbind (rfold (convert_tier wr reject (if wts_EnforceTargets bt then 100 else 99)) (wts_Tiers bt) (0, []))
          (\<lambda>(_, tiers). Inr \<lparr>bts_BudgetRef = wts_BudgetRef bt, bts_Tiers = tiers,
                              bts_EnforceTargets = wts_EnforceTargets bt\<rparr>)))"

definition count_true :: "bool list \<Rightarrow> nat" where
  "count_true bs = length (filter id bs)"

definition routingFromV1Alpha1 ::
    "wire_Rule \<Rightarrow> RoutingRule \<Rightarrow> GovernancePolicy \<Rightarrow> reject \<Rightarrow> Routing converted" where
  "routingFromV1Alpha1 wr wrt doc reject =
     (if count_true [wro_OnAffinityConflict wrt \<noteq> [], wro_BudgetTiers wrt \<noteq> None, wro_Context wrt \<noteq> None] \<noteq> 1
      then Inl (reject (w_Name wr) (OfRouting RoutingNotExactlyOne))
      else
        (case wro_Context wrt of
           Some c \<Rightarrow>
             rbind (contextFromV1Alpha1 wr c reject) (\<lambda>c'.
               Inr \<lparr>ro_Affinity = None, ro_BudgetTiers = None, ro_Context = Some c'\<rparr>)
         | None \<Rightarrow>
             (case wro_BudgetTiers wrt of
                None \<Rightarrow>
                  if wro_OnAffinityConflict wrt = PreferAffinity \<or> wro_OnAffinityConflict wrt = PreferFallback
                  then Inr \<lparr>ro_Affinity = Some \<lparr>af_OnAffinityConflict = wro_OnAffinityConflict wrt\<rparr>,
                            ro_BudgetTiers = None, ro_Context = None\<rparr>
                  else Inl (reject (w_Name wr) (OfRouting (UnknownAffinityConflict (wro_OnAffinityConflict wrt))))
              | Some bt \<Rightarrow>
                  rbind (budgetTiersFromV1Alpha1 wr bt doc reject) (\<lambda>bt'.
                    Inr \<lparr>ro_Affinity = None, ro_BudgetTiers = Some bt', ro_Context = None\<rparr>))))"

section \<open>The other rules\<close>

definition sensitiveDataFromV1Alpha1 ::
    "wire_Rule \<Rightarrow> SensitiveDataRule \<Rightarrow> reject \<Rightarrow> SensitiveData converted" where
  "sensitiveDataFromV1Alpha1 wr sd reject =
     (let bad = (\<lambda>reason. Inl (reject (w_Name wr) (OfSensitive reason)))
      in if w_FailurePolicy wr \<noteq> FailClosed then bad SensitiveNotFailClosed
      else if wsd_OnDetected sd \<notin> {InternalOnly, Block, Mask} then bad OnDetectedUnknown
      else if wsd_OnUninspectable sd \<notin> {InternalOnly, Block} then bad OnUninspectableUnknown
      else if (wsd_OnDetected sd = InternalOnly \<or> wsd_OnUninspectable sd = InternalOnly)
          \<and> wsd_InternalModels sd = [] then bad InternalModelsEmpty
      else if \<not> list_all explicitModel (wsd_InternalModels sd) then bad InternalModelNotExplicit
      else Inr \<lparr>sd_OnDetected = wsd_OnDetected sd, sd_OnUninspectable = wsd_OnUninspectable sd,
                sd_InternalModels = wsd_InternalModels sd\<rparr>)"

definition SignalTraces :: string where "SignalTraces = ''traces''"
definition SignalAudit :: string where "SignalAudit = ''audit''"
definition SignalContent :: string where "SignalContent = ''content''"

fun trace_export :: "wire_Rule \<Rightarrow> reject \<Rightarrow> wire_TraceExport option \<Rightarrow> TraceExport option converted" where
  "trace_export wr reject None = Inr None"
| "trace_export wr reject (Some t) =
     (if \<not> ValidExporterName (wte_Exporter t)
      then Inl (reject (w_Name wr) (OfObservability (ExporterNameInvalid SignalTraces (wte_Exporter t))))
      else
        (case wte_SamplePercent t of
           None \<Rightarrow> Inr (Some \<lparr>te_Exporter = wte_Exporter t, te_SamplePercent = 100\<rparr>)
         | Some pct \<Rightarrow>
             if pct < 1 \<or> pct > 100 then Inl (reject (w_Name wr) (OfObservability (SamplePercentRange pct)))
             else Inr (Some \<lparr>te_Exporter = wte_Exporter t, te_SamplePercent = pct\<rparr>)))"

fun signal_export :: "wire_Rule \<Rightarrow> reject \<Rightarrow> string \<Rightarrow> SignalExport option \<Rightarrow> string converted" where
  "signal_export wr reject name None = Inr []"
| "signal_export wr reject name (Some s) =
     (if \<not> ValidExporterName (wse_Exporter s)
      then Inl (reject (w_Name wr) (OfObservability (ExporterNameInvalid name (wse_Exporter s))))
      else Inr (wse_Exporter s))"

definition observabilityFromV1Alpha1 ::
    "wire_Rule \<Rightarrow> ObservabilityRule \<Rightarrow> reject \<Rightarrow> Observability converted" where
  "observabilityFromV1Alpha1 wr ob reject =
     (if w_FailurePolicy wr \<noteq> FailOpen
      then Inl (reject (w_Name wr) (OfObservability ObservabilityNotFailOpen))
      else if wo_Traces ob = None \<and> wo_Audit ob = None \<and> wo_Content ob = None
      then Inl (reject (w_Name wr) (OfObservability ObservabilityEmpty))
      else
        rbind (trace_export wr reject (wo_Traces ob)) (\<lambda>traces.
        rbind (signal_export wr reject SignalAudit (wo_Audit ob)) (\<lambda>audit.
        rbind (signal_export wr reject SignalContent (wo_Content ob)) (\<lambda>content.
        Inr \<lparr>ob_Traces = traces, ob_Audit = audit, ob_Content = content\<rparr>))))"

definition tokenQuotaFromV1Alpha1 :: "wire_Rule \<Rightarrow> TokenQuotaRule \<Rightarrow> reject \<Rightarrow> policy_TokenQuota converted" where
  "tokenQuotaFromV1Alpha1 wr q reject =
     (if wq_LimitTokens q \<le> 0 \<or> (wq_Period q \<noteq> CalendarDay \<and> wq_Period q \<noteq> CalendarMonth)
      then Inl (reject (w_Name wr) (OfLimit TokenQuotaShape))
      else if w_FailurePolicy wr \<noteq> FailClosed then Inl (reject (w_Name wr) (OfLimit TokenQuotaNotFailClosed))
      else Inr \<lparr>tq_LimitTokens = wq_LimitTokens q, tq_Period = wq_Period q\<rparr>)"

definition modelAccessFromV1Alpha1 :: "wire_Rule \<Rightarrow> ModelAccessRule \<Rightarrow> reject \<Rightarrow> ModelAccess converted" where
  "modelAccessFromV1Alpha1 wr m reject =
     (if wm_Allow m = [] then Inl (reject (w_Name wr) (OfLimit ModelAccessEmpty))
      else if [] \<in> set (wm_Allow m) then Inl (reject (w_Name wr) (OfLimit ModelAccessEmptyName))
      else Inr \<lparr>ma_Allow = wm_Allow m\<rparr>)"

definition rateFromV1Alpha1 :: "wire_Rule \<Rightarrow> RateRule \<Rightarrow> reject \<Rightarrow> policy_Rate converted" where
  "rateFromV1Alpha1 wr rt reject =
     (if wr_RPM rt < 0 \<or> wr_TPM rt < 0 then Inl (reject (w_Name wr) (OfLimit RateNegative))
      else if wr_Unlimited rt then
        (if wr_RPM rt \<noteq> 0 \<or> wr_TPM rt \<noteq> 0 then Inl (reject (w_Name wr) (OfLimit RateUnlimitedCombined))
         else Inr \<lparr>pr_Unlimited = True, pr_RPM = 0, pr_TPM = 0\<rparr>)
      else if wr_RPM rt = 0 \<and> wr_TPM rt = 0 then Inl (reject (w_Name wr) (OfLimit RateLimitsNothing))
      else Inr \<lparr>pr_Unlimited = False, pr_RPM = wr_RPM rt, pr_TPM = wr_TPM rt\<rparr>)"

section \<open>The document\<close>

definition empty_rule :: "string \<Rightarrow> string \<Rightarrow> policy_Rule" where
  "empty_rule name fp =
     \<lparr>r_Name = name, r_FailurePolicy = fp, r_Budget = None, r_Routing = None, r_ModelAccess = None,
      r_SensitiveData = None, r_Rate = None, r_TokenQuota = None, r_Observability = None\<rparr>"

definition wire_kinds :: "wire_Rule \<Rightarrow> bool list" where
  "wire_kinds wr =
     [w_Budget wr \<noteq> None, w_Routing wr \<noteq> None, w_ModelAccess wr \<noteq> None, w_Rate wr \<noteq> None,
      w_SensitiveData wr \<noteq> None, w_TokenQuota wr \<noteq> None, w_Observability wr \<noteq> None]"

text \<open>The body of the switch over the kinds: the first that is set.\<close>

definition convert_kind :: "GovernancePolicy \<Rightarrow> wire_Rule \<Rightarrow> reject \<Rightarrow> policy_Rule converted" where
  "convert_kind doc wr reject =
     (let r = empty_rule (w_Name wr) (w_FailurePolicy wr) in
      case w_Observability wr of
        Some x \<Rightarrow> rbind (observabilityFromV1Alpha1 wr x reject) (\<lambda>y. Inr (r\<lparr>r_Observability := Some y\<rparr>))
      | None \<Rightarrow>
     (case w_TokenQuota wr of
        Some x \<Rightarrow> rbind (tokenQuotaFromV1Alpha1 wr x reject) (\<lambda>y. Inr (r\<lparr>r_TokenQuota := Some y\<rparr>))
      | None \<Rightarrow>
     (case w_SensitiveData wr of
        Some x \<Rightarrow> rbind (sensitiveDataFromV1Alpha1 wr x reject) (\<lambda>y. Inr (r\<lparr>r_SensitiveData := Some y\<rparr>))
      | None \<Rightarrow>
     (case w_Budget wr of
        Some x \<Rightarrow> rbind (budgetFromV1Alpha1 wr x reject) (\<lambda>y. Inr (r\<lparr>r_Budget := Some y\<rparr>))
      | None \<Rightarrow>
     (case w_Routing wr of
        Some x \<Rightarrow> rbind (routingFromV1Alpha1 wr x doc reject) (\<lambda>y. Inr (r\<lparr>r_Routing := Some y\<rparr>))
      | None \<Rightarrow>
     (case w_ModelAccess wr of
        Some x \<Rightarrow> rbind (modelAccessFromV1Alpha1 wr x reject) (\<lambda>y. Inr (r\<lparr>r_ModelAccess := Some y\<rparr>))
      | None \<Rightarrow>
     (case w_Rate wr of
        Some x \<Rightarrow> rbind (rateFromV1Alpha1 wr x reject) (\<lambda>y. Inr (r\<lparr>r_Rate := Some y\<rparr>))
      | None \<Rightarrow> Inr r)))))))"

definition convert_rule ::
    "GovernancePolicy \<Rightarrow> reject \<Rightarrow> wire_Rule \<Rightarrow> policy_Rule list \<Rightarrow> policy_Rule list converted" where
  "convert_rule doc reject wr rules =
     (if w_Name wr = [] then Inl (reject [] (OfDocument EmptyRuleName))
      else if w_Name wr \<in> set (map r_Name rules) then Inl (reject (w_Name wr) (OfDocument DuplicateRuleName))
      else if w_FailurePolicy wr = [] then Inl (reject (w_Name wr) (OfDocument FailurePolicyRequired))
      else if w_FailurePolicy wr \<noteq> FailOpen \<and> w_FailurePolicy wr \<noteq> FailClosed
      then Inl (reject (w_Name wr) (OfDocument (UnknownFailurePolicy (w_FailurePolicy wr))))
      else if count_true (wire_kinds wr) \<noteq> 1 then Inl (reject (w_Name wr) (OfDocument NotExactlyOneKind))
      else rbind (convert_kind doc wr reject) (\<lambda>r. Inr (rules @ [r])))"

definition FromV1Alpha1 :: "GovernancePolicy \<Rightarrow> Policy converted" where
  "FromV1Alpha1 doc =
     (let reject = reject_doc doc;
          bad = (\<lambda>reason. Inl (reject [] (OfDocument reason)));
          sub = sp_Subject (gp_Spec doc);
          rs = sp_Rules (gp_Spec doc)
      in if \<not> Supports (gp_APIVersion doc) then bad (ApiVersionNotSupported SupportedAPIVersions)
      else if gp_Kind doc \<noteq> KindGovernancePolicy then bad (UnknownKind (gp_Kind doc))
      else if ws_Team sub = [] \<and> ws_User sub = [] then bad SubjectSelectsNobody
      else if rs = [] then bad NoRules
      else if length rs > maxPolicyRules then bad (TooManyRules maxPolicyRules)
      else rbind (rfold (convert_rule doc reject) rs []) (\<lambda>rules.
        Inr \<lparr>p_Name = om_Name (gp_Metadata doc), p_Generation = om_Generation (gp_Metadata doc),
             p_Subject = \<lparr>ps_Team = ws_Team sub, ps_User = ws_User sub\<rparr>, p_Rules = rules\<rparr>))"

end
