(* ===== verification/Policy_Wf.thy ===== *)
theory Policy_Wf
  imports Policy_Convert
begin

text \<open>
  What an accepted policy document is: every rule carries one kind, amounts are exact multiples
  of the wire amounts and fit their integers, hard caps fail closed, tier thresholds increase
  strictly and refer to a finite budget of the same document.
\<close>

section \<open>Well-formed policies\<close>

definition rule_kinds :: "policy_Rule \<Rightarrow> bool list" where
  "rule_kinds r =
     [r_Budget r \<noteq> None, r_Routing r \<noteq> None, r_ModelAccess r \<noteq> None, r_Rate r \<noteq> None,
      r_SensitiveData r \<noteq> None, r_TokenQuota r \<noteq> None, r_Observability r \<noteq> None]"

definition budget_finite :: "policy_Budget \<Rightarrow> bool" where
  "budget_finite b \<longleftrightarrow> \<not> pb_Unlimited b \<and> 0 < pb_LimitMicroUSD b \<and> pb_LimitMicroUSD b \<le> max_i64"

definition budget_wf :: "string \<Rightarrow> policy_Budget \<Rightarrow> bool" where
  "budget_wf fp b \<longleftrightarrow>
     b = unlimited_budget
     \<or> budget_finite b \<and> 0 < pb_LeaseGrantMicroUSD b \<and> pb_LeaseGrantMicroUSD b \<le> max_i64
       \<and> MinLeaseRenewInterval \<le> pb_LeaseRenewInterval b
       \<and> (pb_Period b = CalendarDay \<or> pb_Period b = CalendarMonth)
       \<and> (pb_HardCap b \<longrightarrow> fp = FailClosed)"

definition substitute_wf :: "(string, string) gomap \<Rightarrow> bool" where
  "substitute_wf sub \<longleftrightarrow>
     sub \<noteq> [] \<and> [] \<notin> fst ` set sub \<and> [] \<notin> snd ` set sub \<and> fst ` set sub \<inter> snd ` set sub = {}"

definition tiers_wf :: "policy_Subject \<Rightarrow> policy_Rule list \<Rightarrow> BudgetTiers \<Rightarrow> bool" where
  "tiers_wf sub rules bt \<longleftrightarrow>
     bts_Tiers bt \<noteq> [] \<and> sorted_wrt (<) (map bt_ThresholdPercent (bts_Tiers bt))
     \<and> list_all (\<lambda>t. 1 \<le> bt_ThresholdPercent t
          \<and> bt_ThresholdPercent t \<le> (if bts_EnforceTargets bt then 100 else 99)
          \<and> substitute_wf (bt_Substitute t)) (bts_Tiers bt)
     \<and> list_ex (\<lambda>r. r_Name r = bts_BudgetRef bt \<and> r_Budget r \<noteq> None \<and> pred_option budget_finite (r_Budget r)) rules
     \<and> (bts_EnforceTargets bt \<longrightarrow> ps_Team sub \<noteq> [] \<and> ps_User sub = [])"

definition context_wf :: "policy_Context \<Rightarrow> bool" where
  "context_wf c \<longleftrightarrow>
     (pc_Mode c = Shadow \<or> pc_Mode c = Enforce)
     \<and> pc_FromModels c \<noteq> [] \<and> list_all explicitModel (pc_FromModels c)
     \<and> explicitModel (pc_SimpleModel c) \<and> explicitModel (pc_ComplexModel c)
     \<and> 0 < pc_MaxSimpleInputTokens c
     \<and> (if pc_NormalModel c = [] then pc_MaxNormalInputTokens c = 0
        else explicitModel (pc_NormalModel c) \<and> pc_MaxSimpleInputTokens c < pc_MaxNormalInputTokens c)
     \<and> pred_option stability_ok (pc_Stability c)
     \<and> list_all (\<lambda>k. \<not> blank k) (pc_ComplexKeywords c)"

definition routing_wf :: "policy_Subject \<Rightarrow> policy_Rule list \<Rightarrow> string \<Rightarrow> Routing \<Rightarrow> bool" where
  "routing_wf sub rules fp rt \<longleftrightarrow>
     count_true [ro_Affinity rt \<noteq> None, ro_BudgetTiers rt \<noteq> None, ro_Context rt \<noteq> None] = 1
     \<and> pred_option (tiers_wf sub rules) (ro_BudgetTiers rt)
     \<and> pred_option (\<lambda>c. context_wf c \<and> fp = FailOpen) (ro_Context rt)"

definition sensitive_wf :: "SensitiveData \<Rightarrow> bool" where
  "sensitive_wf sd \<longleftrightarrow>
     sd_OnDetected sd \<in> {InternalOnly, Block, Mask} \<and> sd_OnUninspectable sd \<in> {InternalOnly, Block}
     \<and> list_all explicitModel (sd_InternalModels sd)
     \<and> (InternalOnly \<in> {sd_OnDetected sd, sd_OnUninspectable sd} \<longrightarrow> sd_InternalModels sd \<noteq> [])"

definition rate_wf :: "policy_Rate \<Rightarrow> bool" where
  "rate_wf rt \<longleftrightarrow> 0 \<le> pr_RPM rt \<and> 0 \<le> pr_TPM rt \<and> (pr_Unlimited rt \<longleftrightarrow> pr_RPM rt = 0 \<and> pr_TPM rt = 0)"

definition observability_wf :: "Observability \<Rightarrow> bool" where
  "observability_wf ob \<longleftrightarrow>
     (ob_Traces ob \<noteq> None \<or> ob_Audit ob \<noteq> [] \<or> ob_Content ob \<noteq> [])
     \<and> pred_option (\<lambda>t. ValidExporterName (te_Exporter t) \<and> 1 \<le> te_SamplePercent t \<and> te_SamplePercent t \<le> 100)
         (ob_Traces ob)
     \<and> (ob_Audit ob = [] \<or> ValidExporterName (ob_Audit ob))
     \<and> (ob_Content ob = [] \<or> ValidExporterName (ob_Content ob))"

definition rule_wf :: "policy_Subject \<Rightarrow> policy_Rule list \<Rightarrow> policy_Rule \<Rightarrow> bool" where
  "rule_wf sub rules r \<longleftrightarrow>
     r_Name r \<noteq> [] \<and> (r_FailurePolicy r = FailOpen \<or> r_FailurePolicy r = FailClosed)
     \<and> count_true (rule_kinds r) = 1
     \<and> pred_option (budget_wf (r_FailurePolicy r)) (r_Budget r)
     \<and> pred_option (routing_wf sub rules (r_FailurePolicy r)) (r_Routing r)
     \<and> pred_option (\<lambda>m. ma_Allow m \<noteq> [] \<and> [] \<notin> set (ma_Allow m)) (r_ModelAccess r)
     \<and> pred_option rate_wf (r_Rate r)
     \<and> pred_option (\<lambda>sd. sensitive_wf sd \<and> r_FailurePolicy r = FailClosed) (r_SensitiveData r)
     \<and> pred_option (\<lambda>q. 0 < tq_LimitTokens q \<and> r_FailurePolicy r = FailClosed) (r_TokenQuota r)
     \<and> pred_option (\<lambda>ob. observability_wf ob \<and> r_FailurePolicy r = FailOpen) (r_Observability r)"

definition policy_wf :: "Policy \<Rightarrow> bool" where
  "policy_wf p \<longleftrightarrow>
     (ps_Team (p_Subject p) \<noteq> [] \<or> ps_User (p_Subject p) \<noteq> [])
     \<and> p_Rules p \<noteq> [] \<and> length (p_Rules p) \<le> maxPolicyRules
     \<and> distinct (map r_Name (p_Rules p))
     \<and> list_all (rule_wf (p_Subject p) (p_Rules p)) (p_Rules p)"

text \<open>What a converted rule keeps of the wire rule: its name, its mode, and the budget exactly.\<close>

definition carries_budget :: "BudgetRule \<Rightarrow> policy_Budget \<Rightarrow> bool" where
  "carries_budget wb b \<longleftrightarrow>
     pb_Unlimited b = wb_Unlimited wb \<and> pb_LimitMicroUSD b = 1000 * wb_LimitMilliUSD wb
     \<and> pb_HardCap b = wb_HardCap wb \<and> pb_AdminContact b = wb_AdminContact wb
     \<and> pb_Period b = (if wb_Period wb = [] then CalendarMonth else wb_Period wb)
     \<and> (0 < ls_GrantMilliUSD (wb_Lease wb) \<longrightarrow> pb_LeaseGrantMicroUSD b = 1000 * ls_GrantMilliUSD (wb_Lease wb))"

definition carries_rule :: "wire_Rule \<Rightarrow> policy_Rule \<Rightarrow> bool" where
  "carries_rule w r \<longleftrightarrow>
     r_Name r = w_Name w \<and> r_FailurePolicy r = w_FailurePolicy w \<and> rule_kinds r = wire_kinds w
     \<and> rel_option carries_budget (w_Budget w) (r_Budget r)"

section \<open>The conversions of the rules\<close>

lemma maxWire_exact: "0 \<le> x \<Longrightarrow> x \<le> maxWireMilliUSD \<Longrightarrow> wrap64 (x * microPerMilli) = 1000 * x"
  by (subst wrap64_in_range) (auto simp: in_i64_def i64_consts maxWireMilliUSD_def microPerMilli_def)

lemma maxWire_fits: "x \<le> maxWireMilliUSD \<Longrightarrow> 1000 * x \<le> max_i64"
  by (simp add: i64_consts maxWireMilliUSD_def microPerMilli_def)

lemma lease_grant_range:
  assumes "lease_grant wr wb reject = Inr g" "0 < wb_LimitMilliUSD wb" "wb_LimitMilliUSD wb \<le> maxWireMilliUSD"
  shows "0 < g" "g \<le> maxWireMilliUSD"
    and "0 < ls_GrantMilliUSD (wb_Lease wb) \<Longrightarrow> g = ls_GrantMilliUSD (wb_Lease wb)"
proof -
  have fits: "wrap64 (wb_LimitMilliUSD wb * DefaultLeaseGrantBP) = wb_LimitMilliUSD wb * 10"
    using assms(2,3) unfolding DefaultLeaseGrantBP_def
    by (subst wrap64_in_range) (auto simp: in_i64_def i64_consts maxWireMilliUSD_def microPerMilli_def)
  show "0 < g" "g \<le> maxWireMilliUSD"
    and "0 < ls_GrantMilliUSD (wb_Lease wb) \<Longrightarrow> g = ls_GrantMilliUSD (wb_Lease wb)"
    using assms by (auto simp: lease_grant_def fits Let_def split: if_splits)
qed

lemma renew_interval_min: "renew_interval wr wb reject = Inr d \<Longrightarrow> MinLeaseRenewInterval \<le> d"
  by (auto simp: renew_interval_def Let_def MinLeaseRenewInterval_def DefaultLeaseRenewInterval_def second_def
      split: if_splits option.splits)

lemma budget_period_cases:
  "budget_period wr wb reject = Inr p \<Longrightarrow>
     p = (if wb_Period wb = [] then CalendarMonth else wb_Period wb) \<and> (p = CalendarDay \<or> p = CalendarMonth)"
  by (auto simp: budget_period_def wire_constants split: if_splits)

lemma budgetFromV1Alpha1_ok:
  assumes "budgetFromV1Alpha1 wr wb reject = Inr b"
  shows "budget_wf (w_FailurePolicy wr) b" "carries_budget wb b"
proof -
  have "budget_wf (w_FailurePolicy wr) b \<and> carries_budget wb b"
  proof (cases "wb_Unlimited wb")
    case True
    with assms show ?thesis
      by (auto simp: budgetFromV1Alpha1_def budget_wf_def carries_budget_def unlimited_budget_def
          split: if_splits)
  next
    case False
    with assms obtain p g iv where lim: "0 < wb_LimitMilliUSD wb" "wb_LimitMilliUSD wb \<le> maxWireMilliUSD"
      and hard: "wb_HardCap wb \<longrightarrow> w_FailurePolicy wr = FailClosed"
      and p: "budget_period wr wb reject = Inr p" and g: "lease_grant wr wb reject = Inr g"
      and iv: "renew_interval wr wb reject = Inr iv"
      and b: "b = \<lparr>pb_Unlimited = False, pb_LimitMicroUSD = wrap64 (wb_LimitMilliUSD wb * microPerMilli),
             pb_HardCap = wb_HardCap wb, pb_LeaseGrantMicroUSD = wrap64 (g * microPerMilli),
             pb_LeaseRenewInterval = iv, pb_AdminContact = wb_AdminContact wb, pb_Period = p\<rparr>"
      by (auto simp: budgetFromV1Alpha1_def rbind_Inr_iff split: if_splits)
    note grant = lease_grant_range [OF g lim]
    show ?thesis
      using lim hard grant budget_period_cases [OF p] renew_interval_min [OF iv] False
        maxWire_fits [OF lim(2)] maxWire_fits [OF grant(2)]
        maxWire_exact [of "wb_LimitMilliUSD wb"] maxWire_exact [of g]
      by (auto simp: b budget_wf_def budget_finite_def carries_budget_def split: if_splits)
  qed
  then show "budget_wf (w_FailurePolicy wr) b" "carries_budget wb b" by simp_all
qed

lemma context_stability_ok: "context_stability wr ws reject = Inr st \<Longrightarrow> pred_option stability_ok st"
  by (cases ws) (auto simp: rbind_Inr_iff Let_def split: if_splits)

lemma contextFromV1Alpha1_ok:
  assumes "contextFromV1Alpha1 wr c reject = Inr c'"
  shows "context_wf c'" "w_FailurePolicy wr = FailOpen"
proof -
  from assms show "w_FailurePolicy wr = FailOpen"
    by (auto simp: contextFromV1Alpha1_def Let_def split: if_splits)
  from assms obtain st where "context_stability wr (wc_Stability c) reject = Inr st"
    and "c' = \<lparr>pc_Mode = (if wc_Mode c = [] then Shadow else wc_Mode c), pc_FromModels = wc_FromModels c,
      pc_SimpleModel = wc_SimpleModel c, pc_ComplexModel = wc_ComplexModel c,
      pc_MaxSimpleInputTokens = wc_MaxSimpleInputTokens c, pc_ComplexKeywords = wc_ComplexKeywords c,
      pc_NormalModel = wc_NormalModel c, pc_MaxNormalInputTokens = wc_MaxNormalInputTokens c, pc_Stability = st\<rparr>"
    by (auto simp: contextFromV1Alpha1_def Let_def rbind_Inr_iff split: if_splits)
  with assms context_stability_ok show "context_wf c'"
    by (auto simp: contextFromV1Alpha1_def context_wf_def Let_def rbind_Inr_iff list_all_iff list_ex_iff
        not_less not_le split: if_splits)
qed

lemma substitute_entries_ok:
  "substitute_entries wr reject sub = Inr u \<Longrightarrow> [] \<notin> fst ` set sub \<and> [] \<notin> snd ` set sub"
  by (induction wr reject sub rule: substitute_entries.induct) (auto split: if_splits)

lemma substitute_chain_None: "substitute_chain sub = None \<longleftrightarrow> fst ` set sub \<inter> snd ` set sub = {}"
  by (auto simp: substitute_chain_def find_None_iff)

lemma convert_tier_ok:
  assumes "convert_tier wr reject hi t (prev, tiers) = Inr (prev', tiers')"
  shows "prev < prev'" "1 \<le> prev'" "prev' \<le> hi" "prev' = wt_ThresholdPercent t"
    and "tiers' = tiers @ [\<lparr>bt_ThresholdPercent = prev', bt_Substitute = wt_Substitute t\<rparr>]"
    and "substitute_wf (wt_Substitute t)"
  using assms substitute_entries_ok [of wr reject "wt_Substitute t"]
  by (auto simp: rbind_Inr_iff substitute_wf_def substitute_chain_None split: if_splits option.splits)

lemma convert_tiers_ok:
  assumes "rfold (convert_tier wr reject hi) ts (0, []) = Inr (prev, tiers)"
  shows "length tiers = length ts"
    and "sorted_wrt (<) (map bt_ThresholdPercent tiers)"
    and "list_all (\<lambda>t. 1 \<le> bt_ThresholdPercent t \<and> bt_ThresholdPercent t \<le> hi \<and> substitute_wf (bt_Substitute t)) tiers"
proof -
  define P where "P ts = (\<lambda>(prev, tiers :: policy_BudgetTier list).
      length tiers = length ts \<and> sorted_wrt (<) (map bt_ThresholdPercent tiers)
      \<and> list_all (\<lambda>t. 1 \<le> bt_ThresholdPercent t \<and> bt_ThresholdPercent t \<le> min hi prev
           \<and> substitute_wf (bt_Substitute t)) tiers)" for ts :: "wire_BudgetTier list"
  have "P ts (prev, tiers)"
    using assms
  proof (rule rfold_prefix)
    show "P [] (0, [])" by (simp add: P_def)
  next
    fix ys x zs s s'
    assume "P ys s" and step: "convert_tier wr reject hi x s = Inr s'"
    moreover obtain prev1 tiers1 prev2 tiers2 where "s = (prev1, tiers1)" "s' = (prev2, tiers2)"
      by (cases s, cases s')
    ultimately show "P (ys @ [x]) s'"
      using convert_tier_ok [of wr reject hi x prev1 tiers1 prev2 tiers2]
      by (fastforce simp: P_def sorted_wrt_append list_all_iff)
  qed
  then show "length tiers = length ts"
    and "sorted_wrt (<) (map bt_ThresholdPercent tiers)"
    and "list_all (\<lambda>t. 1 \<le> bt_ThresholdPercent t \<and> bt_ThresholdPercent t \<le> hi \<and> substitute_wf (bt_Substitute t)) tiers"
    by (auto simp: P_def list_all_iff)
qed

text \<open>The budget a tier refers to, in the converted document.\<close>

definition ref_ok :: "GovernancePolicy \<Rightarrow> string \<Rightarrow> bool" where
  "ref_ok doc ref \<longleftrightarrow>
     (\<exists>w b. w \<in> set (sp_Rules (gp_Spec doc)) \<and> w_Name w = ref \<and> w_Budget w = Some b \<and> \<not> wb_Unlimited b)"

lemma check_budget_ref_ok: "check_budget_ref wr doc ref reject = Inr u \<Longrightarrow> ref_ok doc ref"
  by (auto simp: check_budget_ref_def ref_ok_def Let_def find_Some_iff split: option.splits if_splits)
     (metis nth_mem)

lemma budgetTiersFromV1Alpha1_ok:
  assumes "budgetTiersFromV1Alpha1 wr bt doc reject = Inr bt'"
    and "\<And>ref. ref_ok doc ref \<Longrightarrow>
       list_ex (\<lambda>r. r_Name r = ref \<and> r_Budget r \<noteq> None \<and> pred_option budget_finite (r_Budget r)) rules"
    and "sub = \<lparr>ps_Team = ws_Team (sp_Subject (gp_Spec doc)), ps_User = ws_User (sp_Subject (gp_Spec doc))\<rparr>"
  shows "tiers_wf sub rules bt'"
proof -
  from assms(1) obtain u prev tiers where ref: "check_budget_ref wr doc (wts_BudgetRef bt) reject = Inr u"
    and tiers: "rfold (convert_tier wr reject (if wts_EnforceTargets bt then 100 else 99)) (wts_Tiers bt) (0, [])
      = Inr (prev, tiers)"
    and bt': "bt' = \<lparr>bts_BudgetRef = wts_BudgetRef bt, bts_Tiers = tiers, bts_EnforceTargets = wts_EnforceTargets bt\<rparr>"
    and ne: "wts_Tiers bt \<noteq> []"
    and team: "wts_EnforceTargets bt \<longrightarrow> ws_Team (sp_Subject (gp_Spec doc)) \<noteq> [] \<and> ws_User (sp_Subject (gp_Spec doc)) = []"
    by (auto simp: budgetTiersFromV1Alpha1_def Let_def rbind_Inr_iff split: if_splits prod.splits)
  from ne convert_tiers_ok [OF tiers] have "tiers \<noteq> []" by auto
  with convert_tiers_ok [OF tiers] assms(2) [OF check_budget_ref_ok [OF ref]] team show ?thesis
    by (simp add: tiers_wf_def bt' assms(3))
qed

lemma routingFromV1Alpha1_ok:
  assumes "routingFromV1Alpha1 wr x doc reject = Inr y"
    and "\<And>ref. ref_ok doc ref \<Longrightarrow>
       list_ex (\<lambda>r. r_Name r = ref \<and> r_Budget r \<noteq> None \<and> pred_option budget_finite (r_Budget r)) rules"
    and "sub = \<lparr>ps_Team = ws_Team (sp_Subject (gp_Spec doc)), ps_User = ws_User (sp_Subject (gp_Spec doc))\<rparr>"
  shows "routing_wf sub rules (w_FailurePolicy wr) y"
proof (cases "wro_Context x")
  case (Some c)
  with assms(1) obtain c' where "contextFromV1Alpha1 wr c reject = Inr c'"
    and "y = \<lparr>ro_Affinity = None, ro_BudgetTiers = None, ro_Context = Some c'\<rparr>"
    by (auto simp: routingFromV1Alpha1_def rbind_Inr_iff split: if_splits)
  with contextFromV1Alpha1_ok [of wr c reject c'] show ?thesis by (simp add: routing_wf_def count_true_def)
next
  case no_context: None
  show ?thesis
  proof (cases "wro_BudgetTiers x")
    case None
    with no_context assms(1) show ?thesis
      by (auto simp: routingFromV1Alpha1_def routing_wf_def count_true_def split: if_splits)
  next
    case (Some bt)
    with no_context assms(1) obtain bt' where "budgetTiersFromV1Alpha1 wr bt doc reject = Inr bt'"
      and "y = \<lparr>ro_Affinity = None, ro_BudgetTiers = Some bt', ro_Context = None\<rparr>"
      by (auto simp: routingFromV1Alpha1_def rbind_Inr_iff split: if_splits)
    with budgetTiersFromV1Alpha1_ok [OF _ assms(2,3)] show ?thesis by (simp add: routing_wf_def count_true_def)
  qed
qed

lemma sensitiveDataFromV1Alpha1_ok:
  "sensitiveDataFromV1Alpha1 wr x reject = Inr y \<Longrightarrow> sensitive_wf y \<and> w_FailurePolicy wr = FailClosed"
  by (auto simp: sensitiveDataFromV1Alpha1_def sensitive_wf_def Let_def split: if_splits)

lemma trace_export_ok:
  "trace_export wr reject t = Inr t' \<Longrightarrow> (t' = None \<longleftrightarrow> t = None) \<and>
     pred_option (\<lambda>t. ValidExporterName (te_Exporter t) \<and> 1 \<le> te_SamplePercent t \<and> te_SamplePercent t \<le> 100) t'"
  by (cases t) (auto split: if_splits option.splits)

lemma signal_export_ok:
  "signal_export wr reject n s = Inr e \<Longrightarrow> (e = [] \<longleftrightarrow> s = None) \<and> (e = [] \<or> ValidExporterName e)"
  by (cases s) (auto simp: ValidExporterName_def split: if_splits)

lemma observabilityFromV1Alpha1_ok:
  assumes "observabilityFromV1Alpha1 wr x reject = Inr y"
  shows "observability_wf y \<and> w_FailurePolicy wr = FailOpen"
  using assms trace_export_ok [of wr reject "wo_Traces x"] signal_export_ok [of wr reject SignalAudit "wo_Audit x"]
    signal_export_ok [of wr reject SignalContent "wo_Content x"]
  by (auto simp: observabilityFromV1Alpha1_def observability_wf_def rbind_Inr_iff split: if_splits)

lemma rateFromV1Alpha1_ok: "rateFromV1Alpha1 wr x reject = Inr y \<Longrightarrow> rate_wf y"
  by (auto simp: rateFromV1Alpha1_def rate_wf_def split: if_splits)

lemma tokenQuotaFromV1Alpha1_ok:
  "tokenQuotaFromV1Alpha1 wr x reject = Inr y \<Longrightarrow> 0 < tq_LimitTokens y \<and> w_FailurePolicy wr = FailClosed"
  by (auto simp: tokenQuotaFromV1Alpha1_def split: if_splits)

lemma modelAccessFromV1Alpha1_ok:
  "modelAccessFromV1Alpha1 wr x reject = Inr y \<Longrightarrow> ma_Allow y \<noteq> [] \<and> [] \<notin> set (ma_Allow y)"
  by (auto simp: modelAccessFromV1Alpha1_def split: if_splits)

section \<open>The whole document\<close>

lemmas kind_defs = count_true_def wire_kinds_def rule_kinds_def empty_rule_def

lemma convert_kind_carries:
  assumes "convert_kind doc w reject = Inr r" "count_true (wire_kinds w) = 1"
  shows "carries_rule w r"
  using assms budgetFromV1Alpha1_ok(2)
  by (auto simp: convert_kind_def carries_rule_def kind_defs Let_def rbind_Inr_iff split: option.splits if_splits)

lemma convert_kind_wf:
  assumes "convert_kind doc w reject = Inr r" "count_true (wire_kinds w) = 1"
    and "w_Name w \<noteq> []" "w_FailurePolicy w = FailOpen \<or> w_FailurePolicy w = FailClosed"
    and "\<And>ref. ref_ok doc ref \<Longrightarrow>
       list_ex (\<lambda>r. r_Name r = ref \<and> r_Budget r \<noteq> None \<and> pred_option budget_finite (r_Budget r)) rules"
    and "sub = \<lparr>ps_Team = ws_Team (sp_Subject (gp_Spec doc)), ps_User = ws_User (sp_Subject (gp_Spec doc))\<rparr>"
  shows "rule_wf sub rules r"
proof -
  note kinds = budgetFromV1Alpha1_ok(1) [of w] routingFromV1Alpha1_ok [OF _ assms(5,6), of w]
    sensitiveDataFromV1Alpha1_ok [of w] observabilityFromV1Alpha1_ok [of w] rateFromV1Alpha1_ok [of w]
    tokenQuotaFromV1Alpha1_ok [of w] modelAccessFromV1Alpha1_ok [of w]
  have "count_true (rule_kinds r) = 1" and "r_Name r = w_Name w" "r_FailurePolicy r = w_FailurePolicy w"
    using convert_kind_carries [OF assms(1,2)] assms(2) by (simp_all add: carries_rule_def)
  with assms(1,3,4) kinds show ?thesis
    by (auto simp: rule_wf_def convert_kind_def empty_rule_def Let_def rbind_Inr_iff split: option.splits)
qed

text \<open>What the loop over the rules establishes for each pair of a wire rule and its conversion.\<close>

definition converts :: "GovernancePolicy \<Rightarrow> reject \<Rightarrow> wire_Rule \<Rightarrow> policy_Rule \<Rightarrow> bool" where
  "converts doc reject w r \<longleftrightarrow>
     convert_kind doc w reject = Inr r \<and> count_true (wire_kinds w) = 1 \<and> w_Name w \<noteq> []
     \<and> (w_FailurePolicy w = FailOpen \<or> w_FailurePolicy w = FailClosed)"

lemma converts_carries: "converts doc reject w r \<Longrightarrow> carries_rule w r"
  unfolding converts_def by (blast intro: convert_kind_carries)

lemma convert_rules_ok:
  assumes "rfold (convert_rule doc reject) ws [] = Inr rules"
  shows "list_all2 (converts doc reject) ws rules \<and> distinct (map r_Name rules)"
  using assms
proof (rule rfold_prefix, simp)
  fix ys x zs s s'
  assume before: "list_all2 (converts doc reject) ys s \<and> distinct (map r_Name s)"
    and step: "convert_rule doc reject x s = Inr s'"
  from step obtain r where r: "converts doc reject x r" "s' = s @ [r]" and new: "w_Name x \<notin> set (map r_Name s)"
    by (auto simp: convert_rule_def converts_def rbind_Inr_iff split: if_splits)
  have "r_Name r = w_Name x" using converts_carries [OF r(1)] by (simp add: carries_rule_def)
  with before r new show "list_all2 (converts doc reject) (ys @ [x]) s' \<and> distinct (map r_Name s')"
    by (auto intro!: list_all2_appendI)
qed

lemma converts_ref:
  assumes all: "list_all2 (converts doc reject) (sp_Rules (gp_Spec doc)) rules" and ref: "ref_ok doc ref"
  shows "list_ex (\<lambda>r. r_Name r = ref \<and> r_Budget r \<noteq> None \<and> pred_option budget_finite (r_Budget r)) rules"
proof -
  from ref obtain w wb where w: "w \<in> set (sp_Rules (gp_Spec doc))" "w_Name w = ref" "w_Budget w = Some wb"
    "\<not> wb_Unlimited wb" unfolding ref_ok_def by blast
  with all obtain r where r: "r \<in> set rules" "converts doc reject w r"
    by (metis in_set_conv_nth list_all2_conv_all_nth)
  note carried = converts_carries [OF r(2)]
  from carried w(3) obtain b where b: "r_Budget r = Some b" "carries_budget wb b"
    unfolding carries_rule_def by (metis option_rel_Some1)
  have "budgetFromV1Alpha1 w wb reject = Inr b"
    using r(2) w(3) b(1)
    by (auto simp: converts_def convert_kind_def empty_rule_def Let_def rbind_Inr_iff split: option.splits)
  from budgetFromV1Alpha1_ok(1) [OF this]
  have "budget_finite b" using b(2) w(4)
    by (auto simp: budget_wf_def carries_budget_def unlimited_budget_def)
  with b(1) r(1) carried w(2) show ?thesis
    by (auto simp: list_ex_iff carries_rule_def)
qed

lemma converted_document:
  assumes "FromV1Alpha1 doc = Inr p"
  shows "list_all2 (converts doc (reject_doc doc)) (sp_Rules (gp_Spec doc)) (p_Rules p)"
    and "distinct (map r_Name (p_Rules p))" "p_Rules p \<noteq> []" "length (p_Rules p) \<le> maxPolicyRules"
    and "p_Name p = om_Name (gp_Metadata doc)" "p_Generation p = om_Generation (gp_Metadata doc)"
    and "p_Subject p = \<lparr>ps_Team = ws_Team (sp_Subject (gp_Spec doc)), ps_User = ws_User (sp_Subject (gp_Spec doc))\<rparr>"
    and "ps_Team (p_Subject p) \<noteq> [] \<or> ps_User (p_Subject p) \<noteq> []"
proof -
  let ?sub = "\<lparr>ps_Team = ws_Team (sp_Subject (gp_Spec doc)), ps_User = ws_User (sp_Subject (gp_Spec doc))\<rparr>"
  from assms obtain rules where rules: "rfold (convert_rule doc (reject_doc doc)) (sp_Rules (gp_Spec doc)) [] = Inr rules"
    and p: "p = \<lparr>p_Name = om_Name (gp_Metadata doc), p_Generation = om_Generation (gp_Metadata doc),
      p_Subject = ?sub, p_Rules = rules\<rparr>"
    and shape: "ps_Team ?sub \<noteq> [] \<or> ps_User ?sub \<noteq> []" "sp_Rules (gp_Spec doc) \<noteq> []"
      "length (sp_Rules (gp_Spec doc)) \<le> maxPolicyRules"
    by (auto simp: FromV1Alpha1_def Let_def rbind_Inr_iff not_less split: if_splits)
  note loop = convert_rules_ok [OF rules]
  then have "length rules = length (sp_Rules (gp_Spec doc))" by (metis list_all2_lengthD)
  moreover from this shape(2) have "rules \<noteq> []" by auto
  ultimately show "list_all2 (converts doc (reject_doc doc)) (sp_Rules (gp_Spec doc)) (p_Rules p)"
    and "distinct (map r_Name (p_Rules p))" "p_Rules p \<noteq> []" "length (p_Rules p) \<le> maxPolicyRules"
    and "p_Name p = om_Name (gp_Metadata doc)" "p_Generation p = om_Generation (gp_Metadata doc)"
    and "p_Subject p = ?sub" "ps_Team (p_Subject p) \<noteq> [] \<or> ps_User (p_Subject p) \<noteq> []"
    using loop shape by (simp_all add: p)
qed

lemma converted_policy_wf:
  assumes "FromV1Alpha1 doc = Inr p"
  shows "policy_wf p"
proof -
  note doc = converted_document [OF assms]
  have "rule_wf (p_Subject p) (p_Rules p) r" if "converts doc (reject_doc doc) w r" for w r
    using that unfolding converts_def
    by (blast intro: convert_kind_wf [OF _ _ _ _ converts_ref [OF doc(1)] doc(7)])
  then have "list_all (rule_wf (p_Subject p) (p_Rules p)) (p_Rules p)"
    using doc(1) unfolding list_all_iff by (metis in_set_conv_nth list_all2_conv_all_nth)
  with doc show ?thesis by (simp add: policy_wf_def)
qed

section \<open>Properties\<close>

text \<open>
  C20: A policy document that the conversion accepts is well formed: it selects somebody, has
  between 1 and 256 rules with distinct non-empty names, each with an explicit failure policy and
  exactly one kind; hard caps, token quotas and sensitive-data rules fail closed; budget limits and
  lease grants are positive and fit an \<open>int64\<close>, and the renew interval is at least a second; tier
  thresholds increase strictly within 1..99 (1..100 when targets are enforced), no substitution
  chains, and the budget a tier refers to is a finite budget of the same document; context
  thresholds and stability limits are in range. Nothing is dropped: the rules correspond one by one
  to the wire rules, and the budget amounts are exactly 1000 times the wire amounts.
\<close>

theorem accepted_document_is_well_formed:
  assumes "FromV1Alpha1 doc = Inr p"
  shows "policy_wf p
    \<and> list_all2 carries_rule (sp_Rules (gp_Spec doc)) (p_Rules p)
    \<and> p_Name p = om_Name (gp_Metadata doc) \<and> p_Generation p = om_Generation (gp_Metadata doc)
    \<and> ps_Team (p_Subject p) = ws_Team (sp_Subject (gp_Spec doc))
    \<and> ps_User (p_Subject p) = ws_User (sp_Subject (gp_Spec doc))"
proof -
  note doc = converted_document [OF assms]
  have "list_all2 carries_rule (sp_Rules (gp_Spec doc)) (p_Rules p)"
    using doc(1) by (auto intro: list_all2_mono converts_carries)
  with doc converted_policy_wf [OF assms] show ?thesis by simp
qed

definition sample_budget :: BudgetRule where
  "sample_budget =
     \<lparr>wb_Unlimited = False, wb_LimitMilliUSD = 5000, wb_HardCap = True,
      wb_Lease = \<lparr>ls_GrantMilliUSD = 0, ls_RenewInterval = ''1m30s''\<rparr>, wb_AdminContact = ''ops'', wb_Period = ''''\<rparr>"

definition sample_rule :: "string \<Rightarrow> string \<Rightarrow> wire_Rule" where
  "sample_rule name fp =
     \<lparr>w_Name = name, w_FailurePolicy = fp, w_Budget = None, w_Routing = None, w_ModelAccess = None,
      w_Rate = None, w_SensitiveData = None, w_TokenQuota = None, w_Observability = None\<rparr>"

definition sample_tiers :: BudgetTiersRule where
  "sample_tiers =
     \<lparr>wts_BudgetRef = ''cap'',
      wts_Tiers = [\<lparr>wt_ThresholdPercent = 80, wt_Substitute = [(''big'', ''small'')]\<rparr>,
                   \<lparr>wt_ThresholdPercent = 100, wt_Substitute = [(''big'', ''tiny'')]\<rparr>],
      wts_EnforceTargets = True\<rparr>"

definition sample_document :: GovernancePolicy where
  "sample_document =
     \<lparr>gp_APIVersion = APIVersion, gp_Kind = KindGovernancePolicy,
      gp_Metadata = \<lparr>om_Name = ''p'', om_Generation = 3\<rparr>,
      gp_Spec = \<lparr>sp_Subject = \<lparr>ws_Team = ''t'', ws_User = ''''\<rparr>,
                 sp_Rules = [(sample_rule ''tiers'' FailOpen)\<lparr>w_Routing :=
                     Some \<lparr>wro_OnAffinityConflict = '''', wro_BudgetTiers = Some sample_tiers, wro_Context = None\<rparr>\<rparr>,
                   (sample_rule ''cap'' FailClosed)\<lparr>w_Budget := Some sample_budget\<rparr>]\<rparr>\<rparr>"

lemma sample_document_accepted:
  "case FromV1Alpha1 sample_document of Inl _ \<Rightarrow> False
   | Inr p \<Rightarrow> map (map_option (\<lambda>b. (pb_LimitMicroUSD b, pb_LeaseGrantMicroUSD b, pb_LeaseRenewInterval b)) \<circ> r_Budget)
       (p_Rules p) = [None, Some (5000000, 5000, 90 * second)]"
  by code_simp

theorem accepted_document_is_well_formed_witness:
  "\<exists>p. FromV1Alpha1 sample_document = Inr p \<and> policy_wf p
     \<and> list_all2 carries_rule (sp_Rules (gp_Spec sample_document)) (p_Rules p)
     \<and> map (map_option (\<lambda>b. (pb_LimitMicroUSD b, pb_LeaseGrantMicroUSD b, pb_LeaseRenewInterval b)) \<circ> r_Budget)
         (p_Rules p) = [None, Some (5000000, 5000, 90 * second)]"
  using sample_document_accepted accepted_document_is_well_formed [of sample_document]
  by (auto split: sum.splits)

end
