(* ===== verification/Policy_Limits.thy ===== *)
theory Policy_Limits
  imports Policy_Wf
begin

text \<open>
  Which limits a set of accepted policies puts on a team or a user (the merging half of
  \<open>src/internal/policy/store.go\<close>, and \<open>routing_budget.go\<close>): per calendar window the smallest hard
  cap binds, else the smallest soft limit; a soft budget that a strict routing tier refers to is
  an accounting threshold and never an admission cap.
\<close>

section \<open>Merged views\<close>

record RuleRef =
  rr_Policy :: string
  rr_Generation :: i64
  rr_Rule :: string

record TeamLimits =
  tl_RPM :: i64
  tl_TPM :: i64
  tl_BudgetMicrosPerMonth :: i64
  tl_BudgetHard :: bool
  tl_AdminContact :: string
  tl_BudgetMicrosPerDay :: i64
  tl_BudgetDayHard :: bool
  tl_AdminContactDay :: string
  tl_RoutingBudgetMicrosPerMonth :: i64
  tl_RoutingBudgetMicrosPerDay :: i64
  tl_RPMRule :: RuleRef
  tl_TPMRule :: RuleRef
  tl_BudgetRule :: RuleRef
  tl_BudgetDayRule :: RuleRef

record UserLimits =
  ul_BudgetMicrosPerMonth :: i64
  ul_BudgetHard :: bool
  ul_AdminContact :: string
  ul_BudgetMicrosPerDay :: i64
  ul_BudgetDayHard :: bool
  ul_AdminContactDay :: string
  ul_BudgetRule :: RuleRef
  ul_BudgetDayRule :: RuleRef

record userKey =
  uk_team :: string
  uk_user :: string

definition no_ref :: RuleRef where
  "no_ref = \<lparr>rr_Policy = [], rr_Generation = 0, rr_Rule = []\<rparr>"

definition no_team_limits :: TeamLimits where
  "no_team_limits =
     \<lparr>tl_RPM = 0, tl_TPM = 0, tl_BudgetMicrosPerMonth = 0, tl_BudgetHard = False, tl_AdminContact = [],
      tl_BudgetMicrosPerDay = 0, tl_BudgetDayHard = False, tl_AdminContactDay = [],
      tl_RoutingBudgetMicrosPerMonth = 0, tl_RoutingBudgetMicrosPerDay = 0,
      tl_RPMRule = no_ref, tl_TPMRule = no_ref, tl_BudgetRule = no_ref, tl_BudgetDayRule = no_ref\<rparr>"

definition no_user_limits :: UserLimits where
  "no_user_limits =
     \<lparr>ul_BudgetMicrosPerMonth = 0, ul_BudgetHard = False, ul_AdminContact = [], ul_BudgetMicrosPerDay = 0,
      ul_BudgetDayHard = False, ul_AdminContactDay = [], ul_BudgetRule = no_ref, ul_BudgetDayRule = no_ref\<rparr>"

definition ref_of :: "Policy \<Rightarrow> policy_Rule \<Rightarrow> RuleRef" where
  "ref_of p r = \<lparr>rr_Policy = p_Name p, rr_Generation = p_Generation p, rr_Rule = r_Name r\<rparr>"

text \<open>\<open>Subject.matches\<close>: a set selector must match, an empty one does not constrain.\<close>

definition matches :: "policy_Subject \<Rightarrow> string \<Rightarrow> string \<Rightarrow> bool" where
  "matches sub team user \<longleftrightarrow>
     \<not> (ps_Team sub \<noteq> [] \<and> ps_Team sub \<noteq> team) \<and> \<not> (ps_User sub \<noteq> [] \<and> (user = [] \<or> ps_User sub \<noteq> user))"

section \<open>The comparisons\<close>

definition takesRate :: "i64 \<Rightarrow> i64 \<Rightarrow> bool" where
  "takesRate current next \<longleftrightarrow> next \<noteq> 0 \<and> (current = 0 \<or> next < current)"

definition minNonZero :: "i64 \<Rightarrow> i64 \<Rightarrow> i64" where
  "minNonZero a b = (if a = 0 then b else if b = 0 then a else if b < a then b else a)"

definition takesBudget :: "i64 \<Rightarrow> bool \<Rightarrow> i64 \<Rightarrow> bool \<Rightarrow> bool" where
  "takesBudget limit hard otherLimit otherHard \<longleftrightarrow>
     otherLimit \<noteq> 0 \<and> (limit = 0 \<or> (otherHard \<and> \<not> hard) \<or> (otherHard = hard \<and> otherLimit < limit))"

definition mergeBudgetWindow ::
    "i64 \<Rightarrow> bool \<Rightarrow> string \<Rightarrow> i64 \<Rightarrow> bool \<Rightarrow> string \<Rightarrow> i64 \<times> bool \<times> string" where
  "mergeBudgetWindow limit hard contact otherLimit otherHard otherContact =
     (if otherLimit = 0 then (limit, hard, contact)
      else if takesBudget limit hard otherLimit otherHard then (otherLimit, otherHard, otherContact)
      else (limit, hard, if otherLimit = limit \<and> otherHard = hard \<and> contact = [] then otherContact else contact))"

section \<open>Teams\<close>

definition IsRoutingOnlyBudget :: "Policy option \<Rightarrow> string \<Rightarrow> bool" where
  "IsRoutingOnlyBudget op ruleName =
     (case op of
        None \<Rightarrow> False
      | Some p \<Rightarrow>
          if ruleName = [] \<or> ps_Team (p_Subject p) = [] \<or> ps_User (p_Subject p) \<noteq> [] then False
          else (case Option.bind (find (\<lambda>r. r_Name r = ruleName) (p_Rules p)) r_Budget of
                  None \<Rightarrow> False
                | Some b \<Rightarrow>
                    if pb_HardCap b \<or> pb_Unlimited b \<or> pb_LimitMicroUSD b \<le> 0 then False
                    else list_ex (\<lambda>r. case Option.bind (r_Routing r) ro_BudgetTiers of
                           None \<Rightarrow> False
                         | Some tier \<Rightarrow> bts_EnforceTargets tier \<and> bts_BudgetRef tier = ruleName) (p_Rules p)))"

definition merge_rate :: "RuleRef \<Rightarrow> policy_Rate \<Rightarrow> TeamLimits \<Rightarrow> TeamLimits" where
  "merge_rate ref rt lims =
     lims\<lparr>tl_RPMRule := (if takesRate (tl_RPM lims) (pr_RPM rt) then ref else tl_RPMRule lims),
        tl_TPMRule := (if takesRate (tl_TPM lims) (pr_TPM rt) then ref else tl_TPMRule lims),
        tl_RPM := minNonZero (tl_RPM lims) (pr_RPM rt),
        tl_TPM := minNonZero (tl_TPM lims) (pr_TPM rt)\<rparr>"

definition merge_routing_budget :: "policy_Budget \<Rightarrow> TeamLimits \<Rightarrow> TeamLimits" where
  "merge_routing_budget b lims =
     (if pb_Period b = CalendarDay
      then lims\<lparr>tl_RoutingBudgetMicrosPerDay := minNonZero (tl_RoutingBudgetMicrosPerDay lims) (pb_LimitMicroUSD b)\<rparr>
      else lims\<lparr>tl_RoutingBudgetMicrosPerMonth := minNonZero (tl_RoutingBudgetMicrosPerMonth lims) (pb_LimitMicroUSD b)\<rparr>)"

definition merge_day :: "RuleRef \<Rightarrow> policy_Budget \<Rightarrow> TeamLimits \<Rightarrow> TeamLimits" where
  "merge_day ref b lims =
     (case mergeBudgetWindow (tl_BudgetMicrosPerDay lims) (tl_BudgetDayHard lims) (tl_AdminContactDay lims)
             (pb_LimitMicroUSD b) (pb_HardCap b) (pb_AdminContact b) of
        (limit, hard, contact) \<Rightarrow>
          lims\<lparr>tl_BudgetDayRule :=
               (if takesBudget (tl_BudgetMicrosPerDay lims) (tl_BudgetDayHard lims) (pb_LimitMicroUSD b) (pb_HardCap b)
                then ref else tl_BudgetDayRule lims),
             tl_BudgetMicrosPerDay := limit, tl_BudgetDayHard := hard, tl_AdminContactDay := contact\<rparr>)"

definition merge_month :: "RuleRef \<Rightarrow> policy_Budget \<Rightarrow> TeamLimits \<Rightarrow> TeamLimits" where
  "merge_month ref b lims =
     (case mergeBudgetWindow (tl_BudgetMicrosPerMonth lims) (tl_BudgetHard lims) (tl_AdminContact lims)
             (pb_LimitMicroUSD b) (pb_HardCap b) (pb_AdminContact b) of
        (limit, hard, contact) \<Rightarrow>
          lims\<lparr>tl_BudgetRule :=
               (if takesBudget (tl_BudgetMicrosPerMonth lims) (tl_BudgetHard lims) (pb_LimitMicroUSD b) (pb_HardCap b)
                then ref else tl_BudgetRule lims),
             tl_BudgetMicrosPerMonth := limit, tl_BudgetHard := hard, tl_AdminContact := contact\<rparr>)"

definition merge_budget :: "Policy \<Rightarrow> policy_Rule \<Rightarrow> policy_Budget \<Rightarrow> TeamLimits \<Rightarrow> TeamLimits" where
  "merge_budget p r b lims =
     (if IsRoutingOnlyBudget (Some p) (r_Name r) then merge_routing_budget b lims
      else if pb_Unlimited b then lims
      else if pb_Period b = CalendarDay then merge_day (ref_of p r) b lims
      else merge_month (ref_of p r) b lims)"

text \<open>One rule of the inner loop, on the limits so far and whether any rule contributed.\<close>

fun merge_team_rule :: "Policy \<times> policy_Rule \<Rightarrow> TeamLimits \<times> bool \<Rightarrow> TeamLimits \<times> bool" where
  "merge_team_rule (p, r) (lims, contributed) =
     (let (lims1, c1) = (case r_Rate r of None \<Rightarrow> (lims, contributed) | Some rt \<Rightarrow> (merge_rate (ref_of p r) rt lims, True))
      in case r_Budget r of None \<Rightarrow> (lims1, c1) | Some b \<Rightarrow> (merge_budget p r b lims1, True))"

definition team_only :: "Policy \<Rightarrow> bool" where
  "team_only p \<longleftrightarrow> ps_Team (p_Subject p) \<noteq> [] \<and> ps_User (p_Subject p) = []"

definition merge_team_policy :: "Policy \<Rightarrow> (string, TeamLimits) gomap \<Rightarrow> (string, TeamLimits) gomap" where
  "merge_team_policy p out =
     (if \<not> team_only p then out
      else
        let team = ps_Team (p_Subject p);
            start = (case gget out team of None \<Rightarrow> (no_team_limits, False) | Some lims \<Rightarrow> (lims, True));
            (lims, contributed) = fold merge_team_rule (map (Pair p) (p_Rules p)) start
        in if contributed then gput team lims out else out)"

definition mergeTeamLimits :: "Policy list \<Rightarrow> (string, TeamLimits) gomap" where
  "mergeTeamLimits policies = fold merge_team_policy policies []"

section \<open>Users\<close>

definition narrow :: "UserLimits \<Rightarrow> UserLimits \<Rightarrow> UserLimits" where
  "narrow u v =
     (case (mergeBudgetWindow (ul_BudgetMicrosPerMonth u) (ul_BudgetHard u) (ul_AdminContact u)
              (ul_BudgetMicrosPerMonth v) (ul_BudgetHard v) (ul_AdminContact v),
            mergeBudgetWindow (ul_BudgetMicrosPerDay u) (ul_BudgetDayHard u) (ul_AdminContactDay u)
              (ul_BudgetMicrosPerDay v) (ul_BudgetDayHard v) (ul_AdminContactDay v)) of
        ((month, hard, contact), (day, dayHard, contactDay)) \<Rightarrow>
          \<lparr>ul_BudgetMicrosPerMonth = month, ul_BudgetHard = hard, ul_AdminContact = contact,
           ul_BudgetMicrosPerDay = day, ul_BudgetDayHard = dayHard, ul_AdminContactDay = contactDay,
           ul_BudgetRule =
             (if takesBudget (ul_BudgetMicrosPerMonth u) (ul_BudgetHard u) (ul_BudgetMicrosPerMonth v) (ul_BudgetHard v)
              then ul_BudgetRule v else ul_BudgetRule u),
           ul_BudgetDayRule =
             (if takesBudget (ul_BudgetMicrosPerDay u) (ul_BudgetDayHard u) (ul_BudgetMicrosPerDay v) (ul_BudgetDayHard v)
              then ul_BudgetDayRule v else ul_BudgetDayRule u)\<rparr>)"

definition userLimitsFromBudget :: "policy_Budget \<Rightarrow> RuleRef \<Rightarrow> UserLimits" where
  "userLimitsFromBudget b ref =
     (if pb_Period b = CalendarDay
      then no_user_limits\<lparr>ul_BudgetMicrosPerDay := pb_LimitMicroUSD b, ul_BudgetDayHard := pb_HardCap b,
             ul_AdminContactDay := pb_AdminContact b, ul_BudgetDayRule := ref\<rparr>
      else no_user_limits\<lparr>ul_BudgetMicrosPerMonth := pb_LimitMicroUSD b, ul_BudgetHard := pb_HardCap b,
             ul_AdminContact := pb_AdminContact b, ul_BudgetRule := ref\<rparr>)"

fun merge_user_rule :: "Policy \<times> policy_Rule \<Rightarrow> UserLimits \<times> bool \<Rightarrow> UserLimits \<times> bool" where
  "merge_user_rule (p, r) (ul, contributed) =
     (case r_Budget r of
        None \<Rightarrow> (ul, contributed)
      | Some b \<Rightarrow>
          if pb_Unlimited b then (ul, True)
          else (narrow ul (userLimitsFromBudget b (ref_of p r)), True))"

definition merge_user_policy :: "Policy \<Rightarrow> (userKey, UserLimits) gomap \<Rightarrow> (userKey, UserLimits) gomap" where
  "merge_user_policy p out =
     (if ps_User (p_Subject p) = [] then out
      else
        let k = \<lparr>uk_team = ps_Team (p_Subject p), uk_user = ps_User (p_Subject p)\<rparr>;
            start = (case gget out k of None \<Rightarrow> (no_user_limits, False) | Some ul \<Rightarrow> (ul, True));
            (ul, contributed) = fold merge_user_rule (map (Pair p) (p_Rules p)) start
        in if contributed then gput k ul out else out)"

definition mergeUserLimits :: "Policy list \<Rightarrow> (userKey, UserLimits) gomap" where
  "mergeUserLimits policies = fold merge_user_policy policies []"

text \<open>\<open>Store.UserLimits\<close>: the entry of this user in this team and the one in any team.\<close>

definition lookupUserLimits :: "(userKey, UserLimits) gomap \<Rightarrow> string \<Rightarrow> string \<Rightarrow> UserLimits option" where
  "lookupUserLimits m team user =
     (if user = [] then None
      else (case (gget m \<lparr>uk_team = team, uk_user = user\<rparr>, gget m \<lparr>uk_team = [], uk_user = user\<rparr>) of
              (Some scoped, Some global) \<Rightarrow> Some (narrow scoped global)
            | (Some scoped, None) \<Rightarrow> Some scoped
            | (None, Some global) \<Rightarrow> Some global
            | (None, None) \<Rightarrow> None))"

end
