(* ===== verification/Policy_Merge.thy ===== *)
theory Policy_Merge
  imports Policy_Limits
begin

text \<open>
  The merged limits against a reference that has no order and no running state: for each window
  the binding limit of the whole set of rules that bid for it. Three interfaces carry the proofs:
  a map of subjects filled policy by policy, a window that a rule may tighten, and a threshold that
  takes the smallest offer.
\<close>

section \<open>The reference\<close>

type_synonym bid = "i64 \<times> bool \<times> RuleRef"

definition least :: "i64 list \<Rightarrow> i64" where
  "least vs = (if vs = [] then 0 else Min (set vs))"

text \<open>The smallest hard cap, else the smallest soft limit, else no limit.\<close>

definition binding :: "bid list \<Rightarrow> i64 \<times> bool" where
  "binding bs =
     (let hards = filter (\<lambda>(_, h, _). h) bs
      in if hards \<noteq> [] then (least (map fst hards), True) else (least (map fst bs), False))"

definition smallest :: "i64 list \<Rightarrow> i64" where
  "smallest vs = least (filter (\<lambda>v. v \<noteq> 0) vs)"

definition positive_bids :: "bid list \<Rightarrow> bool" where
  "positive_bids bs \<longleftrightarrow> list_all (\<lambda>b. 0 < fst b) bs"

lemma least_Nil [simp]: "least [] = 0"
  by (simp add: least_def)

lemma least_single [simp]: "least [v] = v"
  by (simp add: least_def)

lemma least_snoc [simp]: "least (vs @ [v]) = (if vs = [] then v else min v (least vs))"
  by (simp add: least_def)

lemma least_pos: "vs \<noteq> [] \<Longrightarrow> \<forall>v \<in> set vs. 0 < v \<Longrightarrow> 0 < least vs"
  by (simp add: least_def)

lemma binding_Nil [simp]: "binding [] = (0, False)"
  by (simp add: binding_def)

lemma binding_snoc:
  assumes "positive_bids (bs @ [(l, h, ref)])"
  shows "binding (bs @ [(l, h, ref)]) =
    (if takesBudget (fst (binding bs)) (snd (binding bs)) l h then (l, h) else binding bs)"
proof -
  let ?hards = "map fst (filter (\<lambda>(_, h, _). h) bs)"
  have "bs \<noteq> [] \<Longrightarrow> 0 < least (map fst bs)" and "?hards \<noteq> [] \<Longrightarrow> 0 < least ?hards"
    using assms by (auto intro!: least_pos simp: positive_bids_def list_all_iff)
  with assms show ?thesis
    by (cases "?hards = []"; cases h; cases "bs = []")
       (auto simp: binding_def takesBudget_def positive_bids_def Let_def min_def)
qed

lemma smallest_Nil [simp]: "smallest [] = 0"
  by (simp add: smallest_def)

lemma smallest_snoc:
  assumes "list_all (\<lambda>v. 0 \<le> v) (vs @ [v])"
  shows "smallest (vs @ [v]) = minNonZero (smallest vs) v"
proof -
  let ?ws = "filter (\<lambda>v. v \<noteq> 0) vs"
  have "?ws \<noteq> [] \<Longrightarrow> 0 < least ?ws"
    using assms by (intro least_pos) (auto simp: list_all_iff order_less_le)
  then show ?thesis
    by (cases "?ws = []") (auto simp: smallest_def minNonZero_def min_def)
qed

section \<open>Interfaces\<close>

text \<open>A window of the merged limits: a rule that bids for it takes it when the bid binds.\<close>

locale window_fold =
  fixes step :: "'x \<Rightarrow> 's \<Rightarrow> 's" and limit :: "'s \<Rightarrow> i64" and hard :: "'s \<Rightarrow> bool"
    and rule :: "'s \<Rightarrow> RuleRef" and bid :: "'x \<Rightarrow> bid option"
  assumes step_bid: "(limit (step x s), hard (step x s), rule (step x s)) =
      (case bid x of
         None \<Rightarrow> (limit s, hard s, rule s)
       | Some (l, h, ref) \<Rightarrow>
           if takesBudget (limit s) (hard s) l h then (l, h, ref) else (limit s, hard s, rule s))"
begin

lemma fold_binding:
  assumes "positive_bids (List.map_filter bid xs)" "limit s = 0" "\<not> hard s"
  shows "(limit (fold step xs s), hard (fold step xs s)) = binding (List.map_filter bid xs)
    \<and> (List.map_filter bid xs \<noteq> [] \<longrightarrow>
        (limit (fold step xs s), hard (fold step xs s), rule (fold step xs s)) \<in> set (List.map_filter bid xs))"
  using assms(1)
proof (induction xs rule: rev_induct)
  case Nil
  then show ?case using assms(2,3) by simp
next
  case (snoc x xs)
  let ?s = "fold step xs s"
  show ?case
  proof (cases "bid x")
    case None
    with snoc step_bid [of x ?s] show ?thesis by (simp add: map_filter_def)
  next
    case (Some b)
    obtain l h ref where b: "b = (l, h, ref)" by (cases b)
    have more: "List.map_filter bid (xs @ [x]) = List.map_filter bid xs @ [(l, h, ref)]"
      using Some b by (simp add: map_filter_def)
    have pos: "positive_bids (List.map_filter bid xs)"
      using snoc.prems more by (simp add: positive_bids_def)
    note IH = snoc.IH [OF pos]
    have "positive_bids (List.map_filter bid xs @ [(l, h, ref)])" using snoc.prems more by simp
    note next_binding = binding_snoc [OF this]
    have taken: "List.map_filter bid xs = [] \<Longrightarrow> takesBudget (limit ?s) (hard ?s) l h"
      using IH snoc.prems more by (simp add: takesBudget_def positive_bids_def)
    show ?thesis
      using IH taken next_binding step_bid [of x ?s] Some b more
      by (cases "takesBudget (limit ?s) (hard ?s) l h") (auto simp: prod_eq_iff)
  qed
qed

end

text \<open>A threshold that only ever takes a smaller non-zero offer.\<close>

locale least_fold =
  fixes step :: "'x \<Rightarrow> 's \<Rightarrow> 's" and val :: "'s \<Rightarrow> i64" and offer :: "'x \<Rightarrow> i64 option"
  assumes step_val: "val (step x s) = (case offer x of None \<Rightarrow> val s | Some v \<Rightarrow> minNonZero (val s) v)"
begin

lemma fold_smallest:
  assumes "list_all (\<lambda>v. 0 \<le> v) (List.map_filter offer xs)" "val s = 0"
  shows "val (fold step xs s) = smallest (List.map_filter offer xs)"
  using assms(1)
proof (induction xs rule: rev_induct)
  case Nil
  then show ?case using assms(2) by simp
next
  case (snoc x xs)
  then show ?case
    using smallest_snoc [of "List.map_filter offer xs"]
    by (cases "offer x") (auto simp: map_filter_def step_val)
qed

end

text \<open>A map from subjects to merged limits, filled policy by policy.\<close>

locale keyed_merge =
  fixes key :: "Policy \<Rightarrow> 'k option" and merge :: "Policy \<Rightarrow> ('k, 's) gomap \<Rightarrow> ('k, 's) gomap"
    and step :: "Policy \<times> policy_Rule \<Rightarrow> 's \<times> bool \<Rightarrow> 's \<times> bool" and zero :: 's
    and contributes :: "Policy \<times> policy_Rule \<Rightarrow> bool"
  assumes merge_none: "key p = None \<Longrightarrow> merge p out = out"
    and merge_some: "key p = Some k \<Longrightarrow> merge p out =
      (let (s, c) = fold step (map (Pair p) (p_Rules p))
             (case gget out k of None \<Rightarrow> (zero, False) | Some s \<Rightarrow> (s, True))
       in if c then gput k s out else out)"
    and step_idle: "\<not> contributes x \<Longrightarrow> step x sc = sc"
    and step_sets: "contributes x \<Longrightarrow> snd (step x sc)"
begin

lemma fold_contributed: "snd (fold step xs sc) \<longleftrightarrow> snd sc \<or> list_ex contributes xs"
proof (induction xs arbitrary: sc)
  case (Cons x xs)
  then show ?case using step_idle [of x sc] step_sets [of x sc] by (cases "contributes x") auto
qed simp

lemma fold_idle: "\<not> list_ex contributes xs \<Longrightarrow> fold step xs sc = sc"
  by (induction xs arbitrary: sc) (auto simp: step_idle)

lemma merged:
  "gget (fold merge ps []) k =
     (let (s, c) = fold step (concat (map (\<lambda>p. if key p = Some k then map (Pair p) (p_Rules p) else []) ps)) (zero, False)
      in if c then Some s else None)"
proof (induction ps rule: rev_induct)
  case Nil
  then show ?case by simp
next
  case (snoc p ps)
  let ?out = "fold merge ps []"
  let ?before = "fold step (concat (map (\<lambda>p. if key p = Some k then map (Pair p) (p_Rules p) else []) ps)) (zero, False)"
  let ?here = "map (Pair p) (p_Rules p)"
  show ?case
  proof (cases "key p = Some k")
    case True
    have "?before = (zero, False) \<or> snd ?before"
      using fold_idle fold_contributed by fastforce
    then have start: "(case gget ?out k of None \<Rightarrow> (zero, False) | Some s \<Rightarrow> (s, True)) = ?before"
      using snoc.IH by (auto simp: case_prod_unfold Let_def prod_eq_iff split: if_splits)
    show ?thesis
    proof (cases "snd (fold step ?here ?before)")
      case True
      then show ?thesis
        using merge_some [OF \<open>key p = Some k\<close>, of ?out] start \<open>key p = Some k\<close>
        by (simp add: case_prod_unfold Let_def)
    next
      case False
      then have "fold step ?here ?before = ?before" "\<not> snd ?before"
        using fold_contributed [of ?here ?before] fold_idle [of ?here] by auto
      then show ?thesis
        using merge_some [OF \<open>key p = Some k\<close>, of ?out] start \<open>key p = Some k\<close> snoc.IH
        by (simp add: case_prod_unfold Let_def)
    qed
  next
    case False
    then have "gget (merge p ?out) k = gget ?out k"
      using merge_none [of p ?out] merge_some [of p _ ?out]
      by (cases "key p") (auto simp: case_prod_unfold Let_def)
    with False snoc.IH show ?thesis by simp
  qed
qed

end

section \<open>The model's merges\<close>

text \<open>What each rule of a team policy bids for and offers.\<close>

fun team_contributes :: "Policy \<times> policy_Rule \<Rightarrow> bool" where
  "team_contributes (p, r) \<longleftrightarrow> r_Rate r \<noteq> None \<or> r_Budget r \<noteq> None"

fun user_contributes :: "Policy \<times> policy_Rule \<Rightarrow> bool" where
  "user_contributes (p, r) \<longleftrightarrow> r_Budget r \<noteq> None"

definition team_key :: "Policy \<Rightarrow> string option" where
  "team_key p = (if team_only p then Some (ps_Team (p_Subject p)) else None)"

definition user_key :: "Policy \<Rightarrow> userKey option" where
  "user_key p = (if ps_User (p_Subject p) = [] then None
     else Some \<lparr>uk_team = ps_Team (p_Subject p), uk_user = ps_User (p_Subject p)\<rparr>)"

text \<open>The bid of a finite budget for the day window (\<open>day\<close>) or the month window.\<close>

fun user_bid :: "bool \<Rightarrow> Policy \<times> policy_Rule \<Rightarrow> bid option" where
  "user_bid day (p, r) =
     (case r_Budget r of
        None \<Rightarrow> None
      | Some b \<Rightarrow> if pb_Unlimited b \<or> (pb_Period b = CalendarDay) \<noteq> day then None
                  else Some (pb_LimitMicroUSD b, pb_HardCap b, ref_of p r))"

fun team_bid :: "bool \<Rightarrow> Policy \<times> policy_Rule \<Rightarrow> bid option" where
  "team_bid day (p, r) = (if IsRoutingOnlyBudget (Some p) (r_Name r) then None else user_bid day (p, r))"

fun routing_offer :: "bool \<Rightarrow> Policy \<times> policy_Rule \<Rightarrow> i64 option" where
  "routing_offer day (p, r) =
     (case r_Budget r of
        None \<Rightarrow> None
      | Some b \<Rightarrow> if IsRoutingOnlyBudget (Some p) (r_Name r) \<and> (pb_Period b = CalendarDay) = day
                  then Some (pb_LimitMicroUSD b) else None)"

fun rate_offer :: "(policy_Rate \<Rightarrow> i64) \<Rightarrow> Policy \<times> policy_Rule \<Rightarrow> i64 option" where
  "rate_offer sel (p, r) = map_option sel (r_Rate r)"

text \<open>The effect of one rule on each field, without the contacts.\<close>

lemma mergeBudgetWindow_fields [simp]:
  "fst (mergeBudgetWindow l h c l' h' c') = (if takesBudget l h l' h' then l' else l)"
  "fst (snd (mergeBudgetWindow l h c l' h' c')) = (if takesBudget l h l' h' then h' else h)"
  by (simp_all add: mergeBudgetWindow_def takesBudget_def)

lemma merge_rate_fields [simp]:
  "tl_RPM (merge_rate ref rt l) = minNonZero (tl_RPM l) (pr_RPM rt)"
  "tl_TPM (merge_rate ref rt l) = minNonZero (tl_TPM l) (pr_TPM rt)"
  "tl_BudgetMicrosPerMonth (merge_rate ref rt l) = tl_BudgetMicrosPerMonth l"
  "tl_BudgetHard (merge_rate ref rt l) = tl_BudgetHard l"
  "tl_BudgetRule (merge_rate ref rt l) = tl_BudgetRule l"
  "tl_BudgetMicrosPerDay (merge_rate ref rt l) = tl_BudgetMicrosPerDay l"
  "tl_BudgetDayHard (merge_rate ref rt l) = tl_BudgetDayHard l"
  "tl_BudgetDayRule (merge_rate ref rt l) = tl_BudgetDayRule l"
  "tl_RoutingBudgetMicrosPerMonth (merge_rate ref rt l) = tl_RoutingBudgetMicrosPerMonth l"
  "tl_RoutingBudgetMicrosPerDay (merge_rate ref rt l) = tl_RoutingBudgetMicrosPerDay l"
  by (simp_all add: merge_rate_def)

lemma merge_team_rule_cases:
  obtains "r_Rate r = None" "r_Budget r = None" "merge_team_rule (p, r) (l, c) = (l, c)"
  | rt where "r_Rate r = Some rt" "r_Budget r = None"
      "merge_team_rule (p, r) (l, c) = (merge_rate (ref_of p r) rt l, True)"
  | b where "r_Rate r = None" "r_Budget r = Some b" "merge_team_rule (p, r) (l, c) = (merge_budget p r b l, True)"
  | rt b where "r_Rate r = Some rt" "r_Budget r = Some b"
      "merge_team_rule (p, r) (l, c) = (merge_budget p r b (merge_rate (ref_of p r) rt l), True)"
  by (cases "r_Rate r"; cases "r_Budget r") simp_all

lemma merge_day_fields [simp]:
  "tl_BudgetMicrosPerDay (merge_day ref b l) =
     (if takesBudget (tl_BudgetMicrosPerDay l) (tl_BudgetDayHard l) (pb_LimitMicroUSD b) (pb_HardCap b)
      then pb_LimitMicroUSD b else tl_BudgetMicrosPerDay l)"
  "tl_BudgetDayHard (merge_day ref b l) =
     (if takesBudget (tl_BudgetMicrosPerDay l) (tl_BudgetDayHard l) (pb_LimitMicroUSD b) (pb_HardCap b)
      then pb_HardCap b else tl_BudgetDayHard l)"
  "tl_BudgetDayRule (merge_day ref b l) =
     (if takesBudget (tl_BudgetMicrosPerDay l) (tl_BudgetDayHard l) (pb_LimitMicroUSD b) (pb_HardCap b)
      then ref else tl_BudgetDayRule l)"
  "tl_BudgetMicrosPerMonth (merge_day ref b l) = tl_BudgetMicrosPerMonth l"
  "tl_BudgetHard (merge_day ref b l) = tl_BudgetHard l"
  "tl_BudgetRule (merge_day ref b l) = tl_BudgetRule l"
  "tl_RPM (merge_day ref b l) = tl_RPM l" "tl_TPM (merge_day ref b l) = tl_TPM l"
  "tl_RoutingBudgetMicrosPerMonth (merge_day ref b l) = tl_RoutingBudgetMicrosPerMonth l"
  "tl_RoutingBudgetMicrosPerDay (merge_day ref b l) = tl_RoutingBudgetMicrosPerDay l"
  by (simp_all add: merge_day_def case_prod_unfold)

lemma merge_month_fields [simp]:
  "tl_BudgetMicrosPerMonth (merge_month ref b l) =
     (if takesBudget (tl_BudgetMicrosPerMonth l) (tl_BudgetHard l) (pb_LimitMicroUSD b) (pb_HardCap b)
      then pb_LimitMicroUSD b else tl_BudgetMicrosPerMonth l)"
  "tl_BudgetHard (merge_month ref b l) =
     (if takesBudget (tl_BudgetMicrosPerMonth l) (tl_BudgetHard l) (pb_LimitMicroUSD b) (pb_HardCap b)
      then pb_HardCap b else tl_BudgetHard l)"
  "tl_BudgetRule (merge_month ref b l) =
     (if takesBudget (tl_BudgetMicrosPerMonth l) (tl_BudgetHard l) (pb_LimitMicroUSD b) (pb_HardCap b)
      then ref else tl_BudgetRule l)"
  "tl_BudgetMicrosPerDay (merge_month ref b l) = tl_BudgetMicrosPerDay l"
  "tl_BudgetDayHard (merge_month ref b l) = tl_BudgetDayHard l"
  "tl_BudgetDayRule (merge_month ref b l) = tl_BudgetDayRule l"
  "tl_RPM (merge_month ref b l) = tl_RPM l" "tl_TPM (merge_month ref b l) = tl_TPM l"
  "tl_RoutingBudgetMicrosPerMonth (merge_month ref b l) = tl_RoutingBudgetMicrosPerMonth l"
  "tl_RoutingBudgetMicrosPerDay (merge_month ref b l) = tl_RoutingBudgetMicrosPerDay l"
  by (simp_all add: merge_month_def case_prod_unfold)

lemma merge_routing_fields [simp]:
  "tl_BudgetMicrosPerMonth (merge_routing_budget b l) = tl_BudgetMicrosPerMonth l"
  "tl_BudgetHard (merge_routing_budget b l) = tl_BudgetHard l"
  "tl_BudgetRule (merge_routing_budget b l) = tl_BudgetRule l"
  "tl_BudgetMicrosPerDay (merge_routing_budget b l) = tl_BudgetMicrosPerDay l"
  "tl_BudgetDayHard (merge_routing_budget b l) = tl_BudgetDayHard l"
  "tl_BudgetDayRule (merge_routing_budget b l) = tl_BudgetDayRule l"
  "tl_RPM (merge_routing_budget b l) = tl_RPM l" "tl_TPM (merge_routing_budget b l) = tl_TPM l"
  "tl_RoutingBudgetMicrosPerMonth (merge_routing_budget b l) =
     (if pb_Period b = CalendarDay then tl_RoutingBudgetMicrosPerMonth l
      else minNonZero (tl_RoutingBudgetMicrosPerMonth l) (pb_LimitMicroUSD b))"
  "tl_RoutingBudgetMicrosPerDay (merge_routing_budget b l) =
     (if pb_Period b = CalendarDay then minNonZero (tl_RoutingBudgetMicrosPerDay l) (pb_LimitMicroUSD b)
      else tl_RoutingBudgetMicrosPerDay l)"
  by (simp_all add: merge_routing_budget_def)

lemma merge_budget_window:
  assumes "r_Budget r = Some b"
  shows "(tl_BudgetMicrosPerMonth (merge_budget p r b l), tl_BudgetHard (merge_budget p r b l),
      tl_BudgetRule (merge_budget p r b l)) =
     (case team_bid False (p, r) of
        None \<Rightarrow> (tl_BudgetMicrosPerMonth l, tl_BudgetHard l, tl_BudgetRule l)
      | Some (l', h, ref) \<Rightarrow>
          if takesBudget (tl_BudgetMicrosPerMonth l) (tl_BudgetHard l) l' h then (l', h, ref)
          else (tl_BudgetMicrosPerMonth l, tl_BudgetHard l, tl_BudgetRule l))"
    and "(tl_BudgetMicrosPerDay (merge_budget p r b l), tl_BudgetDayHard (merge_budget p r b l),
      tl_BudgetDayRule (merge_budget p r b l)) =
     (case team_bid True (p, r) of
        None \<Rightarrow> (tl_BudgetMicrosPerDay l, tl_BudgetDayHard l, tl_BudgetDayRule l)
      | Some (l', h, ref) \<Rightarrow>
          if takesBudget (tl_BudgetMicrosPerDay l) (tl_BudgetDayHard l) l' h then (l', h, ref)
          else (tl_BudgetMicrosPerDay l, tl_BudgetDayHard l, tl_BudgetDayRule l))"
  using assms by (simp_all add: merge_budget_def)

lemma merge_budget_fields [simp]:
  "tl_RPM (merge_budget p r b l) = tl_RPM l" "tl_TPM (merge_budget p r b l) = tl_TPM l"
  by (simp_all add: merge_budget_def)

lemma merge_budget_routing:
  assumes "r_Budget r = Some b"
  shows "tl_RoutingBudgetMicrosPerMonth (merge_budget p r b l) =
      (case routing_offer False (p, r) of None \<Rightarrow> tl_RoutingBudgetMicrosPerMonth l
       | Some v \<Rightarrow> minNonZero (tl_RoutingBudgetMicrosPerMonth l) v)"
    and "tl_RoutingBudgetMicrosPerDay (merge_budget p r b l) =
      (case routing_offer True (p, r) of None \<Rightarrow> tl_RoutingBudgetMicrosPerDay l
       | Some v \<Rightarrow> minNonZero (tl_RoutingBudgetMicrosPerDay l) v)"
  using assms by (simp_all add: merge_budget_def)

lemma idle_bid [simp]: "\<not> takesBudget l h 0 h'"
  by (simp add: takesBudget_def)

interpretation team_month_window: window_fold merge_team_rule
    "\<lambda>s. tl_BudgetMicrosPerMonth (fst s)" "\<lambda>s. tl_BudgetHard (fst s)" "\<lambda>s. tl_BudgetRule (fst s)" "team_bid False"
proof (unfold_locales, goal_cases)
  case (1 x s)
  obtain p r l c where "x = (p, r)" "s = (l, c)" by (cases x, cases s)
  then show ?case
    by (cases rule: merge_team_rule_cases [of r p l c]) (simp_all add: merge_budget_window del: team_bid.simps, simp_all)
qed

interpretation team_day_window: window_fold merge_team_rule
    "\<lambda>s. tl_BudgetMicrosPerDay (fst s)" "\<lambda>s. tl_BudgetDayHard (fst s)" "\<lambda>s. tl_BudgetDayRule (fst s)" "team_bid True"
proof (unfold_locales, goal_cases)
  case (1 x s)
  obtain p r l c where "x = (p, r)" "s = (l, c)" by (cases x, cases s)
  then show ?case
    by (cases rule: merge_team_rule_cases [of r p l c]) (simp_all add: merge_budget_window del: team_bid.simps, simp_all)
qed

interpretation user_month_window: window_fold merge_user_rule
    "\<lambda>s. ul_BudgetMicrosPerMonth (fst s)" "\<lambda>s. ul_BudgetHard (fst s)" "\<lambda>s. ul_BudgetRule (fst s)" "user_bid False"
proof (unfold_locales, goal_cases)
  case (1 x s)
  obtain p r u c where "x = (p, r)" "s = (u, c)" by (cases x, cases s)
  then show ?case
    by (cases "r_Budget r")
       (simp_all add: narrow_def userLimitsFromBudget_def no_user_limits_def case_prod_unfold)
qed

interpretation user_day_window: window_fold merge_user_rule
    "\<lambda>s. ul_BudgetMicrosPerDay (fst s)" "\<lambda>s. ul_BudgetDayHard (fst s)" "\<lambda>s. ul_BudgetDayRule (fst s)" "user_bid True"
proof (unfold_locales, goal_cases)
  case (1 x s)
  obtain p r u c where "x = (p, r)" "s = (u, c)" by (cases x, cases s)
  then show ?case
    by (cases "r_Budget r")
       (simp_all add: narrow_def userLimitsFromBudget_def no_user_limits_def case_prod_unfold)
qed

interpretation team_rpm: least_fold merge_team_rule "\<lambda>s. tl_RPM (fst s)" "rate_offer pr_RPM"
proof (unfold_locales, goal_cases)
  case (1 x s)
  obtain p r l c where "x = (p, r)" "s = (l, c)" by (cases x, cases s)
  then show ?case by (cases rule: merge_team_rule_cases [of r p l c]) simp_all
qed

interpretation team_tpm: least_fold merge_team_rule "\<lambda>s. tl_TPM (fst s)" "rate_offer pr_TPM"
proof (unfold_locales, goal_cases)
  case (1 x s)
  obtain p r l c where "x = (p, r)" "s = (l, c)" by (cases x, cases s)
  then show ?case by (cases rule: merge_team_rule_cases [of r p l c]) simp_all
qed

interpretation team_routing_month: least_fold merge_team_rule
    "\<lambda>s. tl_RoutingBudgetMicrosPerMonth (fst s)" "routing_offer False"
proof (unfold_locales, goal_cases)
  case (1 x s)
  obtain p r l c where "x = (p, r)" "s = (l, c)" by (cases x, cases s)
  then show ?case by (cases rule: merge_team_rule_cases [of r p l c]) (simp_all add: merge_budget_routing)
qed

interpretation team_routing_day: least_fold merge_team_rule
    "\<lambda>s. tl_RoutingBudgetMicrosPerDay (fst s)" "routing_offer True"
proof (unfold_locales, goal_cases)
  case (1 x s)
  obtain p r l c where "x = (p, r)" "s = (l, c)" by (cases x, cases s)
  then show ?case by (cases rule: merge_team_rule_cases [of r p l c]) (simp_all add: merge_budget_routing)
qed

interpretation team_map: keyed_merge team_key merge_team_policy merge_team_rule no_team_limits team_contributes
proof (unfold_locales, goal_cases)
  case (3 x sc)
  obtain p r l c where "x = (p, r)" "sc = (l, c)" by (cases x, cases sc)
  with 3 show ?case by simp
next
  case (4 x sc)
  obtain p r l c where "x = (p, r)" "sc = (l, c)" by (cases x, cases sc)
  with 4 show ?case by (cases rule: merge_team_rule_cases [of r p l c]) simp_all
qed (auto simp: team_key_def merge_team_policy_def Let_def split: if_splits)

interpretation user_map: keyed_merge user_key merge_user_policy merge_user_rule no_user_limits user_contributes
proof (unfold_locales, goal_cases)
  case (3 x sc)
  obtain p r u c where "x = (p, r)" "sc = (u, c)" by (cases x, cases sc)
  with 3 show ?case by simp
next
  case (4 x sc)
  obtain p r u c where "x = (p, r)" "sc = (u, c)" by (cases x, cases sc)
  with 4 show ?case by auto
qed (auto simp: user_key_def merge_user_policy_def Let_def split: if_splits)

section \<open>Positive amounts\<close>

definition pairs_of :: "(Policy \<Rightarrow> bool) \<Rightarrow> Policy list \<Rightarrow> (Policy \<times> policy_Rule) list" where
  "pairs_of P ps = concat (map (\<lambda>p. if P p then map (Pair p) (p_Rules p) else []) ps)"

lemma pairs_of_wf:
  assumes "list_all policy_wf ps" "x \<in> set (pairs_of P ps)"
  obtains p r where "x = (p, r)" "rule_wf (p_Subject p) (p_Rules p) r"
  using assms by (fastforce simp: pairs_of_def list_all_iff policy_wf_def split: if_splits)

lemma set_map_filter: "set (List.map_filter f xs) = {y. \<exists>x \<in> set xs. f x = Some y}"
  by (auto simp: map_filter_def image_iff) force

lemma map_filter_in: "v \<in> set (List.map_filter f xs) \<Longrightarrow> (\<And>x. x \<in> set xs \<Longrightarrow> f x = Some v \<Longrightarrow> thesis) \<Longrightarrow> thesis"
  by (auto simp: map_filter_def)

lemma finite_budget:
  "rule_wf sub rules r \<Longrightarrow> r_Budget r = Some b \<Longrightarrow> \<not> pb_Unlimited b \<Longrightarrow> 0 < pb_LimitMicroUSD b"
  by (auto simp: rule_wf_def budget_wf_def budget_finite_def unlimited_budget_def)

lemma user_bids_positive:
  assumes "list_all policy_wf ps"
  shows "positive_bids (List.map_filter (user_bid day) (pairs_of P ps))"
  unfolding positive_bids_def list_all_iff
  by (auto elim!: map_filter_in pairs_of_wf [OF assms] intro: finite_budget split: option.splits if_splits)

lemma team_bids_positive:
  assumes "list_all policy_wf ps"
  shows "positive_bids (List.map_filter (team_bid day) (pairs_of P ps))"
  unfolding positive_bids_def list_all_iff
  by (auto elim!: map_filter_in pairs_of_wf [OF assms] intro: finite_budget split: option.splits if_splits)

lemma routing_only_positive: "IsRoutingOnlyBudget (Some p) n \<Longrightarrow>
    \<exists>b. Option.bind (find (\<lambda>r. r_Name r = n) (p_Rules p)) r_Budget = Some b \<and> 0 < pb_LimitMicroUSD b"
  by (auto simp: IsRoutingOnlyBudget_def not_le split: option.splits if_splits)

lemma routing_offers_nonneg:
  assumes "list_all policy_wf ps"
  shows "list_all (\<lambda>v. 0 \<le> v) (List.map_filter (routing_offer day) (pairs_of P ps))"
  unfolding list_all_iff
  by (auto elim!: map_filter_in pairs_of_wf [OF assms]
      simp: rule_wf_def budget_wf_def budget_finite_def unlimited_budget_def split: option.splits if_splits)

lemma rate_offers_nonneg:
  assumes "list_all policy_wf ps"
  shows "list_all (\<lambda>v. 0 \<le> v) (List.map_filter (rate_offer pr_RPM) (pairs_of P ps))"
    and "list_all (\<lambda>v. 0 \<le> v) (List.map_filter (rate_offer pr_TPM) (pairs_of P ps))"
  unfolding list_all_iff
  by (auto elim!: map_filter_in pairs_of_wf [OF assms] simp: rule_wf_def rate_wf_def)

lemma binding_set_cong: "set bs = set bs' \<Longrightarrow> binding bs = binding bs'"
proof -
  assume eq: "set bs = set bs'"
  have "filter P bs = [] \<longleftrightarrow> filter P bs' = []" for P using eq by (simp add: filter_empty_conv)
  moreover have "bs = [] \<longleftrightarrow> bs' = []" using eq by (metis set_empty)
  ultimately show ?thesis using eq by (simp add: binding_def least_def Let_def)
qed

lemma binding_pos:
  assumes "positive_bids bs" "bs \<noteq> []"
  shows "0 < fst (binding bs)"
proof -
  let ?hards = "filter (\<lambda>(_, h, _). h) bs"
  have pos: "\<forall>v \<in> set (map fst bs). 0 < v" "\<forall>v \<in> set (map fst ?hards). 0 < v"
    using assms(1) by (auto simp: positive_bids_def list_all_iff)
  show ?thesis
  proof (cases "?hards = []")
    case True
    with least_pos [OF _ pos(1)] assms(2) show ?thesis by (simp add: binding_def)
  next
    case False
    with least_pos [OF _ pos(2)] show ?thesis by (simp add: binding_def Let_def)
  qed
qed

lemma binding_nonneg: "positive_bids bs \<Longrightarrow> 0 \<le> fst (binding bs)"
  by (cases "bs = []") (simp_all add: binding_pos order_less_imp_le)

definition tighter :: "i64 \<times> bool \<Rightarrow> i64 \<times> bool \<Rightarrow> i64 \<times> bool" where
  "tighter x y = (if takesBudget (fst x) (snd x) (fst y) (snd y) then y else x)"

lemma tighter_assoc:
  assumes "0 \<le> fst x" "0 \<le> fst y" "0 < fst z"
  shows "tighter (tighter x y) z = tighter x (tighter y z)"
  using assms
  by (cases x; cases y; cases z; cases "snd x"; cases "snd y"; cases "snd z")
     (simp_all add: tighter_def takesBudget_def)

lemma binding_append:
  assumes "positive_bids (xs @ ys)"
  shows "binding (xs @ ys) = tighter (binding xs) (binding ys)"
  using assms
proof (induction ys rule: rev_induct)
  case Nil
  then show ?case by (simp add: tighter_def)
next
  case (snoc y ys)
  obtain l h ref where y: "y = (l, h, ref)" by (cases y)
  have pos: "positive_bids xs" "positive_bids ys" "positive_bids (xs @ ys)" "positive_bids (ys @ [(l, h, ref)])"
    "positive_bids ((xs @ ys) @ [(l, h, ref)])" "0 < fst (l, h)"
    using snoc.prems by (simp_all add: positive_bids_def y)
  have "binding (xs @ ys @ [y]) = tighter (binding (xs @ ys)) (l, h)"
    using binding_snoc [OF pos(5)] by (simp add: y tighter_def)
  also have "\<dots> = tighter (binding xs) (tighter (binding ys) (l, h))"
    unfolding snoc.IH [OF pos(3)] by (rule tighter_assoc [OF binding_nonneg binding_nonneg pos(6)]) (rule pos)+
  also have "tighter (binding ys) (l, h) = binding (ys @ [y])"
    using binding_snoc [OF pos(4)] by (simp add: y tighter_def)
  finally show ?case .
qed

section \<open>The merged limits\<close>

definition team_rules :: "string \<Rightarrow> Policy list \<Rightarrow> (Policy \<times> policy_Rule) list" where
  "team_rules team = pairs_of (\<lambda>p. team_only p \<and> ps_Team (p_Subject p) = team)"

definition user_rules :: "string \<Rightarrow> string \<Rightarrow> Policy list \<Rightarrow> (Policy \<times> policy_Rule) list" where
  "user_rules team user = pairs_of (\<lambda>p. ps_User (p_Subject p) \<noteq> [] \<and> matches (p_Subject p) team user)"

lemma gget_mergeTeamLimits:
  "gget (mergeTeamLimits ps) team =
     (let (l, c) = fold merge_team_rule (team_rules team ps) (no_team_limits, False) in if c then Some l else None)"
proof -
  have "(\<lambda>p. team_key p = Some team) = (\<lambda>p. team_only p \<and> ps_Team (p_Subject p) = team)"
    by (auto simp: team_key_def)
  then show ?thesis
    unfolding mergeTeamLimits_def team_rules_def pairs_of_def team_map.merged by metis
qed

lemma gget_mergeUserLimits:
  "gget (mergeUserLimits ps) k =
     (let (u, c) = fold merge_user_rule (pairs_of (\<lambda>p. user_key p = Some k) ps) (no_user_limits, False)
      in if c then Some u else None)"
  unfolding mergeUserLimits_def pairs_of_def by (rule user_map.merged)

lemma no_limits_fields [simp]:
  "tl_BudgetMicrosPerMonth no_team_limits = 0" "\<not> tl_BudgetHard no_team_limits"
  "tl_BudgetMicrosPerDay no_team_limits = 0" "\<not> tl_BudgetDayHard no_team_limits"
  "tl_RPM no_team_limits = 0" "tl_TPM no_team_limits = 0"
  "tl_RoutingBudgetMicrosPerMonth no_team_limits = 0" "tl_RoutingBudgetMicrosPerDay no_team_limits = 0"
  "ul_BudgetMicrosPerMonth no_user_limits = 0" "\<not> ul_BudgetHard no_user_limits"
  "ul_BudgetMicrosPerDay no_user_limits = 0" "\<not> ul_BudgetDayHard no_user_limits"
  by (simp_all add: no_team_limits_def no_user_limits_def)

lemma find_distinct_key: "distinct (map f xs) \<Longrightarrow> x \<in> set xs \<Longrightarrow> find (\<lambda>y. f y = f x) xs = Some x"
  by (induction xs) (auto simp: image_iff)

text \<open>A hard cap always bids for its window: the routing exemption covers soft budgets only.\<close>

lemma hard_cap_bids:
  assumes "policy_wf p" "r \<in> set (p_Rules p)" "r_Budget r = Some b" "pb_HardCap b"
  shows "team_bid (pb_Period b = CalendarDay) (p, r) = Some (pb_LimitMicroUSD b, True, ref_of p r)"
proof -
  have "distinct (map r_Name (p_Rules p))" using assms(1) by (simp add: policy_wf_def)
  then have "find (\<lambda>r'. r_Name r' = r_Name r) (p_Rules p) = Some r"
    using assms(2) by (rule find_distinct_key)
  then have "\<not> IsRoutingOnlyBudget (Some p) (r_Name r)"
    using assms(3,4) by (simp add: IsRoutingOnlyBudget_def)
  moreover have "\<not> pb_Unlimited b"
    using assms by (auto simp: policy_wf_def list_all_iff rule_wf_def budget_wf_def budget_finite_def unlimited_budget_def)
  ultimately show ?thesis using assms(3,4) by simp
qed

lemma hard_bid_binds:
  assumes "(l, True, ref) \<in> set bs"
  shows "snd (binding bs)" "fst (binding bs) \<le> l"
proof -
  have "(l, True, ref) \<in> set (filter (\<lambda>(_, h, _). h) bs)" using assms by simp
  then have "filter (\<lambda>(_, h, _). h) bs \<noteq> []" "l \<in> set (map fst (filter (\<lambda>(_, h, _). h) bs))" by force+
  then show "snd (binding bs)" "fst (binding bs) \<le> l"
    unfolding binding_def least_def Let_def by (simp_all del: set_map set_filter)
qed

lemma narrow_windows:
  "(ul_BudgetMicrosPerMonth (narrow u v), ul_BudgetHard (narrow u v)) =
     tighter (ul_BudgetMicrosPerMonth u, ul_BudgetHard u) (ul_BudgetMicrosPerMonth v, ul_BudgetHard v)"
  "(ul_BudgetMicrosPerDay (narrow u v), ul_BudgetDayHard (narrow u v)) =
     tighter (ul_BudgetMicrosPerDay u, ul_BudgetDayHard u) (ul_BudgetMicrosPerDay v, ul_BudgetDayHard v)"
  by (simp_all add: narrow_def tighter_def case_prod_unfold)

text \<open>The entry of one user key, and the rules that the two keys of a lookup select.\<close>

lemma no_bids: "\<not> list_ex user_contributes xs \<Longrightarrow> List.map_filter (user_bid day) xs = []"
  by (induction xs) (auto split: option.splits)

lemma tighter_unit [simp]: "tighter x (0, h) = x"
  by (simp add: tighter_def)

lemma tighter_binding: "positive_bids bs \<Longrightarrow> tighter (0, False) (binding bs) = binding bs"
  using binding_pos [of bs] by (cases "bs = []") (simp_all add: tighter_def takesBudget_def)

lemma user_entry:
  assumes "list_all policy_wf ps" and xs: "xs = pairs_of (\<lambda>p. user_key p = Some k) ps"
  shows "case gget (mergeUserLimits ps) k of
      None \<Rightarrow> \<not> list_ex user_contributes xs
    | Some u \<Rightarrow> list_ex user_contributes xs
        \<and> (ul_BudgetMicrosPerMonth u, ul_BudgetHard u) = binding (List.map_filter (user_bid False) xs)
        \<and> (ul_BudgetMicrosPerDay u, ul_BudgetDayHard u) = binding (List.map_filter (user_bid True) xs)"
  using user_month_window.fold_binding [OF user_bids_positive [OF assms(1), where P = "\<lambda>p. user_key p = Some k"],
      of "(no_user_limits, False)"]
    user_day_window.fold_binding [OF user_bids_positive [OF assms(1), where P = "\<lambda>p. user_key p = Some k"],
      of "(no_user_limits, False)"]
    user_map.fold_contributed [of xs "(no_user_limits, False)"]
  by (simp add: gget_mergeUserLimits xs case_prod_unfold Let_def)

lemma map_filter_append: "List.map_filter f (xs @ ys) = List.map_filter f xs @ List.map_filter f ys"
  by (simp add: map_filter_def)

lemma set_pairs_of: "set (pairs_of P ps) = {(p, r). p \<in> set ps \<and> P p \<and> r \<in> set (p_Rules p)}"
  by (auto simp: pairs_of_def split: if_splits)

lemma user_rules_split:
  assumes "user \<noteq> []"
  shows "set (user_rules team user ps) =
    set (pairs_of (\<lambda>p. user_key p = Some \<lparr>uk_team = team, uk_user = user\<rparr>) ps
       @ pairs_of (\<lambda>p. user_key p = Some \<lparr>uk_team = [], uk_user = user\<rparr>) ps)"
  using assms by (auto simp: user_rules_def set_pairs_of user_key_def matches_def split: if_splits)

text \<open>The merged limits of a team as a function of the set of its rules.\<close>

definition most_restrictive :: "(Policy \<times> policy_Rule) list \<Rightarrow> TeamLimits \<Rightarrow> bool" where
  "most_restrictive xs l \<longleftrightarrow>
     (tl_BudgetMicrosPerMonth l, tl_BudgetHard l) = binding (List.map_filter (team_bid False) xs)
     \<and> (tl_BudgetMicrosPerDay l, tl_BudgetDayHard l) = binding (List.map_filter (team_bid True) xs)
     \<and> tl_RPM l = smallest (List.map_filter (rate_offer pr_RPM) xs)
     \<and> tl_TPM l = smallest (List.map_filter (rate_offer pr_TPM) xs)
     \<and> tl_RoutingBudgetMicrosPerMonth l = smallest (List.map_filter (routing_offer False) xs)
     \<and> tl_RoutingBudgetMicrosPerDay l = smallest (List.map_filter (routing_offer True) xs)
     \<and> (tl_BudgetMicrosPerMonth l \<noteq> 0 \<longrightarrow>
         (tl_BudgetMicrosPerMonth l, tl_BudgetHard l, tl_BudgetRule l) \<in> set (List.map_filter (team_bid False) xs))
     \<and> (tl_BudgetMicrosPerDay l \<noteq> 0 \<longrightarrow>
         (tl_BudgetMicrosPerDay l, tl_BudgetDayHard l, tl_BudgetDayRule l) \<in> set (List.map_filter (team_bid True) xs))"

lemma fold_most_restrictive:
  assumes "list_all policy_wf ps" and xs: "xs = pairs_of P ps"
  shows "most_restrictive xs (fst (fold merge_team_rule xs (no_team_limits, False)))"
proof -
  let ?s = "(no_team_limits, False)"
  have zero: "tl_BudgetMicrosPerMonth (fst ?s) = 0" "\<not> tl_BudgetHard (fst ?s)"
    "tl_BudgetMicrosPerDay (fst ?s) = 0" "\<not> tl_BudgetDayHard (fst ?s)" "tl_RPM (fst ?s) = 0" "tl_TPM (fst ?s) = 0"
    "tl_RoutingBudgetMicrosPerMonth (fst ?s) = 0" "tl_RoutingBudgetMicrosPerDay (fst ?s) = 0"
    by simp_all
  note bids = team_bids_positive [OF assms(1), where P = P, folded xs]
  note offers = routing_offers_nonneg [OF assms(1), where P = P, folded xs]
  note rates = rate_offers_nonneg [OF assms(1), where P = P, folded xs]
  note month = team_month_window.fold_binding [OF bids zero(1,2)]
  note day = team_day_window.fold_binding [OF bids zero(3,4)]
  have "List.map_filter (team_bid False) xs = [] \<Longrightarrow> tl_BudgetMicrosPerMonth (fst (fold merge_team_rule xs ?s)) = 0"
    and "List.map_filter (team_bid True) xs = [] \<Longrightarrow> tl_BudgetMicrosPerDay (fst (fold merge_team_rule xs ?s)) = 0"
    using month day by simp_all
  then show ?thesis
    using month day team_rpm.fold_smallest [OF rates(1) zero(5)] team_tpm.fold_smallest [OF rates(2) zero(6)]
      team_routing_month.fold_smallest [OF offers zero(7)] team_routing_day.fold_smallest [OF offers zero(8)]
    unfolding most_restrictive_def by blast
qed

lemma team_entry:
  assumes "list_all policy_wf ps"
  shows "case gget (mergeTeamLimits ps) team of
      None \<Rightarrow> \<not> list_ex team_contributes (team_rules team ps)
    | Some l \<Rightarrow> list_ex team_contributes (team_rules team ps) \<and> most_restrictive (team_rules team ps) l"
  using fold_most_restrictive [OF assms, of "team_rules team ps"]
    team_map.fold_contributed [of "team_rules team ps" "(no_team_limits, False)"]
  by (simp add: gget_mergeTeamLimits case_prod_unfold Let_def team_rules_def)

lemma hard_cap_entry:
  assumes "list_all policy_wf ps"
    and p: "p \<in> set ps" "team_only p" and r: "r \<in> set (p_Rules p)" "r_Budget r = Some b" "pb_HardCap b"
  shows "\<exists>l. gget (mergeTeamLimits ps) (ps_Team (p_Subject p)) = Some l
    \<and> (if pb_Period b = CalendarDay then tl_BudgetDayHard l \<and> tl_BudgetMicrosPerDay l \<le> pb_LimitMicroUSD b
       else tl_BudgetHard l \<and> tl_BudgetMicrosPerMonth l \<le> pb_LimitMicroUSD b)"
proof -
  let ?xs = "team_rules (ps_Team (p_Subject p)) ps"
  have x: "(p, r) \<in> set ?xs" using p r(1) by (simp add: team_rules_def set_pairs_of)
  then have "list_ex team_contributes ?xs" using r(2) by (force simp: list_ex_iff)
  with team_entry [OF assms(1), of "ps_Team (p_Subject p)"]
  obtain l where l: "gget (mergeTeamLimits ps) (ps_Team (p_Subject p)) = Some l" "most_restrictive ?xs l"
    by (auto split: option.splits)
  have "policy_wf p" using assms(1) p(1) by (simp add: list_all_iff)
  from hard_cap_bids [OF this r] x
  have "(pb_LimitMicroUSD b, True, ref_of p r) \<in> set (List.map_filter (team_bid (pb_Period b = CalendarDay)) ?xs)"
    by (force simp: map_filter_def)
  from hard_bid_binds [OF this] l show ?thesis
    by (cases "pb_Period b = CalendarDay") (auto simp: most_restrictive_def prod_eq_iff)
qed

section \<open>Properties\<close>

text \<open>
  C18: The limits merged for a team are the most restrictive ones of all its rules, whatever the
  order of the policies: in each calendar window the smallest hard cap, else the smallest soft
  limit, with the name of a rule that set it; the smallest non-zero rate; and, kept apart, the
  smallest routing threshold. A team without budget or rate rules has no entry. In particular a
  hard cap of any policy of the team binds: the merged window is hard and at most that cap.
\<close>

theorem team_limits_most_restrictive:
  assumes "list_all policy_wf ps"
  shows "(case gget (mergeTeamLimits ps) team of
      None \<Rightarrow> \<not> list_ex team_contributes (team_rules team ps)
    | Some l \<Rightarrow> list_ex team_contributes (team_rules team ps) \<and> most_restrictive (team_rules team ps) l)
    \<and> (\<forall>p r b. p \<in> set ps \<and> team_only p \<and> r \<in> set (p_Rules p) \<and> r_Budget r = Some b \<and> pb_HardCap b \<longrightarrow>
        (\<exists>l. gget (mergeTeamLimits ps) (ps_Team (p_Subject p)) = Some l
          \<and> (if pb_Period b = CalendarDay then tl_BudgetDayHard l \<and> tl_BudgetMicrosPerDay l \<le> pb_LimitMicroUSD b
             else tl_BudgetHard l \<and> tl_BudgetMicrosPerMonth l \<le> pb_LimitMicroUSD b)))"
  using team_entry [OF assms, of team] hard_cap_entry [OF assms] by blast

text \<open>
  The budget limits looked up for a user of a team are the most restrictive ones over all
  user-subject policies that match the request, those for the user in this team and those for the
  user in any team together; there is an entry exactly when one of them has a budget rule.
\<close>

theorem user_limits_most_restrictive:
  assumes "list_all policy_wf ps"
  shows "case lookupUserLimits (mergeUserLimits ps) team user of
      None \<Rightarrow> \<not> list_ex user_contributes (user_rules team user ps)
    | Some u \<Rightarrow> list_ex user_contributes (user_rules team user ps)
        \<and> (ul_BudgetMicrosPerMonth u, ul_BudgetHard u)
            = binding (List.map_filter (user_bid False) (user_rules team user ps))
        \<and> (ul_BudgetMicrosPerDay u, ul_BudgetDayHard u)
            = binding (List.map_filter (user_bid True) (user_rules team user ps))"
proof (cases "user = []")
  case True
  then show ?thesis by (auto simp: lookupUserLimits_def user_rules_def set_pairs_of matches_def list_ex_iff)
next
  case False
  let ?xs = "pairs_of (\<lambda>p. user_key p = Some \<lparr>uk_team = team, uk_user = user\<rparr>) ps"
  let ?ys = "pairs_of (\<lambda>p. user_key p = Some \<lparr>uk_team = [], uk_user = user\<rparr>) ps"
  note both = user_rules_split [OF False, of team ps]
  have contributes: "list_ex user_contributes (user_rules team user ps) \<longleftrightarrow>
      list_ex user_contributes ?xs \<or> list_ex user_contributes ?ys"
    using both by (auto simp: list_ex_iff)
  have "binding (List.map_filter (user_bid day) (user_rules team user ps))
      = binding (List.map_filter (user_bid day) ?xs @ List.map_filter (user_bid day) ?ys)" for day
    using both by (intro binding_set_cong) (auto simp: set_map_filter)
  also have "\<dots> day = tighter (binding (List.map_filter (user_bid day) ?xs)) (binding (List.map_filter (user_bid day) ?ys))" for day
    using user_bids_positive [OF assms] by (intro binding_append) (simp add: positive_bids_def)
  finally have binds: "binding (List.map_filter (user_bid day) (user_rules team user ps)) =
      tighter (binding (List.map_filter (user_bid day) ?xs)) (binding (List.map_filter (user_bid day) ?ys))" for day .
  note entries = user_entry [OF assms refl, of "\<lparr>uk_team = team, uk_user = user\<rparr>"]
    user_entry [OF assms refl, of "\<lparr>uk_team = [], uk_user = user\<rparr>"]
  show ?thesis
    using entries False no_bids [of ?xs] no_bids [of ?ys]
      tighter_binding [OF user_bids_positive [OF assms, where P = "\<lambda>p. user_key p = Some \<lparr>uk_team = [], uk_user = user\<rparr>"]]
    unfolding contributes binds
    by (auto simp: lookupUserLimits_def narrow_windows split: option.splits)
qed

definition sample_policy_rule :: "string \<Rightarrow> i64 \<Rightarrow> bool \<Rightarrow> string \<Rightarrow> policy_Rule" where
  "sample_policy_rule name limit hard period =
     (empty_rule name (if hard then FailClosed else FailOpen))\<lparr>r_Budget :=
        Some \<lparr>pb_Unlimited = False, pb_LimitMicroUSD = limit, pb_HardCap = hard, pb_LeaseGrantMicroUSD = 1000,
             pb_LeaseRenewInterval = second, pb_AdminContact = [], pb_Period = period\<rparr>\<rparr>"

definition sample_policy :: "string \<Rightarrow> string \<Rightarrow> string \<Rightarrow> policy_Rule list \<Rightarrow> Policy" where
  "sample_policy name team user rules =
     \<lparr>p_Name = name, p_Generation = 1, p_Subject = \<lparr>ps_Team = team, ps_User = user\<rparr>, p_Rules = rules\<rparr>"

definition sample_policies :: "Policy list" where
  "sample_policies =
     [sample_policy ''a'' ''t'' '''' [sample_policy_rule ''soft'' 100 False CalendarMonth],
      sample_policy ''b'' ''t'' '''' [sample_policy_rule ''hard'' 900 True CalendarMonth,
        sample_policy_rule ''day'' 50 False CalendarDay],
      sample_policy ''c'' '''' ''u'' [sample_policy_rule ''any'' 70 True CalendarMonth],
      sample_policy ''d'' ''t'' ''u'' [sample_policy_rule ''here'' 80 True CalendarMonth]]"

lemma sample_policies_wf: "list_all policy_wf sample_policies"
  by (simp add: sample_policies_def sample_policy_def sample_policy_rule_def policy_wf_def rule_wf_def budget_wf_def
      budget_finite_def kind_defs MinLeaseRenewInterval_def maxPolicyRules_def max_i64_def)

theorem team_limits_most_restrictive_witness:
  "list_all policy_wf sample_policies
   \<and> (\<exists>l. gget (mergeTeamLimits sample_policies) ''t'' = Some l
        \<and> most_restrictive (team_rules ''t'' sample_policies) l \<and> tl_BudgetHard l \<and> tl_BudgetMicrosPerMonth l \<le> 900)"
proof -
  let ?r = "sample_policy_rule ''hard'' 900 True CalendarMonth"
  let ?p = "sample_policies ! 1"
  have "?p \<in> set sample_policies" "team_only ?p" "?r \<in> set (p_Rules ?p)" "ps_Team (p_Subject ?p) = ''t''"
    by (simp_all add: sample_policies_def sample_policy_def team_only_def)
  moreover have "pb_Period (the (r_Budget ?r)) \<noteq> CalendarDay" "pb_HardCap (the (r_Budget ?r))"
    "r_Budget ?r = Some (the (r_Budget ?r))" "pb_LimitMicroUSD (the (r_Budget ?r)) = 900"
    by (simp_all add: sample_policy_rule_def CalendarMonth_def CalendarDay_def)
  ultimately obtain l where "gget (mergeTeamLimits sample_policies) ''t'' = Some l"
    and "tl_BudgetHard l" "tl_BudgetMicrosPerMonth l \<le> 900"
    using team_limits_most_restrictive [OF sample_policies_wf, of "''t''"] by fastforce
  with team_limits_most_restrictive [OF sample_policies_wf, of "''t''"] sample_policies_wf show ?thesis by auto
qed

theorem user_limits_most_restrictive_witness:
  "list_all policy_wf sample_policies
   \<and> (\<exists>u. lookupUserLimits (mergeUserLimits sample_policies) ''t'' ''u'' = Some u
        \<and> (ul_BudgetMicrosPerMonth u, ul_BudgetHard u)
            = binding (List.map_filter (user_bid False) (user_rules ''t'' ''u'' sample_policies))
        \<and> binding (List.map_filter (user_bid False) (user_rules ''t'' ''u'' sample_policies)) = (70, True))"
proof -
  have "list_ex user_contributes (user_rules ''t'' ''u'' sample_policies)"
    and "binding (List.map_filter (user_bid False) (user_rules ''t'' ''u'' sample_policies)) = (70, True)"
    by code_simp+
  with user_limits_most_restrictive [OF sample_policies_wf, of "''t''" "''u''"] sample_policies_wf show ?thesis
    by (auto split: option.splits)
qed

end
