(* ===== verification/Policy_Store.thy ===== *)
theory Policy_Store
  imports Policy_Merge
begin

text \<open>
  The policy store of a data plane (\<open>src/internal/policy/store.go\<close>, \<open>identity.go\<close>, the store half of
  \<open>observability.go\<close>): which policies it accepts, how a distribution from the control plane replaces
  the snapshot, and what the request path reads from it. The snapshot is replaced as a whole, so a
  reader sees the old one or the new one. The topology check and the exporter ceiling are the
  functions installed at start-up (\<open>None\<close> when they are not), returning the text of an error; the
  fingerprint \<open>GenerationOf\<close> (a SHA-256 of the encoded documents) is an argument. Of the identity
  declaration the store reads whether it is required, whether it validates, and for each binding its
  account reference and the canonical reference of its identity. The copies the source makes before
  it hands policies out are the policies themselves here.
\<close>

section \<open>Data\<close>

record identity_Binding =
  ib_AccountRef :: string
  ib_CanonicalRef :: string

record identity_Config =
  ic_Required :: bool
  ic_Valid :: bool
  ic_Bindings :: "identity_Binding list"

datatype identity_error = IdentityConfigInvalid | MappedIdentity | NotCanonicalOrBound

datatype rejection_reason =
    RejIdentity identity_error
  | RejName
  | RejDocument UnsupportedError
  | RejRule reject_reason

record Rejection =
  rj_Policy :: string
  rj_Rule :: string
  rj_Reason :: rejection_reason

record snapshot =
  sn_generation :: string
  sn_policies :: "Policy list"
  sn_rejectedRouting :: "(string, policy_Subject list) gomap"
  sn_files :: "(string, gotime) gomap"
  sn_teams :: "(string, TeamLimits) gomap"
  sn_users :: "(userKey, UserLimits) gomap"
  sn_observability :: bool

record policy_Store =
  st_paths :: "string list"
  st_snap :: "snapshot option"
  st_routedAndPriced :: "(string \<Rightarrow> string option) option"
  st_sharedEnforcement :: bool
  st_identityConfig :: "identity_Config option"
  st_observabilityCeiling :: "(string \<Rightarrow> string \<Rightarrow> string option) option"

record ObservabilityDecision =
  od_Traces :: "TraceExport list"
  od_Audit :: "string list"
  od_Content :: string
  od_ContentConflict :: bool

section \<open>Identity subjects\<close>

definition lower_hex :: "char \<Rightarrow> bool" where
  "lower_hex c \<longleftrightarrow> is_digit c \<or> (CHR ''a'' \<le> c \<and> c \<le> CHR ''f'')"

definition canonical_syntax :: "string \<Rightarrow> bool" where
  "canonical_syntax ref \<longleftrightarrow>
     take 12 ref = ''identity-v1:'' \<and> length ref = 76 \<and> list_all lower_hex (drop 12 ref)"

fun binding_verdict :: "string \<Rightarrow> identity_Binding list \<Rightarrow> identity_error option option" where
  "binding_verdict ref [] = None"
| "binding_verdict ref (b # bs) =
     (if ref = ib_AccountRef b then Some None
      else if ref = ib_CanonicalRef b then Some (Some MappedIdentity)
      else binding_verdict ref bs)"

definition identity_required :: "identity_Config option \<Rightarrow> bool" where
  "identity_required cfg = (case cfg of None \<Rightarrow> False | Some c \<Rightarrow> ic_Required c)"

definition validateIdentitySubject :: "string \<Rightarrow> identity_Config option \<Rightarrow> identity_error option" where
  "validateIdentitySubject ref cfg =
     (if \<not> identity_required cfg \<or> ref = [] then None
      else (case binding_verdict ref (ic_Bindings (the cfg)) of
              Some verdict \<Rightarrow> verdict
            | None \<Rightarrow> if canonical_syntax ref then None else Some NotCanonicalOrBound))"

fun first_error :: "('a \<Rightarrow> 'e option) \<Rightarrow> 'a list \<Rightarrow> 'e option" where
  "first_error f [] = None"
| "first_error f (x # xs) = (case f x of None \<Rightarrow> first_error f xs | Some e \<Rightarrow> Some e)"

definition ValidateIdentitySubjects :: "GovernancePolicy list \<Rightarrow> identity_Config option \<Rightarrow> identity_error option" where
  "ValidateIdentitySubjects docs cfg =
     (if \<not> identity_required cfg then None
      else if \<not> ic_Valid (the cfg) then Some IdentityConfigInvalid
      else first_error (\<lambda>doc. validateIdentitySubject (ws_User (sp_Subject (gp_Spec doc))) cfg) docs)"

definition SetIdentityConfig :: "identity_Config option \<Rightarrow> policy_Store \<Rightarrow> identity_error + policy_Store" where
  "SetIdentityConfig cfg st =
     (if pred_option (\<lambda>c. \<not> ic_Valid c) cfg \<and> cfg \<noteq> None then Inl IdentityConfigInvalid
      else (case first_error (\<lambda>p. validateIdentitySubject (ps_User (p_Subject p)) cfg)
                   (case st_snap st of None \<Rightarrow> [] | Some sn \<Rightarrow> sn_policies sn) of
              Some e \<Rightarrow> Inl e
            | None \<Rightarrow> Inr (st\<lparr>st_identityConfig := cfg\<rparr>)))"

section \<open>Enforceability\<close>

definition observability_pairs :: "Observability \<Rightarrow> (string \<times> string) list" where
  "observability_pairs ob =
     (case ob_Traces ob of None \<Rightarrow> [] | Some t \<Rightarrow> [(te_Exporter t, SignalTraces)])
     @ (if ob_Audit ob \<noteq> [] then [(ob_Audit ob, SignalAudit)] else [])
     @ (if ob_Content ob \<noteq> [] then [(ob_Content ob, SignalContent)] else [])"

definition checkObservabilityCeiling ::
    "Observability \<Rightarrow> (string \<Rightarrow> string \<Rightarrow> string option) \<Rightarrow> enforce_reason option" where
  "checkObservabilityCeiling ob ceil =
     first_error (\<lambda>(e, s). map_option (ExporterRefused s e) (ceil e s)) (observability_pairs ob)"

definition rule_targets :: "policy_Rule \<Rightarrow> string list" where
  "rule_targets r =
     (case r_SensitiveData r of None \<Rightarrow> [] | Some sd \<Rightarrow> sd_InternalModels sd)
     @ (case Option.bind (r_Routing r) ro_Context of
          None \<Rightarrow> []
        | Some c \<Rightarrow> [pc_SimpleModel c, pc_ComplexModel c] @ (if pc_NormalModel c \<noteq> [] then [pc_NormalModel c] else []))"

definition tier_targets :: "policy_Rule \<Rightarrow> string list" where
  "tier_targets r =
     (case Option.bind (r_Routing r) ro_BudgetTiers of
        None \<Rightarrow> []
      | Some bt \<Rightarrow> concat (map (\<lambda>t. map snd (bt_Substitute t)) (bts_Tiers bt)))"

definition strict_tiers :: "policy_Rule \<Rightarrow> bool" where
  "strict_tiers r =
     (case Option.bind (r_Routing r) ro_BudgetTiers of None \<Rightarrow> False | Some bt \<Rightarrow> bts_EnforceTargets bt)"

definition or_else :: "'e option \<Rightarrow> 'e option \<Rightarrow> 'e option" where
  "or_else a b = (case a of None \<Rightarrow> b | Some e \<Rightarrow> Some e)"

definition refuse_if :: "bool \<Rightarrow> 'e \<Rightarrow> 'e option" where
  "refuse_if c e = (if c then Some e else None)"

text \<open>The checks on one rule, in the order of the source; the first that fails is reported.\<close>

definition rule_unenforceable ::
    "Policy \<Rightarrow> (string \<Rightarrow> string option) option \<Rightarrow> (string \<Rightarrow> string \<Rightarrow> string option) option \<Rightarrow> bool
     \<Rightarrow> policy_Rule \<Rightarrow> enforce_reason option" where
  "rule_unenforceable p routedAndPriced ceil shared r =
     (let not_team_only = ps_Team (p_Subject p) = [] \<or> ps_User (p_Subject p) \<noteq> [] in
      or_else (case (r_Observability r, ceil) of
                 (Some ob, Some f) \<Rightarrow> checkObservabilityCeiling ob f | _ \<Rightarrow> None)
     (or_else (refuse_if (r_TokenQuota r \<noteq> None \<and> \<not> shared) TokenQuotaNotShared)
     (or_else (case routedAndPriced of
                 None \<Rightarrow> None
               | Some f \<Rightarrow> first_error (\<lambda>t. map_option (TargetRefused t) (f t)) (rule_targets r))
     (or_else (refuse_if (Option.bind (r_Routing r) ro_Affinity \<noteq> None) AffinityNotEnforceable)
     (or_else (refuse_if (strict_tiers r \<and> not_team_only \<and> \<not> shared) TierNotTeamOnly)
     (or_else (case routedAndPriced of
                 None \<Rightarrow> None
               | Some f \<Rightarrow> first_error (\<lambda>t. map_option (TierTargetRefused t) (f t)) (tier_targets r))
              (refuse_if (r_Rate r \<noteq> None \<and> not_team_only \<and> \<not> shared) RateNotTeamOnly)))))))"

definition checkEnforceable ::
    "Policy \<Rightarrow> (string \<Rightarrow> string option) option \<Rightarrow> (string \<Rightarrow> string \<Rightarrow> string option) option \<Rightarrow> bool
     \<Rightarrow> UnsupportedError option" where
  "checkEnforceable p routedAndPriced ceil shared =
     first_error (\<lambda>r. map_option
        (\<lambda>reason. \<lparr>ue_APIVersion = APIVersion, ue_Kind = ''GovernancePolicy'', ue_Rule = r_Name r,
                   ue_Reason = OfEnforcement reason\<rparr>)
        (rule_unenforceable p routedAndPriced ceil shared r)) (p_Rules p)"

text \<open>The conversion followed by the check, as every path to the snapshot runs them.\<close>

definition admit :: "policy_Store \<Rightarrow> GovernancePolicy \<Rightarrow> Policy converted" where
  "admit st doc =
     rbind (FromV1Alpha1 doc) (\<lambda>p.
       case checkEnforceable p (st_routedAndPriced st) (st_observabilityCeiling st) (st_sharedEnforcement st) of
         None \<Rightarrow> Inr p
       | Some e \<Rightarrow> Inl e)"

definition rule_mandatory :: "policy_Rule \<Rightarrow> bool" where
  "rule_mandatory r \<longleftrightarrow> r_TokenQuota r \<noteq> None \<or> r_SensitiveData r \<noteq> None \<or> strict_tiers r"

definition hasMandatoryRouting :: "Policy \<Rightarrow> bool" where
  "hasMandatoryRouting p \<longleftrightarrow> list_ex rule_mandatory (p_Rules p)"

definition hasObservability :: "Policy list \<Rightarrow> bool" where
  "hasObservability policies \<longleftrightarrow> list_ex (\<lambda>p. list_ex (\<lambda>r. r_Observability r \<noteq> None) (p_Rules p)) policies"

section \<open>Distribution\<close>

definition doc_name :: "GovernancePolicy \<Rightarrow> string" where
  "doc_name doc = om_Name (gp_Metadata doc)"

definition doc_subject :: "GovernancePolicy \<Rightarrow> policy_Subject" where
  "doc_subject doc =
     \<lparr>ps_Team = ws_Team (sp_Subject (gp_Spec doc)), ps_User = ws_User (sp_Subject (gp_Spec doc))\<rparr>"

definition wire_rule_mandatory :: "wire_Rule \<Rightarrow> bool" where
  "wire_rule_mandatory r \<longleftrightarrow>
     w_TokenQuota r \<noteq> None \<or> w_SensitiveData r \<noteq> None
     \<or> (case Option.bind (w_Routing r) wro_BudgetTiers of None \<Rightarrow> False | Some bt \<Rightarrow> wts_EnforceTargets bt)"

definition wire_mandatory :: "GovernancePolicy \<Rightarrow> bool" where
  "wire_mandatory doc \<longleftrightarrow> list_ex wire_rule_mandatory (sp_Rules (gp_Spec doc))"

record apply_state =
  as_accepted :: "Policy list"
  as_rejected :: "Rejection list"
  as_seen :: "string list"
  as_pending :: "(string, policy_Subject list) gomap"

definition add_subject :: "policy_Subject \<Rightarrow> policy_Subject list \<Rightarrow> policy_Subject list" where
  "add_subject sub subs = (if sub \<in> set subs then subs else subs @ [sub])"

definition mandatory_subjects :: "string \<Rightarrow> Policy list \<Rightarrow> policy_Subject list" where
  "mandatory_subjects name ps = map p_Subject (filter (\<lambda>p. p_Name p = name \<and> hasMandatoryRouting p) ps)"

definition snap_policies :: "snapshot option \<Rightarrow> Policy list" where
  "snap_policies sn = (case sn of None \<Rightarrow> [] | Some s \<Rightarrow> sn_policies s)"

definition snap_rejected :: "snapshot option \<Rightarrow> (string, policy_Subject list) gomap" where
  "snap_rejected sn = (case sn of None \<Rightarrow> [] | Some s \<Rightarrow> sn_rejectedRouting s)"

definition rememberRejection ::
    "snapshot option \<Rightarrow> Policy list \<Rightarrow> GovernancePolicy
     \<Rightarrow> (string, policy_Subject list) gomap \<Rightarrow> (string, policy_Subject list) gomap" where
  "rememberRejection previous accepted doc pending =
     (let name = doc_name doc;
          start = (case gget pending name of None \<Rightarrow> [] | Some ss \<Rightarrow> ss);
          subjects = fold add_subject
            ((if wire_mandatory doc then [doc_subject doc] else [])
             @ mandatory_subjects name (snap_policies previous) @ mandatory_subjects name accepted) start
      in if subjects \<noteq> [] then gput name subjects pending else pending)"

text \<open>One document of the loop; \<open>counts\<close> is how often each name occurs in the distribution.\<close>

definition apply_doc ::
    "policy_Store \<Rightarrow> (string \<Rightarrow> nat) \<Rightarrow> GovernancePolicy \<Rightarrow> apply_state \<Rightarrow> apply_state" where
  "apply_doc st counts doc a =
     (let name = doc_name doc in
      if name = [] \<or> name \<in> set (as_seen a) then
        a\<lparr>as_pending := rememberRejection (st_snap st) (as_accepted a) doc (as_pending a),
          as_rejected := as_rejected a @ [\<lparr>rj_Policy = name, rj_Rule = [], rj_Reason = RejName\<rparr>]\<rparr>
      else
        (case admit st doc of
           Inl e \<Rightarrow>
             a\<lparr>as_seen := name # as_seen a,
               as_pending := rememberRejection (st_snap st) (as_accepted a) doc (as_pending a),
               as_rejected := as_rejected a @ [\<lparr>rj_Policy = name, rj_Rule = ue_Rule e, rj_Reason = RejRule (ue_Reason e)\<rparr>]\<rparr>
         | Inr p \<Rightarrow>
             a\<lparr>as_seen := name # as_seen a,
               as_pending := (if counts name = 1 then gdel name (as_pending a) else as_pending a),
               as_accepted := as_accepted a @ [p]\<rparr>))"

definition name_count :: "GovernancePolicy list \<Rightarrow> string \<Rightarrow> nat" where
  "name_count docs name = length (filter (\<lambda>d. doc_name d = name) docs)"

text \<open>The all-or-nothing check of a distribution when identities are required.\<close>

fun required_check :: "policy_Store \<Rightarrow> string list \<Rightarrow> GovernancePolicy list \<Rightarrow> Rejection option" where
  "required_check st seen_names [] = None"
| "required_check st seen_names (doc # docs) =
     (if doc_name doc = [] \<or> doc_name doc \<in> set seen_names
      then Some \<lparr>rj_Policy = doc_name doc, rj_Rule = [], rj_Reason = RejName\<rparr>
      else (case admit st doc of
              Inl e \<Rightarrow> Some \<lparr>rj_Policy = doc_name doc, rj_Rule = [], rj_Reason = RejDocument e\<rparr>
            | Inr _ \<Rightarrow> required_check st (doc_name doc # seen_names) docs))"

definition apply_loop :: "policy_Store \<Rightarrow> GovernancePolicy list \<Rightarrow> apply_state" where
  "apply_loop st docs =
     fold (apply_doc st (name_count docs)) docs
       \<lparr>as_accepted = [], as_rejected = [], as_seen = [], as_pending = snap_rejected (st_snap st)\<rparr>"

definition ApplyWire ::
    "(GovernancePolicy list \<Rightarrow> string) \<Rightarrow> GovernancePolicy list \<Rightarrow> policy_Store \<Rightarrow> policy_Store \<times> Rejection list" where
  "ApplyWire GenerationOf docs st =
     (case ValidateIdentitySubjects docs (st_identityConfig st) of
        Some e \<Rightarrow> (st, [\<lparr>rj_Policy = [], rj_Rule = [], rj_Reason = RejIdentity e\<rparr>])
      | None \<Rightarrow>
          (case (if identity_required (st_identityConfig st) then required_check st [] docs else None) of
             Some r \<Rightarrow> (st, [r])
           | None \<Rightarrow>
               (let a = apply_loop st docs;
                    pending = (if as_rejected a = [] \<and> docs \<noteq> [] then gdel [] (as_pending a) else as_pending a)
                in if identity_required (st_identityConfig st) \<and> as_rejected a \<noteq> [] then (st, as_rejected a)
                   else (st\<lparr>st_snap := Some \<lparr>sn_generation = GenerationOf docs, sn_policies = as_accepted a,
                              sn_rejectedRouting = pending, sn_files = [],
                              sn_teams = mergeTeamLimits (as_accepted a), sn_users = mergeUserLimits (as_accepted a),
                              sn_observability = hasObservability (as_accepted a)\<rparr>\<rparr>, as_rejected a))))"

section \<open>Local files\<close>

datatype reload_error = NoPaths | LoadFailed string | IdentityRefused identity_error | PolicyRefused UnsupportedError
  | NameRequired | NameDuplicate string string

definition claimPolicyName ::
    "(string, string) gomap \<Rightarrow> string \<Rightarrow> string \<Rightarrow> reload_error + (string, string) gomap" where
  "claimPolicyName names name origin =
     (if name = [] then Inl NameRequired
      else (case gget names name of
              Some prev \<Rightarrow> Inl (NameDuplicate name prev)
            | None \<Rightarrow> Inr (gput name origin names)))"

definition checkApplicable :: "policy_Store \<Rightarrow> Policy list \<Rightarrow> reload_error option" where
  "checkApplicable st =
     first_error (\<lambda>p.
       or_else (map_option IdentityRefused (validateIdentitySubject (ps_User (p_Subject p)) (st_identityConfig st)))
               (map_option PolicyRefused
                  (checkEnforceable p (st_routedAndPriced st) (st_observabilityCeiling st) (st_sharedEnforcement st))))"

definition CheckLocal :: "policy_Store \<Rightarrow> Policy list \<Rightarrow> reload_error option" where
  "CheckLocal st ps =
     (case rfold (\<lambda>p names. claimPolicyName names (p_Name p) []) ps [] of
        Inl e \<Rightarrow> Some e
      | Inr _ \<Rightarrow> checkApplicable st ps)"

text \<open>\<open>Reload\<close>, with what the file system gave: the modification times, then the loaded policies.\<close>

definition Reload ::
    "(string, gotime) gomap \<Rightarrow> string + Policy list \<Rightarrow> policy_Store \<Rightarrow> reload_error + policy_Store" where
  "Reload mtimes loaded st =
     (if st_paths st = [] then Inl NoPaths
      else (case loaded of
              Inl e \<Rightarrow> Inl (LoadFailed e)
            | Inr ps \<Rightarrow>
                (case checkApplicable st ps of
                   Some e \<Rightarrow> Inl e
                 | None \<Rightarrow>
                     Inr (st\<lparr>st_snap := Some \<lparr>sn_generation = [], sn_policies = ps, sn_rejectedRouting = [],
                              sn_files = mtimes, sn_teams = mergeTeamLimits ps, sn_users = mergeUserLimits ps,
                              sn_observability = hasObservability ps\<rparr>\<rparr>))))"

section \<open>Lookups\<close>

definition lookup_TeamLimits :: "snapshot \<Rightarrow> string \<Rightarrow> TeamLimits option" where
  "lookup_TeamLimits sn team = gget (sn_teams sn) team"

definition lookup_UserLimits :: "snapshot \<Rightarrow> string \<Rightarrow> string \<Rightarrow> UserLimits option" where
  "lookup_UserLimits sn team user = lookupUserLimits (sn_users sn) team user"

definition allowsModel :: "string list \<Rightarrow> string \<Rightarrow> (string \<Rightarrow> string) option \<Rightarrow> bool" where
  "allowsModel allow model canon \<longleftrightarrow>
     list_ex (\<lambda>a. a = ''*'' \<or> a = model \<or> (case canon of None \<Rightarrow> False | Some f \<Rightarrow> f a = model)) allow"

definition ModelAllowed :: "snapshot \<Rightarrow> string \<Rightarrow> string \<Rightarrow> string \<Rightarrow> (string \<Rightarrow> string) option \<Rightarrow> bool" where
  "ModelAllowed sn team user model canon \<longleftrightarrow>
     list_all (\<lambda>p. matches (p_Subject p) team user \<longrightarrow>
        list_all (\<lambda>r. case r_ModelAccess r of None \<Rightarrow> True | Some m \<Rightarrow> allowsModel (ma_Allow m) model canon) (p_Rules p))
      (sn_policies sn)"

datatype routing_error = ErrRoutingPolicyRejected

definition routing_rules :: "Policy \<Rightarrow> policy_Rule list" where
  "routing_rules p =
     filter (\<lambda>r. r_SensitiveData r \<noteq> None \<or> Option.bind (r_Routing r) ro_Context \<noteq> None) (p_Rules p)"

definition RoutingSnapshot :: "snapshot \<Rightarrow> string \<Rightarrow> string \<Rightarrow> (routing_error + Policy list) \<times> string" where
  "RoutingSnapshot sn team user =
     (if list_ex (\<lambda>(_, subs). list_ex (\<lambda>sub. matches sub team user) subs) (sn_rejectedRouting sn)
      then (Inl ErrRoutingPolicyRejected, sn_generation sn)
      else (Inr (filter (\<lambda>p. p_Rules p \<noteq> [])
                   (map (\<lambda>p. p\<lparr>p_Rules := routing_rules p\<rparr>)
                      (filter (\<lambda>p. matches (p_Subject p) team user) (sn_policies sn)))), sn_generation sn))"

definition MatchingRoutingPolicies :: "snapshot \<Rightarrow> string \<Rightarrow> string \<Rightarrow> routing_error + Policy list" where
  "MatchingRoutingPolicies sn team user = fst (RoutingSnapshot sn team user)"

section \<open>Observability\<close>

record obs_state =
  os_traces :: "(string, i64) gomap"
  os_audit :: "(string, bool) gomap"
  os_content :: string
  os_conflict :: bool

definition gint :: "(string, i64) gomap \<Rightarrow> string \<Rightarrow> i64" where
  "gint m k = (case gget m k of None \<Rightarrow> 0 | Some v \<Rightarrow> v)"

definition merge_traces :: "TraceExport option \<Rightarrow> obs_state \<Rightarrow> obs_state" where
  "merge_traces t s =
     (case t of
        None \<Rightarrow> s
      | Some x \<Rightarrow>
          if te_SamplePercent x > gint (os_traces s) (te_Exporter x)
          then s\<lparr>os_traces := gput (te_Exporter x) (te_SamplePercent x) (os_traces s)\<rparr> else s)"

definition merge_audit :: "string \<Rightarrow> obs_state \<Rightarrow> obs_state" where
  "merge_audit e s = (if e \<noteq> [] then s\<lparr>os_audit := gput e True (os_audit s)\<rparr> else s)"

definition merge_content :: "string \<Rightarrow> obs_state \<Rightarrow> obs_state" where
  "merge_content e s =
     (if e \<noteq> [] then
        s\<lparr>os_conflict := (os_conflict s \<or> (os_content s \<noteq> [] \<and> os_content s \<noteq> e)), os_content := e\<rparr>
      else s)"

definition merge_observability_rule :: "policy_Rule \<Rightarrow> obs_state \<Rightarrow> obs_state" where
  "merge_observability_rule r s =
     (case r_Observability r of
        None \<Rightarrow> s
      | Some ob \<Rightarrow> merge_content (ob_Content ob) (merge_audit (ob_Audit ob) (merge_traces (ob_Traces ob) s)))"

definition MergeObservability :: "Policy list \<Rightarrow> string \<Rightarrow> string \<Rightarrow> ObservabilityDecision" where
  "MergeObservability policies team user =
     (let s = fold merge_observability_rule
                (concat (map p_Rules (filter (\<lambda>p. matches (p_Subject p) team user) policies)))
                \<lparr>os_traces = [], os_audit = [], os_content = [], os_conflict = False\<rparr>
      in \<lparr>od_Traces = map (\<lambda>k. \<lparr>te_Exporter = k, te_SamplePercent = gint (os_traces s) k\<rparr>) (sortedKeys (os_traces s)),
          od_Audit = sortedKeys (os_audit s),
          od_Content = (if os_conflict s then [] else os_content s),
          od_ContentConflict = os_conflict s\<rparr>)"

definition no_observability :: ObservabilityDecision where
  "no_observability = \<lparr>od_Traces = [], od_Audit = [], od_Content = [], od_ContentConflict = False\<rparr>"

text \<open>\<open>Store.Observability\<close>; a nil store or a store without a snapshot is \<open>None\<close>.\<close>

definition lookup_Observability :: "snapshot option \<Rightarrow> string \<Rightarrow> string \<Rightarrow> ObservabilityDecision" where
  "lookup_Observability sn team user =
     (case sn of
        None \<Rightarrow> no_observability
      | Some s \<Rightarrow> if sn_observability s then MergeObservability (sn_policies s) team user else no_observability)"

section \<open>Construction and declarations\<close>

definition NewEmptyStore :: policy_Store where
  "NewEmptyStore =
     \<lparr>st_paths = [],
      st_snap = Some \<lparr>sn_generation = [], sn_policies = [], sn_rejectedRouting = [], sn_files = [], sn_teams = [],
                      sn_users = [], sn_observability = False\<rparr>,
      st_routedAndPriced = None, st_sharedEnforcement = False, st_identityConfig = None,
      st_observabilityCeiling = None\<rparr>"

definition NewStore ::
    "string list \<Rightarrow> (string, gotime) gomap \<Rightarrow> string + Policy list \<Rightarrow> reload_error + policy_Store" where
  "NewStore paths mtimes loaded = Reload mtimes loaded (NewEmptyStore\<lparr>st_paths := paths, st_snap := None\<rparr>)"

definition SetSharedEnforcement :: "bool \<Rightarrow> policy_Store \<Rightarrow> policy_Store" where
  "SetSharedEnforcement enabled st = st\<lparr>st_sharedEnforcement := enabled\<rparr>"

definition SetRoutedAndPriced :: "(string \<Rightarrow> string option) option \<Rightarrow> policy_Store \<Rightarrow> policy_Store" where
  "SetRoutedAndPriced f st = st\<lparr>st_routedAndPriced := f\<rparr>"

definition SetObservabilityCeiling ::
    "(string \<Rightarrow> string \<Rightarrow> string option) option \<Rightarrow> policy_Store \<Rightarrow> policy_Store" where
  "SetObservabilityCeiling f st = st\<lparr>st_observabilityCeiling := f\<rparr>"

text \<open>
  \<open>changed\<close>, on the listing of the watched paths (\<open>None\<close> when it fails) and the modification time
  that \<open>os.Stat\<close> gives for a file.
\<close>

definition snapshot_changed :: "snapshot \<Rightarrow> string list option \<Rightarrow> (string \<Rightarrow> gotime option) \<Rightarrow> bool" where
  "snapshot_changed sn listing stat =
     (case listing of
        None \<Rightarrow> True
      | Some files \<Rightarrow>
          length files \<noteq> length (sn_files sn)
          \<or> list_ex (\<lambda>f. case gget (sn_files sn) f of None \<Rightarrow> True | Some prev \<Rightarrow> stat f \<noteq> Some prev) files)"

end
