(* ===== verification/Policy_Rejection.thy ===== *)
theory Policy_Rejection
  imports Policy_Store
begin

text \<open>
  What happens after a document with a mandatory rule (a token quota, a sensitive-data rule, strict
  budget tiers) is refused: the requests it was meant to govern are denied until a valid document of
  that name arrives.
\<close>

section \<open>The subjects that are remembered\<close>

definition pending_subjects :: "(string, policy_Subject list) gomap \<Rightarrow> string \<Rightarrow> policy_Subject set" where
  "pending_subjects m name = (case gget m name of None \<Rightarrow> {} | Some ss \<Rightarrow> set ss)"

lemma set_add_subject [simp]: "set (fold add_subject new ss) = set new \<union> set ss"
  by (induction new arbitrary: ss) (auto simp: add_subject_def)

lemma pending_rememberRejection:
  "pending_subjects (rememberRejection prev acc doc m) n =
     pending_subjects m n \<union>
     (if n = doc_name doc then
        (if wire_mandatory doc then {doc_subject doc} else {})
        \<union> set (mandatory_subjects n (snap_policies prev)) \<union> set (mandatory_subjects n acc)
      else {})"
proof -
  let ?start = "case gget m (doc_name doc) of None \<Rightarrow> [] | Some ss \<Rightarrow> ss"
  let ?new = "(if wire_mandatory doc then [doc_subject doc] else [])
    @ mandatory_subjects (doc_name doc) (snap_policies prev) @ mandatory_subjects (doc_name doc) acc"
  have eq: "rememberRejection prev acc doc m =
      (if fold add_subject ?new ?start \<noteq> [] then gput (doc_name doc) (fold add_subject ?new ?start) m else m)"
    by (simp add: rememberRejection_def Let_def)
  have s: "set (fold add_subject ?new ?start) = set ?new \<union> pending_subjects m (doc_name doc)"
    unfolding set_add_subject by (simp add: pending_subjects_def split: option.split)
  show ?thesis
  proof (cases "fold add_subject ?new ?start = []")
    case True
    with s have "set ?new = {}" by (metis empty_set sup_eq_bot_iff)
    with True show ?thesis by (auto simp: eq split: if_splits)
  next
    case False
    with s show ?thesis by (auto simp: eq pending_subjects_def gget_gput split: if_splits option.splits)
  qed
qed

lemma pending_gdel: "pending_subjects (gdel k m) n = (if n = k then {} else pending_subjects m n)"
  by (simp add: pending_subjects_def gget_gdel)

lemma RoutingSnapshot_rejected:
  assumes "sub \<in> pending_subjects (sn_rejectedRouting sn) name" "matches sub team user"
  shows "RoutingSnapshot sn team user = (Inl ErrRoutingPolicyRejected, sn_generation sn)"
proof -
  from assms(1) obtain ss where "(name, ss) \<in> set (sn_rejectedRouting sn)" "sub \<in> set ss"
    by (auto simp: pending_subjects_def dest: gget_in_set split: option.splits)
  with assms(2) show ?thesis by (force simp: RoutingSnapshot_def list_ex_iff)
qed

section \<open>Conversion keeps the mandatory rules\<close>

lemma routing_keeps_strict:
  assumes "routingFromV1Alpha1 wr x doc reject = Inr y"
  shows "(case ro_BudgetTiers y of None \<Rightarrow> False | Some bt \<Rightarrow> bts_EnforceTargets bt) =
    (case wro_BudgetTiers x of None \<Rightarrow> False | Some bt \<Rightarrow> wts_EnforceTargets bt)"
  using assms
  by (auto simp: routingFromV1Alpha1_def budgetTiersFromV1Alpha1_def count_true_def Let_def rbind_Inr_iff
      split: option.splits if_splits prod.splits)

lemma converts_mandatory:
  assumes "converts doc reject w r"
  shows "rule_mandatory r = wire_rule_mandatory w"
proof -
  have kinds: "r_TokenQuota r \<noteq> None \<longleftrightarrow> w_TokenQuota w \<noteq> None" "r_SensitiveData r \<noteq> None \<longleftrightarrow> w_SensitiveData w \<noteq> None"
    "r_Routing r \<noteq> None \<longleftrightarrow> w_Routing w \<noteq> None"
    using converts_carries [OF assms] by (simp_all add: carries_rule_def rule_kinds_def wire_kinds_def)
  have "strict_tiers r = (case Option.bind (w_Routing w) wro_BudgetTiers of None \<Rightarrow> False | Some bt \<Rightarrow> wts_EnforceTargets bt)"
  proof (cases "w_Routing w")
    case None
    with kinds(3) show ?thesis by (simp add: strict_tiers_def)
  next
    case (Some x)
    with assms have "w_Observability w = None \<and> w_TokenQuota w = None \<and> w_SensitiveData w = None \<and> w_Budget w = None"
      by (auto simp: converts_def count_true_def wire_kinds_def split: if_splits)
    with assms Some obtain y where "routingFromV1Alpha1 w x doc reject = Inr y" "r_Routing r = Some y"
      by (auto simp: converts_def convert_kind_def Let_def rbind_Inr_iff empty_rule_def)
    with Some routing_keeps_strict show ?thesis by (simp add: strict_tiers_def)
  qed
  with kinds show ?thesis by (simp add: rule_mandatory_def wire_rule_mandatory_def)
qed

lemma converted_mandatory:
  assumes "FromV1Alpha1 doc = Inr p"
  shows "hasMandatoryRouting p \<longleftrightarrow> wire_mandatory doc" "p_Subject p = doc_subject doc" "p_Name p = doc_name doc"
proof -
  note doc = converted_document [OF assms]
  show "hasMandatoryRouting p \<longleftrightarrow> wire_mandatory doc"
    using doc(1) unfolding hasMandatoryRouting_def wire_mandatory_def
    by (induction rule: list_all2_induct) (simp_all add: converts_mandatory)
  show "p_Subject p = doc_subject doc" "p_Name p = doc_name doc"
    using doc by (simp_all add: doc_subject_def doc_name_def)
qed

lemma admit_converted: "admit st doc = Inr p \<Longrightarrow> FromV1Alpha1 doc = Inr p"
  by (auto simp: admit_def rbind_Inr_iff split: option.splits)

section \<open>The loop over a distribution\<close>

definition refused :: "policy_Store \<Rightarrow> string list \<Rightarrow> GovernancePolicy \<Rightarrow> bool" where
  "refused st names doc \<longleftrightarrow> doc_name doc = [] \<or> doc_name doc \<in> set names \<or> isl (admit st doc)"

text \<open>
  A distribution that corrects a name: one document of that name, and it is admitted. A nameless
  document is corrected by a distribution, not empty, that is admitted as a whole.
\<close>

definition corrects :: "policy_Store \<Rightarrow> GovernancePolicy list \<Rightarrow> string \<Rightarrow> bool" where
  "corrects st docs n \<longleftrightarrow>
     (if n = [] then docs \<noteq> [] \<and> distinct (map doc_name docs)
        \<and> list_all (\<lambda>d. doc_name d \<noteq> [] \<and> \<not> isl (admit st d)) docs
      else name_count docs n = 1 \<and> list_ex (\<lambda>d. doc_name d = n \<and> \<not> isl (admit st d)) docs)"

lemma apply_doc_refused:
  assumes "refused st (as_seen a) doc"
  shows "as_pending (apply_doc st c doc a) = rememberRejection (st_snap st) (as_accepted a) doc (as_pending a)"
    and "as_rejected (apply_doc st c doc a) \<noteq> []"
  using assms by (auto simp: apply_doc_def refused_def Let_def split: sum.splits)

lemma apply_doc_accepted:
  assumes "\<not> refused st (as_seen a) doc"
  obtains p where "admit st doc = Inr p" "p \<in> set (as_accepted (apply_doc st c doc a))"
    "doc_name doc \<in> set (as_seen (apply_doc st c doc a))"
    "as_pending (apply_doc st c doc a) =
       (if c (doc_name doc) = 1 then gdel (doc_name doc) (as_pending a) else as_pending a)"
  using assms by (cases "admit st doc") (auto simp: apply_doc_def refused_def Let_def)

lemma apply_doc_mono:
  "set (as_accepted a) \<subseteq> set (as_accepted (apply_doc st c doc a))"
  "set (as_seen a) \<subseteq> set (as_seen (apply_doc st c doc a))"
  "as_rejected a \<noteq> [] \<Longrightarrow> as_rejected (apply_doc st c doc a) \<noteq> []"
  by (auto simp: apply_doc_def Let_def split: sum.splits)

lemma fold_apply_mono:
  "set (as_accepted a) \<subseteq> set (as_accepted (fold (apply_doc st c) docs a))"
  "set (as_seen a) \<subseteq> set (as_seen (fold (apply_doc st c) docs a))"
  "as_rejected a \<noteq> [] \<Longrightarrow> as_rejected (fold (apply_doc st c) docs a) \<noteq> []"
proof (induction docs arbitrary: a)
  case (Cons d docs)
  { case 1 then show ?case using Cons.IH(1) [of "apply_doc st c d a"] apply_doc_mono(1) [of a st c d] by auto }
  { case 2 then show ?case using Cons.IH(2) [of "apply_doc st c d a"] apply_doc_mono(2) [of a st c d] by auto }
  { case 3 then show ?case using Cons.IH(3) [of "apply_doc st c d a"] apply_doc_mono(3) [of a st c d] by auto }
qed simp_all

lemma apply_doc_keeps:
  assumes "sub \<in> pending_subjects (as_pending a) n"
    and "\<not> (doc_name doc = n \<and> n \<noteq> [] \<and> c n = 1 \<and> \<not> isl (admit st doc))"
  shows "sub \<in> pending_subjects (as_pending (apply_doc st c doc a)) n"
proof (cases "refused st (as_seen a) doc")
  case True
  with assms(1) show ?thesis by (simp add: apply_doc_refused pending_rememberRejection)
next
  case False
  obtain p where "admit st doc = Inr p"
    "as_pending (apply_doc st c doc a) =
       (if c (doc_name doc) = 1 then gdel (doc_name doc) (as_pending a) else as_pending a)"
    by (rule apply_doc_accepted [OF False])
  with assms False show ?thesis by (auto simp: pending_gdel refused_def)
qed

lemma fold_apply_keeps:
  assumes "sub \<in> pending_subjects (as_pending a) n"
    and "\<And>doc. doc \<in> set docs \<Longrightarrow> \<not> (doc_name doc = n \<and> n \<noteq> [] \<and> c n = 1 \<and> \<not> isl (admit st doc))"
  shows "sub \<in> pending_subjects (as_pending (fold (apply_doc st c) docs a)) n"
  using assms
proof (induction docs arbitrary: a)
  case (Cons d docs)
  have "sub \<in> pending_subjects (as_pending (apply_doc st c d a)) n"
    by (rule apply_doc_keeps [OF Cons.prems(1)], rule Cons.prems(2), simp)
  then show ?case using Cons.IH [of "apply_doc st c d a"] Cons.prems(2) by simp
qed simp

lemma not_corrects:
  "\<not> corrects st docs n \<Longrightarrow> doc \<in> set docs \<Longrightarrow>
     \<not> (doc_name doc = n \<and> n \<noteq> [] \<and> name_count docs n = 1 \<and> \<not> isl (admit st doc))"
  by (auto simp: corrects_def list_ex_iff split: if_splits)

text \<open>A document of a name that was accepted before is refused and remembers the accepted one.\<close>

lemma duplicate_remembers:
  assumes "p \<in> set (as_accepted a)" "p_Name p = n" "hasMandatoryRouting p" "n \<in> set (as_seen a)"
    and "doc \<in> set docs" "doc_name doc = n" "c n \<noteq> 1"
  shows "p_Subject p \<in> pending_subjects (as_pending (fold (apply_doc st c) docs a)) n"
    and "as_rejected (fold (apply_doc st c) docs a) \<noteq> []"
proof -
  from assms(5) obtain pre post where docs: "docs = pre @ doc # post" by (meson split_list)
  let ?a = "fold (apply_doc st c) pre a"
  have "n \<in> set (as_seen ?a)" "p \<in> set (as_accepted ?a)"
    using assms(1,4) fold_apply_mono(1,2) by blast+
  then have r: "refused st (as_seen ?a) doc" using assms(6) by (simp add: refused_def)
  have "p_Subject p \<in> pending_subjects (as_pending (apply_doc st c doc ?a)) n"
    using \<open>p \<in> set (as_accepted ?a)\<close> assms(2,3,6)
    by (force simp: apply_doc_refused(1) [OF r] pending_rememberRejection mandatory_subjects_def)
  from fold_apply_keeps [OF this] assms(7)
  show "p_Subject p \<in> pending_subjects (as_pending (fold (apply_doc st c) docs a)) n"
    by (simp add: docs)
  from fold_apply_mono(3) [OF apply_doc_refused(2) [OF r]]
  show "as_rejected (fold (apply_doc st c) docs a) \<noteq> []" by (simp add: docs)
qed

lemma fold_apply_seen:
  "doc \<in> set docs \<Longrightarrow> doc_name doc \<noteq> [] \<Longrightarrow> doc_name doc \<in> set (as_seen (fold (apply_doc st c) docs a))"
proof (induction docs arbitrary: a)
  case (Cons d docs)
  show ?case
  proof (cases "doc = d")
    case True
    have "doc_name doc \<in> set (as_seen (apply_doc st c d a))"
      using Cons.prems(2) True by (auto simp: apply_doc_def Let_def split: sum.splits)
    then show ?thesis using fold_apply_mono(2) [of "apply_doc st c d a" st c docs] by auto
  next
    case False
    then show ?thesis using Cons by auto
  qed
qed simp

lemma loop_remembers:
  assumes "doc \<in> set docs" "wire_mandatory doc" "\<not> corrects st docs (doc_name doc)"
  shows "doc_subject doc \<in> pending_subjects (as_pending (apply_loop st docs)) (doc_name doc)
    \<and> as_rejected (apply_loop st docs) \<noteq> []"
proof -
  let ?c = "name_count docs" and ?n = "doc_name doc"
  define a0 where "a0 = \<lparr>as_accepted = [], as_rejected = [], as_seen = [], as_pending = snap_rejected (st_snap st)\<rparr>"
  from assms(1) obtain pre post where docs: "docs = pre @ doc # post" by (meson split_list)
  let ?a = "fold (apply_doc st ?c) pre a0"
  have loop: "apply_loop st docs = fold (apply_doc st ?c) post (apply_doc st ?c doc ?a)"
    unfolding apply_loop_def a0_def [symmetric] by (subst docs) simp
  show ?thesis
  proof (cases "refused st (as_seen ?a) doc")
    case True
    have "doc_subject doc \<in> pending_subjects (as_pending (apply_doc st ?c doc ?a)) ?n"
      using assms(2) by (simp add: apply_doc_refused(1) [OF True] pending_rememberRejection)
    from fold_apply_keeps [OF this] not_corrects [OF assms(3)]
    have "doc_subject doc \<in> pending_subjects (as_pending (apply_loop st docs)) ?n"
      unfolding loop by (simp add: docs)
    then show ?thesis using fold_apply_mono(3) [OF apply_doc_refused(2) [OF True]] unfolding loop by blast
  next
    case False
    then have named: "?n \<noteq> []" and new: "?n \<notin> set (as_seen ?a)" by (simp_all add: refused_def)
    obtain p where p: "admit st doc = Inr p" "p \<in> set (as_accepted (apply_doc st ?c doc ?a))"
      "?n \<in> set (as_seen (apply_doc st ?c doc ?a))"
      by (rule apply_doc_accepted [OF False])
    have "\<not> (\<exists>d \<in> set pre. doc_name d = ?n)" using fold_apply_seen named new by metis
    then have none: "filter (\<lambda>d. doc_name d = ?n) pre = []" by (auto simp: filter_empty_conv)
    have "?c ?n \<noteq> 1" using assms(1,3) named p(1) by (auto simp: corrects_def list_ex_iff)
    then have "filter (\<lambda>d. doc_name d = ?n) post \<noteq> []" using none by (auto simp: name_count_def docs)
    then obtain d where d: "d \<in> set post" "doc_name d = ?n" by (auto simp: filter_empty_conv)
    note conv = converted_mandatory [OF admit_converted [OF p(1)]]
    have "hasMandatoryRouting p" using conv(1) assms(2) by simp
    note again = duplicate_remembers [where c = ?c and st = st, OF p(2) conv(3) this p(3) d \<open>?c ?n \<noteq> 1\<close>]
    show ?thesis using again conv(2) unfolding loop by simp
  qed
qed

text \<open>A distribution without a rejection admits every document under a name of its own.\<close>

lemma no_rejections:
  "as_rejected (fold (apply_doc st c) docs a) = [] \<longleftrightarrow>
     as_rejected a = [] \<and> distinct (map doc_name docs) \<and> doc_name ` set docs \<inter> set (as_seen a) = {}
     \<and> list_all (\<lambda>d. doc_name d \<noteq> [] \<and> \<not> isl (admit st d)) docs"
proof (induction docs arbitrary: a)
  case (Cons d docs)
  have "as_rejected (apply_doc st c d a) = [] \<longleftrightarrow> as_rejected a = [] \<and> \<not> refused st (as_seen a) d"
    and "\<not> refused st (as_seen a) d \<Longrightarrow> as_seen (apply_doc st c d a) = doc_name d # as_seen a"
    by (auto simp: apply_doc_def refused_def Let_def split: sum.splits)
  moreover have "refused st (as_seen a) d \<Longrightarrow>
      \<not> (doc_name ` set (d # docs) \<inter> set (as_seen a) = {} \<and> list_all (\<lambda>d. doc_name d \<noteq> [] \<and> \<not> isl (admit st d)) (d # docs))"
    by (auto simp: refused_def)
  ultimately show ?case
    using Cons.IH [of "apply_doc st c d a"]
    by (cases "refused st (as_seen a) d") (auto simp: refused_def)
qed simp

lemma loop_no_rejections:
  "docs \<noteq> [] \<Longrightarrow> as_rejected (apply_loop st docs) = [] \<longleftrightarrow> corrects st docs []"
  by (auto simp: apply_loop_def no_rejections corrects_def)

lemma fold_apply_other:
  "n \<notin> doc_name ` set docs \<Longrightarrow>
     pending_subjects (as_pending (fold (apply_doc st c) docs a)) n = pending_subjects (as_pending a) n"
proof (induction docs arbitrary: a)
  case (Cons d docs)
  have "pending_subjects (as_pending (apply_doc st c d a)) n = pending_subjects (as_pending a) n"
    using Cons.prems
    by (auto simp: apply_doc_def Let_def pending_rememberRejection pending_gdel split: sum.splits)
  then show ?case using Cons by simp
qed simp

lemma loop_corrects:
  assumes "corrects st docs n" "n \<noteq> []"
  shows "pending_subjects (as_pending (apply_loop st docs)) n = {}"
proof -
  from assms obtain d where d: "d \<in> set docs" "doc_name d = n" "\<not> isl (admit st d)" and one: "name_count docs n = 1"
    by (auto simp: corrects_def list_ex_iff)
  define a0 where "a0 = \<lparr>as_accepted = [], as_rejected = [], as_seen = [], as_pending = snap_rejected (st_snap st)\<rparr>"
  from d(1) obtain pre post where docs: "docs = pre @ d # post" by (meson split_list)
  let ?a = "fold (apply_doc st (name_count docs)) pre a0"
  have others: "n \<notin> doc_name ` set pre" "n \<notin> doc_name ` set post"
    using one d(2) by (auto simp: name_count_def docs filter_empty_conv)
  have seen_names: "set (as_seen (fold (apply_doc st c) ds a)) \<subseteq> set (as_seen a) \<union> doc_name ` set ds" for c ds a
  proof (induction ds arbitrary: a)
    case (Cons e ds)
    have "set (as_seen (apply_doc st c e a)) \<subseteq> insert (doc_name e) (set (as_seen a))"
      by (auto simp: apply_doc_def Let_def split: sum.splits)
    then show ?case using Cons.IH [of "apply_doc st c e a"] by auto
  qed simp
  have "n \<notin> set (as_seen ?a)" using seen_names [of "name_count docs" pre a0] others(1) by (auto simp: a0_def)
  then have ok: "\<not> refused st (as_seen ?a) d" using assms(2) d(2,3) by (simp add: refused_def)
  have "pending_subjects (as_pending (apply_doc st (name_count docs) d ?a)) n = {}"
    by (rule apply_doc_accepted [OF ok, where c = "name_count docs"]) (simp add: one d(2) pending_gdel)
  moreover have "apply_loop st docs = fold (apply_doc st (name_count docs)) post (apply_doc st (name_count docs) d ?a)"
    unfolding apply_loop_def a0_def [symmetric] by (subst docs) simp
  ultimately show ?thesis using fold_apply_other [OF others(2)] by simp
qed

section \<open>Distributions in sequence\<close>

definition distribute ::
    "(GovernancePolicy list \<Rightarrow> string) \<Rightarrow> GovernancePolicy list list \<Rightarrow> policy_Store \<Rightarrow> policy_Store" where
  "distribute GenerationOf dss st = fold (\<lambda>docs st. fst (ApplyWire GenerationOf docs st)) dss st"

lemma ApplyWire_rejected:
  assumes "\<not> identity_required (st_identityConfig st)"
  shows "\<exists>sn. fst (ApplyWire gen docs st) = st\<lparr>st_snap := Some sn\<rparr>
    \<and> sn_rejectedRouting sn =
        (if corrects st docs [] then gdel [] (as_pending (apply_loop st docs)) else as_pending (apply_loop st docs))"
proof -
  have "as_rejected (apply_loop st docs) = [] \<and> docs \<noteq> [] \<longleftrightarrow> corrects st docs []"
    using loop_no_rejections [of docs st] by (auto simp: corrects_def)
  with assms have "fst (ApplyWire gen docs st) = st\<lparr>st_snap := Some \<lparr>sn_generation = gen docs,
      sn_policies = as_accepted (apply_loop st docs),
      sn_rejectedRouting =
        (if corrects st docs [] then gdel [] (as_pending (apply_loop st docs)) else as_pending (apply_loop st docs)),
      sn_files = [], sn_teams = mergeTeamLimits (as_accepted (apply_loop st docs)),
      sn_users = mergeUserLimits (as_accepted (apply_loop st docs)),
      sn_observability = hasObservability (as_accepted (apply_loop st docs))\<rparr>\<rparr>"
    by (simp add: ApplyWire_def ValidateIdentitySubjects_def Let_def)
  then show ?thesis by (rule exI [where P = "\<lambda>sn. _ = _ \<lparr>st_snap := Some sn\<rparr> \<and> _ sn", OF conjI]) simp
qed

lemma admit_snap [simp]: "admit (st\<lparr>st_snap := sn\<rparr>) doc = admit st doc"
  by (simp add: admit_def)

lemma corrects_snap [simp]: "corrects (st\<lparr>st_snap := sn\<rparr>) docs n = corrects st docs n"
  by (simp add: corrects_def)

lemma ApplyWire_keeps:
  assumes "\<not> identity_required (st_identityConfig st)" "\<not> corrects st docs n"
    and "st_snap st = Some sn" "sub \<in> pending_subjects (sn_rejectedRouting sn) n"
  shows "\<exists>sn'. fst (ApplyWire gen docs st) = st\<lparr>st_snap := Some sn'\<rparr> \<and> sub \<in> pending_subjects (sn_rejectedRouting sn') n"
proof -
  have "sub \<in> pending_subjects (as_pending (apply_loop st docs)) n"
    unfolding apply_loop_def
    by (rule fold_apply_keeps [where c = "name_count docs", OF _ not_corrects [OF assms(2)]])
       (simp_all add: assms(3,4) snap_rejected_def)
  with ApplyWire_rejected [OF assms(1), of gen docs] assms(2) show ?thesis
    by (auto simp: pending_gdel split: if_splits)
qed

lemma distribute_keeps:
  assumes "\<not> identity_required (st_identityConfig st)" "list_all (\<lambda>docs. \<not> corrects st docs n) dss"
    and "st_snap st = Some sn" "sub \<in> pending_subjects (sn_rejectedRouting sn) n"
  shows "\<exists>sn'. distribute gen dss st = st\<lparr>st_snap := Some sn'\<rparr> \<and> sub \<in> pending_subjects (sn_rejectedRouting sn') n"
  using assms
proof (induction dss arbitrary: st sn)
  case Nil
  then show ?case by (simp add: distribute_def) (metis policy_Store.surjective policy_Store.update_convs(2))
next
  case (Cons docs dss)
  then obtain sn1 where sn1: "fst (ApplyWire gen docs st) = st\<lparr>st_snap := Some sn1\<rparr>"
    "sub \<in> pending_subjects (sn_rejectedRouting sn1) n"
    using ApplyWire_keeps [of st docs n sn sub gen] by auto
  from Cons.IH [of "st\<lparr>st_snap := Some sn1\<rparr>" sn1] Cons.prems sn1 show ?case by (simp add: distribute_def)
qed

lemma ApplyWire_remembers:
  assumes "\<not> identity_required (st_identityConfig st)" "doc \<in> set docs" "wire_mandatory doc"
    and "\<not> corrects st docs (doc_name doc)"
  shows "\<exists>sn. fst (ApplyWire gen docs st) = st\<lparr>st_snap := Some sn\<rparr>
    \<and> doc_subject doc \<in> pending_subjects (sn_rejectedRouting sn) (doc_name doc)"
proof -
  have "\<not> corrects st docs []"
    using loop_no_rejections [of docs st] loop_remembers [OF assms(2-4)] assms(2) by fastforce
  with ApplyWire_rejected [OF assms(1), of gen docs] loop_remembers [OF assms(2-4)] show ?thesis by auto
qed

text \<open>With required identities a distribution is taken as a whole or not at all.\<close>

lemma required_check_None:
  assumes "required_check st names docs = None"
  shows "distinct (map doc_name docs) \<and> set (map doc_name docs) \<inter> set names = {}
    \<and> list_all (\<lambda>d. doc_name d \<noteq> [] \<and> \<not> isl (admit st d)) docs"
  using assms
proof (induction docs arbitrary: names)
  case (Cons d docs)
  have "required_check st (doc_name d # names) docs = None" "doc_name d \<noteq> []" "doc_name d \<notin> set names" "\<not> isl (admit st d)"
    using Cons.prems by (auto split: if_splits sum.splits)
  with Cons.IH [of "doc_name d # names"] show ?case by auto
qed simp

lemma filter_own_name: "distinct (map f xs) \<Longrightarrow> x \<in> set xs \<Longrightarrow> filter (\<lambda>y. f y = f x) xs = [x]"
proof (induction xs)
  case (Cons a xs)
  have "filter (\<lambda>y. f y = f a) xs = []" using Cons.prems(1) by (auto simp: filter_empty_conv) (metis image_eqI)
  then show ?case using Cons by (cases "x = a") (auto simp: image_iff)
qed simp

lemma required_check_refuses:
  assumes "doc \<in> set docs" "\<not> corrects st docs (doc_name doc)"
  shows "required_check st [] docs \<noteq> None"
proof
  assume "required_check st [] docs = None"
  from required_check_None [OF this]
  have "distinct (map doc_name docs)" "doc_name doc \<noteq> []" "\<not> isl (admit st doc)"
    using assms(1) by (auto simp: list_all_iff)
  then have "corrects st docs (doc_name doc)"
    using assms(1) filter_own_name [of doc_name docs doc] by (auto simp: corrects_def name_count_def list_ex_iff)
  with assms(2) show False ..
qed

lemma ApplyWire_required:
  assumes "identity_required (st_identityConfig st)" "doc \<in> set docs" "\<not> corrects st docs (doc_name doc)"
  shows "fst (ApplyWire GenerationOf docs st) = st \<and> snd (ApplyWire GenerationOf docs st) \<noteq> []"
  using assms(1) required_check_refuses [OF assms(2,3)] by (auto simp: ApplyWire_def split: option.splits)

section \<open>Properties\<close>

text \<open>
  C19: When a distribution carries a document with a mandatory rule and the document is not accepted
  under a name of its own, nothing it was meant to govern is served without it. Where identities are
  not required, every request that the document selects is refused routing from then on, through any
  number of later distributions, whatever else they contain or omit, until one corrects that name;
  the correcting distribution clears what was remembered under it. Where identities are required,
  the whole distribution is refused: the snapshot in force stays as it was and a rejection is
  reported.
\<close>

theorem rejected_mandatory_routing_fails_closed:
  assumes "doc \<in> set docs" "wire_mandatory doc" "\<not> corrects st docs (doc_name doc)"
    and "list_all (\<lambda>ds. \<not> corrects st ds (doc_name doc)) later"
  shows "if identity_required (st_identityConfig st)
    then fst (ApplyWire GenerationOf docs st) = st \<and> snd (ApplyWire GenerationOf docs st) \<noteq> []
    else (\<exists>sn. st_snap (distribute GenerationOf (docs # later) st) = Some sn
      \<and> (\<forall>team user. matches (doc_subject doc) team user \<longrightarrow>
           RoutingSnapshot sn team user = (Inl ErrRoutingPolicyRejected, sn_generation sn)))
    \<and> (\<forall>final. corrects st final (doc_name doc) \<longrightarrow>
      (\<exists>sn. st_snap (distribute GenerationOf (docs # later @ [final]) st) = Some sn
        \<and> pending_subjects (sn_rejectedRouting sn) (doc_name doc) = {}))"
proof (cases "identity_required (st_identityConfig st)")
  case True
  then show ?thesis using ApplyWire_required [OF True assms(1,3)] by simp
next
  case open_mode: False
  obtain sn0 where first: "fst (ApplyWire GenerationOf docs st) = st\<lparr>st_snap := Some sn0\<rparr>"
    "doc_subject doc \<in> pending_subjects (sn_rejectedRouting sn0) (doc_name doc)"
    using ApplyWire_remembers [OF open_mode assms(1-3)] by blast
  with distribute_keeps [of "st\<lparr>st_snap := Some sn0\<rparr>" "doc_name doc" later sn0 "doc_subject doc" GenerationOf] open_mode assms(4)
  obtain sn where later: "distribute GenerationOf (docs # later) st = st\<lparr>st_snap := Some sn\<rparr>"
    "doc_subject doc \<in> pending_subjects (sn_rejectedRouting sn) (doc_name doc)"
    by (auto simp: distribute_def)
  then have "\<exists>sn. st_snap (distribute GenerationOf (docs # later) st) = Some sn
      \<and> (\<forall>team user. matches (doc_subject doc) team user \<longrightarrow>
           RoutingSnapshot sn team user = (Inl ErrRoutingPolicyRejected, sn_generation sn))"
    using RoutingSnapshot_rejected by auto
  moreover have "\<exists>sn. st_snap (distribute GenerationOf (docs # later @ [final]) st) = Some sn
      \<and> pending_subjects (sn_rejectedRouting sn) (doc_name doc) = {}" if final: "corrects st final (doc_name doc)" for final
  proof -
    let ?st = "st\<lparr>st_snap := Some sn\<rparr>"
    have "distribute GenerationOf (docs # later @ [final]) st = fst (ApplyWire GenerationOf final ?st)"
      using later(1) by (simp add: distribute_def)
    with ApplyWire_rejected [of ?st GenerationOf final] open_mode final loop_corrects [of ?st final "doc_name doc"]
    show ?thesis by (cases "doc_name doc = []") (auto simp: pending_gdel)
  qed
  ultimately show ?thesis using open_mode by simp
qed

definition sample_store :: policy_Store where
  "sample_store =
     \<lparr>st_paths = [], st_snap = None, st_routedAndPriced = None, st_sharedEnforcement = False,
      st_identityConfig = None, st_observabilityCeiling = None\<rparr>"

text \<open>A token quota, which only shared governance can enforce, and its replacement by a rate.\<close>

definition sample_quota :: GovernancePolicy where
  "sample_quota = sample_document\<lparr>gp_Spec := \<lparr>sp_Subject = \<lparr>ws_Team = ''t'', ws_User = ''''\<rparr>,
     sp_Rules = [(sample_rule ''quota'' FailClosed)\<lparr>w_TokenQuota :=
       Some \<lparr>wq_LimitTokens = 10, wq_Period = ''CalendarDay''\<rparr>\<rparr>]\<rparr>\<rparr>"

definition sample_correction :: GovernancePolicy where
  "sample_correction = sample_document\<lparr>gp_Spec := \<lparr>sp_Subject = \<lparr>ws_Team = ''t'', ws_User = ''''\<rparr>,
     sp_Rules = [(sample_rule ''rate'' FailOpen)\<lparr>w_Rate :=
       Some \<lparr>wr_Unlimited = False, wr_RPM = 5, wr_TPM = 0\<rparr>\<rparr>]\<rparr>\<rparr>"

lemma sample_verdicts:
  "wire_mandatory sample_quota" "isl (admit sample_store sample_quota)" "\<not> isl (admit sample_store sample_correction)"
  "doc_name sample_quota = ''p''" "doc_name sample_correction = ''p''"
  by code_simp+

theorem rejected_mandatory_routing_fails_closed_witness:
  "(\<exists>sn. st_snap (distribute (\<lambda>_. ''g'') [[sample_quota], [], [sample_quota]] sample_store) = Some sn
      \<and> RoutingSnapshot sn ''t'' ''u'' = (Inl ErrRoutingPolicyRejected, sn_generation sn))
   \<and> (\<exists>sn. st_snap (distribute (\<lambda>_. ''g'') [[sample_quota], [], [sample_quota], [sample_correction]] sample_store) = Some sn
      \<and> pending_subjects (sn_rejectedRouting sn) ''p'' = {})"
proof -
  have open_store: "\<not> identity_required (st_identityConfig sample_store)"
    by (simp add: sample_store_def identity_required_def)
  have quota: "\<not> corrects sample_store [sample_quota] ''p''" "\<not> corrects sample_store [] ''p''"
    and fixed: "corrects sample_store [sample_correction] ''p''"
    using sample_verdicts by (simp_all add: corrects_def name_count_def)
  have sub: "matches (doc_subject sample_quota) ''t'' ''u''"
    by (simp add: matches_def doc_subject_def sample_quota_def)
  have later: "list_all (\<lambda>ds. \<not> corrects sample_store ds (doc_name sample_quota)) [[], [sample_quota]]"
    and first: "sample_quota \<in> set [sample_quota]" "\<not> corrects sample_store [sample_quota] (doc_name sample_quota)"
    using quota sample_verdicts(4) by simp_all
  note closed = rejected_mandatory_routing_fails_closed
    [OF first(1) sample_verdicts(1) first(2) later, where GenerationOf = "\<lambda>_. ''g''",
      unfolded sample_verdicts(4) if_not_P [OF open_store]]
  show ?thesis using conjunct1 [OF closed] conjunct2 [OF closed, rule_format, OF fixed, simplified] sub by blast
qed

end
