(* ===== verification/Lease_Ledger.thy ===== *)
theory Lease_Ledger
  imports Policy_Store Tier
begin

text \<open>
  The lease ledger of the control plane (\<open>src/internal/controlplane/controlplane.go\<close>): the
  accounting of each lease-managed budget rule, the heartbeat that absorbs a data plane's reports
  and renews its leases, and the installation of a document set. The server's mutex makes a
  heartbeat atomic. What the loops over Go maps do to one entry does not depend on the others, so
  they are maps over the entries; the order of the leases and tiers in a response is that of the
  association lists. Authentication, the JSON encoding and the durable authority backend are not
  modelled: the verdict on the machine credential and the presence of a backend are arguments.
\<close>

section \<open>Data\<close>

record ruleKey =
  rk_policy :: string
  rk_rule :: string

record ruleLedger =
  rl_team :: string
  rl_limitMicro :: i64
  rl_grantMicro :: i64
  rl_renew :: duration
  rl_hard :: bool
  rl_period :: string
  rl_routingOnly :: bool
  rl_spent :: "(string, i64) gomap"
  rl_allowance :: "(string, i64) gomap"

record tierRule =
  tr_policy :: string
  tr_rule :: string
  tr_team :: string
  tr_budgetRuleKey :: ruleKey
  tr_tiers :: "policy_BudgetTier list"
  tr_enforceTargets :: bool

record dpInfo =
  dp_APIVersions :: "string list"
  dp_Generation :: string
  dp_LastSeen :: gotime
  dp_Rejections :: "Rejection list"

record ConsumptionReport =
  cr_Policy :: string
  cr_Rule :: string
  cr_Team :: string
  cr_SpentMicroUSD :: i64
  cr_Period :: string

record SyncRequest =
  sq_IdentityFingerprint :: string
  sq_Dataplane :: string
  sq_APIVersions :: "string list"
  sq_Generation :: string
  sq_Rejections :: "Rejection list"
  sq_Reports :: "ConsumptionReport list"
  sq_HasAuthority :: bool

record LeaseGrant =
  lg_Policy :: string
  lg_Rule :: string
  lg_Team :: string
  lg_AllowanceMicroUSD :: i64
  lg_ExpiresAt :: gotime
  lg_HardCap :: bool
  lg_Period :: string

record SyncResponse =
  sr_IdentityFingerprint :: string
  sr_IdentityPoliciesComplete :: bool
  sr_Generation :: string
  sr_Policies :: "GovernancePolicy list"
  sr_Leases :: "LeaseGrant list"
  sr_ActiveTiers :: "ActiveTier list"
  sr_SyncIntervalSeconds :: int

record cp_Server =
  cp_identityConfig :: "identity_Config option"
  cp_wire :: "GovernancePolicy list"
  cp_generation :: string
  cp_interval :: int
  cp_ledger :: "(ruleKey, ruleLedger) gomap"
  cp_tiers :: "(ruleKey, tierRule) gomap"
  cp_tierLatch :: Latch
  cp_dataplanes :: "(string, dpInfo) gomap"
  cp_files :: "(string, gotime) gomap"

definition staleAfter :: duration where "staleAfter = 600 * second"
definition pruneAfter :: duration where "pruneAfter = 24 * hour"
definition maxRejections :: nat where "maxRejections = 100"
definition DefaultPolicySyncInterval :: duration where "DefaultPolicySyncInterval = 60 * second"

section \<open>Accounting\<close>

definition addAccounting :: "i64 \<Rightarrow> i64 \<Rightarrow> i64" where
  "addAccounting a b = (if a < 0 \<or> b < 0 \<or> a > max_i64 - b then max_i64 else a + b)"

text \<open>Whether the lease of a data plane may still be valid: three renewals without a heartbeat end it.\<close>

definition lease_lapsed :: "gotime \<Rightarrow> (string, dpInfo) gomap \<Rightarrow> ruleLedger \<Rightarrow> string \<Rightarrow> bool" where
  "lease_lapsed now dps l d =
     (case gget dps d of
        None \<Rightarrow> True
      | Some dp \<Rightarrow> time_sub now (dp_LastSeen dp) > wrap64 (3 * rl_renew l))"

definition totals :: "gotime \<Rightarrow> (string, dpInfo) gomap \<Rightarrow> string \<Rightarrow> ruleLedger \<Rightarrow> i64 \<times> i64" where
  "totals now dps exclude l =
     (fold (\<lambda>(_, sp) acc. addAccounting acc sp) (rl_spent l) 0,
      fold (\<lambda>(d, al) acc.
              if d = exclude \<or> lease_lapsed now dps l d then acc
              else let extra = wrap64 (al - gint (rl_spent l) d)
                   in if extra > 0 then addAccounting acc extra else acc) (rl_allowance l) 0)"

definition remaining_budget :: "i64 \<Rightarrow> i64 \<Rightarrow> i64 \<Rightarrow> i64" where
  "remaining_budget limit globalSpent outstanding =
     (if globalSpent < limit \<and> outstanding < wrap64 (limit - globalSpent)
      then wrap64 (wrap64 (limit - globalSpent) - outstanding) else 0)"

definition lease_allowance :: "gotime \<Rightarrow> (string, dpInfo) gomap \<Rightarrow> string \<Rightarrow> ruleLedger \<Rightarrow> i64" where
  "lease_allowance now dps dataplane l =
     (case totals now dps dataplane l of
        (globalSpent, outstanding) \<Rightarrow>
          let remaining = remaining_budget (rl_limitMicro l) globalSpent outstanding;
              add = (if rl_grantMicro l > remaining then remaining else rl_grantMicro l)
          in wrap64 (gint (rl_spent l) dataplane + add))"

section \<open>The heartbeat\<close>

definition keep_last :: "nat \<Rightarrow> 'a list \<Rightarrow> 'a list" where
  "keep_last n xs = drop (length xs - n) xs"

definition register_dataplane :: "gotime \<Rightarrow> SyncRequest \<Rightarrow> (string, dpInfo) gomap \<Rightarrow> (string, dpInfo) gomap" where
  "register_dataplane now req dps =
     gput (sq_Dataplane req)
       \<lparr>dp_APIVersions = sq_APIVersions req, dp_Generation = sq_Generation req, dp_LastSeen = now,
        dp_Rejections = keep_last maxRejections
          ((case gget dps (sq_Dataplane req) of None \<Rightarrow> [] | Some dp \<Rightarrow> dp_Rejections dp) @ sq_Rejections req)\<rparr> dps"

definition report_key :: "ConsumptionReport \<Rightarrow> ruleKey" where
  "report_key rep = \<lparr>rk_policy = cr_Policy rep, rk_rule = cr_Rule rep\<rparr>"

definition absorb_row :: "string \<Rightarrow> ConsumptionReport \<Rightarrow> ruleLedger \<Rightarrow> ruleLedger" where
  "absorb_row dataplane rep l =
     (if (if cr_Period rep = [] then CalendarMonth else cr_Period rep) \<noteq> rl_period l then l
      else l\<lparr>rl_allowance :=
               (if cr_SpentMicroUSD rep < gint (rl_spent l) dataplane then gput dataplane 0 (rl_allowance l)
                else rl_allowance l),
             rl_spent := gput dataplane (cr_SpentMicroUSD rep) (rl_spent l)\<rparr>)"

definition absorb_report ::
    "string \<Rightarrow> ConsumptionReport \<Rightarrow> (ruleKey, ruleLedger) gomap \<Rightarrow> (ruleKey, ruleLedger) gomap" where
  "absorb_report dataplane rep ledger =
     (case gget ledger (report_key rep) of
        None \<Rightarrow> ledger
      | Some l \<Rightarrow> gput (report_key rep) (absorb_row dataplane rep l) ledger)"

definition forgotten :: "gotime \<Rightarrow> (string, dpInfo) gomap \<Rightarrow> string \<Rightarrow> bool" where
  "forgotten now dps d =
     (case gget dps d of None \<Rightarrow> False | Some dp \<Rightarrow> time_sub now (dp_LastSeen dp) > pruneAfter)"

definition prune_row :: "gotime \<Rightarrow> (string, dpInfo) gomap \<Rightarrow> ruleLedger \<Rightarrow> ruleLedger" where
  "prune_row now dps l =
     l\<lparr>rl_spent := gfilter (\<lambda>d _. \<not> forgotten now dps d) (rl_spent l),
       rl_allowance := gfilter (\<lambda>d _. \<not> forgotten now dps d) (rl_allowance l)\<rparr>"

definition grant_row :: "gotime \<Rightarrow> (string, dpInfo) gomap \<Rightarrow> string \<Rightarrow> ruleLedger \<Rightarrow> ruleLedger" where
  "grant_row now dps dataplane l =
     (if rl_routingOnly l then l
      else l\<lparr>rl_allowance := gput dataplane (lease_allowance now dps dataplane l) (rl_allowance l)\<rparr>)"

definition lease_of :: "gotime \<Rightarrow> string \<Rightarrow> ruleKey \<Rightarrow> ruleLedger \<Rightarrow> LeaseGrant" where
  "lease_of now dataplane k l =
     \<lparr>lg_Policy = rk_policy k, lg_Rule = rk_rule k, lg_Team = rl_team l,
      lg_AllowanceMicroUSD = gint (rl_allowance l) dataplane, lg_ExpiresAt = now + wrap64 (3 * rl_renew l),
      lg_HardCap = rl_hard l, lg_Period = rl_period l\<rparr>"

definition granted_leases :: "gotime \<Rightarrow> string \<Rightarrow> (ruleKey, ruleLedger) gomap \<Rightarrow> LeaseGrant list" where
  "granted_leases now dataplane ledger =
     map (\<lambda>(k, l). lease_of now dataplane k l) (filter (\<lambda>(_, l). \<not> rl_routingOnly l) ledger)"

definition period_of :: "string \<Rightarrow> BudgetPeriod" where
  "period_of p = (if p = CalendarDay then PeriodCalendarDay else if p = [] then PeriodUnset else PeriodCalendarMonth)"

text \<open>The judgement of one tier rule; \<open>None\<close> would be the panic of \<open>bits.Div64\<close>.\<close>

definition judge_tier ::
    "gotime \<Rightarrow> (string, dpInfo) gomap \<Rightarrow> (ruleKey, ruleLedger) gomap \<Rightarrow> ruleKey \<times> tierRule
     \<Rightarrow> (Latch \<times> ActiveTier list) \<Rightarrow> (Latch \<times> ActiveTier list) option" where
  "judge_tier now dps ledger kt s =
     (case kt of (k, tr) \<Rightarrow>
      case s of (latch, active) \<Rightarrow>
      (case gget ledger (tr_budgetRuleKey tr) of
         None \<Rightarrow> Some (latch, active)
       | Some l \<Rightarrow>
           (case totals now dps [] l of
              (spent, outstanding) \<Rightarrow>
                (case UtilizedPercent spent outstanding (rl_limitMicro l) of
                   None \<Rightarrow> None
                 | Some percent \<Rightarrow>
                     (case latch_Evaluate (rk_policy k @ ''/'' @ rk_rule k)
                             (WindowKeyForPeriod UTC now (period_of (rl_period l)))
                             (map bt_ThresholdPercent (tr_tiers tr)) percent latch of
                        (idx, latch') \<Rightarrow>
                          if idx < 0 then Some (latch', active)
                          else let t = tr_tiers tr ! nat idx
                               in Some (latch', active @
                                    [\<lparr>at_Policy = tr_policy tr, at_Rule = tr_rule tr,
                                      at_BudgetRef = rk_rule (tr_budgetRuleKey tr), at_Team = tr_team tr,
                                      at_ThresholdPercent = bt_ThresholdPercent t, at_Substitute = bt_Substitute t,
                                      at_EnforceTargets = tr_enforceTargets tr, at_User = []\<rparr>]))))))"

fun judge_tiers ::
    "gotime \<Rightarrow> (string, dpInfo) gomap \<Rightarrow> (ruleKey, ruleLedger) gomap \<Rightarrow> (ruleKey \<times> tierRule) list
     \<Rightarrow> (Latch \<times> ActiveTier list) \<Rightarrow> (Latch \<times> ActiveTier list) option" where
  "judge_tiers now dps ledger [] s = Some s"
| "judge_tiers now dps ledger (kt # kts) s =
     (case judge_tier now dps ledger kt s of None \<Rightarrow> None | Some s' \<Rightarrow> judge_tiers now dps ledger kts s')"

text \<open>The ledger and the data planes after the reports, the pruning and the grants of one heartbeat.\<close>

definition beat_dataplanes :: "gotime \<Rightarrow> SyncRequest \<Rightarrow> (string, dpInfo) gomap \<Rightarrow> (string, dpInfo) gomap" where
  "beat_dataplanes now req dps =
     (let dps1 = register_dataplane now req dps in gfilter (\<lambda>d _. \<not> forgotten now dps1 d) dps1)"

definition beat_ledger ::
    "gotime \<Rightarrow> SyncRequest \<Rightarrow> (string, dpInfo) gomap \<Rightarrow> (ruleKey, ruleLedger) gomap \<Rightarrow> (ruleKey, ruleLedger) gomap" where
  "beat_ledger now req dps ledger =
     (let dps1 = register_dataplane now req dps;
          absorbed = fold (absorb_report (sq_Dataplane req)) (sq_Reports req) ledger
      in gmapv (\<lambda>_ l. grant_row now (beat_dataplanes now req dps) (sq_Dataplane req) (prune_row now dps1 l)) absorbed)"

definition heartbeat :: "string \<Rightarrow> gotime \<Rightarrow> SyncRequest \<Rightarrow> cp_Server \<Rightarrow> (cp_Server \<times> SyncResponse) option" where
  "heartbeat fingerprint now req s =
     (let dps = beat_dataplanes now req (cp_dataplanes s);
          ledger = beat_ledger now req (cp_dataplanes s) (cp_ledger s);
          stale = sq_Generation req \<noteq> cp_generation s
      in case judge_tiers now dps ledger (cp_tiers s) (cp_tierLatch s, []) of
           None \<Rightarrow> None
         | Some (latch, active) \<Rightarrow>
             Some (s\<lparr>cp_dataplanes := dps, cp_ledger := ledger, cp_tierLatch := latch\<rparr>,
                   \<lparr>sr_IdentityFingerprint = fingerprint,
                    sr_IdentityPoliciesComplete = (stale \<and> fingerprint \<noteq> []),
                    sr_Generation = cp_generation s, sr_Policies = (if stale then cp_wire s else []),
                    sr_Leases = granted_leases now (sq_Dataplane req) ledger, sr_ActiveTiers = active,
                    sr_SyncIntervalSeconds = cp_interval s\<rparr>))"

datatype sync_result =
    SyncOK SyncResponse
  | BadSyncRequest
  | DataplaneRequired
  | MachineAuthRequired
  | IdentityMismatch
  | ToAuthority
  | AuthorityUnsupported
  | NegativeSpend

text \<open>
  \<open>handleSync\<close>: the request (\<open>None\<close> when its body does not decode), the fingerprint of the identity
  declaration (empty when none is required), whether the caller presented the machine credential,
  and whether a durable authority is installed. The outer \<open>None\<close> is a panic.
\<close>

definition handleSync ::
    "string \<Rightarrow> bool \<Rightarrow> bool \<Rightarrow> gotime \<Rightarrow> SyncRequest option \<Rightarrow> cp_Server \<Rightarrow> (cp_Server \<times> sync_result) option" where
  "handleSync fingerprint machine authority now body s =
     (case body of
        None \<Rightarrow> Some (s, BadSyncRequest)
      | Some req \<Rightarrow>
          if sq_Dataplane req = [] then Some (s, DataplaneRequired)
          else if fingerprint \<noteq> [] \<and> \<not> machine then Some (s, MachineAuthRequired)
          else if fingerprint \<noteq> sq_IdentityFingerprint req then Some (s, IdentityMismatch)
          else if authority then Some (s, ToAuthority)
          else if sq_HasAuthority req then Some (s, AuthorityUnsupported)
          else if list_ex (\<lambda>rep. cr_SpentMicroUSD rep < 0) (sq_Reports req) then Some (s, NegativeSpend)
          else map_option (\<lambda>(s', resp). (s', SyncOK resp)) (heartbeat fingerprint now req s))"

definition handleDataplanes :: "gotime \<Rightarrow> cp_Server \<Rightarrow> (string, dpInfo) gomap" where
  "handleDataplanes now s = gfilter (\<lambda>_ dp. time_sub now (dp_LastSeen dp) \<le> staleAfter) (cp_dataplanes s)"

section \<open>Installing a document set\<close>

record install_state =
  in_ledger :: "(ruleKey, ruleLedger) gomap"
  in_tiers :: "(ruleKey, tierRule) gomap"
  in_minRenew :: duration

definition rule_key :: "Policy \<Rightarrow> string \<Rightarrow> ruleKey" where
  "rule_key p rule = \<lparr>rk_policy = p_Name p, rk_rule = rule\<rparr>"

definition install_tier :: "Policy \<Rightarrow> policy_Rule \<Rightarrow> (ruleKey, tierRule) gomap \<Rightarrow> (ruleKey, tierRule) gomap" where
  "install_tier p r tiers =
     (case Option.bind (r_Routing r) ro_BudgetTiers of
        None \<Rightarrow> tiers
      | Some bt \<Rightarrow>
          gput (rule_key p (r_Name r))
            \<lparr>tr_policy = p_Name p, tr_rule = r_Name r, tr_team = ps_Team (p_Subject p),
             tr_budgetRuleKey = rule_key p (bts_BudgetRef bt), tr_tiers = bts_Tiers bt,
             tr_enforceTargets = bts_EnforceTargets bt\<rparr> tiers)"

definition fresh_row :: "Policy \<Rightarrow> policy_Rule \<Rightarrow> policy_Budget \<Rightarrow> ruleLedger" where
  "fresh_row p r b =
     \<lparr>rl_team = ps_Team (p_Subject p), rl_limitMicro = pb_LimitMicroUSD b, rl_grantMicro = pb_LeaseGrantMicroUSD b,
      rl_renew = pb_LeaseRenewInterval b, rl_hard = pb_HardCap b, rl_period = pb_Period b,
      rl_routingOnly = IsRoutingOnlyBudget (Some p) (r_Name r), rl_spent = [], rl_allowance = []\<rparr>"

text \<open>Spend and allowance are carried over for a rule whose period did not change.\<close>

definition carry_row :: "ruleLedger option \<Rightarrow> ruleLedger \<Rightarrow> ruleLedger" where
  "carry_row prev l =
     (case prev of
        None \<Rightarrow> l
      | Some old \<Rightarrow>
          if rl_period old = rl_period l
          then l\<lparr>rl_spent := rl_spent old, rl_allowance := (if rl_routingOnly l then rl_allowance l else rl_allowance old)\<rparr>
          else l)"

definition install_rule :: "(ruleKey, ruleLedger) gomap \<Rightarrow> Policy \<Rightarrow> policy_Rule \<Rightarrow> install_state \<Rightarrow> install_state" where
  "install_rule old p r s =
     (let s1 = s\<lparr>in_tiers := install_tier p r (in_tiers s)\<rparr> in
      case r_Budget r of
        None \<Rightarrow> s1
      | Some b \<Rightarrow>
          if ps_Team (p_Subject p) = [] \<or> ps_User (p_Subject p) \<noteq> [] \<or> pb_Unlimited b then s1
          else
            let k = rule_key p (r_Name r)
            in s1\<lparr>in_ledger := gput k (carry_row (gget old k) (fresh_row p r b)) (in_ledger s1),
                  in_minRenew :=
                    (if in_minRenew s1 = 0 \<or> pb_LeaseRenewInterval b < in_minRenew s1 then pb_LeaseRenewInterval b
                     else in_minRenew s1)\<rparr>)"

datatype apply_error = ApplyIdentity identity_error | ApplyDocument UnsupportedError

definition install_doc ::
    "(ruleKey, ruleLedger) gomap \<Rightarrow> GovernancePolicy \<Rightarrow> install_state \<Rightarrow> apply_error + install_state" where
  "install_doc old doc s =
     (case FromV1Alpha1 doc of
        Inl e \<Rightarrow> Inl (ApplyDocument e)
      | Inr p \<Rightarrow> Inr (fold (install_rule old p) (p_Rules p) s))"

definition sync_interval :: "duration \<Rightarrow> int" where
  "sync_interval minRenew =
     (let interval = (if minRenew > 0 then minRenew div second else DefaultPolicySyncInterval div second)
      in if interval < 1 then 1 else interval)"

text \<open>The latch of a removed tier rule, or of one whose budget became routing-only, is forgotten.\<close>

definition unlatch ::
    "(ruleKey, ruleLedger) gomap \<Rightarrow> (ruleKey, ruleLedger) gomap \<Rightarrow> (ruleKey, tierRule) gomap
     \<Rightarrow> ruleKey \<times> tierRule \<Rightarrow> Latch \<Rightarrow> Latch" where
  "unlatch old new tiers kt latch =
     (let k = fst kt; forget = Forget (rk_policy k @ ''/'' @ rk_rule k) latch in
      case gget tiers k of
        None \<Rightarrow> forget
      | Some tr \<Rightarrow>
          (case (gget old (tr_budgetRuleKey tr), gget new (tr_budgetRuleKey tr)) of
             (Some before, Some after) \<Rightarrow> if \<not> rl_routingOnly before \<and> rl_routingOnly after then forget else latch
           | _ \<Rightarrow> latch))"

definition cp_applyWire ::
    "(GovernancePolicy list \<Rightarrow> string) \<Rightarrow> GovernancePolicy list \<Rightarrow> (string, gotime) gomap \<Rightarrow> cp_Server
     \<Rightarrow> apply_error + cp_Server" where
  "cp_applyWire GenerationOf wire mtimes s =
     (case ValidateIdentitySubjects wire (cp_identityConfig s) of
        Some e \<Rightarrow> Inl (ApplyIdentity e)
      | None \<Rightarrow>
          rbind (rfold (install_doc (cp_ledger s)) wire \<lparr>in_ledger = [], in_tiers = [], in_minRenew = 0\<rparr>) (\<lambda>st.
            Inr (s\<lparr>cp_wire := wire, cp_generation := GenerationOf wire, cp_ledger := in_ledger st,
                   cp_tiers := in_tiers st, cp_interval := sync_interval (in_minRenew st), cp_files := mtimes,
                   cp_tierLatch := fold (unlatch (cp_ledger s) (in_ledger st) (in_tiers st)) (cp_tiers s) (cp_tierLatch s)\<rparr>)))"

definition new_server :: cp_Server where
  "new_server =
     \<lparr>cp_identityConfig = None, cp_wire = [], cp_generation = [], cp_interval = 0, cp_ledger = [], cp_tiers = [],
      cp_tierLatch = NewLatch, cp_dataplanes = [], cp_files = []\<rparr>"

text \<open>\<open>NewServer\<close> on the documents and modification times that the paths gave.\<close>

definition NewServer ::
    "(GovernancePolicy list \<Rightarrow> string) \<Rightarrow> GovernancePolicy list \<Rightarrow> (string, gotime) gomap \<Rightarrow> apply_error + cp_Server" where
  "NewServer GenerationOf wire mtimes = cp_applyWire GenerationOf wire mtimes new_server"

definition SetIdentityConfig_cp :: "identity_Config option \<Rightarrow> cp_Server \<Rightarrow> identity_error + cp_Server" where
  "SetIdentityConfig_cp cfg s =
     (if cfg \<noteq> None \<and> \<not> ic_Valid (the cfg) then Inl IdentityConfigInvalid
      else (case ValidateIdentitySubjects (cp_wire s) cfg of
              Some e \<Rightarrow> Inl e
            | None \<Rightarrow> Inr (s\<lparr>cp_identityConfig := cfg\<rparr>)))"

end
