(* ===== verification/Lease_Bound.thy ===== *)
theory Lease_Bound
  imports Lease_Ledger
begin

text \<open>
  The leases that the control plane hands out never promise more than a budget: while data planes
  spend only under a valid lease and within its allowance, the spend they report together with what
  the leases in their last answers still let them spend stays within the limit. The proof goes
  through the control plane's own account of what is outstanding (\<open>open_sum\<close>); the properties are
  stated over the leases that were answered, with the expiry that they carry.
\<close>

section \<open>Exact totals\<close>

definition spent_sum :: "ruleLedger \<Rightarrow> int" where
  "spent_sum l = gsum (\<lambda>_ v. v) (rl_spent l)"

definition open_allowance :: "gotime \<Rightarrow> (string, dpInfo) gomap \<Rightarrow> ruleLedger \<Rightarrow> string \<Rightarrow> i64 \<Rightarrow> int" where
  "open_allowance now dps l d al =
     (if lease_lapsed now dps l d then 0 else max 0 (al - gint (rl_spent l) d))"

definition open_sum :: "gotime \<Rightarrow> (string, dpInfo) gomap \<Rightarrow> ruleLedger \<Rightarrow> int" where
  "open_sum now dps l = gsum (open_allowance now dps l) (rl_allowance l)"

definition row_ok :: "ruleLedger \<Rightarrow> bool" where
  "row_ok l \<longleftrightarrow>
     gwf (rl_spent l) \<and> gwf (rl_allowance l)
     \<and> (\<forall>d v. gget (rl_spent l) d = Some v \<longrightarrow> 0 \<le> v \<and> v \<le> max_i64)
     \<and> (\<forall>d v. gget (rl_allowance l) d = Some v \<longrightarrow> 0 \<le> v \<and> v \<le> max_i64)
     \<and> 0 < rl_limitMicro l \<and> rl_limitMicro l \<le> max_i64 \<and> 0 \<le> rl_grantMicro l
     \<and> 0 \<le> rl_renew l \<and> 3 * rl_renew l \<le> pruneAfter"

definition within_limit :: "gotime \<Rightarrow> (string, dpInfo) gomap \<Rightarrow> ruleLedger \<Rightarrow> bool" where
  "within_limit now dps l \<longleftrightarrow> spent_sum l + open_sum now dps l \<le> rl_limitMicro l"

lemma addAccounting_nonneg: "0 \<le> a \<Longrightarrow> 0 \<le> b \<Longrightarrow> addAccounting a b = min max_i64 (a + b)"
  by (auto simp: addAccounting_def)

text \<open>A loop of saturating additions adds up, saturated once.\<close>

lemma fold_saturates:
  assumes "\<And>x acc. x \<in> set xs \<Longrightarrow> 0 \<le> acc \<Longrightarrow> acc \<le> max_i64 \<Longrightarrow> step x acc = min max_i64 (acc + g x)"
    and "\<And>x. x \<in> set xs \<Longrightarrow> 0 \<le> g x" "0 \<le> a" "a \<le> max_i64"
  shows "fold step xs a = min max_i64 (a + sum_list (map g xs))"
  using assms
proof (induction xs arbitrary: a)
  case (Cons x xs)
  have "0 \<le> g x" "0 \<le> sum_list (map g xs)" using Cons.prems(2) by (auto intro!: sum_list_nonneg)
  moreover have "step x a = min max_i64 (a + g x)" using Cons.prems by simp
  moreover have "fold step xs (min max_i64 (a + g x)) = min max_i64 (min max_i64 (a + g x) + sum_list (map g xs))"
    using Cons.prems \<open>0 \<le> g x\<close> by (intro Cons.IH) auto
  ultimately show ?case by simp
qed simp

lemma gint_range:
  assumes "\<And>d v. gget m d = Some v \<Longrightarrow> 0 \<le> v \<and> v \<le> max_i64"
  shows "0 \<le> gint m d" "gint m d \<le> max_i64"
  using assms by (auto simp: gint_def split: option.splits)

lemma row_okD:
  assumes "row_ok l"
  shows "gwf (rl_spent l)" "gwf (rl_allowance l)" "0 < rl_limitMicro l" "rl_limitMicro l \<le> max_i64"
    "0 \<le> rl_grantMicro l" "0 \<le> gint (rl_spent l) d" "gint (rl_spent l) d \<le> max_i64"
    "0 \<le> gint (rl_allowance l) d" "gint (rl_allowance l) d \<le> max_i64"
  using assms gint_range [of "rl_spent l"] gint_range [of "rl_allowance l"] by (auto simp: row_ok_def)

lemma open_allowance_nonneg [simp]: "0 \<le> open_allowance now dps l d al"
  by (simp add: open_allowance_def)

text \<open>What the other data planes may still spend.\<close>

definition others_open :: "gotime \<Rightarrow> (string, dpInfo) gomap \<Rightarrow> string \<Rightarrow> ruleLedger \<Rightarrow> int" where
  "others_open now dps e l = gsum (open_allowance now dps l) (gdel e (rl_allowance l))"

lemma others_open_sum:
  "others_open now dps e l = sum_list (map (\<lambda>(d, al). if d = e then 0 else open_allowance now dps l d al) (rl_allowance l))"
proof -
  have "gsum f (gdel e m) = sum_list (map (\<lambda>(d, al). if d = e then 0 else f d al) m)" for f :: "string \<Rightarrow> i64 \<Rightarrow> int" and m
    by (induction m) (auto simp: gdel_def gsum_def)
  then show ?thesis by (simp add: others_open_def)
qed

lemma totals_eq:
  assumes "row_ok l"
  shows "totals now dps e l = (min max_i64 (spent_sum l), min max_i64 (others_open now dps e l))"
proof -
  have ok: "\<And>d v. (d, v) \<in> set (rl_spent l) \<Longrightarrow> 0 \<le> v" "\<And>d v. (d, v) \<in> set (rl_allowance l) \<Longrightarrow> 0 \<le> v \<and> v \<le> max_i64"
    using assms by (auto simp: row_ok_def gget_set_iff [symmetric])
  have "fold (\<lambda>(_, sp) acc. addAccounting acc sp) (rl_spent l) 0 = min max_i64 (0 + sum_list (map snd (rl_spent l)))"
    by (rule fold_saturates) (auto simp: addAccounting_nonneg dest: ok(1))
  moreover have "fold (\<lambda>(d, al) acc.
              if d = e \<or> lease_lapsed now dps l d then acc
              else let extra = wrap64 (al - gint (rl_spent l) d)
                   in if extra > 0 then addAccounting acc extra else acc) (rl_allowance l) 0
    = min max_i64 (0 + sum_list (map (\<lambda>(d, al). if d = e then 0 else open_allowance now dps l d al) (rl_allowance l)))"
  proof (rule fold_saturates)
    fix x acc
    assume x: "x \<in> set (rl_allowance l)" and acc: "0 \<le> acc" "acc \<le> max_i64"
    obtain d al where d: "x = (d, al)" by (cases x)
    have "wrap64 (al - gint (rl_spent l) d) = al - gint (rl_spent l) d"
      using ok(2) [of d al] x row_okD(6,7) [OF assms, of d] by (intro wrap64_diff_nonneg) (auto simp: d)
    then show "(case x of (d, al) \<Rightarrow> \<lambda>acc.
              if d = e \<or> lease_lapsed now dps l d then acc
              else let extra = wrap64 (al - gint (rl_spent l) d)
                   in if extra > 0 then addAccounting acc extra else acc) acc =
        min max_i64 (acc + (case x of (d, al) \<Rightarrow> if d = e then 0 else open_allowance now dps l d al))"
      using acc by (simp add: d open_allowance_def Let_def addAccounting_nonneg)
  qed auto
  ultimately show ?thesis
    by (simp add: totals_def spent_sum_def gsum_def case_prod_unfold others_open_sum)
qed

lemma open_sum_split:
  assumes "gwf (rl_allowance l)"
  shows "open_sum now dps l = others_open now dps e l
    + (case gget (rl_allowance l) e of None \<Rightarrow> 0 | Some al \<Rightarrow> open_allowance now dps l e al)"
  using gsum_gdel [OF assms, of "open_allowance now dps l" e] by (simp add: open_sum_def others_open_def)

lemma others_open_nonneg: "0 \<le> others_open now dps e l"
  unfolding others_open_sum by (intro sum_list_nonneg) auto

lemma gint_le_spent_sum:
  assumes "row_ok l"
  shows "gint (rl_spent l) d \<le> spent_sum l"
proof -
  have nonneg: "\<And>d v. gget (rl_spent l) d = Some v \<Longrightarrow> 0 \<le> v" using assms by (auto simp: row_ok_def)
  then have "0 \<le> spent_sum l"
    using row_okD(1) [OF assms] unfolding spent_sum_def gsum_def by (intro sum_list_nonneg) (auto simp: gget_set_iff)
  then show ?thesis
    using gsum_ge_entry [OF row_okD(1) [OF assms], of d _ "\<lambda>_ v. v"] nonneg
    by (auto simp: gint_def spent_sum_def split: option.splits)
qed

section \<open>The grant\<close>

lemma lease_allowance_grant:
  assumes "row_ok l"
  obtains add where "lease_allowance now dps d l = gint (rl_spent l) d + add" "0 \<le> add" "add \<le> rl_grantMicro l"
    "add = 0 \<or> spent_sum l + others_open now dps d l + add \<le> rl_limitMicro l"
    "gint (rl_spent l) d + add \<le> max_i64"
proof -
  let ?S = "spent_sum l" and ?O = "others_open now dps d l" and ?L = "rl_limitMicro l"
  note ok = row_okD [OF assms]
  have S: "0 \<le> ?S" using gint_le_spent_sum [OF assms, of d] ok(6) [of d] by simp
  have rem: "remaining_budget ?L (min max_i64 ?S) (min max_i64 ?O) = max 0 (?L - ?S - ?O)"
  proof (cases "?S < ?L")
    case True
    have bound: "?L - ?S - ?O \<le> max_i64" using S ok(4) others_open_nonneg [of now dps d l] by linarith
    from True have "wrap64 (?L - ?S) = ?L - ?S" using S ok(3,4) by (intro wrap64_diff_nonneg) auto
    moreover have "?O < ?L - ?S \<Longrightarrow> wrap64 (?L - ?S - ?O) = ?L - ?S - ?O"
      using bound by (intro wrap64_in_range) (auto simp: in_i64_nonneg)
    ultimately show ?thesis using True S ok(3,4) by (auto simp: remaining_budget_def min_def)
  next
    case False
    then have "?L - ?S - ?O \<le> 0" using others_open_nonneg [of now dps d l] by linarith
    with False show ?thesis using ok(4) by (auto simp: remaining_budget_def min_def)
  qed
  define add where "add = min (rl_grantMicro l) (max 0 (?L - ?S - ?O))"
  have add: "0 \<le> add" "add \<le> rl_grantMicro l" "add = 0 \<or> ?S + ?O + add \<le> ?L"
    using ok(5) by (auto simp: add_def)
  have fits: "gint (rl_spent l) d + add \<le> max_i64"
    using add ok(4) ok(7) [of d] gint_le_spent_sum [OF assms, of d] others_open_nonneg [of now dps d l] by auto
  have capped: "(if rl_grantMicro l > r then r else rl_grantMicro l) = add" if "r = max 0 (?L - ?S - ?O)" for r
    using that by (auto simp: add_def)
  from fits have "wrap64 (gint (rl_spent l) d + add) = gint (rl_spent l) d + add"
    using add ok(6) [of d] by (intro wrap64_in_range) (simp add: in_i64_nonneg)
  then have "lease_allowance now dps d l = gint (rl_spent l) d + add"
    unfolding lease_allowance_def totals_eq [OF assms] by (simp only: prod.case rem Let_def capped [OF refl])
  with add fits that show thesis by blast
qed

lemma grant_row_ok:
  assumes "row_ok l"
  shows "row_ok (grant_row now dps d l)"
proof -
  obtain add where "lease_allowance now dps d l = gint (rl_spent l) d + add" "0 \<le> add" "gint (rl_spent l) d + add \<le> max_i64"
    by (rule lease_allowance_grant [OF assms])
  then have "0 \<le> lease_allowance now dps d l" "lease_allowance now dps d l \<le> max_i64"
    using row_okD(6) [OF assms, of d] by simp_all
  then show ?thesis using assms by (auto simp: grant_row_def row_ok_def gget_gput)
qed

lemma lease_lapsed_frame [simp]:
  "lease_lapsed now dps (l\<lparr>rl_allowance := m\<rparr>) = lease_lapsed now dps l"
  "lease_lapsed now dps (l\<lparr>rl_spent := n\<rparr>) = lease_lapsed now dps l"
  by (auto simp: lease_lapsed_def fun_eq_iff split: option.splits)

lemma open_allowance_frame:
  "open_allowance now dps (l\<lparr>rl_allowance := m\<rparr>) = open_allowance now dps l"
  by (simp add: open_allowance_def fun_eq_iff)

text \<open>If the spend and the open allowances of the others fit, so does everything after the grant.\<close>

lemma grant_within:
  assumes "row_ok l" "\<not> rl_routingOnly l" "spent_sum l + others_open now dps d l \<le> rl_limitMicro l"
  shows "within_limit now dps (grant_row now dps d l)"
proof -
  obtain add where add: "lease_allowance now dps d l = gint (rl_spent l) d + add" "0 \<le> add"
    "add = 0 \<or> spent_sum l + others_open now dps d l + add \<le> rl_limitMicro l"
    by (rule lease_allowance_grant [OF assms(1)])
  let ?l = "l\<lparr>rl_allowance := gput d (lease_allowance now dps d l) (rl_allowance l)\<rparr>"
  have "gdel d (gput d v m) = gdel d m" for v and m :: "(string, i64) gomap"
    unfolding gdel_def gput_def by (induction m) auto
  then have same: "others_open now dps d ?l = others_open now dps d l"
    by (simp add: others_open_def open_allowance_frame)
  have "open_sum now dps ?l = others_open now dps d ?l + open_allowance now dps ?l d (lease_allowance now dps d l)"
    using open_sum_split [of ?l now dps d] row_okD(2) [OF assms(1)] by simp
  moreover have "open_allowance now dps ?l d (lease_allowance now dps d l) \<le> add"
    using add(1,2) by (simp add: open_allowance_frame open_allowance_def)
  ultimately have "open_sum now dps ?l \<le> others_open now dps d l + add" using same by simp
  then show ?thesis using add(2,3) assms(2,3) by (auto simp: within_limit_def grant_row_def spent_sum_def)
qed

section \<open>Reports\<close>

text \<open>
  What the lease asks of a data plane: it reports no more than it reported before, or its lease is
  still valid and the report is within the allowance.
\<close>

definition obedient_report :: "gotime \<Rightarrow> (string, dpInfo) gomap \<Rightarrow> string \<Rightarrow> i64 \<Rightarrow> ruleLedger \<Rightarrow> bool" where
  "obedient_report now dps d spent l \<longleftrightarrow>
     spent \<le> gint (rl_spent l) d
     \<or> \<not> lease_lapsed now dps l d \<and> spent \<le> gint (rl_allowance l) d"

definition applies :: "ConsumptionReport \<Rightarrow> ruleLedger \<Rightarrow> bool" where
  "applies rep l \<longleftrightarrow> (if cr_Period rep = [] then CalendarMonth else cr_Period rep) = rl_period l"

lemma absorb_row_fields [simp]:
  "rl_limitMicro (absorb_row d rep l) = rl_limitMicro l" "rl_routingOnly (absorb_row d rep l) = rl_routingOnly l"
  "lease_lapsed now dps (absorb_row d rep l) = lease_lapsed now dps l"
  by (simp_all add: absorb_row_def lease_lapsed_def fun_eq_iff split: option.splits)

lemma gint_gput [simp]: "gint (gput k v m) k' = (if k' = k then v else gint m k')"
  by (simp add: gint_def gget_gput)

lemma gdel_gput [simp]: "gdel k (gput k v m) = gdel k m"
  unfolding gdel_def gput_def by (induction m) auto

lemma in_gdel: "(d, v) \<in> set (gdel e m) \<longleftrightarrow> (d, v) \<in> set m \<and> d \<noteq> e"
  by (auto simp: gdel_def)

lemma gsum_mono: "(\<And>k v. (k, v) \<in> set m \<Longrightarrow> f k v \<le> g k v) \<Longrightarrow> gsum f m \<le> gsum g m"
  unfolding gsum_def by (intro sum_list_mono) auto

lemma absorb_row_ok:
  assumes "row_ok l" "0 \<le> cr_SpentMicroUSD rep" "cr_SpentMicroUSD rep \<le> max_i64"
  shows "row_ok (absorb_row d rep l)"
  using assms by (auto simp: absorb_row_def row_ok_def gget_gput)

text \<open>An obedient report moves open allowance into spend; the others are untouched.\<close>

lemma absorb_within:
  assumes "row_ok l" "within_limit now dps l" "applies rep l \<Longrightarrow> obedient_report now dps d (cr_SpentMicroUSD rep) l"
  shows "spent_sum (absorb_row d rep l) + others_open now dps d (absorb_row d rep l) \<le> rl_limitMicro l"
proof -
  let ?r = "cr_SpentMicroUSD rep" and ?s = "gint (rl_spent l) d" and ?a = "gint (rl_allowance l) d"
  have split: "open_sum now dps l = others_open now dps d l
      + (case gget (rl_allowance l) d of None \<Rightarrow> 0 | Some al \<Rightarrow> open_allowance now dps l d al)"
    by (rule open_sum_split [OF row_okD(2) [OF assms(1)]])
  have own: "0 \<le> (case gget (rl_allowance l) d of None \<Rightarrow> 0 | Some al \<Rightarrow> open_allowance now dps l d al)"
    by (simp split: option.splits)
  show ?thesis
  proof (cases "applies rep l")
    case False
    then show ?thesis using assms(2) split own by (simp add: absorb_row_def applies_def within_limit_def)
  next
    case True
    have "spent_sum (absorb_row d rep l) = spent_sum l + ?r - ?s"
      using True gsum_gput [OF row_okD(1) [OF assms(1)], of "\<lambda>_ v. v" d ?r]
      by (simp add: absorb_row_def applies_def spent_sum_def gint_def)
    moreover have "others_open now dps d (absorb_row d rep l) = others_open now dps d l"
    proof -
      have del: "gdel d (rl_allowance (absorb_row d rep l)) = gdel d (rl_allowance l)" by (simp add: absorb_row_def)
      show ?thesis unfolding others_open_def del gsum_def
        using True by (intro arg_cong [where f = sum_list] map_cong)
          (auto simp: open_allowance_def absorb_row_def applies_def in_gdel lease_lapsed_def split: option.splits)
    qed
    moreover have "?r - ?s \<le> (case gget (rl_allowance l) d of None \<Rightarrow> 0 | Some al \<Rightarrow> open_allowance now dps l d al)"
      using assms(3) [OF True] own row_okD(6) [OF assms(1), of d]
      by (auto simp: obedient_report_def open_allowance_def gint_def split: option.splits if_splits)
    ultimately show ?thesis using assms(2) split by (simp add: within_limit_def)
  qed
qed

text \<open>The row of a rule after the reports of a heartbeat, at most one of which is about it.\<close>

lemma gget_absorb_reports:
  assumes "distinct (map report_key reps)"
  shows "gget (fold (absorb_report d) reps ledger) k =
    map_option (\<lambda>l. case find (\<lambda>rep. report_key rep = k) reps of None \<Rightarrow> l | Some rep \<Rightarrow> absorb_row d rep l) (gget ledger k)"
  using assms
proof (induction reps arbitrary: ledger)
  case Nil
  then show ?case by (simp add: option.map_ident)
next
  case (Cons rep reps)
  have one: "gget (absorb_report d rep ledger) k =
      (if report_key rep = k then map_option (absorb_row d rep) (gget ledger k) else gget ledger k)"
    by (auto simp: absorb_report_def gget_gput split: option.splits)
  have "report_key rep = k \<Longrightarrow> find (\<lambda>rep. report_key rep = k) reps = None"
    using Cons.prems by (auto simp: find_None_iff) (metis image_eqI)
  then show ?case using Cons one by (cases "report_key rep = k") (auto simp: option.map_comp option.map_ident)
qed

section \<open>Pruning and time\<close>

lemma others_open_mono:
  assumes "\<And>e. e \<noteq> d \<Longrightarrow> lease_lapsed now dps l e \<Longrightarrow> lease_lapsed now' dps' l e"
  shows "others_open now' dps' d l \<le> others_open now dps d l"
  unfolding others_open_def using assms by (intro gsum_mono) (auto simp: open_allowance_def in_gdel)

lemma open_sum_mono:
  assumes "\<And>e. lease_lapsed now dps l e \<Longrightarrow> lease_lapsed now' dps' l e"
  shows "open_sum now' dps' l \<le> open_sum now dps l"
  unfolding open_sum_def using assms by (intro gsum_mono) (auto simp: open_allowance_def)

lemma lapsed_later: "now \<le> now' \<Longrightarrow> lease_lapsed now dps l e \<Longrightarrow> lease_lapsed now' dps l e"
  by (auto simp: lease_lapsed_def split: option.splits intro: less_le_trans time_sub_mono)

lemma lapsed_beat:
  assumes "gwf dps" "e \<noteq> sq_Dataplane req" "lease_lapsed now dps l e"
  shows "lease_lapsed now (beat_dataplanes now req dps) l e"
  using assms by (auto simp: lease_lapsed_def beat_dataplanes_def Let_def gget_gfilter register_dataplane_def
      split: option.splits)

lemma gsum_gfilter_le:
  assumes "\<And>k v. (k, v) \<in> set m \<Longrightarrow> 0 \<le> f k v"
  shows "gsum f (gfilter P m) \<le> gsum f m"
  using assms
proof (induction m)
  case (Cons x m)
  obtain k v where x: "x = (k, v)" by (cases x)
  have "0 \<le> f k v" "gsum f (gfilter P m) \<le> gsum f m"
    using Cons.prems [of k v] Cons.IH Cons.prems by (auto simp: x)
  then show ?case by (auto simp: x gfilter_def)
qed (simp add: gfilter_def)

lemma prune_row_fields [simp]:
  "rl_limitMicro (prune_row now dps l) = rl_limitMicro l" "rl_routingOnly (prune_row now dps l) = rl_routingOnly l"
  "lease_lapsed now' dps' (prune_row now dps l) = lease_lapsed now' dps' l"
  by (simp_all add: prune_row_def lease_lapsed_def fun_eq_iff split: option.splits)

lemma prune_row_ok: "row_ok l \<Longrightarrow> row_ok (prune_row now dps l)"
  by (auto simp: prune_row_def row_ok_def gget_gfilter split: option.splits if_splits)

lemma prune_spent_sum: "row_ok l \<Longrightarrow> spent_sum (prune_row now dps l) \<le> spent_sum l"
  unfolding spent_sum_def prune_row_def
  by (auto intro!: gsum_gfilter_le simp: row_ok_def gget_set_iff [symmetric])

lemma prune_others_open:
  assumes "row_ok l"
  shows "others_open now dps d (prune_row now' dps' l) \<le> others_open now dps d l"
proof -
  let ?keep = "\<lambda>e. \<not> forgotten now' dps' e"
  have swap: "gdel d (rl_allowance (prune_row now' dps' l)) = gfilter (\<lambda>e _. ?keep e) (gdel d (rl_allowance l))"
    by (simp add: prune_row_def gdel_def gfilter_def conj_commute case_prod_unfold)
  have "gsum (open_allowance now dps (prune_row now' dps' l)) (gfilter (\<lambda>e _. ?keep e) (gdel d (rl_allowance l)))
      = gsum (open_allowance now dps l) (gfilter (\<lambda>e _. ?keep e) (gdel d (rl_allowance l)))"
  proof -
    have "gint (rl_spent (prune_row now' dps' l)) e = gint (rl_spent l) e" if "?keep e" for e
      using that row_okD(1) [OF assms] by (simp add: prune_row_def gint_def gget_gfilter split: option.splits)
    then show ?thesis
      unfolding gsum_def by (intro arg_cong [where f = sum_list] map_cong) (auto simp: open_allowance_def gfilter_def)
  qed
  also have "\<dots> \<le> gsum (open_allowance now dps l) (gdel d (rl_allowance l))"
    by (rule gsum_gfilter_le) simp
  finally show ?thesis unfolding others_open_def swap .
qed

section \<open>One heartbeat\<close>

definition ledger_ok :: "gotime \<Rightarrow> (string, dpInfo) gomap \<Rightarrow> (ruleKey, ruleLedger) gomap \<Rightarrow> bool" where
  "ledger_ok now dps ledger \<longleftrightarrow>
     gwf dps \<and> gwf ledger
     \<and> (\<forall>k l. gget ledger k = Some l \<longrightarrow> row_ok l \<and> (\<not> rl_routingOnly l \<longrightarrow> within_limit now dps l))"

text \<open>
  What a data plane owes the control plane in a heartbeat: at most one report for a rule, each an
  \<open>int64\<close>, and within the lease for a rule that grants one.
\<close>

definition obedient_beat :: "gotime \<Rightarrow> SyncRequest \<Rightarrow> cp_Server \<Rightarrow> bool" where
  "obedient_beat now req s \<longleftrightarrow>
     distinct (map report_key (sq_Reports req))
     \<and> list_all (\<lambda>rep. cr_SpentMicroUSD rep \<le> max_i64
         \<and> (case gget (cp_ledger s) (report_key rep) of
              None \<Rightarrow> True
            | Some l \<Rightarrow> rl_routingOnly l \<or> \<not> applies rep l
                \<or> obedient_report now (cp_dataplanes s) (sq_Dataplane req) (cr_SpentMicroUSD rep) l)) (sq_Reports req)"

lemma beat_dataplanes_wf [simp]: "gwf dps \<Longrightarrow> gwf (beat_dataplanes now req dps)"
  by (simp add: beat_dataplanes_def register_dataplane_def Let_def)

lemma within_limit_later:
  assumes "within_limit now dps l" "now \<le> now'"
  shows "within_limit now' dps l"
  using assms open_sum_mono [of now dps l now' dps, OF lapsed_later [OF assms(2)]] by (simp add: within_limit_def)

lemma ledger_ok_later: "ledger_ok now dps ledger \<Longrightarrow> now \<le> now' \<Longrightarrow> ledger_ok now' dps ledger"
  by (auto simp: ledger_ok_def intro: within_limit_later)

lemma granted_row_within:
  assumes "gwf dps" "row_ok l" "\<not> rl_routingOnly l"
    and "spent_sum l + others_open now dps (sq_Dataplane req) l \<le> rl_limitMicro l"
  shows "within_limit now (beat_dataplanes now req dps)
    (grant_row now (beat_dataplanes now req dps) (sq_Dataplane req) (prune_row now dps1 l))"
proof -
  let ?d = "sq_Dataplane req" and ?dps = "beat_dataplanes now req dps"
  have "others_open now ?dps ?d (prune_row now dps1 l) \<le> others_open now ?dps ?d l"
    by (rule prune_others_open [OF assms(2)])
  moreover have "others_open now ?dps ?d l \<le> others_open now dps ?d l"
    by (rule others_open_mono) (rule lapsed_beat [OF assms(1)])
  ultimately show ?thesis
    using assms prune_spent_sum [OF assms(2), of now dps1] by (intro grant_within prune_row_ok) auto
qed

lemma absorbed_row:
  assumes "ledger_ok now (cp_dataplanes s) (cp_ledger s)" "obedient_beat now req s"
    and "list_all (\<lambda>rep. 0 \<le> cr_SpentMicroUSD rep) (sq_Reports req)"
    and "gget (fold (absorb_report (sq_Dataplane req)) (sq_Reports req) (cp_ledger s)) k = Some l"
  shows "row_ok l" and "\<not> rl_routingOnly l \<Longrightarrow>
    spent_sum l + others_open now (cp_dataplanes s) (sq_Dataplane req) l \<le> rl_limitMicro l"
proof -
  let ?d = "sq_Dataplane req"
  obtain l0 where l0: "gget (cp_ledger s) k = Some l0"
      "l = (case find (\<lambda>rep. report_key rep = k) (sq_Reports req) of None \<Rightarrow> l0 | Some rep \<Rightarrow> absorb_row ?d rep l0)"
    using assms(2,4) by (auto simp: gget_absorb_reports obedient_beat_def)
  have ok: "row_ok l0" and within: "\<not> rl_routingOnly l0 \<Longrightarrow> within_limit now (cp_dataplanes s) l0"
    using assms(1) l0(1) by (auto simp: ledger_ok_def)
  have rep: "rep \<in> set (sq_Reports req) \<and> report_key rep = k"
    if "find (\<lambda>rep. report_key rep = k) (sq_Reports req) = Some rep" for rep
    using that by (auto simp: find_Some_iff)
  have range: "0 \<le> cr_SpentMicroUSD r \<and> cr_SpentMicroUSD r \<le> max_i64" if "r \<in> set (sq_Reports req)" for r
    using that assms(2,3) by (simp add: obedient_beat_def list_all_iff)
  show "row_ok l"
  proof (cases "find (\<lambda>rep. report_key rep = k) (sq_Reports req)")
    case None
    then show ?thesis using l0(2) ok by simp
  next
    case (Some r)
    then show ?thesis using l0(2) absorb_row_ok [OF ok] range rep [OF Some] by simp
  qed
  assume admission: "\<not> rl_routingOnly l"
  show "spent_sum l + others_open now (cp_dataplanes s) ?d l \<le> rl_limitMicro l"
  proof (cases "find (\<lambda>rep. report_key rep = k) (sq_Reports req)")
    case None
    then have "l = l0" using l0(2) by simp
    moreover have "others_open now (cp_dataplanes s) ?d l0 \<le> open_sum now (cp_dataplanes s) l0"
      unfolding open_sum_split [OF row_okD(2) [OF ok], of now "cp_dataplanes s" ?d] by (simp split: option.splits)
    ultimately show ?thesis using within admission by (simp add: within_limit_def)
  next
    case (Some r)
    then have row: "l = absorb_row ?d r l0" using l0(2) by simp
    moreover have "obedient_report now (cp_dataplanes s) ?d (cr_SpentMicroUSD r) l0" if "applies r l0"
      using that rep [OF Some] assms(2) l0(1) admission row by (auto simp: obedient_beat_def list_all_iff)
    ultimately show ?thesis using absorb_within [OF ok within, of r ?d] admission by simp
  qed
qed

lemma absorb_reports_wf: "gwf ledger \<Longrightarrow> gwf (fold (absorb_report d) reps ledger)"
  by (rule gwf_fold) (auto simp: absorb_report_def split: option.splits)

lemma grant_row_routing [simp]: "rl_routingOnly (grant_row now dps d l) = rl_routingOnly l"
  by (simp add: grant_row_def)

lemma beat_ledger_ok:
  assumes "ledger_ok now (cp_dataplanes s) (cp_ledger s)" "obedient_beat now req s"
    and "list_all (\<lambda>rep. 0 \<le> cr_SpentMicroUSD rep) (sq_Reports req)"
  shows "ledger_ok now (beat_dataplanes now req (cp_dataplanes s)) (beat_ledger now req (cp_dataplanes s) (cp_ledger s))"
proof -
  have wf: "gwf (cp_dataplanes s)" "gwf (cp_ledger s)" using assms(1) by (auto simp: ledger_ok_def)
  show ?thesis
    using wf absorbed_row [OF assms]
    by (auto simp: ledger_ok_def beat_ledger_def Let_def gget_gmapv
        intro!: absorb_reports_wf grant_row_ok prune_row_ok granted_row_within)
qed

section \<open>The heartbeat returns\<close>

lemma totals_range:
  assumes "row_ok l" "totals now dps e l = (sp, os)"
  shows "0 \<le> sp" "sp \<le> max_i64" "0 \<le> os" "os \<le> max_i64"
  using assms totals_eq [OF assms(1), of now dps e] gint_le_spent_sum [OF assms(1), of e] row_okD(6) [OF assms(1), of e]
    others_open_nonneg [of now dps e l] by auto

lemma judge_tier_returns:
  assumes "ledger_ok now dps ledger"
  shows "\<exists>y. judge_tier now dps ledger kt x = Some y"
proof -
  have "UtilizedPercent sp os (rl_limitMicro l) \<noteq> None"
    if "gget ledger k = Some l" "totals now dps [] l = (sp, os)" for k l sp os
  proof -
    have "row_ok l" using assms that(1) by (auto simp: ledger_ok_def)
    then show ?thesis using totals_range [OF _ that(2)] row_okD(3,4) [of l] by (simp add: UtilizedPercent_exact in_i64_nonneg)
  qed
  then show ?thesis
    by (fastforce simp: judge_tier_def Let_def split: prod.splits option.splits)
qed

lemma judge_tiers_returns:
  assumes "ledger_ok now dps ledger"
  shows "\<exists>y. judge_tiers now dps ledger kts x = Some y"
proof (induction kts arbitrary: x)
  case (Cons kt kts)
  then show ?case using judge_tier_returns [OF assms, of kt x] by auto
qed simp

lemma handleSync_ok:
  assumes "ledger_ok now (cp_dataplanes s) (cp_ledger s)" "obedient_beat now req s"
  shows "\<exists>s' r. handleSync fp machine False now (Some req) s = Some (s', r)
    \<and> ledger_ok now (cp_dataplanes s') (cp_ledger s')"
proof (cases "list_ex (\<lambda>rep. cr_SpentMicroUSD rep < 0) (sq_Reports req)")
  case True
  then show ?thesis using assms(1) by (auto simp: handleSync_def)
next
  case False
  then have "list_all (\<lambda>rep. 0 \<le> cr_SpentMicroUSD rep) (sq_Reports req)" by (simp add: list_all_iff list_ex_iff not_less)
  note beat = beat_ledger_ok [OF assms this]
  obtain latch active where "judge_tiers now (beat_dataplanes now req (cp_dataplanes s))
      (beat_ledger now req (cp_dataplanes s) (cp_ledger s)) (cp_tiers s) (cp_tierLatch s, []) = Some (latch, active)"
    using judge_tiers_returns [OF beat, of "cp_tiers s" "(cp_tierLatch s, [])"] by auto
  then show ?thesis using assms(1) beat by (simp add: handleSync_def heartbeat_def Let_def)
qed

section \<open>Answered leases\<close>

text \<open>
  The leases that each data plane holds: those of the last answer to it. A data plane replaces its
  lease table on every answer.
\<close>

type_synonym held_leases = "(string, LeaseGrant list) gomap"

definition hold_answer :: "SyncRequest \<Rightarrow> sync_result \<Rightarrow> held_leases \<Rightarrow> held_leases" where
  "hold_answer req r leases =
     (case r of SyncOK resp \<Rightarrow> gput (sq_Dataplane req) (sr_Leases resp) leases | _ \<Rightarrow> leases)"

definition grant_key :: "LeaseGrant \<Rightarrow> ruleKey" where
  "grant_key g = \<lparr>rk_policy = lg_Policy g, rk_rule = lg_Rule g\<rparr>"

text \<open>A lease for a rule whose expiry has not passed; it is the data plane's own test.\<close>

definition valid_for :: "gotime \<Rightarrow> ruleKey \<Rightarrow> LeaseGrant \<Rightarrow> bool" where
  "valid_for now k g \<longleftrightarrow> grant_key g = k \<and> now \<le> lg_ExpiresAt g"

text \<open>What the valid leases of the data planes still allow beyond the spend on record.\<close>

definition lease_room :: "gotime \<Rightarrow> ruleKey \<Rightarrow> ruleLedger \<Rightarrow> string \<Rightarrow> LeaseGrant list \<Rightarrow> int" where
  "lease_room now k l d gs =
     sum_list (map (\<lambda>g. max 0 (lg_AllowanceMicroUSD g - gint (rl_spent l) d)) (filter (valid_for now k) gs))"

definition promised :: "gotime \<Rightarrow> held_leases \<Rightarrow> ruleKey \<Rightarrow> ruleLedger \<Rightarrow> int" where
  "promised now leases k l = gsum (lease_room now k l) leases"

text \<open>
  What the lease asks of a data plane in a heartbeat: at most one report for a rule, each an
  \<open>int64\<close>; for an admission budget it reports no more than before, or it holds a valid lease for
  the rule and the report is within its allowance.
\<close>

definition within_lease :: "gotime \<Rightarrow> LeaseGrant list \<Rightarrow> ruleKey \<Rightarrow> i64 \<Rightarrow> bool" where
  "within_lease now gs k spent \<longleftrightarrow> list_ex (\<lambda>g. valid_for now k g \<and> spent \<le> lg_AllowanceMicroUSD g) gs"

definition leased_beat :: "gotime \<Rightarrow> SyncRequest \<Rightarrow> cp_Server \<Rightarrow> held_leases \<Rightarrow> bool" where
  "leased_beat now req s leases \<longleftrightarrow>
     distinct (map report_key (sq_Reports req))
     \<and> list_all (\<lambda>rep. cr_SpentMicroUSD rep \<le> max_i64
         \<and> (case gget (cp_ledger s) (report_key rep) of
              None \<Rightarrow> True
            | Some l \<Rightarrow> rl_routingOnly l \<or> \<not> applies rep l
                \<or> cr_SpentMicroUSD rep \<le> gint (rl_spent l) (sq_Dataplane req)
                \<or> (case gget leases (sq_Dataplane req) of
                     None \<Rightarrow> False
                   | Some gs \<Rightarrow> within_lease now gs (report_key rep) (cr_SpentMicroUSD rep)))) (sq_Reports req)"

text \<open>The control plane's account agrees with every valid lease that was answered.\<close>

definition backed :: "(string, dpInfo) gomap \<Rightarrow> ruleLedger \<Rightarrow> string \<Rightarrow> LeaseGrant \<Rightarrow> bool" where
  "backed dps l d g \<longleftrightarrow>
     gget (rl_allowance l) d = Some (lg_AllowanceMicroUSD g)
     \<and> (case gget dps d of None \<Rightarrow> False | Some dp \<Rightarrow> lg_ExpiresAt g = dp_LastSeen dp + 3 * rl_renew l)"

definition held_ok ::
    "gotime \<Rightarrow> (string, dpInfo) gomap \<Rightarrow> (ruleKey, ruleLedger) gomap \<Rightarrow> held_leases \<Rightarrow> bool" where
  "held_ok now dps ledger leases \<longleftrightarrow>
     gwf leases
     \<and> (\<forall>d gs. gget leases d = Some gs \<longrightarrow>
          distinct (map grant_key gs)
          \<and> (\<forall>g\<in>set gs. \<forall>l. gget ledger (grant_key g) = Some l \<longrightarrow> now \<le> lg_ExpiresAt g \<longrightarrow> backed dps l d g))"

lemma held_ok_later: "held_ok now dps ledger leases \<Longrightarrow> now \<le> now' \<Longrightarrow> held_ok now' dps ledger leases"
  unfolding held_ok_def by (meson order_trans)

lemma pruneAfter_max: "pruneAfter \<le> max_i64"
  by (simp add: pruneAfter_def hour_def second_def max_i64_def)

lemma renew_wrap: "row_ok l \<Longrightarrow> wrap64 (3 * rl_renew l) = 3 * rl_renew l"
  using pruneAfter_max by (intro wrap64_in_range) (auto simp: row_ok_def in_i64_nonneg)

text \<open>The control plane still counts a lease as outstanding while its expiry has not passed.\<close>

lemma backed_open:
  assumes "row_ok l" "backed dps l d g" "now \<le> lg_ExpiresAt g"
  shows "\<not> lease_lapsed now dps l d"
proof -
  obtain dp where "gget dps d = Some dp" "lg_ExpiresAt g = dp_LastSeen dp + 3 * rl_renew l"
    using assms(2) by (auto simp: backed_def split: option.splits)
  moreover have "0 \<le> 3 * rl_renew l" using assms(1) by (simp add: row_ok_def)
  ultimately show ?thesis
    using assms(3) renew_wrap [OF assms(1)] by (simp add: lease_lapsed_def time_sub_def i64_consts)
qed

lemma backed_kept:
  assumes "row_ok l" "backed dps l d g" "now \<le> lg_ExpiresAt g"
  shows "\<not> forgotten now dps d"
proof -
  obtain dp where "gget dps d = Some dp" "lg_ExpiresAt g = dp_LastSeen dp + 3 * rl_renew l"
    using assms(2) by (auto simp: backed_def split: option.splits)
  moreover have "3 * rl_renew l \<le> pruneAfter" "0 \<le> pruneAfter"
    using assms(1) by (auto simp: row_ok_def pruneAfter_def hour_def second_def)
  ultimately show ?thesis
    using assms(3) by (simp add: forgotten_def time_sub_def i64_consts)
qed

lemma leased_obedient:
  assumes "ledger_ok now (cp_dataplanes s) (cp_ledger s)" "held_ok now (cp_dataplanes s) (cp_ledger s) leases"
    and "leased_beat now req s leases"
  shows "obedient_beat now req s"
proof -
  have "obedient_report now (cp_dataplanes s) (sq_Dataplane req) v l"
    if l: "gget (cp_ledger s) k = Some l" and gs: "gget leases (sq_Dataplane req) = Some gs" "within_lease now gs k v"
    for l v k gs
  proof -
    obtain g where g: "g \<in> set gs" "grant_key g = k" "now \<le> lg_ExpiresAt g" "v \<le> lg_AllowanceMicroUSD g"
      using gs(2) by (auto simp: within_lease_def valid_for_def list_ex_iff)
    then have "backed (cp_dataplanes s) l (sq_Dataplane req) g"
      using assms(2) gs(1) l unfolding held_ok_def by blast
    moreover have "row_ok l" using assms(1) l by (auto simp: ledger_ok_def)
    ultimately show ?thesis
      using backed_open g(3,4) by (auto simp: obedient_report_def backed_def gint_def)
  qed
  then show ?thesis
    using assms(3) unfolding leased_beat_def obedient_beat_def list_all_iff
    by (fastforce simp: obedient_report_def split: option.splits)
qed

text \<open>What the answered leases promise is covered by the control plane's account.\<close>

lemma gsum_dominated:
  fixes m :: "('k, 'v) gomap" and n :: "('k, 'w) gomap"
  assumes "gwf m" "gwf n" "\<And>k v. gget n k = Some v \<Longrightarrow> 0 \<le> g k v"
    and "\<And>k v. gget m k = Some v \<Longrightarrow> f k v \<le> (case gget n k of None \<Rightarrow> 0 | Some w \<Rightarrow> g k w)"
  shows "gsum f m \<le> gsum g n"
  using assms
proof (induction m arbitrary: n)
  case Nil
  then show ?case unfolding gsum_def by (auto intro!: sum_list_nonneg simp: gget_set_iff)
next
  case (Cons a m)
  obtain k v where a: "a = (k, v)" by (cases a)
  have wf: "gwf m" and new: "gget m k = None"
    using Cons.prems(1) by (auto simp: gwf_def a gget_def map_of_eq_None_iff)
  have "gsum f m \<le> gsum g (gdel k n)"
  proof (rule Cons.IH [OF wf])
    show "0 \<le> g k' v'" if "gget (gdel k n) k' = Some v'" for k' v'
      using that Cons.prems(3) by (auto simp: gget_gdel split: if_splits)
    show "f k' v' \<le> (case gget (gdel k n) k' of None \<Rightarrow> 0 | Some w \<Rightarrow> g k' w)" if "gget m k' = Some v'" for k' v'
      using that new Cons.prems(4) [of k' v'] by (auto simp: a gget_gdel gget_Cons)
  qed (use Cons.prems(2) in simp)
  moreover have "f k v \<le> (case gget n k of None \<Rightarrow> 0 | Some w \<Rightarrow> g k w)"
    using Cons.prems(4) [of k v] by (simp add: a gget_Cons)
  ultimately show ?case using gsum_gdel [OF Cons.prems(2), of g k] by (simp add: a)
qed

lemma filter_key_single:
  assumes "distinct (map f xs)"
  shows "filter (\<lambda>x. f x = k \<and> P x) xs = [] \<or> (\<exists>x\<in>set xs. f x = k \<and> P x \<and> filter (\<lambda>x. f x = k \<and> P x) xs = [x])"
  using assms
proof (induction xs)
  case (Cons x xs)
  have "filter (\<lambda>y. f y = k \<and> P y) xs = []" if "f x = k"
    using that Cons.prems by (auto simp: filter_empty_conv) (metis image_eqI)
  then show ?case using Cons by auto
qed simp

lemma lease_room_le:
  assumes "row_ok l" "gget ledger k = Some l" "held_ok now dps ledger leases" "gget leases d = Some gs"
  shows "lease_room now k l d gs \<le> (case gget (rl_allowance l) d of None \<Rightarrow> 0 | Some al \<Rightarrow> open_allowance now dps l d al)"
proof -
  have "distinct (map grant_key gs)" using assms(3,4) by (auto simp: held_ok_def)
  from filter_key_single [OF this, of k "\<lambda>g. now \<le> lg_ExpiresAt g"]
  consider "filter (valid_for now k) gs = []"
    | g where "g \<in> set gs" "grant_key g = k" "now \<le> lg_ExpiresAt g" "filter (valid_for now k) gs = [g]"
    unfolding valid_for_def by blast
  then show ?thesis
  proof cases
    case 1
    then show ?thesis by (simp add: lease_room_def split: option.splits)
  next
    case 2
    then have "backed dps l d g" using assms(2,3,4) unfolding held_ok_def by blast
    then show ?thesis
      using backed_open [OF assms(1) _ 2(3)] 2(4) by (auto simp: lease_room_def backed_def open_allowance_def)
  qed
qed

lemma promised_le_open:
  assumes "row_ok l" "gget ledger k = Some l" "held_ok now dps ledger leases"
  shows "promised now leases k l \<le> open_sum now dps l"
  unfolding promised_def open_sum_def
  using assms(3) row_okD(2) [OF assms(1)] lease_room_le [OF assms] by (intro gsum_dominated) (auto simp: held_ok_def)

section \<open>The answers of a heartbeat\<close>

lemma absorbed_frame:
  assumes "gget (fold (absorb_report e) reps ledger) k = Some l" "distinct (map report_key reps)"
  obtains l0 where "gget ledger k = Some l0" "rl_renew l = rl_renew l0"
    "\<And>d. d \<noteq> e \<Longrightarrow> gget (rl_allowance l) d = gget (rl_allowance l0) d"
proof -
  obtain l0 where l0: "gget ledger k = Some l0"
      "l = (case find (\<lambda>rep. report_key rep = k) reps of None \<Rightarrow> l0 | Some rep \<Rightarrow> absorb_row e rep l0)"
    using assms by (auto simp: gget_absorb_reports)
  have "rl_renew (absorb_row e rep l0) = rl_renew l0"
    "d \<noteq> e \<Longrightarrow> gget (rl_allowance (absorb_row e rep l0)) d = gget (rl_allowance l0) d" for rep d
    by (simp_all add: absorb_row_def gget_gput)
  with l0 that show thesis by (cases "find (\<lambda>rep. report_key rep = k) reps") auto
qed

lemma beat_row:
  assumes "gget (beat_ledger now req dps ledger) k = Some l" "distinct (map report_key (sq_Reports req))"
  obtains l0 l1 where "gget ledger k = Some l0"
    "l = grant_row now (beat_dataplanes now req dps) (sq_Dataplane req) (prune_row now (register_dataplane now req dps) l1)"
    "rl_renew l1 = rl_renew l0" "\<And>d. d \<noteq> sq_Dataplane req \<Longrightarrow> gget (rl_allowance l1) d = gget (rl_allowance l0) d"
    "gget (fold (absorb_report (sq_Dataplane req)) (sq_Reports req) ledger) k = Some l1"
proof -
  obtain l1 where l1: "gget (fold (absorb_report (sq_Dataplane req)) (sq_Reports req) ledger) k = Some l1"
      "l = grant_row now (beat_dataplanes now req dps) (sq_Dataplane req) (prune_row now (register_dataplane now req dps) l1)"
    using assms(1) by (auto simp: beat_ledger_def Let_def gget_gmapv)
  from absorbed_frame [OF l1(1) assms(2)] l1 that show thesis by metis
qed

lemma beat_row_renew [simp]:
  "rl_renew (grant_row now dps d l) = rl_renew l" "rl_renew (prune_row now dps l) = rl_renew l"
  by (simp_all add: grant_row_def prune_row_def)

lemma register_other [simp]: "d \<noteq> sq_Dataplane req \<Longrightarrow> gget (register_dataplane now req dps) d = gget dps d"
  by (simp add: register_dataplane_def gget_gput)

text \<open>A lease answered to another data plane stays backed.\<close>

lemma backed_beat:
  assumes "ledger_ok now dps ledger" "gget (beat_ledger now req dps ledger) k = Some l"
    and "distinct (map report_key (sq_Reports req))" "d \<noteq> sq_Dataplane req" "now \<le> lg_ExpiresAt g"
    and bk: "\<And>l0. gget ledger k = Some l0 \<Longrightarrow> backed dps l0 d g"
    and wf: "\<And>l1. gget (fold (absorb_report (sq_Dataplane req)) (sq_Reports req) ledger) k = Some l1 \<Longrightarrow> row_ok l1"
  shows "backed (beat_dataplanes now req dps) l d g"
proof -
  obtain l0 l1 where l: "gget ledger k = Some l0"
    "l = grant_row now (beat_dataplanes now req dps) (sq_Dataplane req) (prune_row now (register_dataplane now req dps) l1)"
    "rl_renew l1 = rl_renew l0" "gget (rl_allowance l1) d = gget (rl_allowance l0) d" "row_ok l1"
    using beat_row [OF assms(2,3)] assms(4) wf by metis
  have ok: "row_ok l0" "gwf dps" using assms(1) l(1) by (auto simp: ledger_ok_def)
  have kept: "\<not> forgotten now (register_dataplane now req dps) d"
    using backed_kept [OF ok(1) bk [OF l(1)] assms(5)] assms(4) by (simp add: forgotten_def)
  have "gget (beat_dataplanes now req dps) d = gget dps d"
    using kept ok(2) assms(4) by (simp add: beat_dataplanes_def Let_def gget_gfilter register_dataplane_def gget_gput split: option.splits)
  moreover have "gget (rl_allowance l) d = gget (rl_allowance l0) d"
    using kept l(4) assms(4) row_okD(2) [OF l(5)]
    by (auto simp: l(2) grant_row_def prune_row_def gget_gput gget_gfilter split: option.splits)
  ultimately show ?thesis using bk [OF l(1)] l(3) by (auto simp: backed_def l(2) split: option.splits)
qed

lemma granted_key [simp]: "grant_key (lease_of now d k l) = k"
  by (simp add: grant_key_def lease_of_def)

lemma granted_distinct: "gwf ledger \<Longrightarrow> distinct (map grant_key (granted_leases now d ledger))"
  by (auto simp: granted_leases_def gwf_def distinct_map comp_def case_prod_unfold intro: inj_on_subset)

text \<open>A lease is backed when it is answered.\<close>

lemma backed_grant:
  assumes "gwf dps" "gget (beat_ledger now req dps ledger) k = Some l" "\<not> rl_routingOnly l" "row_ok l"
  shows "backed (beat_dataplanes now req dps) l (sq_Dataplane req) (lease_of now (sq_Dataplane req) k l)"
proof -
  obtain l1 where "l = grant_row now (beat_dataplanes now req dps) (sq_Dataplane req) l1"
    using assms(2) by (auto simp: beat_ledger_def Let_def gget_gmapv)
  then have "gget (rl_allowance l) (sq_Dataplane req) = Some (gint (rl_allowance l) (sq_Dataplane req))"
    using assms(3) by (auto simp: grant_row_def gint_def gget_gput)
  moreover have "gget (beat_dataplanes now req dps) (sq_Dataplane req) = gget (register_dataplane now req dps) (sq_Dataplane req)"
    using assms(1) by (simp add: beat_dataplanes_def Let_def register_dataplane_def gget_gfilter gget_gput forgotten_def
        time_sub_def i64_consts pruneAfter_def hour_def second_def)
  ultimately show ?thesis
    using renew_wrap [OF assms(4)] by (simp add: backed_def lease_of_def register_dataplane_def gget_gput)
qed

lemma beat_held_ok:
  assumes "ledger_ok now (cp_dataplanes s) (cp_ledger s)" "obedient_beat now req s"
    and "list_all (\<lambda>rep. 0 \<le> cr_SpentMicroUSD rep) (sq_Reports req)"
    and "held_ok now (cp_dataplanes s) (cp_ledger s) leases"
  shows "held_ok now (beat_dataplanes now req (cp_dataplanes s)) (beat_ledger now req (cp_dataplanes s) (cp_ledger s))
    (gput (sq_Dataplane req) (granted_leases now (sq_Dataplane req) (beat_ledger now req (cp_dataplanes s) (cp_ledger s))) leases)"
    (is "held_ok now ?dps ?ledger (gput ?e ?new leases)")
proof -
  have ok: "ledger_ok now ?dps ?ledger" by (rule beat_ledger_ok [OF assms(1-3)])
  have dist: "distinct (map report_key (sq_Reports req))" using assms(2) by (simp add: obedient_beat_def)
  have new: "backed ?dps l ?e g" if g: "g \<in> set ?new" "gget ?ledger (grant_key g) = Some l" for g l
  proof -
    obtain k l' where "(k, l') \<in> set ?ledger" "\<not> rl_routingOnly l'" "g = lease_of now ?e k l'"
      using g(1) by (auto simp: granted_leases_def)
    with g(2) ok have "gget ?ledger k = Some l" "\<not> rl_routingOnly l" "g = lease_of now ?e k l" "row_ok l"
      by (auto simp: ledger_ok_def dest: in_set_gget)
    then show ?thesis using assms(1) backed_grant by (auto simp: ledger_ok_def)
  qed
  have old: "backed ?dps l d g"
    if "d \<noteq> ?e" "gget leases d = Some gs" "g \<in> set gs" "gget ?ledger (grant_key g) = Some l" "now \<le> lg_ExpiresAt g" for d gs g l
    using assms(4) that by (intro backed_beat [OF assms(1) that(4) dist that(1,5)] absorbed_row(1) [OF assms(1-3)])
      (auto simp: held_ok_def)
  show ?thesis
    using assms(4) new old granted_distinct [of ?ledger now ?e] ok
    unfolding held_ok_def by (auto simp: gget_gput ledger_ok_def split: if_splits)
qed

lemma handleSync_held:
  assumes "ledger_ok now (cp_dataplanes s) (cp_ledger s)" "held_ok now (cp_dataplanes s) (cp_ledger s) leases"
    and "leased_beat now req s leases"
  shows "\<exists>s' r. handleSync fp machine False now (Some req) s = Some (s', r)
    \<and> ledger_ok now (cp_dataplanes s') (cp_ledger s') \<and> held_ok now (cp_dataplanes s') (cp_ledger s') (hold_answer req r leases)"
proof -
  note beat = leased_obedient [OF assms]
  obtain s' r where s': "handleSync fp machine False now (Some req) s = Some (s', r)" "ledger_ok now (cp_dataplanes s') (cp_ledger s')"
    using handleSync_ok [OF assms(1) beat] by blast
  have "held_ok now (cp_dataplanes s') (cp_ledger s') (hold_answer req r leases)"
  proof (cases r)
    case (SyncOK resp)
    then have hb: "heartbeat fp now req s = Some (s', resp)" and pos: "list_all (\<lambda>rep. 0 \<le> cr_SpentMicroUSD rep) (sq_Reports req)"
      using s'(1) by (auto simp: handleSync_def list_all_iff list_ex_iff not_less split: if_splits)
    then show ?thesis
      using beat_held_ok [OF assms(1) beat pos assms(2)] SyncOK
      by (auto simp: hold_answer_def heartbeat_def Let_def split: option.splits)
  qed (use s'(1) assms(2) in \<open>auto simp: handleSync_def hold_answer_def split: if_splits\<close>)
  with s' show ?thesis by blast
qed

section \<open>Runs\<close>

text \<open>
  A sequence of heartbeats: the time, whether the caller held the machine credential, the request.
  The leases held by the data planes are kept beside the server.
\<close>

fun sync_run ::
    "string \<Rightarrow> (gotime \<times> bool \<times> SyncRequest) list \<Rightarrow> cp_Server \<Rightarrow> held_leases \<Rightarrow> (cp_Server \<times> held_leases) option" where
  "sync_run fp [] s leases = Some (s, leases)"
| "sync_run fp ((now, machine, req) # beats) s leases =
     (case handleSync fp machine False now (Some req) s of
        None \<Rightarrow> None
      | Some (s', r) \<Rightarrow> sync_run fp beats s' (hold_answer req r leases))"

fun leased_run :: "string \<Rightarrow> (gotime \<times> bool \<times> SyncRequest) list \<Rightarrow> cp_Server \<Rightarrow> held_leases \<Rightarrow> bool" where
  "leased_run fp [] s leases \<longleftrightarrow> True"
| "leased_run fp ((now, machine, req) # beats) s leases \<longleftrightarrow>
     leased_beat now req s leases
     \<and> (case handleSync fp machine False now (Some req) s of
          None \<Rightarrow> True
        | Some (s', r) \<Rightarrow> leased_run fp beats s' (hold_answer req r leases))"

lemma sync_run_ok:
  assumes "ledger_ok t (cp_dataplanes s) (cp_ledger s)" "held_ok t (cp_dataplanes s) (cp_ledger s) leases"
    and "leased_run fp beats s leases"
    and "sorted (map fst beats @ [now])" "list_all (\<lambda>b. t \<le> fst b) beats" "t \<le> now"
  shows "\<exists>s' leases'. sync_run fp beats s leases = Some (s', leases') \<and> ledger_ok now (cp_dataplanes s') (cp_ledger s')
    \<and> held_ok now (cp_dataplanes s') (cp_ledger s') leases'"
  using assms
proof (induction fp beats s leases arbitrary: t rule: sync_run.induct)
  case (1 fp s leases)
  then show ?case by (auto intro: ledger_ok_later held_ok_later)
next
  case (2 fp t' machine req beats s leases)
  have t': "t \<le> t'" "t' \<le> now" "list_all (\<lambda>b. t' \<le> fst b) beats"
    using "2.prems"(4,5) by (auto simp: list_all_iff sorted_append)
  obtain s1 r where s1: "handleSync fp machine False t' (Some req) s = Some (s1, r)"
      "ledger_ok t' (cp_dataplanes s1) (cp_ledger s1)" "held_ok t' (cp_dataplanes s1) (cp_ledger s1) (hold_answer req r leases)"
    using handleSync_held [OF ledger_ok_later [OF "2.prems"(1) t'(1)] held_ok_later [OF "2.prems"(2) t'(1)]] "2.prems"(3)
    by fastforce
  show ?case
    using "2.IH" [OF s1(1) refl, of t'] s1 "2.prems"(3,4) t' by auto
qed

section \<open>A new server\<close>

definition fresh_ok :: "ruleLedger \<Rightarrow> bool" where
  "fresh_ok l \<longleftrightarrow> rl_spent l = [] \<and> rl_allowance l = [] \<and> 0 < rl_limitMicro l \<and> rl_limitMicro l \<le> max_i64
     \<and> 0 \<le> rl_grantMicro l \<and> 0 \<le> rl_renew l"

lemma fresh_row_ok: "fresh_ok l \<Longrightarrow> 3 * rl_renew l \<le> pruneAfter \<Longrightarrow> row_ok l"
  by (simp add: fresh_ok_def row_ok_def)

lemma fresh_row_within: "fresh_ok l \<Longrightarrow> within_limit now dps l"
  by (simp add: fresh_ok_def within_limit_def spent_sum_def open_sum_def)

definition fresh_ledger :: "install_state \<Rightarrow> bool" where
  "fresh_ledger st \<longleftrightarrow> gwf (in_ledger st) \<and> (\<forall>k l. gget (in_ledger st) k = Some l \<longrightarrow> fresh_ok l)"

lemma install_rule_fresh:
  assumes "policy_wf p" "r \<in> set (p_Rules p)" "fresh_ledger st"
  shows "fresh_ledger (install_rule [] p r st)"
proof -
  have "fresh_ok (fresh_row p r b)" if "r_Budget r = Some b" "\<not> pb_Unlimited b" for b
  proof -
    have "budget_wf (r_FailurePolicy r) b"
      using assms(1,2) that(1) by (auto simp: policy_wf_def rule_wf_def list_all_iff)
    with that(2) show ?thesis
      by (auto simp: budget_wf_def budget_finite_def fresh_ok_def fresh_row_def unlimited_budget_def
          MinLeaseRenewInterval_def second_def)
  qed
  then show ?thesis
    using assms(3) by (auto simp: install_rule_def fresh_ledger_def carry_row_def Let_def gget_gput split: option.splits)
qed

lemma install_doc_fresh:
  assumes "install_doc [] doc st = Inr st'" "fresh_ledger st"
  shows "fresh_ledger st'"
proof -
  obtain p where p: "FromV1Alpha1 doc = Inr p" "st' = fold (install_rule [] p) (p_Rules p) st"
    using assms(1) by (auto simp: install_doc_def split: sum.splits)
  note wf = converted_policy_wf [OF p(1)]
  show ?thesis
    unfolding p(2) by (rule fold_invariant [where Q = "\<lambda>r. r \<in> set (p_Rules p)"])
      (use assms(2) install_rule_fresh [OF wf] in auto)
qed

lemma new_server_ok:
  assumes "NewServer GenerationOf wire mtimes = Inr s" "list_all (\<lambda>(k, l). 3 * rl_renew l \<le> pruneAfter) (cp_ledger s)"
  shows "ledger_ok now (cp_dataplanes s) (cp_ledger s)"
proof -
  obtain st where st: "rfold (install_doc []) wire \<lparr>in_ledger = [], in_tiers = [], in_minRenew = 0\<rparr> = Inr st"
      "cp_ledger s = in_ledger st" "cp_dataplanes s = []"
    using assms(1) by (auto simp: NewServer_def cp_applyWire_def new_server_def split: option.splits elim!: rbind_InrE)
  have "fresh_ledger st"
    by (rule rfold_invariant [OF st(1), of fresh_ledger]) (simp add: fresh_ledger_def, metis install_doc_fresh)
  then show ?thesis
    using assms(2) st(2,3)
    by (auto simp: ledger_ok_def fresh_ledger_def list_all_iff gget_set_iff intro: fresh_row_ok fresh_row_within)
qed

section \<open>Properties\<close>

text \<open>
  C3: From a new control plane on, however data planes come and go, every heartbeat is answered
  (the tier judgement never panics), and for every admission budget the spend on record plus all
  that the leases last answered to the data planes still allow, counted until the expiry instant
  each lease carries, never exceeds the limit. Assumed: no documents are reloaded in between; time
  does not go back; a data plane sends one report per rule and reports more than before only while
  the lease it holds is valid and within its allowance; and three renew intervals are at most the
  day after which a silent data plane is forgotten. The spend on record is that of the data planes
  heard within that day: what a forgotten one spent is dropped from the ledger.
\<close>

theorem leases_stay_within_budget:
  assumes "NewServer GenerationOf wire mtimes = Inr s"
    and "list_all (\<lambda>(k, l). 3 * rl_renew l \<le> pruneAfter) (cp_ledger s)"
    and "leased_run fp beats s []" "sorted (map fst beats @ [now])"
  shows "\<exists>s' leases. sync_run fp beats s [] = Some (s', leases)
    \<and> (\<forall>k l. gget (cp_ledger s') k = Some l \<longrightarrow> \<not> rl_routingOnly l \<longrightarrow>
          gsum (\<lambda>_ v. v) (rl_spent l) + promised now leases k l \<le> rl_limitMicro l)"
proof -
  define t where "t = hd (map fst beats @ [now])"
  have t: "list_all (\<lambda>b. t \<le> fst b) beats" "t \<le> now"
    using assms(4) by (cases beats; auto simp: t_def list_all_iff sorted_append)+
  have "held_ok t (cp_dataplanes s) (cp_ledger s) []" by (simp add: held_ok_def gwf_def gget_def)
  from sync_run_ok [OF new_server_ok [OF assms(1,2)] this assms(3,4) t]
  obtain s' leases where run: "sync_run fp beats s [] = Some (s', leases)" "ledger_ok now (cp_dataplanes s') (cp_ledger s')"
    "held_ok now (cp_dataplanes s') (cp_ledger s') leases" by blast
  have "gsum (\<lambda>_ v. v) (rl_spent l) + promised now leases k l \<le> rl_limitMicro l"
    if "gget (cp_ledger s') k = Some l" "\<not> rl_routingOnly l" for k l
  proof -
    have "row_ok l" "within_limit now (cp_dataplanes s') l" using run(2) that by (auto simp: ledger_ok_def)
    with promised_le_open [OF _ that(1) run(3)] show ?thesis by (simp add: within_limit_def spent_sum_def)
  qed
  with run(1) show ?thesis by blast
qed

definition sample_lease_document :: "string \<Rightarrow> GovernancePolicy" where
  "sample_lease_document renew =
     sample_document\<lparr>gp_Spec := \<lparr>sp_Subject = \<lparr>ws_Team = ''t'', ws_User = ''''\<rparr>,
       sp_Rules = [(sample_rule ''cap'' FailClosed)\<lparr>w_Budget :=
         Some (sample_budget\<lparr>wb_LimitMilliUSD := 8,
           wb_Lease := \<lparr>ls_GrantMilliUSD = 5, ls_RenewInterval = renew\<rparr>\<rparr>)\<rparr>]\<rparr>\<rparr>"

definition sample_sync :: "string \<Rightarrow> i64 list \<Rightarrow> SyncRequest" where
  "sample_sync d spends =
     \<lparr>sq_IdentityFingerprint = '''', sq_Dataplane = d, sq_APIVersions = [], sq_Generation = '''', sq_Rejections = [],
      sq_Reports = map (\<lambda>v. \<lparr>cr_Policy = ''p'', cr_Rule = ''cap'', cr_Team = ''t'', cr_SpentMicroUSD = v, cr_Period = ''''\<rparr>) spends,
      sq_HasAuthority = False\<rparr>"

definition sample_beats :: "(gotime \<times> bool \<times> SyncRequest) list" where
  "sample_beats =
     [(0, False, sample_sync ''a'' []), (30 * second, False, sample_sync ''b'' []),
      (60 * second, False, sample_sync ''a'' [4000])]"

definition sample_row :: ruleLedger where
  "sample_row =
     \<lparr>rl_team = ''t'', rl_limitMicro = 8000, rl_grantMicro = 5000, rl_renew = 90 * second, rl_hard = True,
      rl_period = CalendarMonth, rl_routingOnly = False, rl_spent = [], rl_allowance = []\<rparr>"

lemma sample_server:
  "case NewServer (\<lambda>_. ''g'') [sample_lease_document ''1m30s''] [] of
     Inl _ \<Rightarrow> False
   | Inr s \<Rightarrow> cp_ledger s = [(\<lparr>rk_policy = ''p'', rk_rule = ''cap''\<rparr>, sample_row)]
       \<and> (leased_run '''' sample_beats s []
       \<and> map_option (\<lambda>(s', leases). (map (\<lambda>(k, l). (k, rl_spent l, rl_routingOnly l, rl_limitMicro l)) (cp_ledger s'),
             map (\<lambda>(d, gs). (d, map (\<lambda>g. (lg_AllowanceMicroUSD g, lg_ExpiresAt g)) gs)) leases))
           (sync_run '''' sample_beats s [])
         = Some ([(\<lparr>rk_policy = ''p'', rk_rule = ''cap''\<rparr>, [(''a'', 4000)], False, 8000)],
             [(''a'', [(5000, 330 * second)]), (''b'', [(3000, 300 * second)])]))"
  by code_simp

theorem leases_stay_within_budget_witness:
  "\<exists>s s' leases l. NewServer (\<lambda>_. ''g'') [sample_lease_document ''1m30s''] [] = Inr s \<and> leased_run '''' sample_beats s []
     \<and> sync_run '''' sample_beats s [] = Some (s', leases)
     \<and> map (\<lambda>(d, gs). (d, map (\<lambda>g. (lg_AllowanceMicroUSD g, lg_ExpiresAt g)) gs)) leases
         = [(''a'', [(5000, 330 * second)]), (''b'', [(3000, 300 * second)])]
     \<and> cp_ledger s' = [(\<lparr>rk_policy = ''p'', rk_rule = ''cap''\<rparr>, l)] \<and> rl_spent l = [(''a'', 4000)]
     \<and> 4000 + promised (90 * second) leases \<lparr>rk_policy = ''p'', rk_rule = ''cap''\<rparr> l \<le> 8000"
proof -
  let ?k = "\<lparr>rk_policy = ''p'', rk_rule = ''cap''\<rparr>"
  obtain s where s: "NewServer (\<lambda>_. ''g'') [sample_lease_document ''1m30s''] [] = Inr s"
    "cp_ledger s = [(?k, sample_row)]" "leased_run '''' sample_beats s []"
    "map_option (\<lambda>(s', leases). (map (\<lambda>(k, l). (k, rl_spent l, rl_routingOnly l, rl_limitMicro l)) (cp_ledger s'),
             map (\<lambda>(d, gs). (d, map (\<lambda>g. (lg_AllowanceMicroUSD g, lg_ExpiresAt g)) gs)) leases))
           (sync_run '''' sample_beats s [])
         = Some ([(?k, [(''a'', 4000)], False, 8000)],
             [(''a'', [(5000, 330 * second)]), (''b'', [(3000, 300 * second)])])"
    using sample_server by (auto split: sum.splits)
  then obtain s' leases l where run: "sync_run '''' sample_beats s [] = Some (s', leases)" "cp_ledger s' = [(?k, l)]"
    "rl_spent l = [(''a'', 4000)]" "\<not> rl_routingOnly l" "rl_limitMicro l = 8000"
    and hand: "map (\<lambda>(d, gs). (d, map (\<lambda>g. (lg_AllowanceMicroUSD g, lg_ExpiresAt g)) gs)) leases
         = [(''a'', [(5000, 330 * second)]), (''b'', [(3000, 300 * second)])]"
    by auto
  have "list_all (\<lambda>(k, l). 3 * rl_renew l \<le> pruneAfter) (cp_ledger s)"
    by (simp add: s(2) sample_row_def second_def pruneAfter_def hour_def)
  moreover have "sorted (map fst sample_beats @ [90 * second])" by (simp add: sample_beats_def second_def)
  moreover have "gget (cp_ledger s') ?k = Some l" by (simp add: run(2) gget_def)
  ultimately have "gsum (\<lambda>_ v. v) (rl_spent l) + promised (90 * second) leases ?k l \<le> 8000"
    using leases_stay_within_budget [OF s(1) _ s(3), of "90 * second"] run(1,4,5) by (metis option.inject prod.inject)
  then have bound: "4000 + promised (90 * second) leases ?k l \<le> 8000" by (simp add: run(3))
  show ?thesis
    by (rule exI [of _ s], rule exI [of _ s'], rule exI [of _ leases], rule exI [of _ l])
      (intro conjI s(1,3) run(1-3) hand bound)
qed

text \<open>
  The assumption on the renew interval is needed: the document format sets no upper bound. Above
  eight hours a lease can outlive the registration of its data plane (\<open>pruning_releases_valid_lease\<close>
  in \<open>Sync_Safety\<close>), and with a century the product \<open>3 * renew\<close> wraps, so that the lease is expired
  when it is granted.
\<close>

lemma century_renew_interval_expires_at_once:
  "case NewServer (\<lambda>_. ''g'') [sample_lease_document ''876000h''] [] of
     Inl _ \<Rightarrow> False
   | Inr s \<Rightarrow>
       (case heartbeat '''' 0 (sample_sync ''a'' []) s of
          None \<Rightarrow> False
        | Some (_, resp) \<Rightarrow> map (\<lambda>g. (lg_AllowanceMicroUSD g, lg_ExpiresAt g < 0)) (sr_Leases resp) = [(5000, True)])"
  by code_simp

end
