(* ===== verification/Sync_Plane.thy ===== *)
theory Sync_Plane
  imports Lease_Ledger Float64 Authority_Types
begin

text \<open>
  The data plane's side of the heartbeat (\<open>src/internal/proxy/sync.go\<close>): the lease table that the
  request path reads, and the syncer that builds a request, validates the answer, and installs
  policies, leases and tiers. The network, the JSON codec, the random source and the client of the
  durable authority are arguments: one \<open>sync_env\<close> holds what they do in one heartbeat. The two
  flags and the time of the last success are atomics, so that a heartbeat is a function on the
  state and the request path reads a state between two steps.
\<close>

section \<open>The lease table\<close>

record Lease =
  le_AllowanceMicroUSD :: i64
  le_ExpiresAt :: gotime
  le_HardCap :: bool

type_synonym LeaseTable = "(string, (string, Lease) gomap) gomap"

definition NewLeaseTable :: LeaseTable where "NewLeaseTable = []"

definition default_period :: "string \<Rightarrow> string" where
  "default_period p = (if p = [] then CalendarMonth else p)"

definition lease_windows :: "LeaseTable \<Rightarrow> string \<Rightarrow> (string, Lease) gomap" where
  "lease_windows t team = (case gget t team of None \<Rightarrow> [] | Some w \<Rightarrow> w)"

definition lease_Get :: "LeaseTable \<Rightarrow> string \<Rightarrow> string \<Rightarrow> Lease option" where
  "lease_Get t team period = gget (lease_windows t team) (default_period period)"

datatype block_reason = LeaseExpired | GlobalBudgetExhausted

definition window_blocked :: "gotime \<Rightarrow> Lease option \<Rightarrow> block_reason option" where
  "window_blocked now l =
     (case l of
        None \<Rightarrow> None
      | Some l \<Rightarrow>
          if \<not> le_HardCap l then None
          else if now > le_ExpiresAt l then Some LeaseExpired
          else if le_AllowanceMicroUSD l \<le> 0 then Some GlobalBudgetExhausted
          else None)"

definition Blocked :: "gotime \<Rightarrow> LeaseTable \<Rightarrow> string \<Rightarrow> block_reason option" where
  "Blocked now t team =
     (let w = lease_windows t team in
      case window_blocked now (gget w CalendarDay) of
        Some r \<Rightarrow> Some r
      | None \<Rightarrow> window_blocked now (gget w CalendarMonth))"

definition grant_lease :: "LeaseGrant \<Rightarrow> Lease" where
  "grant_lease g = \<lparr>le_AllowanceMicroUSD = lg_AllowanceMicroUSD g, le_ExpiresAt = lg_ExpiresAt g, le_HardCap = lg_HardCap g\<rparr>"

definition merge_lease :: "LeaseGrant \<Rightarrow> Lease option \<Rightarrow> Lease" where
  "merge_lease g ol =
     (case ol of
        None \<Rightarrow> grant_lease g
      | Some l \<Rightarrow>
          if lg_HardCap g \<noteq> le_HardCap l then (if lg_HardCap g then grant_lease g else l)
          else l\<lparr>le_AllowanceMicroUSD :=
                   (if lg_AllowanceMicroUSD g < le_AllowanceMicroUSD l then lg_AllowanceMicroUSD g else le_AllowanceMicroUSD l),
                 le_ExpiresAt := (if lg_ExpiresAt g < le_ExpiresAt l then lg_ExpiresAt g else le_ExpiresAt l)\<rparr>)"

definition add_grant :: "LeaseGrant \<Rightarrow> LeaseTable \<Rightarrow> LeaseTable" where
  "add_grant g t =
     (let period = default_period (lg_Period g); w = lease_windows t (lg_Team g)
      in gput (lg_Team g) (gput period (merge_lease g (gget w period)) w) t)"

definition lease_set :: "LeaseGrant list \<Rightarrow> LeaseTable" where
  "lease_set grants = fold add_grant grants []"

section \<open>The syncer\<close>

text \<open>
  A decoded response: the fields of \<open>SyncResponse\<close>, with a slice that was absent told apart from an
  empty one, and the envelope of the durable authority. \<open>ab_DefinitionsMatch\<close> is the verdict of
  \<open>ValidateAuthorityBundle\<close> on the budget definitions.
\<close>

record auth_bundle =
  ab_Protocol :: string
  ab_IdentityFingerprint :: string
  ab_Generation :: string
  ab_Policies :: "GovernancePolicy list option"
  ab_HasBudgets :: bool
  ab_DefinitionsMatch :: bool

record sync_reply =
  rp_IdentityFingerprint :: string
  rp_IdentityPoliciesComplete :: bool
  rp_Generation :: string
  rp_Policies :: "GovernancePolicy list option"
  rp_Leases :: "LeaseGrant list"
  rp_ActiveTiers :: "ActiveTier list"
  rp_SyncIntervalSeconds :: int
  rp_Authority :: "auth_bundle option"

text \<open>A response of the control plane as it arrives: \<open>omitempty\<close> drops an empty slice.\<close>

definition decoded :: "SyncResponse \<Rightarrow> sync_reply" where
  "decoded r =
     \<lparr>rp_IdentityFingerprint = sr_IdentityFingerprint r, rp_IdentityPoliciesComplete = sr_IdentityPoliciesComplete r,
      rp_Generation = sr_Generation r, rp_Policies = (if sr_Policies r = [] then None else Some (sr_Policies r)),
      rp_Leases = sr_Leases r, rp_ActiveTiers = sr_ActiveTiers r, rp_SyncIntervalSeconds = sr_SyncIntervalSeconds r,
      rp_Authority = None\<rparr>"

text \<open>What the request gave: no response, a status other than 200, a body that does not decode, or a reply.\<close>

datatype post_result = TransportError | StatusCode nat | DecodeError | Reply sync_reply

record sync_env =
  env_AuthorityRequestOK :: bool
  env_Post :: post_result
  env_AuthorityApplyOK :: bool
  env_Now :: gotime

record Syncer =
  sy_IdentityConfig :: "identity_Config option"
  sy_Fingerprint :: string
  sy_identityInvalid :: bool
  sy_HasAuthority :: bool
  sy_authorityInvalid :: bool
  sy_Dataplane :: string
  sy_Store :: policy_Store
  sy_Leases :: "LeaseTable option"
  sy_Tiers :: "tier_Table option"
  sy_generation :: string
  sy_pending :: "Rejection list"
  sy_lastSuccess :: gotime

datatype ready_refusal = IdentitySyncMissing | AuthorityResponseInvalid | NeverSynced | PolicyStale

text \<open>\<open>lastSuccess\<close> is zero before the first success.\<close>

definition GovernanceReady :: "gotime \<Rightarrow> duration \<Rightarrow> Syncer \<Rightarrow> ready_refusal option" where
  "GovernanceReady now maxAge s =
     (if sy_identityInvalid s then Some IdentitySyncMissing
      else if sy_authorityInvalid s then Some AuthorityResponseInvalid
      else if sy_lastSuccess s = 0 then Some NeverSynced
      else if maxAge > 0 \<and> time_sub now (sy_lastSuccess s) > maxAge then Some PolicyStale
      else None)"

definition MinPolicySyncInterval :: duration where "MinPolicySyncInterval = 15 * second"

datatype sync_error =
    AuthorityRequestFailed
  | PostFailed
  | BadStatus nat
  | BadReply
  | IdentityDeclarationMismatch
  | UnsolicitedAuthority
  | AuthorityIdentityMismatch
  | SnapshotRequired
  | GenerationMismatch
  | IdentityPolicyRejected
  | InvalidBundle
  | AuthorityApplyFailed
  | DurablePolicyRejected
  | RequiredPolicyRejected

definition identity_on :: "Syncer \<Rightarrow> bool" where
  "identity_on s = identity_required (sy_IdentityConfig s)"

definition policy_reports :: "(string \<Rightarrow> string \<Rightarrow> i64) option \<Rightarrow> Policy \<Rightarrow> ConsumptionReport list" where
  "policy_reports SpentOf p =
     (if ps_Team (p_Subject p) = [] \<or> ps_User (p_Subject p) \<noteq> [] then []
      else List.map_filter (\<lambda>r. map_option (\<lambda>b.
             \<lparr>cr_Policy = p_Name p, cr_Rule = r_Name r, cr_Team = ps_Team (p_Subject p),
              cr_SpentMicroUSD = (case SpentOf of None \<Rightarrow> 0 | Some f \<Rightarrow> f (ps_Team (p_Subject p)) (pb_Period b)),
              cr_Period = pb_Period b\<rparr>) (r_Budget r)) (p_Rules p))"

definition store_policies :: "policy_Store \<Rightarrow> Policy list" where
  "store_policies st = (case st_snap st of None \<Rightarrow> [] | Some sn \<Rightarrow> sn_policies sn)"

definition sync_request :: "(string \<Rightarrow> string \<Rightarrow> i64) option \<Rightarrow> Syncer \<Rightarrow> SyncRequest" where
  "sync_request SpentOf s =
     \<lparr>sq_IdentityFingerprint = (if identity_on s then sy_Fingerprint s else []),
      sq_Dataplane = sy_Dataplane s, sq_APIVersions = SupportedAPIVersions,
      sq_Generation = (if identity_on s \<and> sy_identityInvalid s then [] else sy_generation s),
      sq_Rejections = sy_pending s,
      sq_Reports = (if sy_HasAuthority s then [] else concat (map (policy_reports SpentOf) (store_policies (sy_Store s)))),
      sq_HasAuthority = sy_HasAuthority s\<rparr>"

definition forbidding_status :: "nat \<Rightarrow> bool" where
  "forbidding_status code \<longleftrightarrow> code = 401 \<or> code = 403 \<or> code = 409 \<or> code = 426"

definition identity_fail :: "sync_error \<Rightarrow> Syncer \<Rightarrow> Syncer \<times> (sync_error + 'a)" where
  "identity_fail e s = (s\<lparr>sy_identityInvalid := True\<rparr>, Inl e)"

text \<open>\<open>ValidateAuthorityBundle\<close> up to the comparison of the definitions.\<close>

definition ValidateAuthorityBundle :: "(GovernancePolicy list \<Rightarrow> string) \<Rightarrow> auth_bundle option \<Rightarrow> bool" where
  "ValidateAuthorityBundle GenerationOf ob =
     (case ob of
        None \<Rightarrow> False
      | Some b \<Rightarrow>
          ab_Protocol b = AuthorityProtocol
          \<and> (case ab_Policies b of None \<Rightarrow> False | Some docs \<Rightarrow> ab_HasBudgets b \<and> ab_Generation b = GenerationOf docs)
          \<and> ab_DefinitionsMatch b)"

text \<open>The policies that the response carries for the identity checks.\<close>

definition reply_policies :: "sync_reply \<Rightarrow> GovernancePolicy list option" where
  "reply_policies r =
     (case rp_Authority r of
        Some b \<Rightarrow> ab_Policies b
      | None \<Rightarrow> if rp_IdentityPoliciesComplete r \<and> rp_Policies r = None then Some [] else rp_Policies r)"

definition validate_reply ::
    "(GovernancePolicy list \<Rightarrow> string) \<Rightarrow> sync_reply \<Rightarrow> Syncer \<Rightarrow> sync_error option" where
  "validate_reply GenerationOf r s =
     (let fp = (if identity_on s then sy_Fingerprint s else []); docs = reply_policies r in
      if rp_IdentityFingerprint r \<noteq> fp then Some IdentityDeclarationMismatch
      else if \<not> sy_HasAuthority s \<and> rp_Authority r \<noteq> None then Some UnsolicitedAuthority
      else if (case rp_Authority r of None \<Rightarrow> False | Some b \<Rightarrow> ab_IdentityFingerprint b \<noteq> fp) then Some AuthorityIdentityMismatch
      else if identity_on s \<and> docs = None \<and> (sy_identityInvalid s \<or> sy_generation s = [] \<or> rp_Generation r \<noteq> sy_generation s)
      then Some SnapshotRequired
      else if identity_on s \<and> docs \<noteq> None \<and> GenerationOf (the docs) \<noteq> rp_Generation r then Some GenerationMismatch
      else if ValidateIdentitySubjects (case docs of None \<Rightarrow> [] | Some d \<Rightarrow> d) (sy_IdentityConfig s) \<noteq> None
      then Some IdentityPolicyRejected
      else None)"

text \<open>
  The documents to install: those of the bundle when there is an authority, else those of the
  response itself (an empty complete snapshot when it says so).
\<close>

definition installed_policies :: "sync_reply \<Rightarrow> Syncer \<Rightarrow> GovernancePolicy list option" where
  "installed_policies r s =
     (if sy_HasAuthority s then Option.bind (rp_Authority r) ab_Policies
      else if rp_IdentityPoliciesComplete r \<and> rp_Policies r = None then Some [] else rp_Policies r)"

definition install_authority ::
    "(GovernancePolicy list \<Rightarrow> string) \<Rightarrow> sync_env \<Rightarrow> sync_reply \<Rightarrow> Syncer \<Rightarrow> Syncer \<times> (sync_error + unit)" where
  "install_authority GenerationOf env r s =
     (if \<not> sy_HasAuthority s then (s, Inr ())
      else if \<not> ValidateAuthorityBundle GenerationOf (rp_Authority r)
        \<or> map_option ab_Generation (rp_Authority r) \<noteq> Some (rp_Generation r) \<or> rp_Leases r \<noteq> []
      then (s\<lparr>sy_authorityInvalid := True\<rparr>, Inl InvalidBundle)
      else let s1 = s\<lparr>sy_authorityInvalid := True\<rparr>
           in if env_AuthorityApplyOK env then (s1, Inr ()) else (s1, Inl AuthorityApplyFailed))"

definition install_policies ::
    "(GovernancePolicy list \<Rightarrow> string) \<Rightarrow> sync_reply \<Rightarrow> Syncer \<Rightarrow> Syncer \<times> (sync_error + unit)" where
  "install_policies GenerationOf r s =
     (let s1 = s\<lparr>sy_pending := []\<rparr> in
      case installed_policies r s of
        None \<Rightarrow> (s1, Inr ())
      | Some docs \<Rightarrow>
          (let s2 = (if identity_on s then s1\<lparr>sy_identityInvalid := True\<rparr> else s1) in
           case ApplyWire GenerationOf docs (sy_Store s2) of
             (st, rejected) \<Rightarrow>
               let s3 = s2\<lparr>sy_Store := st, sy_pending := rejected\<rparr>
               in if sy_HasAuthority s \<and> rejected \<noteq> [] then (s3\<lparr>sy_authorityInvalid := True\<rparr>, Inl DurablePolicyRejected)
                  else if identity_on s \<and> rejected \<noteq> [] then identity_fail RequiredPolicyRejected s3
                  else (s3\<lparr>sy_generation := rp_Generation r\<rparr>, Inr ())))"

definition publish :: "sync_env \<Rightarrow> sync_reply \<Rightarrow> Syncer \<Rightarrow> Syncer" where
  "publish env r s =
     s\<lparr>sy_authorityInvalid := (if sy_HasAuthority s then False else sy_authorityInvalid s),
       sy_Leases := map_option (\<lambda>_. lease_set (rp_Leases r)) (sy_Leases s),
       sy_Tiers := map_option (tier_Set (rp_ActiveTiers r)) (sy_Tiers s),
       sy_lastSuccess := env_Now env, sy_identityInvalid := False\<rparr>"

definition next_interval :: "sync_reply \<Rightarrow> duration" where
  "next_interval r =
     (let next = wrap64 (rp_SyncIntervalSeconds r * second) in if next < second then DefaultPolicySyncInterval else next)"

definition accept_reply ::
    "(GovernancePolicy list \<Rightarrow> string) \<Rightarrow> sync_env \<Rightarrow> sync_reply \<Rightarrow> Syncer \<Rightarrow> Syncer \<times> (sync_error + duration)" where
  "accept_reply GenerationOf env r s =
     (case validate_reply GenerationOf r s of
        Some e \<Rightarrow> identity_fail e s
      | None \<Rightarrow>
          (case install_authority GenerationOf env r s of
             (s1, Inl e) \<Rightarrow> (s1, Inl e)
           | (s1, Inr _) \<Rightarrow>
               (case install_policies GenerationOf r s1 of
                  (s2, Inl e) \<Rightarrow> (s2, Inl e)
                | (s2, Inr _) \<Rightarrow> (publish env r s2, Inr (next_interval r)))))"

definition syncOnce ::
    "(GovernancePolicy list \<Rightarrow> string) \<Rightarrow> sync_env \<Rightarrow> Syncer \<Rightarrow> Syncer \<times> (sync_error + duration)" where
  "syncOnce GenerationOf env s =
     (if sy_HasAuthority s \<and> \<not> env_AuthorityRequestOK env then (s, Inl AuthorityRequestFailed)
      else case env_Post env of
        TransportError \<Rightarrow> (s, Inl PostFailed)
      | StatusCode code \<Rightarrow>
          (s\<lparr>sy_identityInvalid := (sy_identityInvalid s \<or> (identity_on s \<and> forbidding_status code)),
             sy_authorityInvalid := (sy_authorityInvalid s \<or> (sy_HasAuthority s \<and> forbidding_status code))\<rparr>, Inl (BadStatus code))
      | DecodeError \<Rightarrow> (if identity_on s then identity_fail BadReply s else (s, Inl BadReply))
      | Reply r \<Rightarrow> accept_reply GenerationOf env r s)"

section \<open>Pacing\<close>

definition backoffJitter :: float64 where "backoffJitter = fl (1 / 5)"

text \<open>\<open>rnd\<close> is the random number; the conversion to a duration truncates.\<close>

definition jitter :: "float64 \<Rightarrow> duration \<Rightarrow> duration" where
  "jitter rnd d =
     (let out = wrap64 (d - \<lfloor>fmul (fmul rnd backoffJitter) (float_of_int d)\<rfloor>)
      in if out < MinPolicySyncInterval then MinPolicySyncInterval else out)"

definition tick_interval :: "float64 \<Rightarrow> duration \<Rightarrow> sync_error + duration \<Rightarrow> duration" where
  "tick_interval rnd prev result =
     (case result of
        Inr next \<Rightarrow> next
      | Inl _ \<Rightarrow>
          let b0 = wrap64 (prev * 2);
              b1 = (if b0 < MinPolicySyncInterval then MinPolicySyncInterval else b0);
              b2 = (if b1 > DefaultPolicySyncInterval then DefaultPolicySyncInterval else b1)
          in jitter rnd b2)"

definition sync_tick ::
    "(GovernancePolicy list \<Rightarrow> string) \<Rightarrow> sync_env \<Rightarrow> float64 \<Rightarrow> duration \<Rightarrow> Syncer \<Rightarrow> Syncer \<times> duration" where
  "sync_tick GenerationOf env rnd prev s =
     (case syncOnce GenerationOf env s of (s', result) \<Rightarrow> (s', tick_interval rnd prev result))"

end
