(* ===== verification/Sync_Safety.thy ===== *)
theory Sync_Safety
  imports Sync_Plane Lease_Bound
begin

text \<open>
  The data plane under the heartbeat: the lease table holds the most restrictive binding grant, a
  lease whose money the control plane gave to others is refused by its holder, a data plane that
  requires identities serves only a complete verified policy set, and retries stay paced.
\<close>

section \<open>The lease table\<close>

definition grants_for :: "string \<Rightarrow> string \<Rightarrow> LeaseGrant list \<Rightarrow> LeaseGrant list" where
  "grants_for team period gs = filter (\<lambda>g. lg_Team g = team \<and> default_period (lg_Period g) = period) gs"

lemma lease_windows_gput: "lease_windows (gput team w t) team' = (if team' = team then w else lease_windows t team')"
  by (simp add: lease_windows_def gget_gput)

lemma lease_set_folds:
  "gget (lease_windows (fold add_grant gs t) team) period =
     fold (\<lambda>g ol. Some (merge_lease g ol)) (grants_for team period gs) (gget (lease_windows t team) period)"
proof (induction gs arbitrary: t)
  case (Cons g gs)
  have "gget (lease_windows (add_grant g t) team) period =
      (if lg_Team g = team \<and> default_period (lg_Period g) = period
       then Some (merge_lease g (gget (lease_windows t team) period)) else gget (lease_windows t team) period)"
    by (auto simp: add_grant_def Let_def lease_windows_gput gget_gput)
  with Cons show ?case by (simp add: grants_for_def)
qed (simp add: grants_for_def)

text \<open>The grants that bind a window: the hard ones if there are any, else all.\<close>

definition binding_grants :: "LeaseGrant list \<Rightarrow> LeaseGrant list" where
  "binding_grants gs = (if list_ex lg_HardCap gs then filter lg_HardCap gs else gs)"

definition merged_lease :: "LeaseGrant list \<Rightarrow> Lease" where
  "merged_lease gs =
     \<lparr>le_AllowanceMicroUSD = Min (lg_AllowanceMicroUSD ` set (binding_grants gs)),
      le_ExpiresAt = Min (lg_ExpiresAt ` set (binding_grants gs)), le_HardCap = list_ex lg_HardCap gs\<rparr>"

lemma binding_grants_snoc:
  "gs \<noteq> [] \<Longrightarrow> binding_grants (gs @ [g]) =
     (if lg_HardCap g = list_ex lg_HardCap gs then binding_grants gs @ [g]
      else if lg_HardCap g then [g] else binding_grants gs)"
  by (auto simp: binding_grants_def list_ex_iff filter_empty_conv)

lemma binding_grants_ne: "gs \<noteq> [] \<Longrightarrow> binding_grants gs \<noteq> []"
  by (auto simp: binding_grants_def list_ex_iff filter_empty_conv)

lemma merge_lease_merged:
  assumes "gs \<noteq> []"
  shows "merge_lease g (Some (merged_lease gs)) = merged_lease (gs @ [g])"
proof -
  have lower: "min a m = (if a < m then a else m)" for a m :: int by simp
  have "Min (insert (f g) (f ` set (binding_grants gs))) = min (f g) (Min (f ` set (binding_grants gs)))" for f :: "LeaseGrant \<Rightarrow> int"
    using binding_grants_ne [OF assms] by (subst Min_insert) auto
  note min = this [unfolded lower]
  show ?thesis
    by (simp add: merged_lease_def binding_grants_snoc [OF assms] merge_lease_def grant_lease_def min)
qed

lemma fold_merged: "fold (\<lambda>g ol. Some (merge_lease g ol)) gs None = (if gs = [] then None else Some (merged_lease gs))"
proof (induction gs rule: rev_induct)
  case (snoc g gs)
  show ?case
  proof (cases "gs = []")
    case True
    then show ?thesis by (simp add: merge_lease_def merged_lease_def grant_lease_def binding_grants_def)
  next
    case False
    then show ?thesis using snoc merge_lease_merged [OF False, of g] by simp
  qed
qed simp

lemma lease_set_Get:
  "gget (lease_windows (lease_set gs) team) period =
     (if grants_for team period gs = [] then None else Some (merged_lease (grants_for team period gs)))"
  unfolding lease_set_def lease_set_folds by (simp add: lease_windows_def fold_merged)

lemma Min_reached:
  assumes "xs \<noteq> []"
  shows "Min (f ` set xs) < (c :: int) \<longleftrightarrow> (\<exists>x\<in>set xs. f x < c)" "Min (f ` set xs) \<le> c \<longleftrightarrow> (\<exists>x\<in>set xs. f x \<le> c)"
  using assms by (auto simp: Min_less_iff Min_le_iff)

lemma hard_grant_binds:
  assumes "g \<in> set gs" "lg_HardCap g"
  shows "le_HardCap (merged_lease gs)" "le_ExpiresAt (merged_lease gs) \<le> lg_ExpiresAt g"
    "le_AllowanceMicroUSD (merged_lease gs) \<le> lg_AllowanceMicroUSD g"
proof -
  have "g \<in> set (binding_grants gs)" "list_ex lg_HardCap gs" using assms by (auto simp: binding_grants_def list_ex_iff)
  then show "le_HardCap (merged_lease gs)" "le_ExpiresAt (merged_lease gs) \<le> lg_ExpiresAt g"
    "le_AllowanceMicroUSD (merged_lease gs) \<le> lg_AllowanceMicroUSD g"
    by (auto simp: merged_lease_def)
qed

lemma hard_grant_blocks:
  assumes "g \<in> set gs" "lg_HardCap g" "lg_Period g = CalendarDay \<or> lg_Period g = CalendarMonth"
    and "now > lg_ExpiresAt g \<or> lg_AllowanceMicroUSD g \<le> 0"
  shows "Blocked now (lease_set gs) (lg_Team g) \<noteq> None"
proof -
  let ?gs = "grants_for (lg_Team g) (lg_Period g) gs"
  have "default_period (lg_Period g) = lg_Period g" using assms(3) by (auto simp: default_period_def CalendarDay_def)
  then have g: "g \<in> set ?gs" using assms(1) by (simp add: grants_for_def)
  then have "gget (lease_windows (lease_set gs) (lg_Team g)) (lg_Period g) = Some (merged_lease ?gs)"
    by (auto simp: lease_set_Get)
  moreover have "window_blocked now (Some (merged_lease ?gs)) \<noteq> None"
    using hard_grant_binds [OF g assms(2)] assms(4) by (auto simp: window_blocked_def)
  ultimately show ?thesis using assms(3) by (auto simp: Blocked_def Let_def split: option.splits)
qed

section \<open>Identity\<close>

text \<open>
  The snapshot enforces a document set: one converted and enforceable policy for each document, in
  order, under distinct names, and the limits merged from exactly these policies.
\<close>

definition enforces :: "policy_Store \<Rightarrow> GovernancePolicy list \<Rightarrow> snapshot \<Rightarrow> bool" where
  "enforces st docs sn \<longleftrightarrow>
     list_all2 (\<lambda>doc p. FromV1Alpha1 doc = Inr p
       \<and> checkEnforceable p (st_routedAndPriced st) (st_observabilityCeiling st) (st_sharedEnforcement st) = None)
       docs (sn_policies sn)
     \<and> distinct (map doc_name docs) \<and> [] \<notin> set (map doc_name docs)
     \<and> sn_teams sn = mergeTeamLimits (sn_policies sn) \<and> sn_users sn = mergeUserLimits (sn_policies sn)"

definition verified_store ::
    "(GovernancePolicy list \<Rightarrow> string) \<Rightarrow> GovernancePolicy list set \<Rightarrow> Syncer \<Rightarrow> bool" where
  "verified_store GenerationOf D s \<longleftrightarrow>
     (\<exists>docs\<in>D. \<exists>sn. sy_generation s = GenerationOf docs \<and> ValidateIdentitySubjects docs (sy_IdentityConfig s) = None
        \<and> st_snap (sy_Store s) = Some sn \<and> sn_generation sn = sy_generation s \<and> enforces (sy_Store s) docs sn)"

text \<open>\<open>D\<close> is the set of the document sets that were received.\<close>

definition identity_inv ::
    "(GovernancePolicy list \<Rightarrow> string) \<Rightarrow> GovernancePolicy list set \<Rightarrow> Syncer \<Rightarrow> bool" where
  "identity_inv GenerationOf D s \<longleftrightarrow>
     (identity_on s \<longrightarrow> \<not> sy_identityInvalid s \<longrightarrow>
        sy_generation s = [] \<and> sy_lastSuccess s = 0 \<or> verified_store GenerationOf D s)"

lemma identity_inv_mono: "identity_inv GenerationOf D s \<Longrightarrow> D \<subseteq> D' \<Longrightarrow> identity_inv GenerationOf D' s"
  unfolding identity_inv_def verified_store_def by blast

lemma identity_on_frame [simp]:
  "identity_on (s\<lparr>sy_identityInvalid := a\<rparr>) = identity_on s" "identity_on (s\<lparr>sy_authorityInvalid := a\<rparr>) = identity_on s"
  "identity_on (s\<lparr>sy_pending := p\<rparr>) = identity_on s" "identity_on (s\<lparr>sy_Store := st\<rparr>) = identity_on s"
  "identity_on (s\<lparr>sy_generation := g\<rparr>) = identity_on s"
  by (simp_all add: identity_on_def)

lemma publish_fields [simp]:
  "sy_IdentityConfig (publish env r s) = sy_IdentityConfig s" "sy_generation (publish env r s) = sy_generation s"
  "sy_Store (publish env r s) = sy_Store s" "identity_on (publish env r s) = identity_on s"
  by (simp_all add: publish_def identity_on_def)

lemma install_authority_frame:
  assumes "install_authority GenerationOf env r s = (s1, x)"
  shows "sy_IdentityConfig s1 = sy_IdentityConfig s" "sy_generation s1 = sy_generation s" "sy_Store s1 = sy_Store s"
    "sy_identityInvalid s1 = sy_identityInvalid s" "sy_lastSuccess s1 = sy_lastSuccess s" "sy_HasAuthority s1 = sy_HasAuthority s"
    "identity_on s1 = identity_on s"
  using assms by (auto simp: install_authority_def Let_def identity_on_def split: if_splits)

lemma install_authority_bundle:
  assumes "install_authority GenerationOf env r s = (s1, Inr x)" "sy_HasAuthority s"
  obtains b docs where "rp_Authority r = Some b" "ab_Policies b = Some docs"
  using assms by (auto simp: install_authority_def ValidateAuthorityBundle_def Let_def split: if_splits option.splits)

text \<open>Accepted documents become the enforced snapshot.\<close>

lemma apply_doc_clean:
  assumes "as_rejected (apply_doc st c doc a) = []"
  obtains p where "as_rejected a = []" "doc_name doc \<noteq> []" "doc_name doc \<notin> set (as_seen a)" "admit st doc = Inr p"
    "as_seen (apply_doc st c doc a) = doc_name doc # as_seen a" "as_accepted (apply_doc st c doc a) = as_accepted a @ [p]"
  using assms by (auto simp: apply_doc_def Let_def split: if_splits sum.splits)

lemma fold_apply_clean:
  assumes "as_rejected (fold (apply_doc st c) docs a) = []"
  shows "\<exists>ps. as_accepted (fold (apply_doc st c) docs a) = as_accepted a @ ps \<and> list_all2 (\<lambda>doc p. admit st doc = Inr p) docs ps
    \<and> as_rejected a = [] \<and> distinct (map doc_name docs) \<and> set (map doc_name docs) \<inter> set (as_seen a) = {}
    \<and> [] \<notin> set (map doc_name docs)"
  using assms
proof (induction docs arbitrary: a)
  case (Cons doc docs)
  let ?a = "apply_doc st c doc a"
  obtain ps where ps: "as_accepted (fold (apply_doc st c) docs ?a) = as_accepted ?a @ ps"
      "list_all2 (\<lambda>doc p. admit st doc = Inr p) docs ps" "as_rejected ?a = []" "distinct (map doc_name docs)"
      "set (map doc_name docs) \<inter> set (as_seen ?a) = {}" "[] \<notin> set (map doc_name docs)"
    using Cons.IH [of ?a] Cons.prems by auto
  obtain p where p: "as_rejected a = []" "doc_name doc \<noteq> []" "doc_name doc \<notin> set (as_seen a)" "admit st doc = Inr p"
      "as_seen ?a = doc_name doc # as_seen a" "as_accepted ?a = as_accepted a @ [p]"
    using ps(3) by (rule apply_doc_clean)
  show ?case using ps p by (intro exI [of _ "p # ps"]) auto
qed simp

lemma admit_Inr:
  "admit st doc = Inr p \<longleftrightarrow> FromV1Alpha1 doc = Inr p
     \<and> checkEnforceable p (st_routedAndPriced st) (st_observabilityCeiling st) (st_sharedEnforcement st) = None"
  by (auto simp: admit_def rbind_def split: sum.splits option.splits)

lemma ApplyWire_accepts:
  assumes "ApplyWire GenerationOf docs st = (st', [])"
  shows "\<exists>sn. st_snap st' = Some sn \<and> sn_generation sn = GenerationOf docs \<and> enforces st' docs sn"
proof -
  let ?a = "apply_loop st docs"
  have clean: "as_rejected ?a = []" and snap: "\<exists>rej. st' = st\<lparr>st_snap := Some \<lparr>sn_generation = GenerationOf docs,
      sn_policies = as_accepted ?a, sn_rejectedRouting = rej, sn_files = [], sn_teams = mergeTeamLimits (as_accepted ?a),
      sn_users = mergeUserLimits (as_accepted ?a), sn_observability = hasObservability (as_accepted ?a)\<rparr>\<rparr>"
    using assms by (auto simp: ApplyWire_def Let_def split: option.splits if_splits)
  from fold_apply_clean [OF clean [unfolded apply_loop_def]]
  have "list_all2 (\<lambda>doc p. admit st doc = Inr p) docs (as_accepted ?a)" "distinct (map doc_name docs)" "[] \<notin> set (map doc_name docs)"
    by (auto simp: apply_loop_def)
  with snap show ?thesis by (auto simp: enforces_def admit_Inr)
qed

lemma validated_documents:
  assumes "validate_reply GenerationOf r s = None" "identity_on s" "sy_HasAuthority s \<longleftrightarrow> rp_Authority r \<noteq> None"
  shows "case installed_policies r s of
      None \<Rightarrow> \<not> sy_identityInvalid s \<and> sy_generation s \<noteq> []
    | Some docs \<Rightarrow> GenerationOf docs = rp_Generation r \<and> ValidateIdentitySubjects docs (sy_IdentityConfig s) = None"
proof -
  have same: "installed_policies r s = reply_policies r"
    using assms(3) by (cases "rp_Authority r") (simp_all add: installed_policies_def reply_policies_def)
  show ?thesis
    using assms(1,2) unfolding same by (auto simp: validate_reply_def Let_def split: if_splits option.splits)
qed

lemma install_policies_error:
  assumes "install_policies GenerationOf r s = (s2, Inl e)" "identity_on s"
  shows "sy_identityInvalid s2"
  using assms by (auto simp: install_policies_def identity_fail_def Let_def split: option.splits if_splits prod.splits)

lemma install_policies_success:
  assumes "install_policies GenerationOf r s = (s2, Inr x)" "identity_on s"
  shows "sy_IdentityConfig s2 = sy_IdentityConfig s \<and> identity_on s2
    \<and> (case installed_policies r s of
         None \<Rightarrow> sy_generation s2 = sy_generation s \<and> sy_Store s2 = sy_Store s
       | Some docs \<Rightarrow> sy_generation s2 = rp_Generation r
           \<and> (\<exists>sn. st_snap (sy_Store s2) = Some sn \<and> sn_generation sn = GenerationOf docs \<and> enforces (sy_Store s2) docs sn))"
proof (cases "installed_policies r s")
  case None
  then show ?thesis using assms by (auto simp: install_policies_def Let_def)
next
  case (Some docs)
  obtain st rejected where applied: "ApplyWire GenerationOf docs (sy_Store s) = (st, rejected)" by fastforce
  then have "rejected = []" "s2 = s\<lparr>sy_pending := [], sy_identityInvalid := True, sy_Store := st, sy_generation := rp_Generation r\<rparr>"
    using assms Some by (auto simp: install_policies_def identity_fail_def Let_def split: if_splits)
  then show ?thesis using Some assms(2) ApplyWire_accepts [of GenerationOf docs "sy_Store s" st] applied by simp
qed

lemma accept_reply_inv:
  assumes "identity_inv GenerationOf D s" "identity_on s" "set_option (reply_policies r) \<subseteq> D"
  shows "identity_inv GenerationOf D (fst (accept_reply GenerationOf env r s))"
proof (cases "validate_reply GenerationOf r s")
  case (Some e)
  then show ?thesis by (simp add: accept_reply_def identity_fail_def identity_inv_def)
next
  case valid: None
  obtain s1 x where s1: "install_authority GenerationOf env r s = (s1, x)" by fastforce
  note frame = install_authority_frame [OF s1]
  show ?thesis
  proof (cases x)
    case (Inl e)
    then show ?thesis
      using valid s1 frame assms(1) by (simp add: accept_reply_def identity_inv_def verified_store_def)
  next
    case (Inr y)
    obtain s2 z where s2: "install_policies GenerationOf r s1 = (s2, z)" by fastforce
    have envelope: "sy_HasAuthority s \<longleftrightarrow> rp_Authority r \<noteq> None"
      using valid install_authority_bundle [of GenerationOf env r s s1 y] s1 Inr
      by (auto simp: validate_reply_def Let_def split: if_splits)
    note docs = validated_documents [OF valid assms(2) envelope]
    have reply: "installed_policies r s = reply_policies r"
      using envelope by (cases "rp_Authority r") (simp_all add: installed_policies_def reply_policies_def)
    have inst: "installed_policies r s1 = installed_policies r s" by (simp add: installed_policies_def frame)
    show ?thesis
    proof (cases z)
      case (Inl e)
      then show ?thesis
        using valid s1 Inr s2 install_policies_error [of GenerationOf r s1 s2 e] assms(2) frame(7)
        by (simp add: accept_reply_def identity_inv_def)
    next
      case z: (Inr w)
      have ok: "install_policies GenerationOf r s1 = (s2, Inr w)" using s2 z by simp
      have "verified_store GenerationOf D s2"
      proof (cases "installed_policies r s")
        case None
        then show ?thesis
          using install_policies_success [OF ok] frame assms docs unfolding inst by (auto simp: verified_store_def identity_inv_def)
      next
        case (Some d)
        then obtain sn where "sy_generation s2 = GenerationOf d" "st_snap (sy_Store s2) = Some sn" "sn_generation sn = GenerationOf d"
            "ValidateIdentitySubjects d (sy_IdentityConfig s2) = None" "enforces (sy_Store s2) d sn"
          using install_policies_success [OF ok] frame assms(2) docs unfolding inst by auto
        moreover have "d \<in> D" using Some reply assms(3) by auto
        ultimately show ?thesis unfolding verified_store_def by metis
      qed
      then show ?thesis
        using valid s1 Inr ok by (simp add: accept_reply_def identity_inv_def verified_store_def)
    qed
  qed
qed

text \<open>The document set that an exchange delivers.\<close>

definition received :: "sync_env \<Rightarrow> GovernancePolicy list set" where
  "received env = (case env_Post env of Reply r \<Rightarrow> set_option (reply_policies r) | _ \<Rightarrow> {})"

lemma syncOnce_inv:
  assumes "identity_inv GenerationOf D s" "received env \<subseteq> D"
  shows "identity_inv GenerationOf D (fst (syncOnce GenerationOf env s))"
proof (cases "identity_on s")
  case True
  then show ?thesis
    using assms accept_reply_inv [OF assms(1) True, of _ env]
    by (auto simp: syncOnce_def received_def identity_fail_def identity_inv_def verified_store_def split: post_result.splits)
next
  case False
  have "sy_IdentityConfig (fst (syncOnce GenerationOf env s)) = sy_IdentityConfig s"
    by (auto simp: syncOnce_def accept_reply_def install_authority_def install_policies_def identity_fail_def Let_def
        split: post_result.splits option.splits prod.splits sum.splits if_splits)
  with False show ?thesis by (simp add: identity_inv_def identity_on_def)
qed

definition sync_steps :: "(GovernancePolicy list \<Rightarrow> string) \<Rightarrow> sync_env list \<Rightarrow> Syncer \<Rightarrow> Syncer" where
  "sync_steps GenerationOf envs s = fold (\<lambda>env s. fst (syncOnce GenerationOf env s)) envs s"

lemma sync_steps_inv:
  "identity_inv GenerationOf D s \<Longrightarrow> (\<Union>env\<in>set envs. received env) \<subseteq> D \<Longrightarrow> identity_inv GenerationOf D (sync_steps GenerationOf envs s)"
  unfolding sync_steps_def by (induction envs arbitrary: s) (simp_all add: syncOnce_inv)

lemma sync_steps_config: "sy_IdentityConfig (sync_steps GenerationOf envs s) = sy_IdentityConfig s"
proof -
  have "sy_IdentityConfig (fst (syncOnce GenerationOf env s)) = sy_IdentityConfig s" for env s
    by (auto simp: syncOnce_def accept_reply_def install_authority_def install_policies_def identity_fail_def Let_def
        split: post_result.splits option.splits prod.splits sum.splits if_splits)
  then show ?thesis unfolding sync_steps_def by (induction envs arbitrary: s) simp_all
qed

section \<open>Pacing\<close>

lemma backoffJitter_range: "0 \<le> backoffJitter" "backoffJitter \<le> 1"
  using fl_nonneg [of "1 / 5"] fl_mono [of "1 / 5" 1] fl_int [of 1] by (simp_all add: backoffJitter_def)

lemma jitter_range:
  assumes "0 \<le> rnd" "rnd \<le> 1" "MinPolicySyncInterval \<le> d" "d \<le> DefaultPolicySyncInterval"
  shows "MinPolicySyncInterval \<le> jitter rnd d" "jitter rnd d \<le> d"
proof -
  note units = MinPolicySyncInterval_def DefaultPolicySyncInterval_def second_def
  have d: "0 \<le> d" "\<bar>d\<bar> \<le> 2 ^ 53" "d \<le> max_i64" using assms(3,4) by (simp_all add: units max_i64_def)
  let ?p = "fmul rnd backoffJitter"
  have p: "0 \<le> ?p" "?p \<le> 1"
    using assms(1,2) backoffJitter_range fl_nonneg [of "rnd * backoffJitter"] fl_mono [of "rnd * backoffJitter" 1] fl_int [of 1]
    by (simp_all add: fmul_def mult_le_one)
  have "0 \<le> fmul ?p (float_of_int d)" "fmul ?p (float_of_int d) \<le> of_int d"
    using p d fl_nonneg [of "?p * of_int d"] fl_mono [of "?p * of_int d" "of_int d"] fl_int [OF d(2)]
      mult_right_mono [OF p(2), of "of_int d"]
    by (simp_all add: fmul_def float_of_int_def)
  then have x: "0 \<le> \<lfloor>fmul ?p (float_of_int d)\<rfloor>" "\<lfloor>fmul ?p (float_of_int d)\<rfloor> \<le> d" by (simp_all add: floor_le_iff)
  then have "0 \<le> d - \<lfloor>fmul ?p (float_of_int d)\<rfloor>" "d - \<lfloor>fmul ?p (float_of_int d)\<rfloor> \<le> max_i64" using d by linarith+
  then have "wrap64 (d - \<lfloor>fmul ?p (float_of_int d)\<rfloor>) = d - \<lfloor>fmul ?p (float_of_int d)\<rfloor>"
    using in_i64_nonneg by (intro wrap64_in_range) blast
  then show "MinPolicySyncInterval \<le> jitter rnd d" "jitter rnd d \<le> d"
    using x assms(3) by (simp_all add: jitter_def Let_def)
qed

section \<open>Properties\<close>

text \<open>
  C40: The lease table refuses exactly what it has to. For each team and window it holds the smallest
  allowance and the earliest expiry of the hard grants if there is one, else of the soft grants,
  whatever the order of the grants; and a team is blocked exactly when one of its hard daily or
  monthly grants has expired or has no allowance. A soft grant never blocks.
\<close>

theorem lease_table_most_restrictive:
  "lease_Get (lease_set gs) team period =
     (if grants_for team (default_period period) gs = [] then None
      else Some (merged_lease (grants_for team (default_period period) gs)))
   \<and> (Blocked now (lease_set gs) team \<noteq> None \<longleftrightarrow>
        list_ex (\<lambda>g. lg_Team g = team \<and> lg_HardCap g
          \<and> (default_period (lg_Period g) = CalendarDay \<or> default_period (lg_Period g) = CalendarMonth)
          \<and> (now > lg_ExpiresAt g \<or> lg_AllowanceMicroUSD g \<le> 0)) gs)"
proof
  let ?bad = "\<lambda>g. now > lg_ExpiresAt g \<or> lg_AllowanceMicroUSD g \<le> 0"
  have window: "window_blocked now (gget (lease_windows (lease_set gs) team) p) \<noteq> None \<longleftrightarrow>
      list_ex (\<lambda>g. lg_HardCap g \<and> ?bad g) (grants_for team p gs)" for p
  proof (cases "list_ex lg_HardCap (grants_for team p gs)")
    case True
    then have ne: "filter lg_HardCap (grants_for team p gs) \<noteq> []" by (auto simp: list_ex_iff filter_empty_conv)
    then have "window_blocked now (Some (merged_lease (grants_for team p gs))) \<noteq> None \<longleftrightarrow>
        list_ex ?bad (filter lg_HardCap (grants_for team p gs))"
      using True Min_reached [OF ne] by (auto simp: window_blocked_def merged_lease_def binding_grants_def list_ex_iff)
    then show ?thesis using True by (auto simp: lease_set_Get list_ex_iff)
  next
    case False
    then show ?thesis by (auto simp: lease_set_Get window_blocked_def merged_lease_def list_ex_iff)
  qed
  have "Blocked now (lease_set gs) team \<noteq> None \<longleftrightarrow>
      window_blocked now (gget (lease_windows (lease_set gs) team) CalendarDay) \<noteq> None
      \<or> window_blocked now (gget (lease_windows (lease_set gs) team) CalendarMonth) \<noteq> None"
    by (simp add: Blocked_def Let_def split: option.splits)
  then show "Blocked now (lease_set gs) team \<noteq> None \<longleftrightarrow>
        list_ex (\<lambda>g. lg_Team g = team \<and> lg_HardCap g
          \<and> (default_period (lg_Period g) = CalendarDay \<or> default_period (lg_Period g) = CalendarMonth)
          \<and> (now > lg_ExpiresAt g \<or> lg_AllowanceMicroUSD g \<le> 0)) gs"
    unfolding window by (auto simp: list_ex_iff grants_for_def)
qed (simp add: lease_Get_def lease_set_Get)

text \<open>
  C15: Money that the control plane takes back is refused by the data plane that held it. Let a
  heartbeat grant leases; from the moment on at which the ledger no longer counts the allowance of
  a silent, still registered data plane as outstanding and hands it to others, the lease table of
  that data plane blocks the team of the hard budget. The clocks are assumed to agree.
\<close>

theorem released_lease_is_refused:
  assumes "heartbeat fp t0 req s = Some (s', resp)"
    and "gget (cp_ledger s') k = Some l" "rl_hard l" "\<not> rl_routingOnly l"
    and "rl_period l = CalendarDay \<or> rl_period l = CalendarMonth"
    and "gget dps (sq_Dataplane req) = Some dp" "dp_LastSeen dp = t0" "lease_lapsed now dps l (sq_Dataplane req)"
  shows "Blocked now (lease_set (sr_Leases resp)) (rl_team l) \<noteq> None"
proof -
  let ?g = "lease_of t0 (sq_Dataplane req) k l"
  have "sr_Leases resp = granted_leases t0 (sq_Dataplane req) (cp_ledger s')"
    using assms(1) by (auto simp: heartbeat_def Let_def split: option.splits prod.splits)
  moreover have "(k, l) \<in> set (cp_ledger s')" using assms(2) by (simp add: gget_def map_of_SomeD)
  ultimately have g: "?g \<in> set (sr_Leases resp)" using assms(4) by (force simp: granted_leases_def)
  have "time_sub now t0 > wrap64 (3 * rl_renew l)" using assms(6-8) by (simp add: lease_lapsed_def)
  moreover have "min_i64 \<le> wrap64 (3 * rl_renew l)" "wrap64 (3 * rl_renew l) \<le> max_i64"
    using wrap64_in_i64 [of "3 * rl_renew l"] by (auto simp: in_i64_def)
  ultimately have "now > lg_ExpiresAt ?g" by (auto simp: time_sub_def lease_of_def)
  then show ?thesis
    using hard_grant_blocks [OF g, of now] assms(3,5) by (simp add: lease_of_def)
qed

text \<open>
  C16: A data plane that requires identities serves only verified policies. Whatever the network, the
  control plane and the authority answer, in whatever order, whenever the readiness gate is open the
  enforced snapshot comes from one complete document set that some answer of the run delivered and
  that passed the identity checks: its policies are the conversions of exactly these documents, in
  order, each enforceable and each under a name of its own, its limits are merged from exactly these
  policies, and the generation that the data plane reports is the fingerprint of the set.
\<close>

theorem ready_data_plane_enforces_verified_policies:
  assumes "identity_required (sy_IdentityConfig s0)" "sy_generation s0 = []" "sy_lastSuccess s0 = 0"
    and "GovernanceReady now maxAge (sync_steps GenerationOf envs s0) = None"
  shows "\<exists>env\<in>set envs. \<exists>r docs sn. env_Post env = Reply r \<and> reply_policies r = Some docs
    \<and> ValidateIdentitySubjects docs (sy_IdentityConfig s0) = None
    \<and> st_snap (sy_Store (sync_steps GenerationOf envs s0)) = Some sn
    \<and> map FromV1Alpha1 docs = map Inr (sn_policies sn)
    \<and> list_all (\<lambda>p. checkEnforceable p (st_routedAndPriced (sy_Store (sync_steps GenerationOf envs s0)))
          (st_observabilityCeiling (sy_Store (sync_steps GenerationOf envs s0)))
          (st_sharedEnforcement (sy_Store (sync_steps GenerationOf envs s0))) = None) (sn_policies sn)
    \<and> distinct (map doc_name docs) \<and> [] \<notin> set (map doc_name docs)
    \<and> sn_teams sn = mergeTeamLimits (sn_policies sn) \<and> sn_users sn = mergeUserLimits (sn_policies sn)
    \<and> sn_generation sn = GenerationOf docs \<and> sy_generation (sync_steps GenerationOf envs s0) = GenerationOf docs"
proof -
  let ?s = "sync_steps GenerationOf envs s0" and ?D = "\<Union>env\<in>set envs. received env"
  have "identity_inv GenerationOf ?D s0" using assms(2,3) by (simp add: identity_inv_def)
  then have "identity_inv GenerationOf ?D ?s" by (rule sync_steps_inv) simp
  moreover have "identity_on ?s" "\<not> sy_identityInvalid ?s" "sy_lastSuccess ?s \<noteq> 0"
    using assms(1,4) by (auto simp: identity_on_def sync_steps_config GovernanceReady_def split: if_splits)
  ultimately have "verified_store GenerationOf ?D ?s" by (auto simp: identity_inv_def)
  then obtain env docs sn where sn: "env \<in> set envs" "docs \<in> received env" "ValidateIdentitySubjects docs (sy_IdentityConfig s0) = None"
      "sy_generation ?s = GenerationOf docs" "st_snap (sy_Store ?s) = Some sn" "sn_generation sn = GenerationOf docs"
      "enforces (sy_Store ?s) docs sn"
    by (auto simp: verified_store_def sync_steps_config)
  obtain r where r: "env_Post env = Reply r" "reply_policies r = Some docs"
    using sn(2) by (cases "env_Post env") (auto simp: received_def)
  have "list_all2 (\<lambda>doc p. FromV1Alpha1 doc = Inr p) docs (sn_policies sn)"
    using sn(7) unfolding enforces_def by (auto elim: list_all2_mono)
  then have "map FromV1Alpha1 docs = map Inr (sn_policies sn)"
    by (simp add: list_all2_conv_all_nth list_eq_iff_nth_eq)
  moreover have "list_all (\<lambda>p. checkEnforceable p (st_routedAndPriced (sy_Store ?s)) (st_observabilityCeiling (sy_Store ?s))
      (st_sharedEnforcement (sy_Store ?s)) = None) (sn_policies sn)"
    using sn(7) by (auto simp: enforces_def list_all_length list_all2_conv_all_nth)
  ultimately show ?thesis using sn r unfolding enforces_def by blast
qed

text \<open>
  C0: Retries are paced: after any failed heartbeat the next one is due between 15 and 60 seconds
  later, whatever the previous interval was (also one whose double overflows) and whatever the
  random source gives.
\<close>

theorem retries_stay_paced:
  assumes "0 \<le> rnd" "rnd < 1" "syncOnce GenerationOf env s = (s', Inl e)"
  shows "15 * second \<le> snd (sync_tick GenerationOf env rnd prev s) \<and> snd (sync_tick GenerationOf env rnd prev s) \<le> 60 * second"
proof -
  let ?b = "min (max (wrap64 (prev * 2)) MinPolicySyncInterval) DefaultPolicySyncInterval"
  have units: "MinPolicySyncInterval = 15 * second" "DefaultPolicySyncInterval = 60 * second" "0 < second"
    by (simp_all add: MinPolicySyncInterval_def DefaultPolicySyncInterval_def second_def)
  have "snd (sync_tick GenerationOf env rnd prev s) = jitter rnd ?b"
    using assms(3) units by (auto simp: sync_tick_def tick_interval_def Let_def min_def max_def)
  moreover have "MinPolicySyncInterval \<le> ?b" "?b \<le> DefaultPolicySyncInterval" using units by auto
  ultimately show ?thesis using jitter_range [of rnd ?b] assms(1,2) units by fastforce
qed

section \<open>Witnesses\<close>

lemma sample_heartbeat:
  "case NewServer (\<lambda>_. ''g'') [sample_lease_document ''1m30s''] [] of
     Inl _ \<Rightarrow> False
   | Inr s \<Rightarrow>
       (case heartbeat '''' 0 (sample_sync ''a'' []) s of
          None \<Rightarrow> False
        | Some (s', resp) \<Rightarrow>
            (case (gget (cp_ledger s') \<lparr>rk_policy = ''p'', rk_rule = ''cap''\<rparr>, gget (cp_dataplanes s') ''a'') of
               (Some l, Some dp) \<Rightarrow>
                 rl_team l = ''t'' \<and> rl_hard l \<and> \<not> rl_routingOnly l \<and> rl_period l = CalendarMonth \<and> dp_LastSeen dp = 0
                 \<and> lease_lapsed (271 * second) (cp_dataplanes s') l ''a''
             | _ \<Rightarrow> False))"
  by code_simp

theorem released_lease_is_refused_witness:
  "\<exists>s s' resp. NewServer (\<lambda>_. ''g'') [sample_lease_document ''1m30s''] [] = Inr s
     \<and> heartbeat '''' 0 (sample_sync ''a'' []) s = Some (s', resp) \<and> Blocked (271 * second) (lease_set (sr_Leases resp)) ''t'' \<noteq> None"
proof -
  obtain s s' resp l dp where run: "NewServer (\<lambda>_. ''g'') [sample_lease_document ''1m30s''] [] = Inr s"
      "heartbeat '''' 0 (sample_sync ''a'' []) s = Some (s', resp)"
      "gget (cp_ledger s') \<lparr>rk_policy = ''p'', rk_rule = ''cap''\<rparr> = Some l" "rl_hard l" "\<not> rl_routingOnly l"
      "rl_period l = CalendarMonth" "gget (cp_dataplanes s') ''a'' = Some dp" "dp_LastSeen dp = 0"
      "lease_lapsed (271 * second) (cp_dataplanes s') l ''a''" "rl_team l = ''t''"
    using sample_heartbeat by (auto split: sum.splits option.splits prod.splits)
  have "sq_Dataplane (sample_sync ''a'' []) = ''a''" by (simp add: sample_sync_def)
  with released_lease_is_refused [OF run(2-5)] run show ?thesis by metis
qed

definition sample_syncer :: Syncer where
  "sample_syncer =
     \<lparr>sy_IdentityConfig = Some \<lparr>ic_Required = True, ic_Valid = True, ic_Bindings = []\<rparr>, sy_Fingerprint = ''f'',
      sy_identityInvalid = False, sy_HasAuthority = False, sy_authorityInvalid = False, sy_Dataplane = ''a'',
      sy_Store = \<lparr>st_paths = [], st_snap = None, st_routedAndPriced = None, st_sharedEnforcement = False,
                  st_identityConfig = None, st_observabilityCeiling = None\<rparr>,
      sy_Leases = Some [], sy_Tiers = None, sy_generation = [], sy_pending = [], sy_lastSuccess = 0\<rparr>"

definition sample_env :: "post_result \<Rightarrow> sync_env" where
  "sample_env post = \<lparr>env_AuthorityRequestOK = True, env_Post = post, env_AuthorityApplyOK = True, env_Now = 5\<rparr>"

definition sample_reply :: "string \<Rightarrow> sync_reply" where
  "sample_reply fp =
     \<lparr>rp_IdentityFingerprint = fp, rp_IdentityPoliciesComplete = True, rp_Generation = ''g'',
      rp_Policies = Some [sample_lease_document ''1m30s''],
      rp_Leases = [], rp_ActiveTiers = [], rp_SyncIntervalSeconds = 30, rp_Authority = None\<rparr>"

definition sample_envs :: "sync_env list" where
  "sample_envs = [sample_env (Reply (sample_reply ''other'')), sample_env TransportError, sample_env (Reply (sample_reply ''f''))]"

lemma sample_ready:
  "GovernanceReady 9 0 (sync_steps (\<lambda>_. ''g'') (take 2 sample_envs) sample_syncer) = Some IdentitySyncMissing"
  "GovernanceReady 9 0 (sync_steps (\<lambda>_. ''g'') sample_envs sample_syncer) = None"
  by code_simp+

theorem ready_data_plane_enforces_verified_policies_witness:
  "\<exists>sn p. st_snap (sy_Store (sync_steps (\<lambda>_. ''g'') sample_envs sample_syncer)) = Some sn \<and> sn_generation sn = ''g''
     \<and> FromV1Alpha1 (sample_lease_document ''1m30s'') = Inr p \<and> sn_policies sn = [p] \<and> sn_teams sn = mergeTeamLimits [p]"
proof -
  have "identity_required (sy_IdentityConfig sample_syncer)" "sy_generation sample_syncer = []" "sy_lastSuccess sample_syncer = 0"
    by (simp_all add: sample_syncer_def identity_required_def)
  from ready_data_plane_enforces_verified_policies [OF this sample_ready(2)]
  obtain env r docs sn where sn: "env \<in> set sample_envs" "env_Post env = Reply r" "reply_policies r = Some docs"
      "st_snap (sy_Store (sync_steps (\<lambda>_. ''g'') sample_envs sample_syncer)) = Some sn"
      "map FromV1Alpha1 docs = map Inr (sn_policies sn)" "sn_teams sn = mergeTeamLimits (sn_policies sn)" "sn_generation sn = ''g''"
    by blast
  have "docs = [sample_lease_document ''1m30s'']"
    using sn(1-3) by (auto simp: sample_envs_def sample_env_def sample_reply_def reply_policies_def)
  with sn show ?thesis by (cases "sn_policies sn") auto
qed

theorem retries_stay_paced_witness:
  "15 * second \<le> snd (sync_tick (\<lambda>_. ''g'') (sample_env TransportError) (1 / 2) max_i64 sample_syncer)
   \<and> snd (sync_tick (\<lambda>_. ''g'') (sample_env TransportError) (1 / 2) max_i64 sample_syncer) \<le> 60 * second"
  by (rule retries_stay_paced [where s' = sample_syncer and e = PostFailed])
    (simp_all add: syncOnce_def sample_env_def sample_syncer_def)

text \<open>
  The data plane has to be still registered: one that was silent for a day is forgotten, and with a
  renew interval of more than eight hours its lease is then still valid. Both data planes below may
  spend 5000 of a hard budget of 8000 at the same time.
\<close>

lemma pruning_releases_valid_lease:
  "case NewServer (\<lambda>_. ''g'') [sample_lease_document ''12h''] [] of
     Inl _ \<Rightarrow> False
   | Inr s \<Rightarrow>
       (case heartbeat '''' 0 (sample_sync ''a'' []) s of
          None \<Rightarrow> False
        | Some (s1, resp1) \<Rightarrow>
            (case heartbeat '''' (25 * hour) (sample_sync ''b'' []) s1 of
               None \<Rightarrow> False
             | Some (s2, resp2) \<Rightarrow>
                 map lg_AllowanceMicroUSD (sr_Leases resp1 @ sr_Leases resp2) = [5000, 5000]
                 \<and> Blocked (26 * hour) (lease_set (sr_Leases resp1)) ''t'' = None
                 \<and> Blocked (26 * hour) (lease_set (sr_Leases resp2)) ''t'' = None))"
  by code_simp

end
