(* ===== verification/Sha256.thy ===== *)
theory Sha256
  imports Prelude "HOL-Library.Word"
begin

text \<open>
  The part of Go's standard library that the audit chain hashes with: \<open>crypto/sha256.Sum256\<close> (FIPS
  180-4) and \<open>encoding/hex.EncodeToString\<close>. A byte is a character, a byte slice a string.
\<close>

unbundle bit_operations_syntax

section \<open>SHA-256\<close>

definition rotr32 :: "nat \<Rightarrow> 32 word \<Rightarrow> 32 word" where
  "rotr32 n x = drop_bit n x OR push_bit (32 - n) x"

text \<open>
  The standard derives its constants from the first primes: the first 32 bits of the fractional
  parts of their cube roots (for the 64 rounds) and of their square roots (for the initial state).
  A number below \<open>19\<^sup>2\<close> is prime if no smaller prime up to 17 divides it. \<open>int_root e n\<close> is the
  integer \<open>e\<close>-th root of \<open>n\<close>, found bit by bit; 36 bits hold the roots below.
\<close>

definition first_primes :: "int list" where
  "first_primes = filter (\<lambda>n. list_all (\<lambda>d. d = n \<or> n mod d \<noteq> 0) [2, 3, 5, 7, 11, 13, 17]) [2..311]"

definition root_bit :: "nat \<Rightarrow> int \<Rightarrow> nat \<Rightarrow> int \<Rightarrow> int" where
  "root_bit e n i r = (if (r + 2 ^ i) ^ e \<le> n then r + 2 ^ i else r)"

definition int_root :: "nat \<Rightarrow> int \<Rightarrow> int" where
  "int_root e n = fold (root_bit e n) (rev [0..<36]) 0"

definition root_fraction :: "nat \<Rightarrow> int \<Rightarrow> 32 word" where
  "root_fraction e p = word_of_int (int_root e (p * 2 ^ (32 * e)))"

definition round_constants :: "32 word list" where
  "round_constants = map (root_fraction 3) first_primes"

definition initial_hash :: "32 word list" where
  "initial_hash = map (root_fraction 2) (take 8 first_primes)"

lemma root_bits_exact:
  assumes "0 \<le> r" "r ^ e \<le> n" "n < (r + 2 ^ k) ^ e"
  shows "let q = fold (root_bit e n) (rev [0..<k]) r in q ^ e \<le> n \<and> n < (q + 1) ^ e"
  using assms
proof (induction k arbitrary: r)
  case (Suc k)
  have twice: "r + 2 ^ k + 2 ^ k = r + 2 ^ Suc k" by simp
  show ?case
  proof (cases "(r + 2 ^ k) ^ e \<le> n")
    case True
    then show ?thesis using Suc.IH [of "r + 2 ^ k"] Suc.prems twice by (simp add: root_bit_def)
  next
    case False
    then show ?thesis using Suc.IH [of r] Suc.prems by (simp add: root_bit_def)
  qed
qed simp

lemma int_root_exact:
  assumes "0 < e" "0 \<le> n" "n < (2 ^ 36) ^ e"
  shows "int_root e n ^ e \<le> n \<and> n < (int_root e n + 1) ^ e"
  using root_bits_exact [of 0 e n 36] assms by (simp add: int_root_def Let_def zero_power)

lemma length_first_primes: "length first_primes = 64"
  by code_simp

text \<open>The message, a one bit, zeros, and the length in bits as a big-endian 64-bit number.\<close>

definition be_bytes :: "nat \<Rightarrow> int \<Rightarrow> char list" where
  "be_bytes n x = map (\<lambda>i. char_of (x div 256 ^ (n - 1 - i))) [0..<n]"

definition sha_pad :: "char list \<Rightarrow> char list" where
  "sha_pad m = m @ [char_of (128 :: nat)] @ replicate ((119 - length m mod 64) mod 64) (char_of (0 :: nat))
     @ be_bytes 8 (8 * int (length m) mod 2 ^ 64)"

function blocks :: "nat \<Rightarrow> 'a list \<Rightarrow> 'a list list" where
  "blocks n xs = (if n = 0 \<or> length xs < n then [] else take n xs # blocks n (drop n xs))"
  by pat_completeness auto
termination by (relation "measure (length \<circ> snd)") auto

declare blocks.simps [simp del]

definition be_word :: "char list \<Rightarrow> 32 word" where
  "be_word bs = fold (\<lambda>b w. push_bit 8 w OR word_of_int (of_char b)) bs 0"

text \<open>The message schedule, latest word first.\<close>

definition schedule_step :: "32 word list \<Rightarrow> 32 word list" where
  "schedule_step ws =
     (let x = ws ! 14; y = ws ! 1;
          s0 = rotr32 7 x XOR rotr32 18 x XOR drop_bit 3 x;
          s1 = rotr32 17 y XOR rotr32 19 y XOR drop_bit 10 y
      in (s1 + ws ! 6 + s0 + ws ! 15) # ws)"

definition schedule :: "32 word list \<Rightarrow> 32 word list" where
  "schedule block = rev ((schedule_step ^^ 48) (rev block))"

fun sha_round :: "32 word \<times> 32 word \<Rightarrow> 32 word list \<Rightarrow> 32 word list" where
  "sha_round (k, w) [a, b, c, d, e, f, g, h] =
     (let t1 = h + (rotr32 6 e XOR rotr32 11 e XOR rotr32 25 e) + ((e AND f) XOR (NOT e AND g)) + k + w;
          t2 = (rotr32 2 a XOR rotr32 13 a XOR rotr32 22 a) + ((a AND b) XOR (a AND c) XOR (b AND c))
      in [t1 + t2, a, b, c, d + t1, e, f, g])"
| "sha_round _ h = h"

definition compress :: "char list \<Rightarrow> 32 word list \<Rightarrow> 32 word list" where
  "compress block h =
     map2 (+) h (fold sha_round (zip round_constants (schedule (map be_word (blocks 4 block)))) h)"

definition Sum256 :: "char list \<Rightarrow> char list" where
  "Sum256 m = concat (map (\<lambda>w. be_bytes 4 (uint w)) (fold compress (blocks 64 (sha_pad m)) initial_hash))"

section \<open>Hexadecimal\<close>

definition hex_digits :: "char list" where "hex_digits = ''0123456789abcdef''"

definition hex_of :: "char list \<Rightarrow> char list" where
  "hex_of bs = concat (map (\<lambda>b. [hex_digits ! (of_char b div 16), hex_digits ! (of_char b mod 16)]) bs)"

end
