(* ===== verification/Audit_Chain.thy ===== *)
theory Audit_Chain
  imports Sha256
begin

text \<open>
  The tamper-evident audit log: the chain writer with its write-ahead log and sinks
  (\<open>src/internal/audit/writer.go\<close>, \<open>wal.go\<close>, \<open>sink.go\<close>), the verification of a log
  (\<open>verify.go\<close>), the external anchor (\<open>anchor.go\<close>, \<open>anchorOnce\<close> of \<open>src/cmd/mayu/gateway.go\<close>) and
  the verification endpoint that compares both (\<open>src/internal/server/auditapi\<close>). One goroutine
  consumes the queue, so the writer is a state transformer on one record at a time. A file is the
  string of its bytes; every write takes the number of bytes after which it fails, if it does. The
  JSON codec of a record is an argument of the definitions: \<open>marshal\<close> is \<open>Record.Canonical\<close>,
  \<open>unmarshal\<close> is \<open>json.Unmarshal\<close> into a \<open>Record\<close>.
\<close>

section \<open>Records and hashes\<close>

text \<open>The fields that the chain reads; the others are in \<open>ar_rest\<close>.\<close>

record 'r audit_Record =
  ar_Event :: string
  ar_Instance :: string
  ar_PrevHash :: string
  ar_rest :: 'r

definition genesisHash :: string where "genesisHash = ''sha256:genesis''"

definition chain_hash :: "string \<Rightarrow> string" where
  "chain_hash canon = ''sha256:'' @ hex_of (Sum256 canon)"

definition newline :: char where "newline = char_of (10 :: nat)"
definition carriage_return :: char where "carriage_return = char_of (13 :: nat)"

section \<open>Reading a log\<close>

text \<open>\<open>ReadBytes\<close> of a newline until the end of the input; the last line may lack its newline.\<close>

fun lines_from :: "string \<Rightarrow> string \<Rightarrow> string list" where
  "lines_from acc [] = (if acc = [] then [] else [acc])"
| "lines_from acc (c # cs) = (if c = newline then acc # lines_from [] cs else lines_from (acc @ [c]) cs)"

definition strip_cr :: "string \<Rightarrow> string" where
  "strip_cr line = (if line \<noteq> [] \<and> last line = carriage_return then butlast line else line)"

definition auditLines :: "string \<Rightarrow> string list" where
  "auditLines input = map strip_cr (lines_from [] input)"

datatype break_reason = UnparseableRecord | PrevHashMismatch

record InstanceState =
  is_HeadHash :: string
  is_Count :: int

record VerifyResult =
  vr_OK :: bool
  vr_Records :: int
  vr_BrokenAt :: int
  vr_Reason :: "break_reason option"
  vr_Instances :: "(string, InstanceState) gomap"

text \<open>The position in the chain that the loops of \<open>Verify\<close> and \<open>HeadAtCount\<close> keep.\<close>

record chain_pos =
  ch_first :: bool
  ch_instance :: string
  ch_expected :: string
  ch_count :: int

definition chain_start :: chain_pos where
  "chain_start = \<lparr>ch_first = True, ch_instance = [], ch_expected = genesisHash, ch_count = 0\<rparr>"

definition enter_segment :: "string \<Rightarrow> chain_pos \<Rightarrow> chain_pos" where
  "enter_segment inst c =
     (if ch_first c \<or> inst \<noteq> ch_instance c
      then \<lparr>ch_first = False, ch_instance = inst, ch_expected = genesisHash, ch_count = 0\<rparr> else c)"

definition chain_step :: "(string \<Rightarrow> 'r audit_Record option) \<Rightarrow> string \<Rightarrow> chain_pos \<Rightarrow> break_reason + chain_pos" where
  "chain_step unmarshal line c =
     (case unmarshal line of
        None \<Rightarrow> Inl UnparseableRecord
      | Some rec \<Rightarrow>
          let c' = enter_segment (ar_Instance rec) c
          in if ar_PrevHash rec \<noteq> ch_expected c' then Inl PrevHashMismatch
             else Inr (c'\<lparr>ch_expected := chain_hash line, ch_count := ch_count c' + 1\<rparr>))"

fun verify_from ::
    "(string \<Rightarrow> 'r audit_Record option) \<Rightarrow> bool \<Rightarrow> string list \<Rightarrow> chain_pos \<Rightarrow> int \<Rightarrow> (string, InstanceState) gomap
     \<Rightarrow> VerifyResult option" where
  "verify_from unmarshal readError [] c n insts =
     (if readError then None
      else Some \<lparr>vr_OK = True, vr_Records = n, vr_BrokenAt = 0, vr_Reason = None, vr_Instances = insts\<rparr>)"
| "verify_from unmarshal readError (line # lines) c n insts =
     (if line = [] then verify_from unmarshal readError lines c n insts
      else
        case chain_step unmarshal line c of
          Inl e \<Rightarrow> Some \<lparr>vr_OK = False, vr_Records = n + 1, vr_BrokenAt = n + 1, vr_Reason = Some e, vr_Instances = insts\<rparr>
        | Inr c' \<Rightarrow> verify_from unmarshal readError lines c' (n + 1)
            (gput (ch_instance c') \<lparr>is_HeadHash = ch_expected c', is_Count = ch_count c'\<rparr> insts))"

text \<open>\<open>None\<close> is the error of the reader.\<close>

definition Verify :: "(string \<Rightarrow> 'r audit_Record option) \<Rightarrow> bool \<Rightarrow> string \<Rightarrow> VerifyResult option" where
  "Verify unmarshal readError input = verify_from unmarshal readError (auditLines input) chain_start 0 []"

fun head_from ::
    "(string \<Rightarrow> 'r audit_Record option) \<Rightarrow> bool \<Rightarrow> string \<Rightarrow> int \<Rightarrow> string list \<Rightarrow> chain_pos \<Rightarrow> (string \<times> bool) option" where
  "head_from unmarshal readError inst count [] c = (if readError then None else Some ([], False))"
| "head_from unmarshal readError inst count (line # lines) c =
     (if line = [] then head_from unmarshal readError inst count lines c
      else
        case chain_step unmarshal line c of
          Inl _ \<Rightarrow> Some ([], False)
        | Inr c' \<Rightarrow> if ch_instance c' = inst \<and> ch_count c' = count then Some (ch_expected c', True)
            else head_from unmarshal readError inst count lines c')"

definition HeadAtCount ::
    "(string \<Rightarrow> 'r audit_Record option) \<Rightarrow> bool \<Rightarrow> string \<Rightarrow> string \<Rightarrow> int \<Rightarrow> (string \<times> bool) option" where
  "HeadAtCount unmarshal readError input inst count =
     head_from unmarshal readError inst count (auditLines input) chain_start"

section \<open>The writer\<close>

record audit_sink =
  sk_required :: bool
  sk_data :: string

record Writer =
  aw_instance :: string
  aw_prevHash :: string
  aw_pending :: int
  aw_count :: int
  aw_head :: "(string \<times> int) option"
  aw_blocked :: nat
  aw_wal :: string
  aw_sinks :: "audit_sink list"

datatype trunc_outcome = TruncOK | TruncFails | SeekFails

text \<open>What the file system does to one record: the bytes after which a write fails, and the truncation.\<close>

record io_faults =
  io_wal :: "nat option"
  io_sink :: "nat \<Rightarrow> nat option"
  io_trunc :: trunc_outcome

definition queueCapacity :: int where "queueCapacity = 1024"
definition blockedBuffer :: nat where "blockedBuffer = 1"
definition blockedWAL :: nat where "blockedWAL = 2"
definition blockedRecord :: nat where "blockedRecord = 3"

datatype ready_reason = BufferFull | WALUnavailable | RecordUnavailable

definition Ready :: "Writer option \<Rightarrow> ready_reason option" where
  "Ready ow =
     (case ow of
        None \<Rightarrow> None
      | Some w \<Rightarrow>
          if aw_blocked w = blockedBuffer then Some BufferFull
          else if aw_blocked w = blockedWAL then Some WALUnavailable
          else if aw_blocked w = blockedRecord then Some RecordUnavailable
          else None)"

definition HeadHash :: "Writer \<Rightarrow> string \<times> int" where
  "HeadHash w = (case aw_head w of None \<Rightarrow> (genesisHash, 0) | Some h \<Rightarrow> h)"

text \<open>\<open>CompareAndSwap(0, reason)\<close>.\<close>

definition block_writer :: "nat \<Rightarrow> Writer \<Rightarrow> Writer" where
  "block_writer reason w = (if aw_blocked w = 0 then w\<lparr>aw_blocked := reason\<rparr> else w)"

text \<open>The record and its newline are appended and synced; a failure leaves a prefix behind.\<close>

definition append_line :: "nat option \<Rightarrow> string \<Rightarrow> string \<Rightarrow> string" where
  "append_line fault canon file =
     (case fault of None \<Rightarrow> file @ canon @ [newline] | Some n \<Rightarrow> file @ take n (canon @ [newline]))"

definition wal_append :: "nat option \<Rightarrow> string \<Rightarrow> Writer \<Rightarrow> Writer" where
  "wal_append fault canon w =
     (let w1 = w\<lparr>aw_wal := append_line fault canon (aw_wal w)\<rparr> in
      case fault of
        None \<Rightarrow> w1\<lparr>aw_pending := aw_pending w + 1, aw_count := aw_count w + 1,
                   aw_head := Some (aw_prevHash w, aw_count w + 1)\<rparr>
      | Some _ \<Rightarrow> block_writer blockedWAL w1)"

definition sinks_write :: "(nat \<Rightarrow> nat option) \<Rightarrow> string \<Rightarrow> audit_sink list \<Rightarrow> audit_sink list" where
  "sinks_write fault canon sinks =
     map2 (\<lambda>i s. s\<lparr>sk_data := append_line (fault i) canon (sk_data s)\<rparr>) [0..<length sinks] sinks"

definition flushedAll :: "(nat \<Rightarrow> nat option) \<Rightarrow> audit_sink list \<Rightarrow> bool" where
  "flushedAll fault sinks = list_all (\<lambda>i. sk_required (sinks ! i) \<longrightarrow> fault i = None) [0..<length sinks]"

definition wal_truncate :: "io_faults \<Rightarrow> Writer \<Rightarrow> Writer" where
  "wal_truncate fl w =
     (if io_wal fl = None \<and> flushedAll (io_sink fl) (aw_sinks w) \<and> aw_pending w = 1
      then (case io_trunc fl of
              TruncOK \<Rightarrow> w\<lparr>aw_wal := [], aw_pending := 0\<rparr>
            | TruncFails \<Rightarrow> block_writer blockedWAL w
            | SeekFails \<Rightarrow> block_writer blockedWAL (w\<lparr>aw_wal := []\<rparr>))
      else w)"

definition stamp :: "Writer \<Rightarrow> 'r audit_Record \<Rightarrow> 'r audit_Record" where
  "stamp w rec = rec\<lparr>ar_Instance := aw_instance w, ar_PrevHash := aw_prevHash w\<rparr>"

definition loop_step :: "('r audit_Record \<Rightarrow> string option) \<Rightarrow> io_faults \<Rightarrow> 'r audit_Record \<Rightarrow> Writer \<Rightarrow> Writer" where
  "loop_step marshal fl rec w =
     (case marshal (stamp w rec) of
        None \<Rightarrow> block_writer blockedRecord w
      | Some canon \<Rightarrow>
          let w1 = wal_append (io_wal fl) canon (w\<lparr>aw_prevHash := chain_hash canon\<rparr>);
              w2 = w1\<lparr>aw_sinks := sinks_write (io_sink fl) canon (aw_sinks w1)\<rparr>;
              w3 = wal_truncate fl w2
          in if aw_pending w3 \<ge> queueCapacity then block_writer blockedBuffer w3 else w3)"

fun audit_loop ::
    "('r audit_Record \<Rightarrow> string option) \<Rightarrow> (io_faults \<times> 'r audit_Record) list \<Rightarrow> Writer \<Rightarrow> Writer" where
  "audit_loop marshal [] w = w"
| "audit_loop marshal ((fl, rec) # evs) w = audit_loop marshal evs (loop_step marshal fl rec w)"

section \<open>Opening a retained log\<close>

definition hex_char :: "char \<Rightarrow> bool" where
  "hex_char c \<longleftrightarrow> c \<in> set ''0123456789abcdefABCDEF''"

definition hash_shaped :: "string \<Rightarrow> bool" where
  "hash_shaped h \<longleftrightarrow>
     h = genesisHash \<or> (take 7 h = ''sha256:'' \<and> length (drop 7 h) = 64 \<and> list_all hex_char (drop 7 h))"

text \<open>The state of the replay: the records so far, the instance and the hash the next record must carry.\<close>

definition retain_line ::
    "(string \<Rightarrow> 'r audit_Record option) \<Rightarrow> string \<Rightarrow> int \<times> string \<times> string \<Rightarrow> (int \<times> string \<times> string) option" where
  "retain_line unmarshal line s =
     (case s of (count, inst, expected) \<Rightarrow>
      (case unmarshal line of
        None \<Rightarrow> None
      | Some rec \<Rightarrow>
          if ar_Event rec = [] \<or> ar_Instance rec = [] \<or> ar_PrevHash rec = [] then None
          else if \<not> hash_shaped (ar_PrevHash rec) then None
          else if count > 0 \<and> ar_PrevHash rec \<noteq> (if ar_Instance rec \<noteq> inst then genesisHash else expected) then None
          else Some (count + 1, ar_Instance rec, chain_hash line)))"

fun retain_lines ::
    "(string \<Rightarrow> 'r audit_Record option) \<Rightarrow> string list \<Rightarrow> int \<times> string \<times> string \<Rightarrow> (int \<times> string \<times> string) option" where
  "retain_lines unmarshal [] s = Some s"
| "retain_lines unmarshal (line # lines) s =
     (if line = [] then retain_lines unmarshal lines s
      else Option.bind (retain_line unmarshal line s) (retain_lines unmarshal lines))"

definition retainedRecords :: "(string \<Rightarrow> 'r audit_Record option) \<Rightarrow> string \<Rightarrow> int option" where
  "retainedRecords unmarshal wal =
     (if wal = [] then Some 0
      else if last wal \<noteq> newline then None
      else map_option fst (retain_lines unmarshal (lines_from [] wal) (0, [], [])))"

datatype writer_error = UnsupportedFailureMode | WALOpenFailed | RetainedWALMalformed

text \<open>The write-ahead log is its bytes, or \<open>None\<close> when it cannot be opened or read.\<close>

definition NewWriter ::
    "(string \<Rightarrow> 'r audit_Record option) \<Rightarrow> string \<Rightarrow> string \<Rightarrow> string option \<Rightarrow> audit_sink list \<Rightarrow> writer_error + Writer" where
  "NewWriter unmarshal failureMode inst wal sinks =
     (if failureMode \<noteq> [] \<and> failureMode \<noteq> ''buffer_then_block'' then Inl UnsupportedFailureMode
      else case wal of
        None \<Rightarrow> Inl WALOpenFailed
      | Some bytes \<Rightarrow>
          (case retainedRecords unmarshal bytes of
             None \<Rightarrow> Inl RetainedWALMalformed
           | Some pending \<Rightarrow>
               Inr \<lparr>aw_instance = inst, aw_prevHash = genesisHash, aw_pending = pending, aw_count = 0, aw_head = None,
                    aw_blocked = (if pending \<ge> queueCapacity then blockedBuffer else 0), aw_wal = bytes, aw_sinks = sinks\<rparr>))"

section \<open>The anchor\<close>

record AnchorPoint =
  ap_Instance :: string
  ap_HeadHash :: string
  ap_Count :: int
  ap_TS :: string

text \<open>\<open>anchorOnce\<close>: the point that is sent, and the last count that was stored successfully.\<close>

definition anchorOnce :: "Writer \<Rightarrow> string \<Rightarrow> bool \<Rightarrow> int \<Rightarrow> AnchorPoint option \<times> int" where
  "anchorOnce w ts stored anchorLast =
     (case HeadHash w of
        (hash, count) \<Rightarrow>
          if count \<le> anchorLast then (None, anchorLast)
          else (Some \<lparr>ap_Instance = aw_instance w, ap_HeadHash = hash, ap_Count = count, ap_TS = ts\<rparr>,
                if stored then count else anchorLast))"

section \<open>The verification endpoint\<close>

datatype sink_reason =
    FileUnreadable
  | NotRegular
  | TooLarge
  | VerifyError
  | ChainBroken break_reason
  | FewerThanAnchor
  | HeadMismatch
  | PositionMismatch

record SinkResult =
  sr_OK :: bool
  sr_Records :: int
  sr_BrokenAt :: int
  sr_Reason :: "sink_reason option"
  sr_PartialTail :: bool
  sr_AnchorChecked :: bool

definition maxVerifyBytes :: nat where "maxVerifyBytes = 16777216"

datatype sink_file = Unreadable | Irregular | Bytes string

text \<open>The answer of \<open>AnchorReader.Latest\<close>; there may be no reader at all.\<close>

datatype anchor_answer = AnchorError | NoAnchor | Anchored AnchorPoint

definition checkAnchor ::
    "(string \<Rightarrow> 'r audit_Record option) \<Rightarrow> string \<Rightarrow> VerifyResult \<Rightarrow> anchor_answer \<Rightarrow> string \<Rightarrow> SinkResult \<Rightarrow> SinkResult" where
  "checkAnchor unmarshal input vr answer inst res =
     (case answer of
        AnchorError \<Rightarrow> res
      | NoAnchor \<Rightarrow> res
      | Anchored a \<Rightarrow>
          let res1 = res\<lparr>sr_AnchorChecked := True\<rparr>;
              st = (case gget (vr_Instances vr) inst of None \<Rightarrow> \<lparr>is_HeadHash = [], is_Count = 0\<rparr> | Some st \<Rightarrow> st)
          in if is_Count st < ap_Count a then res1\<lparr>sr_OK := False, sr_Reason := Some FewerThanAnchor\<rparr>
             else if is_Count st = ap_Count a
             then (if is_HeadHash st \<noteq> ap_HeadHash a then res1\<lparr>sr_OK := False, sr_Reason := Some HeadMismatch\<rparr> else res1)
             else (case HeadAtCount unmarshal False input inst (ap_Count a) of
                     None \<Rightarrow> res1
                   | Some (got, found) \<Rightarrow>
                       if \<not> found \<or> got \<noteq> ap_HeadHash a
                       then res1\<lparr>sr_OK := False, sr_Reason := Some PositionMismatch\<rparr> else res1))"

text \<open>The prefix up to the last newline.\<close>

definition complete_prefix :: "string \<Rightarrow> string" where
  "complete_prefix input = rev (dropWhile (\<lambda>c. c \<noteq> newline) (rev input))"

definition verifyFile ::
    "(string \<Rightarrow> 'r audit_Record option) \<Rightarrow> sink_file \<Rightarrow> anchor_answer option \<Rightarrow> string \<Rightarrow> SinkResult" where
  "verifyFile unmarshal file reader inst =
     (let res0 = \<lparr>sr_OK = False, sr_Records = 0, sr_BrokenAt = 0, sr_Reason = None, sr_PartialTail = False,
                  sr_AnchorChecked = False\<rparr> in
      case file of
        Unreadable \<Rightarrow> res0\<lparr>sr_Reason := Some FileUnreadable\<rparr>
      | Irregular \<Rightarrow> res0\<lparr>sr_Reason := Some NotRegular\<rparr>
      | Bytes input \<Rightarrow>
          if length input > maxVerifyBytes then res0\<lparr>sr_Reason := Some TooLarge\<rparr>
          else
            let whole = complete_prefix input;
                res1 = res0\<lparr>sr_PartialTail := (whole \<noteq> input)\<rparr>
            in case Verify unmarshal False whole of
                 None \<Rightarrow> res1\<lparr>sr_Reason := Some VerifyError\<rparr>
               | Some vr \<Rightarrow>
                   let res2 = res1\<lparr>sr_OK := vr_OK vr, sr_Records := vr_Records vr, sr_BrokenAt := vr_BrokenAt vr,
                                    sr_Reason := (if vr_OK vr then None else map_option ChainBroken (vr_Reason vr))\<rparr>
                   in (case reader of
                         Some answer \<Rightarrow> if sr_OK res2 then checkAnchor unmarshal whole vr answer inst res2 else res2
                       | None \<Rightarrow> res2))"

end
