(* ===== verification/Audit_Evidence.thy ===== *)
theory Audit_Evidence
  imports Audit_Chain "HOL-Library.Sublist"
begin

text \<open>
  What the audit log proves: an anchored history cannot be rewritten without giving some line of the
  file the SHA-256 digest of a different record of the log; the log of an honest writer raises no alarm, and a failed append to the write-ahead log makes
  later anchors accuse an honest log.
\<close>

section \<open>Hashes\<close>

text \<open>Two given lines collide; \<open>colliding\<close> finds a line of one list that collides with one of another.\<close>

definition collides :: "string \<Rightarrow> string \<Rightarrow> bool" where
  "collides x y \<longleftrightarrow> x \<noteq> y \<and> Sum256 x = Sum256 y"

definition colliding :: "string list \<Rightarrow> string list \<Rightarrow> bool" where
  "colliding xs ys \<longleftrightarrow> list_ex (\<lambda>x. list_ex (collides x) ys) xs"

lemma collidingI: "x \<in> set xs \<Longrightarrow> y \<in> set ys \<Longrightarrow> collides x y \<Longrightarrow> colliding xs ys"
  by (auto simp: colliding_def list_ex_iff)

lemma colliding_mono: "colliding xs ys \<Longrightarrow> set xs \<subseteq> set xs' \<Longrightarrow> set ys \<subseteq> set ys' \<Longrightarrow> colliding xs' ys'"
  unfolding colliding_def list_ex_iff by blast

lemma hex_digits_inj: "i < 16 \<Longrightarrow> j < 16 \<Longrightarrow> hex_digits ! i = hex_digits ! j \<longleftrightarrow> i = j"
  by (rule nth_eq_iff_index_eq) (simp_all add: hex_digits_def)

lemma of_char_less: "of_char c < (256 :: nat)"
  by simp

lemma hex_of_Cons: "hex_of (b # bs) = hex_digits ! (of_char b div 16) # hex_digits ! (of_char b mod 16) # hex_of bs"
  by (simp add: hex_of_def)

lemma hex_of_Nil [simp]: "hex_of [] = []"
  by (simp add: hex_of_def)

lemma hex_of_inj: "hex_of xs = hex_of ys \<longleftrightarrow> xs = ys"
proof (induction xs arbitrary: ys)
  case Nil
  then show ?case by (cases ys) (simp_all add: hex_of_Cons)
next
  case (Cons x xs)
  have byte: "of_char x div 16 = of_char y div (16 :: nat) \<and> of_char x mod 16 = of_char y mod (16 :: nat) \<longleftrightarrow> x = y" for y
    by (metis div_mult_mod_eq of_char_eq_iff)
  show ?case
    using Cons of_char_less byte by (cases ys) (auto simp: hex_of_Cons hex_digits_inj less_mult_imp_div_less)
qed

lemma length_hex_of [simp]: "length (hex_of bs) = 2 * length bs"
  by (induction bs) (simp_all add: hex_of_Cons)

lemma hex_of_chars: "list_all hex_char (hex_of bs)"
proof -
  have "hex_char (hex_digits ! i)" if "i < 16" for i
    using that nth_mem [of i hex_digits] by (auto simp: hex_digits_def hex_char_def)
  then show ?thesis using of_char_less by (induction bs) (auto simp: hex_of_Cons less_mult_imp_div_less)
qed

lemma sha_round_length: "length (sha_round kw h) = length h"
  by (cases "(kw, h)" rule: sha_round.cases) (simp_all add: Let_def)

lemma length_schedule: "length block = 16 \<Longrightarrow> length (schedule block) = 64"
proof -
  have "length ((schedule_step ^^ n) ws) = n + length ws" for n ws
    by (induction n) (simp_all add: schedule_step_def Let_def)
  then show "length block = 16 \<Longrightarrow> ?thesis" by (simp add: schedule_def)
qed

lemma compress_length: "length (compress block h) = length h"
proof -
  have "length (fold sha_round kws h) = length h" for kws h
    by (induction kws arbitrary: h) (simp_all add: sha_round_length)
  then show ?thesis by (simp add: compress_def)
qed

lemma Sum256_length: "length (Sum256 m) = 32"
proof -
  have "length (fold compress bs h) = length h" for bs h
    by (induction bs arbitrary: h) (simp_all add: compress_length)
  moreover have "length (concat (map (\<lambda>w. be_bytes 4 (uint w)) ws)) = 4 * length ws" for ws :: "32 word list"
    by (induction ws) (simp_all add: be_bytes_def)
  ultimately show ?thesis by (simp add: Sum256_def initial_hash_def length_first_primes)
qed

lemma chain_hash_eq: "chain_hash x = chain_hash y \<longleftrightarrow> Sum256 x = Sum256 y"
  by (simp add: chain_hash_def hex_of_inj)

lemma chain_hash_eqD: "chain_hash x = chain_hash y \<Longrightarrow> x = y \<or> collides x y"
  by (auto simp: chain_hash_eq collides_def)

lemma chain_hash_not_genesis: "chain_hash x \<noteq> genesisHash"
proof
  assume "chain_hash x = genesisHash"
  then have "length (chain_hash x) = length genesisHash" by simp
  then show False by (simp add: chain_hash_def genesisHash_def Sum256_length)
qed

lemma hash_shaped_chain: "hash_shaped (chain_hash x)"
  using hex_of_chars by (simp add: hash_shaped_def chain_hash_def Sum256_length)

lemma hash_shaped_genesis [simp]: "hash_shaped genesisHash"
  by (simp add: hash_shaped_def)

section \<open>Framing\<close>

definition frame :: "string list \<Rightarrow> string" where
  "frame ls = concat (map (\<lambda>l. l @ [newline]) ls)"

lemma frame_simps [simp]: "frame [] = []" "frame (l # ls) = l @ newline # frame ls" "frame (ls @ ls') = frame ls @ frame ls'"
  by (simp_all add: frame_def)

lemma lines_from_line: "newline \<notin> set l \<Longrightarrow> lines_from acc (l @ newline # rest) = (acc @ l) # lines_from [] rest"
  by (induction l arbitrary: acc) auto

lemma lines_from_frame: "list_all (\<lambda>l. newline \<notin> set l) ls \<Longrightarrow> lines_from [] (frame ls @ rest) = ls @ lines_from [] rest"
  by (induction ls) (simp_all add: lines_from_line)

lemma lines_from_terminated:
  "d \<noteq> [] \<Longrightarrow> last d = newline \<Longrightarrow> lines_from acc (d @ x) = lines_from acc d @ lines_from [] x"
proof (induction d arbitrary: acc)
  case (Cons c d)
  then show ?case by (cases d) auto
qed simp

definition terminated :: "string \<Rightarrow> bool" where
  "terminated d \<longleftrightarrow> d = [] \<or> last d = newline"

lemma terminated_frame: "terminated d \<Longrightarrow> terminated (d @ frame ls)"
  by (cases ls rule: rev_cases) (auto simp: terminated_def)

lemma complete_prefix_terminated [simp]:
  assumes "terminated d"
  shows "complete_prefix d = d"
proof (cases d rule: rev_cases)
  case (snoc d' c)
  then show ?thesis using assms by (simp add: complete_prefix_def terminated_def)
qed (simp add: complete_prefix_def)

text \<open>The records of a log: its lines that are not empty.\<close>

definition entries :: "string \<Rightarrow> string list" where
  "entries input = filter (\<lambda>l. l \<noteq> []) (auditLines input)"

definition clean_line :: "string \<Rightarrow> bool" where
  "clean_line l \<longleftrightarrow> l \<noteq> [] \<and> newline \<notin> set l \<and> last l \<noteq> carriage_return"

lemma entries_append:
  assumes "terminated d" "list_all clean_line ls"
  shows "entries (d @ frame ls) = entries d @ ls"
proof -
  have "lines_from [] (d @ frame ls) = lines_from [] d @ lines_from [] (frame ls)"
    using assms(1) lines_from_terminated by (cases "d = []") (auto simp: terminated_def)
  moreover have "lines_from [] (frame ls) = ls"
    using lines_from_frame [of ls "[]"] assms(2) by (simp add: clean_line_def list_all_iff)
  moreover have "filter (\<lambda>l. l \<noteq> []) (map strip_cr ls) = ls"
    using assms(2) by (induction ls) (simp_all add: clean_line_def strip_cr_def)
  ultimately show ?thesis by (simp add: entries_def auditLines_def)
qed

section \<open>Chains\<close>

definition links :: "(string \<Rightarrow> 'r audit_Record option) \<Rightarrow> string \<Rightarrow> string \<Rightarrow> string \<Rightarrow> bool" where
  "links u inst prev l \<longleftrightarrow> (case u l of None \<Rightarrow> False | Some r \<Rightarrow> ar_Instance r = inst \<and> ar_PrevHash r = prev)"

fun linked :: "(string \<Rightarrow> 'r audit_Record option) \<Rightarrow> string \<Rightarrow> string \<Rightarrow> string list \<Rightarrow> bool" where
  "linked u inst prev [] \<longleftrightarrow> True"
| "linked u inst prev (l # ls) \<longleftrightarrow> links u inst prev l \<and> linked u inst (chain_hash l) ls"

definition chain_end :: "string \<Rightarrow> string list \<Rightarrow> string" where
  "chain_end prev ls = (if ls = [] then prev else chain_hash (last ls))"

lemma chain_end_simps [simp]:
  "chain_end prev [] = prev" "chain_end prev (ls @ [l]) = chain_hash l" "chain_end prev (l # ls) = chain_end (chain_hash l) ls"
  by (simp_all add: chain_end_def)

lemma chain_end_append: "chain_end g (xs @ ys) = chain_end (chain_end g xs) ys"
  by (simp add: chain_end_def)

lemma linked_append: "linked u inst prev (xs @ ys) \<longleftrightarrow> linked u inst prev xs \<and> linked u inst (chain_end prev xs) ys"
  by (induction xs arbitrary: prev) simp_all

lemma linked_unique:
  assumes "linked u inst g xs" "linked u inst g ys" "length xs = length ys" "chain_end g xs = chain_end g ys"
  shows "xs = ys \<or> colliding xs ys"
  using assms
proof (induction xs arbitrary: ys rule: rev_induct)
  case (snoc x xs)
  obtain ys' y where ys: "ys = ys' @ [y]" using snoc.prems(3) by (cases ys rule: rev_cases) auto
  consider "collides x y" | "x = y" using snoc.prems(4) chain_hash_eqD by (auto simp: ys)
  then show ?case
  proof cases
    case 1
    then show ?thesis by (auto simp: ys intro: collidingI)
  next
    case 2
    have "chain_end g xs = chain_end g ys'"
      using snoc.prems(1,2) 2 by (auto simp: ys linked_append links_def split: option.splits)
    moreover have "linked u inst g xs" "linked u inst g ys'" "length xs = length ys'"
      using snoc.prems by (simp_all add: ys linked_append)
    ultimately have "xs = ys' \<or> colliding xs ys'" by (intro snoc.IH)
    then show ?thesis using 2 colliding_mono [of xs ys' "xs @ [x]" ys] by (auto simp: ys)
  qed
qed simp

text \<open>Two positions of one chain never carry the same hash, unless two records of the chain collide.\<close>

lemma chain_positions_differ:
  assumes "linked u inst genesisHash (xs @ ys)" "ys \<noteq> []" "chain_end genesisHash xs = chain_end genesisHash (xs @ ys)"
  shows "colliding (xs @ ys) (xs @ ys)"
  using assms
proof (induction xs arbitrary: ys rule: rev_induct)
  case Nil
  then show ?case using chain_hash_not_genesis by (simp add: chain_end_def split: if_splits) metis
next
  case (snoc x xs)
  obtain ys' y where ys: "ys = ys' @ [y]" using snoc.prems(2) by (cases ys rule: rev_cases) auto
  have "chain_hash x = chain_hash y" using snoc.prems(3) by (simp add: ys flip: append_assoc)
  then consider "collides x y" | "x = y" using chain_hash_eqD by blast
  then show ?case
  proof cases
    case 1
    then show ?thesis by (intro collidingI [of x _ y]) (auto simp: ys)
  next
    case 2
    have "linked u inst genesisHash (xs @ ([x] @ ys'))" and link: "links u inst (chain_end genesisHash ((xs @ [x]) @ ys')) y"
      using snoc.prems(1) by (simp_all add: ys linked_append chain_end_append)
    moreover have "links u inst (chain_end genesisHash xs) x" using snoc.prems(1) by (simp add: linked_append)
    ultimately have "colliding (xs @ ([x] @ ys')) (xs @ ([x] @ ys'))"
      using snoc.IH [of "[x] @ ys'"] 2 by (auto simp: links_def split: option.splits)
    then show ?thesis by (rule colliding_mono) (auto simp: ys)
  qed
qed

section \<open>What a verification establishes\<close>

text \<open>The log contains, one after another, \<open>n\<close> linked records of the instance that end with hash \<open>h\<close>.\<close>

definition anchored :: "(string \<Rightarrow> 'r audit_Record option) \<Rightarrow> string list \<Rightarrow> string \<Rightarrow> int \<Rightarrow> string \<Rightarrow> bool" where
  "anchored u ls inst n h \<longleftrightarrow>
     (\<exists>pre seg post. ls = pre @ seg @ post \<and> seg \<noteq> [] \<and> linked u inst genesisHash seg
        \<and> int (length seg) = n \<and> h = chain_end genesisHash seg)"

definition pos_ok :: "(string \<Rightarrow> 'r audit_Record option) \<Rightarrow> string list \<Rightarrow> chain_pos \<Rightarrow> bool" where
  "pos_ok u ls c \<longleftrightarrow>
     (if ch_first c then ls = []
      else \<exists>pre seg. ls = pre @ seg \<and> seg \<noteq> [] \<and> linked u (ch_instance c) genesisHash seg
        \<and> ch_expected c = chain_end genesisHash seg \<and> ch_count c = int (length seg))"

lemma pos_ok_start [simp]: "pos_ok u [] chain_start"
  by (simp add: pos_ok_def chain_start_def)

lemma pos_ok_anchored:
  assumes "pos_ok u ls c" "\<not> ch_first c"
  shows "anchored u ls (ch_instance c) (ch_count c) (ch_expected c)"
proof -
  obtain pre seg where "ls = pre @ seg @ []" "seg \<noteq> []" "linked u (ch_instance c) genesisHash seg"
    "ch_expected c = chain_end genesisHash seg" "ch_count c = int (length seg)"
    using assms unfolding pos_ok_def by auto
  then show ?thesis unfolding anchored_def by metis
qed

lemma anchored_mono: "anchored u ls inst n h \<Longrightarrow> anchored u (ls @ ls') inst n h"
  unfolding anchored_def by (metis append_assoc)

lemma chain_step_pos:
  assumes "chain_step u l c = Inr c'" "pos_ok u ls c"
  shows "pos_ok u (ls @ [l]) c' \<and> \<not> ch_first c'"
proof -
  obtain rec where rec: "u l = Some rec" using assms(1) by (auto simp: chain_step_def split: option.splits)
  show ?thesis
  proof (cases "ch_first c \<or> ar_Instance rec \<noteq> ch_instance c")
    case True
    then have "c' = \<lparr>ch_first = False, ch_instance = ar_Instance rec, ch_expected = chain_hash l, ch_count = 1\<rparr>"
      "ar_PrevHash rec = genesisHash"
      using assms(1) rec by (auto simp: chain_step_def enter_segment_def Let_def split: if_splits)
    then show ?thesis
      using rec unfolding pos_ok_def by (simp add: links_def) (rule exI [of _ ls], rule exI [of _ "[l]"], simp add: links_def)
  next
    case False
    then obtain pre seg where seg: "ls = pre @ seg" "seg \<noteq> []" "linked u (ch_instance c) genesisHash seg"
        "ch_expected c = chain_end genesisHash seg" "ch_count c = int (length seg)"
      using assms(2) unfolding pos_ok_def by auto
    have "c' = c\<lparr>ch_expected := chain_hash l, ch_count := ch_count c + 1\<rparr>" "ar_PrevHash rec = ch_expected c"
      using assms(1) rec False by (auto simp: chain_step_def enter_segment_def Let_def split: if_splits)
    then show ?thesis
      using rec False seg unfolding pos_ok_def
      by simp (rule exI [of _ pre], rule exI [of _ "seg @ [l]"], simp add: links_def linked_append)
  qed
qed

definition recorded :: "(string \<Rightarrow> 'r audit_Record option) \<Rightarrow> string list \<Rightarrow> (string, InstanceState) gomap \<Rightarrow> bool" where
  "recorded u ls insts \<longleftrightarrow> (\<forall>i st. gget insts i = Some st \<longrightarrow> anchored u ls i (is_Count st) (is_HeadHash st))"

lemma recorded_step:
  assumes "chain_step u l c = Inr c'" "pos_ok u ls c" "recorded u ls insts"
  shows "recorded u (ls @ [l]) (gput (ch_instance c') \<lparr>is_HeadHash = ch_expected c', is_Count = ch_count c'\<rparr> insts)"
  using assms(3) chain_step_pos [OF assms(1,2)] pos_ok_anchored
  by (auto simp: recorded_def gget_gput anchored_mono)

lemma verify_from_entries:
  "verify_from u e ls c n insts = verify_from u e (filter (\<lambda>l. l \<noteq> []) ls) c n insts"
  by (induction ls arbitrary: c n insts) (auto split: sum.splits)

lemma head_from_entries:
  "head_from u e inst count ls c = head_from u e inst count (filter (\<lambda>l. l \<noteq> []) ls) c"
  by (induction ls arbitrary: c) (auto split: sum.splits)

lemma Verify_entries: "Verify u e input = verify_from u e (entries input) chain_start 0 []"
  unfolding Verify_def entries_def by (rule verify_from_entries)

lemma HeadAtCount_entries: "HeadAtCount u e input inst count = head_from u e inst count (entries input) chain_start"
  unfolding HeadAtCount_def entries_def by (rule head_from_entries)

lemma verified_instances:
  assumes "verify_from u e ls c n insts = Some vr" "vr_OK vr" "pos_ok u done c" "recorded u done insts" "[] \<notin> set ls"
  shows "recorded u (done @ ls) (vr_Instances vr)"
  using assms
proof (induction ls arbitrary: c n insts "done")
  case Nil
  then show ?case by (auto split: if_splits)
next
  case (Cons l ls)
  obtain c' where c': "chain_step u l c = Inr c'"
    "verify_from u e ls c' (n + 1) (gput (ch_instance c') \<lparr>is_HeadHash = ch_expected c', is_Count = ch_count c'\<rparr> insts) = Some vr"
    using Cons.prems by (auto split: sum.splits if_splits)
  show ?case
    using Cons.IH [OF c'(2) Cons.prems(2), of "done @ [l]"] chain_step_pos [OF c'(1)] recorded_step [OF c'(1)] Cons.prems by simp
qed

lemma head_found:
  assumes "head_from u e inst count ls c = Some (h, True)" "pos_ok u done c" "[] \<notin> set ls"
  shows "anchored u (done @ ls) inst count h"
  using assms
proof (induction ls arbitrary: c "done")
  case Nil
  then show ?case by (auto split: if_splits)
next
  case (Cons l ls)
  obtain c' where c': "chain_step u l c = Inr c'"
    using Cons.prems by (auto split: sum.splits)
  note pos = chain_step_pos [OF c' Cons.prems(2)]
  show ?case
  proof (cases "ch_instance c' = inst \<and> ch_count c' = count")
    case True
    then have "h = ch_expected c'" using Cons.prems c' by auto
    with True pos pos_ok_anchored [of u "done @ [l]" c'] anchored_mono [of u "done @ [l]" inst count h ls] show ?thesis by simp
  next
    case False
    then show ?thesis using Cons.IH [of c' "done @ [l]"] Cons.prems c' pos by auto
  qed
qed

lemma nonempty_entries: "[] \<notin> set (entries input)"
  by (simp add: entries_def)

text \<open>A log that passes the comparison with an anchor contains the chain that the anchor witnesses.\<close>

lemma accepted_log_is_anchored:
  assumes "sr_OK (verifyFile u (Bytes input) (Some (Anchored a)) inst)" "0 < ap_Count a"
  shows "anchored u (entries (complete_prefix input)) inst (ap_Count a) (ap_HeadHash a)"
proof -
  let ?whole = "complete_prefix input"
  obtain vr r where vr: "Verify u False ?whole = Some vr" "vr_OK vr"
      "sr_OK (checkAnchor u ?whole vr (Anchored a) inst r)"
    using assms(1) by (auto simp: verifyFile_def Let_def split: if_splits option.splits)
  have rec: "recorded u (entries ?whole) (vr_Instances vr)"
    using verified_instances [of u False "entries ?whole" chain_start 0 "[]" vr "[]"] vr nonempty_entries
    by (simp add: Verify_entries recorded_def)
  show ?thesis
  proof (cases "HeadAtCount u False ?whole inst (ap_Count a) = Some (ap_HeadHash a, True)")
    case True
    then show ?thesis
      using head_found [of u False inst "ap_Count a" "entries ?whole" chain_start "ap_HeadHash a" "[]"] nonempty_entries
      by (simp add: HeadAtCount_entries)
  next
    case False
    have "HeadAtCount u False ?whole inst (ap_Count a) \<noteq> None"
    proof -
      have "head_from u False inst n ls c \<noteq> None" for n ls c
        by (induction ls arbitrary: c) (auto split: sum.splits)
      then show ?thesis by (simp add: HeadAtCount_def)
    qed
    with False vr(3) obtain st where "gget (vr_Instances vr) inst = Some st"
      "is_Count st = ap_Count a" "is_HeadHash st = ap_HeadHash a"
      using assms(2) by (auto simp: checkAnchor_def Let_def split: if_splits option.splits)
    then show ?thesis using rec unfolding recorded_def by metis
  qed
qed

section \<open>What the writer emits\<close>

text \<open>
  What the JSON codec does with a record of the instance: one line without control characters from
  which the instance and the previous hash are read back.
\<close>

definition codec_for :: "('r audit_Record \<Rightarrow> string option) \<Rightarrow> (string \<Rightarrow> 'r audit_Record option) \<Rightarrow> string \<Rightarrow> bool" where
  "codec_for marshal u inst \<longleftrightarrow>
     (\<forall>r c. ar_Instance r = inst \<longrightarrow> hash_shaped (ar_PrevHash r) \<longrightarrow> marshal r = Some c \<longrightarrow>
        clean_line c \<and> (\<exists>r'. u c = Some r' \<and> ar_Instance r' = inst \<and> ar_PrevHash r' = ar_PrevHash r
          \<and> (ar_Event r' = [] \<longleftrightarrow> ar_Event r = [])))"

text \<open>The lines that the writer hands to the log and the sinks.\<close>

definition line_of :: "('r audit_Record \<Rightarrow> string option) \<Rightarrow> Writer \<Rightarrow> 'r audit_Record \<Rightarrow> string list" where
  "line_of marshal w rec = (case marshal (stamp w rec) of None \<Rightarrow> [] | Some canon \<Rightarrow> [canon])"

fun emitted :: "('r audit_Record \<Rightarrow> string option) \<Rightarrow> (io_faults \<times> 'r audit_Record) list \<Rightarrow> Writer \<Rightarrow> string list" where
  "emitted marshal [] w = []"
| "emitted marshal ((fl, rec) # evs) w = line_of marshal w rec @ emitted marshal evs (loop_step marshal fl rec w)"

lemma block_writer_fields [simp]:
  "aw_instance (block_writer b w) = aw_instance w" "aw_prevHash (block_writer b w) = aw_prevHash w"
  "aw_pending (block_writer b w) = aw_pending w" "aw_count (block_writer b w) = aw_count w"
  "aw_head (block_writer b w) = aw_head w" "aw_wal (block_writer b w) = aw_wal w" "aw_sinks (block_writer b w) = aw_sinks w"
  by (simp_all add: block_writer_def)

lemma wal_append_fields [simp]:
  "aw_instance (wal_append f c w) = aw_instance w" "aw_prevHash (wal_append f c w) = aw_prevHash w"
  "aw_sinks (wal_append f c w) = aw_sinks w" "aw_wal (wal_append f c w) = append_line f c (aw_wal w)"
  "aw_count (wal_append f c w) = (if f = None then aw_count w + 1 else aw_count w)"
  "aw_pending (wal_append f c w) = (if f = None then aw_pending w + 1 else aw_pending w)"
  "aw_head (wal_append f c w) = (if f = None then Some (aw_prevHash w, aw_count w + 1) else aw_head w)"
  by (simp_all add: wal_append_def Let_def split: option.splits)

lemma wal_truncate_fields [simp]:
  "aw_instance (wal_truncate fl w) = aw_instance w" "aw_prevHash (wal_truncate fl w) = aw_prevHash w"
  "aw_sinks (wal_truncate fl w) = aw_sinks w" "aw_count (wal_truncate fl w) = aw_count w"
  "aw_head (wal_truncate fl w) = aw_head w"
  by (simp_all add: wal_truncate_def split: trunc_outcome.splits)

lemma loop_step_fields:
  "aw_instance (loop_step marshal fl rec w) = aw_instance w"
  "aw_prevHash (loop_step marshal fl rec w) = chain_end (aw_prevHash w) (line_of marshal w rec)"
  "aw_sinks (loop_step marshal fl rec w) =
     (case marshal (stamp w rec) of None \<Rightarrow> aw_sinks w | Some c \<Rightarrow> sinks_write (io_sink fl) c (aw_sinks w))"
  "aw_count (loop_step marshal fl rec w) =
     aw_count w + (if io_wal fl = None then int (length (line_of marshal w rec)) else 0)"
  "aw_head (loop_step marshal fl rec w) =
     (if io_wal fl = None \<and> line_of marshal w rec \<noteq> []
      then Some (chain_end (aw_prevHash w) (line_of marshal w rec), aw_count w + 1) else aw_head w)"
  by (simp_all add: loop_step_def line_of_def Let_def split: option.splits)

lemma audit_loop_append: "audit_loop marshal (xs @ ys) w = audit_loop marshal ys (audit_loop marshal xs w)"
  by (induction marshal xs w rule: audit_loop.induct) simp_all

lemma emitted_append: "emitted marshal (xs @ ys) w = emitted marshal xs w @ emitted marshal ys (audit_loop marshal xs w)"
  by (induction marshal xs w rule: audit_loop.induct) simp_all

lemma audit_loop_instance [simp]: "aw_instance (audit_loop marshal evs w) = aw_instance w"
  by (induction marshal evs w rule: audit_loop.induct) (simp_all add: loop_step_fields)

lemma audit_loop_prevHash: "aw_prevHash (audit_loop marshal evs w) = chain_end (aw_prevHash w) (emitted marshal evs w)"
  by (induction marshal evs w rule: audit_loop.induct) (simp_all add: loop_step_fields chain_end_append)

lemma line_of_links:
  assumes "codec_for marshal u (aw_instance w)" "hash_shaped (aw_prevHash w)" "l \<in> set (line_of marshal w rec)"
  shows "clean_line l \<and> links u (aw_instance w) (aw_prevHash w) l"
proof -
  have "marshal (stamp w rec) = Some l" using assms(3) by (auto simp: line_of_def split: option.splits)
  then show ?thesis
    using assms(1) [unfolded codec_for_def, rule_format, of "stamp w rec" l] assms(2) by (auto simp: stamp_def links_def)
qed

lemma emitted_linked:
  assumes "codec_for marshal u (aw_instance w)" "hash_shaped (aw_prevHash w)"
  shows "linked u (aw_instance w) (aw_prevHash w) (emitted marshal evs w) \<and> list_all clean_line (emitted marshal evs w)"
  using assms
proof (induction marshal evs w rule: audit_loop.induct)
  case (2 marshal fl rec evs w)
  let ?w = "loop_step marshal fl rec w"
  have "hash_shaped (aw_prevHash ?w)"
    using 2(3) by (simp add: loop_step_fields line_of_def hash_shaped_chain split: option.splits)
  then have "linked u (aw_instance w) (aw_prevHash ?w) (emitted marshal evs ?w) \<and> list_all clean_line (emitted marshal evs ?w)"
    using 2 by (simp add: loop_step_fields)
  then show ?case
    using line_of_links [OF 2(2,3), of _ rec] by (cases "line_of marshal w rec"; cases "marshal (stamp w rec)")
      (auto simp: loop_step_fields line_of_def)
qed simp

lemma durable_count:
  assumes "list_all (\<lambda>(fl, _). io_wal fl = None) evs"
  shows "aw_count (audit_loop marshal evs w) = aw_count w + int (length (emitted marshal evs w))"
  using assms by (induction marshal evs w rule: audit_loop.induct) (simp_all add: loop_step_fields)

lemma durable_head:
  assumes "list_all (\<lambda>(fl, _). io_wal fl = None) evs"
  shows "aw_head (audit_loop marshal evs w) =
      (if emitted marshal evs w = [] then aw_head w
       else Some (aw_prevHash (audit_loop marshal evs w), aw_count (audit_loop marshal evs w)))"
  using assms
proof (induction evs rule: rev_induct)
  case (snoc ev evs)
  obtain fl rec where ev: "ev = (fl, rec)" by (cases ev)
  have "length (line_of marshal (audit_loop marshal evs w) rec) \<le> 1" by (simp add: line_of_def split: option.splits)
  with snoc show ?case
    by (auto simp: ev audit_loop_append emitted_append loop_step_fields le_Suc_eq)
qed simp

lemma anchor_of_run:
  assumes "NewWriter u mode inst wal sinks = Inr w0" "list_all (\<lambda>(fl, _). io_wal fl = None) evs"
    and "anchorOnce (audit_loop marshal evs w0) ts stored before = (Some a, after)" "0 \<le> before"
  shows "ap_Instance a = inst" "ap_Count a = int (length (emitted marshal evs w0))" "0 < ap_Count a"
    "ap_HeadHash a = chain_end genesisHash (emitted marshal evs w0)"
proof -
  have w0: "aw_instance w0 = inst" "aw_prevHash w0 = genesisHash" "aw_count w0 = 0" "aw_head w0 = None"
    using assms(1) by (auto simp: NewWriter_def split: if_splits option.splits)
  show "ap_Instance a = inst" "ap_Count a = int (length (emitted marshal evs w0))" "0 < ap_Count a"
    "ap_HeadHash a = chain_end genesisHash (emitted marshal evs w0)"
    using assms(3,4) durable_count [OF assms(2), of marshal w0] durable_head [OF assms(2), of marshal w0] audit_loop_prevHash [of marshal evs w0] w0
    by (auto simp: anchorOnce_def HeadHash_def split: if_splits)
qed

section \<open>The log of an honest writer\<close>

lemma length_sinks_write [simp]: "length (sinks_write f c sinks) = length sinks"
  by (simp add: sinks_write_def)

lemma nth_sinks_write:
  "i < length sinks \<Longrightarrow> sinks_write f c sinks ! i = (sinks ! i)\<lparr>sk_data := append_line (f i) c (sk_data (sinks ! i))\<rparr>"
  by (simp add: sinks_write_def)

lemma length_sinks_loop [simp]: "length (aw_sinks (audit_loop marshal evs w)) = length (aw_sinks w)"
  by (induction marshal evs w rule: audit_loop.induct) (simp_all add: loop_step_fields split: option.splits)

lemma sink_data:
  assumes "list_all (\<lambda>(fl, _). io_sink fl i = None) evs" "i < length (aw_sinks w)"
  shows "sk_data (aw_sinks (audit_loop marshal evs w) ! i) = sk_data (aw_sinks w ! i) @ frame (emitted marshal evs w)"
  using assms
proof (induction marshal evs w rule: audit_loop.induct)
  case (2 marshal fl rec evs w)
  have "i < length (aw_sinks (loop_step marshal fl rec w))" using 2(3) by (simp add: loop_step_fields split: option.splits)
  then have "sk_data (aw_sinks (audit_loop marshal ((fl, rec) # evs) w) ! i) =
      sk_data (aw_sinks (loop_step marshal fl rec w) ! i) @ frame (emitted marshal evs (loop_step marshal fl rec w))"
    using 2 by simp
  moreover have "sk_data (aw_sinks (loop_step marshal fl rec w) ! i) = sk_data (aw_sinks w ! i) @ frame (line_of marshal w rec)"
    using 2(2,3) by (simp add: loop_step_fields line_of_def nth_sinks_write append_line_def split: option.splits)
  ultimately show ?case by simp
qed simp

lemma instances_kept:
  "verify_from u e ls c n insts = Some vr \<Longrightarrow> gget insts i \<noteq> None \<Longrightarrow> gget (vr_Instances vr) i \<noteq> None"
proof (induction ls arbitrary: c n insts)
  case (Cons l ls)
  then show ?case
    by (cases "l = []"; cases "chain_step u l c") (fastforce simp: gget_gput)+
qed (auto split: if_splits)

lemma verified_prefix:
  assumes "verify_from u False xs c n insts = Some vr" "vr_OK vr" "gget (vr_Instances vr) inst = None"
    and "ch_first c \<or> ch_instance c \<noteq> inst"
  obtains c' where "ch_first c' \<or> ch_instance c' \<noteq> inst"
    "\<And>ys. verify_from u False (xs @ ys) c n insts = verify_from u False ys c' (vr_Records vr) (vr_Instances vr)"
    "\<And>k ys. head_from u False inst k (xs @ ys) c = head_from u False inst k ys c'"
  using assms
proof (induction xs arbitrary: c n insts thesis)
  case Nil
  show ?case by (rule Nil.prems(1) [of c]) (use Nil.prems(2-) in auto)
next
  case (Cons x xs)
  show ?case
  proof (cases "x = []")
    case True
    show ?thesis by (rule Cons.IH [of c n insts]) (use Cons.prems True in simp_all)
  next
    case False
    then obtain c1 where c1: "chain_step u x c = Inr c1"
      "verify_from u False xs c1 (n + 1) (gput (ch_instance c1) \<lparr>is_HeadHash = ch_expected c1, is_Count = ch_count c1\<rparr> insts) = Some vr"
      using Cons.prems by (auto split: sum.splits)
    have "ch_instance c1 \<noteq> inst" using instances_kept [OF c1(2), of inst] Cons.prems(4) by (auto simp: gget_gput)
    then have out: "ch_first c1 \<or> ch_instance c1 \<noteq> inst" ..
    show ?thesis
    proof (rule Cons.IH [OF _ c1(2) Cons.prems(3,4) out])
      fix c'
      assume c': "ch_first c' \<or> ch_instance c' \<noteq> inst"
        "\<And>ys. verify_from u False (xs @ ys) c1 (n + 1)
          (gput (ch_instance c1) \<lparr>is_HeadHash = ch_expected c1, is_Count = ch_count c1\<rparr> insts)
          = verify_from u False ys c' (vr_Records vr) (vr_Instances vr)"
        "\<And>k ys. head_from u False inst k (xs @ ys) c1 = head_from u False inst k ys c'"
      show thesis by (rule Cons.prems(1) [OF c'(1)]) (simp_all add: False c1(1) c'(2,3) \<open>ch_instance c1 \<noteq> inst\<close>)
    qed
  qed
qed

lemma segment_step:
  assumes "links u inst prev l" "enter_segment inst c = \<lparr>ch_first = False, ch_instance = inst, ch_expected = prev, ch_count = k\<rparr>"
  shows "chain_step u l c = Inr \<lparr>ch_first = False, ch_instance = inst, ch_expected = chain_hash l, ch_count = k + 1\<rparr>"
  using assms by (auto simp: chain_step_def links_def split: option.splits)

lemma enter_same [simp]:
  "enter_segment inst \<lparr>ch_first = False, ch_instance = inst, ch_expected = p, ch_count = k\<rparr>
     = \<lparr>ch_first = False, ch_instance = inst, ch_expected = p, ch_count = k\<rparr>"
  by (simp add: enter_segment_def)

lemma segment_verifies:
  assumes "linked u inst prev seg" "[] \<notin> set seg"
    and "enter_segment inst c = \<lparr>ch_first = False, ch_instance = inst, ch_expected = prev, ch_count = k\<rparr>"
  shows "\<exists>vr. verify_from u False seg c n insts = Some vr \<and> vr_OK vr \<and> vr_Records vr = n + int (length seg)
    \<and> vr_BrokenAt vr = 0 \<and> gget (vr_Instances vr) inst =
        (if seg = [] then gget insts inst
         else Some \<lparr>is_HeadHash = chain_end prev seg, is_Count = k + int (length seg)\<rparr>)"
  using assms
proof (induction seg arbitrary: prev c k n insts)
  case (Cons l seg)
  let ?c = "\<lparr>ch_first = False, ch_instance = inst, ch_expected = chain_hash l, ch_count = k + 1\<rparr>"
  let ?insts = "gput inst \<lparr>is_HeadHash = chain_hash l, is_Count = k + 1\<rparr> insts"
  have "chain_step u l c = Inr ?c" using Cons.prems by (intro segment_step) auto
  moreover obtain vr where "verify_from u False seg ?c (n + 1) ?insts = Some vr" "vr_OK vr"
      "vr_Records vr = n + 1 + int (length seg)" "vr_BrokenAt vr = 0" "gget (vr_Instances vr) inst =
        (if seg = [] then gget ?insts inst
         else Some \<lparr>is_HeadHash = chain_end (chain_hash l) seg, is_Count = k + 1 + int (length seg)\<rparr>)"
    using Cons.IH [of "chain_hash l" ?c "k + 1" "n + 1" ?insts] Cons.prems by auto
  ultimately show ?case using Cons.prems(2) by (auto simp: gget_gput)
qed simp

lemma segment_head:
  assumes "linked u inst prev seg" "[] \<notin> set seg" "0 < j" "j \<le> length seg"
    and "enter_segment inst c = \<lparr>ch_first = False, ch_instance = inst, ch_expected = prev, ch_count = k\<rparr>"
  shows "head_from u False inst (k + int j) seg c = Some (chain_end prev (take j seg), True)"
  using assms
proof (induction seg arbitrary: prev c k j)
  case (Cons l seg)
  let ?c = "\<lparr>ch_first = False, ch_instance = inst, ch_expected = chain_hash l, ch_count = k + 1\<rparr>"
  have step: "chain_step u l c = Inr ?c" using Cons.prems by (intro segment_step) auto
  obtain j' where j: "j = Suc j'" using Cons.prems(3) by (cases j) auto
  show ?case
  proof (cases "j' = 0")
    case True
    then show ?thesis using step j Cons.prems(2) by auto
  next
    case False
    then have "head_from u False inst (k + 1 + int j') seg ?c = Some (chain_end (chain_hash l) (take j' seg), True)"
      using Cons.prems j by (intro Cons.IH) auto
    then show ?thesis using step j False Cons.prems(2) by (auto simp: algebra_simps)
  qed
qed simp

text \<open>The file of a sink that held a valid log without the new instance, followed by the records of a boot.\<close>

definition continues :: "(string \<Rightarrow> 'r audit_Record option) \<Rightarrow> string \<Rightarrow> string \<Rightarrow> bool" where
  "continues u inst old \<longleftrightarrow>
     terminated old \<and> (case Verify u False old of None \<Rightarrow> False | Some vr \<Rightarrow> vr_OK vr \<and> gget (vr_Instances vr) inst = None)"

lemma continued_log:
  assumes "continues u inst old" "linked u inst genesisHash seg" "list_all clean_line seg"
  obtains vr where "Verify u False (old @ frame seg) = Some vr" "vr_OK vr" "vr_BrokenAt vr = 0"
      "vr_Records vr = vr_Records (the (Verify u False old)) + int (length seg)"
      "seg \<noteq> [] \<Longrightarrow> gget (vr_Instances vr) inst = Some \<lparr>is_HeadHash = chain_end genesisHash seg, is_Count = int (length seg)\<rparr>"
    and "\<And>j. 0 < j \<Longrightarrow> j \<le> length seg \<Longrightarrow>
      HeadAtCount u False (old @ frame seg) inst (int j) = Some (chain_end genesisHash (take j seg), True)"
proof -
  have split: "entries (old @ frame seg) = entries old @ seg"
    using assms(1,3) by (intro entries_append) (auto simp: continues_def)
  obtain vr0 where vr0: "Verify u False old = Some vr0" "vr_OK vr0" "gget (vr_Instances vr0) inst = None"
    using assms(1) by (auto simp: continues_def split: option.splits)
  obtain c' where c': "ch_first c' \<or> ch_instance c' \<noteq> inst"
      "\<And>ys. verify_from u False (entries old @ ys) chain_start 0 [] = verify_from u False ys c' (vr_Records vr0) (vr_Instances vr0)"
      "\<And>k ys. head_from u False inst k (entries old @ ys) chain_start = head_from u False inst k ys c'"
    using verified_prefix [of u "entries old" chain_start 0 "[]" vr0 inst] vr0
    by (auto simp: Verify_entries chain_start_def)
  have enter: "enter_segment inst c' = \<lparr>ch_first = False, ch_instance = inst, ch_expected = genesisHash, ch_count = 0\<rparr>"
    using c'(1) by (auto simp: enter_segment_def)
  have ne: "[] \<notin> set seg" using assms(3) by (auto simp: list_all_iff clean_line_def)
  obtain vr where "verify_from u False seg c' (vr_Records vr0) (vr_Instances vr0) = Some vr" "vr_OK vr" "vr_BrokenAt vr = 0"
      "vr_Records vr = vr_Records vr0 + int (length seg)"
      "seg \<noteq> [] \<Longrightarrow> gget (vr_Instances vr) inst = Some \<lparr>is_HeadHash = chain_end genesisHash seg, is_Count = int (length seg)\<rparr>"
    using segment_verifies [OF assms(2) ne enter, of "vr_Records vr0" "vr_Instances vr0"] by auto
  then show thesis
    using that segment_head [OF assms(2) ne _ _ enter] vr0(1) by (simp add: Verify_entries HeadAtCount_entries split c')
qed

lemma continued_log_anchor:
  assumes "continues u inst old" "linked u inst genesisHash seg" "list_all clean_line seg"
    and "length (old @ frame seg) \<le> maxVerifyBytes" "0 < j" "j \<le> length seg" "ap_Count a = int j"
  defines "res \<equiv> verifyFile u (Bytes (old @ frame seg)) (Some (Anchored a)) inst"
  shows "sr_OK res \<longleftrightarrow> ap_HeadHash a = chain_end genesisHash (take j seg)" "sr_AnchorChecked res" "\<not> sr_PartialTail res"
    "sr_Records res = vr_Records (the (Verify u False old)) + int (length seg)"
    "j < length seg \<Longrightarrow> \<not> sr_OK res \<Longrightarrow> sr_Reason res = Some PositionMismatch"
proof -
  obtain vr where vr: "Verify u False (old @ frame seg) = Some vr" "vr_OK vr"
      "vr_Records vr = vr_Records (the (Verify u False old)) + int (length seg)"
      "gget (vr_Instances vr) inst = Some \<lparr>is_HeadHash = chain_end genesisHash seg, is_Count = int (length seg)\<rparr>"
      "HeadAtCount u False (old @ frame seg) inst (int j) = Some (chain_end genesisHash (take j seg), True)"
  proof (rule continued_log [OF assms(1-3)])
    fix vr
    assume vr: "Verify u False (old @ frame seg) = Some vr" "vr_OK vr"
      "vr_Records vr = vr_Records (the (Verify u False old)) + int (length seg)"
      "seg \<noteq> [] \<Longrightarrow> gget (vr_Instances vr) inst = Some \<lparr>is_HeadHash = chain_end genesisHash seg, is_Count = int (length seg)\<rparr>"
      "\<And>j. 0 < j \<Longrightarrow> j \<le> length seg \<Longrightarrow>
        HeadAtCount u False (old @ frame seg) inst (int j) = Some (chain_end genesisHash (take j seg), True)"
    have "seg \<noteq> []" using assms(5,6) by auto
    from that [OF vr(1-3) vr(4) [OF this] vr(5) [OF assms(5,6)]] show thesis .
  qed
  have "terminated (old @ frame seg)" using assms(1) by (simp add: continues_def terminated_frame)
  then have res: "res = checkAnchor u (old @ frame seg) vr (Anchored a) inst
      \<lparr>sr_OK = True, sr_Records = vr_Records vr, sr_BrokenAt = vr_BrokenAt vr, sr_Reason = None, sr_PartialTail = False,
       sr_AnchorChecked = False\<rparr>"
    using assms(4) vr(1,2) by (simp add: res_def verifyFile_def Let_def)
  show "sr_OK res \<longleftrightarrow> ap_HeadHash a = chain_end genesisHash (take j seg)" "sr_AnchorChecked res" "\<not> sr_PartialTail res"
    "sr_Records res = vr_Records (the (Verify u False old)) + int (length seg)"
    "j < length seg \<Longrightarrow> \<not> sr_OK res \<Longrightarrow> sr_Reason res = Some PositionMismatch"
    using assms(6,7) vr by (cases "j = length seg"; auto simp: res checkAnchor_def Let_def)+
qed

section \<open>Faults of the write-ahead log\<close>

lemma new_writer_fields:
  assumes "NewWriter u mode inst wal sinks = Inr w"
  shows "aw_instance w = inst" "aw_prevHash w = genesisHash" "aw_count w = 0" "aw_head w = None" "aw_sinks w = sinks"
    "retainedRecords u (aw_wal w) = Some (aw_pending w)"
  using assms by (auto simp: NewWriter_def split: if_splits option.splits)

lemma count_with_faults:
  assumes "\<And>r. ar_Instance r = aw_instance w \<Longrightarrow> marshal r \<noteq> None"
  shows "aw_count (audit_loop marshal evs w) =
    aw_count w + int (length (emitted marshal evs w)) - int (length (filter (\<lambda>(fl, _). io_wal fl \<noteq> None) evs))"
  using assms
proof (induction marshal evs w rule: audit_loop.induct)
  case (2 marshal fl rec evs w)
  have "length (line_of marshal w rec) = 1"
    using "2.prems" [of "stamp w rec"] by (simp add: line_of_def stamp_def split: option.splits)
  moreover have "aw_count (audit_loop marshal evs (loop_step marshal fl rec w)) =
      aw_count (loop_step marshal fl rec w) + int (length (emitted marshal evs (loop_step marshal fl rec w)))
      - int (length (filter (\<lambda>(fl, _). io_wal fl \<noteq> None) evs))"
    using 2 by (simp add: loop_step_fields)
  ultimately show ?case by (simp add: loop_step_fields)
qed simp

section \<open>Properties of the log\<close>

text \<open>
  C4: History that was anchored cannot be rewritten. Take the anchor that a boot stores after any
  run of records (its write-ahead log working). Whatever somebody does to the file of a sink, if
  the verification endpoint then reports it as intact, the file contains exactly the records that
  the writer emitted up to the anchor, in order and without a gap, or one of the lines in the file
  is different from a record that the writer emitted and has the same SHA-256 digest. Assumed of
  the JSON codec: a record is encoded as one line from which its instance and previous hash are
  read back.
\<close>

theorem anchored_history_cannot_change:
  assumes "codec_for marshal u inst" "NewWriter u mode inst wal sinks = Inr w0"
    and "list_all (\<lambda>(fl, _). io_wal fl = None) evs"
    and "anchorOnce (audit_loop marshal evs w0) ts stored before = (Some a, after)" "0 \<le> before"
    and "sr_OK (verifyFile u (Bytes input) (Some (Anchored a)) inst)"
  shows "(\<exists>pre post. entries (complete_prefix input) = pre @ emitted marshal evs w0 @ post)
    \<or> (\<exists>x\<in>set (entries (complete_prefix input)). \<exists>y\<in>set (emitted marshal evs w0). x \<noteq> y \<and> Sum256 x = Sum256 y)"
proof -
  note a = anchor_of_run [OF assms(2-5)] and w0 = new_writer_fields [OF assms(2)]
  obtain pre seg post where seg: "entries (complete_prefix input) = pre @ seg @ post" "linked u inst genesisHash seg"
      "int (length seg) = ap_Count a" "ap_HeadHash a = chain_end genesisHash seg"
    using accepted_log_is_anchored [OF assms(6) a(3)] by (auto simp: anchored_def)
  have "linked u inst genesisHash (emitted marshal evs w0)"
    using emitted_linked [of marshal u w0 evs] assms(1) w0 by simp
  then have "seg = emitted marshal evs w0 \<or> colliding seg (emitted marshal evs w0)"
    using seg a by (intro linked_unique) auto
  then show ?thesis
  proof
    assume "colliding seg (emitted marshal evs w0)"
    then have "colliding (entries (complete_prefix input)) (emitted marshal evs w0)"
      by (rule colliding_mono) (auto simp: seg(1))
    then show ?thesis by (simp add: colliding_def collides_def list_ex_iff)
  qed (use seg(1) in blast)
qed

text \<open>
  C37: The log of an honest gateway raises no alarm. A boot appends its records to the file of a
  sink that holds the intact logs of earlier boots. If every append to the write-ahead log and every
  write to that sink succeeded, the endpoint reports the file as intact and complete, compared with
  any anchor of this boot, as long as the file is no longer than the 16 MiB that it reads (a longer
  one is not reported as intact). Assumed of the JSON codec: a record is encoded as one line from
  which its instance and previous hash are read back.
\<close>

theorem honest_log_raises_no_alarm:
  assumes "codec_for marshal u inst" "NewWriter u mode inst wal sinks = Inr w0"
    and "i < length sinks" "continues u inst (sk_data (sinks ! i))"
    and "list_all (\<lambda>(fl, _). io_wal fl = None \<and> io_sink fl i = None) (evs @ later)"
    and "anchorOnce (audit_loop marshal evs w0) ts stored before = (Some a, after)" "0 \<le> before"
    and "length (sk_data (aw_sinks (audit_loop marshal (evs @ later) w0) ! i)) \<le> maxVerifyBytes"
  shows "let res = verifyFile u (Bytes (sk_data (aw_sinks (audit_loop marshal (evs @ later) w0) ! i))) (Some (Anchored a)) inst
    in sr_OK res \<and> sr_AnchorChecked res \<and> \<not> sr_PartialTail res
     \<and> sr_Records res = vr_Records (the (Verify u False (sk_data (sinks ! i)))) + int (length (emitted marshal (evs @ later) w0))"
proof -
  note w0 = new_writer_fields [OF assms(2)]
  have "list_all (\<lambda>(fl, _). io_wal fl = None) evs" "list_all (\<lambda>(fl, _). io_sink fl i = None) (evs @ later)"
    using assms(5) by (auto simp: list_all_iff)
  note a = anchor_of_run [OF assms(2) this(1) assms(6,7)]
    and content = sink_data [OF this(2), of w0 marshal, unfolded w0(5), OF assms(3)]
  let ?seg = "emitted marshal (evs @ later) w0" and ?j = "length (emitted marshal evs w0)"
  have seg: "linked u inst genesisHash ?seg" "list_all clean_line ?seg"
    using emitted_linked [of marshal u w0 "evs @ later"] assms(1) w0 by simp_all
  have j: "0 < ?j" "?j \<le> length ?seg" "ap_HeadHash a = chain_end genesisHash (take ?j ?seg)"
    using a(2-4) by (auto simp: emitted_append)
  note res = continued_log_anchor [OF assms(4) seg, unfolded content [symmetric], OF assms(8) j(1,2) a(2)]
  show ?thesis using res j(3) by (simp add: Let_def)
qed

text \<open>
  C38: After a failure of the write-ahead log the anchors accuse an honest log. If an append to the
  write-ahead log failed and a later one succeeded, the anchor carries the hash of the last record
  with a position that does not count the failed one. The endpoint accepts the untouched file of a
  sink that received every record exactly if the earlier record at that position has the same
  digest as the last one, and otherwise reports the file as tampered with; it can accept it only if
  two different records of the log collide.
\<close>

theorem wal_fault_raises_false_alarm:
  assumes "codec_for marshal u inst" "\<And>r. ar_Instance r = inst \<Longrightarrow> marshal r \<noteq> None"
    and "NewWriter u mode inst wal sinks = Inr w0" "i < length sinks" "continues u inst (sk_data (sinks ! i))"
    and "list_all (\<lambda>(fl, _). io_sink fl i = None) (evs @ [(fl, rec)])"
    and "list_ex (\<lambda>(fl, _). io_wal fl \<noteq> None) evs" "io_wal fl = None"
    and "anchorOnce (audit_loop marshal (evs @ [(fl, rec)]) w0) ts stored before = (Some a, after)" "0 \<le> before"
    and "length (sk_data (aw_sinks (audit_loop marshal (evs @ [(fl, rec)]) w0) ! i)) \<le> maxVerifyBytes"
  shows "let res = verifyFile u (Bytes (sk_data (aw_sinks (audit_loop marshal (evs @ [(fl, rec)]) w0) ! i))) (Some (Anchored a)) inst;
      seg = emitted marshal (evs @ [(fl, rec)]) w0
    in 0 < ap_Count a \<and> ap_Count a < int (length seg)
     \<and> (sr_OK res \<longleftrightarrow> Sum256 (seg ! nat (ap_Count a - 1)) = Sum256 (last seg))
     \<and> (\<not> sr_OK res \<longrightarrow> sr_Reason res = Some PositionMismatch)
     \<and> (sr_OK res \<longrightarrow> (\<exists>x\<in>set seg. \<exists>y\<in>set seg. x \<noteq> y \<and> Sum256 x = Sum256 y))"
proof -
  note w0 = new_writer_fields [OF assms(3)]
  let ?evs = "evs @ [(fl, rec)]"
  let ?seg = "emitted marshal ?evs w0" and ?w = "audit_loop marshal evs w0"
  have seg: "linked u inst genesisHash ?seg" "list_all clean_line ?seg"
    using emitted_linked [of marshal u w0 ?evs] assms(1) w0 by simp_all
  have lines: "line_of marshal ?w rec \<noteq> []" "length (line_of marshal ?w rec) \<le> 1"
    using assms(2) [of "stamp ?w rec"] w0 by (auto simp: line_of_def stamp_def split: option.splits)
  have "HeadHash (audit_loop marshal ?evs w0) = (chain_end genesisHash ?seg, aw_count ?w + 1)"
    using lines(1) assms(8) w0
    by (simp add: HeadHash_def audit_loop_append loop_step_fields emitted_append chain_end_append audit_loop_prevHash)
  then have a: "ap_HeadHash a = chain_end genesisHash ?seg" "ap_Count a = aw_count ?w + 1" "0 < ap_Count a"
    using assms(9,10) by (auto simp: anchorOnce_def split: if_splits)
  have "0 < length (filter (\<lambda>(fl, _). io_wal fl \<noteq> None) evs)"
    using assms(7) by (auto simp: list_ex_iff filter_empty_conv)
  then have "aw_count ?w < int (length (emitted marshal evs w0))"
    using count_with_faults [of w0 marshal evs] assms(2) w0 by simp
  moreover have "length ?seg = length (emitted marshal evs w0) + 1"
    using lines by (cases "line_of marshal ?w rec") (auto simp: emitted_append)
  moreover define j where "j = nat (ap_Count a)"
  ultimately have j: "0 < j" "j < length ?seg" "ap_Count a = int j" using a(2,3) by auto
  note content = sink_data [OF assms(6), of w0 marshal, unfolded w0(5), OF assms(4)]
  note res = continued_log_anchor [OF assms(5) seg, unfolded content [symmetric], OF assms(11) j(1) less_imp_le [OF j(2)] j(3)]
  have ends: "chain_end genesisHash (take j ?seg) = chain_hash (?seg ! (j - 1))" "chain_end genesisHash ?seg = chain_hash (last ?seg)"
    using j(1,2) by (auto simp: chain_end_def last_conv_nth min_def)
  have accepted: "sr_OK (verifyFile u (Bytes (sk_data (aw_sinks (audit_loop marshal ?evs w0) ! i))) (Some (Anchored a)) inst)
      \<longleftrightarrow> Sum256 (?seg ! (j - 1)) = Sum256 (last ?seg)"
    unfolding res(1) a(1) ends chain_hash_eq by auto
  have "colliding ?seg ?seg" if "chain_end genesisHash (take j ?seg) = chain_end genesisHash ?seg"
    using chain_positions_differ [of u inst "take j ?seg" "drop j ?seg"] seg(1) that j(2) by simp
  then have "Sum256 (?seg ! (j - 1)) = Sum256 (last ?seg) \<Longrightarrow> \<exists>x\<in>set ?seg. \<exists>y\<in>set ?seg. x \<noteq> y \<and> Sum256 x = Sum256 y"
    by (simp add: ends chain_hash_eq colliding_def collides_def list_ex_iff)
  moreover have "nat (ap_Count a - 1) = j - 1" using j(1,3) by auto
  ultimately show ?thesis using accepted res(5) [OF j(2)] j by (simp add: Let_def)
qed

section \<open>Witnesses\<close>

definition bar :: char where "bar = CHR ''|''"

definition sample_marshal :: "unit audit_Record \<Rightarrow> string option" where
  "sample_marshal r = Some (ar_PrevHash r @ bar # ar_Instance r @ bar # hex_of (ar_Event r) @ ''.'')"

definition sample_unmarshal :: "string \<Rightarrow> unit audit_Record option" where
  "sample_unmarshal l =
     (let p = takeWhile (\<lambda>c. c \<noteq> bar) l; q = drop (Suc (length p)) l;
          i = takeWhile (\<lambda>c. c \<noteq> bar) q; e = butlast (drop (Suc (length i)) q)
      in Some \<lparr>ar_Event = e, ar_Instance = i, ar_PrevHash = p, ar_rest = ()\<rparr>)"

lemma hash_shaped_chars:
  assumes "hash_shaped h" "c \<in> set h"
  shows "c \<noteq> newline \<and> c \<noteq> bar"
proof -
  have "c \<in> set ''sha256:genesis'' \<or> hex_char c"
  proof (cases "h = genesisHash")
    case True
    then show ?thesis using assms(2) by (simp add: genesisHash_def)
  next
    case False
    then have "h = ''sha256:'' @ drop 7 h" "list_all hex_char (drop 7 h)"
      using assms(1) append_take_drop_id [of 7 h] by (auto simp: hash_shaped_def)
    then show ?thesis using assms(2) by (auto simp: list_all_iff dest: arg_cong [where f = set])
  qed
  then show ?thesis by (auto simp: hex_char_def newline_def bar_def char_of_def)
qed

lemma sample_codec: "codec_for sample_marshal sample_unmarshal ''a''"
proof -
  have "clean_line c \<and> (\<exists>r'. sample_unmarshal c = Some r' \<and> ar_Instance r' = ''a'' \<and> ar_PrevHash r' = ar_PrevHash r
      \<and> (ar_Event r' = [] \<longleftrightarrow> ar_Event r = []))"
    if r: "ar_Instance r = ''a''" "hash_shaped (ar_PrevHash r)" "sample_marshal r = Some c" for r c
  proof -
    have c: "c = ar_PrevHash r @ bar # ''a'' @ bar # hex_of (ar_Event r) @ ''.''"
      using r(1,3) by (simp add: sample_marshal_def)
    have chars: "CHR ''a'' \<noteq> bar" "newline \<noteq> bar" "newline \<noteq> CHR ''a''" "newline \<noteq> CHR ''.''" "CHR ''.'' \<noteq> carriage_return"
      by (simp_all add: bar_def newline_def carriage_return_def char_of_def)
    have "newline \<notin> set (ar_PrevHash r)" using hash_shaped_chars [OF r(2)] by blast
    moreover have "\<not> hex_char newline" by (simp add: hex_char_def newline_def char_of_def)
    then have "newline \<notin> set (hex_of (ar_Event r))" using hex_of_chars [of "ar_Event r"] unfolding list_all_iff by blast
    ultimately have "clean_line c" using chars by (simp add: c clean_line_def)
    moreover have "sample_unmarshal c = Some \<lparr>ar_Event = hex_of (ar_Event r), ar_Instance = ''a'', ar_PrevHash = ar_PrevHash r, ar_rest = ()\<rparr>"
    proof -
      have "takeWhile (\<lambda>c. c \<noteq> bar) c = ar_PrevHash r"
        unfolding c by (subst takeWhile_append2) (use hash_shaped_chars [OF r(2)] in blast, simp)
      moreover have "drop (Suc (length (ar_PrevHash r))) c = CHR ''a'' # bar # hex_of (ar_Event r) @ ''.''"
        by (simp add: c)
      ultimately show ?thesis using chars(1) by (simp add: sample_unmarshal_def Let_def del: drop_drop)
    qed
    moreover have "hex_of (ar_Event r) = [] \<longleftrightarrow> ar_Event r = []" by (cases "ar_Event r") (simp_all add: hex_of_Cons)
    ultimately show ?thesis by simp
  qed
  then show ?thesis by (simp add: codec_for_def)
qed

definition sample_sink :: audit_sink where "sample_sink = \<lparr>sk_required = True, sk_data = []\<rparr>"

definition sample_writer :: Writer where
  "sample_writer =
     \<lparr>aw_instance = ''a'', aw_prevHash = genesisHash, aw_pending = 0, aw_count = 0, aw_head = None, aw_blocked = 0,
      aw_wal = [], aw_sinks = [sample_sink]\<rparr>"

definition sample_event :: "string \<Rightarrow> nat option \<Rightarrow> io_faults \<times> unit audit_Record" where
  "sample_event e walfault =
     (\<lparr>io_wal = walfault, io_sink = (\<lambda>_. None), io_trunc = TruncOK\<rparr>,
      \<lparr>ar_Event = e, ar_Instance = [], ar_PrevHash = [], ar_rest = ()\<rparr>)"

lemma sample_new: "NewWriter sample_unmarshal '''' ''a'' (Some []) [sample_sink] = Inr sample_writer"
  by (simp add: NewWriter_def retainedRecords_def sample_writer_def queueCapacity_def)

lemma sample_continues: "continues sample_unmarshal ''a'' []"
  by (simp add: continues_def terminated_def Verify_def auditLines_def)

lemma sample_lines: "length (emitted sample_marshal evs w) = length evs"
  by (induction sample_marshal evs w rule: audit_loop.induct) (simp_all add: line_of_def sample_marshal_def)

lemma sample_size:
  assumes "length (aw_prevHash w) \<le> 71" "aw_instance w = ''a''" "list_all (\<lambda>(_, r). length (ar_Event r) = 1) evs"
  shows "length (frame (emitted sample_marshal evs w)) \<le> 80 * length evs"
  using assms
proof (induction sample_marshal evs w rule: audit_loop.induct)
  case (2 fl rec evs w)
  have "length (chain_hash c) = 71" for c by (simp add: chain_hash_def Sum256_length)
  then have "length (frame (emitted sample_marshal evs (loop_step sample_marshal fl rec w))) \<le> 80 * length evs"
    using 2 by (auto simp: loop_step_fields line_of_def sample_marshal_def)
  moreover have "length (frame (line_of sample_marshal w rec)) \<le> 80"
    using "2.prems" by (simp add: line_of_def sample_marshal_def stamp_def)
  ultimately show ?case by simp
qed simp

lemma sample_file:
  assumes "list_all (\<lambda>(fl, r). io_sink fl 0 = None \<and> length (ar_Event r) = 1) evs" "length evs \<le> 100"
  shows "sk_data (aw_sinks (audit_loop sample_marshal evs sample_writer) ! 0) = frame (emitted sample_marshal evs sample_writer)"
    and "length (sk_data (aw_sinks (audit_loop sample_marshal evs sample_writer) ! 0)) \<le> maxVerifyBytes"
proof -
  show content: "sk_data (aw_sinks (audit_loop sample_marshal evs sample_writer) ! 0) = frame (emitted sample_marshal evs sample_writer)"
    using sink_data [of 0 evs sample_writer sample_marshal] assms(1)
    by (auto simp: sample_writer_def sample_sink_def list_all_iff)
  have "length (frame (emitted sample_marshal evs sample_writer)) \<le> 80 * length evs"
    using assms(1) by (intro sample_size) (auto simp: sample_writer_def genesisHash_def list_all_iff)
  then show "length (sk_data (aw_sinks (audit_loop sample_marshal evs sample_writer) ! 0)) \<le> maxVerifyBytes"
    using assms(2) by (simp add: content maxVerifyBytes_def)
qed

definition sample_events :: "(io_faults \<times> unit audit_Record) list" where
  "sample_events = [sample_event ''s'' None, sample_event ''c'' None]"

lemma sample_anchor:
  "\<exists>a. anchorOnce (audit_loop sample_marshal sample_events sample_writer) [] True 0 = (Some a, 2)"
proof -
  have "list_all (\<lambda>(fl, _). io_wal fl = None) sample_events" by (simp add: sample_events_def sample_event_def)
  note run = durable_count [OF this, of sample_marshal sample_writer] durable_head [OF this, of sample_marshal sample_writer]
  have "emitted sample_marshal sample_events sample_writer \<noteq> []"
    using sample_lines [of sample_events sample_writer] by (auto simp: sample_events_def)
  then show ?thesis using run by (simp add: anchorOnce_def HeadHash_def sample_lines sample_events_def sample_writer_def)
qed

theorem honest_log_raises_no_alarm_witness:
  "\<exists>a. anchorOnce (audit_loop sample_marshal sample_events sample_writer) [] True 0 = (Some a, 2)
     \<and> (let res = verifyFile sample_unmarshal
          (Bytes (sk_data (aw_sinks (audit_loop sample_marshal (sample_events @ sample_events) sample_writer) ! 0))) (Some (Anchored a)) ''a''
        in sr_OK res \<and> sr_AnchorChecked res \<and> sr_Records res = 4)"
proof -
  obtain a where a: "anchorOnce (audit_loop sample_marshal sample_events sample_writer) [] True 0 = (Some a, 2)"
    using sample_anchor by blast
  have ok: "list_all (\<lambda>(fl, _). io_wal fl = None \<and> io_sink fl 0 = None) (sample_events @ sample_events)"
    by (simp add: sample_events_def sample_event_def)
  have size: "length (sk_data (aw_sinks (audit_loop sample_marshal (sample_events @ sample_events) sample_writer) ! 0)) \<le> maxVerifyBytes"
    by (intro sample_file) (simp_all add: sample_events_def sample_event_def)
  have "sk_data ([sample_sink] ! 0) = []" by (simp add: sample_sink_def)
  then have res: "let res = verifyFile sample_unmarshal
          (Bytes (sk_data (aw_sinks (audit_loop sample_marshal (sample_events @ sample_events) sample_writer) ! 0))) (Some (Anchored a)) ''a''
        in sr_OK res \<and> sr_AnchorChecked res \<and> \<not> sr_PartialTail res \<and> sr_Records res =
          vr_Records (the (Verify sample_unmarshal False [])) + int (length (emitted sample_marshal (sample_events @ sample_events) sample_writer))"
    using honest_log_raises_no_alarm [OF sample_codec sample_new _ _ ok a _ size] sample_continues by simp
  have "vr_Records (the (Verify sample_unmarshal False [])) = 0" by (simp add: Verify_def auditLines_def)
  moreover have "length (emitted sample_marshal (sample_events @ sample_events) sample_writer) = 4"
    by (simp add: sample_lines sample_events_def)
  ultimately show ?thesis using a res by (auto simp: Let_def)
qed

theorem anchored_history_cannot_change_witness:
  "\<exists>a input. anchorOnce (audit_loop sample_marshal sample_events sample_writer) [] True 0 = (Some a, 2)
     \<and> sr_OK (verifyFile sample_unmarshal (Bytes input) (Some (Anchored a)) ''a'')
     \<and> ((\<exists>pre post. entries (complete_prefix input) = pre @ emitted sample_marshal sample_events sample_writer @ post)
         \<or> list_ex (\<lambda>x. list_ex (\<lambda>y. x \<noteq> y \<and> Sum256 x = Sum256 y) (emitted sample_marshal sample_events sample_writer))
             (entries (complete_prefix input)))"
proof -
  obtain a where a: "anchorOnce (audit_loop sample_marshal sample_events sample_writer) [] True 0 = (Some a, 2)"
    using sample_anchor by blast
  have ok: "list_all (\<lambda>(fl, _). io_wal fl = None) sample_events" by (simp add: sample_events_def sample_event_def)
  note anchor = anchor_of_run [OF sample_new ok a order_refl]
  let ?seg = "emitted sample_marshal sample_events sample_writer"
  have seg: "linked sample_unmarshal ''a'' genesisHash ?seg" "list_all clean_line ?seg"
    using emitted_linked [of sample_marshal sample_unmarshal sample_writer sample_events] sample_codec
    by (simp_all add: sample_writer_def)
  have "length ([] @ frame ?seg) \<le> maxVerifyBytes"
    using sample_file [of sample_events] by (simp add: sample_events_def sample_event_def)
  then have intact: "sr_OK (verifyFile sample_unmarshal (Bytes ([] @ frame ?seg)) (Some (Anchored a)) ''a'')"
    using continued_log_anchor(1) [OF sample_continues seg _ _ order_refl anchor(2)] anchor(2-4) by simp
  from anchored_history_cannot_change [OF sample_codec sample_new ok a order_refl this] a this show ?thesis
    unfolding list_ex_iff by blast
qed

definition sample_fault_events :: "(io_faults \<times> unit audit_Record) list" where
  "sample_fault_events = [sample_event ''s'' None, sample_event ''c'' (Some 3)]"

theorem wal_fault_raises_false_alarm_witness:
  "\<exists>a x y z. fst (anchorOnce (audit_loop sample_marshal (sample_fault_events @ [sample_event ''t'' None]) sample_writer) [] True 0) = Some a
     \<and> emitted sample_marshal (sample_fault_events @ [sample_event ''t'' None]) sample_writer = [x, y, z] \<and> y \<noteq> z
     \<and> (let res = verifyFile sample_unmarshal
            (Bytes (sk_data (aw_sinks (audit_loop sample_marshal (sample_fault_events @ [sample_event ''t'' None]) sample_writer) ! 0)))
            (Some (Anchored a)) ''a''
         in if Sum256 y = Sum256 z then sr_OK res else \<not> sr_OK res \<and> sr_Reason res = Some PositionMismatch)"
proof -
  let ?evs = "sample_fault_events @ [sample_event ''t'' None]"
  obtain fl rec where ev: "sample_event ''t'' None = (fl, rec)" "io_wal fl = None" "io_sink fl 0 = None"
    by (simp add: sample_event_def)
  have total: "ar_Instance r = ''a'' \<Longrightarrow> sample_marshal r \<noteq> None" for r by (simp add: sample_marshal_def)
  have "aw_count (audit_loop sample_marshal ?evs sample_writer) = 2"
    using count_with_faults [of sample_writer sample_marshal ?evs] total
    by (simp add: sample_lines sample_writer_def) (simp add: sample_fault_events_def sample_event_def)
  moreover have "aw_head (audit_loop sample_marshal ?evs sample_writer) =
      Some (aw_prevHash (audit_loop sample_marshal ?evs sample_writer), aw_count (audit_loop sample_marshal ?evs sample_writer))"
    by (simp add: audit_loop_append ev(1) loop_step_fields ev(2) line_of_def sample_marshal_def)
  ultimately obtain a where a: "anchorOnce (audit_loop sample_marshal ?evs sample_writer) [] True 0 = (Some a, 2)"
    by (simp add: anchorOnce_def HeadHash_def)
  have sink: "list_all (\<lambda>(fl, _). io_sink fl 0 = None) ?evs" "list_ex (\<lambda>(fl, _). io_wal fl \<noteq> None) sample_fault_events"
    by (simp_all add: sample_fault_events_def sample_event_def)
  have size: "length (sk_data (aw_sinks (audit_loop sample_marshal ?evs sample_writer) ! 0)) \<le> maxVerifyBytes"
    by (intro sample_file) (simp_all add: sample_fault_events_def sample_event_def)
  have cont: "continues sample_unmarshal ''a'' (sk_data ([sample_sink] ! 0))"
    using sample_continues by (simp add: sample_sink_def)
  have lines: "emitted sample_marshal ?evs sample_writer = [x, y, z] \<Longrightarrow> y \<noteq> z" for x y z
    by (auto simp: sample_fault_events_def sample_event_def line_of_def sample_marshal_def stamp_def)
      (auto simp: hex_of_def hex_digits_def)
  obtain x y z where xyz: "emitted sample_marshal ?evs sample_writer = [x, y, z]"
    using sample_lines [of ?evs sample_writer] by (auto simp: sample_fault_events_def length_Suc_conv)
  have "ap_Count a = 2" using a by (auto simp: anchorOnce_def split: if_splits prod.splits)
  moreover note wal_fault_raises_false_alarm [OF sample_codec total sample_new _ cont sink(1) [unfolded ev(1)] sink(2) ev(2)
        a [unfolded ev(1)] order_refl size [unfolded ev(1)], folded ev(1), unfolded xyz Let_def]
  ultimately show ?thesis
    using a lines [OF xyz] xyz by (intro exI [of _ a] exI [of _ x] exI [of _ y] exI [of _ z]) (auto simp: Let_def)
qed

end
