(* ===== verification/Audit_Durability.thy ===== *)
theory Audit_Durability
  imports Audit_Evidence
begin

text \<open>
  The write-ahead log of the audit writer: a record that was appended to it stays there until every
  required sink has it, admission closes when the log fails or fills, and a boot accepts the log
  that an earlier boot left behind.
\<close>

section \<open>Retained or delivered\<close>

definition delivered :: "Writer \<Rightarrow> string \<Rightarrow> bool" where
  "delivered w c \<longleftrightarrow> list_all (\<lambda>s. sk_required s \<longrightarrow> sublist (c @ [newline]) (sk_data s)) (aw_sinks w)"

definition retained :: "Writer \<Rightarrow> string \<Rightarrow> bool" where
  "retained w c \<longleftrightarrow> sublist (c @ [newline]) (aw_wal w)"

text \<open>The records whose append to the write-ahead log succeeded.\<close>

fun durable :: "('r audit_Record \<Rightarrow> string option) \<Rightarrow> (io_faults \<times> 'r audit_Record) list \<Rightarrow> Writer \<Rightarrow> string list" where
  "durable marshal [] w = []"
| "durable marshal ((fl, rec) # evs) w =
     (if io_wal fl = None then line_of marshal w rec else []) @ durable marshal evs (loop_step marshal fl rec w)"

definition log_inv :: "string set \<Rightarrow> Writer \<Rightarrow> bool" where
  "log_inv D w \<longleftrightarrow> 0 \<le> aw_pending w
     \<and> (\<forall>c\<in>D. delivered w c \<or> retained w c) \<and> (aw_pending w = 0 \<longrightarrow> (\<forall>c\<in>D. delivered w c))"

lemma sublist_append_line: "sublist x d \<Longrightarrow> sublist x (append_line f c d)"
  by (auto simp: append_line_def sublist_appendI sublist_append split: option.splits)

lemma sublist_new_line: "sublist (c @ [newline]) (append_line None c d)"
  by (simp add: append_line_def)

text \<open>The sinks only grow, and a record that was flushed is delivered.\<close>

lemma sinks_write_grow:
  assumes "list_all (\<lambda>s. sk_required s \<longrightarrow> sublist x (sk_data s)) sinks"
  shows "list_all (\<lambda>s. sk_required s \<longrightarrow> sublist x (sk_data s)) (sinks_write f c sinks)"
  using assms by (auto simp: list_all_length nth_sinks_write sublist_append_line)

lemma sinks_write_flushed:
  assumes "flushedAll f (sinks_write f c sinks)"
  shows "list_all (\<lambda>s. sk_required s \<longrightarrow> sublist (c @ [newline]) (sk_data s)) (sinks_write f c sinks)"
  using assms by (auto simp: flushedAll_def list_all_length nth_sinks_write sublist_new_line)

definition sent :: "io_faults \<Rightarrow> string \<Rightarrow> Writer \<Rightarrow> Writer" where
  "sent fl c w =
     (let w1 = wal_append (io_wal fl) c (w\<lparr>aw_prevHash := chain_hash c\<rparr>)
      in w1\<lparr>aw_sinks := sinks_write (io_sink fl) c (aw_sinks w1)\<rparr>)"

lemma sent_fields [simp]:
  "aw_sinks (sent fl c w) = sinks_write (io_sink fl) c (aw_sinks w)"
  "aw_wal (sent fl c w) = append_line (io_wal fl) c (aw_wal w)"
  "aw_pending (sent fl c w) = (if io_wal fl = None then aw_pending w + 1 else aw_pending w)"
  by (simp_all add: sent_def Let_def)

lemma loop_step_sent:
  assumes "marshal (stamp w rec) = Some c"
  shows "aw_sinks (loop_step marshal fl rec w) = aw_sinks (wal_truncate fl (sent fl c w))"
    "aw_wal (loop_step marshal fl rec w) = aw_wal (wal_truncate fl (sent fl c w))"
    "aw_pending (loop_step marshal fl rec w) = aw_pending (wal_truncate fl (sent fl c w))"
  using assms by (simp_all add: loop_step_def sent_def Let_def)

lemma sent_inv:
  assumes "log_inv D w"
  shows "log_inv (if io_wal fl = None then insert c D else D) (sent fl c w)"
proof -
  have "delivered w x \<Longrightarrow> delivered (sent fl c w) x" "retained w x \<Longrightarrow> retained (sent fl c w) x" for x
    by (simp_all add: delivered_def retained_def sinks_write_grow sublist_append_line)
  moreover have "io_wal fl = None \<Longrightarrow> retained (sent fl c w) c" by (simp add: retained_def sublist_new_line)
  ultimately show ?thesis using assms by (auto simp: log_inv_def)
qed

lemma truncate_inv:
  assumes "log_inv D w" "io_wal fl = None"
  shows "log_inv (insert c D) (wal_truncate fl (sent fl c w))"
proof (cases "flushedAll (io_sink fl) (aw_sinks (sent fl c w)) \<and> aw_pending (sent fl c w) = 1")
  case True
  then have "aw_pending w = 0" using assms(2) by simp
  then have "delivered (sent fl c w) x" if "x \<in> insert c D" for x
    using that assms(1) sinks_write_flushed [of "io_sink fl" c "aw_sinks w"] True
    by (auto simp: log_inv_def delivered_def sinks_write_grow)
  then have "delivered (wal_truncate fl (sent fl c w)) x" if "x \<in> insert c D" for x
    using that by (simp add: delivered_def)
  moreover have "0 \<le> aw_pending (wal_truncate fl (sent fl c w))"
    using True assms(2) by (auto simp: wal_truncate_def split: trunc_outcome.splits)
  ultimately show ?thesis by (auto simp: log_inv_def)
next
  case False
  then have "wal_truncate fl (sent fl c w) = sent fl c w" by (auto simp: wal_truncate_def)
  then show ?thesis using sent_inv [OF assms(1), of fl c] assms(2) by simp
qed

lemma loop_step_inv:
  assumes "log_inv D w"
  shows "log_inv (D \<union> (if io_wal fl = None then set (line_of marshal w rec) else {})) (loop_step marshal fl rec w)"
proof (cases "marshal (stamp w rec)")
  case None
  then show ?thesis
    using assms by (simp add: loop_step_def line_of_def log_inv_def delivered_def retained_def)
next
  case (Some c)
  have "log_inv (if io_wal fl = None then insert c D else D) (wal_truncate fl (sent fl c w))"
    using truncate_inv [OF assms, of fl c] sent_inv [OF assms, of fl c] by (auto simp: wal_truncate_def)
  then show ?thesis
    using Some by (simp add: line_of_def log_inv_def delivered_def retained_def loop_step_sent)
qed

lemma audit_loop_inv:
  assumes "log_inv D w"
  shows "log_inv (D \<union> set (durable marshal evs w)) (audit_loop marshal evs w)"
  using assms
proof (induction marshal evs w arbitrary: D rule: audit_loop.induct)
  case (2 marshal fl rec evs w)
  from 2(1) [OF loop_step_inv [OF 2(2), of fl marshal rec]] show ?case by (cases "io_wal fl") (simp_all add: Un_assoc)
qed simp

lemma retain_lines_count:
  "retain_lines u ls s = Some s' \<Longrightarrow> fst s \<le> fst s'"
proof (induction u ls s rule: retain_lines.induct)
  case (2 u line ls s)
  have "fst s \<le> fst s1" if "retain_line u line s = Some s1" for s1
    using that by (auto simp: retain_line_def split: option.splits if_splits prod.splits)
  with 2 show ?case by (fastforce split: if_splits option.splits simp: bind_eq_Some_conv)
qed simp

lemma new_writer_pending: "NewWriter u mode inst wal sinks = Inr w \<Longrightarrow> 0 \<le> aw_pending w"
  using new_writer_fields(6) [of u mode inst wal sinks w] retain_lines_count [of u _ "(0, [], [])"]
  by (force simp: retainedRecords_def split: if_splits)

section \<open>Admission\<close>

text \<open>While the writer is ready, nothing failed and the buffer has room.\<close>

definition healthy :: "('r audit_Record \<Rightarrow> string option) \<Rightarrow> (io_faults \<times> 'r audit_Record) list \<Rightarrow> Writer \<Rightarrow> bool" where
  "healthy marshal evs w \<longleftrightarrow>
     list_all (\<lambda>(fl, _). io_wal fl = None) evs \<and> length (emitted marshal evs w) = length evs"

lemma loop_step_blocked:
  "aw_blocked (loop_step marshal fl rec w) = 0 \<Longrightarrow>
     aw_blocked w = 0 \<and> io_wal fl = None \<and> marshal (stamp w rec) \<noteq> None \<and> aw_pending (loop_step marshal fl rec w) < queueCapacity"
  by (auto simp: loop_step_def wal_append_def wal_truncate_def block_writer_def blockedRecord_def blockedWAL_def blockedBuffer_def Let_def
      split: option.splits if_splits trunc_outcome.splits)

lemma ready_healthy:
  assumes "aw_blocked (audit_loop marshal evs w) = 0" "aw_pending w < queueCapacity"
  shows "healthy marshal evs w \<and> aw_blocked w = 0 \<and> aw_pending (audit_loop marshal evs w) < queueCapacity"
  using assms
proof (induction marshal evs w rule: audit_loop.induct)
  case (2 marshal fl rec evs w)
  let ?w = "loop_step marshal fl rec w"
  have "aw_blocked ?w = 0"
  proof -
    have "aw_blocked (audit_loop marshal evs w) = 0 \<Longrightarrow> aw_blocked w = 0" for w
      by (induction marshal evs w rule: audit_loop.induct) (auto dest: loop_step_blocked)
    then show ?thesis using 2(2) by simp
  qed
  from loop_step_blocked [OF this] 2 this show ?case by (auto simp: healthy_def line_of_def)
qed (simp add: healthy_def)

section \<open>Restart\<close>

definition retains :: "('r audit_Record \<Rightarrow> string option) \<Rightarrow> (io_faults \<times> 'r audit_Record) list \<Rightarrow> Writer \<Rightarrow> string list \<Rightarrow> bool" where
  "retains marshal evs w kept \<longleftrightarrow>
     aw_wal (audit_loop marshal evs w) = frame kept \<and> aw_pending (audit_loop marshal evs w) = int (length kept)
     \<and> suffix kept (emitted marshal evs w)"

lemma retained_suffix:
  assumes "aw_wal w = []" "aw_pending w = 0"
    and "list_all (\<lambda>(fl, _). io_wal fl = None \<and> io_trunc fl \<noteq> SeekFails) evs"
  shows "\<exists>kept. retains marshal evs w kept"
  using assms(3)
proof (induction evs rule: rev_induct)
  case Nil
  then show ?case using assms(1,2) by (auto simp: retains_def intro: exI [of _ "[]"])
next
  case (snoc ev evs)
  obtain fl rec where ev: "ev = (fl, rec)" by (cases ev)
  let ?w = "audit_loop marshal evs w"
  obtain kept where kept: "retains marshal evs w kept" using snoc by auto
  show ?case
  proof (cases "marshal (stamp ?w rec)")
    case None
    then show ?thesis
      using kept by (auto simp: retains_def ev audit_loop_append emitted_append line_of_def loop_step_def)
  next
    case (Some c)
    have fl: "io_wal fl = None" "io_trunc fl \<noteq> SeekFails" using snoc.prems by (auto simp: ev)
    have "retains marshal (evs @ [ev]) w (kept @ [c]) \<or> retains marshal (evs @ [ev]) w []"
      using kept fl Some
      by (auto simp: retains_def ev audit_loop_append emitted_append line_of_def loop_step_sent wal_truncate_def append_line_def
          split: trunc_outcome.splits)
    then show ?thesis by blast
  qed
qed

lemma retain_linked:
  assumes "linked u inst prev ls" "hash_shaped prev" "prev \<noteq> []" "inst \<noteq> []"
    and "list_all (\<lambda>l. l \<noteq> [] \<and> pred_option (\<lambda>r. ar_Event r \<noteq> []) (u l)) ls"
    and "0 \<le> n" "0 < n \<Longrightarrow> inst' = inst \<and> expected = prev"
  shows "map_option fst (retain_lines u ls (n, inst', expected)) = Some (n + int (length ls))"
  using assms
proof (induction ls arbitrary: prev n inst' expected)
  case (Cons l ls)
  have "retain_line u l (n, inst', expected) = Some (n + 1, inst, chain_hash l)"
    using Cons.prems by (auto simp: retain_line_def links_def split: option.splits)
  moreover have "map_option fst (retain_lines u ls (n + 1, inst, chain_hash l)) = Some (n + 1 + int (length ls))"
    using Cons.prems by (intro Cons.IH [of "chain_hash l"]) (auto simp: hash_shaped_chain, simp add: chain_hash_def)
  ultimately show ?case using Cons.prems(5) by (auto simp: add.assoc)
qed simp

lemma emitted_events:
  assumes "codec_for marshal u (aw_instance w)" "hash_shaped (aw_prevHash w)" "list_all (\<lambda>(_, r). ar_Event r \<noteq> []) evs"
  shows "list_all (\<lambda>l. l \<noteq> [] \<and> pred_option (\<lambda>r. ar_Event r \<noteq> []) (u l)) (emitted marshal evs w)"
  using assms
proof (induction marshal evs w rule: audit_loop.induct)
  case (2 marshal fl rec evs w)
  let ?w = "loop_step marshal fl rec w"
  have "hash_shaped (aw_prevHash ?w)"
    using 2(3) by (simp add: loop_step_fields line_of_def hash_shaped_chain split: option.splits)
  moreover have "l \<noteq> [] \<and> pred_option (\<lambda>r. ar_Event r \<noteq> []) (u l)" if "marshal (stamp w rec) = Some l" for l
    using 2(2) [unfolded codec_for_def, rule_format, of "stamp w rec" l] 2(3,4) that by (auto simp: stamp_def clean_line_def)
  ultimately show ?case using 2 by (simp add: loop_step_fields line_of_def split: option.splits)
qed simp

lemma frame_terminated: "ls \<noteq> [] \<Longrightarrow> frame ls \<noteq> [] \<and> last (frame ls) = newline"
  by (cases ls rule: rev_cases) auto

lemma retainedRecords_frame:
  assumes "linked u inst prev ls" "hash_shaped prev" "inst \<noteq> []" "list_all clean_line ls"
    and "list_all (\<lambda>l. l \<noteq> [] \<and> pred_option (\<lambda>r. ar_Event r \<noteq> []) (u l)) ls"
  shows "retainedRecords u (frame ls) = Some (int (length ls))"
proof (cases "ls = []")
  case False
  have "prev \<noteq> []" using assms(2) by (auto simp: hash_shaped_def genesisHash_def)
  then have "map_option fst (retain_lines u ls (0, [], [])) = Some (int (length ls))"
    using retain_linked [OF assms(1,2) _ assms(3,5), of 0 "[]" "[]"] by simp
  moreover have "lines_from [] (frame ls) = ls"
    using lines_from_frame [of ls "[]"] assms(4) by (simp add: clean_line_def list_all_iff)
  ultimately show ?thesis using frame_terminated [OF False] by (simp add: retainedRecords_def)
qed (simp add: retainedRecords_def)

lemma blocked_range: "aw_blocked w \<le> 3 \<Longrightarrow> aw_blocked (audit_loop marshal evs w) \<le> 3"
proof (induction marshal evs w rule: audit_loop.induct)
  case (2 marshal fl rec evs w)
  have "aw_blocked (loop_step marshal fl rec w) \<le> 3"
    using 2(2) by (auto simp: loop_step_def wal_append_def wal_truncate_def block_writer_def blockedRecord_def blockedWAL_def
        blockedBuffer_def Let_def split: option.splits trunc_outcome.splits)
  then show ?case using 2(1) by simp
qed simp

lemma Ready_iff: "aw_blocked w \<le> 3 \<Longrightarrow> Ready (Some w) = None \<longleftrightarrow> aw_blocked w = 0"
  by (auto simp: Ready_def blockedBuffer_def blockedWAL_def blockedRecord_def)

lemma new_writer_blocked:
  assumes "NewWriter u mode inst wal sinks = Inr w"
  shows "aw_blocked w = (if aw_pending w \<ge> queueCapacity then blockedBuffer else 0)" "aw_blocked w \<le> 3"
  using assms by (auto simp: NewWriter_def blockedBuffer_def split: if_splits option.splits)

lemma healthy_durable:
  "list_all (\<lambda>(fl, _). io_wal fl = None) evs \<Longrightarrow> durable marshal evs w = emitted marshal evs w"
  by (induction marshal evs w rule: audit_loop.induct) auto

section \<open>Properties of the write-ahead log\<close>

text \<open>
  C14: No audit record is lost silently, whatever the disk does. A record whose append to the
  write-ahead log succeeded is still there, or every required sink has it, after any later run of
  records with any failures of the log, the sinks and the truncation. While the writer is ready to
  admit requests (which a failed write to a required sink alone does not end), every record it was handed was encoded and appended, fewer than 1024 records wait
  in the log, and the head it publishes counts them all.
\<close>

theorem audit_record_never_lost:
  assumes "NewWriter u mode inst wal sinks = Inr w0"
  shows "let w = audit_loop marshal evs w0 in
    list_all (\<lambda>c. sublist (c @ [newline]) (aw_wal w)
      \<or> list_all (\<lambda>s. sk_required s \<longrightarrow> sublist (c @ [newline]) (sk_data s)) (aw_sinks w)) (durable marshal evs w0)
    \<and> (Ready (Some w) = None \<longrightarrow>
         length (durable marshal evs w0) = length evs \<and> aw_pending w < 1024 \<and> snd (HeadHash w) = int (length evs))"
  unfolding Let_def
proof
  let ?w = "audit_loop marshal evs w0"
  have "log_inv {} w0" using new_writer_pending [OF assms(1)] by (simp add: log_inv_def)
  from audit_loop_inv [OF this, of marshal evs]
  show "list_all (\<lambda>c. sublist (c @ [newline]) (aw_wal ?w)
      \<or> list_all (\<lambda>s. sk_required s \<longrightarrow> sublist (c @ [newline]) (sk_data s)) (aw_sinks ?w)) (durable marshal evs w0)"
    by (auto simp: log_inv_def retained_def delivered_def list_all_iff)
  show "Ready (Some ?w) = None \<longrightarrow>
      length (durable marshal evs w0) = length evs \<and> aw_pending ?w < 1024 \<and> snd (HeadHash ?w) = int (length evs)"
  proof
    assume "Ready (Some ?w) = None"
    then have zero: "aw_blocked ?w = 0"
      using Ready_iff [of ?w] blocked_range [of w0 marshal evs] new_writer_blocked [OF assms(1)] by simp
    have "aw_blocked (audit_loop marshal evs w) = 0 \<Longrightarrow> aw_blocked w = 0" for w
      by (induction marshal evs w rule: audit_loop.induct) (auto dest: loop_step_blocked)
    then have "aw_pending w0 < queueCapacity"
      using zero new_writer_blocked(1) [OF assms(1)] by (force simp: blockedBuffer_def split: if_splits)
    note ok = ready_healthy [OF zero this]
    then have all: "list_all (\<lambda>(fl, _). io_wal fl = None) evs" "length (emitted marshal evs w0) = length evs"
      by (auto simp: healthy_def)
    then show "length (durable marshal evs w0) = length evs \<and> aw_pending ?w < 1024 \<and> snd (HeadHash ?w) = int (length evs)"
      using ok healthy_durable [OF all(1), of marshal w0] durable_count [OF all(1), of marshal w0]
        durable_head [OF all(1), of marshal w0] new_writer_fields [OF assms(1)]
      by (auto simp: queueCapacity_def HeadHash_def)
  qed
qed

text \<open>
  C39: A boot accepts the write-ahead log of the previous one. Take a run that started with an empty
  log, to which no append failed and whose records have a non-empty event. Whatever the sinks
  refused and however the truncations ended (short of a failed seek), the log that the run leaves
  behind is well framed and linked, so that the next writer opens it, counts exactly the records
  that wait in it, and starts ready unless the buffer is full. (A torn append leaves a log that the
  next writer refuses.) Assumed of the JSON codec: a record is encoded as one line from which its
  instance, its previous hash and whether it has an event are read back.
\<close>

theorem retained_wal_is_accepted:
  assumes "codec_for marshal u inst" "inst \<noteq> []" "NewWriter u mode inst (Some []) sinks = Inr w0"
    and "list_all (\<lambda>(fl, r). io_wal fl = None \<and> io_trunc fl \<noteq> SeekFails \<and> ar_Event r \<noteq> []) evs"
  shows "\<exists>w1. NewWriter u mode inst' (Some (aw_wal (audit_loop marshal evs w0))) sinks' = Inr w1
    \<and> aw_pending w1 = aw_pending (audit_loop marshal evs w0)
    \<and> (Ready (Some w1) = None \<longleftrightarrow> aw_pending (audit_loop marshal evs w0) < 1024)"
proof -
  note w0 = new_writer_fields [OF assms(3)]
  have start: "aw_wal w0 = []" "aw_pending w0 = 0" "mode = [] \<or> mode = ''buffer_then_block''"
    using assms(3) by (auto simp: NewWriter_def retainedRecords_def split: if_splits)
  have evs: "list_all (\<lambda>(fl, _). io_wal fl = None \<and> io_trunc fl \<noteq> SeekFails) evs" "list_all (\<lambda>(_, r). ar_Event r \<noteq> []) evs"
    using assms(4) by (auto simp: list_all_iff)
  obtain kept pre where kept: "aw_wal (audit_loop marshal evs w0) = frame kept"
      "aw_pending (audit_loop marshal evs w0) = int (length kept)" "emitted marshal evs w0 = pre @ kept"
    using retained_suffix [OF start(1,2) evs(1), of marshal] by (auto simp: retains_def suffix_def)
  have "linked u inst genesisHash (pre @ kept)" "list_all clean_line (pre @ kept)"
    "list_all (\<lambda>l. l \<noteq> [] \<and> pred_option (\<lambda>r. ar_Event r \<noteq> []) (u l)) (pre @ kept)"
    using emitted_linked [of marshal u w0 evs] emitted_events [of marshal u w0 evs] evs(2) assms(1) w0 kept(3) by simp_all
  moreover have "hash_shaped (chain_end genesisHash pre)"
    by (simp add: chain_end_def hash_shaped_chain)
  ultimately have "retainedRecords u (frame kept) = Some (int (length kept))"
    using assms(2) by (intro retainedRecords_frame [of u inst "chain_end genesisHash pre"]) (auto simp: linked_append)
  then obtain w1 where w1: "NewWriter u mode inst' (Some (aw_wal (audit_loop marshal evs w0))) sinks' = Inr w1"
      "aw_pending w1 = int (length kept)"
    using start(3) kept by (auto simp: NewWriter_def)
  have "Ready (Some w1) = None \<longleftrightarrow> int (length kept) < 1024"
    using Ready_iff [of w1] new_writer_blocked [OF w1(1)] w1(2) by (auto simp: queueCapacity_def blockedBuffer_def)
  with w1 kept show ?thesis by auto
qed

definition refused_event :: "string \<Rightarrow> io_faults \<times> unit audit_Record" where
  "refused_event e = (\<lparr>io_wal = None, io_sink = (\<lambda>_. Some 0), io_trunc = TruncOK\<rparr>, snd (sample_event e None))"

lemma sample_step:
  "loop_step sample_marshal (fst (refused_event e)) (snd (refused_event e)) sample_writer =
    (let c = genesisHash @ bar # ''a'' @ bar # hex_of e @ ''.'' in
     sample_writer\<lparr>aw_prevHash := chain_hash c, aw_pending := 1, aw_count := 1, aw_head := Some (chain_hash c, 1),
       aw_wal := c @ [newline]\<rparr>)"
  by (simp add: loop_step_def refused_event_def sample_event_def sample_marshal_def stamp_def sample_writer_def Let_def
      wal_append_def append_line_def sinks_write_def flushedAll_def wal_truncate_def sample_sink_def queueCapacity_def)

theorem audit_record_never_lost_witness:
  "\<exists>c. durable sample_marshal [refused_event ''s''] sample_writer = [c]
     \<and> (let w = audit_loop sample_marshal [refused_event ''s''] sample_writer in
          (sublist (c @ [newline]) (aw_wal w) \<or> sk_data (aw_sinks w ! 0) \<noteq> []) \<and> Ready (Some w) = None
          \<and> aw_pending w < 1024 \<and> snd (HeadHash w) = 1)"
proof -
  let ?w = "audit_loop sample_marshal [refused_event ''s''] sample_writer"
  have w: "?w = loop_step sample_marshal (fst (refused_event ''s'')) (snd (refused_event ''s'')) sample_writer"
    by (simp add: refused_event_def)
  obtain c where c: "durable sample_marshal [refused_event ''s''] sample_writer = [c]"
    by (simp add: refused_event_def sample_event_def line_of_def sample_marshal_def)
  have ready: "Ready (Some ?w) = None"
    unfolding w sample_step by (simp add: Let_def Ready_def sample_writer_def blockedBuffer_def blockedWAL_def blockedRecord_def)
  have sinks: "aw_sinks ?w = [sample_sink]" unfolding w sample_step by (simp add: Let_def sample_writer_def)
  have "\<not> sublist (c @ [newline]) (sk_data sample_sink)" by (simp add: sample_sink_def)
  with audit_record_never_lost [OF sample_new, of sample_marshal "[refused_event ''s'']"] ready c sinks
  show ?thesis by (simp add: Let_def sample_sink_def)
qed

theorem retained_wal_is_accepted_witness:
  "\<exists>w1. NewWriter sample_unmarshal '''' ''b'' (Some (aw_wal (audit_loop sample_marshal [refused_event ''s''] sample_writer))) [] = Inr w1
     \<and> aw_pending w1 = 1 \<and> Ready (Some w1) = None"
proof -
  have "aw_pending (audit_loop sample_marshal [refused_event ''s''] sample_writer) = 1"
    using sample_step [of "''s''"] by (simp add: refused_event_def Let_def)
  moreover have "list_all (\<lambda>(fl, r). io_wal fl = None \<and> io_trunc fl \<noteq> SeekFails \<and> ar_Event r \<noteq> []) [refused_event ''s'']"
    by (simp add: refused_event_def sample_event_def)
  ultimately show ?thesis
    using retained_wal_is_accepted [OF sample_codec _ sample_new, of "[refused_event ''s'']" "''b''" "[]"] by auto
qed

end
