(* ===== verification/Spec2Isabelle.thy ===== *)
theory Spec2Isabelle
  imports Pricing Budget Authority_Properties Authority_Fencing Tier Breaker Limiter_Rates Governance_Usage Policy_Rejection Lease_Bound Sync_Safety Audit_Durability
begin

text \<open>
  Verification of the governance core of inferplane, a gateway for language models: what a request
  may cost, who may still spend, how leases and credit travel between the control plane and its
  gateways, and what the audit log proves afterwards.

  The parts and how they interact. A gateway process (\<open>mayu\<close>, the data plane) checks a request with
  the governor, sends it to a provider through a circuit breaker, and settles its cost. The governor
  reads limits that the policy store merges from policy documents, counts money in the budget store
  and tokens in the limiter, and prices usage with the rate table. A control plane (\<open>inferplaned\<close>)
  distributes the documents in heartbeats and grants leases on budgets from a ledger; for hard
  budgets with durable authority a node journal holds escrowed credit instead. Every decision is
  written to a hash-chained audit log, whose head is anchored outside.

  Theories and sources.
  \<^item> \<open>Prelude\<close>, \<open>Go_Time\<close>, \<open>Go_Duration\<close>, \<open>Float64\<close>, \<open>Sha256\<close>: the Go language and standard library as
    the sources use them. An \<open>int64\<close> is an \<open>int\<close> whose wrap-around is written out (\<open>wrap64\<close>), a time is
    a count of nanoseconds, a time zone its offset function, a \<open>float64\<close> a rational that is rounded to
    nearest-even after every operation, a byte slice a string, and a Go map an association list with
    distinct keys. A loop over a map is an operation whose result does not depend on the order, or
    runs over sorted keys where the source sorts.
  \<^item> \<open>Usage_Schema\<close> (\<open>src/pkg/schema\<close>) and \<open>Pricing\<close> (\<open>src/internal/pricing\<close>): token usage, rate lookup,
    cost and the bound that is reserved for a request. The bound dominates every cost that the
    reserved tokens can have, and cost rounds half to even per token class.
  \<^item> \<open>Spend_Counter\<close>, \<open>Budget\<close> (\<open>src/internal/budget\<close>), \<open>Limiter\<close>, \<open>Limiter_Rates\<close>
    (\<open>src/internal/limiter\<close>): the counters. The locale \<open>spend_counter\<close> is the contract that the governor
    relies on; the budget store and the quota half of the limiter interpret it. Buckets live in a heap
    because a reservation keeps a pointer to its bucket; a pending reservation keeps its bucket
    through every sweep, and a sweep cannot be observed.
  \<^item> \<open>Governance_Types\<close>, \<open>Governance_Money\<close>, \<open>Governance_Overshoot\<close>, \<open>Governance_Check\<close>,
    \<open>Governance_Denials\<close>, \<open>Governance_Settle\<close>, \<open>Governance_Usage\<close> (\<open>src/internal/governance\<close>): local money
    admission, \<open>PreCheck\<close> with its stages in order, the admission handle, \<open>Settle\<close> and \<open>UsageOf\<close>. The
    locale \<open>stage_contract\<close> carries a fact through the stages of \<open>PreCheck\<close> and is interpreted for the
    wording of denials, for the reservations and for the budgets that were seen; \<open>usage_slot\<close> is one
    slot of the usage report and is interpreted for its six slots. Shown: recorded spend exceeds a
    limit by less than one request, an exhausted budget refuses, a refusal names a limit whose own
    check refuses and keeps no reservation, every scope is charged exactly once unless the money of
    the request belongs to the permits of its attempts, and the report agrees with the next admission.
  \<^item> \<open>Authority_Types\<close> to \<open>Authority_Fencing\<close> (\<open>src/internal/authority/local\<close>,
    \<open>src/internal/policy/authority.go\<close>): the node journal as a step relation over boots, crashes,
    reservations, settlements and exchanges with any database fault. Its invariant is shown for every
    transaction body and by rule induction for every reachable state: credit that was issued is never
    overspent, a refused reservation is free or keeps its whole bound, consumption is never refunded, a restart burns what was open, an older boot is fenced,
    poison is permanent, and whatever was written is accepted when it is read again.
  \<^item> \<open>Policy_Doc\<close>, \<open>Policy_Convert\<close>, \<open>Policy_Wf\<close>, \<open>Policy_Limits\<close>, \<open>Policy_Merge\<close>, \<open>Policy_Store\<close>,
    \<open>Policy_Rejection\<close> (\<open>src/api/v1alpha1\<close>, \<open>src/internal/policy\<close>): documents, their conversion with every
    check, the merged limits, the store and its rejections. The merges are proved equal to an unordered
    reference through the locales \<open>window_fold\<close>, \<open>least_fold\<close> and \<open>keyed_merge\<close>, each interpreted for the
    team and the user maps. A refused mandatory rule denies the requests it was to govern, or,
    with required identities, its whole distribution is refused.
  \<^item> \<open>Tier\<close> (\<open>src/internal/tier\<close>) and \<open>Breaker\<close> (\<open>src/internal/router/breaker.go\<close>): substitution tiers with
    their latch, and the circuit breaker. Latch and breaker refine specifications without the
    optimised state.
  \<^item> \<open>Lease_Ledger\<close>, \<open>Lease_Bound\<close> (\<open>src/internal/controlplane/controlplane.go\<close>): the ledger, the heartbeat
    and the installation of documents. Through any run of obedient heartbeats the recorded spend plus
    everything that the last answered leases allow until the expiry they carry stays within a budget,
    when three renew intervals are at most the day after which a data plane is forgotten.
  \<^item> \<open>Sync_Plane\<close>, \<open>Sync_Safety\<close> (\<open>src/internal/proxy/sync.go\<close>): the lease table and the syncer of a data
    plane. What the ledger takes back from a silent data plane, that data plane refuses; with required
    identities the policies served are the conversions of one verified document set that was received.
  \<^item> \<open>Audit_Ref\<close> (evidence of a denial), \<open>Audit_Chain\<close>, \<open>Audit_Evidence\<close>, \<open>Audit_Durability\<close>
    (\<open>src/internal/audit\<close>, \<open>src/internal/server/auditapi\<close>): the chain writer, the write-ahead log,
    verification and anchors. An anchored history cannot be changed unless a line of the file has
    the digest of a different record of the log, an honest log raises no alarm, and a durable record stays in the log until every required sink has it.

  Modelling choices. Mutexes make an operation atomic, so that it is a function on the state; the
  clock is an argument of each operation, or a sequence of readings where one operation reads it more
  than once. Every early return and error of the source is a branch of the result. Faults of the
  disk, the database and the network are arguments (one per transaction, write or heartbeat), and the
  theorems hold for all of them unless they name one. Code outside the repository and encodings are
  arguments too: the JSON codec of audit records, the fingerprint of a document set, the verdict on a
  credential. What a theorem assumes of them is a named hypothesis, with a witness on a concrete
  instance.

  Bounds. All recursions are structural or have a termination proof; no definition uses fuel. Sizes
  that the code bounds are the code's constants (256 rules, 1024 waiting audit records, 16 MiB for a
  verification on demand). Integers are unbounded only where the source counts list elements.

  Findings. The breaker lets every request through when it is half open, and does not cap the first
  backoff; \<open>Settle\<close> debits key and user budgets of an unknown team; the lease duration wraps for a renew
  interval of about a century (\<open>century_renew_interval_expires_at_once\<close>); a data plane that is silent
  for a day loses a lease that is still valid when the renew interval exceeds eight hours
  (\<open>pruning_releases_valid_lease\<close>); after a failed append to the write-ahead log the anchors accuse an
  honest log, unless two of its records have the same digest (\<open>wal_fault_raises_false_alarm\<close>).

  Not modelled: the HTTP handlers and provider adapters (transport and JSON translation), request
  routing and affinity (request bodies and provider handles), the configuration file, the SQL stores
  (keys, policies, providers, bodies, analytics, the central authority), sensitive-data inspection and
  token estimation (regular expressions and heuristics over bodies), telemetry, command-line tools and
  user interfaces. They read the state modelled here, hand it values, or change it through the
  operations that are modelled.
\<close>

end
